(* ===== verification/Prelude.thy ===== *)
theory Prelude
  imports Main "HOL-Library.Word" "HOL-Library.Product_Lexorder" "HOL-Library.Sublist"
begin

text \<open>
  Shared vocabulary of the development: the machine integers of the Rust sources, the string
  operations of the standard library they use, and the ``best so far'' scan that every account
  pick in \<^verbatim>\<open>src/manager/select.rs\<close> is written as, with the locale that states what such a scan
  promises its callers.
\<close>

section \<open>Collections of facts\<close>

named_theorems gate_simps \<open>the definitions of the account-level gates\<close>
named_theorems frame_simps \<open>what an operation leaves alone\<close>

section \<open>Machine integers\<close>

text \<open>
  An \<open>i64\<close> is kept as an \<open>int\<close>. The release profile compiles without overflow checks, so the
  plain operators wrap (\<open>wrap64\<close>); the \<open>saturating_\<close> operators clamp.
\<close>

type_synonym i64 = int
type_synonym u32 = "32 word"
type_synonym u64 = "64 word"

definition i64_min :: int where "i64_min = - (2 ^ 63)"
definition i64_max :: int where "i64_max = 2 ^ 63 - 1"

definition in_i64 :: "int \<Rightarrow> bool" where
  "in_i64 x \<longleftrightarrow> i64_min \<le> x \<and> x \<le> i64_max"

definition wrap64 :: "int \<Rightarrow> i64" where
  "wrap64 x = (x + 2 ^ 63) mod 2 ^ 64 - 2 ^ 63"

definition i64_add :: "i64 \<Rightarrow> i64 \<Rightarrow> i64" where "i64_add a b = wrap64 (a + b)"
definition i64_sub :: "i64 \<Rightarrow> i64 \<Rightarrow> i64" where "i64_sub a b = wrap64 (a - b)"
definition i64_mul :: "i64 \<Rightarrow> i64 \<Rightarrow> i64" where "i64_mul a b = wrap64 (a * b)"

definition sat64 :: "int \<Rightarrow> i64" where
  "sat64 x = max i64_min (min i64_max x)"

definition saturating_add_i64 :: "i64 \<Rightarrow> i64 \<Rightarrow> i64" where
  "saturating_add_i64 a b = sat64 (a + b)"
definition saturating_sub_i64 :: "i64 \<Rightarrow> i64 \<Rightarrow> i64" where
  "saturating_sub_i64 a b = sat64 (a - b)"
definition saturating_mul_i64 :: "i64 \<Rightarrow> i64 \<Rightarrow> i64" where
  "saturating_mul_i64 a b = sat64 (a * b)"

definition saturating_add_u32 :: "u32 \<Rightarrow> u32 \<Rightarrow> u32" where
  "saturating_add_u32 a b = (if unat a + unat b < 2 ^ 32 then a + b else -1)"
definition saturating_sub_u32 :: "u32 \<Rightarrow> u32 \<Rightarrow> u32" where
  "saturating_sub_u32 a b = (if b \<le> a then a - b else 0)"

text \<open>Rust's signed \<open>/\<close> truncates towards zero.\<close>

definition trunc_div :: "int \<Rightarrow> int \<Rightarrow> int" where
  "trunc_div a b = sgn a * sgn b * (\<bar>a\<bar> div \<bar>b\<bar>)"

definition clamp_int :: "int \<Rightarrow> int \<Rightarrow> int \<Rightarrow> int" where
  "clamp_int lo hi x = max lo (min hi x)"

lemma wrap64_id [simp]: "in_i64 x \<Longrightarrow> wrap64 x = x"
  by (simp add: in_i64_def i64_min_def i64_max_def wrap64_def)

lemma wrap64_in_i64 [simp]: "in_i64 (wrap64 x)"
proof -
  have "0 \<le> (x + 2 ^ 63) mod 2 ^ 64" "(x + 2 ^ 63) mod 2 ^ 64 < 2 ^ 64" by simp_all
  then show ?thesis by (simp add: in_i64_def i64_min_def i64_max_def wrap64_def)
qed

lemma sat64_in_i64 [simp]: "in_i64 (sat64 x)"
  by (simp add: sat64_def in_i64_def i64_min_def i64_max_def)

lemma sat64_id: "in_i64 x \<Longrightarrow> sat64 x = x"
  by (simp add: sat64_def in_i64_def)

lemma sat64_mono: "x \<le> y \<Longrightarrow> sat64 x \<le> sat64 y"
  by (simp add: sat64_def)

lemma saturating_add_u32_code [code]:
  "saturating_add_u32 a b = (if uint a + uint b < 2 ^ 32 then a + b else -1)"
proof -
  have "int (unat a + unat b) < int (2 ^ 32) \<longleftrightarrow> unat a + unat b < 2 ^ 32" by (rule of_nat_less_iff)
  then have "uint a + uint b < 2 ^ 32 \<longleftrightarrow> unat a + unat b < 2 ^ 32"
    by (simp only: uint_nat of_nat_add of_nat_power of_nat_numeral)
  then show ?thesis by (simp add: saturating_add_u32_def)
qed

lemma unat_saturating_add_u32:
  "unat (saturating_add_u32 a b) = min (unat a + unat b) (2 ^ 32 - 1)"
proof (cases "unat a + unat b < 2 ^ 32")
  case True
  then have "unat (a + b) = unat a + unat b" by (simp add: unat_word_ariths)
  with True show ?thesis by (simp add: saturating_add_u32_def)
next
  case False
  have "unat (- 1 :: u32) = 2 ^ 32 - 1"
    by (simp add: unsigned_minus_1_eq_mask mask_eq_exp_minus_1)
  with False show ?thesis by (simp add: saturating_add_u32_def)
qed

lemma unat_saturating_sub_u32:
  "unat (saturating_sub_u32 a b) = unat a - unat b"
  by (auto simp: saturating_sub_u32_def unat_sub word_le_nat_alt)

lemma trunc_div_nonneg: "0 \<le> a \<Longrightarrow> 0 < b \<Longrightarrow> trunc_div a b = a div b"
  by (cases "a = 0") (simp_all add: trunc_div_def)

section \<open>Strings\<close>

text \<open>The sources' \<open>&str\<close> values that are compared here are header names, header values, paths,
  model ids and labels: bytes, held as \<open>char\<close> lists.\<close>

definition ascii_lower :: "char \<Rightarrow> char" where
  "ascii_lower c = (let n = (of_char c :: nat) in if 65 \<le> n \<and> n \<le> 90 then char_of (n + 32) else c)"

definition to_ascii_lowercase :: "string \<Rightarrow> string" where
  "to_ascii_lowercase s = map ascii_lower s"

definition eq_ignore_ascii_case :: "string \<Rightarrow> string \<Rightarrow> bool" where
  "eq_ignore_ascii_case a b \<longleftrightarrow> to_ascii_lowercase a = to_ascii_lowercase b"

definition starts_with :: "string \<Rightarrow> string \<Rightarrow> bool" where
  "starts_with s p \<longleftrightarrow> take (length p) s = p"

fun contains_str :: "string \<Rightarrow> string \<Rightarrow> bool" where
  "contains_str [] p = (p = [])"
| "contains_str (c # s) p = (starts_with (c # s) p \<or> contains_str s p)"

definition is_ascii_space :: "char \<Rightarrow> bool" where
  "is_ascii_space c = (let n = (of_char c :: nat) in n = 32 \<or> (9 \<le> n \<and> n \<le> 13))"

definition trim :: "string \<Rightarrow> string" where
  "trim s = rev (dropWhile is_ascii_space (rev (dropWhile is_ascii_space s)))"

lemma starts_with_append [simp]: "starts_with (p @ s) p"
  by (simp add: starts_with_def)

lemma starts_with_iff: "starts_with s p \<longleftrightarrow> (\<exists>t. s = p @ t)"
  by (metis append_take_drop_id starts_with_append starts_with_def)

lemma contains_str_iff: "contains_str s p \<longleftrightarrow> (\<exists>a b. s = a @ p @ b)"
proof (induction s)
  case Nil
  then show ?case by auto
next
  case (Cons c s)
  show ?case
  proof
    assume "contains_str (c # s) p"
    then consider "starts_with (c # s) p" | "contains_str s p" by auto
    then show "\<exists>a b. c # s = a @ p @ b"
    proof cases
      case 1
      then show ?thesis by (metis append_Nil starts_with_iff)
    next
      case 2
      with Cons.IH show ?thesis by (metis append_Cons)
    qed
  next
    assume "\<exists>a b. c # s = a @ p @ b"
    then obtain a b where ab: "c # s = a @ p @ b" by blast
    show "contains_str (c # s) p"
    proof (cases a)
      case Nil
      with ab have "starts_with (c # s) p" by (metis append_Nil starts_with_append)
      then show ?thesis by simp
    next
      case (Cons d a')
      with ab have "s = a' @ p @ b" by simp
      with Cons.IH show ?thesis by auto
    qed
  qed
qed

section \<open>Optional lookups\<close>

text \<open>\<open>Vec::get\<close> and the \<open>is_some_and\<close> that follows it at most call sites.\<close>

definition get :: "'a list \<Rightarrow> nat \<Rightarrow> 'a option" where
  "get xs i = (if i < length xs then Some (xs ! i) else None)"

definition is_some_and :: "'a option \<Rightarrow> ('a \<Rightarrow> bool) \<Rightarrow> bool" where
  "is_some_and x p = (case x of None \<Rightarrow> False | Some v \<Rightarrow> p v)"

definition is_none_or :: "'a option \<Rightarrow> ('a \<Rightarrow> bool) \<Rightarrow> bool" where
  "is_none_or x p = (case x of None \<Rightarrow> True | Some v \<Rightarrow> p v)"

definition filter_opt :: "('a \<Rightarrow> bool) \<Rightarrow> 'a option \<Rightarrow> 'a option" where
  "filter_opt p x = (case x of None \<Rightarrow> None | Some v \<Rightarrow> if p v then Some v else None)"

definition or_else :: "'a option \<Rightarrow> 'a option \<Rightarrow> 'a option" where
  "or_else x y = (case x of None \<Rightarrow> y | Some v \<Rightarrow> Some v)"

definition unwrap_or :: "'a option \<Rightarrow> 'a \<Rightarrow> 'a" where
  "unwrap_or x d = (case x of None \<Rightarrow> d | Some v \<Rightarrow> v)"

lemma option_ops_simps [simp]:
  "is_some_and None p = False" "is_some_and (Some v) p = p v"
  "is_none_or None p = True" "is_none_or (Some v) p = p v"
  "filter_opt p None = None" "filter_opt p (Some v) = (if p v then Some v else None)"
  "or_else None y = y" "or_else (Some v) y = Some v"
  "unwrap_or None d = d" "unwrap_or (Some v) d = v"
  by (simp_all add: is_some_and_def is_none_or_def filter_opt_def or_else_def unwrap_or_def)

lemma get_eq_Some_iff: "get xs i = Some a \<longleftrightarrow> i < length xs \<and> xs ! i = a"
  by (auto simp: get_def)

lemma get_None_iff: "get xs i = None \<longleftrightarrow> length xs \<le> i"
  by (auto simp: get_def)

lemma get_list_update: "get (xs[i := a]) j = (if i = j \<and> i < length xs then Some a else get xs j)"
  by (auto simp: get_def)

lemma is_some_and_iff: "is_some_and x p \<longleftrightarrow> (\<exists>v. x = Some v \<and> p v)"
  by (cases x) auto

lemma filter_opt_Some_iff: "filter_opt p x = Some v \<longleftrightarrow> x = Some v \<and> p v"
  by (cases x) auto

lemma option_eqI: "(\<And>v. x = Some v \<longleftrightarrow> y = Some v) \<Longrightarrow> x = y"
  by (cases x; cases y) auto

lemma set_map_filter: "set (List.map_filter f xs) = {y. \<exists>x\<in>set xs. f x = Some y}"
  by (force simp: List.map_filter_def image_iff)

text \<open>\<open>Iterator::max_by_key\<close>: the last of the greatest elements.\<close>

fun max_by_key :: "('a \<Rightarrow> 'k::linorder) \<Rightarrow> 'a list \<Rightarrow> 'a option" where
  "max_by_key f [] = None"
| "max_by_key f (x # xs) =
     (case max_by_key f xs of None \<Rightarrow> Some x | Some y \<Rightarrow> if f x > f y then Some x else Some y)"

lemma max_by_key_None [simp]: "max_by_key f xs = None \<longleftrightarrow> xs = []"
  by (cases xs) (auto split: option.splits)

lemma max_by_key_Some: "max_by_key f xs = Some y \<Longrightarrow> y \<in> set xs \<and> (\<forall>x\<in>set xs. f x \<le> f y)"
  by (induction xs arbitrary: y) (fastforce split: option.splits if_splits)+

section \<open>The best-so-far scan\<close>

text \<open>
  Every pick of \<^verbatim>\<open>src/manager/select.rs\<close> is one loop: walk the accounts with their indices, skip
  those a gate refuses, and keep the first one whose key is smaller than every earlier key
  (\<open>best_key.is_none_or(|b| key < b)\<close>). \<open>f idx account\<close> is \<open>None\<close> where the loop body runs into
  \<open>continue\<close> and the candidate's key otherwise.
\<close>

fun scan_best :: "(nat \<Rightarrow> 'a \<Rightarrow> 'k::linorder option) \<Rightarrow> nat \<Rightarrow> 'a list \<Rightarrow> (nat \<times> 'k) option
    \<Rightarrow> (nat \<times> 'k) option" where
  "scan_best f i [] best = best"
| "scan_best f i (a # as) best =
     scan_best f (Suc i) as
       (case f i a of
          None \<Rightarrow> best
        | Some key \<Rightarrow>
            (case best of
               None \<Rightarrow> Some (i, key)
             | Some (j, b) \<Rightarrow> if key < b then Some (i, key) else best))"

definition pick_best :: "(nat \<Rightarrow> 'a \<Rightarrow> 'k::linorder option) \<Rightarrow> 'a list \<Rightarrow> nat option" where
  "pick_best f xs = map_option fst (scan_best f 0 xs None)"

text \<open>
  What a pick promises its callers: the index it returns is a candidate, no candidate ranks
  lower, the first of equally ranked candidates wins, and it returns nothing only when there is
  no candidate at all.
\<close>

locale ranked_pick =
  fixes pick :: "'a list \<Rightarrow> nat option"
    and key :: "nat \<Rightarrow> 'a \<Rightarrow> 'k::linorder option"
  assumes pick_sound: "pick xs = Some i \<Longrightarrow> i < length xs \<and> key i (xs ! i) \<noteq> None"
    and pick_optimal: "pick xs = Some i \<Longrightarrow> j < length xs \<Longrightarrow> key i (xs ! i) = Some k
      \<Longrightarrow> key j (xs ! j) = Some k' \<Longrightarrow> k < k' \<or> (k = k' \<and> i \<le> j)"
    and pick_complete: "pick xs = None \<Longrightarrow> j < length xs \<Longrightarrow> key j (xs ! j) = None"
begin

lemma pick_get: "pick xs = Some i \<Longrightarrow> \<exists>a k. get xs i = Some a \<and> key i a = Some k"
  using pick_sound by (fastforce simp: get_eq_Some_iff)

lemma pick_exists: "j < length xs \<Longrightarrow> key j (xs ! j) \<noteq> None \<Longrightarrow> \<exists>i. pick xs = Some i"
  using pick_complete by (cases "pick xs") auto

lemma pick_None_iff: "pick xs = None \<longleftrightarrow> (\<forall>j<length xs. key j (xs ! j) = None)"
  using pick_complete pick_sound by (metis not_None_eq)

lemma pick_unique:
  assumes "pick xs = Some i" and "j < length xs" and "key j (xs ! j) = Some k'"
    and "\<And>l k. l < length xs \<Longrightarrow> l \<noteq> j \<Longrightarrow> key l (xs ! l) = Some k \<Longrightarrow> k' < k"
  shows "i = j"
proof (rule ccontr)
  assume ij: "i \<noteq> j"
  obtain k where i: "i < length xs" and k: "key i (xs ! i) = Some k"
    using pick_sound [OF assms(1)] by blast
  from assms(4) [OF i ij k] have "k' < k" .
  with pick_optimal [OF assms(1,2) k assms(3)] show False by auto
qed

end

definition best_of :: "(nat \<Rightarrow> 'a \<Rightarrow> 'k::linorder option) \<Rightarrow> 'a list \<Rightarrow> nat \<Rightarrow> (nat \<times> 'k) option \<Rightarrow> bool" where
  "best_of f xs n b = (case b of
      None \<Rightarrow> (\<forall>j<n. f j (xs ! j) = None)
    | Some (i, k) \<Rightarrow> i < n \<and> f i (xs ! i) = Some k \<and>
        (\<forall>j<n. \<forall>k'. f j (xs ! j) = Some k' \<longrightarrow> k < k' \<or> (k = k' \<and> i \<le> j)))"

lemma best_of_step:
  assumes "best_of f xs n b"
  shows "best_of f xs (Suc n)
    (case f n (xs ! n) of None \<Rightarrow> b
     | Some key \<Rightarrow> (case b of None \<Rightarrow> Some (n, key)
                     | Some (j, b') \<Rightarrow> if key < b' then Some (n, key) else b))"
  using assms by (fastforce simp: best_of_def less_Suc_eq split: option.splits)

lemma scan_best_best_of:
  "best_of f xs n b \<Longrightarrow> n \<le> length xs \<Longrightarrow>
   best_of f xs (length xs) (scan_best f n (drop n xs) b)"
proof (induction "length xs - n" arbitrary: n b)
  case 0
  then show ?case by simp
next
  case (Suc m)
  then have n: "n < length xs" by simp
  from Suc.hyps(1) [OF _ best_of_step [OF Suc.prems(1)]] Suc.hyps(2) n
  show ?case by (simp add: Cons_nth_drop_Suc [symmetric])
qed

lemma scan_best_correct: "best_of f xs (length xs) (scan_best f 0 xs None)"
  using scan_best_best_of [of f xs 0 None] by (simp add: best_of_def)

lemma pick_best_ranked: "ranked_pick (pick_best f) f"
proof
  fix xs i j k k'
  assume p: "pick_best f xs = Some i"
  then obtain b where b: "scan_best f 0 xs None = Some (i, b)"
    by (auto simp: pick_best_def)
  with scan_best_correct [of f xs]
  have c: "i < length xs" "f i (xs ! i) = Some b"
    "\<forall>j<length xs. \<forall>k'. f j (xs ! j) = Some k' \<longrightarrow> b < k' \<or> (b = k' \<and> i \<le> j)"
    by (auto simp: best_of_def)
  show "i < length xs \<and> f i (xs ! i) \<noteq> None" using c by simp
  assume "j < length xs" "f i (xs ! i) = Some k" "f j (xs ! j) = Some k'"
  with c show "k < k' \<or> (k = k' \<and> i \<le> j)" by simp
next
  fix xs j
  assume "pick_best f xs = None" and "j < length xs"
  with scan_best_correct [of f xs] show "f j (xs ! j) = None"
    by (auto simp: pick_best_def best_of_def)
qed

interpretation best_scan: ranked_pick "pick_best f" f for f
  by (rule pick_best_ranked)

end
