(* ===== verification/F64.thy ===== *)
theory F64
  imports Prelude "HOL-Library.Log_Nat" Complex_Main
begin

text \<open>
  The \<open>f64\<close> values the quota code compares: IEEE 754 binary64 with round to nearest, ties to
  even. A finite value is the rational it denotes (the sign of zero is not kept: no comparison
  of the sources sees it, and the one \<open>to_bits\<close> is taken of a maximum that starts at \<open>0.0\<close>).
  \<open>parse_f64\<close> and \<open>parse_i64\<close> are the standard library's \<open>FromStr\<close>. Everything here computes.
\<close>

datatype f64 = NaN | NegInf | PosInf | Fin rat

section \<open>Rounding\<close>

definition pow2 :: "int \<Rightarrow> rat" where
  "pow2 e = (if 0 \<le> e then 2 ^ nat e else 1 / 2 ^ nat (- e))"

text \<open>Evaluation squares instead of counting the exponent down.\<close>

fun pow2_num :: "num \<Rightarrow> int" where
  "pow2_num Num.One = 2"
| "pow2_num (Num.Bit0 n) = (let y = pow2_num n in y * y)"
| "pow2_num (Num.Bit1 n) = (let y = pow2_num n in 2 * (y * y))"

lemma pow2_num: "pow2_num n = 2 ^ numeral n"
proof (induction n)
  case (Bit0 n)
  then show ?case by (simp only: pow2_num.simps Let_def power_numeral_even)
next
  case (Bit1 n)
  then show ?case by (simp only: pow2_num.simps Let_def power_numeral_odd mult.assoc)
qed simp

lemma pow2_code [code]:
  "pow2 0 = 1" "pow2 (Int.Pos n) = of_int (pow2_num n)" "pow2 (Int.Neg n) = inverse (of_int (pow2_num n))"
  unfolding pow2_num of_int_power by (simp_all add: pow2_def inverse_eq_divide)

text \<open>The exponent \<open>e\<close> with \<open>2\<^sup>e \<le> x < 2\<^sup>e\<^sup>+\<^sup>1\<close>, for a positive \<open>x\<close>.\<close>

definition binexp :: "rat \<Rightarrow> int" where
  "binexp x = (let (a, b) = quotient_of x;
                   e = bitlen a - bitlen b
               in if pow2 e \<le> x then e else e - 1)"

definition round_half_even :: "rat \<Rightarrow> int" where
  "round_half_even x = (let f = \<lfloor>x\<rfloor>; d = x - of_int f
     in if d < 1 / 2 then f else if d > 1 / 2 then f + 1 else if even f then f else f + 1)"

text \<open>53 significant bits, the least exponent \<open>-1074\<close>, overflow to infinity at \<open>2\<^sup>1\<^sup>0\<^sup>2\<^sup>4\<close>.\<close>

definition rnd_pos :: "rat \<Rightarrow> f64" where
  "rnd_pos x = (let q = max (binexp x - 52) (- 1074);
                    y = of_int (round_half_even (x / pow2 q)) * pow2 q
                in if y < pow2 1024 then Fin y else PosInf)"

definition f64_neg :: "f64 \<Rightarrow> f64" where
  "f64_neg v = (case v of NaN \<Rightarrow> NaN | NegInf \<Rightarrow> PosInf | PosInf \<Rightarrow> NegInf | Fin x \<Rightarrow> Fin (- x))"

definition rnd :: "rat \<Rightarrow> f64" where
  "rnd x = (if x = 0 then Fin 0 else if 0 < x then rnd_pos x else f64_neg (rnd_pos (- x)))"

section \<open>Operations\<close>

definition is_finite :: "f64 \<Rightarrow> bool" where
  "is_finite v = (case v of Fin _ \<Rightarrow> True | _ \<Rightarrow> False)"

text \<open>\<open>a < b\<close> and \<open>a <= b\<close> are false as soon as one side is NaN.\<close>

fun f64_lt :: "f64 \<Rightarrow> f64 \<Rightarrow> bool" where
  "f64_lt NaN _ = False"
| "f64_lt _ NaN = False"
| "f64_lt PosInf _ = False"
| "f64_lt _ NegInf = False"
| "f64_lt NegInf _ = True"
| "f64_lt _ PosInf = True"
| "f64_lt (Fin a) (Fin b) = (a < b)"

fun f64_le :: "f64 \<Rightarrow> f64 \<Rightarrow> bool" where
  "f64_le NaN _ = False"
| "f64_le _ NaN = False"
| "f64_le NegInf _ = True"
| "f64_le _ PosInf = True"
| "f64_le PosInf _ = False"
| "f64_le _ NegInf = False"
| "f64_le (Fin a) (Fin b) = (a \<le> b)"

abbreviation f64_ge :: "f64 \<Rightarrow> f64 \<Rightarrow> bool" where "f64_ge a b \<equiv> f64_le b a"
abbreviation f64_gt :: "f64 \<Rightarrow> f64 \<Rightarrow> bool" where "f64_gt a b \<equiv> f64_lt b a"

text \<open>\<open>==\<close> of the language: NaN is equal to nothing.\<close>

definition f64_eq :: "f64 \<Rightarrow> f64 \<Rightarrow> bool" where
  "f64_eq a b \<longleftrightarrow> a \<noteq> NaN \<and> a = b"

text \<open>\<open>f64::max\<close> returns the other operand when one is NaN.\<close>

definition f64_max :: "f64 \<Rightarrow> f64 \<Rightarrow> f64" where
  "f64_max a b = (if a = NaN then b else if b = NaN then a else if f64_lt a b then b else a)"

fun f64_add :: "f64 \<Rightarrow> f64 \<Rightarrow> f64" where
  "f64_add NaN _ = NaN"
| "f64_add _ NaN = NaN"
| "f64_add PosInf NegInf = NaN"
| "f64_add NegInf PosInf = NaN"
| "f64_add PosInf _ = PosInf"
| "f64_add _ PosInf = PosInf"
| "f64_add NegInf _ = NegInf"
| "f64_add _ NegInf = NegInf"
| "f64_add (Fin a) (Fin b) = rnd (a + b)"

definition f64_sub :: "f64 \<Rightarrow> f64 \<Rightarrow> f64" where
  "f64_sub a b = f64_add a (f64_neg b)"

text \<open>Every divisor of the sources is a non-zero finite number (\<open>100.0\<close>, or a limit that was
  just tested positive); that is the case the third equation is about.\<close>

fun f64_div :: "f64 \<Rightarrow> f64 \<Rightarrow> f64" where
  "f64_div NaN _ = NaN"
| "f64_div _ NaN = NaN"
| "f64_div (Fin a) (Fin b) =
     (if b = 0 then (if a = 0 then NaN else if 0 < a then PosInf else NegInf) else rnd (a / b))"
| "f64_div (Fin _) _ = Fin 0"
| "f64_div PosInf (Fin b) = (if b < 0 then NegInf else PosInf)"
| "f64_div NegInf (Fin b) = (if b < 0 then PosInf else NegInf)"
| "f64_div _ _ = NaN"

text \<open>Every factor of the sources is finite (a utilization and \<open>1_000_000.0\<close>); an infinite one keeps
  the sign rule.\<close>

fun f64_mul :: "f64 \<Rightarrow> f64 \<Rightarrow> f64" where
  "f64_mul (Fin a) (Fin b) = rnd (a * b)"
| "f64_mul NaN _ = NaN"
| "f64_mul _ NaN = NaN"
| "f64_mul PosInf (Fin b) = (if b = 0 then NaN else if 0 < b then PosInf else NegInf)"
| "f64_mul NegInf (Fin b) = (if b = 0 then NaN else if 0 < b then NegInf else PosInf)"
| "f64_mul (Fin a) PosInf = (if a = 0 then NaN else if 0 < a then PosInf else NegInf)"
| "f64_mul (Fin a) NegInf = (if a = 0 then NaN else if 0 < a then NegInf else PosInf)"
| "f64_mul PosInf PosInf = PosInf"
| "f64_mul NegInf NegInf = PosInf"
| "f64_mul _ _ = NegInf"

text \<open>\<open>as u64\<close> truncates and saturates; NaN becomes 0.\<close>

definition f64_as_u64 :: "f64 \<Rightarrow> u64" where
  "f64_as_u64 v = (case v of
      Fin x \<Rightarrow> word_of_int (max 0 (min (2 ^ 64 - 1) \<lfloor>x\<rfloor>))
    | PosInf \<Rightarrow> - 1
    | _ \<Rightarrow> 0)"

definition f64_of_int :: "int \<Rightarrow> f64" where "f64_of_int n = rnd (of_int n)"

definition f64_zero :: f64 where "f64_zero = Fin 0"
definition f64_one :: f64 where "f64_one = Fin 1"

section \<open>The bit pattern\<close>

text \<open>\<open>f64::to_bits\<close> of a non-negative value, as a number: the biased exponent above the 52
  fraction bits. On such values its order is the order of the numbers.\<close>

definition f64_to_bits :: "f64 \<Rightarrow> int" where
  "f64_to_bits v = (case v of
      NaN \<Rightarrow> 2047 * 2 ^ 52 + 2 ^ 51
    | NegInf \<Rightarrow> 2 ^ 63 + 2047 * 2 ^ 52
    | PosInf \<Rightarrow> 2047 * 2 ^ 52
    | Fin x \<Rightarrow>
        (let m = \<bar>x\<bar>; s = (if x < 0 then 2 ^ 63 else 0) in
         if m = 0 then s
         else if m < pow2 (- 1022) then s + \<lfloor>m / pow2 (- 1074)\<rfloor>
         else let e = binexp m in s + (e + 1023) * 2 ^ 52 + (\<lfloor>m / pow2 (e - 52)\<rfloor> - 2 ^ 52)))"

section \<open>Parsing\<close>

definition digit_of :: "char \<Rightarrow> nat option" where
  "digit_of c = (let n = (of_char c :: nat) in if 48 \<le> n \<and> n \<le> 57 then Some (n - 48) else None)"

fun parse_digits :: "string \<Rightarrow> int \<Rightarrow> int option" where
  "parse_digits [] acc = Some acc"
| "parse_digits (c # s) acc =
     (case digit_of c of None \<Rightarrow> None | Some d \<Rightarrow> parse_digits s (10 * acc + int d))"

definition parse_nat1 :: "string \<Rightarrow> int option" where
  "parse_nat1 s = (if s = [] then None else parse_digits s 0)"

definition split_sign :: "string \<Rightarrow> int \<times> string" where
  "split_sign s = (case s of
      [] \<Rightarrow> (1, [])
    | c # t \<Rightarrow> if c = CHR ''-'' then (- 1, t) else if c = CHR ''+'' then (1, t) else (1, s))"

text \<open>\<open>str::parse::<i64>\<close>: an optional sign, at least one digit, and a value that fits.\<close>

definition parse_i64 :: "string \<Rightarrow> i64 option" where
  "parse_i64 s = (let (sg, t) = split_sign s in
     case parse_nat1 t of None \<Rightarrow> None
     | Some n \<Rightarrow> let v = sg * n in if in_i64 v then Some v else None)"

definition is_digit :: "char \<Rightarrow> bool" where "is_digit c = (digit_of c \<noteq> None)"

definition scale10 :: "int \<Rightarrow> int \<Rightarrow> rat" where
  "scale10 m e = (if 0 \<le> e then of_int m * 10 ^ nat e else of_int m / 10 ^ nat (- e))"

text \<open>The exponent suffix of a decimal float literal: empty, or \<open>e\<close> with an optional sign and at
  least one digit.\<close>

definition parse_exponent :: "string \<Rightarrow> int option" where
  "parse_exponent s = (case s of
      [] \<Rightarrow> Some 0
    | c # t \<Rightarrow>
        if c = CHR ''e'' \<or> c = CHR ''E'' then
          (let (sg, u) = split_sign t in map_option (\<lambda>n. sg * n) (parse_nat1 u))
        else None)"

definition parse_decimal :: "string \<Rightarrow> rat option" where
  "parse_decimal s =
     (let ip = takeWhile is_digit s; r = dropWhile is_digit s;
          (fp, x) = (case r of
             [] \<Rightarrow> ([], [])
           | c # t \<Rightarrow> if c = CHR ''.'' then (takeWhile is_digit t, dropWhile is_digit t) else ([], r))
      in if ip = [] \<and> fp = [] then None
         else (case (parse_digits (ip @ fp) 0, parse_exponent x) of
                 (Some m, Some e) \<Rightarrow> Some (scale10 m (e - int (length fp)))
               | _ \<Rightarrow> None))"

definition parse_f64 :: "string \<Rightarrow> f64 option" where
  "parse_f64 s =
     (let (sg, t) = split_sign s; signed = (\<lambda>v. if sg < 0 then f64_neg v else v) in
      if eq_ignore_ascii_case t ''inf'' \<or> eq_ignore_ascii_case t ''infinity'' then Some (signed PosInf)
      else if eq_ignore_ascii_case t ''nan'' then Some NaN
      else map_option (\<lambda>x. signed (rnd x)) (parse_decimal t))"

section \<open>Lemmas\<close>

lemma is_finite_simps [simp]:
  "is_finite (Fin x)" "\<not> is_finite NaN" "\<not> is_finite PosInf" "\<not> is_finite NegInf"
  by (simp_all add: is_finite_def)

lemma is_finite_iff: "is_finite v \<longleftrightarrow> (\<exists>x. v = Fin x)"
  by (cases v) simp_all

lemma f64_consts_finite [simp]: "is_finite f64_zero" "is_finite f64_one"
  by (simp_all add: f64_zero_def f64_one_def)

lemma f64_le_refl: "v \<noteq> NaN \<Longrightarrow> f64_le v v"
  by (cases v) simp_all

lemma f64_le_trans: "f64_le a b \<Longrightarrow> f64_le b c \<Longrightarrow> f64_le a c"
  by (cases a; cases b; cases c) simp_all

lemma f64_lt_le_trans: "f64_lt a b \<Longrightarrow> f64_le b c \<Longrightarrow> f64_lt a c"
  by (cases a; cases b; cases c) simp_all

lemma f64_le_lt_trans: "f64_le a b \<Longrightarrow> f64_lt b c \<Longrightarrow> f64_lt a c"
  by (cases a; cases b; cases c) simp_all

lemma f64_not_le_iff_lt: "a \<noteq> NaN \<Longrightarrow> b \<noteq> NaN \<Longrightarrow> \<not> f64_le a b \<longleftrightarrow> f64_lt b a"
  by (cases a; cases b) auto

lemma f64_lt_imp_not_le: "f64_lt a b \<Longrightarrow> \<not> f64_le b a"
  by (cases a; cases b) simp_all

lemma f64_max_finite: "is_finite a \<Longrightarrow> is_finite b \<Longrightarrow> is_finite (f64_max a b)"
  by (cases a; cases b) (simp_all add: f64_max_def)

lemma f64_max_ge1: "a \<noteq> NaN \<Longrightarrow> f64_le a (f64_max a b)"
  by (cases a; cases b) (auto simp: f64_max_def)

lemma f64_max_ge2: "b \<noteq> NaN \<Longrightarrow> f64_le b (f64_max a b)"
  by (cases a; cases b) (auto simp: f64_max_def)

lemma f64_max_le_iff:
  "a \<noteq> NaN \<Longrightarrow> b \<noteq> NaN \<Longrightarrow> f64_le (f64_max a b) c \<longleftrightarrow> f64_le a c \<and> f64_le b c"
  by (cases a; cases b; cases c) (auto simp: f64_max_def)

lemma parse_i64_in_i64: "parse_i64 s = Some v \<Longrightarrow> in_i64 v"
  by (auto simp: parse_i64_def Let_def split: prod.splits option.splits if_splits)

subsection \<open>Rounding stays finite\<close>

lemma pow2_pos [simp]: "0 < pow2 e"
  by (simp add: pow2_def)

lemma pow2_powi: "pow2 e = 2 powi e"
  by (simp add: pow2_def power_int_def field_simps)

lemma pow2_mono: "a \<le> b \<Longrightarrow> pow2 a \<le> pow2 b"
  unfolding pow2_powi by (rule power_int_increasing) simp_all

lemma pow2_add: "pow2 (a + b) = pow2 a * pow2 b"
  unfolding pow2_powi by (simp add: power_int_add)

lemma pow2_binexp_le:
  assumes "0 < x"
  shows "pow2 (binexp x) \<le> x"
proof -
  obtain a b where q: "quotient_of x = (a, b)" by force
  have b: "0 < b" using quotient_of_denom_pos [OF q] .
  have x: "x = of_int a / of_int b" using quotient_of_div [OF q] .
  have a: "0 < a" using assms b by (simp add: x zero_less_divide_iff)
  let ?e = "bitlen a - bitlen b"
  show ?thesis
  proof (cases "pow2 ?e \<le> x")
    case True
    then show ?thesis by (simp add: binexp_def q)
  next
    case False
    have la: "2 ^ nat (bitlen a - 1) \<le> a" and lb: "b < 2 ^ nat (bitlen b)"
      using bitlen_bounds [of a] bitlen_bounds [of b] a b by auto
    have "pow2 (bitlen a - 1) \<le> of_int a"
    proof -
      have "0 \<le> bitlen a - 1" using a bitlen_le_iff_power [of a 0] by simp
      then have "pow2 (bitlen a - 1) = of_int (2 ^ nat (bitlen a - 1))" by (simp add: pow2_def)
      also have "\<dots> \<le> of_int a" using la by (simp only: of_int_le_iff)
      finally show ?thesis .
    qed
    moreover have "(of_int b :: rat) \<le> pow2 (bitlen b)"
    proof -
      have "pow2 (bitlen b) = of_int (2 ^ nat (bitlen b))" using bitlen_nonneg by (simp add: pow2_def)
      then show ?thesis using lb by (metis less_imp_le of_int_le_iff)
    qed
    moreover have "pow2 (?e - 1) * pow2 (bitlen b) = pow2 (bitlen a - 1)"
      by (simp add: pow2_add [symmetric])
    ultimately have "pow2 (?e - 1) * of_int b \<le> of_int a"
      by (metis mult_left_mono order_less_imp_le order_trans pow2_pos)
    then have "pow2 (?e - 1) \<le> x" using b by (simp add: x pos_le_divide_eq)
    with False show ?thesis by (simp add: binexp_def q)
  qed
qed

lemma round_half_even_le: "of_int (round_half_even x) \<le> x + 1"
  unfolding round_half_even_def Let_def
  by (auto simp: floor_le_iff intro: order_trans [OF of_int_floor_le])

lemma round_half_even_nonneg: "0 \<le> x \<Longrightarrow> 0 \<le> round_half_even x"
  by (auto simp: round_half_even_def Let_def)

lemma rnd_pos_finite:
  assumes "0 < x" and "4 * x \<le> pow2 1024"
  shows "is_finite (rnd_pos x)"
proof -
  let ?q = "max (binexp x - 52) (- 1074)"
  have "of_int (round_half_even (x / pow2 ?q)) * pow2 ?q \<le> (x / pow2 ?q + 1) * pow2 ?q"
    by (intro mult_right_mono round_half_even_le) (simp add: less_imp_le)
  also have "\<dots> = x + pow2 ?q" using less_imp_neq [OF pow2_pos, of ?q] by (simp add: field_simps)
  also have "\<dots> < pow2 1024"
  proof -
    have "pow2 (binexp x - 52) \<le> x"
      using pow2_mono [of "binexp x - 52" "binexp x"] pow2_binexp_le [OF assms(1)] by simp
    moreover have "4 * pow2 (- 1074) \<le> pow2 1024"
      using pow2_mono [of "2 + (- 1074)" 1024] by (simp only: pow2_add) (simp add: pow2_def)
    ultimately show ?thesis using assms pow2_pos [of 1024] by (auto simp: max_def)
  qed
  finally show ?thesis by (simp add: rnd_pos_def Let_def)
qed

lemma f64_neg_finite [simp]: "is_finite (f64_neg v) = is_finite v"
  by (cases v) (simp_all add: f64_neg_def)

lemma rnd_finite: "4 * \<bar>x\<bar> \<le> pow2 1024 \<Longrightarrow> is_finite (rnd x)"
  by (auto simp: rnd_def intro!: rnd_pos_finite)

lemma rnd_pos_bound: "0 < x \<Longrightarrow> rnd_pos x = Fin y \<Longrightarrow> \<bar>y\<bar> < pow2 1024"
  using round_half_even_nonneg [of "x / pow2 (max (binexp x - 52) (- 1074))"]
  by (auto simp: rnd_pos_def Let_def zero_le_mult_iff less_imp_le split: if_splits)

lemma f64_neg_eq_Fin: "f64_neg v = Fin y \<longleftrightarrow> v = Fin (- y)"
  by (cases v) (auto simp: f64_neg_def)

lemma rnd_bound: "rnd x = Fin y \<Longrightarrow> \<bar>y\<bar> < pow2 1024"
  using rnd_pos_bound [of x y] rnd_pos_bound [of "- x" "- y"] pow2_pos [of 1024]
  by (auto simp: rnd_def f64_neg_eq_Fin split: if_splits)

lemma parse_f64_bound: "parse_f64 s = Some (Fin y) \<Longrightarrow> \<bar>y\<bar> < pow2 1024"
  using rnd_bound [of _ y] rnd_bound [of _ "- y"]
  by (auto simp: parse_f64_def Let_def f64_neg_eq_Fin f64_neg_def [of PosInf]
      split: prod.splits if_splits)

text \<open>A parsed percentage divided by 100 is finite.\<close>

lemma percent_finite:
  assumes "parse_f64 s = Some v" and "is_finite v"
  shows "is_finite (f64_div v (Fin 100))"
proof -
  obtain y where y: "v = Fin y" using assms(2) by (auto simp: is_finite_iff)
  have "\<bar>y\<bar> < pow2 1024" using parse_f64_bound assms(1) y by blast
  then have "4 * \<bar>y / 100\<bar> \<le> pow2 1024" by simp
  then show ?thesis using rnd_finite [of "y / 100"] by (simp add: y)
qed

end
