(* ===== verification/Json.thy ===== *)
theory Json
  imports F64
begin

text \<open>
  The values the probes read out of a decoded JSON document (\<open>serde_json::Value\<close>), with the
  accessors the sources call on them. Decoding the bytes is third-party code and stays outside: a
  definition that starts from bytes takes the decoder as an argument.
\<close>

datatype json =
    JNull
  | JBool bool
  | JInt int
  | JFloat f64
  | JStr string
  | JArr "json list"
  | JObj "(string \<times> json) list"

definition jget :: "string \<Rightarrow> json \<Rightarrow> json option" where
  "jget k v = (case v of JObj m \<Rightarrow> map_of m k | _ \<Rightarrow> None)"

definition as_string :: "json \<Rightarrow> string option" where
  "as_string v = (case v of JStr s \<Rightarrow> Some s | _ \<Rightarrow> None)"

definition as_bool :: "json \<Rightarrow> bool option" where
  "as_bool v = (case v of JBool b \<Rightarrow> Some b | _ \<Rightarrow> None)"

definition as_i64 :: "json \<Rightarrow> i64 option" where
  "as_i64 v = (case v of JInt n \<Rightarrow> if in_i64 n then Some n else None | _ \<Rightarrow> None)"

definition as_f64 :: "json \<Rightarrow> f64 option" where
  "as_f64 v = (case v of JInt n \<Rightarrow> Some (f64_of_int n) | JFloat x \<Rightarrow> Some x | _ \<Rightarrow> None)"

definition as_array :: "json \<Rightarrow> json list option" where
  "as_array v = (case v of JArr l \<Rightarrow> Some l | _ \<Rightarrow> None)"

definition is_object :: "json \<Rightarrow> bool" where
  "is_object v = (case v of JObj _ \<Rightarrow> True | _ \<Rightarrow> False)"

text \<open>\<open>v.get(k).and_then(f)\<close>.\<close>

definition jfield :: "string \<Rightarrow> (json \<Rightarrow> 'a option) \<Rightarrow> json \<Rightarrow> 'a option" where
  "jfield k f v = Option.bind (jget k v) f"

lemma jfield_Some_iff: "jfield k f v = Some x \<longleftrightarrow> (\<exists>w. jget k v = Some w \<and> f w = Some x)"
  by (auto simp: jfield_def bind_eq_Some_conv)

lemma as_i64_in_i64: "as_i64 v = Some n \<Longrightarrow> in_i64 n"
  by (auto simp: as_i64_def split: json.splits if_splits)

end
