(* ===== verification/Provider.thy ===== *)
theory Provider
  imports Prelude
begin

text \<open>
  \<^verbatim>\<open>src/provider.rs\<close> and the two model predicates of \<^verbatim>\<open>src/model.rs\<close>: which upstream a request
  path, an account and a model id belong to. The lemmas show that the path classification and the
  per-provider inference tables agree, and that provider names round-trip.
\<close>

datatype provider = Anthropic | Codex

definition CODEX_PATH_PREFIX :: string where "CODEX_PATH_PREFIX = ''/backend-api''"
definition CODEX_RESPONSES_PATH :: string where
  "CODEX_RESPONSES_PATH = ''/backend-api/codex/responses''"

definition provider_ALL :: "provider list" where "provider_ALL = [Anthropic, Codex]"

fun as_str :: "provider \<Rightarrow> string" where
  "as_str Anthropic = ''anthropic''"
| "as_str Codex = ''codex''"

definition from_name :: "string \<Rightarrow> provider option" where
  "from_name name = find (\<lambda>p. as_str p = name) provider_ALL"

definition of_path :: "string \<Rightarrow> provider" where
  "of_path path =
     (if path = CODEX_PATH_PREFIX \<or> starts_with path ''/backend-api/'' then Codex else Anthropic)"

fun is_inference_path :: "provider \<Rightarrow> string \<Rightarrow> bool" where
  "is_inference_path Anthropic path = (path = ''/v1/messages'' \<or> path = ''/v1/messages/count_tokens'')"
| "is_inference_path Codex path =
     (path \<in> set [CODEX_RESPONSES_PATH,
                 ''/backend-api/codex/images/generations'',
                 ''/backend-api/codex/images/edits'',
                 ''/backend-api/codex/memories/trace_summarize'',
                 ''/backend-api/codex/alpha/search''])"

fun on_peer_mesh :: "provider \<Rightarrow> bool" where
  "on_peer_mesh Anthropic = True"
| "on_peer_mesh Codex = False"

fun has_fable_bucket :: "provider \<Rightarrow> bool" where
  "has_fable_bucket Anthropic = True"
| "has_fable_bucket Codex = False"

fun rewrites_cache_ttl :: "provider \<Rightarrow> bool" where
  "rewrites_cache_ttl Anthropic = True"
| "rewrites_cache_ttl Codex = False"

fun is_anthropic :: "provider \<Rightarrow> bool" where
  "is_anthropic Anthropic = True"
| "is_anthropic Codex = False"

definition is_fable_model :: "string \<Rightarrow> bool" where
  "is_fable_model model = contains_str (to_ascii_lowercase model) ''fable''"

definition thinking_is_org_bound :: "string \<Rightarrow> bool" where
  "thinking_is_org_bound model =
     (let m = to_ascii_lowercase model in
      contains_str m ''claude-sonnet-5-5'' \<or> contains_str m ''claude-haiku-5-5'')"

lemma from_name_as_str: "from_name (as_str p) = Some p"
  by (cases p) (simp_all add: from_name_def provider_ALL_def)

lemma from_name_Some_iff: "from_name name = Some p \<longleftrightarrow> name = as_str p"
  by (cases p) (auto simp: from_name_def provider_ALL_def split: if_splits)

lemma inference_path_provider: "is_inference_path p path \<Longrightarrow> of_path path = p"
  by (cases p)
    (auto simp: of_path_def CODEX_PATH_PREFIX_def CODEX_RESPONSES_PATH_def starts_with_def)

lemma is_fable_model_case_insensitive:
  "eq_ignore_ascii_case a b \<Longrightarrow> is_fable_model a = is_fable_model b"
  by (simp add: eq_ignore_ascii_case_def is_fable_model_def)

text \<open>
  The path classifier and the inference tables agree: a path that one provider serves as
  pooled inference belongs to that provider, so no path is inference for two providers, and
  the name a provider prints is the only name it is read back from.
\<close>

theorem provider_classification:
  "(is_inference_path p path \<longrightarrow> of_path path = p \<and> (\<forall>q. is_inference_path q path \<longrightarrow> q = p)) \<and>
   from_name (as_str p) = Some p \<and> (\<forall>name. from_name name = Some p \<longleftrightarrow> name = as_str p)"
  using inference_path_provider from_name_as_str from_name_Some_iff by blast

theorem provider_classification_witness:
  "of_path ''/backend-api/codex/alpha/search'' = Codex \<and>
   \<not> is_inference_path Anthropic ''/backend-api/codex/alpha/search'' \<and>
   from_name ''codex'' = Some Codex"
  using provider_classification [of Codex "''/backend-api/codex/alpha/search''"] by auto

end
