(* ===== verification/Quota.thy ===== *)
theory Quota
  imports Json Provider "HOL-Library.Option_ord"
begin

text \<open>
  \<^verbatim>\<open>src/quota.rs\<close>: what an account's quota windows say, learned from response headers, from
  refusals and from the usage probes (the reading a probe hands over is declared in
  \<^verbatim>\<open>src/probe.rs\<close> and \<^verbatim>\<open>src/codex_probe.rs\<close>).

  An \<open>OffsetDateTime\<close> is the instant it names, in nanoseconds since the epoch. The conversions of
  the \<open>time\<close> crate can fail, and which instants they accept is that crate's business, so they are
  the fields of the record \<open>time_lib\<close> that every reader takes as its first argument.
  The clock is an argument too (\<open>now\<close>). The invariant \<open>quota_ok\<close> says that every stored window has
  a finite utilization, and that a window with a positive utilization has a reset.
\<close>

section \<open>Instants\<close>

type_synonym odt = int

definition ns_per_sec :: int where "ns_per_sec = 1000000000"
definition ns_per_ms :: int where "ns_per_ms = 1000000"

record time_lib =
  tl_from_unix_timestamp :: "i64 \<Rightarrow> odt option"
  tl_from_unix_timestamp_nanos :: "int \<Rightarrow> odt option"
  tl_parse_rfc3339 :: "string \<Rightarrow> odt option"
  tl_checked_add :: "odt \<Rightarrow> int \<Rightarrow> odt option"

text \<open>What the crate documents of these: a conversion that succeeds names the instant asked for.\<close>

definition time_lib_ok :: "time_lib \<Rightarrow> bool" where
  "time_lib_ok T \<longleftrightarrow>
     (\<forall>s t. tl_from_unix_timestamp T s = Some t \<longrightarrow> t = s * ns_per_sec) \<and>
     (\<forall>n t. tl_from_unix_timestamp_nanos T n = Some t \<longrightarrow> t = n) \<and>
     (\<forall>a d t. tl_checked_add T a d = Some t \<longrightarrow> t = a + d)"

definition unix_timestamp :: "odt \<Rightarrow> i64" where "unix_timestamp t = t div ns_per_sec"

definition FIVE_HOUR :: int where "FIVE_HOUR = 5 * 3600 * ns_per_sec"
definition SEVEN_DAY :: int where "SEVEN_DAY = 7 * 24 * 3600 * ns_per_sec"

definition resolve_reset :: "odt option \<Rightarrow> odt option \<Rightarrow> odt \<Rightarrow> int \<Rightarrow> odt option" where
  "resolve_reset reported prior now window =
     (case reported of
        Some reset \<Rightarrow> Some reset
      | None \<Rightarrow>
          (case prior of
             Some p \<Rightarrow> if p > now then Some p else Some (now + window)
           | None \<Rightarrow> Some (now + window)))"

section \<open>Windows\<close>

record quota_window =
  utilization :: f64
  reset :: "odt option"

definition effective :: "quota_window \<Rightarrow> odt \<Rightarrow> f64" where
  "effective w now =
     (case reset w of Some r \<Rightarrow> if now \<ge> r then f64_zero else utilization w | None \<Rightarrow> utilization w)"

definition live_reset :: "quota_window \<Rightarrow> odt \<Rightarrow> odt option" where
  "live_reset w now =
     (case reset w of Some r \<Rightarrow> if now < r then Some r else None | None \<Rightarrow> None)"

record codex_window =
  cw_minutes :: "u32 option"

record codex_windows =
  cws_five_hour :: "codex_window option"
  cws_seven_day :: "codex_window option"

definition wire_names :: "codex_windows \<Rightarrow> string list" where
  "wire_names ws = List.map_filter (\<lambda>(window, name). map_option (\<lambda>_. name) window)
     [(cws_five_hour ws, ''fiveHour''), (cws_seven_day ws, ''sevenDay'')]"

record codex_credits =
  has_credits :: bool
  unlimited :: bool
  balance :: "string option"

record codex_quota_facts =
  probed_windows :: "codex_windows option"
  header_windows :: "codex_windows option"
  limit_reached_type :: "string option"
  refusal_reset :: "odt option"
  spend_control_reached :: bool
  credits :: "codex_credits option"

definition codex_facts_windows :: "codex_quota_facts \<Rightarrow> codex_windows option" where
  "codex_facts_windows c = or_else (probed_windows c) (header_windows c)"

record quota =
  five_hour :: "quota_window option"
  seven_day :: "quota_window option"
  seven_day_oi :: "quota_window option"
  q_status :: "string option"
  tokens_limit :: "i64 option"
  tokens_remaining :: "i64 option"
  requests_limit :: "i64 option"
  requests_remaining :: "i64 option"
  standard_reset :: "odt option"
  extra_usage_usd :: "f64 option"
  updated_at :: "odt option"
  q_codex :: codex_quota_facts

definition codex_facts_default :: codex_quota_facts where
  "codex_facts_default = \<lparr>probed_windows = None, header_windows = None, limit_reached_type = None,
     refusal_reset = None, spend_control_reached = False, credits = None\<rparr>"

definition quota_default :: quota where
  "quota_default = \<lparr>five_hour = None, seven_day = None, seven_day_oi = None, q_status = None,
     tokens_limit = None, tokens_remaining = None, requests_limit = None, requests_remaining = None,
     standard_reset = None, extra_usage_usd = None, updated_at = None, q_codex = codex_facts_default\<rparr>"

abbreviation q_rejected :: "quota \<Rightarrow> bool" where
  "q_rejected q \<equiv> q_status q = Some ''rejected''"

definition codex_limit_reached_type :: "quota \<Rightarrow> string option" where
  "codex_limit_reached_type q = filter_opt (\<lambda>_. q_rejected q) (limit_reached_type (q_codex q))"

section \<open>Reading headers\<close>

text \<open>\<open>HeaderView\<close>: the value of a header by its case-insensitive name.\<close>

type_synonym headers = "string \<Rightarrow> string option"

definition get_parsed_f64 :: "headers \<Rightarrow> string \<Rightarrow> f64 option" where
  "get_parsed_f64 h name = Option.bind (h name) (\<lambda>s. parse_f64 (trim s))"

definition get_parsed_i64 :: "headers \<Rightarrow> string \<Rightarrow> i64 option" where
  "get_parsed_i64 h name = Option.bind (h name) (\<lambda>s. parse_i64 (trim s))"

definition get_reset :: "time_lib \<Rightarrow> headers \<Rightarrow> string \<Rightarrow> odt option" where
  "get_reset T h name =
     (case h name of
        None \<Rightarrow> None
      | Some s \<Rightarrow>
          let raw = trim s in
          (case parse_i64 raw of
             Some secs \<Rightarrow> tl_from_unix_timestamp T secs
           | None \<Rightarrow> tl_parse_rfc3339 T raw))"

datatype unified_rejection_kind = Overall | FiveHour | SevenDay | FableWeekly

definition header_says :: "headers \<Rightarrow> string \<Rightarrow> string \<Rightarrow> bool" where
  "header_says h name expected = is_some_and (h name) (\<lambda>s. eq_ignore_ascii_case s expected)"

definition scope_is_allowed :: "headers \<Rightarrow> string \<Rightarrow> bool" where
  "scope_is_allowed h name = (header_says h name ''allowed'' \<or> header_says h name ''allowed_warning'')"

definition quota_rejections :: "headers \<Rightarrow> unified_rejection_kind list" where
  "quota_rejections h =
     (let five_rejected = header_says h ''anthropic-ratelimit-unified-5h-status'' ''rejected'';
          seven_rejected = header_says h ''anthropic-ratelimit-unified-7d-status'' ''rejected'';
          fable_rejected = header_says h ''anthropic-ratelimit-unified-7d_oi-status'' ''rejected'';
          shared_allowed = (scope_is_allowed h ''anthropic-ratelimit-unified-5h-status'' \<and>
                            scope_is_allowed h ''anthropic-ratelimit-unified-7d-status'');
          overall_rejected = (header_says h ''anthropic-ratelimit-unified-status'' ''rejected'' \<and>
                              \<not> (five_rejected \<or> seven_rejected \<or> fable_rejected \<and> shared_allowed))
      in List.map_filter (\<lambda>(rejected, kind). if rejected then Some kind else None)
           [(overall_rejected, Overall), (five_rejected, FiveHour),
            (seven_rejected, SevenDay), (fable_rejected, FableWeekly)])"

text \<open>The three windows of \<open>update_from_headers\<close> are learned by the same steps: a finite
  utilization, then its reported reset resolved against the prior window's.\<close>

definition learn_window ::
  "time_lib \<Rightarrow> headers \<Rightarrow> odt \<Rightarrow> string \<Rightarrow> string \<Rightarrow> int \<Rightarrow> quota_window option \<Rightarrow> quota_window option" where
  "learn_window T h now util_name reset_name window prior =
     map_option (\<lambda>util. \<lparr>utilization = util,
         reset = resolve_reset (get_reset T h reset_name) (Option.bind prior reset) now window\<rparr>)
       (filter_opt is_finite (get_parsed_f64 h util_name))"

definition learn_seven_day_oi :: "time_lib \<Rightarrow> headers \<Rightarrow> odt \<Rightarrow> quota \<Rightarrow> quota_window option" where
  "learn_seven_day_oi T h now q =
     (case learn_window T h now ''anthropic-ratelimit-unified-7d_oi-utilization''
             ''anthropic-ratelimit-unified-7d_oi-reset'' SEVEN_DAY (seven_day_oi q) of
        Some w \<Rightarrow> Some w
      | None \<Rightarrow>
          if scope_is_allowed h ''anthropic-ratelimit-unified-7d_oi-status'' \<and>
             is_some_and (seven_day_oi q) (\<lambda>w. f64_ge (utilization w) f64_one)
          then Some \<lparr>utilization = f64_zero,
                 reset = resolve_reset (get_reset T h ''anthropic-ratelimit-unified-7d_oi-reset'')
                           (Option.bind (seven_day_oi q) reset) now SEVEN_DAY\<rparr>
          else None)"

definition update_from_headers :: "time_lib \<Rightarrow> odt \<Rightarrow> headers \<Rightarrow> quota \<Rightarrow> bool \<times> quota" where
  "update_from_headers T now h q =
     (let w5 = learn_window T h now ''anthropic-ratelimit-unified-5h-utilization''
                 ''anthropic-ratelimit-unified-5h-reset'' FIVE_HOUR (five_hour q);
          w7 = learn_window T h now ''anthropic-ratelimit-unified-7d-utilization''
                 ''anthropic-ratelimit-unified-7d-reset'' SEVEN_DAY (seven_day q);
          woi = learn_seven_day_oi T h now q;
          status = h ''anthropic-ratelimit-unified-status'';
          model_scoped = (quota_rejections h = [FableWeekly]);
          tlim = get_parsed_i64 h ''anthropic-ratelimit-tokens-limit'';
          tr = get_parsed_i64 h ''anthropic-ratelimit-tokens-remaining'';
          rl = get_parsed_i64 h ''anthropic-ratelimit-requests-limit'';
          rr = get_parsed_i64 h ''anthropic-ratelimit-requests-remaining'';
          sr = or_else (get_reset T h ''anthropic-ratelimit-tokens-reset'')
                 (get_reset T h ''anthropic-ratelimit-requests-reset'');
          read_any = (w5 \<noteq> None \<or> w7 \<noteq> None \<or> woi \<noteq> None \<or> status \<noteq> None \<or> tlim \<noteq> None \<or>
                      tr \<noteq> None \<or> rl \<noteq> None \<or> rr \<noteq> None \<or> sr \<noteq> None)
      in (w5 \<noteq> None,
          q\<lparr>five_hour := or_else w5 (five_hour q),
            seven_day := or_else w7 (seven_day q),
            seven_day_oi := or_else woi (seven_day_oi q),
            q_status := (if status \<noteq> None \<and> \<not> model_scoped then status else q_status q),
            tokens_limit := or_else tlim (tokens_limit q),
            tokens_remaining := or_else tr (tokens_remaining q),
            requests_limit := or_else rl (requests_limit q),
            requests_remaining := or_else rr (requests_remaining q),
            standard_reset := or_else sr (standard_reset q),
            updated_at := (if read_any then Some now else updated_at q)\<rparr>))"

section \<open>Asking the quota\<close>

definition standard_over :: "i64 option \<Rightarrow> i64 option \<Rightarrow> f64 \<Rightarrow> bool" where
  "standard_over limit' remaining' threshold =
     (case (limit', remaining') of
        (Some limit, Some remaining) \<Rightarrow>
          limit > 0 \<and> f64_ge (f64_sub f64_one (f64_div (f64_of_int remaining) (f64_of_int limit))) threshold
      | _ \<Rightarrow> False)"

definition is_near :: "quota \<Rightarrow> f64 \<Rightarrow> odt \<Rightarrow> bool" where
  "is_near q threshold now =
     (if is_some_and (five_hour q) (\<lambda>w. f64_ge (effective w now) threshold) then True
      else if is_some_and (seven_day q) (\<lambda>w. f64_ge (effective w now) threshold) then True
      else
        let standard_expired = is_some_and (standard_reset q) (\<lambda>r. now \<ge> r) in
        \<not> standard_expired \<and>
        (standard_over (tokens_limit q) (tokens_remaining q) threshold \<or>
         standard_over (requests_limit q) (requests_remaining q) threshold))"

definition model_weekly_exhausted :: "quota \<Rightarrow> f64 \<Rightarrow> odt \<Rightarrow> bool" where
  "model_weekly_exhausted q threshold now =
     is_some_and (seven_day_oi q) (\<lambda>w. f64_ge (effective w now) threshold)"

definition model_weekly_rejected :: "quota \<Rightarrow> odt \<Rightarrow> bool" where
  "model_weekly_rejected q now = is_some_and (seven_day_oi q) (\<lambda>w. f64_ge (effective w now) f64_one)"

definition reject_model_weekly :: "time_lib \<Rightarrow> odt \<Rightarrow> headers \<Rightarrow> quota \<Rightarrow> quota" where
  "reject_model_weekly T now h q =
     q\<lparr>seven_day_oi := Some \<lparr>utilization = f64_one,
         reset = resolve_reset (get_reset T h ''anthropic-ratelimit-unified-7d_oi-reset'')
                   (Option.bind (seven_day_oi q) reset) now SEVEN_DAY\<rparr>\<rparr>"

definition raise_max :: "f64 \<Rightarrow> quota_window option \<Rightarrow> odt \<Rightarrow> f64" where
  "raise_max m w now = (case w of None \<Rightarrow> m | Some w \<Rightarrow> f64_max m (effective w now))"

definition max_utilization :: "quota \<Rightarrow> odt \<Rightarrow> bool \<Rightarrow> f64" where
  "max_utilization q now is_fable =
     (let m = raise_max (raise_max f64_zero (five_hour q) now) (seven_day q) now
      in if is_fable then raise_max m (seven_day_oi q) now else m)"

definition governing_weekly_reset :: "quota \<Rightarrow> odt \<Rightarrow> odt option" where
  "governing_weekly_reset q now = Option.bind (seven_day q) (\<lambda>w. live_reset w now)"

section \<open>Folding a usage probe in\<close>

record usage_bucket =
  ub_utilization :: "f64 option"
  ub_reset_at_ms :: "i64 option"

record codex_probe_facts =
  pf_plan_type :: "string option"
  pf_windows :: codex_windows
  pf_limit_reached_type :: "string option"
  pf_spend_control_reached :: bool
  pf_credits :: "codex_credits option"
  pf_allowed :: "bool option"
  pf_limit_reached :: "bool option"

record usage =
  u_five_hour :: "usage_bucket option"
  u_seven_day :: "usage_bucket option"
  u_seven_day_oi :: "usage_bucket option"
  u_extra_usage_usd :: "f64 option"
  u_codex :: "codex_probe_facts option"

definition window_rolled :: "quota_window option \<Rightarrow> usage_bucket option \<Rightarrow> bool" where
  "window_rolled stored probed =
     (case (stored, Option.bind probed ub_utilization) of
        (Some w, Some p) \<Rightarrow> f64_lt p (utilization w)
      | _ \<Rightarrow> False)"

definition end_refusal :: "quota \<Rightarrow> quota" where
  "end_refusal q = q\<lparr>q_status := None,
     q_codex := (q_codex q)\<lparr>limit_reached_type := None, refusal_reset := None\<rparr>\<rparr>"

definition drop_rejection_if_a_window_rolled :: "usage \<Rightarrow> quota \<Rightarrow> quota" where
  "drop_rejection_if_a_window_rolled u q =
     (if \<not> q_rejected q then q
      else if window_rolled (five_hour q) (u_five_hour u) \<or> window_rolled (seven_day q) (u_seven_day u)
      then end_refusal q
      else q)"

definition lift_a_codex_refusal_the_probe_reads_allowed :: "codex_probe_facts \<Rightarrow> quota \<Rightarrow> quota" where
  "lift_a_codex_refusal_the_probe_reads_allowed facts q =
     (if q_rejected q \<and> pf_allowed facts = Some True \<and> pf_limit_reached facts \<noteq> Some True \<and>
         \<not> pf_spend_control_reached facts \<and> pf_limit_reached_type facts = None
      then end_refusal q else q)"

definition apply_bucket ::
  "time_lib \<Rightarrow> odt \<Rightarrow> usage_bucket option \<Rightarrow> int \<Rightarrow> quota_window option \<Rightarrow> quota_window option" where
  "apply_bucket T now bucket win window =
     (case bucket of
        None \<Rightarrow> window
      | Some b \<Rightarrow>
          (case or_else (ub_utilization b) (map_option utilization window) of
             None \<Rightarrow> window
           | Some u \<Rightarrow>
               let reported = Option.bind (ub_reset_at_ms b)
                     (\<lambda>ms. tl_from_unix_timestamp_nanos T (ms * ns_per_ms));
                   r = (if reported = None \<and> f64_eq u f64_zero then None
                        else resolve_reset reported (Option.bind window reset) now win)
               in Some \<lparr>utilization = u, reset = r\<rparr>))"

text \<open>The facts a Codex probe carries. A probed kind refreshes the stored one only while a refusal
  stands.\<close>

definition apply_codex_facts :: "codex_probe_facts \<Rightarrow> quota \<Rightarrow> quota" where
  "apply_codex_facts facts q =
     (let c = (q_codex q)\<lparr>probed_windows := Some (pf_windows facts),
                spend_control_reached := pf_spend_control_reached facts,
                credits := or_else (pf_credits facts) (credits (q_codex q))\<rparr>;
          q1 = lift_a_codex_refusal_the_probe_reads_allowed facts (q\<lparr>q_codex := c\<rparr>)
      in if q_rejected q1 then
           (case pf_limit_reached_type facts of
              None \<Rightarrow> q1
            | Some kind \<Rightarrow> q1\<lparr>q_codex := (q_codex q1)\<lparr>limit_reached_type := Some kind\<rparr>\<rparr>)
         else q1)"

text \<open>\<open>clk i\<close> is the clock as the \<open>i\<close>-th of the four reads of the body returns it: one per bucket,
  and one for the stamp.\<close>

definition apply_usage :: "time_lib \<Rightarrow> (nat \<Rightarrow> odt) \<Rightarrow> usage \<Rightarrow> quota \<Rightarrow> quota" where
  "apply_usage T clk u q =
     (let q1 = drop_rejection_if_a_window_rolled u q;
          q2 = q1\<lparr>five_hour := apply_bucket T (clk 0) (u_five_hour u) FIVE_HOUR (five_hour q1),
                  seven_day := apply_bucket T (clk 1) (u_seven_day u) SEVEN_DAY (seven_day q1),
                  seven_day_oi := apply_bucket T (clk 2) (u_seven_day_oi u) SEVEN_DAY (seven_day_oi q1),
                  extra_usage_usd := or_else (u_extra_usage_usd u) (extra_usage_usd q1),
                  updated_at := Some (clk 3)\<rparr>
      in case u_codex u of None \<Rightarrow> q2 | Some facts \<Rightarrow> apply_codex_facts facts q2)"

section \<open>Codex responses\<close>

definition CODEX_FIVE_HOUR_CUTOFF_MINUTES :: i64 where "CODEX_FIVE_HOUR_CUTOFF_MINUTES = 600"

definition CODEX_REACHED_TYPE_HEADER :: string where
  "CODEX_REACHED_TYPE_HEADER = ''x-codex-rate-limit-reached-type''"

record codex_quota_refusal =
  cr_reset :: "odt option"
  cr_limit_reached_type :: "string option"

definition codex_quota_error :: "json \<Rightarrow> bool" where
  "codex_quota_error e =
     (is_some_and (jfield ''type'' as_string e)
        (\<lambda>t. t \<in> set [''usage_limit_reached'', ''usage_not_included'', ''insufficient_quota'']) \<or>
      is_some_and (jfield ''code'' as_string e)
        (\<lambda>c. c \<in> set [''insufficient_quota'', ''usage_limit_reached'', ''usage_not_included'',
           ''credit_balance_exhausted'', ''organization_spend_limit_exceeded'',
           ''project_spend_limit_exceeded'', ''organization_usage_limit_exceeded'']))"

definition codex_error_reset :: "time_lib \<Rightarrow> json \<Rightarrow> odt \<Rightarrow> odt option" where
  "codex_error_reset T e now =
     or_else
       (filter_opt (\<lambda>r. r > now)
          (Option.bind (jfield ''resets_at'' as_i64 e) (tl_from_unix_timestamp T)))
       (Option.bind (filter_opt (\<lambda>s. s > 0) (jfield ''resets_in_seconds'' as_i64 e))
          (\<lambda>s. tl_checked_add T now (s * ns_per_sec)))"

text \<open>Seconds until the reset of one full window, and the later of the two slots.\<close>

definition codex_slot_hold :: "time_lib \<Rightarrow> headers \<Rightarrow> odt \<Rightarrow> string \<Rightarrow> i64 option" where
  "codex_slot_hold T h now pre =
     (case get_parsed_f64 h (pre @ ''-used-percent'') of
        None \<Rightarrow> None
      | Some used \<Rightarrow>
          if \<not> is_finite used \<or> f64_lt used (Fin 100) then None
          else
            (case get_parsed_i64 h (pre @ ''-reset-at'') of
               None \<Rightarrow> None
             | Some r \<Rightarrow>
                 (case tl_from_unix_timestamp T r of
                    None \<Rightarrow> None
                  | Some instant \<Rightarrow>
                      if instant > now then Some (saturating_sub_i64 r (unix_timestamp now)) else None)))"

definition codex_hold_seconds :: "time_lib \<Rightarrow> headers \<Rightarrow> odt \<Rightarrow> i64 option" where
  "codex_hold_seconds T h now =
     max (codex_slot_hold T h now ''x-codex-primary'') (codex_slot_hold T h now ''x-codex-secondary'')"

definition refusal_from_error ::
  "time_lib \<Rightarrow> headers \<Rightarrow> json option \<Rightarrow> odt \<Rightarrow> codex_quota_refusal option" where
  "refusal_from_error T h error now =
     (let kind = h CODEX_REACHED_TYPE_HEADER in
      if kind = None \<and> \<not> is_some_and error codex_quota_error then None
      else
        Some \<lparr>cr_reset =
            or_else (Option.bind error (\<lambda>e. codex_error_reset T e now))
              (Option.bind (codex_hold_seconds T h now)
                 (\<lambda>s. tl_from_unix_timestamp T (saturating_add_i64 (unix_timestamp now) s))),
          cr_limit_reached_type = kind\<rparr>)"

text \<open>\<open>decode\<close> is the JSON decoder.\<close>

definition refusal_parse ::
  "('body \<Rightarrow> json option) \<Rightarrow> time_lib \<Rightarrow> headers \<Rightarrow> 'body \<Rightarrow> odt \<Rightarrow> codex_quota_refusal option" where
  "refusal_parse decode T h body now =
     refusal_from_error T h (Option.bind (decode body) (jget ''error'')) now"

definition codex_kept_length :: "f64 \<times> u32 option \<Rightarrow> f64 \<times> u32 option \<Rightarrow> u32 option" where
  "codex_kept_length first second =
     (if f64_gt (fst first) (fst second) then snd first
      else if f64_gt (fst second) (fst first) then snd second
      else max (snd first) (snd second))"

definition credits_flag :: "headers \<Rightarrow> string \<Rightarrow> bool option" where
  "credits_flag h name =
     Option.bind (h name) (\<lambda>s. let raw = trim s in
       if eq_ignore_ascii_case raw ''true'' then Some True
       else if eq_ignore_ascii_case raw ''false'' then Some False
       else None)"

definition codex_credits_from_headers :: "headers \<Rightarrow> codex_credits option" where
  "codex_credits_from_headers h =
     map_option (\<lambda>has. \<lparr>has_credits = has,
         unlimited = unwrap_or (credits_flag h ''x-codex-credits-unlimited'') False,
         balance = filter_opt (\<lambda>b. b \<noteq> []) (map_option trim (h ''x-codex-credits-balance''))\<rparr>)
       (credits_flag h ''x-codex-credits-has-credits'')"

text \<open>One bucket's reading of a response: utilization, reported reset, length in minutes.\<close>

type_synonym codex_reading = "f64 \<times> odt option \<times> u32 option"

definition u32_try_from :: "int \<Rightarrow> u32 option" where
  "u32_try_from m = (if 0 \<le> m \<and> m < 2 ^ 32 then Some (word_of_int m) else None)"

definition merge_reading :: "codex_reading option \<Rightarrow> codex_reading \<Rightarrow> codex_reading" where
  "merge_reading bucket new =
     (case bucket of
        None \<Rightarrow> new
      | Some (other, other_reset, other_length) \<Rightarrow>
          (case new of (u, reported, len) \<Rightarrow>
             (f64_max other u, max other_reset reported,
              codex_kept_length (other, other_length) (u, len))))"

text \<open>What one slot carries: the bucket it belongs to (weekly or not) and its reading.\<close>

definition slot_reading :: "time_lib \<Rightarrow> headers \<Rightarrow> string \<times> bool \<Rightarrow> (bool \<times> codex_reading) option" where
  "slot_reading T h slot =
     (case slot of (pre, positional_is_weekly) \<Rightarrow>
      case filter_opt is_finite (get_parsed_f64 h (pre @ ''-used-percent'')) of
        None \<Rightarrow> None
      | Some used \<Rightarrow>
          let minutes = filter_opt (\<lambda>m. m > 0) (get_parsed_i64 h (pre @ ''-window-minutes''));
              reported = Option.bind (get_parsed_i64 h (pre @ ''-reset-at'')) (tl_from_unix_timestamp T)
          in if f64_eq used f64_zero \<and> minutes = None \<and> reported = None then None
             else
               Some (case minutes of
                       Some m \<Rightarrow> m > CODEX_FIVE_HOUR_CUTOFF_MINUTES
                     | None \<Rightarrow> positional_is_weekly,
                     (f64_div used (Fin 100), reported, Option.bind minutes u32_try_from)))"

definition codex_slot ::
  "time_lib \<Rightarrow> headers \<Rightarrow> string \<times> bool \<Rightarrow> codex_reading option \<times> codex_reading option
     \<Rightarrow> codex_reading option \<times> codex_reading option" where
  "codex_slot T h slot acc =
     (case acc of (five, weekly) \<Rightarrow>
      case slot_reading T h slot of
        None \<Rightarrow> (five, weekly)
      | Some (is_weekly, reading) \<Rightarrow>
          if is_weekly then (five, Some (merge_reading weekly reading))
          else (Some (merge_reading five reading), weekly))"

definition codex_readings :: "time_lib \<Rightarrow> headers \<Rightarrow> codex_reading option \<times> codex_reading option" where
  "codex_readings T h =
     fold (codex_slot T h) [(''x-codex-primary'', False), (''x-codex-secondary'', True)] (None, None)"

definition write_reading :: "odt \<Rightarrow> int \<Rightarrow> codex_reading option \<Rightarrow> quota_window option \<Rightarrow> quota_window option" where
  "write_reading now win reading window =
     (case reading of
        None \<Rightarrow> window
      | Some (u, reported, _) \<Rightarrow>
          Some \<lparr>utilization = u, reset = resolve_reset reported (Option.bind window reset) now win\<rparr>)"

definition update_from_codex_refusal ::
  "time_lib \<Rightarrow> odt \<Rightarrow> headers \<Rightarrow> nat \<Rightarrow> codex_quota_refusal option \<Rightarrow> quota \<Rightarrow> bool \<times> quota" where
  "update_from_codex_refusal T now h http_status refusal q =
     (let (five, weekly) = codex_readings T h;
          read_a_window = (five \<noteq> None \<or> weekly \<noteq> None);
          len = map_option (\<lambda>(_, _, minutes). \<lparr>cw_minutes = minutes\<rparr>);
          c1 = (if read_a_window
                then (q_codex q)\<lparr>header_windows := Some \<lparr>cws_five_hour = len five, cws_seven_day = len weekly\<rparr>\<rparr>
                else q_codex q);
          q1 = q\<lparr>q_codex := c1,
                 seven_day := write_reading now SEVEN_DAY weekly (seven_day q),
                 five_hour := write_reading now FIVE_HOUR five (five_hour q)\<rparr>;
          q2 = (case refusal of
                  Some r \<Rightarrow>
                    q1\<lparr>q_status := Some ''rejected'',
                       q_codex := (q_codex q1)\<lparr>refusal_reset := cr_reset r,
                         limit_reached_type := cr_limit_reached_type r\<rparr>\<rparr>
                | None \<Rightarrow>
                    if read_a_window \<and> 200 \<le> http_status \<and> http_status < 300
                    then q1\<lparr>q_status := Some ''allowed'',
                            q_codex := (q_codex q1)\<lparr>limit_reached_type := None, refusal_reset := None\<rparr>\<rparr>
                    else q1);
          q3 = q2\<lparr>q_codex := (q_codex q2)\<lparr>credits := or_else (codex_credits_from_headers h) (credits (q_codex q2))\<rparr>,
                  updated_at := (if read_a_window \<or> refusal \<noteq> None then Some now else updated_at q2)\<rparr>
      in (five \<noteq> None, q3))"

section \<open>Lemmas\<close>

lemma resolve_reset_Some: "\<exists>r. resolve_reset reported prior now window = Some r"
  by (auto simp: resolve_reset_def split: option.splits)

lemma resolve_reset_bounds:
  assumes "resolve_reset None prior now window = Some r" and "0 < window"
  shows "now < r \<and> (r \<le> now + window \<or> prior = Some r)"
  using assms by (auto simp: resolve_reset_def split: option.splits if_splits)

lemma effective_past [simp]: "reset w = Some r \<Longrightarrow> r \<le> now \<Longrightarrow> effective w now = f64_zero"
  by (simp add: effective_def)

lemma effective_cases: "effective w now = f64_zero \<or> effective w now = utilization w"
  by (auto simp: effective_def split: option.splits)

definition window_ok :: "quota_window \<Rightarrow> bool" where
  "window_ok w \<longleftrightarrow> is_finite (utilization w) \<and> (reset w = None \<longrightarrow> utilization w = f64_zero)"

definition opt_window_ok :: "quota_window option \<Rightarrow> bool" where
  "opt_window_ok w = is_none_or w window_ok"

definition quota_ok :: "quota \<Rightarrow> bool" where
  "quota_ok q \<longleftrightarrow> opt_window_ok (five_hour q) \<and> opt_window_ok (seven_day q) \<and> opt_window_ok (seven_day_oi q)"

lemma opt_window_ok_simps [simp]: "opt_window_ok None" "opt_window_ok (Some w) = window_ok w"
  by (simp_all add: opt_window_ok_def)

lemma window_ok_resolved: "is_finite u \<Longrightarrow> window_ok \<lparr>utilization = u, reset = resolve_reset a b c d\<rparr>"
  using resolve_reset_Some [of a b c d] by (auto simp: window_ok_def)

lemma effective_finite: "window_ok w \<Longrightarrow> is_finite (effective w now)"
  using effective_cases [of w now] by (auto simp: window_ok_def)

lemma learn_window_ok: "learn_window T h now a b win prior = Some w \<Longrightarrow> window_ok w"
  by (auto simp: learn_window_def filter_opt_Some_iff window_ok_resolved)

lemma learn_seven_day_oi_ok: "learn_seven_day_oi T h now q = Some w \<Longrightarrow> window_ok w"
  by (auto simp: learn_seven_day_oi_def learn_window_ok window_ok_resolved split: option.splits if_splits)

lemma opt_window_ok_or_else:
  "(\<And>w. fresh = Some w \<Longrightarrow> window_ok w) \<Longrightarrow> opt_window_ok old \<Longrightarrow> opt_window_ok (or_else fresh old)"
  by (cases fresh) auto

lemma quota_ok_update_from_headers:
  "quota_ok q \<Longrightarrow> quota_ok (snd (update_from_headers T now h q))"
  unfolding quota_ok_def update_from_headers_def Let_def snd_conv
  by (simp add: opt_window_ok_or_else learn_window_ok learn_seven_day_oi_ok)

lemma quota_ok_reject_model_weekly: "quota_ok q \<Longrightarrow> quota_ok (reject_model_weekly T now h q)"
  by (simp add: quota_ok_def reject_model_weekly_def window_ok_resolved)

text \<open>The probes parse a percentage; the usage they hand over is finite when its numbers are.\<close>

definition bucket_finite :: "usage_bucket option \<Rightarrow> bool" where
  "bucket_finite b = is_none_or b (\<lambda>b. is_none_or (ub_utilization b) is_finite)"

definition usage_finite :: "usage \<Rightarrow> bool" where
  "usage_finite u \<longleftrightarrow> bucket_finite (u_five_hour u) \<and> bucket_finite (u_seven_day u) \<and> bucket_finite (u_seven_day_oi u)"

lemma f64_eq_zero: "f64_eq u f64_zero \<longleftrightarrow> u = f64_zero"
  by (auto simp: f64_eq_def f64_zero_def)

lemma opt_window_ok_apply_bucket:
  assumes "opt_window_ok w" and "bucket_finite b"
  shows "opt_window_ok (apply_bucket T now b win w)"
proof -
  have "is_finite u" if "b = Some b'" "or_else (ub_utilization b') (map_option utilization w) = Some u" for b' u
    using that assms by (cases "ub_utilization b'"; cases w) (auto simp: bucket_finite_def window_ok_def)
  then show ?thesis using assms(1)
    by (auto simp: apply_bucket_def Let_def f64_eq_zero window_ok_resolved split: option.splits)
       (auto simp: window_ok_def)
qed

lemma end_refusal_windows [simp]:
  "five_hour (end_refusal q) = five_hour q" "seven_day (end_refusal q) = seven_day q"
  "seven_day_oi (end_refusal q) = seven_day_oi q" "q_status (end_refusal q) = None"
  "limit_reached_type (q_codex (end_refusal q)) = None" "refusal_reset (q_codex (end_refusal q)) = None"
  by (simp_all add: end_refusal_def)

lemma drop_rejection_windows [simp]:
  "five_hour (drop_rejection_if_a_window_rolled u q) = five_hour q"
  "seven_day (drop_rejection_if_a_window_rolled u q) = seven_day q"
  "seven_day_oi (drop_rejection_if_a_window_rolled u q) = seven_day_oi q"
  by (simp_all add: drop_rejection_if_a_window_rolled_def)

lemma lift_refusal_windows [simp]:
  "five_hour (lift_a_codex_refusal_the_probe_reads_allowed f q) = five_hour q"
  "seven_day (lift_a_codex_refusal_the_probe_reads_allowed f q) = seven_day q"
  "seven_day_oi (lift_a_codex_refusal_the_probe_reads_allowed f q) = seven_day_oi q"
  by (simp_all add: lift_a_codex_refusal_the_probe_reads_allowed_def)

lemma apply_codex_facts_windows [simp]:
  "five_hour (apply_codex_facts f q) = five_hour q"
  "seven_day (apply_codex_facts f q) = seven_day q"
  "seven_day_oi (apply_codex_facts f q) = seven_day_oi q"
  by (simp_all add: apply_codex_facts_def Let_def split: option.splits)

lemma apply_usage_windows:
  "five_hour (apply_usage T clk u q) = apply_bucket T (clk 0) (u_five_hour u) FIVE_HOUR (five_hour q)"
  "seven_day (apply_usage T clk u q) = apply_bucket T (clk 1) (u_seven_day u) SEVEN_DAY (seven_day q)"
  "seven_day_oi (apply_usage T clk u q) = apply_bucket T (clk 2) (u_seven_day_oi u) SEVEN_DAY (seven_day_oi q)"
  by (simp_all add: apply_usage_def Let_def split: option.splits)

lemma quota_ok_apply_usage: "quota_ok q \<Longrightarrow> usage_finite u \<Longrightarrow> quota_ok (apply_usage T clk u q)"
  by (simp add: quota_ok_def usage_finite_def apply_usage_windows opt_window_ok_apply_bucket)

lemma parsed_percent_finite:
  "get_parsed_f64 h name = Some v \<Longrightarrow> is_finite v \<Longrightarrow> is_finite (f64_div v (Fin 100))"
  by (auto simp: get_parsed_f64_def bind_eq_Some_conv percent_finite)

definition reading_ok :: "codex_reading option \<Rightarrow> bool" where
  "reading_ok r = is_none_or r (\<lambda>(u, _). is_finite u)"

lemma merge_reading_ok: "reading_ok b \<Longrightarrow> is_finite u \<Longrightarrow> reading_ok (Some (merge_reading b (u, r, l)))"
  by (cases b) (auto simp: reading_ok_def merge_reading_def f64_max_finite)

lemma slot_reading_finite: "slot_reading T h slot = Some (wk, u, r, l) \<Longrightarrow> is_finite u"
  by (auto simp: slot_reading_def Let_def filter_opt_Some_iff parsed_percent_finite
      split: prod.splits option.splits if_splits)

lemma codex_slot_ok:
  assumes "reading_ok f" and "reading_ok w"
  shows "reading_ok (fst (codex_slot T h slot (f, w))) \<and> reading_ok (snd (codex_slot T h slot (f, w)))"
  using assms
  by (auto simp: codex_slot_def split: prod.split option.split intro!: merge_reading_ok
      dest: slot_reading_finite)

lemma codex_readings_ok: "reading_ok (fst (codex_readings T h)) \<and> reading_ok (snd (codex_readings T h))"
proof -
  have "reading_ok (fst p) \<and> reading_ok (snd p) \<Longrightarrow>
      reading_ok (fst (codex_slot T h s p)) \<and> reading_ok (snd (codex_slot T h s p))" for s p
    using codex_slot_ok by (cases p) simp
  moreover have "reading_ok None" by (simp add: reading_ok_def)
  ultimately show ?thesis by (simp add: codex_readings_def)
qed

lemma opt_window_ok_write_reading:
  "opt_window_ok w \<Longrightarrow> reading_ok r \<Longrightarrow> opt_window_ok (write_reading now win r w)"
  by (auto simp: write_reading_def reading_ok_def window_ok_resolved split: option.splits)

lemma update_from_codex_refusal_windows:
  "five_hour (snd (update_from_codex_refusal T now h st r q)) =
     write_reading now FIVE_HOUR (fst (codex_readings T h)) (five_hour q)"
  "seven_day (snd (update_from_codex_refusal T now h st r q)) =
     write_reading now SEVEN_DAY (snd (codex_readings T h)) (seven_day q)"
  "seven_day_oi (snd (update_from_codex_refusal T now h st r q)) = seven_day_oi q"
  by (simp_all add: update_from_codex_refusal_def Let_def split: prod.splits option.splits)

lemma quota_ok_update_from_codex_refusal:
  "quota_ok q \<Longrightarrow> quota_ok (snd (update_from_codex_refusal T now h st r q))"
  using codex_readings_ok [of T h]
  by (simp add: quota_ok_def update_from_codex_refusal_windows opt_window_ok_write_reading)

subsection \<open>Every quota the program can hold\<close>

text \<open>The writers of an account's quota, by its provider: \<open>Manager::update_quota\<close> chooses the header
  reader, and the probe's reading is folded by \<open>apply_usage\<close> for both.\<close>

inductive quota_reach :: "time_lib \<Rightarrow> provider \<Rightarrow> quota \<Rightarrow> bool" for T p where
  initial: "quota_reach T p quota_default"
| headers: "quota_reach T p q \<Longrightarrow> p = Anthropic \<Longrightarrow> quota_reach T p (snd (update_from_headers T now h q))"
| model_rejected: "quota_reach T p q \<Longrightarrow> p = Anthropic \<Longrightarrow> quota_reach T p (reject_model_weekly T now h q)"
| codex: "quota_reach T p q \<Longrightarrow> p = Codex \<Longrightarrow>
    quota_reach T p (snd (update_from_codex_refusal T now h st r q))"
| probed: "quota_reach T p q \<Longrightarrow> usage_finite u \<Longrightarrow> quota_reach T p (apply_usage T clk u q)"

lemma quota_reach_ok: "quota_reach T p q \<Longrightarrow> quota_ok q"
proof (induction rule: quota_reach.induct)
  case initial
  then show ?case by (simp add: quota_ok_def quota_default_def)
qed (simp_all add: quota_ok_update_from_headers quota_ok_reject_model_weekly
      quota_ok_update_from_codex_refusal quota_ok_apply_usage)

lemma window_ok_frees:
  assumes "window_ok w" and "utilization w \<noteq> f64_zero"
  shows "\<exists>r. reset w = Some r \<and> (\<forall>t\<ge>r. effective w t = f64_zero)"
  using assms by (cases "reset w") (auto simp: window_ok_def)

definition kind_ok :: "quota \<Rightarrow> bool" where
  "kind_ok q \<longleftrightarrow> (limit_reached_type (q_codex q) \<noteq> None \<or> refusal_reset (q_codex q) \<noteq> None \<longrightarrow> q_rejected q)"

lemma kind_ok_end_refusal: "kind_ok (end_refusal q)"
  by (simp add: kind_ok_def)

lemma kind_ok_drop_rejection: "kind_ok q \<Longrightarrow> kind_ok (drop_rejection_if_a_window_rolled u q)"
  by (simp add: drop_rejection_if_a_window_rolled_def kind_ok_end_refusal)

lemma kind_ok_lift: "kind_ok q \<Longrightarrow> kind_ok (lift_a_codex_refusal_the_probe_reads_allowed f q)"
  by (simp add: lift_a_codex_refusal_the_probe_reads_allowed_def kind_ok_end_refusal)

lemma kind_ok_apply_codex_facts:
  assumes "kind_ok q"
  shows "kind_ok (apply_codex_facts f q)"
proof -
  let ?c = "(q_codex q)\<lparr>probed_windows := Some (pf_windows f),
                spend_control_reached := pf_spend_control_reached f,
                credits := or_else (pf_credits f) (credits (q_codex q))\<rparr>"
  have "kind_ok (q\<lparr>q_codex := ?c\<rparr>)" using assms by (simp add: kind_ok_def)
  from kind_ok_lift [OF this, of f] show ?thesis
    by (auto simp: apply_codex_facts_def Let_def kind_ok_def split: option.splits)
qed

lemma kind_ok_apply_usage:
  assumes "kind_ok q"
  shows "kind_ok (apply_usage T clk u q)"
proof -
  have "kind_ok (drop_rejection_if_a_window_rolled u q\<lparr>five_hour := a, seven_day := b, seven_day_oi := c,
     extra_usage_usd := d, updated_at := e\<rparr>)" for a b c d e
    using kind_ok_drop_rejection [OF assms, of u] by (simp add: kind_ok_def)
  then show ?thesis by (simp add: apply_usage_def Let_def kind_ok_apply_codex_facts split: option.split)
qed

lemma kind_ok_update_from_codex_refusal:
  "kind_ok q \<Longrightarrow> kind_ok (snd (update_from_codex_refusal T now h st r q))"
  by (auto simp: update_from_codex_refusal_def Let_def kind_ok_def split: prod.split option.split)

lemma codex_reach_kind_ok: "quota_reach T p q \<Longrightarrow> p = Codex \<Longrightarrow> kind_ok q"
proof (induction rule: quota_reach.induct)
  case initial
  then show ?case by (simp add: kind_ok_def quota_default_def codex_facts_default_def)
qed (simp_all add: kind_ok_update_from_codex_refusal kind_ok_apply_usage)

section \<open>Properties\<close>

text \<open>
  In every quota the program can reach, whatever headers, refusals and probes it read, each
  stored utilization is finite, and a window that is not at zero carries a reset from which on it
  reads as a fresh zero: no window gates an account for ever.
\<close>

theorem quota_windows_invariant:
  assumes "quota_reach T p q" and "w \<in> set_option (five_hour q) \<union> set_option (seven_day q) \<union> set_option (seven_day_oi q)"
  shows "is_finite (utilization w) \<and>
    (utilization w = f64_zero \<or> (\<exists>r. reset w = Some r \<and> (\<forall>t\<ge>r. effective w t = f64_zero)))"
proof -
  have "window_ok w" using quota_reach_ok [OF assms(1)] assms(2) by (auto simp: quota_ok_def)
  with window_ok_frees [OF this] show ?thesis by (auto simp: window_ok_def)
qed

definition sample_time :: time_lib where
  "sample_time = \<lparr>tl_from_unix_timestamp = (\<lambda>s. if \<bar>s\<bar> \<le> 253402300799 then Some (s * ns_per_sec) else None),
     tl_from_unix_timestamp_nanos = (\<lambda>n. if \<bar>n\<bar> \<le> 253402300799 * ns_per_sec then Some n else None),
     tl_parse_rfc3339 = (\<lambda>_. None),
     tl_checked_add = (\<lambda>t d. if \<bar>t + d\<bar> \<le> 253402300799 * ns_per_sec then Some (t + d) else None)\<rparr>"

lemma sample_time_ok: "time_lib_ok sample_time"
  by (simp add: time_lib_ok_def sample_time_def)

theorem quota_windows_invariant_witness:
  "let w = \<lparr>utilization = f64_one, reset = Some SEVEN_DAY\<rparr> in is_finite (utilization w) \<and>
    (utilization w = f64_zero \<or> (\<exists>r. reset w = Some r \<and> (\<forall>t\<ge>r. effective w t = f64_zero)))"
  unfolding Let_def
proof (rule quota_windows_invariant)
  let ?q = "reject_model_weekly sample_time 0 (\<lambda>_. None) quota_default"
  show "quota_reach sample_time Anthropic ?q" by (intro quota_reach.intros refl)
  show "\<lparr>utilization = f64_one, reset = Some SEVEN_DAY\<rparr> \<in>
      set_option (five_hour ?q) \<union> set_option (seven_day ?q) \<union> set_option (seven_day_oi ?q)"
    by (simp add: reject_model_weekly_def get_reset_def quota_default_def resolve_reset_def)
qed

text \<open>
  A utilization that arrives without a reset of its own (none in the headers) gates for a bounded
  time: the window learned from it ends after \<open>now\<close>, and no later than one window length ahead
  unless it is the reset the window already had, still to come.
\<close>

theorem learned_window_bounded:
  assumes "learn_window T h now util_name reset_name win prior = Some w"
    and "get_reset T h reset_name = None" and "0 < win"
  shows "\<exists>r. reset w = Some r \<and> now < r \<and> (r \<le> now + win \<or> Option.bind prior reset = Some r)"
proof -
  have r: "reset w = resolve_reset None (Option.bind prior reset) now win"
    using assms(1,2) by (auto simp: learn_window_def)
  obtain t where t: "resolve_reset None (Option.bind prior reset) now win = Some t"
    using resolve_reset_Some by blast
  with resolve_reset_bounds [OF t assms(3)] r show ?thesis by simp
qed

theorem learned_window_bounded_witness:
  "\<exists>w r. learn_window sample_time [''u'' \<mapsto> '' 0.0 ''] 7 ''u'' ''r'' FIVE_HOUR None = Some w \<and>
     reset w = Some r \<and> 7 < r \<and> r \<le> 7 + FIVE_HOUR"
proof -
  have u: "get_parsed_f64 [''u'' \<mapsto> '' 0.0 ''] ''u'' = Some (Fin 0)" by code_simp
  obtain w where w: "learn_window sample_time [''u'' \<mapsto> '' 0.0 ''] 7 ''u'' ''r'' FIVE_HOUR None = Some w"
    by (simp add: learn_window_def u)
  from learned_window_bounded [OF w] show ?thesis
    using w by (auto simp: get_reset_def FIVE_HOUR_def ns_per_sec_def)
qed

lemma scope_allowed_not_rejected:
  assumes "scope_is_allowed h n"
  shows "\<not> header_says h n ''rejected''"
proof -
  have "to_ascii_lowercase ''allowed'' \<noteq> to_ascii_lowercase ''rejected''"
    and "to_ascii_lowercase ''allowed_warning'' \<noteq> to_ascii_lowercase ''rejected''"
    by code_simp+
  with assms show ?thesis
    by (auto simp: scope_is_allowed_def header_says_def eq_ignore_ascii_case_def is_some_and_iff)
qed

text \<open>
  A rejection that only the Fable weekly explains (issue 178) never touches the account-wide
  status: the aggregate \<open>rejected\<close> is stored only when the shared scopes leave it unexplained or are
  themselves rejected, whatever casing the headers use.
\<close>

theorem fable_rejection_leaves_status:
  assumes "header_says h ''anthropic-ratelimit-unified-7d_oi-status'' ''rejected''"
    and "scope_is_allowed h ''anthropic-ratelimit-unified-5h-status''"
    and "scope_is_allowed h ''anthropic-ratelimit-unified-7d-status''"
  shows "quota_rejections h = [FableWeekly] \<and> q_status (snd (update_from_headers T now h q)) = q_status q"
proof -
  have "\<not> header_says h n ''rejected''" if "scope_is_allowed h n" for n
    by (rule scope_allowed_not_rejected [OF that])
  then have "quota_rejections h = [FableWeekly]"
    using assms by (simp add: quota_rejections_def Let_def List.map_filter_def)
  then show ?thesis by (simp add: update_from_headers_def Let_def)
qed

theorem fable_rejection_leaves_status_witness:
  "q_status (snd (update_from_headers sample_time 0
     [''anthropic-ratelimit-unified-7d_oi-status'' \<mapsto> ''Rejected'',
      ''anthropic-ratelimit-unified-5h-status'' \<mapsto> ''allowed'',
      ''anthropic-ratelimit-unified-7d-status'' \<mapsto> ''allowed_warning'',
      ''anthropic-ratelimit-unified-status'' \<mapsto> ''rejected''] quota_default)) = None"
proof -
  let ?h = "[''anthropic-ratelimit-unified-7d_oi-status'' \<mapsto> ''Rejected'',
      ''anthropic-ratelimit-unified-5h-status'' \<mapsto> ''allowed'',
      ''anthropic-ratelimit-unified-7d-status'' \<mapsto> ''allowed_warning'',
      ''anthropic-ratelimit-unified-status'' \<mapsto> ''rejected'']"
  have "header_says ?h ''anthropic-ratelimit-unified-7d_oi-status'' ''rejected''"
    and "scope_is_allowed ?h ''anthropic-ratelimit-unified-5h-status''"
    and "scope_is_allowed ?h ''anthropic-ratelimit-unified-7d-status''"
    by code_simp+
  from fable_rejection_leaves_status [OF this, of sample_time 0 quota_default]
  show ?thesis by (simp add: quota_default_def)
qed

text \<open>
  A probe ends a refusal exactly when it saw a shared window's utilization fall below the stored
  one, or when a Codex probe reads the account allowed with no limit, spend control or kind left;
  otherwise the verdict of the last served response stands.
\<close>

theorem apply_usage_status:
  "q_status (apply_usage T clk u q) =
     (if q_rejected q \<and>
         (window_rolled (five_hour q) (u_five_hour u) \<or> window_rolled (seven_day q) (u_seven_day u) \<or>
          (\<exists>f. u_codex u = Some f \<and> pf_allowed f = Some True \<and> pf_limit_reached f \<noteq> Some True \<and>
             \<not> pf_spend_control_reached f \<and> pf_limit_reached_type f = None))
      then None else q_status q)"
  by (auto simp: apply_usage_def Let_def apply_codex_facts_def drop_rejection_if_a_window_rolled_def
      lift_a_codex_refusal_the_probe_reads_allowed_def end_refusal_def split: option.split)

text \<open>
  A Codex refusal's facts live exactly as long as the refusal: in every quota a Codex account can
  reach, a stored kind or reset means the status is \<open>rejected\<close>, so the kind the status wire reports
  is the stored one.
\<close>

theorem codex_refusal_facts_while_refused:
  assumes "quota_reach T Codex q"
  shows "(limit_reached_type (q_codex q) \<noteq> None \<or> refusal_reset (q_codex q) \<noteq> None \<longrightarrow> q_rejected q) \<and>
    codex_limit_reached_type q = limit_reached_type (q_codex q)"
proof -
  have "kind_ok q" using codex_reach_kind_ok [OF assms] by simp
  then show ?thesis
    by (cases "limit_reached_type (q_codex q)") (auto simp: kind_ok_def codex_limit_reached_type_def)
qed

theorem codex_refusal_facts_while_refused_witness:
  "codex_limit_reached_type (snd (update_from_codex_refusal sample_time 0 (\<lambda>_. None) 429
     (Some \<lparr>cr_reset = None, cr_limit_reached_type = Some ''primary''\<rparr>) quota_default)) = Some ''primary''"
proof -
  let ?q = "snd (update_from_codex_refusal sample_time 0 (\<lambda>_. None) 429
     (Some \<lparr>cr_reset = None, cr_limit_reached_type = Some ''primary''\<rparr>) quota_default)"
  have "quota_reach sample_time Codex ?q" by (intro quota_reach.intros refl)
  from codex_refusal_facts_while_refused [OF this] show ?thesis
    by (simp add: update_from_codex_refusal_def Let_def split: prod.splits)
qed

lemma merge_reading_mono:
  assumes "is_finite u" and "\<And>a r l. b = Some (a, r, l) \<Longrightarrow> is_finite a"
  shows "\<exists>u' r' l'. merge_reading b (u, r, l) = (u', r', l') \<and> f64_le u u' \<and> r \<le> r' \<and>
    (u' = u \<or> (\<exists>a r l. b = Some (a, r, l) \<and> u' = a)) \<and>
    (\<forall>a s m. b = Some (a, s, m) \<longrightarrow> f64_le a u' \<and> s \<le> r')"
proof (cases b)
  case None
  then show ?thesis using assms(1) by (auto simp: merge_reading_def is_finite_iff)
next
  case (Some t)
  obtain a s m where t: "t = (a, s, m)" by (metis prod_cases3)
  have fin: "is_finite a" using assms(2) Some t by blast
  then have n: "a \<noteq> NaN" "u \<noteq> NaN" using assms(1) by auto
  have "f64_max a u \<in> {a, u}" by (auto simp: f64_max_def)
  with n Some t show ?thesis
    by (auto simp: merge_reading_def f64_max_ge1 f64_max_ge2)
qed

text \<open>
  Two Codex slots that land in one bucket never lower each other: whatever a slot carries, the
  bucket it belongs to ends with at least its utilization and at least its reset, and the
  utilization kept is one of the slots' own. So a 0% placeholder cannot erase a full window.
\<close>

theorem codex_buckets_keep_fullest:
  assumes "slot \<in> {(''x-codex-primary'', False), (''x-codex-secondary'', True)}"
    and "slot_reading T h slot = Some (wk, u, r, l)"
  shows "\<exists>u' r' l'. (if wk then snd (codex_readings T h) else fst (codex_readings T h)) = Some (u', r', l') \<and>
    f64_le u u' \<and> r \<le> r' \<and>
    (\<exists>s\<in>{(''x-codex-primary'', False), (''x-codex-secondary'', True)}. \<exists>r l. slot_reading T h s = Some (wk, u', r, l))"
proof -
  let ?p = "(''x-codex-primary'', False)" and ?s = "(''x-codex-secondary'', True)"
  have run: "codex_readings T h = codex_slot T h ?s (codex_slot T h ?p (None, None))"
    by (simp add: codex_readings_def)
  have fin: "is_finite a" if "slot_reading T h s = Some (w, a, b, c)" for s w a b c
    using slot_reading_finite that by (cases s) blast
  have refl: "f64_le a a" if "slot_reading T h s = Some (w, a, b, c)" for s w a b c
    using fin [OF that] by (auto simp: is_finite_iff)
  show ?thesis
  proof (cases "slot_reading T h ?p = None \<or> slot_reading T h ?s = None \<or>
      fst (the (slot_reading T h ?p)) \<noteq> fst (the (slot_reading T h ?s))")
    case True
    with assms refl [OF assms(2)] show ?thesis
      by (auto simp: run codex_slot_def merge_reading_def split: option.splits)
  next
    case False
    then obtain w a b c a' b' c' where ps: "slot_reading T h ?p = Some (w, a, b, c)"
      "slot_reading T h ?s = Some (w, a', b', c')" by (auto split: option.splits)
    obtain u' r' l' where m: "merge_reading (Some (a, b, c)) (a', b', c') = (u', r', l')"
      "f64_le a' u'" "b' \<le> r'" "u' = a' \<or> u' = a" "f64_le a u'" "b \<le> r'"
      using merge_reading_mono [of a' "Some (a, b, c)" b' c'] fin [OF ps(1)] fin [OF ps(2)] by auto
    have "merge_reading None (a, b, c) = (a, b, c)" by (simp add: merge_reading_def)
    with assms ps m show ?thesis by (auto simp: run codex_slot_def)
  qed
qed

theorem codex_buckets_keep_fullest_witness:
  "\<exists>u' r' l'. snd (codex_readings sample_time [''x-codex-secondary-used-percent'' \<mapsto> ''0'',
       ''x-codex-secondary-reset-at'' \<mapsto> ''60'']) = Some (u', r', l') \<and> Some (60 * ns_per_sec) \<le> r'"
proof -
  let ?h = "[''x-codex-secondary-used-percent'' \<mapsto> ''0'', ''x-codex-secondary-reset-at'' \<mapsto> ''60'']"
  have "slot_reading sample_time ?h (''x-codex-secondary'', True) =
      Some (True, Fin 0, Some (60 * ns_per_sec), None)"
    by code_simp
  from codex_buckets_keep_fullest [OF _ this] show ?thesis by auto
qed

lemma codex_slot_hold_pos:
  assumes "time_lib_ok T" and "codex_slot_hold T h now pre = Some s"
    and "0 \<le> unix_timestamp now"
  shows "0 < s \<and> in_i64 (unix_timestamp now + s)"
proof -
  obtain r where r: "get_parsed_i64 h (pre @ ''-reset-at'') = Some r" "r * ns_per_sec > now"
    "s = saturating_sub_i64 r (unix_timestamp now)"
    using assms(1,2) by (auto simp: codex_slot_hold_def time_lib_ok_def split: option.splits if_splits)
  have ri: "in_i64 r" using r(1) parse_i64_in_i64 by (auto simp: get_parsed_i64_def bind_eq_Some_conv)
  have gt: "r > unix_timestamp now"
    using r(2) by (simp add: unix_timestamp_def ns_per_sec_def)
  then have "s = r - unix_timestamp now"
    using ri assms(3) r(3) by (simp add: saturating_sub_i64_def sat64_def in_i64_def i64_min_def)
  with gt ri show ?thesis by simp
qed

text \<open>
  The recovery deadline of a Codex refusal is always ahead of the clock: an elapsed or
  skewed \<open>resets_at\<close>, a non-positive relative delay and a window that is not full are all ignored.
\<close>

theorem codex_refusal_deadline_ahead:
  assumes "time_lib_ok T" and "refusal_from_error T h error now = Some r" and "cr_reset r = Some t"
    and "0 \<le> unix_timestamp now"
  shows "now < t"
proof -
  have e: "now < t" if "codex_error_reset T x now = Some t" for x
  proof -
    have "now < u" if "0 < s" "tl_checked_add T now (s * ns_per_sec) = Some u" for s u
    proof -
      have "u = now + s * ns_per_sec" using that(2) assms(1) unfolding time_lib_ok_def by blast
      with that(1) show ?thesis by (simp add: ns_per_sec_def)
    qed
    with that show ?thesis
      by (auto simp: codex_error_reset_def or_else_def filter_opt_Some_iff bind_eq_Some_conv
          split: option.splits)
  qed
  have h: "now < t" if hs: "codex_hold_seconds T h now = Some s"
    "tl_from_unix_timestamp T (saturating_add_i64 (unix_timestamp now) s) = Some t" for s
  proof -
    obtain pre where "codex_slot_hold T h now pre = Some s"
      using hs(1) by (auto simp: codex_hold_seconds_def max_def split: if_splits)
    from codex_slot_hold_pos [OF assms(1) this assms(4)] have s: "0 < s" "in_i64 (unix_timestamp now + s)"
      by simp_all
    then have t: "t = (unix_timestamp now + s) * ns_per_sec"
      using hs(2) assms(1) by (simp add: saturating_add_i64_def sat64_id time_lib_ok_def)
    have "now < (now div ns_per_sec + 1) * ns_per_sec"
      by (simp add: ns_per_sec_def algebra_simps)
    also have "\<dots> \<le> t" unfolding t unix_timestamp_def using s(1)
      by (intro mult_right_mono) (simp_all add: ns_per_sec_def)
    finally show ?thesis .
  qed
  show ?thesis using assms(2,3) e h
    by (auto simp: refusal_from_error_def Let_def or_else_def bind_eq_Some_conv split: if_splits option.splits)
qed

theorem codex_refusal_deadline_ahead_witness:
  "\<exists>r t. refusal_from_error sample_time (\<lambda>_. None) (Some (JObj [(''type'', JStr ''usage_limit_reached''),
       (''resets_at'', JInt 5), (''resets_in_seconds'', JInt 30)])) (9 * ns_per_sec) = Some r \<and>
     cr_reset r = Some t \<and> 9 * ns_per_sec < t"
proof -
  let ?e = "Some (JObj [(''type'', JStr ''usage_limit_reached''),
       (''resets_at'', JInt 5), (''resets_in_seconds'', JInt 30)])"
  have r: "refusal_from_error sample_time (\<lambda>_. None) ?e (9 * ns_per_sec) =
      Some \<lparr>cr_reset = Some (39 * ns_per_sec), cr_limit_reached_type = None\<rparr>"
    by code_simp
  have "9 * ns_per_sec < 39 * ns_per_sec"
    by (rule codex_refusal_deadline_ahead [OF sample_time_ok r])
      (simp_all add: unix_timestamp_def ns_per_sec_def)
  with r show ?thesis by auto
qed

end
