(* ===== verification/Account.thy ===== *)
theory Account
  imports Quota
begin

text \<open>
  The runtime record of one account (\<open>AccountRuntime\<close> in \<^verbatim>\<open>src/manager/mod.rs\<close>), the enums it
  holds, the pacing and throttle settings of \<^verbatim>\<open>src/config.rs\<close>, and the small pure helpers of the
  manager module. The record keeps every field that a modelled operation reads or writes; left out
  are the plan labels, the refresh lock, the HTTP client itself and the pending auth-file write-back,
  which no modelled operation looks into.
\<close>

section \<open>Enums\<close>

datatype account_type = OAuth | ApiKey | Unrecognized string

fun is_oauth :: "account_type \<Rightarrow> bool" where
  "is_oauth OAuth = True"
| "is_oauth _ = False"

datatype account_status = Active | Throttled | Error

fun account_status_as_str :: "account_status \<Rightarrow> string" where
  "account_status_as_str Active = ''active''"
| "account_status_as_str Throttled = ''throttled''"
| "account_status_as_str Error = ''error''"

text \<open>\<open>ProbeStatus\<close> of \<^verbatim>\<open>src/probe.rs\<close>.\<close>

datatype probe_status = PNever | POk | PError | PTimeout | PRateLimited | PUpstreamDown

datatype hold_cause = RateLimit | Refused

datatype gate_reason =
    GOk | GHold | GRefused | GFiveHour | GSevenDay | GFableWeekly | GStandard | GLogin
  | GRejected | GDisabled | GReserved | GParked

text \<open>\<open>GateReason\<close> derives \<open>Ord\<close>: the declaration order. It is the key of the gate counts.\<close>

fun gate_rank :: "gate_reason \<Rightarrow> nat" where
  "gate_rank GOk = 0" | "gate_rank GHold = 1" | "gate_rank GRefused = 2" | "gate_rank GFiveHour = 3"
| "gate_rank GSevenDay = 4" | "gate_rank GFableWeekly = 5" | "gate_rank GStandard = 6"
| "gate_rank GLogin = 7" | "gate_rank GRejected = 8" | "gate_rank GDisabled = 9"
| "gate_rank GReserved = 10" | "gate_rank GParked = 11"

lemma gate_rank_inject: "gate_rank a = gate_rank b \<longleftrightarrow> a = b"
  by (cases a; cases b) simp_all

instantiation gate_reason :: linorder
begin

definition less_eq_gate_reason :: "gate_reason \<Rightarrow> gate_reason \<Rightarrow> bool" where
  "less_eq_gate_reason a b \<longleftrightarrow> gate_rank a \<le> gate_rank b"

definition less_gate_reason :: "gate_reason \<Rightarrow> gate_reason \<Rightarrow> bool" where
  "less_gate_reason a b \<longleftrightarrow> gate_rank a < gate_rank b"

instance
  by standard (auto simp: less_eq_gate_reason_def less_gate_reason_def gate_rank_inject)

end

section \<open>Constants and windows\<close>

definition MAX_RATE_LIMIT_HOLD_SECONDS :: i64 where "MAX_RATE_LIMIT_HOLD_SECONDS = 3600"
definition REFUSED_HOLD_SECONDS :: i64 where "REFUSED_HOLD_SECONDS = 120"
definition CACHE_WARM_HOLD_SECS :: i64 where "CACHE_WARM_HOLD_SECS = 300"
definition EXTENDED_PIN_TTL_MS :: i64 where "EXTENDED_PIN_TTL_MS = 55 * 60 * 1000"
definition PROBE_FAILURES_BEFORE_WARMING_UNPROBED :: u32 where
  "PROBE_FAILURES_BEFORE_WARMING_UNPROBED = 3"
definition WARM_ATTEMPTS_WITHOUT_EVIDENCE_LIMIT :: u32 where "WARM_ATTEMPTS_WITHOUT_EVIDENCE_LIMIT = 3"
definition WARM_EVIDENCE_RETRY_COOLDOWN_MS :: i64 where "WARM_EVIDENCE_RETRY_COOLDOWN_MS = 3600000"
definition STREAM_ERROR_WINDOW_MS :: i64 where "STREAM_ERROR_WINDOW_MS = 3600000"
definition STREAM_ERROR_CAP :: nat where "STREAM_ERROR_CAP = 64"

record warm_window = ww_ms :: i64

definition WARM_DEFAULT :: warm_window where "WARM_DEFAULT = \<lparr>ww_ms = CACHE_WARM_HOLD_SECS * 1000\<rparr>"
definition WARM_EXTENDED :: warm_window where "WARM_EXTENDED = \<lparr>ww_ms = EXTENDED_PIN_TTL_MS\<rparr>"

definition odt_to_ms :: "odt \<Rightarrow> i64" where "odt_to_ms t = wrap64 (trunc_div t ns_per_ms)"

definition ms_to_odt :: "time_lib \<Rightarrow> i64 \<Rightarrow> odt option" where
  "ms_to_odt T ms = tl_from_unix_timestamp_nanos T (ms * ns_per_ms)"

definition cooldown_elapsed :: "i64 option \<Rightarrow> i64 \<Rightarrow> bool" where
  "cooldown_elapsed deadline_ms now_ms = is_some_and deadline_ms (\<lambda>until. now_ms \<ge> until)"

section \<open>Pacing\<close>

record pacing_config =
  max_in_flight_per_account :: "u32 option"
  min_spacing_ms :: "u64 option"

definition effective_max_in_flight :: "pacing_config \<Rightarrow> u32 option" where
  "effective_max_in_flight p =
     (if max_in_flight_per_account p = Some 0 then None else max_in_flight_per_account p)"

definition pacing_is_active :: "pacing_config \<Rightarrow> bool" where
  "pacing_is_active p \<longleftrightarrow> effective_max_in_flight p \<noteq> None \<or> min_spacing_ms p \<noteq> None"

definition pacing_off :: pacing_config where
  "pacing_off = \<lparr>max_in_flight_per_account = None, min_spacing_ms = None\<rparr>"

text \<open>A \<open>u64\<close> cast to \<open>i64\<close> keeps the bits.\<close>

definition u64_as_i64 :: "u64 \<Rightarrow> i64" where "u64_as_i64 w = sint w"

section \<open>The account\<close>

record account =
  a_name :: string
  a_type :: account_type
  a_provider :: provider
  a_account_uuid :: "string option"
  a_org_uuid :: "string option"
  a_org_name :: "string option"
  a_priority :: i64
  a_disabled :: bool
  a_removed :: bool
  a_groups :: "string list"
  a_switch_threshold :: "f64 option"
  a_access_token :: string
  a_refresh_token :: "string option"
  a_expires_at_ms :: "i64 option"
  a_status :: account_status
  a_quota :: quota
  a_quota_known :: bool
  a_probe_failures :: u32
  a_5xx_probes :: u32
  a_warms_without_evidence :: u32
  a_warm_evidence_retry_after_ms :: "i64 option"
  a_input_tokens :: u64
  a_output_tokens :: u64
  a_cache_read_tokens :: u64
  a_cache_creation_tokens :: u64
  a_requests :: u64
  a_last_used_ms :: "i64 option"
  a_last_selected_seq :: u64
  a_in_flight :: u32
  a_last_served_ms :: i64
  a_rate_limited_until_ms :: "i64 option"
  a_hold_cause :: hold_cause
  a_login_error :: "string option"
  a_refresh_retry_after_ms :: "i64 option"
  a_error_retry_after_ms :: "i64 option"
  a_error_backoff_ms :: i64
  a_probe_status :: probe_status
  a_last_probe_ms :: "i64 option"
  a_probe_error :: "string option"
  a_probe_retry_after_ms :: "i64 option"
  a_stream_error_times_ms :: "i64 list"
  a_last_stream_error :: "string option"
  a_serves_since_client_build :: u32

definition fresh_account :: "string \<Rightarrow> provider \<Rightarrow> account" where
  "fresh_account name p = \<lparr>a_name = name, a_type = OAuth, a_provider = p, a_account_uuid = None,
     a_org_uuid = None, a_org_name = None, a_priority = 0, a_disabled = False, a_removed = False,
     a_groups = [], a_switch_threshold = None, a_access_token = [], a_refresh_token = None,
     a_expires_at_ms = None, a_status = Active, a_quota = quota_default,
     a_quota_known = False, a_probe_failures = 0, a_5xx_probes = 0, a_warms_without_evidence = 0,
     a_warm_evidence_retry_after_ms = None, a_input_tokens = 0, a_output_tokens = 0,
     a_cache_read_tokens = 0, a_cache_creation_tokens = 0, a_requests = 0, a_last_used_ms = None,
     a_last_selected_seq = 0, a_in_flight = 0, a_last_served_ms = 0, a_rate_limited_until_ms = None,
     a_hold_cause = RateLimit, a_login_error = None, a_refresh_retry_after_ms = None,
     a_error_retry_after_ms = None, a_error_backoff_ms = 0, a_probe_status = PNever, a_last_probe_ms = None,
     a_probe_error = None, a_probe_retry_after_ms = None, a_stream_error_times_ms = [], a_last_stream_error = None,
     a_serves_since_client_build = 0\<rparr>"

section \<open>Lemmas\<close>

lemma odt_to_ms_mono:
  assumes "0 \<le> a" "a \<le> b" "in_i64 (b div ns_per_ms)"
  shows "odt_to_ms a \<le> odt_to_ms b"
proof -
  have "a div ns_per_ms \<le> b div ns_per_ms" "0 \<le> a div ns_per_ms"
    using assms by (simp_all add: zdiv_mono1 ns_per_ms_def pos_imp_zdiv_nonneg_iff)
  moreover from this have "in_i64 (a div ns_per_ms)"
    using assms(3) by (simp add: in_i64_def i64_min_def)
  ultimately show ?thesis using assms
    by (simp add: odt_to_ms_def trunc_div_nonneg ns_per_ms_def)
qed

lemma odt_to_ms_nonneg:
  "0 \<le> t \<Longrightarrow> in_i64 (t div ns_per_ms) \<Longrightarrow> odt_to_ms t = t div ns_per_ms"
  by (simp add: odt_to_ms_def trunc_div_nonneg ns_per_ms_def)

lemma i64_add_small: "in_i64 t \<Longrightarrow> 0 \<le> d \<Longrightarrow> t + d \<le> i64_max \<Longrightarrow> i64_add t d = t + d"
  by (simp add: i64_add_def wrap64_id in_i64_def)

lemma in_i64_odt_to_ms: "in_i64 (odt_to_ms t)"
  by (simp add: odt_to_ms_def wrap64_in_i64)

lemma warm_windows_pos: "0 < ww_ms WARM_DEFAULT" "ww_ms WARM_DEFAULT < ww_ms WARM_EXTENDED"
  by (simp_all add: WARM_DEFAULT_def WARM_EXTENDED_def CACHE_WARM_HOLD_SECS_def EXTENDED_PIN_TTL_MS_def)

end
