(* ===== verification/Gates.thy ===== *)
theory Gates
  imports Account
begin

text \<open>
  The account-level gates of \<^verbatim>\<open>src/manager/select.rs\<close>: may this account serve this request
  (\<open>eligible\<close>, \<open>hard_ok\<close>), may a session keep its pin on it (\<open>account_hard_ok\<close>), and the display-side
  view with the instant the account frees (\<open>account_gate\<close>). The sources pass the selection inputs
  one by one; here those of the fleet are one record (\<open>policy\<close>) and those of the request another
  (\<open>request\<close>). The lemmas show that the two views agree, that the split of a rate-limit hold into a
  short and a long one is exact, and that the promised instant is the first one at which the account
  is free.
\<close>

record policy =
  p_global_threshold :: f64
  p_fable_weekly_threshold :: "f64 option"
  p_pacing :: pacing_config
  p_reserved :: "string set"
  p_parked :: "string set"

record request =
  r_now :: odt
  r_now_ms :: i64
  r_is_fable :: bool
  r_provider :: provider

section \<open>Holds and rejections\<close>

definition hold_remaining_ms :: "account \<Rightarrow> i64 \<Rightarrow> i64 option" where
  "hold_remaining_ms a now_ms =
     filter_opt (\<lambda>r. r > 0) (map_option (\<lambda>until. i64_sub until now_ms) (a_rate_limited_until_ms a))"

definition hold_outlives_cache :: "account \<Rightarrow> i64 \<Rightarrow> warm_window \<Rightarrow> bool" where
  "hold_outlives_cache a now_ms warm = is_some_and (hold_remaining_ms a now_ms) (\<lambda>r. r \<ge> ww_ms warm)"

definition hold_clears_while_warm :: "account \<Rightarrow> i64 \<Rightarrow> warm_window \<Rightarrow> bool" where
  "hold_clears_while_warm a now_ms warm = is_some_and (hold_remaining_ms a now_ms) (\<lambda>r. r < ww_ms warm)"

definition rejection_reset_ms :: "account \<Rightarrow> i64 option" where
  "rejection_reset_ms a =
     (if \<not> q_rejected (a_quota a) then None
      else (case five_hour (a_quota a) of
              None \<Rightarrow> None
            | Some w \<Rightarrow>
                let weekly_util = (case seven_day (a_quota a) of None \<Rightarrow> f64_zero | Some s \<Rightarrow> utilization s)
                in if f64_lt (utilization w) weekly_util then None else map_option odt_to_ms (reset w)))"

definition rejection_clears_while_warm :: "account \<Rightarrow> i64 \<Rightarrow> warm_window \<Rightarrow> bool" where
  "rejection_clears_while_warm a now_ms warm =
     is_some_and (rejection_reset_ms a)
       (\<lambda>reset_ms. let remaining_ms = i64_sub reset_ms now_ms in remaining_ms > 0 \<and> remaining_ms < ww_ms warm)"

definition live_hold :: "account \<Rightarrow> i64 \<Rightarrow> bool" where
  "live_hold a now_ms = is_some_and (a_rate_limited_until_ms a) (\<lambda>until. now_ms < until)"

section \<open>Account-level blocks\<close>

definition account_terminal_gate :: "account \<Rightarrow> gate_reason option" where
  "account_terminal_gate a =
     (if a_disabled a then Some GDisabled
      else if a_status a = Error then Some GLogin
      else if q_rejected (a_quota a) then Some GRejected
      else None)"

definition parked_blocks :: "account \<Rightarrow> string set \<Rightarrow> bool" where
  "parked_blocks a parked = list_ex (\<lambda>g. g \<in> parked) (a_groups a)"

definition reserved_blocks :: "account \<Rightarrow> string option \<Rightarrow> string set \<Rightarrow> bool" where
  "reserved_blocks a grp reserved =
     (if grp \<noteq> None then False else list_ex (\<lambda>g. g \<in> reserved) (a_groups a))"

definition account_hard_ok ::
  "account \<Rightarrow> i64 \<Rightarrow> string option \<Rightarrow> string set \<Rightarrow> string set \<Rightarrow> warm_window \<Rightarrow> bool" where
  "account_hard_ok a now_ms grp reserved parked warm =
     (if (case account_terminal_gate a of
            None \<Rightarrow> False
          | Some g \<Rightarrow> \<not> (g = GRejected \<and> rejection_clears_while_warm a now_ms warm)) then False
      else if parked_blocks a parked then False
      else if hold_outlives_cache a now_ms warm then False
      else if reserved_blocks a grp reserved then False
      else True)"

definition effective_threshold :: "f64 \<Rightarrow> f64 \<Rightarrow> bool \<Rightarrow> f64" where
  "effective_threshold threshold reserve allow_reserve =
     (if allow_reserve then f64_max (f64_sub threshold reserve) f64_zero else threshold)"

definition effective_fable_threshold :: "f64 option \<Rightarrow> f64 \<Rightarrow> f64" where
  "effective_fable_threshold config_override today = unwrap_or config_override today"

definition threshold_of :: "account \<Rightarrow> policy \<Rightarrow> f64" where
  "threshold_of a p = unwrap_or (a_switch_threshold a) (p_global_threshold p)"

definition model_blocked :: "account \<Rightarrow> policy \<Rightarrow> request \<Rightarrow> bool" where
  "model_blocked a p r =
     (let threshold = effective_fable_threshold (p_fable_weekly_threshold p) (threshold_of a p)
      in r_is_fable r \<and> model_weekly_exhausted (a_quota a) threshold (r_now r))"

definition hard_ok :: "account \<Rightarrow> policy \<Rightarrow> request \<Rightarrow> string option \<Rightarrow> warm_window \<Rightarrow> bool" where
  "hard_ok a p r grp warm \<longleftrightarrow>
     account_hard_ok a (r_now_ms r) grp (p_reserved p) (p_parked p) warm \<and>
     account_terminal_gate a = None \<and>
     \<not> hold_clears_while_warm a (r_now_ms r) warm \<and>
     \<not> model_blocked a p r"

definition control_eligible :: "account \<Rightarrow> i64 \<Rightarrow> bool" where
  "control_eligible a now_ms =
     (if a_status a = Error then False
      else if q_rejected (a_quota a) then False
      else if live_hold a now_ms then False
      else True)"

definition paced_out :: "account \<Rightarrow> pacing_config \<Rightarrow> i64 \<Rightarrow> bool" where
  "paced_out a pacing now_ms =
     (if \<not> pacing_is_active pacing then False
      else if is_some_and (effective_max_in_flight pacing) (\<lambda>cap. a_in_flight a \<ge> cap) then True
      else if is_some_and (min_spacing_ms pacing)
                (\<lambda>gap. saturating_sub_i64 now_ms (a_last_served_ms a) < u64_as_i64 gap) then True
      else False)"

definition eligible ::
  "account \<Rightarrow> policy \<Rightarrow> request \<Rightarrow> bool \<Rightarrow> string option \<Rightarrow> string option \<Rightarrow> bool" where
  "eligible a p r respect_pacing grp reserved_group =
     (if a_provider a \<noteq> r_provider r then False
      else if a_disabled a \<or> a_status a = Error then False
      else if parked_blocks a (p_parked p) then False
      else if live_hold a (r_now_ms r) then False
      else if is_near (a_quota a) (threshold_of a p) (r_now r) then False
      else if model_blocked a p r then False
      else if reserved_blocks a reserved_group (p_reserved p) then False
      else if (case grp of None \<Rightarrow> False | Some g \<Rightarrow> g \<notin> set (a_groups a)) then False
      else if respect_pacing \<and> paced_out a (p_pacing p) (r_now_ms r) then False
      else True)"

section \<open>Why a group served nothing\<close>

datatype group_miss = Unknown | OnlyControl | OtherProviderOnly | AllGated | Paced

fun group_miss_as_str :: "group_miss \<Rightarrow> string" where
  "group_miss_as_str Unknown = ''no-such-group''"
| "group_miss_as_str OnlyControl = ''control-account-only''"
| "group_miss_as_str OtherProviderOnly = ''other-provider-only''"
| "group_miss_as_str AllGated = ''all-members-unavailable''"
| "group_miss_as_str Paced = ''all-members-paced''"

definition classify_group_miss ::
  "account list \<Rightarrow> nat set \<Rightarrow> nat option \<Rightarrow> policy \<Rightarrow> request \<Rightarrow> string \<Rightarrow> group_miss" where
  "classify_group_miss accounts tried control_excluded p r grp =
     (let members = filter (\<lambda>i. grp \<in> set (a_groups (accounts ! i))) [0..<length accounts] in
      if members = [] then Unknown
      else
        let own = filter (\<lambda>i. a_provider (accounts ! i) = r_provider r) members in
        if own = [] then OtherProviderOnly
        else if list_all (\<lambda>i. Some i = control_excluded) own then OnlyControl
        else if list_ex (\<lambda>i. Some i \<noteq> control_excluded \<and> i \<notin> tried \<and>
                   eligible (accounts ! i) p r False (Some grp) (Some grp)) own
        then Paced else AllGated)"

section \<open>The gate an account reports\<close>

definition gate_clear_key :: "odt option \<Rightarrow> nat \<times> odt" where
  "gate_clear_key t = (case t of Some t \<Rightarrow> (0, t) | None \<Rightarrow> (1, 0))"

definition hold_gate :: "hold_cause \<Rightarrow> gate_reason" where
  "hold_gate c = (case c of RateLimit \<Rightarrow> GHold | Refused \<Rightarrow> GRefused)"

definition window_gate ::
  "gate_reason \<Rightarrow> quota_window option \<Rightarrow> f64 \<Rightarrow> odt \<Rightarrow> (gate_reason \<times> odt option) list" where
  "window_gate g w threshold now =
     (case w of None \<Rightarrow> []
      | Some w \<Rightarrow> if f64_ge (effective w now) threshold then [(g, live_reset w now)] else [])"

definition standard_gate :: "quota \<Rightarrow> f64 \<Rightarrow> odt \<Rightarrow> (gate_reason \<times> odt option) list" where
  "standard_gate q threshold now =
     (let standard_expired = is_some_and (standard_reset q) (\<lambda>r. now \<ge> r) in
      if \<not> standard_expired \<and>
         (standard_over (tokens_limit q) (tokens_remaining q) threshold \<or>
          standard_over (requests_limit q) (requests_remaining q) threshold)
      then [(GStandard, standard_reset q)] else [])"

definition active_gates ::
  "time_lib \<Rightarrow> account \<Rightarrow> f64 \<Rightarrow> policy \<Rightarrow> request \<Rightarrow> string option \<Rightarrow> (gate_reason \<times> odt option) list" where
  "active_gates T a threshold p r grp =
     (if reserved_blocks a grp (p_reserved p) then [(GReserved, None)] else []) @
     (case a_rate_limited_until_ms a of
        None \<Rightarrow> []
      | Some until \<Rightarrow>
          if r_now_ms r < until then [(hold_gate (a_hold_cause a), ms_to_odt T until)] else []) @
     window_gate GFiveHour (five_hour (a_quota a)) threshold (r_now r) @
     window_gate GSevenDay (seven_day (a_quota a)) threshold (r_now r) @
     (if r_is_fable r
      then window_gate GFableWeekly (seven_day_oi (a_quota a))
             (effective_fable_threshold (p_fable_weekly_threshold p) threshold) (r_now r)
      else []) @
     standard_gate (a_quota a) threshold (r_now r)"

definition account_gate ::
  "time_lib \<Rightarrow> account \<Rightarrow> f64 \<Rightarrow> policy \<Rightarrow> request \<Rightarrow> string option \<Rightarrow> gate_reason \<times> odt option" where
  "account_gate T a threshold p r grp =
     (case account_terminal_gate a of
        Some reason \<Rightarrow> (reason, None)
      | None \<Rightarrow>
          if parked_blocks a (p_parked p) then (GParked, None)
          else unwrap_or (max_by_key (\<lambda>(_, t). gate_clear_key t) (active_gates T a threshold p r grp))
                 (GOk, None))"

section \<open>Lemmas\<close>

text \<open>Instants the program can meet: a clock at or after the epoch whose milliseconds fit, the
  request's two clocks in step, and a hold deadline at or after the epoch.\<close>

definition clock_ok :: "request \<Rightarrow> bool" where
  "clock_ok r \<longleftrightarrow> 0 \<le> r_now r \<and> in_i64 (r_now r div ns_per_ms) \<and> r_now_ms r = odt_to_ms (r_now r)"

definition hold_ok :: "account \<Rightarrow> bool" where
  "hold_ok a = is_none_or (a_rate_limited_until_ms a) (\<lambda>u. 0 \<le> u \<and> in_i64 u)"

lemma clock_ms: "clock_ok r \<Longrightarrow> r_now_ms r = r_now r div ns_per_ms \<and> 0 \<le> r_now_ms r \<and> in_i64 (r_now_ms r)"
  by (simp add: clock_ok_def odt_to_ms_nonneg ns_per_ms_def pos_imp_zdiv_nonneg_iff)

lemma hold_remaining_live:
  assumes "hold_ok a" and "0 \<le> now_ms" and "in_i64 now_ms"
  shows "hold_remaining_ms a now_ms = (if live_hold a now_ms then Some (the (a_rate_limited_until_ms a) - now_ms) else None)"
proof (cases "a_rate_limited_until_ms a")
  case (Some u)
  with assms have "in_i64 (u - now_ms)" by (auto simp: hold_ok_def in_i64_def i64_min_def i64_max_def)
  with Some show ?thesis by (simp add: hold_remaining_ms_def live_hold_def i64_sub_def)
qed (simp add: hold_remaining_ms_def live_hold_def)

lemma hold_split:
  "hold_remaining_ms a now_ms \<noteq> None \<longleftrightarrow>
     (hold_outlives_cache a now_ms warm \<noteq> hold_clears_while_warm a now_ms warm)"
  "\<not> (hold_outlives_cache a now_ms warm \<and> hold_clears_while_warm a now_ms warm)"
  by (cases "hold_remaining_ms a now_ms"; auto simp: hold_outlives_cache_def hold_clears_while_warm_def)+

lemma hard_ok_hold: "hard_ok a p r grp warm \<Longrightarrow> hold_remaining_ms a (r_now_ms r) = None"
  using hold_split(1) [of a "r_now_ms r" warm]
  by (auto simp: hard_ok_def account_hard_ok_def split: if_splits)

lemma hard_ok_not_live: "hard_ok a p r grp warm \<Longrightarrow> clock_ok r \<Longrightarrow> hold_ok a \<Longrightarrow> \<not> live_hold a (r_now_ms r)"
  using hard_ok_hold [of a p r grp warm] hold_remaining_live [of a "r_now_ms r"] clock_ms [of r]
  by (auto split: if_splits)

lemma eligible_iff:
  "eligible a p r rp grp rgrp \<longleftrightarrow>
     a_provider a = r_provider r \<and> \<not> a_disabled a \<and> a_status a \<noteq> Error \<and> \<not> parked_blocks a (p_parked p) \<and>
     \<not> live_hold a (r_now_ms r) \<and> \<not> is_near (a_quota a) (threshold_of a p) (r_now r) \<and> \<not> model_blocked a p r \<and>
     \<not> reserved_blocks a rgrp (p_reserved p) \<and> (\<forall>g. grp = Some g \<longrightarrow> g \<in> set (a_groups a)) \<and>
     (rp \<longrightarrow> \<not> paced_out a (p_pacing p) (r_now_ms r))"
  by (auto simp: eligible_def split: option.splits)

lemma eligible_relax:
  "eligible a p r rp grp rgrp \<Longrightarrow> eligible a p r False grp rgrp"
  "eligible a p r rp grp rgrp \<Longrightarrow> eligible a p r rp None rgrp"
  by (auto simp: eligible_iff)

lemma account_hard_ok_iff:
  "account_hard_ok a now_ms grp reserved parked warm \<longleftrightarrow>
     (account_terminal_gate a = None \<or> account_terminal_gate a = Some GRejected \<and> rejection_clears_while_warm a now_ms warm) \<and>
     \<not> parked_blocks a parked \<and> \<not> hold_outlives_cache a now_ms warm \<and> \<not> reserved_blocks a grp reserved"
  by (auto simp: account_hard_ok_def split: option.splits)

lemma account_terminal_gate_None:
  "account_terminal_gate a = None \<longleftrightarrow> \<not> a_disabled a \<and> a_status a \<noteq> Error \<and> \<not> q_rejected (a_quota a)"
  by (simp add: account_terminal_gate_def)

lemma is_near_iff:
  "is_near q t now \<longleftrightarrow>
     is_some_and (five_hour q) (\<lambda>w. f64_ge (effective w now) t) \<or>
     is_some_and (seven_day q) (\<lambda>w. f64_ge (effective w now) t) \<or>
     (\<not> is_some_and (standard_reset q) (\<lambda>r. now \<ge> r) \<and>
      (standard_over (tokens_limit q) (tokens_remaining q) t \<or>
       standard_over (requests_limit q) (requests_remaining q) t))"
  by (simp add: is_near_def Let_def)

lemma window_gate_Nil: "window_gate g w t now = [] \<longleftrightarrow> \<not> is_some_and w (\<lambda>w. f64_ge (effective w now) t)"
  by (auto simp: window_gate_def split: option.splits)

lemma standard_gate_Nil:
  "standard_gate q t now = [] \<longleftrightarrow>
     is_some_and (standard_reset q) (\<lambda>r. now \<ge> r) \<or>
     \<not> (standard_over (tokens_limit q) (tokens_remaining q) t \<or>
        standard_over (requests_limit q) (requests_remaining q) t)"
  by (auto simp: standard_gate_def Let_def)

lemma active_gates_Nil:
  "active_gates T a (threshold_of a p) p r grp = [] \<longleftrightarrow>
     \<not> reserved_blocks a grp (p_reserved p) \<and> \<not> live_hold a (r_now_ms r) \<and>
     \<not> is_near (a_quota a) (threshold_of a p) (r_now r) \<and> \<not> model_blocked a p r"
proof -
  have fable: "(if r_is_fable r then window_gate GFableWeekly (seven_day_oi (a_quota a)) t (r_now r) else []) = [] \<longleftrightarrow>
      \<not> (r_is_fable r \<and> model_weekly_exhausted (a_quota a) t (r_now r))" for t
    by (simp add: window_gate_Nil model_weekly_exhausted_def)
  show ?thesis
    unfolding active_gates_def append_is_Nil_conv window_gate_Nil standard_gate_Nil fable is_near_iff
      model_blocked_def Let_def live_hold_def
    by (auto split: option.splits)
qed

lemma active_gates_not_Ok: "(g, t) \<in> set (active_gates T a th p r grp) \<Longrightarrow> g \<noteq> GOk"
  by (auto simp: active_gates_def window_gate_def standard_gate_def hold_gate_def Let_def
      split: if_splits option.splits hold_cause.splits)

lemma account_gate_Ok_iff:
  "fst (account_gate T a th p r grp) = GOk \<longleftrightarrow>
     account_terminal_gate a = None \<and> \<not> parked_blocks a (p_parked p) \<and> active_gates T a th p r grp = []"
proof (cases "account_terminal_gate a")
  case None
  show ?thesis
  proof (cases "max_by_key (\<lambda>(_, t). gate_clear_key t) (active_gates T a th p r grp)")
    case (Some y)
    from max_by_key_Some [OF this] have "fst y \<noteq> GOk" by (metis active_gates_not_Ok prod.collapse)
    moreover from Some have "active_gates T a th p r grp \<noteq> []" by auto
    ultimately show ?thesis using None Some by (simp add: account_gate_def)
  qed (use None in \<open>simp add: account_gate_def\<close>)
next
  case (Some g)
  then have "g \<noteq> GOk" by (auto simp: account_terminal_gate_def split: if_splits)
  with Some show ?thesis by (simp add: account_gate_def)
qed

subsection \<open>Gates at a later instant\<close>

definition cleared_by :: "odt \<Rightarrow> gate_reason \<times> odt option \<Rightarrow> bool" where
  "cleared_by now x = is_some_and (snd x) (\<lambda>t. t \<le> now)"

lemma window_gate_later:
  assumes "now \<le> now'" and "f64_lt f64_zero t"
  shows "window_gate g w t now' = [] \<longleftrightarrow> (\<forall>x\<in>set (window_gate g w t now). cleared_by now' x)"
proof (cases w)
  case (Some v)
  have "\<not> f64_le t f64_zero" using assms(2) by (rule f64_lt_imp_not_le)
  with Some assms(1) show ?thesis
    by (cases "reset v") (auto simp: window_gate_def effective_def live_reset_def cleared_by_def)
qed (simp add: window_gate_def)

lemma standard_gate_later:
  assumes "now \<le> now'"
  shows "standard_gate q t now' = [] \<longleftrightarrow> (\<forall>x\<in>set (standard_gate q t now). cleared_by now' x)"
  using assms by (cases "standard_reset q") (auto simp: standard_gate_def Let_def cleared_by_def)

lemma ms_div_less_iff: "now div ns_per_ms < u \<longleftrightarrow> now < u * ns_per_ms"
  by (simp add: ns_per_ms_def) linarith

definition hold_gates :: "time_lib \<Rightarrow> account \<Rightarrow> i64 \<Rightarrow> (gate_reason \<times> odt option) list" where
  "hold_gates T a now_ms = (case a_rate_limited_until_ms a of
        None \<Rightarrow> []
      | Some until \<Rightarrow> if now_ms < until then [(hold_gate (a_hold_cause a), ms_to_odt T until)] else [])"

lemma hold_gates_later:
  assumes T: "time_lib_ok T" and r: "clock_ok r" and r': "clock_ok r'" and le: "r_now r \<le> r_now r'"
    and known: "\<forall>x\<in>set (hold_gates T a (r_now_ms r)). snd x \<noteq> None"
  shows "hold_gates T a (r_now_ms r') = [] \<longleftrightarrow> (\<forall>x\<in>set (hold_gates T a (r_now_ms r)). cleared_by (r_now r') x)"
proof (cases "a_rate_limited_until_ms a")
  case (Some u)
  have m: "r_now_ms r \<le> r_now_ms r'"
    using clock_ms [OF r] clock_ms [OF r'] le by (simp add: zdiv_mono1 ns_per_ms_def)
  show ?thesis
  proof (cases "r_now_ms r < u")
    case True
    then obtain t where t: "ms_to_odt T u = Some t" using known Some by (auto simp: hold_gates_def)
    then have "t = u * ns_per_ms" using T by (simp add: time_lib_ok_def ms_to_odt_def)
    then show ?thesis using Some True t clock_ms [OF r'] ms_div_less_iff [of "r_now r'" u]
      by (auto simp: hold_gates_def cleared_by_def)
  next
    case False
    with Some m show ?thesis by (simp add: hold_gates_def)
  qed
qed (simp add: hold_gates_def)

lemma active_gates_later:
  assumes "time_lib_ok T" and "clock_ok r" and "clock_ok r'" and "r_now r \<le> r_now r'"
    and "r_is_fable r' = r_is_fable r"
    and "f64_lt f64_zero th" and "f64_lt f64_zero (effective_fable_threshold (p_fable_weekly_threshold p) th)"
    and known: "\<forall>x\<in>set (active_gates T a th p r grp). snd x \<noteq> None"
  shows "active_gates T a th p r' grp = [] \<longleftrightarrow>
    (\<forall>x\<in>set (active_gates T a th p r grp). cleared_by (r_now r') x)"
proof -
  have split: "active_gates T a th p s grp =
     (if reserved_blocks a grp (p_reserved p) then [(GReserved, None)] else []) @ hold_gates T a (r_now_ms s) @
     window_gate GFiveHour (five_hour (a_quota a)) th (r_now s) @
     window_gate GSevenDay (seven_day (a_quota a)) th (r_now s) @
     (if r_is_fable s
      then window_gate GFableWeekly (seven_day_oi (a_quota a))
             (effective_fable_threshold (p_fable_weekly_threshold p) th) (r_now s)
      else []) @ standard_gate (a_quota a) th (r_now s)" for s
    by (simp add: active_gates_def hold_gates_def)
  have nr: "\<not> reserved_blocks a grp (p_reserved p)" using known by (auto simp: split)
  have "\<forall>x\<in>set (hold_gates T a (r_now_ms r)). snd x \<noteq> None" using known by (auto simp: split)
  note hg = hold_gates_later [OF assms(1-4) this]
  let ?oi = "\<lambda>s. if r_is_fable s
      then window_gate GFableWeekly (seven_day_oi (a_quota a))
             (effective_fable_threshold (p_fable_weekly_threshold p) th) (r_now s)
      else []"
  have oi: "?oi r' = [] \<longleftrightarrow> (\<forall>x\<in>set (?oi r). cleared_by (r_now r') x)"
    using assms(5) by (simp only: window_gate_later [OF assms(4,7)] split: if_split) simp
  show ?thesis
    unfolding split append_is_Nil_conv set_append ball_Un hg oi
      window_gate_later [OF assms(4,6)] standard_gate_later [OF assms(4)]
    using nr by simp
qed

lemma binding_gate_latest:
  assumes "max_by_key (\<lambda>(_, t). gate_clear_key t) gs = Some (g, Some t)"
  shows "(\<forall>x\<in>set gs. snd x \<noteq> None) \<and> ((\<forall>x\<in>set gs. cleared_by now x) \<longleftrightarrow> t \<le> now)"
proof -
  from max_by_key_Some [OF assms] have m: "(g, Some t) \<in> set gs"
    and le: "\<forall>x\<in>set gs. gate_clear_key (snd x) \<le> gate_clear_key (Some t)"
    by (auto split: prod.splits)
  have "\<exists>u. snd x = Some u \<and> u \<le> t" if "x \<in> set gs" for x
    using le that by (cases "snd x") (fastforce simp: gate_clear_key_def less_eq_prod_def)+
  with m show ?thesis by (fastforce simp: cleared_by_def)
qed

lemma gate_Ok_eligible:
  "fst (account_gate T a (threshold_of a p) p r grp) = GOk \<longleftrightarrow>
     eligible a p (r\<lparr>r_provider := a_provider a\<rparr>) False None grp \<and> \<not> q_rejected (a_quota a)"
  unfolding account_gate_Ok_iff active_gates_Nil account_terminal_gate_None eligible_iff
  by (auto simp: model_blocked_def)

lemma gate_clears:
  assumes "time_lib_ok T" and "clock_ok r" and "clock_ok r'" and "r_now r \<le> r_now r'"
    and "r_is_fable r' = r_is_fable r"
    and "f64_lt f64_zero th" and "f64_lt f64_zero (effective_fable_threshold (p_fable_weekly_threshold p) th)"
    and gate: "account_gate T a th p r grp = (g, Some t)"
  shows "fst (account_gate T a th p r' grp) = GOk \<longleftrightarrow> t \<le> r_now r'"
proof -
  have nt: "account_terminal_gate a = None" and park: "\<not> parked_blocks a (p_parked p)"
    using gate by (auto simp: account_gate_def split: option.splits if_splits)
  then have "max_by_key (\<lambda>(_, t). gate_clear_key t) (active_gates T a th p r grp) = Some (g, Some t)"
    using gate by (cases "max_by_key (\<lambda>(_, t). gate_clear_key t) (active_gates T a th p r grp)")
      (auto simp: account_gate_def)
  note latest = binding_gate_latest [OF this, of "r_now r'"]
  show ?thesis
    unfolding account_gate_Ok_iff using nt park latest active_gates_later [OF assms(1-7)] by blast
qed

section \<open>Properties\<close>

text \<open>
  C13. The gate an account reports and the selection predicate agree: the display says \<open>Ok\<close> exactly
  when \<open>eligible\<close> (pacing and group preference aside) would let the account serve a request of its own
  provider and upstream has not rejected it.
\<close>

theorem account_gate_ok_iff_eligible:
  "fst (account_gate T a (threshold_of a p) p r grp) = GOk \<longleftrightarrow>
     eligible a p (r\<lparr>r_provider := a_provider a\<rparr>) False None grp \<and> \<not> q_rejected (a_quota a)"
  by (rule gate_Ok_eligible)

text \<open>
  The instant an account is reported to free at is exact: with nothing else learned, from then on
  it is in rotation, and at no earlier instant is it.
\<close>

theorem free_at_exact:
  assumes "time_lib_ok T" and "clock_ok r" and "clock_ok r'" and "r_now r \<le> r_now r'"
    and "r_is_fable r' = r_is_fable r"
    and "f64_lt f64_zero th" and "f64_lt f64_zero (effective_fable_threshold (p_fable_weekly_threshold p) th)"
    and gate: "account_gate T a th p r grp = (g, Some t)"
  shows "fst (account_gate T a th p r' grp) = GOk \<longleftrightarrow> t \<le> r_now r'"
  by (rule gate_clears [OF assms])

definition sample_policy :: policy where
  "sample_policy = \<lparr>p_global_threshold = Fin (49 / 50), p_fable_weekly_threshold = None,
     p_pacing = pacing_off, p_reserved = {}, p_parked = {}\<rparr>"

definition held_account :: account where
  "held_account = (fresh_account ''a'' Anthropic)\<lparr>a_rate_limited_until_ms := Some 5000\<rparr>"

definition at_ms :: "i64 \<Rightarrow> request" where
  "at_ms ms = \<lparr>r_now = ms * ns_per_ms, r_now_ms = ms, r_is_fable = False, r_provider = Anthropic\<rparr>"

lemma clock_ok_at_ms: "0 \<le> ms \<Longrightarrow> in_i64 ms \<Longrightarrow> clock_ok (at_ms ms)"
  by (simp add: clock_ok_def at_ms_def ns_per_ms_def odt_to_ms_def trunc_div_nonneg)

theorem free_at_exact_witness:
  "fst (account_gate sample_time held_account (Fin (49 / 50)) sample_policy (at_ms 4999) None) \<noteq> GOk \<and>
   fst (account_gate sample_time held_account (Fin (49 / 50)) sample_policy (at_ms 5000) None) = GOk"
proof -
  have gate: "account_gate sample_time held_account (Fin (49 / 50)) sample_policy (at_ms 1000) None =
      (GHold, Some (5000 * ns_per_ms))"
    by code_simp
  have c: "clock_ok (at_ms 1000)" "clock_ok (at_ms 4999)" "clock_ok (at_ms 5000)"
    by (simp_all add: clock_ok_at_ms in_i64_def i64_min_def i64_max_def)
  have th: "f64_lt f64_zero (Fin (49 / 50))"
    "f64_lt f64_zero (effective_fable_threshold (p_fable_weekly_threshold sample_policy) (Fin (49 / 50)))"
    by (simp_all add: f64_zero_def effective_fable_threshold_def sample_policy_def)
  show ?thesis
    using free_at_exact [OF sample_time_ok c(1,2) _ _ th gate] free_at_exact [OF sample_time_ok c(1,3) _ _ th gate]
    by (simp add: at_ms_def ns_per_ms_def)
qed

text \<open>
  A live rate-limit hold is either short (it clears while the session's cache is warm) or long,
  never both: no serve decision ever passes it, and a pin decision passes it exactly when it is short.
\<close>

theorem hold_short_or_long:
  assumes "clock_ok r" and "hold_ok a" and "live_hold a (r_now_ms r)"
  shows "hold_outlives_cache a (r_now_ms r) warm = (\<not> hold_clears_while_warm a (r_now_ms r) warm) \<and>
    \<not> hard_ok a p r grp warm \<and> \<not> eligible a p r rp grp' rgrp \<and>
    (account_hard_ok a (r_now_ms r) grp (p_reserved p) (p_parked p) warm \<longrightarrow>
       hold_clears_while_warm a (r_now_ms r) warm)"
proof -
  have live: "hold_remaining_ms a (r_now_ms r) \<noteq> None"
    using hold_remaining_live [OF assms(2), of "r_now_ms r"] clock_ms [OF assms(1)] assms(3) by auto
  then have split: "hold_outlives_cache a (r_now_ms r) warm = (\<not> hold_clears_while_warm a (r_now_ms r) warm)"
    using hold_split by blast
  moreover have "\<not> hard_ok a p r grp warm" using hard_ok_hold [of a p r grp warm] live by auto
  moreover have "\<not> eligible a p r rp grp' rgrp" using assms(3) by (simp add: eligible_iff)
  ultimately show ?thesis by (auto simp: account_hard_ok_iff)
qed

theorem hold_short_or_long_witness:
  "hold_outlives_cache held_account 1000 WARM_DEFAULT = (\<not> hold_clears_while_warm held_account 1000 WARM_DEFAULT) \<and>
   \<not> hard_ok held_account sample_policy (at_ms 1000) None WARM_DEFAULT \<and>
   account_hard_ok held_account 1000 None {} {} WARM_DEFAULT"
proof -
  have "clock_ok (at_ms 1000)" by (simp add: clock_ok_at_ms in_i64_def i64_min_def i64_max_def)
  moreover have "hold_ok held_account" by (simp add: hold_ok_def held_account_def in_i64_def i64_min_def i64_max_def)
  moreover have "live_hold held_account (r_now_ms (at_ms 1000))" by code_simp
  ultimately have "hold_outlives_cache held_account 1000 WARM_DEFAULT = (\<not> hold_clears_while_warm held_account 1000 WARM_DEFAULT) \<and>
     \<not> hard_ok held_account sample_policy (at_ms 1000) None WARM_DEFAULT"
    using hold_short_or_long [of "at_ms 1000" held_account WARM_DEFAULT sample_policy None False None None]
    by (simp add: at_ms_def)
  moreover have "account_hard_ok held_account 1000 None {} {} WARM_DEFAULT" by code_simp
  ultimately show ?thesis by simp
qed

end
