(* ===== verification/Capped_Map.thy ===== *)
theory Capped_Map
  imports Prelude
begin

text \<open>
  \<^verbatim>\<open>src/manager/capped_map.rs\<close>: the size-capped session maps. A \<open>HashMap\<close> is an association
  list with distinct keys; the list order is the iteration order, which Rust leaves open, so a
  statement for every list is a statement for every iteration order. The locale
  \<open>bounded_store\<close> is what the pin tables rely on: a key just written reads back, a write never
  makes another key read a different value, and it loses at most one other key.
\<close>

section \<open>The interface\<close>

locale bounded_store =
  fixes invar :: "'m \<Rightarrow> bool"
    and lookup :: "'m \<Rightarrow> 'k \<Rightarrow> 'v option"
    and store :: "'k \<Rightarrow> 'v \<Rightarrow> 'm \<Rightarrow> 'm"
  assumes invar_store: "invar m \<Longrightarrow> invar (store k v m)"
    and lookup_store_same: "invar m \<Longrightarrow> lookup (store k v m) k = Some v"
    and lookup_store_other:
      "invar m \<Longrightarrow> k' \<noteq> k \<Longrightarrow> lookup (store k v m) k' \<in> {lookup m k', None}"
    and store_loses_one:
      "invar m \<Longrightarrow> k1 \<noteq> k \<Longrightarrow> k2 \<noteq> k \<Longrightarrow> lookup m k1 \<noteq> None \<Longrightarrow> lookup m k2 \<noteq> None
        \<Longrightarrow> lookup (store k v m) k1 = None \<Longrightarrow> lookup (store k v m) k2 = None \<Longrightarrow> k1 = k2"
begin

definition store_all :: "('k \<times> 'v) list \<Rightarrow> 'm \<Rightarrow> 'm" where
  "store_all kvs m = fold (\<lambda>(k, v). store k v) kvs m"

lemma invar_store_all: "invar m \<Longrightarrow> invar (store_all kvs m)"
  by (induction kvs arbitrary: m) (auto simp: store_all_def invar_store)

lemma lookup_store_all:
  "invar m \<Longrightarrow> lookup (store_all kvs m) k = Some v \<Longrightarrow> map_of (rev kvs) k = Some v \<or>
     (k \<notin> fst ` set kvs \<and> lookup m k = Some v)"
proof (induction kvs rule: rev_induct)
  case Nil
  then show ?case by (simp add: store_all_def)
next
  case (snoc kv kvs)
  obtain a b where kv: "kv = (a, b)" by force
  have inv: "invar (store_all kvs m)" using snoc.prems invar_store_all by blast
  have step: "store_all (kvs @ [kv]) m = store a b (store_all kvs m)"
    by (simp add: store_all_def kv)
  show ?case
  proof (cases "k = a")
    case True
    with snoc.prems(2) lookup_store_same [OF inv, of a b] show ?thesis by (simp add: step) (simp add: kv)
  next
    case False
    with snoc.prems lookup_store_other [OF inv False, of b]
    have "lookup (store_all kvs m) k = Some v" by (auto simp: step)
    with snoc.IH [OF snoc.prems(1)] False show ?thesis by (auto simp: kv)
  qed
qed

lemma lookup_last_stored: "invar m \<Longrightarrow> lookup (store_all (kvs @ [(k, v)]) m) k = Some v"
  using lookup_store_same [OF invar_store_all] by (simp add: store_all_def)

end

section \<open>Hash maps as association lists\<close>

type_synonym ('k, 'v) hash_map = "('k \<times> 'v) list"

definition hm_ok :: "('k, 'v) hash_map \<Rightarrow> bool" where
  "hm_ok m \<longleftrightarrow> distinct (map fst m)"

definition hm_get :: "('k, 'v) hash_map \<Rightarrow> 'k \<Rightarrow> 'v option" where
  "hm_get m k = map_of m k"

definition hm_remove :: "'k \<Rightarrow> ('k, 'v) hash_map \<Rightarrow> ('k, 'v) hash_map" where
  "hm_remove k m = filter (\<lambda>p. fst p \<noteq> k) m"

text \<open>\<open>HashMap::insert\<close> overwrites in place, and a new key lands at some position of the
  iteration order (here the last).\<close>

fun hm_insert :: "'k \<Rightarrow> 'v \<Rightarrow> ('k, 'v) hash_map \<Rightarrow> ('k, 'v) hash_map" where
  "hm_insert k v [] = [(k, v)]"
| "hm_insert k v ((a, b) # m) = (if a = k then (k, v) # m else (a, b) # hm_insert k v m)"

lemma hm_get_insert [simp]: "hm_get (hm_insert k v m) k' = (if k' = k then Some v else hm_get m k')"
  by (induction m) (auto simp: hm_get_def)

lemma hm_get_remove [simp]: "hm_get (hm_remove k m) k' = (if k' = k then None else hm_get m k')"
  by (induction m) (auto simp: hm_get_def hm_remove_def)

lemma hm_keys_insert [simp]: "fst ` set (hm_insert k v m) = insert k (fst ` set m)"
  by (induction k v m rule: hm_insert.induct) (simp_all add: insert_commute)

lemma hm_keys_insert_list: "set (map fst (hm_insert k v m)) = insert k (set (map fst m))"
  using hm_keys_insert by simp

lemma hm_ok_insert [simp]: "hm_ok m \<Longrightarrow> hm_ok (hm_insert k v m)"
  by (induction m) (auto simp: hm_ok_def)

lemma hm_ok_remove [simp]: "hm_ok m \<Longrightarrow> hm_ok (hm_remove k m)"
  by (auto simp: hm_ok_def hm_remove_def distinct_map inj_on_def)

lemma hm_ok_Nil [simp]: "hm_ok []"
  by (simp add: hm_ok_def)

lemma hm_ok_filter [simp]: "hm_ok m \<Longrightarrow> hm_ok (filter p m)"
  by (auto simp: hm_ok_def distinct_map inj_on_def)

lemma hm_get_in: "hm_ok m \<Longrightarrow> hm_get m k = Some v \<longleftrightarrow> (k, v) \<in> set m"
  by (simp add: hm_ok_def hm_get_def)

lemma hm_get_None: "hm_get m k = None \<longleftrightarrow> k \<notin> fst ` set m"
  by (simp add: hm_get_def map_of_eq_None_iff)

lemma length_hm_insert:
  "length (hm_insert k v m) = (if k \<in> fst ` set m then length m else Suc (length m))"
  by (induction k v m rule: hm_insert.induct) simp_all

lemma length_hm_remove:
  "hm_ok m \<Longrightarrow> length (hm_remove k m) = (if k \<in> fst ` set m then length m - 1 else length m)"
proof (induction m)
  case (Cons p m)
  show ?case
  proof (cases "fst p = k")
    case True
    with Cons.prems have "k \<notin> fst ` set m" by (auto simp: hm_ok_def)
    with Cons True show ?thesis by (auto simp: hm_ok_def hm_remove_def filter_id_conv)
  next
    case False
    with Cons have "length (hm_remove k m) = (if k \<in> fst ` set m then length m - 1 else length m)"
      by (simp add: hm_ok_def)
    moreover have "k \<in> fst ` set m \<Longrightarrow> 0 < length m" by auto
    ultimately show ?thesis using False by (auto simp: hm_remove_def)
  qed
qed (simp add: hm_remove_def)

section \<open>CappedMap\<close>

record ('k, 'v) capped_map =
  cm_map :: "('k, 'v) hash_map"
  cm_cap :: nat
  cm_touched :: "'v \<Rightarrow> i64"

definition capped_map_new :: "nat \<Rightarrow> ('v \<Rightarrow> i64) \<Rightarrow> ('k, 'v) capped_map" where
  "capped_map_new cap touched = \<lparr>cm_map = [], cm_cap = cap, cm_touched = touched\<rparr>"

text \<open>\<open>Iterator::min_by_key\<close>: the first of the least elements.\<close>

fun min_by_key :: "('a \<Rightarrow> int) \<Rightarrow> 'a list \<Rightarrow> 'a option" where
  "min_by_key f [] = None"
| "min_by_key f (x # xs) =
     (case min_by_key f xs of None \<Rightarrow> Some x | Some y \<Rightarrow> if f x \<le> f y then Some x else Some y)"

definition evict_sparing :: "'k \<Rightarrow> ('k, 'v) capped_map \<Rightarrow> 'k option \<times> ('k, 'v) capped_map" where
  "evict_sparing key m =
     (if length (cm_map m) \<le> cm_cap m then (None, m)
      else (case filter_opt (\<lambda>oldest. oldest \<noteq> key)
                   (map_option fst (min_by_key (\<lambda>(_, value). cm_touched m value) (cm_map m))) of
              None \<Rightarrow> (None, m)
            | Some oldest \<Rightarrow> (Some oldest, m\<lparr>cm_map := hm_remove oldest (cm_map m)\<rparr>)))"

definition capped_insert :: "'k \<Rightarrow> 'v \<Rightarrow> ('k, 'v) capped_map \<Rightarrow> 'v option \<times> ('k, 'v) capped_map" where
  "capped_insert key value m =
     (let prior = hm_get (cm_map m) key;
          m' = m\<lparr>cm_map := hm_insert key value (cm_map m)\<rparr>
      in (prior, snd (evict_sparing key m')))"

abbreviation cm_get :: "('k, 'v) capped_map \<Rightarrow> 'k \<Rightarrow> 'v option" where
  "cm_get m k \<equiv> hm_get (cm_map m) k"

definition cm_ok :: "('k, 'v) capped_map \<Rightarrow> bool" where
  "cm_ok m \<longleftrightarrow> hm_ok (cm_map m)"

lemma min_by_key_None [simp]: "min_by_key f xs = None \<longleftrightarrow> xs = []"
  by (cases xs) (auto split: option.splits)

lemma min_by_key_Some: "min_by_key f xs = Some y \<Longrightarrow> y \<in> set xs \<and> (\<forall>x\<in>set xs. f y \<le> f x)"
  by (induction xs arbitrary: y) (fastforce split: option.splits if_splits)+

lemma evict_sparing_Some:
  assumes "evict_sparing key m = (Some k, m')" and "cm_ok m"
  shows "k \<noteq> key \<and> cm_cap m < length (cm_map m) \<and> m' = m\<lparr>cm_map := hm_remove k (cm_map m)\<rparr> \<and>
    (\<exists>v. cm_get m k = Some v \<and> (\<forall>k' v'. cm_get m k' = Some v' \<longrightarrow> cm_touched m v \<le> cm_touched m v'))"
proof -
  from assms(1) obtain v where
    mk: "min_by_key (\<lambda>(_, value). cm_touched m value) (cm_map m) = Some (k, v)" and
    r: "k \<noteq> key" "cm_cap m < length (cm_map m)" "m' = m\<lparr>cm_map := hm_remove k (cm_map m)\<rparr>"
    by (auto simp: evict_sparing_def filter_opt_Some_iff split: if_splits option.splits)
  from min_by_key_Some [OF mk] assms(2) r show ?thesis
    by (force simp: cm_ok_def hm_get_in)
qed

lemma evict_sparing_None: "evict_sparing key m = (None, m') \<Longrightarrow> m' = m"
  by (auto simp: evict_sparing_def split: if_splits option.splits)

lemma evict_sparing_frame [simp]:
  "cm_cap (snd (evict_sparing key m)) = cm_cap m"
  "cm_touched (snd (evict_sparing key m)) = cm_touched m"
  by (auto simp: evict_sparing_def split: option.splits)

lemma evict_sparing_ok: "cm_ok m \<Longrightarrow> cm_ok (snd (evict_sparing key m))"
  by (auto simp: evict_sparing_def cm_ok_def split: option.splits)

lemma evict_sparing_get:
  "cm_get (snd (evict_sparing key m)) k =
     (if fst (evict_sparing key m) = Some k then None else cm_get m k)"
  by (auto simp: evict_sparing_def split: option.splits)

lemma evict_never_spared: "fst (evict_sparing key m) \<noteq> Some key"
  by (auto simp: evict_sparing_def filter_opt_Some_iff split: option.splits)

lemma capped_insert_get:
  "cm_get (snd (capped_insert key v m)) k =
     (if k = key then Some v
      else if fst (evict_sparing key (m\<lparr>cm_map := hm_insert key v (cm_map m)\<rparr>)) = Some k then None
      else cm_get m k)"
  using evict_never_spared [of key "m\<lparr>cm_map := hm_insert key v (cm_map m)\<rparr>"]
  by (simp add: capped_insert_def Let_def evict_sparing_get)

lemma capped_insert_ok: "cm_ok m \<Longrightarrow> cm_ok (snd (capped_insert key v m))"
  unfolding capped_insert_def Let_def snd_conv
  by (rule evict_sparing_ok) (simp add: cm_ok_def)

lemma capped_insert_frame [simp]:
  "cm_cap (snd (capped_insert key v m)) = cm_cap m"
  "cm_touched (snd (capped_insert key v m)) = cm_touched m"
  by (simp_all add: capped_insert_def Let_def)

interpretation pins: bounded_store cm_ok "\<lambda>m. hm_get (cm_map m)" "\<lambda>k v m. snd (capped_insert k v m)"
proof
  show "cm_ok m \<Longrightarrow> cm_ok (snd (capped_insert k v m))" for m :: "('a, 'b) capped_map" and k v
    by (rule capped_insert_ok)
qed (auto simp: capped_insert_get split: if_splits)

lemma capped_map_new_ok [simp]: "cm_ok (capped_map_new cap touched)"
  by (simp add: capped_map_new_def cm_ok_def)

text \<open>The size after an eviction, and when one must happen: a stamp that is strictly newer than
  every other entry's can never be its own victim.\<close>

definition stamped_last :: "'k \<Rightarrow> ('k, 'v) capped_map \<Rightarrow> bool" where
  "stamped_last key m \<longleftrightarrow> (\<forall>(k, v) \<in> set (cm_map m). k \<noteq> key \<longrightarrow>
     (\<forall>w. hm_get (cm_map m) key = Some w \<longrightarrow> cm_touched m v < cm_touched m w))"

lemma evict_sparing_must:
  assumes ok: "cm_ok m" and over: "cm_cap m < length (cm_map m)" and cap: "0 < cm_cap m"
    and last: "stamped_last key m"
  shows "\<exists>k. fst (evict_sparing key m) = Some k \<and> k \<in> fst ` set (cm_map m)"
proof -
  obtain k v where mk: "min_by_key (\<lambda>(_, value). cm_touched m value) (cm_map m) = Some (k, v)"
    using over by (cases "min_by_key (\<lambda>(_, value). cm_touched m value) (cm_map m)") auto
  note least = min_by_key_Some [OF mk]
  have "k \<noteq> key"
  proof
    assume k: "k = key"
    with least ok have kv: "hm_get (cm_map m) key = Some v" by (simp add: cm_ok_def hm_get_in)
    have "\<exists>k' v'. (k', v') \<in> set (cm_map m) \<and> k' \<noteq> key"
    proof (rule ccontr)
      assume "\<not> ?thesis"
      then have "set (map fst (cm_map m)) \<subseteq> {key}" by auto
      then have "card (set (map fst (cm_map m))) \<le> 1" by (metis card.empty card.insert card_mono empty_iff finite.intros One_nat_def)
      moreover have "card (set (map fst (cm_map m))) = length (cm_map m)"
        using ok by (simp add: cm_ok_def hm_ok_def distinct_card [of "map fst (cm_map m)", simplified])
      ultimately show False using over cap by simp
    qed
    then obtain k' v' where o: "(k', v') \<in> set (cm_map m)" "k' \<noteq> key" by blast
    with last kv have "cm_touched m v' < cm_touched m v" by (auto simp: stamped_last_def)
    with least o show False by fastforce
  qed
  with mk over least show ?thesis by (force simp: evict_sparing_def)
qed

lemma evict_sparing_length:
  assumes "cm_ok m" and "0 < cm_cap m" and "stamped_last key m"
  shows "length (cm_map (snd (evict_sparing key m))) =
    (if cm_cap m < length (cm_map m) then length (cm_map m) - 1 else length (cm_map m))"
proof (cases "cm_cap m < length (cm_map m)")
  case True
  from evict_sparing_must [OF assms(1) True assms(2,3)] obtain k where
    k: "fst (evict_sparing key m) = Some k" "k \<in> fst ` set (cm_map m)" by blast
  then have "evict_sparing key m = (Some k, snd (evict_sparing key m))" by (metis prod.collapse)
  from evict_sparing_Some [OF this assms(1)] k(2) assms(1) True show ?thesis
    by (simp add: length_hm_remove cm_ok_def)
qed (simp add: evict_sparing_def)

section \<open>CappedSet\<close>

record 'k capped_set =
  cs_set :: "'k set"
  cs_order :: "('k, i64) capped_map"
  cs_next :: i64

definition capped_set_new :: "nat \<Rightarrow> 'k capped_set" where
  "capped_set_new cap =
     \<lparr>cs_set = {}, cs_order = capped_map_new cap (\<lambda>inserted. inserted), cs_next = 0\<rparr>"

definition capped_set_insert :: "'k \<Rightarrow> 'k capped_set \<Rightarrow> bool \<times> 'k capped_set" where
  "capped_set_insert key s =
     (let next = i64_add (cs_next s) 1;
          order = (cs_order s)\<lparr>cm_map := hm_insert key next (cm_map (cs_order s))\<rparr>;
          (evicted, order') = evict_sparing key order;
          set' = (case evicted of None \<Rightarrow> cs_set s | Some e \<Rightarrow> cs_set s - {e})
      in (key \<notin> set', \<lparr>cs_set = insert key set', cs_order = order', cs_next = next\<rparr>))"

definition capped_set_remove :: "'k \<Rightarrow> 'k capped_set \<Rightarrow> bool \<times> 'k capped_set" where
  "capped_set_remove key s =
     (key \<in> cs_set s,
      s\<lparr>cs_order := (cs_order s)\<lparr>cm_map := hm_remove key (cm_map (cs_order s))\<rparr>,
        cs_set := cs_set s - {key}\<rparr>)"

definition capped_set_retain :: "('k \<Rightarrow> bool) \<Rightarrow> 'k capped_set \<Rightarrow> 'k capped_set" where
  "capped_set_retain keep s =
     (let set' = Set.filter keep (cs_set s) in
      s\<lparr>cs_set := set',
        cs_order := (cs_order s)\<lparr>cm_map := filter (\<lambda>p. fst p \<in> set') (cm_map (cs_order s))\<rparr>\<rparr>)"

definition capped_set_clear :: "'k capped_set \<Rightarrow> 'k capped_set" where
  "capped_set_clear s = s\<lparr>cs_set := {}, cs_order := (cs_order s)\<lparr>cm_map := []\<rparr>\<rparr>"

datatype 'k set_op = Insert 'k | Remove 'k | Retain "'k \<Rightarrow> bool" | Clear

fun capped_set_do :: "'k set_op \<Rightarrow> 'k capped_set \<Rightarrow> 'k capped_set" where
  "capped_set_do (Insert k) s = snd (capped_set_insert k s)"
| "capped_set_do (Remove k) s = snd (capped_set_remove k s)"
| "capped_set_do (Retain p) s = capped_set_retain p s"
| "capped_set_do Clear s = capped_set_clear s"

text \<open>The specification: a recency list, the most recently inserted key first, cut at the cap.\<close>

fun recency_do :: "nat \<Rightarrow> 'k set_op \<Rightarrow> 'k list \<Rightarrow> 'k list" where
  "recency_do cap (Insert k) l = take cap (k # removeAll k l)"
| "recency_do cap (Remove k) l = removeAll k l"
| "recency_do cap (Retain p) l = filter p l"
| "recency_do cap Clear l = []"

definition stamp :: "'k capped_set \<Rightarrow> 'k \<Rightarrow> int" where
  "stamp s k = the (hm_get (cm_map (cs_order s)) k)"

definition ordered_by :: "nat \<Rightarrow> nat \<Rightarrow> 'k capped_set \<Rightarrow> 'k list \<Rightarrow> bool" where
  "ordered_by cap n s l \<longleftrightarrow>
     cm_ok (cs_order s) \<and> cm_cap (cs_order s) = cap \<and> cm_touched (cs_order s) = (\<lambda>x. x) \<and>
     cs_set s = set l \<and> fst ` set (cm_map (cs_order s)) = set l \<and> distinct l \<and>
     sorted_wrt (\<lambda>a b. stamp s b < stamp s a) l \<and> (\<forall>k\<in>set l. stamp s k \<le> cs_next s) \<and>
     0 \<le> cs_next s \<and> cs_next s \<le> int n"

definition recency :: "nat \<Rightarrow> nat \<Rightarrow> 'k capped_set \<Rightarrow> 'k list \<Rightarrow> bool" where
  "recency cap n s l \<longleftrightarrow> ordered_by cap n s l \<and> length l \<le> cap"

lemma hm_get_filter: "hm_get (filter (\<lambda>p. q (fst p)) m) k = (if q k then hm_get m k else None)"
  by (induction m) (auto simp: hm_get_def)

lemma recency_new: "recency cap 0 (capped_set_new cap) []"
  by (simp add: recency_def ordered_by_def capped_set_new_def capped_map_new_def cm_ok_def)

lemma recency_mono: "recency cap n s l \<Longrightarrow> recency cap (Suc n) s l"
  by (auto simp: recency_def ordered_by_def)

lemma ordered_get:
  "ordered_by cap n s l \<Longrightarrow> k \<in> set l \<Longrightarrow> hm_get (cm_map (cs_order s)) k = Some (stamp s k)"
  unfolding ordered_by_def stamp_def by (metis hm_get_None option.collapse)

text \<open>Dropping keys keeps the order of the rest.\<close>

lemma ordered_filter:
  assumes r: "ordered_by cap n s l" and m: "cm_map (cs_order s') = filter (\<lambda>p. q (fst p)) (cm_map (cs_order s))"
    and "cm_cap (cs_order s') = cm_cap (cs_order s)" "cm_touched (cs_order s') = cm_touched (cs_order s)"
    and set': "cs_set s' = {k \<in> cs_set s. q k}" and "cs_next s' = cs_next s"
  shows "ordered_by cap n s' (filter q l)"
proof -
  have st: "stamp s' k = stamp s k" if "q k" for k
    using that by (simp add: stamp_def m hm_get_filter)
  have "sorted_wrt (\<lambda>a b. stamp s b < stamp s a) (filter q l)"
    using r by (simp add: ordered_by_def sorted_wrt_filter)
  then have "sorted_wrt (\<lambda>a b. stamp s' b < stamp s' a) (filter q l)"
    by (rule sorted_wrt_mono_rel [rotated]) (simp add: st)
  moreover have "fst ` set (cm_map (cs_order s')) = set (filter q l)"
    using r by (auto simp: ordered_by_def m)
  ultimately show ?thesis using r assms(3-6) st
    by (auto simp: ordered_by_def cm_ok_def m)
qed

lemma recency_filter:
  assumes "recency cap n s l" and "ordered_by cap n s' (filter q l)"
  shows "recency cap n s' (filter q l)"
  using assms unfolding recency_def by (meson length_filter_le order_trans)

lemma recency_remove: "recency cap n s l \<Longrightarrow> recency cap n (snd (capped_set_remove k s)) (removeAll k l)"
  unfolding removeAll_filter_not_eq
  by (rule recency_filter, assumption, rule ordered_filter [of _ _ s])
    (auto simp: recency_def capped_set_remove_def hm_remove_def intro!: filter_cong)

lemma recency_retain:
  assumes "recency cap n s l"
  shows "recency cap n (capped_set_retain p s) (filter p l)"
proof (rule recency_filter [OF assms], rule ordered_filter)
  show "ordered_by cap n s l" using assms by (simp add: recency_def)
  then show "cm_map (cs_order (capped_set_retain p s)) = filter (\<lambda>x. p (fst x)) (cm_map (cs_order s))"
    by (auto simp: capped_set_retain_def Let_def ordered_by_def intro!: filter_cong)
qed (auto simp: capped_set_retain_def Let_def)

lemma recency_clear: "recency cap n s l \<Longrightarrow> recency cap n (capped_set_clear s) []"
  by (auto simp: recency_def ordered_by_def capped_set_clear_def cm_ok_def)

text \<open>The insert before its eviction.\<close>

definition stamped :: "'k \<Rightarrow> 'k capped_set \<Rightarrow> 'k capped_set" where
  "stamped k s = \<lparr>cs_set = insert k (cs_set s),
     cs_order = (cs_order s)\<lparr>cm_map := hm_insert k (cs_next s + 1) (cm_map (cs_order s))\<rparr>,
     cs_next = cs_next s + 1\<rparr>"

lemma stamp_stamped: "stamp (stamped k s) k' = (if k' = k then cs_next s + 1 else stamp s k')"
  by (simp add: stamp_def stamped_def)

lemma ordered_stamped:
  assumes r: "ordered_by cap n s l"
  shows "ordered_by cap (Suc n) (stamped k s) (k # removeAll k l)"
proof -
  have "sorted_wrt (\<lambda>a b. stamp s b < stamp s a) (removeAll k l)"
    using r by (simp add: ordered_by_def sorted_wrt_filter removeAll_filter_not_eq)
  then have "sorted_wrt (\<lambda>a b. stamp (stamped k s) b < stamp (stamped k s) a) (removeAll k l)"
    by (rule sorted_wrt_mono_rel [rotated]) (auto simp: stamp_stamped)
  moreover have "fst ` set (cm_map (cs_order (stamped k s))) = set (k # removeAll k l)"
    using r by (auto simp: ordered_by_def stamped_def)
  ultimately show ?thesis using r
    by (auto simp: ordered_by_def stamp_stamped cm_ok_def distinct_removeAll)
      (auto simp: stamped_def)
qed

lemma ordered_last_evicted:
  assumes r: "ordered_by cap n s (k # xs)" and e: "evict_sparing k (cs_order s) = (Some v, m)"
  shows "xs \<noteq> [] \<and> v = last xs \<and> cap < length (k # xs)"
proof -
  have ok: "cm_ok (cs_order s)" and t: "cm_touched (cs_order s) = (\<lambda>x. x)"
    using r by (simp_all add: ordered_by_def)
  from evict_sparing_Some [OF e ok] t obtain w where
    v: "v \<noteq> k" "hm_get (cm_map (cs_order s)) v = Some w" "cap < length (cm_map (cs_order s))" and
    least: "\<forall>k' v'. hm_get (cm_map (cs_order s)) k' = Some v' \<longrightarrow> w \<le> v'"
    using r by (auto simp: ordered_by_def)
  have "v \<in> set (k # xs)" using r v(2) by (metis hm_get_None ordered_by_def option.distinct(1))
  with v(1) have vx: "v \<in> set xs" by simp
  then have ne: "xs \<noteq> []" by auto
  have len: "length (cm_map (cs_order s)) = length (k # xs)"
    using r ok unfolding ordered_by_def cm_ok_def hm_ok_def
    by (metis distinct_card length_map set_map)
  have "v = last xs"
  proof (rule ccontr)
    assume "v \<noteq> last xs"
    with vx ne have "v \<in> set (butlast xs)" by (metis append_butlast_last_id Un_iff empty_iff insert_iff list.set(1,2) set_append)
    moreover have "sorted_wrt (\<lambda>a b. stamp s b < stamp s a) (butlast xs @ [last xs])"
      using r ne by (simp add: ordered_by_def)
    ultimately have "stamp s (last xs) < stamp s v" by (simp add: sorted_wrt_append)
    moreover have "stamp s v = w" using v(2) by (simp add: stamp_def)
    moreover have "hm_get (cm_map (cs_order s)) (last xs) = Some (stamp s (last xs))"
      using ne by (intro ordered_get [OF r]) simp
    ultimately show False using least by fastforce
  qed
  with ne v(3) len show ?thesis by simp
qed

lemma stamped_is_last:
  assumes r: "ordered_by cap n s l"
  shows "stamped_last k (cs_order (stamped k s))"
  unfolding stamped_last_def
proof (clarify, rename_tac k' v w)
  fix k' v w
  assume i: "(k', v) \<in> set (cm_map (cs_order (stamped k s)))" "k' \<noteq> k"
    and w: "hm_get (cm_map (cs_order (stamped k s))) k = Some w"
  note r' = ordered_stamped [OF r, of k]
  have "hm_get (cm_map (cs_order (stamped k s))) k' = Some v"
    using i r' by (simp add: hm_get_in ordered_by_def cm_ok_def)
  then have g: "hm_get (cm_map (cs_order s)) k' = Some v" using i(2) by (simp add: stamped_def)
  then have "k' \<in> set l" using r by (metis hm_get_None ordered_by_def option.distinct(1))
  with r g have "v \<le> cs_next s" by (auto simp: ordered_by_def stamp_def)
  moreover have "w = cs_next s + 1" using w by (simp add: stamped_def)
  ultimately show "cm_touched (cs_order (stamped k s)) v < cm_touched (cs_order (stamped k s)) w"
    using r by (simp add: ordered_by_def stamped_def)
qed

lemma removeAll_length_le: "length (removeAll k l) \<le> length l"
  by (simp add: removeAll_filter_not_eq)

lemma recency_insert:
  assumes r: "recency cap n s l" and cap: "0 < cap" and n: "int n < i64_max"
  shows "recency cap (Suc n) (snd (capped_set_insert k s)) (take cap (k # removeAll k l))"
proof -
  have o: "ordered_by cap n s l" and len: "length l \<le> cap" using r by (simp_all add: recency_def)
  let ?s = "stamped k s" and ?l = "k # removeAll k l"
  note os = ordered_stamped [OF o, of k]
  have nxt: "i64_add (cs_next s) 1 = cs_next s + 1"
    using o n by (simp add: i64_add_def in_i64_def ordered_by_def i64_min_def)
  have ins: "snd (capped_set_insert k s) =
    (let (e, m) = evict_sparing k (cs_order ?s)
     in ?s\<lparr>cs_set := insert k (case e of None \<Rightarrow> cs_set s | Some e \<Rightarrow> cs_set s - {e}), cs_order := m\<rparr>)"
    by (simp add: capped_set_insert_def stamped_def nxt Let_def split: prod.splits)
  have llen: "length ?l \<le> Suc cap" using order_trans [OF removeAll_length_le len] by simp
  show ?thesis
  proof (cases "fst (evict_sparing k (cs_order ?s))")
    case None
    then have e: "evict_sparing k (cs_order ?s) = (None, cs_order ?s)"
      by (metis evict_sparing_None prod.collapse)
    have "length (cm_map (cs_order ?s)) \<le> cap"
      using evict_sparing_must [OF _ _ _ stamped_is_last [OF o]] None os cap
      by (fastforce simp: ordered_by_def)
    moreover have "length (cm_map (cs_order ?s)) = length ?l"
      using os unfolding ordered_by_def cm_ok_def hm_ok_def by (metis distinct_card length_map set_map)
    ultimately have "length ?l \<le> cap" by simp
    with os show ?thesis by (simp add: ins e recency_def) (simp add: stamped_def)
  next
    case (Some v)
    then have e: "evict_sparing k (cs_order ?s) = (Some v, snd (evict_sparing k (cs_order ?s)))"
      by (metis prod.collapse)
    note ev = evict_sparing_Some [OF e] ordered_last_evicted [OF os e]
    have vk: "v \<noteq> k" and m: "snd (evict_sparing k (cs_order ?s)) =
        (cs_order ?s)\<lparr>cm_map := hm_remove v (cm_map (cs_order ?s))\<rparr>"
      using ev(1) os by (simp_all add: ordered_by_def)
    have cl: "length ?l = Suc cap" using ev(2) llen by linarith
    have d: "distinct ?l" using os by (simp add: ordered_by_def)
    have lv: "?l = butlast ?l @ [v]" using ev(2) by simp
    have "filter (\<lambda>x. x \<noteq> v) ?l = butlast ?l"
    proof -
      have "v \<notin> set (butlast ?l)" using d lv by (metis distinct_append disjoint_iff list.set_intros(1))
      then have "filter (\<lambda>x. x \<noteq> v) (butlast ?l @ [v]) = butlast ?l" by (auto simp: filter_id_conv)
      with lv show ?thesis by simp
    qed
    then have "filter (\<lambda>x. x \<noteq> v) ?l = take cap ?l" using cl by (simp add: butlast_conv_take)
    moreover have fin: "snd (capped_set_insert k s) = ?s\<lparr>cs_set := insert k (cs_set s - {v}),
        cs_order := (cs_order ?s)\<lparr>cm_map := hm_remove v (cm_map (cs_order ?s))\<rparr>\<rparr>"
      unfolding ins by (subst e) (simp add: m)
    moreover have "ordered_by cap (Suc n) (snd (capped_set_insert k s)) (filter (\<lambda>x. x \<noteq> v) ?l)"
      by (rule ordered_filter [OF os]) (use vk in \<open>auto simp: fin hm_remove_def stamped_def\<close>)
    ultimately show ?thesis by (simp add: recency_def)
  qed
qed

lemma recency_step:
  "recency cap n s l \<Longrightarrow> 0 < cap \<Longrightarrow> int n < i64_max \<Longrightarrow>
   recency cap (Suc n) (capped_set_do op s) (recency_do cap op l)"
  by (cases op)
    (simp_all only: capped_set_do.simps recency_do.simps recency_insert recency_remove [THEN recency_mono]
      recency_retain [THEN recency_mono] recency_clear [THEN recency_mono])

lemma recency_run:
  "recency cap n s l \<Longrightarrow> 0 < cap \<Longrightarrow> int (n + length ops) \<le> i64_max \<Longrightarrow>
   recency cap (n + length ops) (fold capped_set_do ops s) (fold (recency_do cap) ops l)"
proof (induction ops arbitrary: n s l)
  case (Cons op ops)
  have "recency cap (Suc n) (capped_set_do op s) (recency_do cap op l)"
    using Cons.prems by (intro recency_step) auto
  from Cons.IH [OF this] Cons.prems show ?case by simp
qed simp

section \<open>Properties\<close>

text \<open>
  A capped map's insert: the written key reads back its value and is never the victim; every
  other key either keeps its value or was the one entry evicted, and an evicted entry was least
  recently touched. When the stamps move forward the map stays within its cap.
\<close>

theorem capped_insert_spec:
  assumes "cm_ok m" and "snd (capped_insert key v m) = m'"
  shows "cm_get m' key = Some v \<and> cm_ok m' \<and>
    (\<forall>k. k \<noteq> key \<longrightarrow> cm_get m' k = cm_get m k \<or>
       (cm_get m' k = None \<and> (\<exists>w. cm_get m k = Some w \<and> cm_touched m w \<le> cm_touched m v \<and>
          (\<forall>j u. j \<noteq> key \<longrightarrow> cm_get m j = Some u \<longrightarrow> cm_touched m w \<le> cm_touched m u)))) \<and>
    (0 < cm_cap m \<and> length (cm_map m) \<le> cm_cap m \<and>
       (\<forall>j u. j \<noteq> key \<longrightarrow> cm_get m j = Some u \<longrightarrow> cm_touched m u < cm_touched m v)
     \<longrightarrow> length (cm_map m') \<le> cm_cap m)"
proof -
  let ?n = "m\<lparr>cm_map := hm_insert key v (cm_map m)\<rparr>"
  have m': "m' = snd (evict_sparing key ?n)" using assms(2) by (simp add: capped_insert_def Let_def)
  have ok: "cm_ok ?n" using assms(1) by (simp add: cm_ok_def)
  have other: "cm_get m' k = cm_get m k \<or>
       (cm_get m' k = None \<and> (\<exists>w. cm_get m k = Some w \<and> cm_touched m w \<le> cm_touched m v \<and>
          (\<forall>j u. j \<noteq> key \<longrightarrow> cm_get m j = Some u \<longrightarrow> cm_touched m w \<le> cm_touched m u)))"
    if k: "k \<noteq> key" for k
  proof (cases "fst (evict_sparing key ?n) = Some k")
    case True
    then have e: "evict_sparing key ?n = (Some k, m')" using m' by (metis prod.collapse)
    from evict_sparing_Some [OF e ok] k obtain w where
      w: "cm_get m k = Some w" "\<forall>k' v'. cm_get ?n k' = Some v' \<longrightarrow> cm_touched m w \<le> cm_touched m v'"
      by auto
    have "cm_get m' k = None" using True m' by (simp add: evict_sparing_get)
    with w show ?thesis by (auto split: if_splits)
  next
    case False
    with k m' show ?thesis by (simp add: evict_sparing_get)
  qed
  have len: "length (cm_map m') \<le> cm_cap m" if cap: "0 < cm_cap m" "length (cm_map m) \<le> cm_cap m"
    and new: "\<forall>j u. j \<noteq> key \<longrightarrow> cm_get m j = Some u \<longrightarrow> cm_touched m u < cm_touched m v"
  proof -
    have "cm_touched m b < cm_touched m v" if "(a, b) \<in> set (hm_insert key v (cm_map m))" "a \<noteq> key" for a b
    proof -
      have "hm_get (hm_insert key v (cm_map m)) a = Some b"
        using that assms(1) hm_get_in [OF hm_ok_insert] by (fastforce simp: cm_ok_def)
      with new that(2) show ?thesis by simp
    qed
    then have "stamped_last key ?n" by (auto simp: stamped_last_def)
    from evict_sparing_length [OF ok _ this] cap m' show ?thesis by (auto simp: length_hm_insert split: if_splits)
  qed
  have "cm_get m' key = Some v" using pins.lookup_store_same [OF assms(1)] assms(2) by metis
  moreover have "cm_ok m'" using capped_insert_ok [OF assms(1)] assms(2) by metis
  ultimately show ?thesis using other len by blast
qed

theorem capped_insert_spec_witness:
  "cm_get (snd (capped_insert (3::nat) (30::int)
      \<lparr>cm_map = [(1, 10), (2, 20)], cm_cap = 2, cm_touched = (\<lambda>t. t)\<rparr>)) 3 = Some 30 \<and>
   length (cm_map (snd (capped_insert (3::nat) (30::int)
      \<lparr>cm_map = [(1, 10), (2, 20)], cm_cap = 2, cm_touched = (\<lambda>t. t)\<rparr>))) \<le> 2"
proof -
  let ?m = "\<lparr>cm_map = [(1::nat, 10::int), (2, 20)], cm_cap = 2, cm_touched = (\<lambda>t. t)\<rparr>"
  have ok: "cm_ok ?m" by (simp add: cm_ok_def hm_ok_def)
  have "\<forall>j u. j \<noteq> 3 \<longrightarrow> cm_get ?m j = Some u \<longrightarrow> cm_touched ?m u < cm_touched ?m 30"
    by (simp add: hm_get_def)
  with capped_insert_spec [OF ok refl, of "3" "30"] show ?thesis by simp
qed

text \<open>
  The capped set is a recency list cut at its cap: after any sequence of inserts, removes,
  retains and clears (fewer than \<open>2\<^sup>6\<^sup>3\<close> of them, so that the insert counter has not wrapped) its
  members are exactly those of the list, so it never exceeds its cap and always evicts the key
  inserted longest ago.
\<close>

theorem capped_set_refines_recency:
  assumes "0 < cap" and "int (length ops) \<le> i64_max"
  shows "cs_set (fold capped_set_do ops (capped_set_new cap)) = set (fold (recency_do cap) ops []) \<and>
    card (cs_set (fold capped_set_do ops (capped_set_new cap))) \<le> cap"
proof -
  have "recency cap (length ops) (fold capped_set_do ops (capped_set_new cap)) (fold (recency_do cap) ops [])"
    using recency_run [OF recency_new assms(1), of ops] assms(2) by simp
  then have "cs_set (fold capped_set_do ops (capped_set_new cap)) = set (fold (recency_do cap) ops [])"
    and "length (fold (recency_do cap) ops []) \<le> cap"
    by (simp_all add: recency_def ordered_by_def)
  then show ?thesis using card_length by (metis order_trans)
qed

theorem capped_set_refines_recency_witness:
  "cs_set (fold capped_set_do [Insert 1, Insert 2, Insert 1, Insert (3::nat)] (capped_set_new 2)) = {3, 1}"
  using capped_set_refines_recency [of 2 "[Insert 1, Insert 2, Insert 1, Insert (3::nat)]"]
  by (simp add: i64_max_def)

lemma capped_insert_backward:
  assumes ok: "cm_ok m" and fresh: "cm_get m k = None"
    and old: "\<forall>(j, w) \<in> set (cm_map m). cm_touched m v < cm_touched m w"
  shows "snd (capped_insert k v m) = m\<lparr>cm_map := hm_insert k v (cm_map m)\<rparr>"
proof (cases "fst (evict_sparing k (m\<lparr>cm_map := hm_insert k v (cm_map m)\<rparr>))")
  case None
  then show ?thesis unfolding capped_insert_def Let_def snd_conv by (metis evict_sparing_None prod.collapse)
next
  case (Some j)
  let ?n = "m\<lparr>cm_map := hm_insert k v (cm_map m)\<rparr>"
  have ok': "cm_ok ?n" using ok by (simp add: cm_ok_def)
  from Some have e: "evict_sparing k ?n = (Some j, snd (evict_sparing k ?n))" by (metis prod.collapse)
  from evict_sparing_Some [OF e ok'] obtain w where
    j: "j \<noteq> k" "cm_get ?n j = Some w" "\<forall>k' v'. cm_get ?n k' = Some v' \<longrightarrow> cm_touched m w \<le> cm_touched m v'"
    by auto
  from j(3) have "cm_get ?n k = Some v \<longrightarrow> cm_touched m w \<le> cm_touched m v" by blast
  then have "cm_touched m w \<le> cm_touched m v" by simp
  moreover have "(j, w) \<in> set (cm_map m)" using j(1,2) ok by (simp add: hm_get_in cm_ok_def)
  ultimately show ?thesis using old by fastforce
qed

lemma hm_insert_fresh: "hm_get m k = None \<Longrightarrow> hm_insert k v m = m @ [(k, v)]"
  by (induction k v m rule: hm_insert.induct) (auto simp: hm_get_def split: if_splits)

text \<open>
  The cap holds only for stamps that move forward. Fresh keys whose stamps are each older than
  every stamp already in the map are all kept: the entry just written is the oldest, so nothing is
  evicted, and \<open>n\<close> such inserts into a full map leave it \<open>n\<close> over its cap.
\<close>

theorem capped_map_unbounded_on_backward_stamps:
  assumes "cm_ok m"
    and "sorted_wrt (\<lambda>a b. cm_touched m (snd b) < cm_touched m (snd a)) kvs"
    and "distinct (map fst kvs)" and "\<forall>(k, v) \<in> set kvs. cm_get m k = None"
    and "\<forall>(k, v) \<in> set kvs. \<forall>(j, w) \<in> set (cm_map m). cm_touched m v < cm_touched m w"
  shows "length (cm_map (fold (\<lambda>(k, v) m. snd (capped_insert k v m)) kvs m)) =
    length (cm_map m) + length kvs"
  using assms
proof (induction kvs arbitrary: m)
  case (Cons kv kvs)
  obtain k v where kv: "kv = (k, v)" by force
  have ins: "snd (capped_insert k v m) = m\<lparr>cm_map := cm_map m @ [(k, v)]\<rparr>"
    using Cons.prems by (simp add: kv capped_insert_backward hm_insert_fresh)
  have "cm_ok (m\<lparr>cm_map := cm_map m @ [(k, v)]\<rparr>)"
    using capped_insert_ok [OF Cons.prems(1), of k v] ins by simp
  moreover have "\<forall>(k', v') \<in> set kvs. hm_get (cm_map m @ [(k, v)]) k' = None"
    using Cons.prems(3,4) by (auto simp: kv hm_get_None) (metis fst_conv image_eqI)
  moreover have "\<forall>(k', v') \<in> set kvs. \<forall>(j, w) \<in> set (cm_map m @ [(k, v)]). cm_touched m v' < cm_touched m w"
    using Cons.prems(2,5) by (fastforce simp: kv)
  ultimately have "length (cm_map (fold (\<lambda>(k, v) m. snd (capped_insert k v m)) kvs
      (m\<lparr>cm_map := cm_map m @ [(k, v)]\<rparr>))) = length (cm_map m @ [(k, v)]) + length kvs"
    using Cons.IH [of "m\<lparr>cm_map := cm_map m @ [(k, v)]\<rparr>"] Cons.prems(2,3) by simp
  then show ?case by (simp add: kv ins)
qed simp

theorem capped_map_unbounded_on_backward_stamps_witness:
  "length (cm_map (fold (\<lambda>(k, v) m. snd (capped_insert k v m)) [(2, 4), (3, 3), (4::nat, 2::int)]
      \<lparr>cm_map = [(1, 10)], cm_cap = 1, cm_touched = (\<lambda>t. t)\<rparr>)) = 4"
  using capped_map_unbounded_on_backward_stamps
    [of "\<lparr>cm_map = [(1::nat, 10::int)], cm_cap = 1, cm_touched = (\<lambda>t. t)\<rparr>" "[(2, 4), (3, 3), (4, 2)]"]
  by (simp add: cm_ok_def hm_ok_def hm_get_def)

end
