(* ===== verification/Manager_State.thy ===== *)
theory Manager_State
  imports Gates Capped_Map
begin

text \<open>
  The part of \<open>Manager\<close> (\<^verbatim>\<open>src/manager/mod.rs\<close>) that selection reads and writes, the group settings
  of \<^verbatim>\<open>src/manager/groups.rs\<close>, the pin side tables of \<^verbatim>\<open>src/manager/pins.rs\<close> and \<open>select.rs\<close>
  (connection affinity, divert ledger, extended-cache set), and the small state readers of
  \<^verbatim>\<open>src/manager/state.rs\<close>. Locks are taken one at a time and released before the next, so each
  definition is one critical section. The reload of the group settings from the config file is I/O;
  a state here is the state after it.
\<close>

section \<open>Group settings\<close>

record group_policy =
  gp_reserved :: "string set"
  gp_parked :: "string set"
  gp_control_allowed :: "string set"
  gp_spill :: "string set"

definition is_strict :: "group_policy \<Rightarrow> string \<Rightarrow> bool" where
  "is_strict gp g \<longleftrightarrow> g \<in> gp_reserved gp \<or> g \<notin> gp_spill gp"

section \<open>The manager\<close>

type_synonym session_key = u64

record divert_episode =
  de_pin :: nat
  de_until_ms :: i64
  de_destinations :: u64
  de_sticky :: nat

text \<open>The config row of an account, as far as its exit goes.\<close>

record config_row =
  cfg_provider :: provider
  cfg_egress_strict :: bool
  cfg_egress_peer :: "string option"

definition has_unsupported_strict_peer_exit :: "config_row \<Rightarrow> bool" where
  "has_unsupported_strict_peer_exit c =
     (case cfg_provider c of Anthropic \<Rightarrow> False | Codex \<Rightarrow> cfg_egress_strict c \<and> cfg_egress_peer c \<noteq> None)"

record manager =
  m_accounts :: "account list"
  m_config_accounts :: "config_row list"
  m_load_balance_migration :: bool
  m_global_threshold :: f64
  m_fable_weekly_threshold :: "f64 option"
  m_groups :: group_policy
  m_pacing :: pacing_config
  m_locked_idx :: "nat option"
  m_control_idx :: "nat option"
  m_control_reserve :: f64
  m_control_pooled :: bool
  m_reset_urgency_tier_ms :: i64
  m_select_seq :: u64
  m_affinity :: "(session_key, nat \<times> i64) capped_map"
  m_affinity_extended :: "session_key capped_set"
  m_affinity_dirty :: bool
  m_conn_affinity :: "(session_key, nat \<times> i64) capped_map"
  m_divert_ledger :: "(session_key, divert_episode) capped_map"
  m_next_revalidation_at_ms :: i64
  m_next_codex_revalidation_at_ms :: i64

definition AFFINITY_CAP :: nat where "AFFINITY_CAP = 1024"
definition CONN_AFFINITY_CAP :: nat where "CONN_AFFINITY_CAP = 256"
definition CONN_AFFINITY_TTL_MS :: i64 where "CONN_AFFINITY_TTL_MS = 5 * 60 * 1000"
definition PIN_LOAD_IDLE_MS :: i64 where "PIN_LOAD_IDLE_MS = 60 * 60 * 1000"
definition DIVERT_LEDGER_CAP :: nat where "DIVERT_LEDGER_CAP = 1024"

definition policy_of :: "manager \<Rightarrow> policy" where
  "policy_of m = \<lparr>p_global_threshold = m_global_threshold m,
     p_fable_weekly_threshold = m_fable_weekly_threshold m, p_pacing = m_pacing m,
     p_reserved = gp_reserved (m_groups m), p_parked = gp_parked (m_groups m)\<rparr>"

definition is_group_reserved :: "manager \<Rightarrow> string \<Rightarrow> bool" where
  "is_group_reserved m g \<longleftrightarrow> g \<in> gp_reserved (m_groups m)"

definition is_group_spill :: "manager \<Rightarrow> string \<Rightarrow> bool" where
  "is_group_spill m g \<longleftrightarrow> g \<in> gp_spill (m_groups m)"

definition is_group_strict :: "manager \<Rightarrow> string \<Rightarrow> bool" where
  "is_group_strict m g = is_strict (m_groups m) g"

definition control :: "manager \<Rightarrow> nat option" where
  "control m = m_control_idx m"

definition locked_account_for :: "manager \<Rightarrow> provider \<Rightarrow> nat option" where
  "locked_account_for m p =
     (case m_locked_idx m of
        None \<Rightarrow> None
      | Some idx \<Rightarrow>
          if is_some_and (get (m_accounts m) idx) (\<lambda>a. \<not> a_removed a \<and> a_provider a = p)
          then Some idx else None)"

definition provider_account_count :: "manager \<Rightarrow> provider \<Rightarrow> nat" where
  "provider_account_count m p =
     length (filter (\<lambda>a. \<not> a_removed a) (filter (\<lambda>a. a_provider a = p) (m_accounts m)))"

definition live_provider :: "manager \<Rightarrow> nat \<Rightarrow> provider option" where
  "live_provider m idx =
     Option.bind (get (m_accounts m) idx) (\<lambda>a. if \<not> a_removed a then Some (a_provider a) else None)"

definition codex_account_id :: "manager \<Rightarrow> nat \<Rightarrow> string option" where
  "codex_account_id m idx =
     Option.bind (get (m_accounts m) idx)
       (\<lambda>row. or_else (filter_opt (\<lambda>i. i \<noteq> []) (a_org_uuid row)) (a_account_uuid row))"

section \<open>Pins\<close>

definition pin_counts_as_load :: "bool \<Rightarrow> i64 \<Rightarrow> i64 \<Rightarrow> bool" where
  "pin_counts_as_load is_self touched_ms now_ms \<longleftrightarrow>
     is_self \<or> saturating_sub_i64 now_ms touched_ms \<le> PIN_LOAD_IDLE_MS"

text \<open>The number of live pins on account \<open>idx\<close>, seen by the session \<open>key\<close>.\<close>

definition live_pins ::
  "(session_key, nat \<times> i64) capped_map \<Rightarrow> session_key \<Rightarrow> i64 \<Rightarrow> nat \<Rightarrow> nat" where
  "live_pins pins key now_ms idx =
     length (filter (\<lambda>(k, i, touched). i = idx \<and> pin_counts_as_load (k = key) touched now_ms) (cm_map pins))"

definition affinity_pin :: "manager \<Rightarrow> session_key \<Rightarrow> nat option" where
  "affinity_pin m key = map_option fst (cm_get (m_affinity m) key)"

definition mark_affinity_dirty :: "manager \<Rightarrow> manager" where
  "mark_affinity_dirty m = m\<lparr>m_affinity_dirty := True\<rparr>"

definition note_affinity_ttl :: "session_key \<Rightarrow> bool \<Rightarrow> manager \<Rightarrow> manager" where
  "note_affinity_ttl key extended m =
     m\<lparr>m_affinity_extended :=
         (if extended then snd (capped_set_insert key (m_affinity_extended m))
          else snd (capped_set_remove key (m_affinity_extended m)))\<rparr>"

definition warm_window :: "manager \<Rightarrow> session_key option \<Rightarrow> warm_window" where
  "warm_window m key =
     (case key of
        None \<Rightarrow> WARM_DEFAULT
      | Some k \<Rightarrow> if k \<in> cs_set (m_affinity_extended m) then WARM_EXTENDED else WARM_DEFAULT)"

definition conn_affinity_get :: "manager \<Rightarrow> session_key \<Rightarrow> i64 \<Rightarrow> nat option" where
  "conn_affinity_get m conn_key now_ms =
     (case cm_get (m_conn_affinity m) conn_key of
        None \<Rightarrow> None
      | Some (idx, touch) \<Rightarrow>
          if saturating_sub_i64 now_ms touch < CONN_AFFINITY_TTL_MS then Some idx else None)"

definition conn_affinity_record :: "session_key \<Rightarrow> nat \<Rightarrow> i64 \<Rightarrow> manager \<Rightarrow> manager" where
  "conn_affinity_record conn_key idx now_ms m =
     m\<lparr>m_conn_affinity := snd (capped_insert conn_key (idx, now_ms) (m_conn_affinity m))\<rparr>"

section \<open>Divert episodes\<close>

datatype divert_verdict = Fresh | Sticky nat | Block

text \<open>\<open>u64::count_ones\<close>.\<close>

definition count_ones :: "u64 \<Rightarrow> nat" where
  "count_ones w = length (filter (bit w) [0..<64])"

definition divert_verdict :: "divert_episode option \<Rightarrow> nat \<Rightarrow> i64 \<Rightarrow> nat \<Rightarrow> divert_verdict" where
  "divert_verdict ep pin until_ms budget =
     (case filter_opt (\<lambda>e. de_pin e = pin \<and> de_until_ms e = until_ms) ep of
        None \<Rightarrow> Fresh
      | Some e \<Rightarrow>
          if budget \<noteq> 0 \<and> count_ones (de_destinations e) \<ge> budget then Block else Sticky (de_sticky e))"

text \<open>\<open>1u64.checked_shl(dest as u32)\<close>: the cast keeps the low 32 bits, a shift of 64 or more is
  refused.\<close>

definition destination_bit :: "nat \<Rightarrow> u64 option" where
  "destination_bit dest =
     (let s = (of_nat dest :: u32) in if s < 64 then Some (push_bit (unat s) 1) else None)"

definition note_destination :: "nat \<Rightarrow> i64 \<Rightarrow> nat \<Rightarrow> u64 \<Rightarrow> divert_episode option \<Rightarrow> divert_episode" where
  "note_destination pin until_ms dest db stored =
     (let fresh = \<lparr>de_pin = pin, de_until_ms = until_ms, de_destinations = 0, de_sticky = dest\<rparr>;
          e = (case stored of
                 None \<Rightarrow> fresh
               | Some e \<Rightarrow> if de_pin e \<noteq> pin \<or> de_until_ms e \<noteq> until_ms then fresh else e);
          e' = (if de_destinations e = 0 then e\<lparr>de_sticky := dest\<rparr> else e)
      in e'\<lparr>de_destinations := or (de_destinations e') db\<rparr>)"

definition record_divert :: "session_key \<Rightarrow> nat \<Rightarrow> i64 \<Rightarrow> nat \<Rightarrow> manager \<Rightarrow> manager" where
  "record_divert key pin until_ms dest m =
     (case destination_bit dest of
        None \<Rightarrow> m
      | Some db \<Rightarrow>
          let ledger = m_divert_ledger m;
              entry = note_destination pin until_ms dest db (cm_get ledger key);
              ledger' = ledger\<lparr>cm_map := hm_insert key entry (cm_map ledger)\<rparr>
          in m\<lparr>m_divert_ledger := snd (evict_sparing key ledger')\<rparr>)"

section \<open>Selection bookkeeping\<close>

definition codex_accounts_with_unsupported_exit :: "manager \<Rightarrow> nat set" where
  "codex_accounts_with_unsupported_exit m =
     set (filter (\<lambda>i. has_unsupported_strict_peer_exit (m_config_accounts m ! i))
            [0..<length (m_config_accounts m)])"

definition exclude_unsupported_codex_exits :: "nat set \<Rightarrow> provider \<Rightarrow> manager \<Rightarrow> nat set \<times> manager" where
  "exclude_unsupported_codex_exits tried p m =
     (case p of
        Anthropic \<Rightarrow> (tried, m)
      | Codex \<Rightarrow>
          let unsupported = codex_accounts_with_unsupported_exit m in
          if unsupported = {} then (tried, m)
          else (tried \<union> unsupported,
                m\<lparr>m_affinity := (m_affinity m)\<lparr>cm_map :=
                    filter (\<lambda>(_, idx, _). idx \<notin> unsupported) (cm_map (m_affinity m))\<rparr>\<rparr>))"

text \<open>\<open>select_seq.fetch_add(1)\<close> and the stamp of the chosen account under the same write lock.\<close>

definition stamp_account :: "nat \<Rightarrow> manager \<Rightarrow> manager" where
  "stamp_account idx m =
     (let tick = m_select_seq m;
          accounts = (case get (m_accounts m) idx of
                        None \<Rightarrow> m_accounts m
                      | Some a \<Rightarrow> (m_accounts m)[idx := a\<lparr>a_last_selected_seq := tick\<rparr>])
      in m\<lparr>m_select_seq := tick + 1, m_accounts := accounts\<rparr>)"

definition pin_session :: "session_key \<Rightarrow> nat \<Rightarrow> i64 \<Rightarrow> manager \<Rightarrow> manager" where
  "pin_session key idx now_ms m =
     mark_affinity_dirty (m\<lparr>m_affinity := snd (capped_insert key (idx, now_ms) (m_affinity m))\<rparr>)"

section \<open>Lemmas\<close>

definition manager_ok :: "manager \<Rightarrow> bool" where
  "manager_ok m \<longleftrightarrow> cm_ok (m_affinity m) \<and> cm_ok (m_conn_affinity m) \<and> cm_ok (m_divert_ledger m)"

text \<open>What every selection step leaves alone: the accounts up to their selection stamp, and the
  settings.\<close>

definition unstamped :: "account \<Rightarrow> account" where
  "unstamped a = a\<lparr>a_last_selected_seq := 0\<rparr>"

definition fleet_view :: "manager \<Rightarrow> account list \<times> policy \<times> group_policy \<times> nat option \<times> nat option \<times>
    config_row list \<times> bool \<times> session_key capped_set" where
  "fleet_view m = (map unstamped (m_accounts m), policy_of m, m_groups m, m_control_idx m, m_locked_idx m,
     m_config_accounts m, m_control_pooled m, m_affinity_extended m)"

lemma policy_of_update [simp]:
  "policy_of (m\<lparr>m_affinity := x\<rparr>) = policy_of m" "policy_of (m\<lparr>m_select_seq := t\<rparr>) = policy_of m"
  "policy_of (m\<lparr>m_accounts := as\<rparr>) = policy_of m" "policy_of (m\<lparr>m_conn_affinity := x\<rparr>) = policy_of m"
  "policy_of (m\<lparr>m_divert_ledger := y\<rparr>) = policy_of m" "policy_of (m\<lparr>m_affinity_dirty := b\<rparr>) = policy_of m"
  "policy_of (m\<lparr>m_next_revalidation_at_ms := v\<rparr>) = policy_of m"
  "policy_of (m\<lparr>m_next_codex_revalidation_at_ms := v\<rparr>) = policy_of m"
  by (simp_all add: policy_of_def)

lemma unstamped_stamp [simp]: "unstamped (a\<lparr>a_last_selected_seq := t\<rparr>) = unstamped a"
  by (simp add: unstamped_def)

lemma get_map: "get (map f xs) i = map_option f (get xs i)"
  by (simp add: get_def)

lemma fleet_view_stamp [simp]: "fleet_view (stamp_account idx m) = fleet_view m"
  by (auto simp: fleet_view_def stamp_account_def Let_def get_eq_Some_iff map_update list_update_id
      split: option.splits) (metis list_update_id length_map nth_map)

lemma fleet_view_tables [simp]:
  "fleet_view (pin_session key idx now_ms m) = fleet_view m"
  "fleet_view (conn_affinity_record k idx now_ms m) = fleet_view m"
  "fleet_view (record_divert key pin until_ms dest m) = fleet_view m"
  by (simp_all add: fleet_view_def pin_session_def mark_affinity_dirty_def conn_affinity_record_def
      record_divert_def Let_def split: option.splits)

lemma fleet_view_exclude [simp]:
  "fleet_view (snd (exclude_unsupported_codex_exits tried p m)) = fleet_view m"
  by (auto simp: fleet_view_def exclude_unsupported_codex_exits_def Let_def split: provider.splits)

text \<open>The gates do not look at the selection stamp.\<close>

lemma fields_unstamped:
  "a_provider (unstamped a) = a_provider a" "a_groups (unstamped a) = a_groups a"
  "a_disabled (unstamped a) = a_disabled a" "a_status (unstamped a) = a_status a"
  "a_quota (unstamped a) = a_quota a" "a_rate_limited_until_ms (unstamped a) = a_rate_limited_until_ms a"
  "a_switch_threshold (unstamped a) = a_switch_threshold a" "a_in_flight (unstamped a) = a_in_flight a"
  "a_last_served_ms (unstamped a) = a_last_served_ms a" "a_removed (unstamped a) = a_removed a"
  by (simp_all add: unstamped_def)

lemma gates_unstamped [simp]:
  "eligible (unstamped a) p r rp grp rgrp = eligible a p r rp grp rgrp"
  "account_hard_ok (unstamped a) now_ms grp res par warm = account_hard_ok a now_ms grp res par warm"
  "hard_ok (unstamped a) p r grp warm = hard_ok a p r grp warm"
  "model_blocked (unstamped a) p r = model_blocked a p r"
  "control_eligible (unstamped a) now_ms = control_eligible a now_ms"
  unfolding eligible_def account_hard_ok_def hard_ok_def parked_blocks_def live_hold_def control_eligible_def
      threshold_of_def model_blocked_def reserved_blocks_def paced_out_def account_terminal_gate_def
      rejection_clears_while_warm_def rejection_reset_ms_def hold_outlives_cache_def hold_clears_while_warm_def
      hold_remaining_ms_def fields_unstamped
  by (rule refl)+

lemma fleet_view_get:
  assumes "fleet_view m' = fleet_view m"
  shows "map_option unstamped (get (m_accounts m') i) = map_option unstamped (get (m_accounts m) i)"
  using assms get_map [of unstamped "m_accounts m'" i] get_map [of unstamped "m_accounts m" i]
  by (simp add: fleet_view_def)

lemma manager_ok_steps:
  assumes "manager_ok m"
  shows "manager_ok (stamp_account idx m)" "manager_ok (pin_session key idx now_ms m)"
    "manager_ok (conn_affinity_record k idx now_ms m)" "manager_ok (record_divert key pin until_ms dest m)"
    "manager_ok (snd (exclude_unsupported_codex_exits tried p m))"
proof -
  show "manager_ok (record_divert key pin until_ms dest m)"
  proof (cases "destination_bit dest")
    case (Some db)
    have "cm_ok (m_divert_ledger m\<lparr>cm_map := hm_insert key e (cm_map (m_divert_ledger m))\<rparr>)" for e
      using assms by (simp add: manager_ok_def cm_ok_def)
    from evict_sparing_ok [OF this] Some assms show ?thesis
      by (simp add: manager_ok_def record_divert_def Let_def)
  qed (use assms in \<open>simp add: record_divert_def\<close>)
  show "manager_ok (snd (exclude_unsupported_codex_exits tried p m))"
    using assms by (auto simp: manager_ok_def exclude_unsupported_codex_exits_def Let_def cm_ok_def split: provider.splits)
qed (use assms in \<open>auto simp: manager_ok_def stamp_account_def Let_def pin_session_def mark_affinity_dirty_def
      conn_affinity_record_def capped_insert_ok\<close>)

end
