(* ===== verification/Select.thy ===== *)
theory Select
  imports Manager_State
begin

text \<open>
  \<open>Manager::select_with_group\<close> of \<^verbatim>\<open>src/manager/select.rs\<close>, the function that routes every request:
  the hard lock, the affinity fast path with its migration and its commit, the control and
  connection overlays, sticky diverts, the pool picks with their fallbacks, and the re-pin. Each
  stage is a definition of its own, in the order of the source, and \<open>select_with_group\<close> composes them.
\<close>

section \<open>The request\<close>

datatype request_class = Inference | Noise | ControlPreferred

definition classify_request :: "string \<Rightarrow> request_class" where
  "classify_request path =
     (if is_inference_path (of_path path) path then Inference
      else if starts_with path ''/api/event_logging'' \<or> starts_with path ''/mcp-registry'' then Noise
      else ControlPreferred)"

text \<open>What the head of the function computes once: the request's clocks and class, the group it asks
  for, the group it is held to, and how long its session's cache stays warm.\<close>

record sel_ctx =
  sc_tried :: "nat set"
  sc_req :: request
  sc_group :: "string option"
  sc_strict :: "string option"
  sc_class :: request_class
  sc_warm :: warm_window

abbreviation sc_now_ms :: "sel_ctx \<Rightarrow> i64" where "sc_now_ms c \<equiv> r_now_ms (sc_req c)"
abbreviation sc_provider :: "sel_ctx \<Rightarrow> provider" where "sc_provider c \<equiv> r_provider (sc_req c)"

definition strict_group :: "manager \<Rightarrow> string option \<Rightarrow> string option" where
  "strict_group m grp = filter_opt (is_strict (m_groups m)) grp"

definition make_ctx ::
  "manager \<Rightarrow> nat set \<Rightarrow> odt \<Rightarrow> string option \<Rightarrow> session_key option \<Rightarrow> string \<Rightarrow> string option \<Rightarrow> sel_ctx" where
  "make_ctx m tried now model affinity path grp =
     (let p = of_path path in
      \<lparr>sc_tried = tried,
       sc_req = \<lparr>r_now = now, r_now_ms = odt_to_ms now,
                 r_is_fable = (has_fable_bucket p \<and> is_some_and model is_fable_model), r_provider = p\<rparr>,
       sc_group = grp, sc_strict = strict_group m grp, sc_class = classify_request path,
       sc_warm = warm_window m affinity\<rparr>)"

definition in_group :: "account \<Rightarrow> string option \<Rightarrow> bool" where
  "in_group a g = is_none_or g (\<lambda>g. g \<in> set (a_groups a))"

text \<open>The soft-inclusive gate every stage asks: pacing respected, \<open>grp\<close> as the narrowing group, the
  request's own ask for the reservation.\<close>

definition ctx_eligible :: "manager \<Rightarrow> sel_ctx \<Rightarrow> string option \<Rightarrow> account \<Rightarrow> bool" where
  "ctx_eligible m c grp a = eligible a (policy_of m) (sc_req c) True grp (sc_group c)"

definition ctx_hard_ok :: "manager \<Rightarrow> sel_ctx \<Rightarrow> account \<Rightarrow> bool" where
  "ctx_hard_ok m c a =
     account_hard_ok a (sc_now_ms c) (sc_group c) (gp_reserved (m_groups m)) (gp_parked (m_groups m)) (sc_warm c)"

section \<open>The hard lock\<close>

definition select_lock :: "manager \<Rightarrow> sel_ctx \<Rightarrow> nat \<Rightarrow> nat option" where
  "select_lock m c li =
     (if is_some_and (sc_strict c) (\<lambda>g. \<not> is_some_and (get (m_accounts m) li) (\<lambda>a. g \<in> set (a_groups a)))
      then None
      else if li \<in> sc_tried c then None
      else Some li)"

section \<open>The affinity fast path\<close>

datatype fast_outcome =
    Serve nat
  | Divert nat string i64
  | Fall_Through

definition hold_deadline :: "manager \<Rightarrow> nat \<Rightarrow> i64" where
  "hold_deadline m idx = unwrap_or (Option.bind (get (m_accounts m) idx) a_rate_limited_until_ms) 0"

definition divert_deadline :: "manager \<Rightarrow> nat \<Rightarrow> i64" where
  "divert_deadline m idx =
     unwrap_or (Option.bind (get (m_accounts m) idx)
       (\<lambda>a. or_else (a_rate_limited_until_ms a) (rejection_reset_ms a))) 0"

definition migration_key ::
  "manager \<Rightarrow> sel_ctx \<Rightarrow> session_key \<Rightarrow> nat \<Rightarrow> nat \<Rightarrow> account \<Rightarrow> (nat \<times> u32 \<times> u64) option" where
  "migration_key m c key idx cand a =
     (let count = live_pins (m_affinity m) key (sc_now_ms c) in
      if cand = idx \<or> cand \<in> sc_tried c then None
      else if count cand + 1 \<ge> count idx then None
      else if \<not> ctx_eligible m c (sc_strict c) a then None
      else Some (count cand, a_in_flight a, a_last_selected_seq a))"

definition pick_migration :: "manager \<Rightarrow> sel_ctx \<Rightarrow> session_key \<Rightarrow> nat \<Rightarrow> account list \<Rightarrow> nat option" where
  "pick_migration m c key idx accounts = pick_best (migration_key m c key idx) accounts"

definition migration_target :: "manager \<Rightarrow> sel_ctx \<Rightarrow> session_key \<Rightarrow> nat \<Rightarrow> nat" where
  "migration_target m c key idx =
     (if live_pins (m_affinity m) key (sc_now_ms c) idx \<ge> 2 \<and> m_load_balance_migration m
      then unwrap_or (pick_migration m c key idx (m_accounts m)) idx
      else idx)"

definition has_eligible_alternative :: "manager \<Rightarrow> sel_ctx \<Rightarrow> nat \<Rightarrow> bool" where
  "has_eligible_alternative m c idx =
     list_ex (\<lambda>cand. cand \<noteq> idx \<and> ctx_eligible m c None (m_accounts m ! cand)) [0..<length (m_accounts m)]"

text \<open>The pin failed the soft-inclusive gate: serve it anyway, divert this one request, or give the
  pin up.\<close>

definition decide_unusable :: "manager \<Rightarrow> sel_ctx \<Rightarrow> nat \<Rightarrow> i64 \<Rightarrow> fast_outcome" where
  "decide_unusable m c idx touched =
     (let ask = (\<lambda>f. is_some_and (get (m_accounts m) idx) f);
          account_alive = ask (ctx_hard_ok m c);
          blocked = ask (\<lambda>a. model_blocked a (policy_of m) (sc_req c));
          paced = ask (\<lambda>a. paced_out a (m_pacing m) (sc_now_ms c));
          held_briefly = ask (\<lambda>a. hold_clears_while_warm a (sc_now_ms c) (sc_warm c));
          rejected_briefly = ask (\<lambda>a. rejection_clears_while_warm a (sc_now_ms c) (sc_warm c))
      in if \<not> account_alive then Fall_Through
         else if held_briefly \<or> rejected_briefly \<or> blocked \<or> paced then
           Divert idx (if held_briefly then ''short-hold''
                       else if rejected_briefly then ''rejection-clears-warm''
                       else if blocked then ''model-class'' else ''paced'')
             (divert_deadline m idx)
         else
           let idle_ms = i64_sub (sc_now_ms c) touched in
           if idle_ms \<ge> ww_ms (sc_warm c) \<and> has_eligible_alternative m c idx then Fall_Through
           else Serve idx)"

definition fast_path :: "manager \<Rightarrow> sel_ctx \<Rightarrow> session_key \<Rightarrow> nat \<Rightarrow> i64 \<Rightarrow> fast_outcome" where
  "fast_path m c key idx touched =
     (let pinned = get (m_accounts m) idx in
      if is_some_and pinned (\<lambda>a. a_provider a \<noteq> sc_provider c) then
        Divert idx ''other-provider'' (hold_deadline m idx)
      else if is_some_and (sc_strict c) (\<lambda>g. \<not> is_some_and pinned (\<lambda>a. g \<in> set (a_groups a))) then
        Divert idx ''group-strict'' (hold_deadline m idx)
      else if idx \<in> sc_tried c then
        (if is_some_and pinned (ctx_hard_ok m c) then Divert idx ''pin-tried'' (hold_deadline m idx)
         else Fall_Through)
      else if is_some_and pinned (ctx_eligible m c None) then Serve (migration_target m c key idx)
      else decide_unusable m c idx touched)"

text \<open>The commit, in its own critical section: the pins it sees may be newer than the ones the decision
  was made on, so a migration is re-validated against them.\<close>

definition commit_target ::
  "(session_key, nat \<times> i64) capped_map \<Rightarrow> session_key \<Rightarrow> nat \<Rightarrow> nat \<Rightarrow> i64 \<Rightarrow> nat" where
  "commit_target pins key idx target now_ms =
     (if target = idx then idx
      else if map_option fst (cm_get pins key) = Some idx \<and>
              live_pins pins key now_ms target + 1 < live_pins pins key now_ms idx
      then target
      else idx)"

definition affinity_commit :: "session_key \<Rightarrow> nat \<Rightarrow> nat \<Rightarrow> i64 \<Rightarrow> manager \<Rightarrow> nat \<times> manager" where
  "affinity_commit key idx target now_ms m =
     (let committed = commit_target (m_affinity m) key idx target now_ms
      in (committed, pin_session key committed now_ms m))"

section \<open>The overlays\<close>

definition overlay_pick :: "manager \<Rightarrow> sel_ctx \<Rightarrow> session_key option \<Rightarrow> nat option" where
  "overlay_pick m c conn_key =
     (case sc_class c of
        Inference \<Rightarrow> None
      | Noise \<Rightarrow>
          filter_opt (\<lambda>idx. idx \<notin> sc_tried c \<and>
              is_some_and (get (m_accounts m) idx) (ctx_eligible m c (sc_strict c)))
            (Option.bind conn_key (\<lambda>k. conn_affinity_get m k (sc_now_ms c)))
      | ControlPreferred \<Rightarrow>
          filter_opt (\<lambda>idx. idx \<notin> sc_tried c \<and>
              is_some_and (get (m_accounts m) idx) (\<lambda>a. a_provider a = sc_provider c \<and>
                control_eligible a (sc_now_ms c) \<and> in_group a (sc_strict c)))
            (control m))"

definition overlay_serve :: "sel_ctx \<Rightarrow> session_key option \<Rightarrow> nat \<Rightarrow> manager \<Rightarrow> manager" where
  "overlay_serve c conn_key idx m =
     (let m' = stamp_account idx m in
      case (sc_class c, conn_key) of
        (Noise, Some k) \<Rightarrow> conn_affinity_record k idx (sc_now_ms c) m'
      | _ \<Rightarrow> m')"

definition sticky_pick :: "manager \<Rightarrow> sel_ctx \<Rightarrow> session_key option \<Rightarrow> (nat \<times> i64) option \<Rightarrow> nat option" where
  "sticky_pick m c affinity keep_pin =
     (case keep_pin of
        None \<Rightarrow> None
      | Some (pin_idx, until_ms) \<Rightarrow>
          (case divert_verdict (Option.bind affinity (cm_get (m_divert_ledger m))) pin_idx until_ms 0 of
             Sticky s \<Rightarrow>
               if s \<notin> sc_tried c \<and> is_some_and (get (m_accounts m) s) (ctx_eligible m c (sc_strict c))
               then Some s else None
           | _ \<Rightarrow> None))"

section \<open>The pool picks\<close>

definition pool_pick_respects_control_reserve :: "manager \<Rightarrow> nat \<Rightarrow> account \<Rightarrow> odt \<Rightarrow> bool" where
  "pool_pick_respects_control_reserve m idx a now =
     (if control m \<noteq> Some idx then True
      else \<not> is_near (a_quota a)
             (effective_threshold (threshold_of a (policy_of m)) (m_control_reserve m) True) now)"

definition reset_urgency_tier :: "manager \<Rightarrow> account \<Rightarrow> odt \<Rightarrow> i64" where
  "reset_urgency_tier m a now =
     (if m_reset_urgency_tier_ms m = 0 then 0
      else (case governing_weekly_reset (a_quota a) now of
              None \<Rightarrow> i64_min
            | Some r \<Rightarrow>
                let ms = trunc_div (r - now) ns_per_ms;
                    remaining_ms = max 0 (if in_i64 ms then ms else i64_max)
                in trunc_div remaining_ms (m_reset_urgency_tier_ms m)))"

definition i128_min :: int where "i128_min = - (2 ^ 127)"

definition weekly_reset_key :: "account \<Rightarrow> odt \<Rightarrow> int" where
  "weekly_reset_key a now =
     (case governing_weekly_reset (a_quota a) now of None \<Rightarrow> i128_min | Some r \<Rightarrow> unix_timestamp r)"

definition eligible_key ::
  "manager \<Rightarrow> nat set \<Rightarrow> request \<Rightarrow> bool \<Rightarrow> string option \<Rightarrow> nat \<Rightarrow> account \<Rightarrow> (i64 \<times> i64 \<times> u64 \<times> int) option" where
  "eligible_key m tried r respect_pacing grp idx a =
     (if idx \<in> tried then None
      else if \<not> eligible a (policy_of m) r respect_pacing grp grp then None
      else if \<not> pool_pick_respects_control_reserve m idx a (r_now r) then None
      else Some (a_priority a, reset_urgency_tier m a (r_now r), a_last_selected_seq a, weekly_reset_key a (r_now r)))"

definition pick_eligible ::
  "manager \<Rightarrow> nat set \<Rightarrow> request \<Rightarrow> bool \<Rightarrow> string option \<Rightarrow> account list \<Rightarrow> nat option" where
  "pick_eligible m tried r respect_pacing grp accounts =
     pick_best (eligible_key m tried r respect_pacing grp) accounts"

definition least_loaded_key ::
  "manager \<Rightarrow> nat set \<Rightarrow> request \<Rightarrow> string option \<Rightarrow> nat \<Rightarrow> account \<Rightarrow> (u32 \<times> i64 \<times> i64 \<times> u64 \<times> int) option" where
  "least_loaded_key m tried r grp idx a =
     (if idx \<in> tried then None
      else if \<not> eligible a (policy_of m) r False grp grp then None
      else if \<not> pool_pick_respects_control_reserve m idx a (r_now r) then None
      else Some (a_in_flight a, a_priority a, reset_urgency_tier m a (r_now r), a_last_selected_seq a,
                 weekly_reset_key a (r_now r)))"

definition pick_least_loaded ::
  "manager \<Rightarrow> nat set \<Rightarrow> request \<Rightarrow> string option \<Rightarrow> account list \<Rightarrow> nat option" where
  "pick_least_loaded m tried r grp accounts = pick_best (least_loaded_key m tried r grp) accounts"

definition last_resort_key ::
  "manager \<Rightarrow> nat set \<Rightarrow> request \<Rightarrow> nat \<Rightarrow> account \<Rightarrow> (u64 \<times> i64 \<times> i64 \<times> u64 \<times> int) option" where
  "last_resort_key m tried r idx a =
     (if idx \<in> tried then None
      else if a_provider a \<noteq> r_provider r then None
      else if a_disabled a \<or> a_status a = Error then None
      else if parked_blocks a (gp_parked (m_groups m)) then None
      else if live_hold a (r_now_ms r) then None
      else if is_near (a_quota a) (threshold_of a (policy_of m)) (r_now r) then None
      else if model_weekly_rejected (a_quota a) (r_now r) then None
      else if reserved_blocks a None (gp_reserved (m_groups m)) then None
      else if \<not> pool_pick_respects_control_reserve m idx a (r_now r) then None
      else
        let oi = (case seven_day_oi (a_quota a) of None \<Rightarrow> f64_zero | Some w \<Rightarrow> effective w (r_now r));
            oi_bucket = f64_as_u64 (f64_mul (f64_max oi f64_zero) (Fin 1000000))
        in Some (oi_bucket, a_priority a, reset_urgency_tier m a (r_now r), a_last_selected_seq a,
                 weekly_reset_key a (r_now r)))"

definition pick_fable_last_resort :: "manager \<Rightarrow> nat set \<Rightarrow> request \<Rightarrow> account list \<Rightarrow> nat option" where
  "pick_fable_last_resort m tried r accounts = pick_best (last_resort_key m tried r) accounts"

definition control_excluded :: "manager \<Rightarrow> sel_ctx \<Rightarrow> nat option" where
  "control_excluded m c =
     (if sc_class c = Inference \<and> \<not> m_control_pooled m then
        filter_opt (\<lambda>idx. \<not> is_some_and (sc_group c) (\<lambda>g. g \<in> gp_control_allowed (m_groups m) \<and>
            is_some_and (get (m_accounts m) idx) (\<lambda>a. g \<in> set (a_groups a)))) (control m)
      else None)"

definition pool_tried :: "manager \<Rightarrow> sel_ctx \<Rightarrow> nat set" where
  "pool_tried m c = sc_tried c \<union> set_option (control_excluded m c)"

definition pool_pick :: "manager \<Rightarrow> sel_ctx \<Rightarrow> nat option" where
  "pool_pick m c =
     (let tried = pool_tried m c;
          best = pick_eligible m tried (sc_req c) True (sc_group c) (m_accounts m);
          best' = (if best = None \<and> sc_strict c = None
                   then pick_least_loaded m tried (sc_req c) None (m_accounts m) else best)
      in if best' = None \<and> r_is_fable (sc_req c) \<and> sc_strict c = None
         then pick_fable_last_resort m tried (sc_req c) (m_accounts m) else best')"

section \<open>The whole call\<close>

definition pick_and_stamp :: "manager \<Rightarrow> sel_ctx \<Rightarrow> session_key option \<Rightarrow> (nat \<times> i64) option \<Rightarrow> nat option \<times> manager" where
  "pick_and_stamp m c affinity keep_pin =
     (case or_else (sticky_pick m c affinity keep_pin) (pool_pick m c) of
        None \<Rightarrow> (None, m)
      | Some idx \<Rightarrow> (Some idx, stamp_account idx m))"

definition record_pick ::
  "sel_ctx \<Rightarrow> session_key option \<Rightarrow> (nat \<times> i64) option \<Rightarrow> session_key option \<Rightarrow> nat \<Rightarrow> manager \<Rightarrow> manager" where
  "record_pick c affinity keep_pin conn_key idx m =
     (let m1 = (case (affinity, keep_pin) of
                  (Some key, Some (pin_idx, until_ms)) \<Rightarrow> record_divert key pin_idx until_ms idx m
                | _ \<Rightarrow> m);
          m2 = (case affinity of
                  None \<Rightarrow> m1
                | Some key \<Rightarrow> pin_session key (unwrap_or (map_option fst keep_pin) idx) (sc_now_ms c) m1)
      in case (sc_class c, conn_key) of
           (Noise, Some k) \<Rightarrow> conn_affinity_record k idx (sc_now_ms c) m2
         | _ \<Rightarrow> m2)"

definition select_unpinned ::
  "sel_ctx \<Rightarrow> session_key option \<Rightarrow> (nat \<times> i64) option \<Rightarrow> session_key option \<Rightarrow> manager \<Rightarrow> nat option \<times> manager" where
  "select_unpinned c affinity keep_pin conn_key m =
     (case (if keep_pin = None then overlay_pick m c conn_key else None) of
        Some idx \<Rightarrow> (Some idx, overlay_serve c conn_key idx m)
      | None \<Rightarrow>
          (case pick_and_stamp m c affinity keep_pin of
             (None, m') \<Rightarrow> (None, m')
           | (Some idx, m') \<Rightarrow> (Some idx, record_pick c affinity keep_pin conn_key idx m')))"

definition pinned_outcome :: "manager \<Rightarrow> sel_ctx \<Rightarrow> session_key option \<Rightarrow> fast_outcome" where
  "pinned_outcome m c affinity =
     (case affinity of
        None \<Rightarrow> Fall_Through
      | Some key \<Rightarrow>
          (case cm_get (m_affinity m) key of
             None \<Rightarrow> Fall_Through
           | Some (idx, touched) \<Rightarrow> fast_path m c key idx touched))"

definition select_ctx ::
  "sel_ctx \<Rightarrow> session_key option \<Rightarrow> session_key option \<Rightarrow> manager \<Rightarrow> nat option \<times> manager" where
  "select_ctx c affinity conn_key m =
     (case locked_account_for m (sc_provider c) of
        Some li \<Rightarrow> (select_lock m c li, m)
      | None \<Rightarrow>
          (case (affinity, pinned_outcome m c affinity) of
             (Some key, Serve target) \<Rightarrow>
               let idx = fst (the (cm_get (m_affinity m) key));
                   (committed, m') = affinity_commit key idx target (sc_now_ms c) (stamp_account target m)
               in (Some committed, m')
           | (_, Divert pin _ until_ms) \<Rightarrow> select_unpinned c affinity (Some (pin, until_ms)) conn_key m
           | (_, _) \<Rightarrow> select_unpinned c affinity None conn_key m))"

definition select_with_group ::
  "nat set \<Rightarrow> odt \<Rightarrow> string option \<Rightarrow> session_key option \<Rightarrow> string \<Rightarrow> session_key option \<Rightarrow> string option
     \<Rightarrow> manager \<Rightarrow> nat option \<times> manager" where
  "select_with_group tried now model affinity path conn_key grp m =
     (let (tried', m1) = exclude_unsupported_codex_exits tried (of_path path) m;
          c = make_ctx m1 tried' now model affinity path grp
      in select_ctx c affinity conn_key m1)"

definition select ::
  "nat set \<Rightarrow> odt \<Rightarrow> string option \<Rightarrow> session_key option \<Rightarrow> string \<Rightarrow> session_key option \<Rightarrow> manager
     \<Rightarrow> nat option \<times> manager" where
  "select tried now model affinity path conn_key m =
     select_with_group tried now model affinity path conn_key None m"

end
