(* ===== verification/Select_Props.thy ===== *)
theory Select_Props
  imports Select
begin

text \<open>
  What \<open>Manager::select_with_group\<close> promises: every account it returns may serve the request (its
  provider, its strict group, not tried, not blocked), a servable request is never dropped, the pool
  order spreads load, a session's pin moves only on account-level evidence, and nobody else's pin or
  account is touched. The four candidate scans are interpreted as ranked picks.
\<close>

section \<open>The scans\<close>

interpretation eligible_pick: ranked_pick "pick_eligible m tried r rp grp" "eligible_key m tried r rp grp"
  for m tried r rp grp
  using pick_best_ranked [of "eligible_key m tried r rp grp"] by (simp add: pick_eligible_def [abs_def])

interpretation least_loaded_pick: ranked_pick "pick_least_loaded m tried r grp" "least_loaded_key m tried r grp"
  for m tried r grp
  using pick_best_ranked [of "least_loaded_key m tried r grp"] by (simp add: pick_least_loaded_def [abs_def])

interpretation last_resort_pick: ranked_pick "pick_fable_last_resort m tried r" "last_resort_key m tried r"
  for m tried r
  using pick_best_ranked [of "last_resort_key m tried r"] by (simp add: pick_fable_last_resort_def [abs_def])

interpretation migration_pick: ranked_pick "pick_migration m c key idx" "migration_key m c key idx"
  for m c key idx
  using pick_best_ranked [of "migration_key m c key idx"] by (simp add: pick_migration_def [abs_def])

lemma eligible_key_Some:
  "eligible_key m tried r rp grp i a = Some k \<longleftrightarrow>
     i \<notin> tried \<and> eligible a (policy_of m) r rp grp grp \<and> pool_pick_respects_control_reserve m i a (r_now r) \<and>
     k = (a_priority a, reset_urgency_tier m a (r_now r), a_last_selected_seq a, weekly_reset_key a (r_now r))"
  by (auto simp: eligible_key_def)

lemma least_loaded_key_Some:
  "least_loaded_key m tried r grp i a = Some k \<longleftrightarrow>
     i \<notin> tried \<and> eligible a (policy_of m) r False grp grp \<and> pool_pick_respects_control_reserve m i a (r_now r) \<and>
     k = (a_in_flight a, a_priority a, reset_urgency_tier m a (r_now r), a_last_selected_seq a, weekly_reset_key a (r_now r))"
  by (auto simp: least_loaded_key_def)

section \<open>What a returned account satisfies\<close>

text \<open>The request may be sent to account \<open>i\<close>: it exists, is of the request's provider, was not tried,
  and carries the strictly asked group.\<close>

definition admissible :: "manager \<Rightarrow> sel_ctx \<Rightarrow> nat \<Rightarrow> bool" where
  "admissible m c i \<longleftrightarrow> i \<notin> sc_tried c \<and>
     (\<exists>a. get (m_accounts m) i = Some a \<and> a_provider a = sc_provider c \<and> in_group a (sc_strict c))"

text \<open>The account is in service: neither disabled nor dead, not parked, not held, not reserved away
  from this request.\<close>

definition in_service :: "manager \<Rightarrow> sel_ctx \<Rightarrow> nat \<Rightarrow> bool" where
  "in_service m c i \<longleftrightarrow> (\<exists>a. get (m_accounts m) i = Some a \<and> \<not> a_disabled a \<and> a_status a \<noteq> Error \<and>
     \<not> parked_blocks a (gp_parked (m_groups m)) \<and> \<not> live_hold a (sc_now_ms c) \<and>
     \<not> reserved_blocks a (sc_group c) (gp_reserved (m_groups m)))"

text \<open>The inputs of a call: its strict group is the one asked for, its clocks agree, and the fleet's
  hold deadlines are ones the program can arm.\<close>

definition strict_ok :: "sel_ctx \<Rightarrow> bool" where
  "strict_ok c \<longleftrightarrow> (\<forall>g. sc_strict c = Some g \<longrightarrow> sc_group c = Some g)"

definition fleet_ok :: "manager \<Rightarrow> sel_ctx \<Rightarrow> bool" where
  "fleet_ok m c \<longleftrightarrow> clock_ok (sc_req c) \<and> (\<forall>a\<in>set (m_accounts m). hold_ok a)"

lemma policy_of_sel [simp]:
  "p_reserved (policy_of m) = gp_reserved (m_groups m)" "p_parked (policy_of m) = gp_parked (m_groups m)"
  by (simp_all add: policy_of_def)

lemma get_in_set: "get xs i = Some a \<Longrightarrow> a \<in> set xs"
  by (auto simp: get_eq_Some_iff)

lemma ctx_eligible_serves:
  assumes "get (m_accounts m) i = Some a" and "ctx_eligible m c (sc_strict c) a" and "i \<notin> sc_tried c"
  shows "admissible m c i \<and> in_service m c i"
  using assms
  by (auto simp: admissible_def in_service_def ctx_eligible_def eligible_iff in_group_def is_none_or_def
      split: option.splits)

lemma pool_eligible_serves:
  assumes "get (m_accounts m) i = Some a" and "eligible a (policy_of m) (sc_req c) rp grp grp"
    and "i \<notin> sc_tried c" and "grp = sc_group c \<or> (grp = None \<and> sc_strict c = None)" and "strict_ok c"
  shows "admissible m c i \<and> in_service m c i"
  using assms
  by (auto simp: admissible_def in_service_def eligible_iff in_group_def strict_ok_def is_none_or_def
      reserved_blocks_def split: option.splits)

lemma alive_not_held:
  assumes "ctx_hard_ok m c a" and "\<not> hold_clears_while_warm a (sc_now_ms c) (sc_warm c)"
    and "\<not> rejection_clears_while_warm a (sc_now_ms c) (sc_warm c)"
    and "clock_ok (sc_req c)" and "hold_ok a"
  shows "\<not> a_disabled a \<and> a_status a \<noteq> Error \<and> \<not> q_rejected (a_quota a) \<and>
     \<not> parked_blocks a (gp_parked (m_groups m)) \<and>
     \<not> live_hold a (sc_now_ms c) \<and> \<not> reserved_blocks a (sc_group c) (gp_reserved (m_groups m))"
proof -
  have "hold_remaining_ms a (sc_now_ms c) = None"
    using assms(1,2) hold_split(1) [of a "sc_now_ms c" "sc_warm c"]
    by (auto simp: ctx_hard_ok_def account_hard_ok_iff)
  then have "\<not> live_hold a (sc_now_ms c)"
    using hold_remaining_live [OF assms(5), of "sc_now_ms c"] clock_ms [OF assms(4)] by (auto split: if_splits)
  with assms(1,3) show ?thesis
    by (auto simp: ctx_hard_ok_def account_hard_ok_iff account_terminal_gate_None)
qed

lemma migration_target_cases:
  "migration_target m c key idx = idx \<or>
   (m_load_balance_migration m \<and> migration_target m c key idx \<notin> sc_tried c \<and>
    (\<exists>a. get (m_accounts m) (migration_target m c key idx) = Some a \<and> ctx_eligible m c (sc_strict c) a))"
proof (cases "pick_migration m c key idx (m_accounts m)")
  case (Some y)
  from migration_pick.pick_get [OF this] obtain a k where
    "get (m_accounts m) y = Some a" "migration_key m c key idx y a = Some k" by blast
  with Some show ?thesis
    by (auto simp: migration_target_def migration_key_def Let_def split: if_splits)
qed (simp add: migration_target_def)

lemma decide_unusable_Serve:
  assumes "decide_unusable m c idx touched = Serve t"
  shows "t = idx \<and> (\<exists>a. get (m_accounts m) idx = Some a \<and> ctx_hard_ok m c a \<and>
    \<not> hold_clears_while_warm a (sc_now_ms c) (sc_warm c) \<and> \<not> rejection_clears_while_warm a (sc_now_ms c) (sc_warm c))"
  using assms by (cases "get (m_accounts m) idx") (auto simp: decide_unusable_def Let_def split: if_splits)

lemma fast_path_Serve:
  assumes "fast_path m c key idx touched = Serve t"
  shows "idx \<notin> sc_tried c \<and> (\<exists>a. get (m_accounts m) idx = Some a \<and> a_provider a = sc_provider c \<and>
    in_group a (sc_strict c) \<and>
    (t = migration_target m c key idx \<and> ctx_eligible m c None a \<or>
     t = idx \<and> ctx_hard_ok m c a \<and> \<not> hold_clears_while_warm a (sc_now_ms c) (sc_warm c) \<and>
       \<not> rejection_clears_while_warm a (sc_now_ms c) (sc_warm c)))"
proof (cases "get (m_accounts m) idx")
  case None
  with assms decide_unusable_Serve [of m c idx touched t] show ?thesis
    by (auto simp: fast_path_def Let_def split: if_splits)
next
  case (Some a)
  have "in_group a (sc_strict c)" "a_provider a = sc_provider c" "idx \<notin> sc_tried c"
    using assms Some by (auto simp: fast_path_def Let_def in_group_def is_none_or_def split: if_splits option.splits)
  moreover have "t = migration_target m c key idx \<and> ctx_eligible m c None a \<or>
      decide_unusable m c idx touched = Serve t"
    using assms Some by (auto simp: fast_path_def Let_def split: if_splits)
  ultimately show ?thesis using Some decide_unusable_Serve [of m c idx touched t] by auto
qed

lemma fast_path_Serve_admissible:
  assumes "fast_path m c key idx touched = Serve t"
  shows "admissible m c idx \<and> admissible m c t"
proof -
  from fast_path_Serve [OF assms] obtain a where idx: "idx \<notin> sc_tried c"
    "get (m_accounts m) idx = Some a" "a_provider a = sc_provider c" "in_group a (sc_strict c)"
    and t: "t = migration_target m c key idx \<or> t = idx" by blast
  then have i: "admissible m c idx" by (auto simp: admissible_def)
  moreover have "admissible m c t"
    using t migration_target_cases [of m c key idx] i ctx_eligible_serves by metis
  ultimately show ?thesis by simp
qed

lemma fast_path_Serve_in_service:
  assumes "fast_path m c key idx touched = Serve t" and ok: "fleet_ok m c"
  shows "in_service m c idx \<and> in_service m c t"
proof -
  from fast_path_Serve [OF assms(1)] obtain a where a: "get (m_accounts m) idx = Some a"
    and d: "t = migration_target m c key idx \<and> ctx_eligible m c None a \<or>
     t = idx \<and> ctx_hard_ok m c a \<and> \<not> hold_clears_while_warm a (sc_now_ms c) (sc_warm c) \<and>
       \<not> rejection_clears_while_warm a (sc_now_ms c) (sc_warm c)" by blast
  have "in_service m c idx"
    using d
  proof
    assume "t = migration_target m c key idx \<and> ctx_eligible m c None a"
    with a show ?thesis by (auto simp: in_service_def ctx_eligible_def eligible_iff)
  next
    assume "t = idx \<and> ctx_hard_ok m c a \<and> \<not> hold_clears_while_warm a (sc_now_ms c) (sc_warm c) \<and>
       \<not> rejection_clears_while_warm a (sc_now_ms c) (sc_warm c)"
    with alive_not_held [of m c a] ok a get_in_set [OF a] show ?thesis
      by (auto simp: in_service_def fleet_ok_def)
  qed
  moreover from d have "t = migration_target m c key idx \<or> t = idx" by blast
  ultimately show ?thesis
    using migration_target_cases [of m c key idx] ctx_eligible_serves by metis
qed

lemma select_ctx_doors:
  assumes "fst (select_ctx c aff ck m) = Some i"
  obtains (lock) "locked_account_for m (sc_provider c) = Some i" "select_lock m c i = Some i"
    | (pin) key idx touched t where "locked_account_for m (sc_provider c) = None" "aff = Some key"
        "cm_get (m_affinity m) key = Some (idx, touched)" "fast_path m c key idx touched = Serve t" "i = idx \<or> i = t"
    | (overlay) "locked_account_for m (sc_provider c) = None" "overlay_pick m c ck = Some i"
    | (sticky) keep where "locked_account_for m (sc_provider c) = None" "sticky_pick m c aff keep = Some i"
    | (pool) "locked_account_for m (sc_provider c) = None" "pool_pick m c = Some i"
proof (cases "locked_account_for m (sc_provider c)")
  case (Some li)
  with assms show thesis by (intro lock) (auto simp: select_ctx_def select_lock_def split: if_splits)
next
  case None
  have unpinned: thesis if "fst (select_unpinned c aff keep ck m) = Some i" for keep
  proof (cases "if keep = None then overlay_pick m c ck else None")
    case (Some j)
    with that None show thesis by (intro overlay) (auto simp: select_unpinned_def split: if_splits)
  next
    case no: None
    then have "or_else (sticky_pick m c aff keep) (pool_pick m c) = Some i"
      using that by (auto simp: select_unpinned_def pick_and_stamp_def split: option.splits)
    then show thesis
      using None sticky [of keep] pool by (auto simp: or_else_def split: option.splits)
  qed
  show thesis
  proof (cases "pinned_outcome m c aff")
    case (Serve t)
    then obtain key idx touched where k: "aff = Some key" "cm_get (m_affinity m) key = Some (idx, touched)"
      "fast_path m c key idx touched = Serve t" by (auto simp: pinned_outcome_def split: option.splits)
    moreover have "i = idx \<or> i = t"
      using assms None k Serve
      by (auto simp: select_ctx_def affinity_commit_def commit_target_def Let_def split: if_splits)
    ultimately show thesis by (rule pin [OF None])
  qed (use assms None unpinned in \<open>auto simp: select_ctx_def split: option.splits\<close>)
qed

lemma pool_pick_cases:
  assumes "pool_pick m c = Some i"
  obtains (soft) "pick_eligible m (pool_tried m c) (sc_req c) True (sc_group c) (m_accounts m) = Some i"
    | (spread) "pick_eligible m (pool_tried m c) (sc_req c) True (sc_group c) (m_accounts m) = None"
       "sc_strict c = None" "pick_least_loaded m (pool_tried m c) (sc_req c) None (m_accounts m) = Some i"
    | (fable) "r_is_fable (sc_req c)" "sc_strict c = None"
       "pick_least_loaded m (pool_tried m c) (sc_req c) None (m_accounts m) = None"
       "pick_fable_last_resort m (pool_tried m c) (sc_req c) (m_accounts m) = Some i"
  using assms by (auto simp: pool_pick_def Let_def split: if_splits)

lemma tried_pool: "sc_tried c \<subseteq> pool_tried m c"
  by (simp add: pool_tried_def)

lemma pool_pick_serves:
  assumes "pool_pick m c = Some i" and "strict_ok c"
  shows "i \<notin> pool_tried m c \<and> admissible m c i \<and> in_service m c i"
  using assms(1)
proof (cases rule: pool_pick_cases)
  case soft
  from eligible_pick.pick_get [OF this] obtain a k where
    "get (m_accounts m) i = Some a" "eligible_key m (pool_tried m c) (sc_req c) True (sc_group c) i a = Some k" by blast
  with pool_eligible_serves [of m i a c True "sc_group c"] tried_pool assms(2) show ?thesis
    by (auto simp: eligible_key_Some)
next
  case spread
  from least_loaded_pick.pick_get [OF spread(3)] obtain a k where
    "get (m_accounts m) i = Some a" "least_loaded_key m (pool_tried m c) (sc_req c) None i a = Some k" by blast
  with pool_eligible_serves [of m i a c False None] tried_pool assms(2) spread(2) show ?thesis
    by (auto simp: least_loaded_key_Some)
next
  case fable
  from last_resort_pick.pick_get [OF fable(4)] obtain a k where
    "get (m_accounts m) i = Some a" "last_resort_key m (pool_tried m c) (sc_req c) i a = Some k" by blast
  with tried_pool fable(2) show ?thesis
    by (auto simp: last_resort_key_def admissible_def in_service_def in_group_def Let_def reserved_blocks_def
       is_none_or_def split: if_splits)
qed

lemma sticky_pick_serves:
  assumes "sticky_pick m c aff keep = Some i"
  shows "admissible m c i \<and> in_service m c i"
proof -
  from assms obtain a where "get (m_accounts m) i = Some a" "ctx_eligible m c (sc_strict c) a" "i \<notin> sc_tried c"
    by (auto simp: sticky_pick_def is_some_and_def split: option.splits divert_verdict.splits if_splits)
  then show ?thesis by (rule ctx_eligible_serves)
qed

lemma overlay_pick_serves:
  assumes "overlay_pick m c ck = Some i"
  shows "admissible m c i \<and> (in_service m c i \<or> sc_class c = ControlPreferred \<and> control m = Some i \<and>
     (\<exists>a. get (m_accounts m) i = Some a \<and> control_eligible a (sc_now_ms c)))"
proof (cases "sc_class c")
  case Noise
  with assms obtain a where "get (m_accounts m) i = Some a" "ctx_eligible m c (sc_strict c) a" "i \<notin> sc_tried c"
    by (auto simp: overlay_pick_def filter_opt_def is_some_and_def split: option.splits if_splits)
  from ctx_eligible_serves [OF this] show ?thesis by simp
next
  case ControlPreferred
  with assms show ?thesis
    by (auto simp: overlay_pick_def filter_opt_def is_some_and_def admissible_def split: option.splits if_splits)
qed (use assms in \<open>simp add: overlay_pick_def\<close>)

section \<open>The whole call\<close>

lemma exclude_tried:
  "i \<notin> fst (exclude_unsupported_codex_exits tried p m) \<longleftrightarrow>
     i \<notin> tried \<and> (p = Codex \<longrightarrow> i \<notin> codex_accounts_with_unsupported_exit m)"
  by (cases p) (auto simp: exclude_unsupported_codex_exits_def Let_def)

lemma exclude_only_pins: "\<exists>x. snd (exclude_unsupported_codex_exits tried p m) = m\<lparr>m_affinity := x\<rparr>"
proof (cases "p = Codex \<and> codex_accounts_with_unsupported_exit m \<noteq> {}")
  case False
  then have "snd (exclude_unsupported_codex_exits tried p m) = m\<lparr>m_affinity := m_affinity m\<rparr>"
    by (cases p) (simp_all add: exclude_unsupported_codex_exits_def Let_def)
  then show ?thesis by blast
qed (auto simp: exclude_unsupported_codex_exits_def Let_def)

lemma pins_frame:
  "strict_group (m\<lparr>m_affinity := x\<rparr>) = strict_group m" "warm_window (m\<lparr>m_affinity := x\<rparr>) = warm_window m"
  "control (m\<lparr>m_affinity := x\<rparr>) = control m" "locked_account_for (m\<lparr>m_affinity := x\<rparr>) = locked_account_for m"
  "reset_urgency_tier (m\<lparr>m_affinity := x\<rparr>) = reset_urgency_tier m"
  by (simp_all add: strict_group_def warm_window_def control_def locked_account_for_def reset_urgency_tier_def fun_eq_iff
      split: option.splits)

lemma pins_frame_gates:
  "pool_pick_respects_control_reserve (m\<lparr>m_affinity := x\<rparr>) = pool_pick_respects_control_reserve m"
  "make_ctx (m\<lparr>m_affinity := x\<rparr>) = make_ctx m"
  "control_excluded (m\<lparr>m_affinity := x\<rparr>) = control_excluded m"
  by (simp_all add: pool_pick_respects_control_reserve_def make_ctx_def control_excluded_def pins_frame fun_eq_iff)

lemma exclude_frame [simp]:
  fixes m :: manager and tried :: "nat set" and p :: provider
  defines "m1 \<equiv> snd (exclude_unsupported_codex_exits tried p m)"
  shows "m_accounts m1 = m_accounts m" "m_groups m1 = m_groups m" "policy_of m1 = policy_of m"
    "control m1 = control m" "locked_account_for m1 = locked_account_for m" "strict_group m1 = strict_group m"
    "warm_window m1 = warm_window m" "m_control_pooled m1 = m_control_pooled m" "m_select_seq m1 = m_select_seq m"
    "m_divert_ledger m1 = m_divert_ledger m" "m_load_balance_migration m1 = m_load_balance_migration m"
    "pool_pick_respects_control_reserve m1 = pool_pick_respects_control_reserve m"
    "reset_urgency_tier m1 = reset_urgency_tier m" "make_ctx m1 = make_ctx m"
    "control_excluded m1 = control_excluded m"
proof -
  obtain x where "m1 = m\<lparr>m_affinity := x\<rparr>" using exclude_only_pins m1_def by blast
  note m1 = this pins_frame pins_frame_gates
  show "m_accounts m1 = m_accounts m" "m_groups m1 = m_groups m" "policy_of m1 = policy_of m"
    "control m1 = control m" "locked_account_for m1 = locked_account_for m" "strict_group m1 = strict_group m"
    "warm_window m1 = warm_window m" "m_control_pooled m1 = m_control_pooled m" "m_select_seq m1 = m_select_seq m"
    "m_divert_ledger m1 = m_divert_ledger m" "m_load_balance_migration m1 = m_load_balance_migration m"
    "pool_pick_respects_control_reserve m1 = pool_pick_respects_control_reserve m"
    "reset_urgency_tier m1 = reset_urgency_tier m" "make_ctx m1 = make_ctx m"
    "control_excluded m1 = control_excluded m"
    by (simp_all add: m1)
qed

lemma make_ctx_sel [simp]:
  "sc_tried (make_ctx m tried now model aff path grp) = tried" "sc_group (make_ctx m tried now model aff path grp) = grp"
  "sc_strict (make_ctx m tried now model aff path grp) = strict_group m grp"
  "sc_class (make_ctx m tried now model aff path grp) = classify_request path"
  "sc_warm (make_ctx m tried now model aff path grp) = warm_window m aff"
  "strict_ok (make_ctx m tried now model aff path grp)"
  by (auto simp: make_ctx_def Let_def strict_ok_def strict_group_def filter_opt_Some_iff)

text \<open>The request a call makes of the gates; it does not depend on what was tried.\<close>

definition request_of :: "odt \<Rightarrow> string option \<Rightarrow> string \<Rightarrow> request" where
  "request_of now model path =
     \<lparr>r_now = now, r_now_ms = odt_to_ms now,
      r_is_fable = (has_fable_bucket (of_path path) \<and> is_some_and model is_fable_model), r_provider = of_path path\<rparr>"

lemma request_of_sel [simp]:
  "r_now (request_of now model path) = now" "r_now_ms (request_of now model path) = odt_to_ms now"
  "r_provider (request_of now model path) = of_path path"
  by (simp_all add: request_of_def)

lemma make_ctx_req [simp]: "sc_req (make_ctx m tried now model aff path grp) = request_of now model path"
  by (simp add: make_ctx_def Let_def request_of_def)

lemma select_with_group_ctx:
  "select_with_group tried now model aff path ck grp m =
     (let (tried', m1) = exclude_unsupported_codex_exits tried (of_path path) m
      in select_ctx (make_ctx m tried' now model aff path grp) aff ck m1)"
proof -
  obtain tried' m1 where e: "exclude_unsupported_codex_exits tried (of_path path) m = (tried', m1)" by force
  then have "m1 = snd (exclude_unsupported_codex_exits tried (of_path path) m)" by simp
  then have "make_ctx m1 = make_ctx m" by simp
  with e show ?thesis by (simp add: select_with_group_def Let_def)
qed

lemma select_ctx_admissible:
  assumes "fst (select_ctx c aff ck m) = Some i" and "strict_ok c"
  shows "admissible m c i"
  using assms(1)
proof (cases rule: select_ctx_doors)
  case lock
  then show ?thesis
    by (auto simp: admissible_def select_lock_def locked_account_for_def in_group_def is_none_or_def is_some_and_def
        split: option.splits if_splits)
next
  case (pin key idx touched t)
  with fast_path_Serve_admissible [OF pin(4)] show ?thesis by auto
qed (use overlay_pick_serves sticky_pick_serves pool_pick_serves assms(2) in blast)+

lemma select_admissible:
  assumes "fst (select_with_group tried now model aff path ck grp m) = Some i"
  shows "i \<notin> tried \<and> (of_path path = Codex \<longrightarrow> i \<notin> codex_accounts_with_unsupported_exit m) \<and>
    (\<exists>a. get (m_accounts m) i = Some a \<and> a_provider a = of_path path \<and>
       (\<forall>g. strict_group m grp = Some g \<longrightarrow> g \<in> set (a_groups a)))"
proof -
  define e where "e = exclude_unsupported_codex_exits tried (of_path path) m"
  define c where "c = make_ctx m (fst e) now model aff path grp"
  have "fst (select_ctx c aff ck (snd e)) = Some i"
    using assms by (simp add: select_with_group_ctx e_def c_def split_beta Let_def)
  from select_ctx_admissible [OF this] have "admissible (snd e) c i" by (simp add: c_def)
  then show ?thesis
    using exclude_tried [of i tried "of_path path" m]
    by (auto simp: admissible_def c_def e_def in_group_def is_none_or_def split: option.splits)
qed

text \<open>
  C1. Whatever door it comes through (hard lock, pin, migration, control or connection overlay, sticky
  divert, pool), the account \<open>select_with_group\<close> returns exists, belongs to the provider the path is
  for, was not tried before, carries the group the request is held to, and for a Codex request is not
  one whose strict peer exit the proxy cannot honour.
\<close>

theorem selected_account_admissible:
  assumes "fst (select_with_group tried now model aff path ck grp m) = Some i"
  shows "i \<notin> tried \<and> (of_path path = Codex \<longrightarrow> i \<notin> codex_accounts_with_unsupported_exit m) \<and>
    (\<exists>a. get (m_accounts m) i = Some a \<and> a_provider a = of_path path \<and>
       (\<forall>g. strict_group m grp = Some g \<longrightarrow> g \<in> set (a_groups a)))"
  using assms by (rule select_admissible)

section \<open>A sample fleet\<close>

definition path_messages :: string where "path_messages = ''/v1/messages''"
definition path_codex :: string where "path_codex = ''/backend-api/codex/responses''"
definition path_events :: string where "path_events = ''/api/event_logging/batch''"

definition sample_manager :: "account list \<Rightarrow> manager" where
  "sample_manager accounts =
     \<lparr>m_accounts = accounts, m_config_accounts = [], m_load_balance_migration = False,
      m_global_threshold = Fin (49 / 50), m_fable_weekly_threshold = None,
      m_groups = \<lparr>gp_reserved = {}, gp_parked = {}, gp_control_allowed = {}, gp_spill = {}\<rparr>,
      m_pacing = pacing_off, m_locked_idx = None, m_control_idx = None, m_control_reserve = Fin (1 / 10),
      m_control_pooled = False, m_reset_urgency_tier_ms = 0, m_select_seq = 1,
      m_affinity = capped_map_new AFFINITY_CAP snd, m_affinity_extended = capped_set_new AFFINITY_CAP,
      m_affinity_dirty = False, m_conn_affinity = capped_map_new CONN_AFFINITY_CAP snd,
      m_divert_ledger = capped_map_new DIVERT_LEDGER_CAP de_until_ms,
      m_next_revalidation_at_ms = 0, m_next_codex_revalidation_at_ms = 0\<rparr>"

definition two_claude :: manager where
  "two_claude = sample_manager [fresh_account ''a'' Anthropic, fresh_account ''b'' Anthropic]"

lemma two_claude_first: "fst (select_with_group {} 0 None None path_messages None None two_claude) = Some 0"
  by code_simp

theorem selected_account_admissible_witness:
  "\<exists>a. get (m_accounts two_claude) 0 = Some a \<and> a_provider a = of_path path_messages"
  using selected_account_admissible [OF two_claude_first] by blast

lemma select_ctx_in_service:
  assumes "fst (select_ctx c aff ck m) = Some i" and "strict_ok c" and "fleet_ok m c"
    and "locked_account_for m (sc_provider c) = None"
  shows "in_service m c i \<or> sc_class c = ControlPreferred \<and> control m = Some i \<and>
     (\<exists>a. get (m_accounts m) i = Some a \<and> control_eligible a (sc_now_ms c))"
  using assms(1)
proof (cases rule: select_ctx_doors)
  case lock
  with assms(4) show ?thesis by simp
next
  case (pin key idx touched t)
  with fast_path_Serve_in_service [OF pin(4) assms(3)] show ?thesis by auto
qed (use overlay_pick_serves sticky_pick_serves pool_pick_serves assms(2) in blast)+

lemma select_in_service:
  assumes "fst (select_with_group tried now model aff path ck grp m) = Some i"
    and "locked_account_for m (of_path path) = None"
    and "clock_ok (request_of now model path)" and "\<forall>a\<in>set (m_accounts m). hold_ok a"
  shows "\<exists>a. get (m_accounts m) i = Some a \<and>
    (\<not> a_disabled a \<and> a_status a \<noteq> Error \<and> \<not> parked_blocks a (gp_parked (m_groups m)) \<and>
       \<not> live_hold a (odt_to_ms now) \<and> \<not> reserved_blocks a grp (gp_reserved (m_groups m)) \<or>
     classify_request path = ControlPreferred \<and> control m = Some i \<and> control_eligible a (odt_to_ms now))"
proof -
  define e where "e = exclude_unsupported_codex_exits tried (of_path path) m"
  define c where "c = make_ctx m (fst e) now model aff path grp"
  have "fst (select_ctx c aff ck (snd e)) = Some i"
    using assms(1) by (simp add: select_with_group_ctx e_def c_def split_beta Let_def)
  moreover have "fleet_ok (snd e) c" using assms(3,4) by (simp add: fleet_ok_def c_def e_def)
  ultimately have "in_service (snd e) c i \<or> sc_class c = ControlPreferred \<and> control (snd e) = Some i \<and>
      (\<exists>a. get (m_accounts (snd e)) i = Some a \<and> control_eligible a (sc_now_ms c))"
    using assms(2) by (intro select_ctx_in_service [of c aff ck "snd e"]) (simp_all add: c_def e_def)
  then show ?thesis by (auto simp: in_service_def c_def e_def)
qed

lemma select_locked:
  assumes "fst (select_with_group tried now model aff path ck grp m) = Some i" and "locked_account_for m (of_path path) = Some li"
  shows "i = li"
  using assms by (auto simp: select_with_group_ctx split_beta Let_def select_ctx_def select_lock_def split: if_splits)

text \<open>
  C2. Unless the operator locked the fleet to one account, the account a request gets is in service:
  not disabled, not in error, in no parked group, under no live rate-limit hold, and not reserved for a
  group the request did not ask for. The only other way in is the control account taking its own
  control-plane traffic, which has to pass \<open>control_eligible\<close>. This covers pins too: a pin kept through
  a short hold or a rejection is diverted, not served.
\<close>

theorem selected_account_in_service:
  assumes "fst (select_with_group tried now model aff path ck grp m) = Some i"
    and "locked_account_for m (of_path path) = None"
    and "clock_ok (request_of now model path)" and "\<forall>a\<in>set (m_accounts m). hold_ok a"
  shows "\<exists>a. get (m_accounts m) i = Some a \<and>
    (\<not> a_disabled a \<and> a_status a \<noteq> Error \<and> \<not> parked_blocks a (gp_parked (m_groups m)) \<and>
       \<not> live_hold a (odt_to_ms now) \<and> \<not> reserved_blocks a grp (gp_reserved (m_groups m)) \<or>
     classify_request path = ControlPreferred \<and> control m = Some i \<and> control_eligible a (odt_to_ms now))"
  using assms by (rule select_in_service)

definition held_then_free :: manager where
  "held_then_free = sample_manager [held_account, fresh_account ''b'' Anthropic]"

lemma held_then_free_pick:
  "fst (select_with_group {} 0 None (Some 7) path_messages None None
     (pin_session 7 0 0 held_then_free)) = Some 1"
  by code_simp

theorem selected_account_in_service_witness:
  "\<exists>a. get (m_accounts held_then_free) 1 = Some a \<and> \<not> live_hold a 0"
proof -
  have "clock_ok (request_of 0 None path_messages)"
    by (simp add: clock_ok_def request_of_def odt_to_ms_def in_i64_def i64_min_def i64_max_def)
  moreover have "\<forall>a\<in>set (m_accounts (pin_session 7 0 0 held_then_free)). hold_ok a"
    by (simp add: pin_session_def mark_affinity_dirty_def held_then_free_def sample_manager_def hold_ok_def
        held_account_def fresh_account_def in_i64_def i64_min_def i64_max_def)
  moreover have "locked_account_for (pin_session 7 0 0 held_then_free) (of_path path_messages) = None"
    by code_simp
  moreover have "classify_request path_messages = Inference" by code_simp
  moreover have "odt_to_ms 0 = 0" by code_simp
  moreover have "m_accounts (pin_session 7 0 0 held_then_free) = m_accounts held_then_free"
    by (simp add: pin_session_def mark_affinity_dirty_def)
  ultimately show ?thesis
    using selected_account_in_service [OF held_then_free_pick] by auto
qed

section \<open>A servable request is served\<close>

lemma pool_pick_complete:
  assumes "get (m_accounts m) j = Some a" and "j \<notin> pool_tried m c"
    and "pool_pick_respects_control_reserve m j a (r_now (sc_req c))"
    and "if sc_strict c = None then eligible a (policy_of m) (sc_req c) False None None
         else eligible a (policy_of m) (sc_req c) True (sc_group c) (sc_group c)"
  shows "pool_pick m c \<noteq> None"
proof (cases "sc_strict c")
  case None
  then have "least_loaded_key m (pool_tried m c) (sc_req c) None j a \<noteq> None"
    using assms by (simp add: least_loaded_key_def)
  then have "\<exists>i. pick_least_loaded m (pool_tried m c) (sc_req c) None (m_accounts m) = Some i"
    using least_loaded_pick.pick_exists [of j "m_accounts m" m "pool_tried m c" "sc_req c" None] assms(1)
    by (auto simp: get_eq_Some_iff)
  with None show ?thesis by (auto simp: pool_pick_def Let_def)
next
  case (Some g)
  then have "eligible_key m (pool_tried m c) (sc_req c) True (sc_group c) j a \<noteq> None"
    using assms by (simp add: eligible_key_def)
  then have "\<exists>i. pick_eligible m (pool_tried m c) (sc_req c) True (sc_group c) (m_accounts m) = Some i"
    using eligible_pick.pick_exists [of j "m_accounts m" m "pool_tried m c" "sc_req c" True "sc_group c"] assms(1)
    by (auto simp: get_eq_Some_iff)
  with Some show ?thesis by (auto simp: pool_pick_def Let_def)
qed

lemma select_unpinned_complete:
  "pool_pick m c \<noteq> None \<Longrightarrow> fst (select_unpinned c aff keep ck m) \<noteq> None"
  by (auto simp: select_unpinned_def pick_and_stamp_def or_else_def split: option.splits prod.splits)

lemma select_ctx_complete:
  assumes "pool_pick m c \<noteq> None" and "locked_account_for m (sc_provider c) = None"
  shows "fst (select_ctx c aff ck m) \<noteq> None"
  using assms select_unpinned_complete [OF assms(1)]
  by (auto simp: select_ctx_def affinity_commit_def Let_def split: option.splits fast_outcome.splits)

lemma select_complete:
  assumes "locked_account_for m (of_path path) = None" and "get (m_accounts m) j = Some a"
    and "j \<notin> tried" and "of_path path = Codex \<longrightarrow> j \<notin> codex_accounts_with_unsupported_exit m"
    and "control m \<noteq> Some j"
    and "if strict_group m grp = None then eligible a (policy_of m) (request_of now model path) False None None
         else eligible a (policy_of m) (request_of now model path) True grp grp"
  shows "\<exists>i. fst (select_with_group tried now model aff path ck grp m) = Some i"
proof -
  define e where "e = exclude_unsupported_codex_exits tried (of_path path) m"
  define c where "c = make_ctx m (fst e) now model aff path grp"
  have "j \<notin> fst e" using exclude_tried [of j tried "of_path path" m] assms(3,4) by (simp add: e_def)
  then have "j \<notin> pool_tried (snd e) c"
    using assms(5) by (auto simp: pool_tried_def c_def e_def control_excluded_def filter_opt_Some_iff)
  then have "pool_pick (snd e) c \<noteq> None"
    using assms(2,5,6)
    by (intro pool_pick_complete [of "snd e" j a c])
      (simp_all add: c_def e_def pool_pick_respects_control_reserve_def)
  from select_ctx_complete [OF this] assms(1) show ?thesis
    by (auto simp: select_with_group_ctx c_def e_def split_beta Let_def)
qed

text \<open>
  C3. A servable request is served. Assume no lock and some account other than the control one that was not
  tried and has no unsupported exit. A request that asks for no group, or for one that spills, gets an
  account as soon as that account passes the gates with the pacing left out, whatever its session's pin or
  its group's members are doing. A request held strictly to its group gets one as soon as that account is a
  fully eligible member of the group, pacing included: the strict pool does refuse when every member is
  paced out.
\<close>

theorem servable_request_served:
  assumes "locked_account_for m (of_path path) = None" and "get (m_accounts m) j = Some a"
    and "j \<notin> tried" and "of_path path = Codex \<longrightarrow> j \<notin> codex_accounts_with_unsupported_exit m"
    and "control m \<noteq> Some j"
    and "if strict_group m grp = None then eligible a (policy_of m) (request_of now model path) False None None
         else eligible a (policy_of m) (request_of now model path) True grp grp"
  shows "\<exists>i. fst (select_with_group tried now model aff path ck grp m) = Some i"
  by (rule select_complete [OF assms])

theorem servable_request_served_witness:
  "\<exists>i. fst (select_with_group {0} 0 None (Some 7) path_messages None None held_then_free) = Some i"
proof (rule servable_request_served [where j = 1 and a = "fresh_account ''b'' Anthropic"])
  show "locked_account_for held_then_free (of_path path_messages) = None" by code_simp
  show "if strict_group held_then_free None = None
        then eligible (fresh_account ''b'' Anthropic) (policy_of held_then_free) (request_of 0 None path_messages) False None None
        else eligible (fresh_account ''b'' Anthropic) (policy_of held_then_free) (request_of 0 None path_messages) True None None"
    by code_simp
  show "of_path path_messages = Codex \<longrightarrow> 1 \<notin> codex_accounts_with_unsupported_exit held_then_free" by code_simp
qed (simp_all add: held_then_free_def sample_manager_def get_def control_def)

section \<open>What a call leaves alone\<close>

text \<open>How a call may change the pin table: the session's own entry, and evictions.\<close>

definition pins_kept :: "session_key option \<Rightarrow> manager \<Rightarrow> manager \<Rightarrow> bool" where
  "pins_kept aff m m' \<longleftrightarrow>
     (\<forall>k. Some k \<noteq> aff \<longrightarrow> cm_get (m_affinity m') k = cm_get (m_affinity m) k \<or> cm_get (m_affinity m') k = None)"

lemma pins_kept_trans: "pins_kept aff m m' \<Longrightarrow> pins_kept aff m' m'' \<Longrightarrow> pins_kept aff m m''"
  unfolding pins_kept_def by metis

lemma affinity_unchanged [simp]:
  "m_affinity (stamp_account idx m) = m_affinity m"
  "m_affinity (conn_affinity_record k idx now_ms m) = m_affinity m"
  "m_affinity (record_divert key p until_ms dest m) = m_affinity m"
  by (simp_all add: stamp_account_def Let_def conn_affinity_record_def record_divert_def split: option.splits)

lemma affinity_pin_session [simp]:
  "m_affinity (pin_session key idx now_ms m) = snd (capped_insert key (idx, now_ms) (m_affinity m))"
  by (simp add: pin_session_def mark_affinity_dirty_def)

lemma pins_kept_pin_session: "pins_kept (Some key) m (pin_session key idx now_ms m)"
  by (auto simp: pins_kept_def capped_insert_get)

lemma hm_get_filter_entries: "hm_ok t \<Longrightarrow> hm_get (filter q t) k = hm_get t k \<or> hm_get (filter q t) k = None"
  by (metis hm_get_in hm_ok_filter filter_is_subset subsetD option.exhaust)

lemma pins_kept_exclude:
  "manager_ok m \<Longrightarrow> pins_kept aff m (snd (exclude_unsupported_codex_exits tried p m))"
  using hm_get_filter_entries [of "cm_map (m_affinity m)"]
  by (auto simp: pins_kept_def exclude_unsupported_codex_exits_def Let_def manager_ok_def cm_ok_def split: provider.splits)

lemma pins_kept_same: "m_affinity m' = m_affinity m \<Longrightarrow> pins_kept aff m m'"
  by (simp add: pins_kept_def)

text \<open>The frame of every step of a call: the fleet and the settings are untouched up to the selection
  stamp, the tables stay well-formed, other sessions keep their pins.\<close>

definition call_frame :: "session_key option \<Rightarrow> manager \<Rightarrow> manager \<Rightarrow> bool" where
  "call_frame aff m m' \<longleftrightarrow> fleet_view m' = fleet_view m \<and> (manager_ok m \<longrightarrow> manager_ok m' \<and> pins_kept aff m m')"

lemma call_frame_refl: "call_frame aff m m"
  by (simp add: call_frame_def pins_kept_def)

lemma call_frame_trans: "call_frame aff m m' \<Longrightarrow> call_frame aff m' m'' \<Longrightarrow> call_frame aff m m''"
  using pins_kept_trans by (auto simp: call_frame_def)

lemma call_frame_steps:
  "call_frame aff m (stamp_account idx m)" "call_frame aff m (conn_affinity_record k idx now_ms m)"
  "call_frame aff m (record_divert key p until_ms dest m)" "call_frame (Some key) m (pin_session key idx now_ms m)"
  "call_frame aff m (snd (exclude_unsupported_codex_exits tried pr m))"
  by (simp_all add: call_frame_def manager_ok_steps pins_kept_same pins_kept_pin_session pins_kept_exclude)

lemma call_frame_record_pick: "call_frame aff m (record_pick c aff keep ck idx m)"
proof -
  define m1 where "m1 = (case (aff, keep) of
      (Some key, Some (p, u)) \<Rightarrow> record_divert key p u idx m | _ \<Rightarrow> m)"
  define m2 where "m2 = (case aff of None \<Rightarrow> m1
      | Some key \<Rightarrow> pin_session key (unwrap_or (map_option fst keep) idx) (sc_now_ms c) m1)"
  have "call_frame aff m m1" by (auto simp: m1_def call_frame_refl call_frame_steps split: option.splits)
  moreover have "call_frame aff m1 m2" by (auto simp: m2_def call_frame_refl call_frame_steps split: option.splits)
  moreover have "call_frame aff m2 (record_pick c aff keep ck idx m)"
  proof -
    have "record_pick c aff keep ck idx m =
        (case (sc_class c, ck) of (Noise, Some k) \<Rightarrow> conn_affinity_record k idx (sc_now_ms c) m2 | _ \<Rightarrow> m2)"
      by (simp only: record_pick_def m1_def m2_def Let_def)
    then show ?thesis by (auto simp: call_frame_refl call_frame_steps split: request_class.splits option.splits)
  qed
  ultimately show ?thesis by (blast intro: call_frame_trans)
qed

lemma call_frame_overlay: "call_frame aff m (overlay_serve c ck idx m)"
  by (auto simp: overlay_serve_def Let_def call_frame_steps split: request_class.splits option.splits
      intro: call_frame_trans [OF call_frame_steps(1) call_frame_steps(2)])

lemma call_frame_unpinned: "call_frame aff m (snd (select_unpinned c aff keep ck m))"
  by (auto simp: select_unpinned_def pick_and_stamp_def call_frame_refl call_frame_overlay
      split: option.splits prod.splits intro: call_frame_trans [OF call_frame_steps(1) call_frame_record_pick])

lemma call_frame_select_ctx: "call_frame aff m (snd (select_ctx c aff ck m))"
proof (cases "\<exists>key t. locked_account_for m (sc_provider c) = None \<and> aff = Some key \<and> pinned_outcome m c aff = Serve t")
  case True
  then show ?thesis
    by (auto simp: select_ctx_def affinity_commit_def Let_def
        intro: call_frame_trans [OF call_frame_steps(1) call_frame_steps(4)])
next
  case False
  then show ?thesis
    by (auto simp: select_ctx_def call_frame_refl call_frame_unpinned pinned_outcome_def
        split: option.splits fast_outcome.splits)
qed

lemma call_frame_select: "call_frame aff m (snd (select_with_group tried now model aff path ck grp m))"
  unfolding select_with_group_ctx Let_def split_beta
  by (rule call_frame_trans [OF call_frame_steps(5) call_frame_select_ctx])

text \<open>
  C5. A selection is a local change. From well-formed tables it leads to well-formed tables; accounts
  (up to the selection stamp), thresholds, groups, lock, control account and cache windows are
  unchanged; and every session but the request's own either keeps its pin, account and touch time
  included, or loses it to an eviction: no session is ever moved by someone else's request.
\<close>

theorem selection_is_local:
  assumes "manager_ok m" and "select_with_group tried now model aff path ck grp m = (r, m')" and "Some k \<noteq> aff"
  shows "manager_ok m' \<and> fleet_view m' = fleet_view m \<and>
    (cm_get (m_affinity m') k = cm_get (m_affinity m) k \<or> cm_get (m_affinity m') k = None)"
  using call_frame_select [of aff m tried now model path ck grp] assms
  by (auto simp: call_frame_def pins_kept_def)

theorem selection_is_local_witness:
  "manager_ok (snd (select_with_group {} 0 None (Some 7) path_messages None None (pin_session 9 1 0 two_claude)))"
proof -
  have "manager_ok two_claude"
    by (simp add: manager_ok_def two_claude_def sample_manager_def)
  then have "manager_ok (pin_session 9 1 0 two_claude)" by (rule manager_ok_steps)
  moreover have "Some (9 :: session_key) \<noteq> Some 7" by simp
  ultimately show ?thesis using selection_is_local by (metis prod.collapse)
qed

section \<open>A session keeps its account\<close>

lemma decide_unusable_alive:
  assumes "get (m_accounts m) idx = Some a" and "ctx_hard_ok m c a"
    and "i64_sub (sc_now_ms c) touched < ww_ms (sc_warm c)"
  shows "decide_unusable m c idx touched = Serve idx \<or> (\<exists>rs u. decide_unusable m c idx touched = Divert idx rs u)"
  using assms by (auto simp: decide_unusable_def Let_def)

lemma fast_path_alive:
  assumes "get (m_accounts m) idx = Some a" and "ctx_hard_ok m c a"
    and "i64_sub (sc_now_ms c) touched < ww_ms (sc_warm c)" and "\<not> m_load_balance_migration m"
  shows "fast_path m c key idx touched = Serve idx \<or> (\<exists>rs u. fast_path m c key idx touched = Divert idx rs u)"
  using assms decide_unusable_alive [OF assms(1-3)]
  by (auto simp: fast_path_def Let_def migration_target_def)

lemma affinity_pin_session_own [simp]: "affinity_pin (pin_session key idx now_ms m) key = Some idx"
  by (simp add: affinity_pin_def capped_insert_get)

lemma affinity_pin_conn [simp]: "affinity_pin (conn_affinity_record k idx now_ms m) = affinity_pin m"
  by (simp add: affinity_pin_def fun_eq_iff)

lemma record_pick_keeps: "affinity_pin (record_pick c (Some key) (Some (p, u)) ck idx m) key = Some p"
  by (auto simp: record_pick_def Let_def split: request_class.splits option.splits)

lemma select_unpinned_keeps:
  assumes "affinity_pin m key = Some p"
  shows "affinity_pin (snd (select_unpinned c (Some key) (Some (p, u)) ck m)) key = Some p"
  using assms by (auto simp: select_unpinned_def pick_and_stamp_def record_pick_keeps split: option.splits prod.splits)

lemma select_ctx_keeps_pin:
  assumes "cm_get (m_affinity m) key = Some (idx, touched)" and "get (m_accounts m) idx = Some a"
    and "ctx_hard_ok m c a" and "i64_sub (sc_now_ms c) touched < ww_ms (sc_warm c)"
    and "\<not> m_load_balance_migration m"
  shows "affinity_pin (snd (select_ctx c (Some key) ck m)) key = Some idx"
proof (cases "locked_account_for m (sc_provider c)")
  case (Some li)
  then show ?thesis using assms(1) by (simp add: select_ctx_def affinity_pin_def)
next
  case None
  show ?thesis using fast_path_alive [OF assms(2-5), of key]
proof
  assume "fast_path m c key idx touched = Serve idx"
  with None assms(1) show ?thesis
    by (simp add: select_ctx_def pinned_outcome_def affinity_commit_def commit_target_def Let_def)
next
  assume "\<exists>rs u. fast_path m c key idx touched = Divert idx rs u"
  moreover have "affinity_pin m key = Some idx" using assms(1) by (simp add: affinity_pin_def)
  ultimately show ?thesis
    using None assms(1) select_unpinned_keeps by (auto simp: select_ctx_def pinned_outcome_def)
qed
qed

lemma exclude_keeps_pin:
  assumes "cm_get (m_affinity m) key = Some (idx, touched)"
    and "p = Codex \<longrightarrow> idx \<notin> codex_accounts_with_unsupported_exit m" and "manager_ok m"
  shows "cm_get (m_affinity (snd (exclude_unsupported_codex_exits tried p m))) key = Some (idx, touched)"
  using assms
  by (auto simp: exclude_unsupported_codex_exits_def Let_def manager_ok_def cm_ok_def hm_get_in split: provider.splits)

text \<open>
  C4. A session stays where its prompt cache is. Assume that load-balance migration is off, that the pinned
  account passes the account-level gates for the request and is not, on a Codex request, one whose exit the
  proxy cannot honour, and that the session's cache is still warm. Then no request of the session moves its
  pin: not one the pinned account cannot take now (short hold, rejection, spent model bucket, pacing), not
  one for another provider or a strict group elsewhere, not a retry after the account failed, not one a lock
  sends elsewhere, and not one that got no account at all.
\<close>

theorem warm_session_keeps_pin:
  assumes "manager_ok m"
    and "cm_get (m_affinity m) key = Some (idx, touched)" and "get (m_accounts m) idx = Some a"
    and "of_path path = Codex \<longrightarrow> idx \<notin> codex_accounts_with_unsupported_exit m"
    and "account_hard_ok a (odt_to_ms now) grp (gp_reserved (m_groups m)) (gp_parked (m_groups m))
           (warm_window m (Some key))"
    and "i64_sub (odt_to_ms now) touched < ww_ms (warm_window m (Some key))"
    and "\<not> m_load_balance_migration m"
  shows "affinity_pin (snd (select_with_group tried now model (Some key) path ck grp m)) key = Some idx"
proof -
  define e where "e = exclude_unsupported_codex_exits tried (of_path path) m"
  define c where "c = make_ctx m (fst e) now model (Some key) path grp"
  have "affinity_pin (snd (select_ctx c (Some key) ck (snd e))) key = Some idx"
  proof (rule select_ctx_keeps_pin)
    show "cm_get (m_affinity (snd e)) key = Some (idx, touched)"
      unfolding e_def by (rule exclude_keeps_pin [OF assms(2,4,1)])
  qed (use assms in \<open>simp_all add: c_def e_def ctx_hard_ok_def\<close>)
  then show ?thesis by (simp add: select_with_group_ctx c_def e_def split_beta Let_def)
qed

theorem warm_session_keeps_pin_witness:
  "affinity_pin (snd (select_with_group {} 0 None (Some 7) path_messages None None
     (pin_session 7 0 0 held_then_free))) 7 = Some 0"
proof (rule warm_session_keeps_pin [where a = held_account and touched = 0])
  show "manager_ok (pin_session 7 0 0 held_then_free)"
    by (rule manager_ok_steps) (simp add: manager_ok_def held_then_free_def sample_manager_def)
  show "cm_get (m_affinity (pin_session 7 0 0 held_then_free)) 7 = Some (0, 0)" by (simp add: capped_insert_get)
  show "of_path path_messages = Codex \<longrightarrow> 0 \<notin> codex_accounts_with_unsupported_exit (pin_session 7 0 0 held_then_free)"
    by code_simp
  show "account_hard_ok held_account (odt_to_ms 0) None (gp_reserved (m_groups (pin_session 7 0 0 held_then_free)))
      (gp_parked (m_groups (pin_session 7 0 0 held_then_free))) (warm_window (pin_session 7 0 0 held_then_free) (Some 7))"
    by code_simp
  show "i64_sub (odt_to_ms 0) 0 < ww_ms (warm_window (pin_session 7 0 0 held_then_free) (Some 7))" by code_simp
qed (simp_all add: pin_session_def mark_affinity_dirty_def held_then_free_def sample_manager_def get_def)

section \<open>The pool spreads load\<close>

definition pinless :: "manager \<Rightarrow> session_key option \<Rightarrow> bool" where
  "pinless m aff = is_none_or aff (\<lambda>key. cm_get (m_affinity m) key = None)"

lemma select_ctx_pool:
  assumes "locked_account_for m (sc_provider c) = None" and "pinless m aff" and "sc_class c = Inference"
  shows "select_ctx c aff ck m = (case pool_pick m c of
      None \<Rightarrow> (None, m) | Some i \<Rightarrow> (Some i, record_pick c aff None ck i (stamp_account i m)))"
  using assms
  by (auto simp: select_ctx_def pinned_outcome_def pinless_def select_unpinned_def overlay_pick_def
      pick_and_stamp_def sticky_pick_def split: option.splits)

lemma pinless_exclude: "manager_ok m \<Longrightarrow> pinless m aff \<Longrightarrow> pinless (snd (exclude_unsupported_codex_exits tried p m)) aff"
  using pins_kept_exclude [of m None tried p] by (cases aff) (simp add: pinless_def, simp add: pinless_def pins_kept_def, metis)

lemma select_pool:
  assumes "manager_ok m" and "locked_account_for m (of_path path) = None" and "pinless m aff"
    and "classify_request path = Inference"
    and "exclude_unsupported_codex_exits tried (of_path path) m = (tried', m1)"
  shows "select_with_group tried now model aff path ck grp m =
    (case pool_pick m1 (make_ctx m tried' now model aff path grp) of
       None \<Rightarrow> (None, m1)
     | Some i \<Rightarrow> (Some i, record_pick (make_ctx m tried' now model aff path grp) aff None ck i (stamp_account i m1)))"
proof -
  have m1: "m1 = snd (exclude_unsupported_codex_exits tried (of_path path) m)" using assms(5) by simp
  have "pinless m1 aff" unfolding m1 by (rule pinless_exclude [OF assms(1,3)])
  moreover have "locked_account_for m1 (of_path path) = None" using assms(2) by (simp add: m1)
  ultimately show ?thesis
    using select_ctx_pool [of m1 "make_ctx m tried' now model aff path grp" aff ck] assms(4)
    by (simp add: select_with_group_ctx assms(5))
qed

lemma pool_pick_optimal:
  assumes "pool_pick m c = Some i" and "get (m_accounts m) j = Some b"
    and "j \<notin> pool_tried m c" and "pool_pick_respects_control_reserve m j b (r_now (sc_req c))"
    and "eligible b (policy_of m) (sc_req c) True (sc_group c) (sc_group c)"
  shows "\<exists>a. get (m_accounts m) i = Some a \<and>
    (a_priority a, reset_urgency_tier m a (r_now (sc_req c)), a_last_selected_seq a, weekly_reset_key a (r_now (sc_req c))) \<le>
    (a_priority b, reset_urgency_tier m b (r_now (sc_req c)), a_last_selected_seq b, weekly_reset_key b (r_now (sc_req c)))"
proof -
  let ?key = "eligible_key m (pool_tried m c) (sc_req c) True (sc_group c)"
  have j: "j < length (m_accounts m)" "m_accounts m ! j = b" using assms(2) by (auto simp: get_eq_Some_iff)
  obtain kb where kb: "?key j (m_accounts m ! j) = Some kb" using assms(3-5) j by (auto simp: eligible_key_Some)
  have "\<exists>i. pick_eligible m (pool_tried m c) (sc_req c) True (sc_group c) (m_accounts m) = Some i"
    by (rule eligible_pick.pick_exists [OF j(1)]) (simp add: kb)
  then have p: "pick_eligible m (pool_tried m c) (sc_req c) True (sc_group c) (m_accounts m) = Some i"
    using assms(1) by (auto simp: pool_pick_def Let_def)
  obtain a ka where a: "get (m_accounts m) i = Some a" "?key i a = Some ka"
    using eligible_pick.pick_get [OF p] by blast
  then have "?key i (m_accounts m ! i) = Some ka" by (auto simp: get_eq_Some_iff)
  from eligible_pick.pick_optimal [OF p j(1) this kb] have "ka \<le> kb" by auto
  with a kb j(2) show ?thesis by (auto simp: eligible_key_Some)
qed

text \<open>The account is a candidate of the pool for this request: pacing included, the control account
  left out.\<close>

definition pool_candidate :: "manager \<Rightarrow> nat set \<Rightarrow> odt \<Rightarrow> string option \<Rightarrow> string \<Rightarrow> string option \<Rightarrow> nat \<Rightarrow> bool" where
  "pool_candidate m tried now model path grp j \<longleftrightarrow>
     j \<notin> tried \<and> (of_path path = Codex \<longrightarrow> j \<notin> codex_accounts_with_unsupported_exit m) \<and> control m \<noteq> Some j \<and>
     is_some_and (get (m_accounts m) j) (\<lambda>b. eligible b (policy_of m) (request_of now model path) True grp grp)"

lemma pool_candidate_key:
  assumes "manager_ok m" and "locked_account_for m (of_path path) = None" and "pinless m aff"
    and "classify_request path = Inference" and "pool_candidate m tried now model path grp j"
    and "fst (select_with_group tried now model aff path ck grp m) = Some i"
  shows "\<exists>a b. get (m_accounts m) i = Some a \<and> get (m_accounts m) j = Some b \<and>
    (a_priority a, reset_urgency_tier m a now, a_last_selected_seq a, weekly_reset_key a now) \<le>
    (a_priority b, reset_urgency_tier m b now, a_last_selected_seq b, weekly_reset_key b now)"
proof -
  obtain tried' m1 where e: "exclude_unsupported_codex_exits tried (of_path path) m = (tried', m1)" by force
  have m1: "m1 = snd (exclude_unsupported_codex_exits tried (of_path path) m)" using e by simp
  have "j \<notin> tried'" using exclude_tried [of j tried "of_path path" m] assms(5) e by (simp add: pool_candidate_def)
  then have t: "j \<notin> pool_tried m1 (make_ctx m tried' now model aff path grp)"
    using assms(5)
    by (auto simp: m1 pool_tried_def pool_candidate_def control_excluded_def filter_opt_Some_iff)
  obtain b where b: "get (m_accounts m) j = Some b"
    "eligible b (policy_of m) (request_of now model path) True grp grp" "control m \<noteq> Some j"
    using assms(5) by (auto simp: pool_candidate_def is_some_and_iff)
  have "pool_pick m1 (make_ctx m tried' now model aff path grp) = Some i"
    using select_pool [OF assms(1-4) e] assms(6) by (simp split: option.splits)
  from pool_pick_optimal [OF this _ t, of b] b show ?thesis
    by (simp add: m1 pool_pick_respects_control_reserve_def)
qed

text \<open>
  The pool order. An unpinned inference request goes to an account that is least, among all the
  candidates, by priority first, then by how soon its weekly quota is forfeited, then by how long ago
  it was last chosen, then by its weekly reset.
\<close>

theorem pool_order:
  assumes "manager_ok m" and "locked_account_for m (of_path path) = None" and "pinless m aff"
    and "classify_request path = Inference" and "pool_candidate m tried now model path grp j"
    and "fst (select_with_group tried now model aff path ck grp m) = Some i"
    and "get (m_accounts m) i = Some a" and "get (m_accounts m) j = Some b"
  shows "a_priority a < a_priority b \<or> a_priority a = a_priority b \<and>
    (reset_urgency_tier m a now < reset_urgency_tier m b now \<or> reset_urgency_tier m a now = reset_urgency_tier m b now \<and>
     (a_last_selected_seq a < a_last_selected_seq b \<or> a_last_selected_seq a = a_last_selected_seq b \<and>
      weekly_reset_key a now \<le> weekly_reset_key b now))"
  using pool_candidate_key [OF assms(1-6)] assms(7,8) by (auto simp: less_eq_prod_def)

lemma two_claude_ok: "manager_ok two_claude"
  by (simp add: manager_ok_def two_claude_def sample_manager_def)

lemma two_claude_second: "pool_candidate two_claude {} 0 None path_messages None 1"
  by code_simp

lemma two_claude_open: "locked_account_for two_claude (of_path path_messages) = None"
  by code_simp

lemma messages_inference: "classify_request path_messages = Inference"
  by code_simp

theorem pool_order_witness:
  "a_priority (fresh_account ''a'' Anthropic) \<le> a_priority (fresh_account ''b'' Anthropic)"
proof -
  have "pinless two_claude None" by (simp add: pinless_def)
  from pool_order [OF two_claude_ok two_claude_open this messages_inference two_claude_second two_claude_first,
      of "fresh_account ''a'' Anthropic" "fresh_account ''b'' Anthropic"]
  show ?thesis by (auto simp: two_claude_def sample_manager_def get_def)
qed

lemma stamp_account_get:
  "get (m_accounts (stamp_account i m)) j =
     (if j = i then map_option (a_last_selected_seq_update (\<lambda>_. m_select_seq m)) (get (m_accounts m) i)
      else get (m_accounts m) j)"
  by (auto simp: stamp_account_def Let_def get_def split: option.splits)

lemma record_pick_accounts [simp]: "m_accounts (record_pick c aff keep ck i m) = m_accounts m"
  by (auto simp: record_pick_def Let_def pin_session_def mark_affinity_dirty_def conn_affinity_record_def
      record_divert_def split: option.splits request_class.splits)

definition stamps_ok :: "manager \<Rightarrow> bool" where
  "stamps_ok m \<longleftrightarrow> (\<forall>a\<in>set (m_accounts m). a_last_selected_seq a < m_select_seq m)"

lemma pool_stamps:
  assumes "manager_ok m" and "locked_account_for m (of_path path) = None" and "pinless m aff"
    and "classify_request path = Inference" and "stamps_ok m"
    and "select_with_group tried now model aff path ck grp m = (Some i, m1)"
    and "get (m_accounts m1) i = Some a" and "get (m_accounts m1) j = Some b" and "j \<noteq> i"
  shows "a_last_selected_seq b < a_last_selected_seq a"
proof -
  obtain tried' m0 where e: "exclude_unsupported_codex_exits tried (of_path path) m = (tried', m0)" by force
  have m0: "m_accounts m0 = m_accounts m" "m_select_seq m0 = m_select_seq m"
    using exclude_frame(1,9) [of tried "of_path path" m] e by simp_all
  have "m_accounts m1 = m_accounts (stamp_account i m0)"
    using select_pool [OF assms(1-4) e] assms(6) by (auto split: option.splits)
  then have "a_last_selected_seq a = m_select_seq m" "get (m_accounts m) j = Some b"
    using assms(7-9) m0 by (auto simp: stamp_account_get)
  with assms(5) get_in_set [of "m_accounts m" j b] show ?thesis by (simp add: stamps_ok_def)
qed

lemma live_row_unstamped:
  "is_some_and x (\<lambda>a. \<not> a_removed a \<and> a_provider a = p) =
   is_some_and (map_option unstamped x) (\<lambda>a. \<not> a_removed a \<and> a_provider a = p)"
  by (cases x) (simp_all add: fields_unstamped)

lemma fleet_view_lock:
  assumes "fleet_view m' = fleet_view m"
  shows "locked_account_for m' p = locked_account_for m p"
proof -
  have "m_locked_idx m' = m_locked_idx m" using assms by (simp add: fleet_view_def)
  moreover have "is_some_and (get (m_accounts m') i) (\<lambda>a. \<not> a_removed a \<and> a_provider a = p) =
      is_some_and (get (m_accounts m) i) (\<lambda>a. \<not> a_removed a \<and> a_provider a = p)" for i
    unfolding live_row_unstamped [of "get (m_accounts m') i"] live_row_unstamped [of "get (m_accounts m) i"]
      fleet_view_get [OF assms] ..
  ultimately show ?thesis by (simp add: locked_account_for_def split: option.split)
qed

text \<open>
  C6. Rotation. With no lock, two inference requests in a row whose sessions have no pin, on whatever
  inference paths, never go to the same account while another candidate of the second one has the same
  priority and urgency: the account served first carries the newest stamp and loses the tie. The stamps
  are unsigned 64-bit ticks and nothing is assumed of their distance.
\<close>

theorem pool_rotates:
  assumes "manager_ok m" and "locked_account_for m (of_path path) = None" and "locked_account_for m (of_path path') = None"
    and "classify_request path = Inference" and "classify_request path' = Inference" and "stamps_ok m" and "pinless m aff" and "pinless m1 aff'"
    and "select_with_group tried now model aff path ck grp m = (Some i, m1)"
    and "get (m_accounts m1) i = Some a" and "get (m_accounts m1) j = Some b" and "j \<noteq> i"
    and "pool_candidate m1 tried' now' model' path' grp' j"
    and "a_priority b = a_priority a" and "reset_urgency_tier m1 b now' = reset_urgency_tier m1 a now'"
  shows "fst (select_with_group tried' now' model' aff' path' ck' grp' m1) \<noteq> Some i"
proof
  assume again: "fst (select_with_group tried' now' model' aff' path' ck' grp' m1) = Some i"
  have frame: "call_frame aff m m1" using call_frame_select [of aff m tried now model path ck grp] assms(9) by simp
  then have ok: "manager_ok m1" and "fleet_view m1 = fleet_view m" using assms(1) by (auto simp: call_frame_def)
  then have "locked_account_for m1 (of_path path') = None" using fleet_view_lock [of m1 m "of_path path'"] assms(3) by simp
  from pool_candidate_key [OF ok this assms(8,5,13) again] assms(10,11,14,15)
  have "a_last_selected_seq a \<le> a_last_selected_seq b" by (auto simp: less_eq_prod_def)
  with pool_stamps [OF assms(1,2,7,4,6,9-12)] show False by simp
qed

theorem pool_rotates_witness:
  "fst (select_with_group {} 0 None None path_messages None None
     (snd (select_with_group {} 0 None None path_messages None None two_claude))) \<noteq> Some 0"
proof -
  obtain m1 where one: "select_with_group {} 0 None None path_messages None None two_claude = (Some 0, m1)"
    using two_claude_first by (metis prod.collapse)
  have "stamps_ok two_claude" by code_simp
  moreover have "pinless two_claude None" "pinless m1 None" by (simp_all add: pinless_def)
  moreover have "pool_candidate (snd (select_with_group {} 0 None None path_messages None None two_claude)) {} 0 None path_messages None 1"
    by code_simp
  then have "pool_candidate m1 {} 0 None path_messages None 1" by (simp add: one)
  moreover have "m_accounts (snd (select_with_group {} 0 None None path_messages None None two_claude)) =
      [(fresh_account ''a'' Anthropic)\<lparr>a_last_selected_seq := 1\<rparr>, fresh_account ''b'' Anthropic]" by code_simp
  then have acc: "m_accounts m1 = [(fresh_account ''a'' Anthropic)\<lparr>a_last_selected_seq := 1\<rparr>, fresh_account ''b'' Anthropic]"
    by (simp add: one)
  moreover have "reset_urgency_tier m1 (fresh_account ''b'' Anthropic) 0 =
      reset_urgency_tier m1 ((fresh_account ''a'' Anthropic)\<lparr>a_last_selected_seq := 1\<rparr>) 0"
    by (simp add: reset_urgency_tier_def fresh_account_def)
  ultimately have "fst (select_with_group {} 0 None None path_messages None None m1) \<noteq> Some 0"
    by (intro pool_rotates [OF two_claude_ok two_claude_open two_claude_open messages_inference messages_inference _ _ _ one,
          where j = 1 and a = "(fresh_account ''a'' Anthropic)\<lparr>a_last_selected_seq := 1\<rparr>" and b = "fresh_account ''b'' Anthropic"])
      (simp_all add: get_def fresh_account_def)
  then show ?thesis by (simp add: one)
qed

section \<open>The control account\<close>

text \<open>
  C7. The control account is kept out of inference. Unless the operator locked the fleet to that very
  account, and when it is neither pooled nor opted in by the asked group, an inference request whose
  session has no pin never gets it, even if it is the only account left.
\<close>

theorem control_never_serves_unpinned_inference:
  assumes "manager_ok m" and "locked_account_for m (of_path path) \<noteq> Some i" and "pinless m aff"
    and "classify_request path = Inference" and "\<not> m_control_pooled m" and "control m = Some i"
    and "\<forall>g. grp = Some g \<longrightarrow> g \<notin> gp_control_allowed (m_groups m)"
  shows "fst (select_with_group tried now model aff path ck grp m) \<noteq> Some i"
proof
  assume i: "fst (select_with_group tried now model aff path ck grp m) = Some i"
  have lock: "locked_account_for m (of_path path) = None"
    using select_locked [OF i] assms(2) by (cases "locked_account_for m (of_path path)") auto
  obtain tried' m1 where e: "exclude_unsupported_codex_exits tried (of_path path) m = (tried', m1)" by force
  then have m1: "m1 = snd (exclude_unsupported_codex_exits tried (of_path path) m)" by simp
  define c where "c = make_ctx m tried' now model aff path grp"
  have "pool_pick m1 c = Some i"
    using select_pool [OF assms(1) lock assms(3,4) e] i by (simp add: c_def split: option.splits)
  from pool_pick_serves [OF this] have "i \<notin> pool_tried m1 c" by (simp add: c_def)
  moreover have "control_excluded m1 c = Some i"
    using assms(4-7) by (cases grp) (auto simp: m1 c_def control_excluded_def)
  ultimately show False by (simp add: pool_tried_def)
qed

theorem control_never_serves_unpinned_inference_witness:
  "fst (select_with_group {1} 0 None None path_messages None None (two_claude\<lparr>m_control_idx := Some 0\<rparr>)) \<noteq> Some 0"
proof (rule control_never_serves_unpinned_inference)
  show "manager_ok (two_claude\<lparr>m_control_idx := Some 0\<rparr>)" using two_claude_ok by (simp add: manager_ok_def)
  have "locked_account_for (two_claude\<lparr>m_control_idx := Some 0\<rparr>) (of_path path_messages) = None" by code_simp
  then show "locked_account_for (two_claude\<lparr>m_control_idx := Some 0\<rparr>) (of_path path_messages) \<noteq> Some 0" by simp
qed (simp_all add: messages_inference pinless_def control_def two_claude_def sample_manager_def)

section \<open>Migration\<close>

lemma count_hm_insert:
  assumes "hm_ok t" and "hm_get t key = Some old"
  shows "length (filter q (hm_insert key v t)) + (if q (key, old) then 1 else 0) =
    length (filter q t) + (if q (key, v) then 1 else 0)"
  using assms
proof (induction t)
  case (Cons p t)
  then show ?case by (cases p) (auto simp: hm_get_def hm_ok_def split: if_splits)
qed (simp add: hm_get_def)

lemma capped_insert_existing:
  assumes "hm_get (cm_map pins) key = Some old" and "length (cm_map pins) \<le> cm_cap pins"
  shows "cm_map (snd (capped_insert key v pins)) = hm_insert key v (cm_map pins)"
proof -
  have "key \<in> fst ` set (cm_map pins)" using assms(1) hm_get_None [of "cm_map pins" key] by fastforce
  then show ?thesis using assms(2) by (simp add: capped_insert_def evict_sparing_def Let_def length_hm_insert)
qed

text \<open>
  C8. Load-balance migration is re-validated when it is committed. If the commit moves the session,
  then on the pins it sees the session is still on its old account and the target carries at least two
  live pins less; the move shifts exactly one pin, so afterwards the target is never the more loaded of
  the two. Otherwise the session stays: two sessions deciding on the same snapshot cannot overshoot.
\<close>

theorem migration_never_overshoots:
  assumes "cm_ok (m_affinity m)" and "length (cm_map (m_affinity m)) \<le> cm_cap (m_affinity m)"
    and "affinity_commit key idx target now_ms m = (committed, m')" and "committed \<noteq> idx"
  shows "committed = target \<and> affinity_pin m key = Some idx \<and> affinity_pin m' key = Some target \<and>
    live_pins (m_affinity m') key now_ms idx + 1 = live_pins (m_affinity m) key now_ms idx \<and>
    live_pins (m_affinity m') key now_ms target = live_pins (m_affinity m) key now_ms target + 1 \<and>
    live_pins (m_affinity m') key now_ms target \<le> live_pins (m_affinity m') key now_ms idx"
proof -
  let ?old = "m_affinity m"
  have c: "committed = target" "map_option fst (cm_get ?old key) = Some idx"
      "live_pins ?old key now_ms target + 1 < live_pins ?old key now_ms idx" "target \<noteq> idx"
    and m': "m' = pin_session key target now_ms m"
    using assms(3,4) by (auto simp: affinity_commit_def commit_target_def Let_def split: if_splits)
  then obtain touched where k: "cm_get ?old key = Some (idx, touched)" by auto
  have map': "cm_map (m_affinity m') = hm_insert key (target, now_ms) (cm_map ?old)"
    using capped_insert_existing [OF k assms(2)] by (simp add: m')
  have n: "live_pins (m_affinity m') key now_ms i + (if i = idx then 1 else 0) =
      live_pins ?old key now_ms i + (if i = target then 1 else 0)" for i
    using count_hm_insert [of "cm_map ?old" key "(idx, touched)" "\<lambda>(k, j, t). j = i \<and> pin_counts_as_load (k = key) t now_ms" "(target, now_ms)"]
      assms(1) k by (simp add: live_pins_def map' cm_ok_def pin_counts_as_load_def eq_commute)
  have "affinity_pin m' key = Some target" by (simp add: m')
  with c n [of idx] n [of target] show ?thesis by (simp add: affinity_pin_def)
qed

definition crowded :: manager where
  "crowded = pin_session 7 0 0 (pin_session 8 0 0 (pin_session 9 0 0 two_claude))"

theorem migration_never_overshoots_witness:
  "affinity_pin (snd (affinity_commit 7 0 1 0 crowded)) 7 = Some 1"
proof -
  have "cm_ok (m_affinity crowded)" "length (cm_map (m_affinity crowded)) \<le> cm_cap (m_affinity crowded)" by code_simp+
  moreover have "fst (affinity_commit 7 0 1 0 crowded) = 1" by code_simp
  ultimately show ?thesis
    using migration_never_overshoots [of crowded 7 0 1 0 1 "snd (affinity_commit 7 0 1 0 crowded)"]
    by (metis prod.collapse zero_neq_one)
qed

section \<open>Diverts\<close>

lemma sticky_after_record:
  assumes "destination_bit d = Some db" and "divert_verdict (cm_get (m_divert_ledger m) key) p u 0 = Fresh"
  shows "divert_verdict (cm_get (m_divert_ledger (record_divert key p u d m)) key) p u 0 = Sticky d"
proof -
  have "cm_get (m_divert_ledger (record_divert key p u d m)) key =
      Some (note_destination p u d db (cm_get (m_divert_ledger m) key))"
    using assms(1) evict_never_spared [of key] by (simp add: record_divert_def Let_def evict_sparing_get)
  moreover have "de_pin e \<noteq> p \<or> de_until_ms e \<noteq> u" if "cm_get (m_divert_ledger m) key = Some e" for e
    using assms(2) that by (auto simp: divert_verdict_def split: if_splits)
  ultimately show ?thesis
    by (cases "cm_get (m_divert_ledger m) key") (auto simp: divert_verdict_def note_destination_def Let_def)
qed

lemma ledger_unchanged [simp]:
  "m_divert_ledger (stamp_account i m) = m_divert_ledger m"
  "m_divert_ledger (pin_session k i now_ms m) = m_divert_ledger m"
  "m_divert_ledger (conn_affinity_record k i now_ms m) = m_divert_ledger m"
  by (simp_all add: stamp_account_def Let_def pin_session_def mark_affinity_dirty_def conn_affinity_record_def)

lemma record_pick_ledger:
  "m_divert_ledger (record_pick c (Some key) (Some (p, u)) ck d m) = m_divert_ledger (record_divert key p u d m)"
  by (auto simp: record_pick_def Let_def split: request_class.splits option.splits)

lemma record_divert_ledger_cong:
  "m_divert_ledger m' = m_divert_ledger m \<Longrightarrow>
   m_divert_ledger (record_divert key p u d m') = m_divert_ledger (record_divert key p u d m)"
  by (simp add: record_divert_def Let_def split: option.split)

lemma select_ctx_divert:
  assumes "locked_account_for m (sc_provider c) = None" and "pinned_outcome m c (Some key) = Divert p rs u"
  shows "select_ctx c (Some key) ck m = select_unpinned c (Some key) (Some (p, u)) ck m"
  using assms by (simp add: select_ctx_def)

text \<open>
  A diverted session has one fallback. When the pinned account yields a request, the account
  that takes the first one of the episode takes the later ones too, as long as it is still eligible,
  untried and below the ledger's 64 indices; the pin itself stays with the session.
\<close>

theorem divert_is_sticky:
  assumes "locked_account_for m (sc_provider c) = None" and "locked_account_for m1 (sc_provider c') = None"
    and "pinned_outcome m c (Some key) = Divert p rs u" and "pinned_outcome m1 c' (Some key) = Divert p rs' u"
    and "divert_verdict (cm_get (m_divert_ledger m) key) p u 0 = Fresh"
    and "select_ctx c (Some key) ck m = (Some d, m1)" and "d < 64"
    and "get (m_accounts m1) d = Some a" and "ctx_eligible m1 c' (sc_strict c') a" and "d \<notin> sc_tried c'"
  shows "fst (select_ctx c' (Some key) ck' m1) = Some d"
proof -
  have "(of_nat d :: u32) < 64" using assms(7) by (simp add: word_less_nat_alt unat_of_nat take_bit_eq_mod)
  then obtain db where db: "destination_bit d = Some db" by (simp add: destination_bit_def Let_def)
  have "m1 = record_pick c (Some key) (Some (p, u)) ck d (stamp_account d m)"
    using assms(6) select_ctx_divert [OF assms(1,3), of ck]
    by (auto simp: select_unpinned_def pick_and_stamp_def split: option.splits prod.splits)
  then have "m_divert_ledger m1 = m_divert_ledger (record_divert key p u d m)"
    using record_divert_ledger_cong [of "stamp_account d m" m key p u d] by (simp add: record_pick_ledger)
  then have "sticky_pick m1 c' (Some key) (Some (p, u)) = Some d"
    using sticky_after_record [OF db assms(5)] assms(8-10) by (simp add: sticky_pick_def)
  then show ?thesis
    using select_ctx_divert [OF assms(2,4), of ck'] by (simp add: select_unpinned_def pick_and_stamp_def)
qed

definition diverting :: manager where
  "diverting = pin_session 7 0 0 held_then_free"

definition diverting_ctx :: sel_ctx where
  "diverting_ctx = make_ctx diverting {} 0 None (Some 7) path_messages None"

theorem divert_is_sticky_witness:
  "fst (select_ctx diverting_ctx (Some 7) None (snd (select_ctx diverting_ctx (Some 7) None diverting))) = Some 1"
proof -
  let ?m1 = "snd (select_ctx diverting_ctx (Some 7) None diverting)"
  have "fst (select_ctx diverting_ctx (Some 7) None diverting) = Some 1" by code_simp
  then have "select_ctx diverting_ctx (Some 7) None diverting = (Some 1, ?m1)" by (metis prod.collapse)
  moreover have "locked_account_for diverting (sc_provider diverting_ctx) = None" by code_simp
  moreover have "locked_account_for ?m1 (sc_provider diverting_ctx) = None" by code_simp
  moreover have "pinned_outcome diverting diverting_ctx (Some 7) = Divert 0 ''short-hold'' 5000" by code_simp
  moreover have "pinned_outcome ?m1 diverting_ctx (Some 7) = Divert 0 ''short-hold'' 5000" by code_simp
  moreover have "divert_verdict (cm_get (m_divert_ledger diverting) 7) 0 5000 0 = Fresh" by code_simp
  moreover have "get (m_accounts ?m1) 1 = Some ((fresh_account ''b'' Anthropic)\<lparr>a_last_selected_seq := 1\<rparr>)" by code_simp
  moreover have "ctx_eligible ?m1 diverting_ctx (sc_strict diverting_ctx)
      ((fresh_account ''b'' Anthropic)\<lparr>a_last_selected_seq := 1\<rparr>)" by code_simp
  moreover have "1 \<notin> sc_tried diverting_ctx" by (simp add: diverting_ctx_def)
  ultimately show ?thesis by (intro divert_is_sticky) simp_all
qed

section \<open>The idle-cold re-key\<close>

text \<open>
  A pin over its soft threshold is given up once its session is cold and \<open>has_eligible_alternative\<close>
  finds somewhere better to go. That check looks at accounts this request has already tried, so on a
  retry it can give the pin up for an account the pool then refuses to use again: the warm session is
  served by its pinned account, the cold one gets no account although the same one is there.
\<close>

definition over_soft :: account where
  "over_soft = (fresh_account ''a'' Anthropic)\<lparr>a_quota := quota_default\<lparr>five_hour := Some \<lparr>utilization = Fin 1, reset = None\<rparr>\<rparr>\<rparr>"

definition soft_then_free :: manager where
  "soft_then_free = pin_session 7 0 0 (sample_manager [over_soft, fresh_account ''b'' Anthropic])"

theorem idle_cold_retry_refused:
  "fst (select_with_group {1} 0 None (Some 7) path_messages None None soft_then_free) = Some 0 \<and>
   fst (select_with_group {1} (3600 * ns_per_sec) None (Some 7) path_messages None None soft_then_free) = None"
proof
  show "fst (select_with_group {1} 0 None (Some 7) path_messages None None soft_then_free) = Some 0" by code_simp
  show "fst (select_with_group {1} (3600 * ns_per_sec) None (Some 7) path_messages None None soft_then_free) = None"
    by code_simp
qed

end
