(* ===== verification/Revalidation.thy ===== *)
theory Revalidation
  imports Select_Props
begin

text \<open>
  \<open>Manager::select_revalidation\<close> of \<^verbatim>\<open>src/manager/select.rs\<close>: the last-resort serve when normal
  selection found nothing. It honours the session's pin or else serves the least utilized account
  that passes the hard gates, at most once per spacing window and provider.
\<close>

section \<open>The model\<close>

definition REVALIDATION_MIN_SPACING_MS :: i64 where "REVALIDATION_MIN_SPACING_MS = 2000"

definition reval_hard_ok :: "manager \<Rightarrow> sel_ctx \<Rightarrow> account \<Rightarrow> bool" where
  "reval_hard_ok m c a \<longleftrightarrow> a_provider a = sc_provider c \<and> hard_ok a (policy_of m) (sc_req c) None (sc_warm c)"

text \<open>The pin-honor stage: serve the pin, or keep it with the deadline of its divert episode, or let
  the fallback re-key the session.\<close>

datatype pin_stage = Honor nat | Keep nat i64 | Free

definition reval_pin :: "manager \<Rightarrow> sel_ctx \<Rightarrow> session_key option \<Rightarrow> pin_stage" where
  "reval_pin m c affinity =
     (case Option.bind affinity (\<lambda>key. map_option fst (cm_get (m_affinity m) key)) of
        None \<Rightarrow> Free
      | Some idx \<Rightarrow>
          if idx \<notin> sc_tried c \<and> is_some_and (get (m_accounts m) idx) (reval_hard_ok m c) then Honor idx
          else if is_some_and (get (m_accounts m) idx) (\<lambda>a. account_hard_ok a (sc_now_ms c) None
                    (gp_reserved (m_groups m)) (gp_parked (m_groups m)) (sc_warm c))
          then Keep idx (hold_deadline m idx)
          else Free)"

definition reval_sticky :: "manager \<Rightarrow> sel_ctx \<Rightarrow> session_key option \<Rightarrow> (nat \<times> i64) option \<Rightarrow> nat option" where
  "reval_sticky m c affinity keep =
     filter_opt (\<lambda>s. is_some_and (get (m_accounts m) s) (reval_hard_ok m c))
       (Option.bind keep (\<lambda>(pin_idx, until_ms).
          case divert_verdict (Option.bind affinity (cm_get (m_divert_ledger m))) pin_idx until_ms 0 of
            Sticky s \<Rightarrow> if s \<notin> sc_tried c then Some s else None
          | _ \<Rightarrow> None))"

definition reval_key :: "manager \<Rightarrow> sel_ctx \<Rightarrow> nat \<Rightarrow> account \<Rightarrow> (int \<times> u64) option" where
  "reval_key m c i a =
     (if i \<in> sc_tried c \<or> \<not> reval_hard_ok m c a then None
      else Some (f64_to_bits (max_utilization (a_quota a) (r_now (sc_req c)) (r_is_fable (sc_req c))),
                 a_last_selected_seq a))"

definition pick_least_utilized :: "manager \<Rightarrow> sel_ctx \<Rightarrow> account list \<Rightarrow> nat option" where
  "pick_least_utilized m c accounts = pick_best (reval_key m c) accounts"

definition valve :: "manager \<Rightarrow> provider \<Rightarrow> i64" where
  "valve m p = (case p of Anthropic \<Rightarrow> m_next_revalidation_at_ms m | Codex \<Rightarrow> m_next_codex_revalidation_at_ms m)"

definition set_valve :: "provider \<Rightarrow> i64 \<Rightarrow> manager \<Rightarrow> manager" where
  "set_valve p next_ms m = (case p of
      Anthropic \<Rightarrow> m\<lparr>m_next_revalidation_at_ms := next_ms\<rparr>
    | Codex \<Rightarrow> m\<lparr>m_next_codex_revalidation_at_ms := next_ms\<rparr>)"

definition reval_record ::
  "sel_ctx \<Rightarrow> session_key option \<Rightarrow> (nat \<times> i64) option \<Rightarrow> nat \<Rightarrow> manager \<Rightarrow> manager" where
  "reval_record c affinity keep idx m =
     (case affinity of
        None \<Rightarrow> m
      | Some key \<Rightarrow>
          let m1 = pin_session key (unwrap_or (map_option fst keep) idx) (sc_now_ms c) m in
          (case keep of
             None \<Rightarrow> m1
           | Some (pin_idx, until_ms) \<Rightarrow> record_divert key pin_idx until_ms idx m1))"

definition reval_fallback ::
  "sel_ctx \<Rightarrow> session_key option \<Rightarrow> (nat \<times> i64) option \<Rightarrow> manager \<Rightarrow> nat option \<times> manager" where
  "reval_fallback c affinity keep m =
     (case or_else (reval_sticky m c affinity keep) (pick_least_utilized m c (m_accounts m)) of
        None \<Rightarrow> (None, m)
      | Some idx \<Rightarrow>
          if sc_now_ms c < valve m (sc_provider c) then (None, m)
          else (Some idx, reval_record c affinity keep idx (stamp_account idx
                  (set_valve (sc_provider c) (i64_add (sc_now_ms c) REVALIDATION_MIN_SPACING_MS) m))))"

definition select_revalidation ::
  "nat set \<Rightarrow> odt \<Rightarrow> string option \<Rightarrow> session_key option \<Rightarrow> string \<Rightarrow> manager \<Rightarrow> nat option \<times> manager" where
  "select_revalidation tried now model affinity path m =
     (let (tried', m1) = exclude_unsupported_codex_exits tried (of_path path) m;
          c = make_ctx m1 tried' now model affinity path None
      in case reval_pin m1 c affinity of
           Honor idx \<Rightarrow> (Some idx, stamp_account idx m1)
         | Keep idx until_ms \<Rightarrow> reval_fallback c affinity (Some (idx, until_ms)) m1
         | Free \<Rightarrow> reval_fallback c affinity None m1)"

section \<open>Lemmas\<close>

interpretation least_utilized_pick: ranked_pick "pick_least_utilized m c" "reval_key m c"
  for m c
  using pick_best_ranked [of "reval_key m c"] by (simp add: pick_least_utilized_def [abs_def])

lemma select_revalidation_ctx:
  assumes "exclude_unsupported_codex_exits tried (of_path path) m = (tried', m1)"
  shows "select_revalidation tried now model affinity path m =
    (let c = make_ctx m tried' now model affinity path None
     in case reval_pin m1 c affinity of
          Honor idx \<Rightarrow> (Some idx, stamp_account idx m1)
        | Keep idx until_ms \<Rightarrow> reval_fallback c affinity (Some (idx, until_ms)) m1
        | Free \<Rightarrow> reval_fallback c affinity None m1)"
proof -
  have "make_ctx m1 = make_ctx m" using exclude_frame(14) [of tried "of_path path" m] assms by simp
  then show ?thesis by (simp add: select_revalidation_def assms)
qed

text \<open>A candidate of the last resort.\<close>

definition reval_candidate :: "manager \<Rightarrow> sel_ctx \<Rightarrow> nat \<Rightarrow> bool" where
  "reval_candidate m c i \<longleftrightarrow> i \<notin> sc_tried c \<and> is_some_and (get (m_accounts m) i) (reval_hard_ok m c)"

lemma reval_pin_Honor: "reval_pin m c aff = Honor i \<Longrightarrow> reval_candidate m c i"
  by (auto simp: reval_pin_def reval_candidate_def split: option.splits if_splits)

lemma reval_sticky_candidate: "reval_sticky m c aff keep = Some s \<Longrightarrow> reval_candidate m c s"
  by (cases keep) (auto simp: reval_sticky_def reval_candidate_def filter_opt_Some_iff
      split: divert_verdict.splits if_splits)

lemma reval_pick_candidate:
  assumes "or_else (reval_sticky m c aff keep) (pick_least_utilized m c (m_accounts m)) = Some i"
  shows "reval_candidate m c i"
proof (cases "reval_sticky m c aff keep")
  case None
  with assms least_utilized_pick.pick_get [of m c "m_accounts m" i] show ?thesis
    by (auto simp: reval_candidate_def reval_key_def split: if_splits)
next
  case (Some s)
  then have "i = s" using assms by simp
  with reval_sticky_candidate [OF Some] show ?thesis by simp
qed

lemma reval_fallback_Some:
  assumes "reval_fallback c aff keep m = (Some i, m')"
  shows "reval_candidate m c i \<and> valve m (sc_provider c) \<le> sc_now_ms c \<and>
    m' = reval_record c aff keep i (stamp_account i
      (set_valve (sc_provider c) (i64_add (sc_now_ms c) REVALIDATION_MIN_SPACING_MS) m))"
  using assms reval_pick_candidate [of m c aff keep] by (auto simp: reval_fallback_def split: option.splits if_splits)

lemma reval_fallback_None: "reval_fallback c aff keep m = (None, m') \<Longrightarrow> m' = m"
  by (auto simp: reval_fallback_def split: option.splits if_splits)
lemma valve_frame [simp]:
  "valve (stamp_account i m) = valve m" "valve (pin_session k i t m) = valve m"
  "valve (record_divert k p u d m) = valve m" "valve (conn_affinity_record k i t m) = valve m"
  by (auto simp: valve_def fun_eq_iff stamp_account_def Let_def pin_session_def mark_affinity_dirty_def
      record_divert_def conn_affinity_record_def split: provider.splits option.splits)

lemma valve_exclude [simp]: "valve (snd (exclude_unsupported_codex_exits tried p m)) = valve m"
  using exclude_only_pins [of tried p m] by (auto simp: valve_def fun_eq_iff split: provider.splits)

lemma valve_set [simp]: "valve (set_valve p t m) q = (if q = p then t else valve m q)"
  by (cases p; cases q) (simp_all add: valve_def set_valve_def)

lemma valve_reval_record [simp]: "valve (reval_record c aff keep i m) = valve m"
  by (simp add: reval_record_def Let_def split: option.splits prod.splits)

lemma valve_record_pick [simp]: "valve (record_pick c aff keep ck i m) = valve m"
  by (auto simp: record_pick_def Let_def split: option.splits request_class.splits)

lemma valve_select_ctx [simp]: "valve (snd (select_ctx c aff ck m)) = valve m"
proof -
  have "valve (snd (select_unpinned c aff keep ck m)) = valve m" for keep
    by (auto simp: select_unpinned_def pick_and_stamp_def overlay_serve_def Let_def
        split: option.splits prod.splits request_class.splits)
  then show ?thesis
    by (auto simp: select_ctx_def affinity_commit_def Let_def split: option.splits fast_outcome.splits)
qed

lemma valve_select [simp]: "valve (snd (select_with_group tried now model aff path ck grp m)) = valve m"
  by (simp add: select_with_group_ctx Let_def split_beta)

text \<open>The last resort leaves the fleet and the settings as they are, up to the selection stamp.\<close>

lemma frame_revalidation: "fleet_view (snd (select_revalidation tried now model aff path m)) = fleet_view m"
proof -
  obtain tried' m1 where e: "exclude_unsupported_codex_exits tried (of_path path) m = (tried', m1)" by force
  have "fleet_view (reval_record c aff keep i x) = fleet_view x" for c keep i x
    by (simp add: reval_record_def Let_def split: option.splits prod.splits)
  moreover have "fleet_view (set_valve p t x) = fleet_view x" for p t x
    by (simp add: set_valve_def fleet_view_def split: provider.splits)
  moreover have "fleet_view m1 = fleet_view m" using fleet_view_exclude [of tried "of_path path" m] e by simp
  ultimately show ?thesis
    by (simp add: select_revalidation_ctx [OF e] Let_def reval_fallback_def split: pin_stage.splits option.splits)
qed

section \<open>Safety\<close>

lemma select_revalidation_serves:
  assumes "select_revalidation tried now model aff path m = (Some i, m')"
    and "clock_ok (request_of now model path)" and "\<forall>a\<in>set (m_accounts m). hold_ok a"
  shows "i \<notin> tried \<and> (of_path path = Codex \<longrightarrow> i \<notin> codex_accounts_with_unsupported_exit m) \<and>
    (\<exists>a. get (m_accounts m) i = Some a \<and> a_provider a = of_path path \<and> account_terminal_gate a = None \<and>
       \<not> parked_blocks a (gp_parked (m_groups m)) \<and> \<not> reserved_blocks a None (gp_reserved (m_groups m)) \<and>
       \<not> live_hold a (odt_to_ms now) \<and> \<not> model_blocked a (policy_of m) (request_of now model path))"
proof -
  obtain tried' m1 where e: "exclude_unsupported_codex_exits tried (of_path path) m = (tried', m1)" by force
  define c where "c = make_ctx m tried' now model aff path None"
  have m1: "m_accounts m1 = m_accounts m" "m_groups m1 = m_groups m" "policy_of m1 = policy_of m"
    using exclude_frame(1-3) [of tried "of_path path" m] e by simp_all
  have "reval_candidate m1 c i"
    using assms(1) reval_pin_Honor reval_fallback_Some
    by (fastforce simp: select_revalidation_ctx [OF e] c_def [symmetric] Let_def split: pin_stage.splits)
  then obtain a where a: "get (m_accounts m) i = Some a" "a_provider a = of_path path" "i \<notin> tried'"
    and h: "hard_ok a (policy_of m) (request_of now model path) None (sc_warm c)"
    by (auto simp: reval_candidate_def is_some_and_iff reval_hard_ok_def m1 c_def)
  have "hold_ok a" using a(1) assms(3) get_in_set by fastforce
  then have "\<not> live_hold a (odt_to_ms now)"
    using hold_remaining_live [of a "odt_to_ms now"] clock_ms [OF assms(2)] h hold_split(1) [of a "odt_to_ms now" "sc_warm c"]
    by (auto simp: hard_ok_def account_hard_ok_iff split: if_splits)
  with a h exclude_tried [of i tried "of_path path" m] e show ?thesis
    by (auto simp: hard_ok_def account_hard_ok_iff)
qed

text \<open>
  C14. The last resort still honours every hard block. The account \<open>select_revalidation\<close> serves is of the
  request's provider, was not tried, has no unsupported exit, is neither disabled, dead nor rejected by
  upstream, in no parked group, in no reserved group at all, under no live hold, and for a Fable request
  has Fable quota left: only the utilization threshold and the pacing are set aside.
\<close>

theorem revalidation_honours_hard_blocks:
  assumes "select_revalidation tried now model aff path m = (Some i, m')"
    and "clock_ok (request_of now model path)" and "\<forall>a\<in>set (m_accounts m). hold_ok a"
  shows "i \<notin> tried \<and> (of_path path = Codex \<longrightarrow> i \<notin> codex_accounts_with_unsupported_exit m) \<and>
    (\<exists>a. get (m_accounts m) i = Some a \<and> a_provider a = of_path path \<and> account_terminal_gate a = None \<and>
       \<not> parked_blocks a (gp_parked (m_groups m)) \<and> \<not> reserved_blocks a None (gp_reserved (m_groups m)) \<and>
       \<not> live_hold a (odt_to_ms now) \<and> \<not> model_blocked a (policy_of m) (request_of now model path))"
  using assms by (rule select_revalidation_serves)

text \<open>A fleet over its soft threshold: normal selection finds nothing.\<close>

definition saturated :: manager where
  "saturated = sample_manager [over_soft, over_soft\<lparr>a_name := ''b''\<rparr>]"

lemma saturated_serves: "fst (select_revalidation {} 0 None (Some 7) path_messages saturated) = Some 0"
  by code_simp

lemma clock_ok_zero: "clock_ok (request_of 0 model path)"
  by (simp add: clock_ok_def request_of_def odt_to_ms_def in_i64_def i64_min_def i64_max_def)

theorem revalidation_honours_hard_blocks_witness:
  "\<exists>a. get (m_accounts saturated) 0 = Some a \<and> \<not> live_hold a (odt_to_ms 0)"
proof -
  have "select_revalidation {} 0 None (Some 7) path_messages saturated =
      (Some 0, snd (select_revalidation {} 0 None (Some 7) path_messages saturated))"
    using saturated_serves by (metis prod.collapse)
  moreover have "\<forall>a\<in>set (m_accounts saturated). hold_ok a"
    by (simp add: saturated_def sample_manager_def hold_ok_def over_soft_def fresh_account_def)
  ultimately show ?thesis
    using revalidation_honours_hard_blocks [OF _ clock_ok_zero, of "{}" None "Some 7" path_messages saturated 0] by blast
qed

section \<open>Spacing\<close>

text \<open>A mix of requests: normal selections and last-resort serves, in the order they take the
  accounts lock.\<close>

datatype router_call =
    Normal "nat set" odt "string option" "session_key option" string "session_key option" "string option"
  | Last_Resort "nat set" odt "string option" "session_key option" string

fun route :: "router_call \<Rightarrow> manager \<Rightarrow> nat option \<times> manager" where
  "route (Normal tried now model aff path ck grp) m = select_with_group tried now model aff path ck grp m"
| "route (Last_Resort tried now model aff path) m = select_revalidation tried now model aff path m"

text \<open>The instant of a fallback serve for provider \<open>p\<close>, if the call makes one: a last-resort serve
  that is not the session's own pin.\<close>

fun fallback_serve :: "provider \<Rightarrow> router_call \<Rightarrow> manager \<Rightarrow> i64 list" where
  "fallback_serve p (Normal tried now model aff path ck grp) m = []"
| "fallback_serve p (Last_Resort tried now model aff path) m =
     (let (tried', m1) = exclude_unsupported_codex_exits tried (of_path path) m;
          pinned = (case reval_pin m1 (make_ctx m tried' now model aff path None) aff of Honor _ \<Rightarrow> True | _ \<Rightarrow> False)
      in if of_path path = p \<and> fst (select_revalidation tried now model aff path m) \<noteq> None \<and> \<not> pinned
         then [odt_to_ms now] else [])"

fun fallback_times :: "provider \<Rightarrow> router_call list \<Rightarrow> manager \<Rightarrow> i64 list" where
  "fallback_times p [] m = []"
| "fallback_times p (rc # rcs) m = fallback_serve p rc m @ fallback_times p rcs (snd (route rc m))"

fun call_clock_ok :: "router_call \<Rightarrow> bool" where
  "call_clock_ok (Normal tried now model aff path ck grp) = True"
| "call_clock_ok (Last_Resort tried now model aff path) \<longleftrightarrow> odt_to_ms now + REVALIDATION_MIN_SPACING_MS \<le> i64_max"

lemma fallback_serve_step:
  assumes "call_clock_ok rc"
  shows "fallback_serve p rc m = [] \<and> valve (snd (route rc m)) p = valve m p \<or>
    (\<exists>t. fallback_serve p rc m = [t] \<and> valve m p \<le> t \<and>
       valve (snd (route rc m)) p = t + REVALIDATION_MIN_SPACING_MS)"
proof (cases rc)
  case (Last_Resort tried now model aff path)
  obtain tried' m1 where e: "exclude_unsupported_codex_exits tried (of_path path) m = (tried', m1)" by force
  define c where "c = make_ctx m tried' now model aff path None"
  have v: "valve m1 = valve m" using valve_exclude [of tried "of_path path" m] e by simp
  have add: "i64_add (odt_to_ms now) REVALIDATION_MIN_SPACING_MS = odt_to_ms now + REVALIDATION_MIN_SPACING_MS"
    using assms Last_Resort in_i64_odt_to_ms by (intro i64_add_small) (simp_all add: REVALIDATION_MIN_SPACING_MS_def)
  have fb: "(fst (reval_fallback c aff keep m1) = None \<and> snd (reval_fallback c aff keep m1) = m1) \<or>
      (\<exists>i. fst (reval_fallback c aff keep m1) = Some i \<and> valve m (of_path path) \<le> odt_to_ms now \<and>
         (\<forall>q. valve (snd (reval_fallback c aff keep m1)) q =
            (if q = of_path path then odt_to_ms now + REVALIDATION_MIN_SPACING_MS else valve m q)))" for keep
    using reval_fallback_Some [of c aff keep m1] reval_fallback_None [of c aff keep m1] v add
    by (cases "reval_fallback c aff keep m1"; cases "fst (reval_fallback c aff keep m1)") (auto simp: c_def)
  have serve: ?thesis
    if "fallback_serve p rc m = (if of_path path = p \<and> fst (reval_fallback c aff keep m1) \<noteq> None then [odt_to_ms now] else [])"
      and "snd (route rc m) = snd (reval_fallback c aff keep m1)" for keep
    using fb [of keep] that v by (cases "of_path path = p") auto
  note unfold = Last_Resort select_revalidation_ctx [OF e] e c_def [symmetric] Let_def
  show ?thesis
  proof (cases "reval_pin m1 c aff")
    case (Honor i)
    then show ?thesis by (simp add: unfold v)
  next
    case (Keep i u)
    then show ?thesis by (intro serve [of "Some (i, u)"]) (simp_all add: unfold)
  next
    case Free
    then show ?thesis by (intro serve [of None]) (simp_all add: unfold)
  qed
qed simp

lemma fallback_times_spaced:
  "list_all call_clock_ok rcs \<Longrightarrow>
   (\<forall>t\<in>set (fallback_times p rcs m). valve m p \<le> t) \<and>
   sorted_wrt (\<lambda>t t'. t + REVALIDATION_MIN_SPACING_MS \<le> t') (fallback_times p rcs m)"
proof (induction rcs arbitrary: m)
  case (Cons rc rcs)
  let ?m' = "snd (route rc m)"
  have IH: "\<forall>t\<in>set (fallback_times p rcs ?m'). valve ?m' p \<le> t"
    "sorted_wrt (\<lambda>t t'. t + REVALIDATION_MIN_SPACING_MS \<le> t') (fallback_times p rcs ?m')"
    using Cons.IH [of ?m'] Cons.prems by simp_all
  consider "fallback_serve p rc m = []" "valve ?m' p = valve m p"
    | t where "fallback_serve p rc m = [t]" "valve m p \<le> t" "valve ?m' p = t + REVALIDATION_MIN_SPACING_MS"
    using fallback_serve_step [of rc p m] Cons.prems by auto
  then show ?case
  proof cases
    case 1
    with IH show ?thesis by simp
  next
    case (2 t)
    have "0 \<le> REVALIDATION_MIN_SPACING_MS" by (simp add: REVALIDATION_MIN_SPACING_MS_def)
    with 2 IH show ?thesis by fastforce
  qed
qed simp

text \<open>
  C15. The anti-storm valve. In any mix of normal and last-resort calls, on any clock readings, two
  fallback serves for the same provider are at least two seconds apart, whatever sessions they are for;
  serving a session's own pin does not count and is never delayed.
\<close>

theorem fallback_serves_are_spaced:
  assumes "list_all call_clock_ok rcs"
  shows "sorted_wrt (\<lambda>t t'. t + 2000 \<le> t') (fallback_times p rcs m)"
  using fallback_times_spaced [OF assms, of p m] by (simp add: REVALIDATION_MIN_SPACING_MS_def)

text \<open>Three saturated requests in three seconds: the second finds the valve shut.\<close>

definition three_requests :: "router_call list" where
  "three_requests = map (\<lambda>t. Last_Resort {} (t * ns_per_ms) None None path_messages) [0, 1500, 3000]"

theorem fallback_serves_are_spaced_witness:
  "fallback_times Anthropic three_requests saturated = [0, 3000] \<and>
   sorted_wrt (\<lambda>t t'. t + 2000 \<le> t') (fallback_times Anthropic three_requests saturated)"
proof
  show "fallback_times Anthropic three_requests saturated = [0, 3000]" by code_simp
  have "list_all call_clock_ok three_requests" by code_simp
  then show "sorted_wrt (\<lambda>t t'. t + 2000 \<le> t') (fallback_times Anthropic three_requests saturated)"
    by (rule fallback_serves_are_spaced)
qed

section \<open>The pin\<close>

lemma affinity_pin_frame [simp]:
  "affinity_pin (stamp_account i m) = affinity_pin m" "affinity_pin (record_divert k p u d m) = affinity_pin m"
  "affinity_pin (set_valve q t m) = affinity_pin m"
  by (auto simp: affinity_pin_def fun_eq_iff set_valve_def split: provider.splits)

lemma reval_record_keeps: "affinity_pin (reval_record c (Some key) (Some (p, u)) i m) key = Some p"
  by (simp add: reval_record_def)

text \<open>
  The last resort moves a pin on account-level evidence only. If the session's pinned account
  passes the account-level gates, then after \<open>select_revalidation\<close> the session is still pinned to it,
  whoever served; and if it passes all hard gates and was not tried it serves, whatever the valve says.
\<close>

theorem revalidation_keeps_live_pin:
  assumes "manager_ok m" and "cm_get (m_affinity m) key = Some (idx, touched)" and "get (m_accounts m) idx = Some a"
    and "of_path path = Codex \<longrightarrow> idx \<notin> codex_accounts_with_unsupported_exit m"
    and "account_hard_ok a (odt_to_ms now) None (gp_reserved (m_groups m)) (gp_parked (m_groups m))
           (warm_window m (Some key))"
  shows "affinity_pin (snd (select_revalidation tried now model (Some key) path m)) key = Some idx \<and>
    (idx \<notin> tried \<and> a_provider a = of_path path \<and>
       hard_ok a (policy_of m) (request_of now model path) None (warm_window m (Some key)) \<longrightarrow>
     fst (select_revalidation tried now model (Some key) path m) = Some idx)"
proof -
  obtain tried' m1 where e: "exclude_unsupported_codex_exits tried (of_path path) m = (tried', m1)" by force
  define c where "c = make_ctx m tried' now model (Some key) path None"
  have m1: "m_accounts m1 = m_accounts m" "m_groups m1 = m_groups m" "policy_of m1 = policy_of m"
    using exclude_frame(1-3) [of tried "of_path path" m] e by simp_all
  have pin: "cm_get (m_affinity m1) key = Some (idx, touched)"
    using exclude_keeps_pin [OF assms(2,4,1), of tried] e by simp
  have tried: "idx \<notin> tried' \<longleftrightarrow> idx \<notin> tried" using exclude_tried [of idx tried "of_path path" m] assms(4) e by simp
  define honored where "honored \<longleftrightarrow> idx \<notin> tried \<and> reval_hard_ok m1 c a"
  have stage: "reval_pin m1 c (Some key) = (if honored then Honor idx else Keep idx (hold_deadline m1 idx))"
    using pin assms(3,5) tried by (simp add: reval_pin_def honored_def m1 c_def)
  have "affinity_pin m1 key = Some idx" using pin by (simp add: affinity_pin_def)
  then have "affinity_pin (snd (reval_fallback c (Some key) (Some (idx, u)) m1)) key = Some idx" for u
    by (simp add: reval_fallback_def reval_record_keeps split: option.splits)
  with stage \<open>affinity_pin m1 key = Some idx\<close> show ?thesis
    by (simp add: select_revalidation_ctx [OF e] c_def [symmetric] Let_def honored_def reval_hard_ok_def m1)
      (simp add: c_def)
qed

theorem revalidation_keeps_live_pin_witness:
  "affinity_pin (snd (select_revalidation {0} 0 None (Some 7) path_messages (pin_session 7 0 0 saturated))) 7 = Some 0"
proof -
  let ?m = "pin_session 7 0 0 saturated"
  have "manager_ok ?m"
    by (rule manager_ok_steps) (simp add: manager_ok_def saturated_def sample_manager_def)
  moreover have "cm_get (m_affinity ?m) 7 = Some (0, 0)" by (simp add: capped_insert_get)
  moreover have "get (m_accounts ?m) 0 = Some over_soft"
    by (simp add: pin_session_def mark_affinity_dirty_def saturated_def sample_manager_def get_def)
  moreover have "of_path path_messages = Codex \<longrightarrow> 0 \<notin> codex_accounts_with_unsupported_exit ?m" by code_simp
  moreover have "account_hard_ok over_soft (odt_to_ms 0) None (gp_reserved (m_groups ?m)) (gp_parked (m_groups ?m))
      (Manager_State.warm_window ?m (Some 7))" by code_simp
  ultimately show ?thesis
    using revalidation_keeps_live_pin [of ?m 7 0 0 over_soft path_messages 0 "{0}" None] by blast
qed

text \<open>A revalidation serve also pins a session that had no pin, so it can grow the table and evict.\<close>

theorem revalidation_pins_new_session:
  "affinity_pin saturated 7 = None \<and>
   affinity_pin (snd (select_revalidation {} 0 None (Some 7) path_messages saturated)) 7 = Some 0"
proof
  show "affinity_pin saturated 7 = None" by code_simp
  show "affinity_pin (snd (select_revalidation {} 0 None (Some 7) path_messages saturated)) 7 = Some 0" by code_simp
qed

end
