(* ===== verification/Account_Ops.thy ===== *)
theory Account_Ops
  imports Revalidation
begin

text \<open>
  The operations that change one account outside selection: \<^verbatim>\<open>src/manager/usage.rs\<close> (quota folding,
  holds, usage counters, stream errors), the in-flight guard and the connection budget of
  \<^verbatim>\<open>src/manager/mod.rs\<close>, the probe bookkeeping of \<^verbatim>\<open>src/manager/probing.rs\<close>, the refresh
  bookkeeping of \<^verbatim>\<open>src/manager/refresh.rs\<close> and keep-warm's accounting of \<^verbatim>\<open>src/manager/warm.rs\<close>.
  Each takes the accounts write lock once. \<open>crate::now_ms()\<close> and \<open>OffsetDateTime::now_utc()\<close> are
  arguments.
\<close>

definition update_account :: "nat \<Rightarrow> (account \<Rightarrow> account) \<Rightarrow> manager \<Rightarrow> manager" where
  "update_account idx f m =
     (case get (m_accounts m) idx of
        None \<Rightarrow> m
      | Some a \<Rightarrow> m\<lparr>m_accounts := (m_accounts m)[idx := f a]\<rparr>)"

section \<open>Quota folding\<close>

text \<open>The account half of \<open>update_quota_with_codex_refusal\<close>: whether the response carried the
  five-hour window, and the account after it.\<close>

definition fold_quota ::
  "time_lib \<Rightarrow> odt \<Rightarrow> headers \<Rightarrow> nat \<Rightarrow> codex_quota_refusal option \<Rightarrow> account \<Rightarrow> bool \<times> account" where
  "fold_quota T now h http_status refusal a =
     (let (read, q) = (case a_provider a of
                         Anthropic \<Rightarrow> update_from_headers T now h (a_quota a)
                       | Codex \<Rightarrow> update_from_codex_refusal T now h http_status refusal (a_quota a));
          a1 = a\<lparr>a_quota := q, a_quota_known := (a_quota_known a \<or> read)\<rparr>
      in (read, if read then a1\<lparr>a_warms_without_evidence := 0, a_warm_evidence_retry_after_ms := None\<rparr> else a1))"

text \<open>Returns whether the window was read and whether the keep-warm loop is woken.\<close>

definition update_quota_with_codex_refusal ::
  "time_lib \<Rightarrow> odt \<Rightarrow> nat \<Rightarrow> headers \<Rightarrow> nat \<Rightarrow> codex_quota_refusal option \<Rightarrow> manager \<Rightarrow> (bool \<times> bool) \<times> manager" where
  "update_quota_with_codex_refusal T now idx h http_status refusal m =
     (case get (m_accounts m) idx of
        None \<Rightarrow> ((False, False), m)
      | Some a \<Rightarrow>
          let (read, a') = fold_quota T now h http_status refusal a
          in ((read, read \<and> \<not> a_quota_known a), m\<lparr>m_accounts := (m_accounts m)[idx := a']\<rparr>))"

definition update_quota ::
  "(string \<Rightarrow> json option) \<Rightarrow> time_lib \<Rightarrow> odt \<Rightarrow> odt \<Rightarrow> nat \<Rightarrow> headers \<Rightarrow> nat \<Rightarrow> manager \<Rightarrow> (bool \<times> bool) \<times> manager" where
  "update_quota decode T now now' idx h http_status m =
     (let refusal = (if http_status = 429 then refusal_parse decode T h [] now else None)
      in update_quota_with_codex_refusal T now' idx h http_status refusal m)"

text \<open>The account half of \<open>Manager::apply_usage\<close>; the flag says that \<open>quota_known\<close> flipped.\<close>

definition account_apply_usage :: "time_lib \<Rightarrow> (nat \<Rightarrow> odt) \<Rightarrow> usage \<Rightarrow> account \<Rightarrow> bool \<times> account" where
  "account_apply_usage T clk u a =
     (let was_codex_refused = (case a_provider a of Anthropic \<Rightarrow> False | Codex \<Rightarrow> q_rejected (a_quota a));
          a1 = a\<lparr>a_quota := apply_usage T clk u (a_quota a)\<rparr>;
          a2 = (if was_codex_refused \<and> \<not> q_rejected (a_quota a1) \<and> a_hold_cause a1 = RateLimit
                then a1\<lparr>a_rate_limited_until_ms := None,
                        a_status := (if a_status a1 = Throttled then Active else a_status a1)\<rparr>
                else a1)
      in (\<not> a_quota_known a2, a2\<lparr>a_quota_known := True\<rparr>))"

definition manager_apply_usage :: "time_lib \<Rightarrow> (nat \<Rightarrow> odt) \<Rightarrow> nat \<Rightarrow> usage \<Rightarrow> manager \<Rightarrow> manager" where
  "manager_apply_usage T clk idx u = update_account idx (snd \<circ> account_apply_usage T clk u)"

definition mark_model_weekly_rejected :: "time_lib \<Rightarrow> odt \<Rightarrow> headers \<Rightarrow> account \<Rightarrow> account" where
  "mark_model_weekly_rejected T now h a = a\<lparr>a_quota := reject_model_weekly T now h (a_quota a)\<rparr>"

section \<open>Usage counters\<close>

record usage_record =
  ur_quota_input :: u64
  ur_input :: u64
  ur_cache_5m :: u64
  ur_cache_1h :: u64
  ur_cache_read :: u64
  ur_output :: u64

text \<open>\<open>u64::saturating_add\<close>.\<close>

definition saturating_add_u64 :: "u64 \<Rightarrow> u64 \<Rightarrow> u64" where
  "saturating_add_u64 a b = (if uint a + uint b < 2 ^ 64 then a + b else -1)"

definition from_quota_input :: "u64 \<Rightarrow> u64 \<Rightarrow> u64 \<Rightarrow> u64 \<Rightarrow> u64 \<Rightarrow> usage_record" where
  "from_quota_input quota_input cache_5m cache_1h cache_read output =
     (let components = saturating_add_u64 (saturating_add_u64 cache_5m cache_1h) cache_read
      in \<lparr>ur_quota_input = quota_input,
          ur_input = (if components \<le> quota_input then quota_input - components else 0),
          ur_cache_5m = cache_5m, ur_cache_1h = cache_1h, ur_cache_read = cache_read, ur_output = output\<rparr>)"

definition input_total :: "usage_record \<Rightarrow> u64" where "input_total r = ur_quota_input r"
definition cache_creation :: "usage_record \<Rightarrow> u64" where "cache_creation r = ur_cache_5m r + ur_cache_1h r"

definition record_usage :: "usage_record \<Rightarrow> account \<Rightarrow> account" where
  "record_usage r a =
     a\<lparr>a_input_tokens := a_input_tokens a + input_total r,
       a_output_tokens := a_output_tokens a + ur_output r,
       a_cache_read_tokens := a_cache_read_tokens a + ur_cache_read r,
       a_cache_creation_tokens := a_cache_creation_tokens a + cache_creation r\<rparr>"

definition update_usage :: "u64 \<Rightarrow> u64 \<Rightarrow> u64 \<Rightarrow> u64 \<Rightarrow> account \<Rightarrow> account" where
  "update_usage input_tokens output_tokens cache_read cache_written =
     record_usage (from_quota_input input_tokens cache_written 0 cache_read output_tokens)"

definition record_served :: "odt \<Rightarrow> account \<Rightarrow> account" where
  "record_served now a = a\<lparr>a_requests := a_requests a + 1, a_last_used_ms := Some (odt_to_ms now)\<rparr>"

section \<open>Holds\<close>

definition mark_rate_limited :: "i64 \<Rightarrow> i64 \<Rightarrow> account \<Rightarrow> account" where
  "mark_rate_limited now_ms seconds a =
     (let hold = clamp_int 0 MAX_RATE_LIMIT_HOLD_SECONDS seconds;
          until = i64_add now_ms (hold * 1000)
      in a\<lparr>a_status := Throttled, a_rate_limited_until_ms := Some until, a_hold_cause := RateLimit\<rparr>)"

definition mark_codex_quota_limited :: "odt \<Rightarrow> i64 \<Rightarrow> i64 \<Rightarrow> account \<Rightarrow> account" where
  "mark_codex_quota_limited now now_ms seconds a =
     (let hold = (case filter_opt (\<lambda>rs. rs > now) (refusal_reset (q_codex (a_quota a))) of
                    None \<Rightarrow> clamp_int 1 MAX_RATE_LIMIT_HOLD_SECONDS seconds
                  | Some rs \<Rightarrow> saturating_sub_i64 (unix_timestamp rs) (unix_timestamp now))
      in a\<lparr>a_status := Throttled,
           a_rate_limited_until_ms := Some (saturating_add_i64 now_ms (saturating_mul_i64 hold 1000)),
           a_hold_cause := RateLimit\<rparr>)"

definition mark_refused :: "i64 \<Rightarrow> account \<Rightarrow> account" where
  "mark_refused now_ms a =
     a\<lparr>a_rate_limited_until_ms := Some (i64_add now_ms (REFUSED_HOLD_SECONDS * 1000)), a_hold_cause := Refused\<rparr>"

definition clear_rate_limited :: "account \<Rightarrow> account" where
  "clear_rate_limited a =
     (let a1 = (if a_status a = Throttled then a\<lparr>a_status := Active, a_rate_limited_until_ms := None\<rparr>
                else if a_hold_cause a = Refused then a\<lparr>a_rate_limited_until_ms := None\<rparr>
                else a)
      in a1\<lparr>a_hold_cause := RateLimit\<rparr>)"

section \<open>Stream errors\<close>

fun drop_stale :: "i64 \<Rightarrow> i64 list \<Rightarrow> i64 list" where
  "drop_stale now_ms [] = []"
| "drop_stale now_ms (t # ts) = (if i64_sub now_ms t > STREAM_ERROR_WINDOW_MS then drop_stale now_ms ts else t # ts)"

definition prune_stream_errors :: "i64 \<Rightarrow> i64 list \<Rightarrow> i64 list" where
  "prune_stream_errors now_ms ts =
     (let live = drop_stale now_ms ts in drop (length live - STREAM_ERROR_CAP) live)"

definition stream_error_count :: "i64 list \<Rightarrow> i64 \<Rightarrow> nat" where
  "stream_error_count ts now_ms = length (filter (\<lambda>t. i64_sub now_ms t \<le> STREAM_ERROR_WINDOW_MS) ts)"

definition record_stream_error :: "i64 \<Rightarrow> string \<Rightarrow> account \<Rightarrow> account" where
  "record_stream_error now_ms kind a =
     a\<lparr>a_stream_error_times_ms := prune_stream_errors now_ms (a_stream_error_times_ms a @ [now_ms]),
       a_last_stream_error := Some kind\<rparr>"

section \<open>The in-flight guard\<close>

definition MAX_SERVES_PER_CONNECTION :: u32 where "MAX_SERVES_PER_CONNECTION = 500"

text \<open>The account half of \<open>enter_in_flight\<close>; the flag is the claimed recycle of the client.\<close>

definition account_enter :: "i64 \<Rightarrow> account \<Rightarrow> bool \<times> account" where
  "account_enter now_ms a =
     (let serves = saturating_add_u32 (a_serves_since_client_build a) 1;
          claimed = (serves \<ge> MAX_SERVES_PER_CONNECTION)
      in (claimed, a\<lparr>a_in_flight := saturating_add_u32 (a_in_flight a) 1, a_last_served_ms := now_ms,
                     a_serves_since_client_build := (if claimed then 0 else serves)\<rparr>))"

text \<open>\<open>retire_every_client_after_sleep\<close>, as far as the accounts go.\<close>

definition retire_every_client_after_sleep :: "manager \<Rightarrow> manager" where
  "retire_every_client_after_sleep m = m\<lparr>m_accounts := map (\<lambda>a. a\<lparr>a_serves_since_client_build := 0\<rparr>) (m_accounts m)\<rparr>"

definition enter_in_flight :: "bool \<Rightarrow> i64 \<Rightarrow> nat \<Rightarrow> manager \<Rightarrow> bool \<times> manager" where
  "enter_in_flight slept now_ms idx m =
     (let m1 = (if slept then retire_every_client_after_sleep m else m) in
      case get (m_accounts m1) idx of
        None \<Rightarrow> (False, m1)
      | Some a \<Rightarrow> (fst (account_enter now_ms a), update_account idx (snd \<circ> account_enter now_ms) m1))"

text \<open>The guard's \<open>Drop\<close>.\<close>

definition account_exit :: "account \<Rightarrow> account" where
  "account_exit a = a\<lparr>a_in_flight := saturating_sub_u32 (a_in_flight a) 1\<rparr>"

definition exit_in_flight :: "nat \<Rightarrow> manager \<Rightarrow> manager" where
  "exit_in_flight idx = update_account idx account_exit"

section \<open>Errors and refreshes\<close>

definition REFRESH_RETRY_COOLDOWN_MS :: i64 where "REFRESH_RETRY_COOLDOWN_MS = 2000"
definition ERROR_REPROBE_BASE_MS :: i64 where "ERROR_REPROBE_BASE_MS = 60000"
definition ERROR_REPROBE_CAP_MS :: i64 where "ERROR_REPROBE_CAP_MS = 30 * 60000"

definition grow_error_backoff :: "i64 \<Rightarrow> account \<Rightarrow> account" where
  "grow_error_backoff now_ms a =
     (let b = (if a_error_backoff_ms a = 0 then ERROR_REPROBE_BASE_MS
               else min (saturating_mul_i64 (a_error_backoff_ms a) 2) ERROR_REPROBE_CAP_MS)
      in a\<lparr>a_error_backoff_ms := b, a_error_retry_after_ms := Some (i64_add now_ms b)\<rparr>)"

definition mark_error :: "i64 \<Rightarrow> account \<Rightarrow> account" where
  "mark_error now_ms a = grow_error_backoff now_ms (a\<lparr>a_status := Error\<rparr>)"

record tokens =
  tk_access_token :: string
  tk_refresh_token :: "string option"
  tk_expires_at_ms :: i64

definition apply_refresh :: "tokens \<Rightarrow> i64 option \<Rightarrow> account \<Rightarrow> account" where
  "apply_refresh tk cooldown_after a =
     a\<lparr>a_access_token := tk_access_token tk, a_refresh_token := tk_refresh_token tk,
       a_expires_at_ms := Some (tk_expires_at_ms tk), a_refresh_retry_after_ms := cooldown_after,
       a_status := (if a_status a = Error then Active else a_status a),
       a_error_retry_after_ms := None, a_error_backoff_ms := 0, a_login_error := None\<rparr>"

text \<open>The runtime half of \<open>set_disabled\<close>; \<open>None\<close> is \<open>DisablePersist::NoSuchAccount\<close>.\<close>

definition account_set_disabled :: "bool \<Rightarrow> account \<Rightarrow> account option" where
  "account_set_disabled disabled a =
     (if a_removed a then None
      else let a1 = a\<lparr>a_disabled := disabled\<rparr> in
        Some (if \<not> disabled \<and> a_status a1 = Error
              then a1\<lparr>a_status := Active, a_rate_limited_until_ms := None\<rparr> else a1))"

section \<open>Probe health\<close>

definition PROBE_MAX_RETRY_AFTER_SECS :: nat where "PROBE_MAX_RETRY_AFTER_SECS = 7 * 24 * 60 * 60"
definition SUSTAINED_5XX_THRESHOLD :: u32 where "SUSTAINED_5XX_THRESHOLD = 3"

text \<open>The flag says that keep-warm stops waiting for evidence about this account.\<close>

definition record_probe ::
  "i64 \<Rightarrow> probe_status \<Rightarrow> string option \<Rightarrow> u64 option \<Rightarrow> account \<Rightarrow> bool \<times> account" where
  "record_probe now_ms st error retry_after_secs a =
     (let a1 = a\<lparr>a_probe_status := st, a_probe_error := error,
                 a_last_probe_ms := (if st \<noteq> PNever then Some now_ms else a_last_probe_ms a)\<rparr>
      in case st of
           POk \<Rightarrow> (False, a1\<lparr>a_probe_failures := 0, a_probe_retry_after_ms := None\<rparr>)
         | PNever \<Rightarrow> (False, a1)
         | _ \<Rightarrow>
             let failures = saturating_add_u32 (a_probe_failures a1) 1;
                 retry = (case (st, retry_after_secs) of
                            (PRateLimited, Some s) \<Rightarrow>
                              Some (saturating_add_i64 now_ms (min (uint s) (int PROBE_MAX_RETRY_AFTER_SECS) * 1000))
                          | _ \<Rightarrow> a_probe_retry_after_ms a1)
             in (\<not> a_quota_known a1 \<and> failures = PROBE_FAILURES_BEFORE_WARMING_UNPROBED,
                 a1\<lparr>a_probe_failures := failures, a_probe_retry_after_ms := retry\<rparr>))"

definition note_5xx_probe :: "bool \<Rightarrow> account \<Rightarrow> u32 \<times> account" where
  "note_5xx_probe is_5xx a =
     (let n = (if is_5xx then saturating_add_u32 (a_5xx_probes a) 1 else 0) in (n, a\<lparr>a_5xx_probes := n\<rparr>))"

text \<open>What a failed probe is called: its HTTP status, whether its message reads as a timeout, and the
  run of 5xx reads it ends.\<close>

definition probe_failure_status :: "nat option \<Rightarrow> bool \<Rightarrow> u32 \<Rightarrow> probe_status" where
  "probe_failure_status http is_timeout consecutive_5xx =
     (case http of
        Some s \<Rightarrow>
          if s = 429 then PRateLimited
          else if 500 \<le> s \<and> s \<le> 599
            then (if consecutive_5xx \<ge> SUSTAINED_5XX_THRESHOLD then PUpstreamDown else PRateLimited)
          else PError
      | None \<Rightarrow> if is_timeout then PTimeout else PError)"

definition probe_failed :: "i64 \<Rightarrow> nat option \<Rightarrow> bool \<Rightarrow> string \<Rightarrow> u64 option \<Rightarrow> account \<Rightarrow> account" where
  "probe_failed now_ms http is_timeout message retry_after_secs a =
     (let is_5xx = is_some_and http (\<lambda>s. 500 \<le> s \<and> s \<le> 599);
          (n, a1) = note_5xx_probe is_5xx a
      in snd (record_probe now_ms (probe_failure_status http is_timeout n) (Some message) retry_after_secs a1))"

definition probe_succeeded :: "time_lib \<Rightarrow> (nat \<Rightarrow> odt) \<Rightarrow> i64 \<Rightarrow> usage \<Rightarrow> account \<Rightarrow> account" where
  "probe_succeeded T clk now_ms u a =
     snd (record_probe now_ms POk None None (snd (note_5xx_probe False (snd (account_apply_usage T clk u a)))))"

definition probeable :: "i64 \<Rightarrow> nat option \<Rightarrow> nat \<Rightarrow> account \<Rightarrow> bool" where
  "probeable now_ms ctl idx a \<longleftrightarrow>
     is_oauth (a_type a) \<and> a_refresh_token a \<noteq> None \<and>
     (\<not> a_disabled a \<or> ctl = Some idx) \<and>
     (a_status a \<noteq> Error \<or> cooldown_elapsed (a_error_retry_after_ms a) now_ms) \<and>
     is_none_or (a_probe_retry_after_ms a) (\<lambda>until. now_ms \<ge> until)"

definition probeable_indices :: "i64 \<Rightarrow> manager \<Rightarrow> nat list" where
  "probeable_indices now_ms m =
     filter (\<lambda>i. probeable now_ms (m_control_idx m) i (m_accounts m ! i)) [0..<length (m_accounts m)]"

section \<open>Keep-warm\<close>

definition rearm_warm_evidence_cooldown_if_excluded :: "i64 \<Rightarrow> account \<Rightarrow> account" where
  "rearm_warm_evidence_cooldown_if_excluded now_ms a =
     (if a_warms_without_evidence a \<ge> WARM_ATTEMPTS_WITHOUT_EVIDENCE_LIMIT
      then a\<lparr>a_warm_evidence_retry_after_ms := Some (i64_add now_ms WARM_EVIDENCE_RETRY_COOLDOWN_MS)\<rparr>
      else a)"

definition record_warm_without_evidence :: "i64 \<Rightarrow> account \<Rightarrow> bool \<times> account" where
  "record_warm_without_evidence now_ms a =
     (let n = saturating_add_u32 (a_warms_without_evidence a) 1
      in (n = WARM_ATTEMPTS_WITHOUT_EVIDENCE_LIMIT,
          rearm_warm_evidence_cooldown_if_excluded now_ms (a\<lparr>a_warms_without_evidence := n\<rparr>)))"

definition record_warm_failure :: "i64 \<Rightarrow> account \<Rightarrow> account" where
  "record_warm_failure now_ms a = rearm_warm_evidence_cooldown_if_excluded now_ms a"

definition warm_target :: "f64 \<Rightarrow> bool \<Rightarrow> odt \<Rightarrow> i64 \<Rightarrow> account \<Rightarrow> bool" where
  "warm_target global_threshold awaiting_first_probe now now_ms a \<longleftrightarrow>
     a_provider a = Anthropic \<and>
     is_oauth (a_type a) \<and> a_refresh_token a \<noteq> None \<and> \<not> a_disabled a \<and>
     a_status a \<noteq> Error \<and> a_status a \<noteq> Throttled \<and>
     (\<not> awaiting_first_probe \<or> a_quota_known a \<or> a_probe_failures a \<ge> PROBE_FAILURES_BEFORE_WARMING_UNPROBED) \<and>
     Option.bind (five_hour (a_quota a)) (\<lambda>w. live_reset w now) = None \<and>
     \<not> is_near (a_quota a) (unwrap_or (a_switch_threshold a) global_threshold) now \<and>
     (a_warms_without_evidence a < WARM_ATTEMPTS_WITHOUT_EVIDENCE_LIMIT \<or>
      cooldown_elapsed (a_warm_evidence_retry_after_ms a) now_ms)"

definition warm_targets :: "nat \<Rightarrow> odt \<Rightarrow> i64 \<Rightarrow> manager \<Rightarrow> nat list" where
  "warm_targets probe_interval_seconds now now_ms m =
     filter (\<lambda>i. warm_target (m_global_threshold m) (probe_interval_seconds > 0) now now_ms (m_accounts m ! i))
       [0..<length (m_accounts m)]"

text \<open>A keep-warm request to one account: the headers of a 2xx, or a failure.\<close>

definition warm_account ::
  "time_lib \<Rightarrow> odt \<Rightarrow> i64 \<Rightarrow> headers option \<Rightarrow> account \<Rightarrow> account" where
  "warm_account T now now_ms outcome a =
     (case outcome of
        None \<Rightarrow> record_warm_failure now_ms a
      | Some h \<Rightarrow>
          let (read, a1) = fold_quota T now h 200 None a
          in if read then a1 else snd (record_warm_without_evidence now_ms a1))"

end
