(* ===== verification/Account_Props.thy ===== *)
theory Account_Props
  imports Account_Ops
begin

text \<open>
  The life of an account: every operation of \<^verbatim>\<open>usage.rs\<close>, the in-flight guard, the refresh and probe
  bookkeeping and keep-warm, in any order. The invariants hold of every history, and the counters,
  holds and backoffs say what they mean.
\<close>

section \<open>Histories\<close>

datatype account_op =
    Response odt headers nat "codex_quota_refusal option"
  | Probed "nat \<Rightarrow> odt" i64 usage
  | Probe_Failed i64 "nat option" bool string "u64 option"
  | Model_Weekly odt headers
  | Used usage_record
  | Served_Request odt
  | Rate_Limited i64 i64
  | Codex_Limited odt i64 i64
  | Refused_403 i64
  | Cleared
  | Stream_Failed i64 string
  | Enter i64
  | Exit
  | Auth_Rejected i64
  | Refreshed tokens "i64 option"
  | Set_Disabled bool
  | Warmed odt i64 "headers option"

fun account_do :: "time_lib \<Rightarrow> account_op \<Rightarrow> account \<Rightarrow> account" where
  "account_do T (Response now h st refusal) a = snd (fold_quota T now h st refusal a)"
| "account_do T (Probed clk now_ms u) a = probe_succeeded T clk now_ms u a"
| "account_do T (Probe_Failed now_ms http is_timeout msg retry) a = probe_failed now_ms http is_timeout msg retry a"
| "account_do T (Model_Weekly now h) a = mark_model_weekly_rejected T now h a"
| "account_do T (Used r) a = record_usage r a"
| "account_do T (Served_Request now) a = record_served now a"
| "account_do T (Rate_Limited now_ms secs) a = mark_rate_limited now_ms secs a"
| "account_do T (Codex_Limited now now_ms secs) a = mark_codex_quota_limited now now_ms secs a"
| "account_do T (Refused_403 now_ms) a = mark_refused now_ms a"
| "account_do T Cleared a = clear_rate_limited a"
| "account_do T (Stream_Failed now_ms kind) a = record_stream_error now_ms kind a"
| "account_do T (Enter now_ms) a = snd (account_enter now_ms a)"
| "account_do T Exit a = account_exit a"
| "account_do T (Auth_Rejected now_ms) a = mark_error now_ms a"
| "account_do T (Refreshed tk cooldown) a = apply_refresh tk cooldown a"
| "account_do T (Set_Disabled d) a = unwrap_or (account_set_disabled d a) a"
| "account_do T (Warmed now now_ms outcome) a = warm_account T now now_ms outcome a"

definition account_run :: "time_lib \<Rightarrow> account_op list \<Rightarrow> account \<Rightarrow> account" where
  "account_run T ops a = fold (account_do T) ops a"

text \<open>The clock readings of an operation are sane: at or after the epoch, and far from the end of
  the 64-bit range.\<close>

definition sane_ms :: "i64 \<Rightarrow> bool" where
  "sane_ms t \<longleftrightarrow> 0 \<le> t \<and> t + 3600000 \<le> i64_max"

fun op_ok :: "account_op \<Rightarrow> bool" where
  "op_ok (Rate_Limited now_ms secs) = sane_ms now_ms"
| "op_ok (Codex_Limited now now_ms secs) \<longleftrightarrow> sane_ms now_ms"
| "op_ok (Refused_403 now_ms) = sane_ms now_ms"
| "op_ok _ = True"

section \<open>The invariant\<close>

definition account_ok :: "account \<Rightarrow> bool" where
  "account_ok a \<longleftrightarrow> hold_ok a \<and> length (a_stream_error_times_ms a) \<le> STREAM_ERROR_CAP \<and>
     (a_error_backoff_ms a = 0 \<or> ERROR_REPROBE_BASE_MS \<le> a_error_backoff_ms a \<and> a_error_backoff_ms a \<le> ERROR_REPROBE_CAP_MS) \<and>
     (a_removed a \<longrightarrow> a_disabled a) \<and> a_serves_since_client_build a < MAX_SERVES_PER_CONNECTION"

text \<open>What the operations that do not hold, fail, serve or bench an account leave alone.\<close>

definition core :: "account \<Rightarrow> (i64 option \<times> i64 list) \<times> (i64 \<times> bool \<times> bool) \<times> u32" where
  "core a = ((a_rate_limited_until_ms a, a_stream_error_times_ms a), (a_error_backoff_ms a, a_removed a, a_disabled a),
     a_serves_since_client_build a)"

lemma account_ok_core: "core a = core b \<Longrightarrow> account_ok a = account_ok b"
  by (simp add: account_ok_def core_def hold_ok_def)

lemma core_fold_quota [simp]: "core (snd (fold_quota T now h st refusal a)) = core a"
  by (auto simp: fold_quota_def core_def Let_def split: prod.splits)

lemma core_probe_failed [simp]: "core (probe_failed t http tmo msg retry a) = core a"
  by (auto simp: probe_failed_def note_5xx_probe_def record_probe_def core_def Let_def split: probe_status.splits)

lemma core_simple [simp]:
  "core (mark_model_weekly_rejected T now h a) = core a" "core (record_usage r a) = core a"
  "core (record_served now a) = core a" "core (account_exit a) = core a"
  by (simp_all add: mark_model_weekly_rejected_def record_usage_def record_served_def account_exit_def core_def)

lemma core_rearm [simp]: "core (rearm_warm_evidence_cooldown_if_excluded t a) = core a"
  by (simp add: rearm_warm_evidence_cooldown_if_excluded_def core_def)

lemma core_warm [simp]: "core (warm_account T now t outcome a) = core a"
proof (cases outcome)
  case (Some h)
  obtain read a1 where f: "fold_quota T now h 200 None a = (read, a1)" by force
  then have "core a1 = core a" using core_fold_quota [of T now h 200 None a] by simp
  moreover have "core (a1\<lparr>a_warms_without_evidence := n\<rparr>) = core a1" for n by (simp add: core_def)
  ultimately show ?thesis using Some f
    by (simp add: warm_account_def record_warm_without_evidence_def Let_def)
qed (simp add: warm_account_def record_warm_failure_def)

lemma apply_usage_core:
  "snd (core (snd (account_apply_usage T clk u a))) = snd (core a) \<and>
   a_stream_error_times_ms (snd (account_apply_usage T clk u a)) = a_stream_error_times_ms a \<and>
   (a_rate_limited_until_ms (snd (account_apply_usage T clk u a)) = a_rate_limited_until_ms a \<or>
    a_rate_limited_until_ms (snd (account_apply_usage T clk u a)) = None)"
  by (auto simp: account_apply_usage_def core_def Let_def)

lemma account_ok_probed:
  assumes "account_ok a"
  shows "account_ok (probe_succeeded T clk t u a)"
proof -
  have "core (probe_succeeded T clk t u a) = core (snd (account_apply_usage T clk u a))"
    by (simp add: probe_succeeded_def note_5xx_probe_def record_probe_def core_def Let_def)
  moreover have "account_ok (snd (account_apply_usage T clk u a))"
    using assms apply_usage_core [of T clk u a] by (auto simp: account_ok_def core_def hold_ok_def)
  ultimately show ?thesis using account_ok_core by blast
qed

lemma account_ok_held:
  assumes "account_ok a" and "0 \<le> u" and "in_i64 u" and "a_rate_limited_until_ms a' = Some u"
    and "snd (core a') = snd (core a)" and "a_stream_error_times_ms a' = a_stream_error_times_ms a"
  shows "account_ok a'"
  using assms by (auto simp: account_ok_def core_def hold_ok_def)

lemma hold_until:
  assumes "sane_ms t" and "0 \<le> d" and "d \<le> 3600000"
  shows "i64_add t d = t + d" "in_i64 (t + d)"
  using assms by (simp_all add: i64_add_small in_i64_def sane_ms_def i64_min_def)

lemma account_ok_rate_limited:
  assumes "account_ok a" and "sane_ms t"
  shows "account_ok (mark_rate_limited t secs a)"
proof (rule account_ok_held [OF assms(1)])
  let ?d = "clamp_int 0 MAX_RATE_LIMIT_HOLD_SECONDS secs * 1000"
  have d: "0 \<le> ?d" "?d \<le> 3600000" by (auto simp: clamp_int_def MAX_RATE_LIMIT_HOLD_SECONDS_def)
  show "a_rate_limited_until_ms (mark_rate_limited t secs a) = Some (t + ?d)"
    by (simp add: mark_rate_limited_def Let_def hold_until [OF assms(2) d])
  show "in_i64 (t + ?d)" using hold_until [OF assms(2) d] by simp
  show "0 \<le> t + ?d" using d assms(2) by (simp add: sane_ms_def)
qed (simp_all add: mark_rate_limited_def Let_def core_def)

lemma account_ok_codex_limited:
  assumes "account_ok a" and "sane_ms t"
  shows "account_ok (mark_codex_quota_limited now t secs a)"
proof -
  define hold where "hold = (case filter_opt (\<lambda>rs. rs > now) (refusal_reset (q_codex (a_quota a))) of
      None \<Rightarrow> clamp_int 1 MAX_RATE_LIMIT_HOLD_SECONDS secs
    | Some rs \<Rightarrow> saturating_sub_i64 (unix_timestamp rs) (unix_timestamp now))"
  have "0 \<le> hold"
    by (auto simp: hold_def filter_opt_def clamp_int_def saturating_sub_i64_def sat64_def unix_timestamp_def
        MAX_RATE_LIMIT_HOLD_SECONDS_def i64_max_def zdiv_mono1 ns_per_sec_def split: option.splits)
  then have "0 \<le> saturating_mul_i64 hold 1000"
    by (simp add: saturating_mul_i64_def sat64_def i64_max_def)
  then have "0 \<le> saturating_add_i64 t (saturating_mul_i64 hold 1000)"
    using assms(2) by (auto simp: saturating_add_i64_def sat64_def i64_max_def sane_ms_def le_max_iff_disj)
  moreover have "a_rate_limited_until_ms (mark_codex_quota_limited now t secs a) =
      Some (saturating_add_i64 t (saturating_mul_i64 hold 1000))"
    by (simp add: mark_codex_quota_limited_def Let_def hold_def)
  moreover have "in_i64 (saturating_add_i64 t (saturating_mul_i64 hold 1000))" by (simp add: saturating_add_i64_def)
  ultimately show ?thesis
    by (intro account_ok_held [OF assms(1)]) (simp_all add: mark_codex_quota_limited_def Let_def core_def)
qed

lemma account_ok_refused:
  assumes "account_ok a" and "sane_ms t"
  shows "account_ok (mark_refused t a)"
proof (rule account_ok_held [OF assms(1)])
  let ?d = "REFUSED_HOLD_SECONDS * 1000"
  have d: "0 \<le> ?d" "?d \<le> 3600000" by (simp_all add: REFUSED_HOLD_SECONDS_def)
  show "a_rate_limited_until_ms (mark_refused t a) = Some (t + ?d)"
    by (simp add: mark_refused_def hold_until [OF assms(2) d])
  show "in_i64 (t + ?d)" using hold_until [OF assms(2) d] by simp
  show "0 \<le> t + ?d" using d assms(2) by (simp add: sane_ms_def)
qed (simp_all add: mark_refused_def core_def)

lemma account_ok_stream: "account_ok a \<Longrightarrow> account_ok (record_stream_error t kind a)"
  by (simp add: account_ok_def record_stream_error_def prune_stream_errors_def Let_def hold_ok_def)

lemma account_ok_enter: "account_ok a \<Longrightarrow> account_ok (snd (account_enter t a))"
  by (auto simp: account_ok_def account_enter_def Let_def hold_ok_def MAX_SERVES_PER_CONNECTION_def not_le)

lemma account_ok_error:
  assumes "account_ok a"
  shows "account_ok (mark_error t a)"
proof -
  have "ERROR_REPROBE_BASE_MS \<le> a_error_backoff_ms (mark_error t a) \<and> a_error_backoff_ms (mark_error t a) \<le> ERROR_REPROBE_CAP_MS"
    using assms by (auto simp: account_ok_def mark_error_def grow_error_backoff_def Let_def ERROR_REPROBE_BASE_MS_def
        ERROR_REPROBE_CAP_MS_def saturating_mul_i64_def sat64_def i64_max_def i64_min_def)
  then show ?thesis using assms
    by (simp add: account_ok_def mark_error_def grow_error_backoff_def Let_def hold_ok_def)
qed

lemma account_ok_do:
  assumes "account_ok a" and "op_ok opn"
  shows "account_ok (account_do T opn a)"
proof (cases opn)
  case Cleared
  then show ?thesis using assms by (auto simp: account_ok_def clear_rate_limited_def Let_def hold_ok_def)
next
  case (Refreshed tk c)
  then show ?thesis using assms by (simp add: account_ok_def apply_refresh_def hold_ok_def)
next
  case (Set_Disabled d)
  then show ?thesis using assms by (auto simp: account_ok_def account_set_disabled_def Let_def hold_ok_def)
qed (use assms account_ok_core [OF core_fold_quota] account_ok_core [OF core_probe_failed] account_ok_core [OF core_warm]
      account_ok_core [OF core_simple(1)] account_ok_core [OF core_simple(2)] account_ok_core [OF core_simple(3)]
      account_ok_core [OF core_simple(4)] in
    \<open>simp_all add: account_ok_probed account_ok_rate_limited account_ok_codex_limited account_ok_refused account_ok_stream
      account_ok_enter account_ok_error\<close>)

lemma account_ok_run: "list_all op_ok ops \<Longrightarrow> account_ok a \<Longrightarrow> account_ok (account_run T ops a)"
  by (induction ops arbitrary: a) (simp_all add: account_run_def account_ok_do)

section \<open>In-flight accounting\<close>

definition enters :: "account_op list \<Rightarrow> nat" where
  "enters ops = length (filter (\<lambda>x. case x of Enter _ \<Rightarrow> True | _ \<Rightarrow> False) ops)"

definition exits :: "account_op list \<Rightarrow> nat" where
  "exits ops = length (filter (\<lambda>x. case x of Exit \<Rightarrow> True | _ \<Rightarrow> False) ops)"

text \<open>Every exit is the drop of a guard taken before.\<close>

definition guarded :: "account_op list \<Rightarrow> bool" where
  "guarded ops \<longleftrightarrow> (\<forall>n\<le>length ops. exits (take n ops) \<le> enters (take n ops))"

lemma enters_snoc: "enters (ops @ [x]) = enters ops + (case x of Enter _ \<Rightarrow> 1 | _ \<Rightarrow> 0)"
  by (simp add: enters_def split: account_op.split)

lemma exits_snoc: "exits (ops @ [x]) = exits ops + (case x of Exit \<Rightarrow> 1 | _ \<Rightarrow> 0)"
  by (simp add: exits_def split: account_op.split)

lemma guarded_snoc: "guarded (ops @ [x]) \<longleftrightarrow> guarded ops \<and> exits (ops @ [x]) \<le> enters (ops @ [x])"
proof
  assume g: "guarded (ops @ [x])"
  have "exits (take n ops) \<le> enters (take n ops)" if "n \<le> length ops" for n
    using g that by (auto simp: guarded_def dest: spec [of _ n])
  moreover have "exits (ops @ [x]) \<le> enters (ops @ [x])"
    using g by (auto simp: guarded_def dest: spec [of _ "Suc (length ops)"])
  ultimately show "guarded ops \<and> exits (ops @ [x]) \<le> enters (ops @ [x])" by (simp add: guarded_def)
qed (auto simp: guarded_def le_Suc_eq)

lemma account_run_snoc: "account_run T (ops @ [x]) a = account_do T x (account_run T ops a)"
  by (simp add: account_run_def)

text \<open>The serve counters, which only the guard moves.\<close>

definition load :: "account \<Rightarrow> u32 \<times> u32" where
  "load a = (a_in_flight a, a_serves_since_client_build a)"

lemma load_fold_quota [simp]: "load (snd (fold_quota T now h st refusal a)) = load a"
  by (auto simp: fold_quota_def load_def Let_def split: prod.splits)

lemma load_probes [simp]:
  "load (probe_failed t http tmo msg retry a) = load a" "load (probe_succeeded T clk t u a) = load a"
  by (auto simp: probe_failed_def probe_succeeded_def account_apply_usage_def note_5xx_probe_def record_probe_def load_def Let_def
      split: probe_status.splits)

lemma load_simple [simp]:
  "load (mark_model_weekly_rejected T now h a) = load a" "load (record_usage r a) = load a"
  "load (record_served now a) = load a" "load (mark_rate_limited t secs a) = load a"
  "load (mark_codex_quota_limited now t secs a) = load a" "load (mark_refused t a) = load a"
  "load (clear_rate_limited a) = load a" "load (record_stream_error t kind a) = load a"
  "load (mark_error t a) = load a" "load (apply_refresh tk c a) = load a"
  "load (unwrap_or (account_set_disabled d a) a) = load a" "load (rearm_warm_evidence_cooldown_if_excluded t a) = load a"
  "load (a\<lparr>a_warms_without_evidence := n\<rparr>) = load a"
  by (simp_all add: load_def mark_model_weekly_rejected_def record_usage_def record_served_def mark_rate_limited_def
      mark_codex_quota_limited_def mark_refused_def clear_rate_limited_def record_stream_error_def mark_error_def
      grow_error_backoff_def apply_refresh_def account_set_disabled_def rearm_warm_evidence_cooldown_if_excluded_def Let_def)

lemma load_warm [simp]: "load (warm_account T now t outcome a) = load a"
proof (cases outcome)
  case (Some h)
  obtain read a1 where "fold_quota T now h 200 None a = (read, a1)" by force
  with Some load_fold_quota [of T now h 200 None a] show ?thesis
    by (simp add: warm_account_def record_warm_without_evidence_def Let_def)
qed (simp add: warm_account_def record_warm_failure_def)

lemma load_do: "(case x of Enter _ \<Rightarrow> False | Exit \<Rightarrow> False | _ \<Rightarrow> True) \<Longrightarrow> load (account_do T x a) = load a"
  by (cases x) simp_all

lemma in_flight_do:
  "a_in_flight (account_do T x a) = (case x of
      Enter _ \<Rightarrow> saturating_add_u32 (a_in_flight a) 1
    | Exit \<Rightarrow> saturating_sub_u32 (a_in_flight a) 1
    | _ \<Rightarrow> a_in_flight a)"
  using load_do [of x T a]
  by (cases x) (simp_all add: load_def account_enter_def account_exit_def Let_def)

lemma serves_do:
  "a_serves_since_client_build (account_do T x a) = (case x of
      Enter t \<Rightarrow> a_serves_since_client_build (snd (account_enter t a))
    | _ \<Rightarrow> a_serves_since_client_build a)"
  using load_do [of x T a] by (cases x) (simp_all add: load_def account_exit_def)

lemma in_flight_run:
  assumes "guarded ops" and "enters ops < 2 ^ 32" and "a_in_flight a = 0"
  shows "unat (a_in_flight (account_run T ops a)) = enters ops - exits ops"
  using assms
proof (induction ops rule: rev_induct)
  case (snoc x ops)
  have le: "enters ops \<le> enters (ops @ [x])" by (simp add: enters_snoc)
  then have IH: "unat (a_in_flight (account_run T ops a)) = enters ops - exits ops"
    using snoc by (simp add: guarded_snoc)
  have bal: "exits ops \<le> enters ops" using snoc.prems(1) by (auto simp: guarded_snoc guarded_def dest: spec [of _ "length ops"])
  have g: "exits (ops @ [x]) \<le> enters (ops @ [x])" using snoc.prems(1) by (simp add: guarded_snoc)
  show ?case
    unfolding account_run_snoc in_flight_do
    using g IH bal snoc.prems(2)
    by (cases x) (simp_all add: enters_snoc exits_snoc unat_saturating_add_u32 unat_saturating_sub_u32)
qed (simp add: account_run_def enters_def exits_def)

text \<open>How many of a history's serves claimed a fresh client.\<close>

fun claims :: "time_lib \<Rightarrow> account_op list \<Rightarrow> account \<Rightarrow> nat" where
  "claims T [] a = 0"
| "claims T (x # xs) a =
     (case x of Enter t \<Rightarrow> if fst (account_enter t a) then 1 else 0 | _ \<Rightarrow> 0) + claims T xs (account_do T x a)"

lemma enters_Cons: "enters (x # xs) = (case x of Enter _ \<Rightarrow> 1 | _ \<Rightarrow> 0) + enters xs"
  by (simp add: enters_def split: account_op.split)

lemma account_enter_serves:
  assumes "a_serves_since_client_build a < MAX_SERVES_PER_CONNECTION"
  shows "fst (account_enter t a) \<longleftrightarrow> unat (a_serves_since_client_build a) = 499"
    and "unat (a_serves_since_client_build (snd (account_enter t a))) = (unat (a_serves_since_client_build a) + 1) mod 500"
proof -
  let ?s = "a_serves_since_client_build a"
  have lt: "unat ?s < 500" using assms by (simp add: MAX_SERVES_PER_CONNECTION_def word_less_nat_alt)
  then have s: "unat (saturating_add_u32 ?s 1) = unat ?s + 1" by (simp add: unat_saturating_add_u32)
  have c: "MAX_SERVES_PER_CONNECTION \<le> saturating_add_u32 ?s 1 \<longleftrightarrow> unat ?s = 499"
    using lt s by (simp add: MAX_SERVES_PER_CONNECTION_def word_le_nat_alt) arith
  then show "fst (account_enter t a) \<longleftrightarrow> unat ?s = 499" by (simp add: account_enter_def Let_def)
  show "unat (a_serves_since_client_build (snd (account_enter t a))) = (unat ?s + 1) mod 500"
    using c s lt by (auto simp: account_enter_def Let_def)
qed

lemma claims_run:
  assumes "a_serves_since_client_build a < MAX_SERVES_PER_CONNECTION"
  shows "claims T ops a = (unat (a_serves_since_client_build a) + enters ops) div 500"
  using assms
proof (induction ops arbitrary: a)
  case (Cons x ops)
  show ?case
  proof (cases "\<exists>t. x = Enter t")
    case True
    then obtain t where x: "x = Enter t" by blast
    let ?s = "unat (a_serves_since_client_build a)"
    have lt: "?s < 500" using Cons.prems by (simp add: MAX_SERVES_PER_CONNECTION_def word_less_nat_alt)
    have "unat (a_serves_since_client_build (snd (account_enter t a))) < 500"
      by (simp add: account_enter_serves(2) [OF Cons.prems])
    then have "a_serves_since_client_build (snd (account_enter t a)) < MAX_SERVES_PER_CONNECTION"
      by (simp add: MAX_SERVES_PER_CONNECTION_def word_less_nat_alt)
    from Cons.IH [OF this] have "claims T ops (snd (account_enter t a)) = ((?s + 1) mod 500 + enters ops) div 500"
      by (simp add: account_enter_serves(2) [OF Cons.prems])
    then show ?thesis using lt by (simp add: x enters_Cons account_enter_serves(1) [OF Cons.prems])
  next
    case False
    then have "a_serves_since_client_build (account_do T x a) = a_serves_since_client_build a"
      unfolding serves_do by (cases x) auto
    with Cons.IH [of "account_do T x a"] Cons.prems False show ?thesis
      by (cases x) (simp_all add: enters_Cons)
  qed
qed (simp add: enters_def MAX_SERVES_PER_CONNECTION_def word_less_nat_alt)

text \<open>
  In-flight accounting is exact. In every history in which an exit is the drop of a guard taken
  before, whatever else happens in between, the account's in-flight count is the number of guards still
  alive, and the client is replaced exactly once per 500 serves.
\<close>

theorem in_flight_balances:
  assumes "guarded ops" and "enters ops < 2 ^ 32"
  shows "unat (a_in_flight (account_run T ops (fresh_account name p))) = enters ops - exits ops \<and>
    claims T ops (fresh_account name p) = enters ops div 500"
  using in_flight_run [OF assms, of "fresh_account name p" T] claims_run [of "fresh_account name p" T ops]
  by (simp add: fresh_account_def MAX_SERVES_PER_CONNECTION_def)

theorem in_flight_balances_witness:
  "unat (a_in_flight (account_run sample_time [Enter 1, Enter 2, Rate_Limited 3 15, Exit, Enter 4]
     (fresh_account ''a'' Anthropic))) = 2"
proof -
  have "guarded [Enter 1, Enter 2, Rate_Limited 3 15, Exit, Enter 4]"
    by (auto simp: guarded_def enters_def exits_def le_Suc_eq)
  from in_flight_balances [OF this, of sample_time "''a''" Anthropic] show ?thesis
    by (simp add: enters_def exits_def)
qed

section \<open>Holds\<close>

text \<open>When an operation arms a transient hold, the clock it reads.\<close>

fun arms_at :: "account_op \<Rightarrow> i64 option" where
  "arms_at (Rate_Limited now_ms secs) = Some now_ms"
| "arms_at (Refused_403 now_ms) = Some now_ms"
| "arms_at _ = None"

fun is_codex_limit :: "account_op \<Rightarrow> bool" where
  "is_codex_limit (Codex_Limited now now_ms secs) = True"
| "is_codex_limit _ = False"

lemma until_core: "core b = core a \<Longrightarrow> a_rate_limited_until_ms b = a_rate_limited_until_ms a"
  by (simp add: core_def)

lemma until_do:
  assumes "\<not> is_codex_limit x" and "op_ok x" and "\<forall>s. arms_at x = Some s \<longrightarrow> s \<le> t"
  shows "a_rate_limited_until_ms (account_do T x a) = a_rate_limited_until_ms a \<or>
    a_rate_limited_until_ms (account_do T x a) = None \<or>
    (\<exists>u\<le>t + 3600000. a_rate_limited_until_ms (account_do T x a) = Some u)"
proof (cases x)
  case (Rate_Limited s secs)
  let ?d = "clamp_int 0 MAX_RATE_LIMIT_HOLD_SECONDS secs * 1000"
  have d: "0 \<le> ?d" "?d \<le> 3600000" by (auto simp: clamp_int_def MAX_RATE_LIMIT_HOLD_SECONDS_def)
  have "sane_ms s" "s \<le> t" using assms Rate_Limited by simp_all
  then show ?thesis using d
    by (simp add: Rate_Limited mark_rate_limited_def Let_def hold_until [OF _ d])
next
  case (Refused_403 s)
  then show ?thesis using assms hold_until [of s 120000]
    by (simp add: mark_refused_def REFUSED_HOLD_SECONDS_def)
next
  case (Probed clk s u)
  then show ?thesis using apply_usage_core [of T clk u a]
    by (simp add: probe_succeeded_def note_5xx_probe_def record_probe_def Let_def) metis
next
  case Cleared
  then show ?thesis by (simp add: clear_rate_limited_def Let_def)
next
  case (Set_Disabled d)
  then show ?thesis by (simp add: account_set_disabled_def Let_def)
qed (use assms until_core [OF core_fold_quota] until_core [OF core_probe_failed] until_core [OF core_warm]
      until_core [OF core_simple(1)] until_core [OF core_simple(2)] until_core [OF core_simple(3)] until_core [OF core_simple(4)] in
    \<open>simp_all add: record_stream_error_def account_enter_def mark_error_def grow_error_backoff_def apply_refresh_def Let_def\<close>)

lemma until_run:
  assumes "\<forall>x\<in>set ops. \<not> is_codex_limit x \<and> op_ok x \<and> (\<forall>s. arms_at x = Some s \<longrightarrow> s \<le> t)"
    and "is_none_or (a_rate_limited_until_ms a) (\<lambda>u. u \<le> t + 3600000)"
  shows "is_none_or (a_rate_limited_until_ms (account_run T ops a)) (\<lambda>u. u \<le> t + 3600000)"
  using assms
proof (induction ops arbitrary: a)
  case (Cons x ops)
  have "is_none_or (a_rate_limited_until_ms (account_do T x a)) (\<lambda>u. u \<le> t + 3600000)"
    using until_do [of x t T a] Cons.prems by (auto simp: is_none_or_def split: option.splits)
  with Cons.IH [of "account_do T x a"] Cons.prems(1) show ?case by (simp add: account_run_def)
qed (simp add: account_run_def)

text \<open>
  A transient hold ends. Whatever upstream asked for and whatever else happened, an hour after the
  last 429 or 403 the account carries no live hold; only a measured Codex quota deadline may hold it
  longer.
\<close>

theorem transient_hold_ends:
  assumes "\<forall>x\<in>set ops. \<not> is_codex_limit x \<and> op_ok x \<and> (\<forall>s. arms_at x = Some s \<longrightarrow> s \<le> t)"
    and "t + 3600000 \<le> now_ms"
  shows "\<not> live_hold (account_run T ops (fresh_account name p)) now_ms"
  using until_run [OF assms(1), of "fresh_account name p" T] assms(2)
  by (auto simp: live_hold_def is_some_and_def is_none_or_def fresh_account_def split: option.splits)

theorem transient_hold_ends_witness:
  "\<not> live_hold (account_run sample_time [Rate_Limited 1000 604800, Stream_Failed 2000 ''overloaded_error'']
     (fresh_account ''a'' Anthropic)) 3601000"
  by (rule transient_hold_ends [where t = 1000]) (auto simp: sane_ms_def i64_max_def)

text \<open>A rate limit that lands on a dead account takes its \<open>Error\<close> away, and the next answer makes it
  active again without any refresh.\<close>

theorem rate_limit_revives_dead_account:
  "a_status (mark_error t a) = Error \<and>
   a_status (clear_rate_limited (mark_rate_limited t' secs (mark_error t a))) = Active"
  by (simp add: mark_error_def grow_error_backoff_def mark_rate_limited_def clear_rate_limited_def Let_def)

section \<open>The error backoff\<close>

lemma backoff_run:
  assumes "a_error_backoff_ms a = 0"
  shows "a_error_backoff_ms (fold mark_error (ts @ [t]) a) = min (60000 * 2 ^ length ts) 1800000"
proof (induction ts arbitrary: t rule: rev_induct)
  case Nil
  then show ?case
    using assms by (simp add: mark_error_def grow_error_backoff_def ERROR_REPROBE_BASE_MS_def Let_def)
next
  case (snoc s ts)
  let ?b = "a_error_backoff_ms (fold mark_error (ts @ [s]) a)"
  have b: "?b = min (60000 * 2 ^ length ts) 1800000" by (rule snoc)
  then have "?b \<noteq> 0" "?b \<le> 1800000" "0 \<le> ?b" by (auto simp: min_def)
  then have "a_error_backoff_ms (fold mark_error ((ts @ [s]) @ [t]) a) = min (?b * 2) 1800000"
    by (simp add: mark_error_def grow_error_backoff_def Let_def saturating_mul_i64_def sat64_def
        ERROR_REPROBE_CAP_MS_def i64_max_def i64_min_def)
  also have "\<dots> = min (60000 * 2 ^ length (ts @ [s])) 1800000" unfolding b by (auto simp: min_def)
  finally show ?case .
qed

text \<open>
  A dead credential is retried ever more rarely. After \<open>n + 1\<close> rejections in a row the account is
  in error and not probed again before the last rejection plus \<open>min (2\<^sup>n minutes) (30 minutes)\<close>; a
  refresh that succeeds makes it active and probeable at once.
\<close>

theorem rejected_credential_backs_off:
  assumes "a_error_backoff_ms a = 0" and "sane_ms t"
  shows "a_status (fold mark_error (ts @ [t]) a) = Error \<and>
    (now_ms < t + min (60000 * 2 ^ length ts) 1800000 \<longrightarrow>
       \<not> probeable now_ms ctl idx (fold mark_error (ts @ [t]) a)) \<and>
    a_status (apply_refresh tk c (fold mark_error (ts @ [t]) a)) = Active \<and>
    a_error_backoff_ms (apply_refresh tk c (fold mark_error (ts @ [t]) a)) = 0"
proof -
  let ?a = "fold mark_error (ts @ [t]) a"
  have b: "a_error_backoff_ms ?a = min (60000 * 2 ^ length ts) 1800000" by (rule backoff_run [OF assms(1)])
  have "a_error_retry_after_ms ?a = Some (i64_add t (a_error_backoff_ms ?a))"
    by (simp add: mark_error_def grow_error_backoff_def Let_def)
  moreover have "i64_add t (a_error_backoff_ms ?a) = t + a_error_backoff_ms ?a"
    using hold_until(1) [OF assms(2), of "a_error_backoff_ms ?a"] b by (auto simp: min_def)
  moreover have "a_status ?a = Error" by (simp add: mark_error_def grow_error_backoff_def Let_def)
  ultimately show ?thesis
    unfolding b by (auto simp: probeable_def cooldown_elapsed_def apply_refresh_def)
qed

theorem rejected_credential_backs_off_witness:
  "\<not> probeable 300000 None 0 (fold mark_error ([1000, 90000] @ [200000]) (fresh_account ''a'' Anthropic))"
  using rejected_credential_backs_off [of "fresh_account ''a'' Anthropic" 200000 "[1000, 90000]" 300000 None 0]
  by (simp add: fresh_account_def sane_ms_def i64_max_def)

section \<open>Keep-warm\<close>

text \<open>Keep-warm visits the account at the ticks of its schedule and warms it when it is a target; the
  outcome of a warm is the headers of a 2xx or a failure.\<close>

fun warm_sends :: "time_lib \<Rightarrow> f64 \<Rightarrow> bool \<Rightarrow> (odt \<times> i64 \<times> headers option) list \<Rightarrow> account \<Rightarrow> i64 list" where
  "warm_sends T th awaiting [] a = []"
| "warm_sends T th awaiting ((now, now_ms, outcome) # ticks) a =
     (if warm_target th awaiting now now_ms a
      then now_ms # warm_sends T th awaiting ticks (warm_account T now now_ms outcome a)
      else warm_sends T th awaiting ticks a)"

text \<open>The tick's response, if any, carries no five-hour window.\<close>

definition silent_tick :: "time_lib \<Rightarrow> odt \<times> i64 \<times> headers option \<Rightarrow> bool" where
  "silent_tick T tick = (case tick of (now, now_ms, outcome) \<Rightarrow>
     sane_ms now_ms \<and> is_none_or outcome (\<lambda>h. get_parsed_f64 h ''anthropic-ratelimit-unified-5h-utilization'' = None))"

lemma silent_read:
  assumes "get_parsed_f64 h ''anthropic-ratelimit-unified-5h-utilization'' = None"
  shows "\<not> fst (update_from_headers T now h q)"
  using assms by (simp add: update_from_headers_def learn_window_def Let_def)

text \<open>Past the limit, with the cooldown armed.\<close>

definition excluded_until :: "i64 \<Rightarrow> account \<Rightarrow> bool" where
  "excluded_until r a \<longleftrightarrow> WARM_ATTEMPTS_WITHOUT_EVIDENCE_LIMIT \<le> a_warms_without_evidence a \<and>
     a_warm_evidence_retry_after_ms a = Some r \<and> a_provider a = Anthropic"

lemma saturating_add_u32_ge: "a \<le> saturating_add_u32 a b"
proof -
  have "unat a < 2 ^ 32" using unsigned_less [of a] by simp
  then show ?thesis by (simp add: word_le_nat_alt unat_saturating_add_u32)
qed

lemma warm_excluded:
  assumes "excluded_until r a" and "silent_tick T (now, t, outcome)"
  shows "excluded_until (t + WARM_EVIDENCE_RETRY_COOLDOWN_MS) (warm_account T now t outcome a)"
proof -
  have t: "i64_add t WARM_EVIDENCE_RETRY_COOLDOWN_MS = t + WARM_EVIDENCE_RETRY_COOLDOWN_MS"
    using assms(2) hold_until(1) [of t "WARM_EVIDENCE_RETRY_COOLDOWN_MS"]
    by (simp add: silent_tick_def WARM_EVIDENCE_RETRY_COOLDOWN_MS_def)
  show ?thesis
  proof (cases outcome)
    case None
    with assms(1) t show ?thesis
      by (simp add: warm_account_def record_warm_failure_def rearm_warm_evidence_cooldown_if_excluded_def excluded_until_def)
  next
    case (Some h)
    obtain read q where u: "update_from_headers T now h (a_quota a) = (read, q)" by force
    moreover have "\<not> read"
      using silent_read [of h T now "a_quota a"] assms(2) Some u by (simp add: silent_tick_def)
    moreover have "WARM_ATTEMPTS_WITHOUT_EVIDENCE_LIMIT \<le> saturating_add_u32 (a_warms_without_evidence a) 1"
      using assms(1) saturating_add_u32_ge order_trans unfolding excluded_until_def by blast
    ultimately show ?thesis
      using assms(1) t Some
      by (simp add: warm_account_def fold_quota_def record_warm_without_evidence_def
          rearm_warm_evidence_cooldown_if_excluded_def excluded_until_def Let_def)
  qed
qed

lemma warm_sends_spaced:
  assumes "excluded_until r a" and "list_all (silent_tick T) ticks"
  shows "(\<forall>t\<in>set (warm_sends T th awaiting ticks a). r \<le> t) \<and>
    sorted_wrt (\<lambda>t t'. t + WARM_EVIDENCE_RETRY_COOLDOWN_MS \<le> t') (warm_sends T th awaiting ticks a)"
  using assms
proof (induction ticks arbitrary: a r)
  case (Cons tick ticks)
  obtain now t outcome where tick: "tick = (now, t, outcome)" by (cases tick)
  show ?case
  proof (cases "warm_target th awaiting now t a")
    case True
    have "r \<le> t"
      using True Cons.prems(1) by (auto simp: warm_target_def excluded_until_def cooldown_elapsed_def)
    moreover have "excluded_until (t + WARM_EVIDENCE_RETRY_COOLDOWN_MS) (warm_account T now t outcome a)"
      using Cons.prems tick by (intro warm_excluded) simp_all
    note IH = Cons.IH [OF this]
    have "0 \<le> WARM_EVIDENCE_RETRY_COOLDOWN_MS" by (simp add: WARM_EVIDENCE_RETRY_COOLDOWN_MS_def)
    ultimately show ?thesis using IH Cons.prems(2) True tick by fastforce
  next
    case False
    with Cons.IH [OF Cons.prems(1)] Cons.prems(2) tick show ?thesis by simp
  qed
qed simp

text \<open>
  Keep-warm does not spend quota on an account that never shows its window. Once three warms went
  without a five-hour window and the cooldown is armed, then as long as no response carries one, warms
  of that account are an hour apart, whether they fail or come back without the headers, and however
  often the schedule visits it.
\<close>

theorem silent_warms_are_spaced:
  assumes "excluded_until r a" and "list_all (silent_tick T) ticks"
  shows "(\<forall>t\<in>set (warm_sends T th awaiting ticks a). r \<le> t) \<and>
    sorted_wrt (\<lambda>t t'. t + 3600000 \<le> t') (warm_sends T th awaiting ticks a)"
  using warm_sends_spaced [OF assms, of th awaiting] by (simp add: WARM_EVIDENCE_RETRY_COOLDOWN_MS_def)

definition silent_account :: account where
  "silent_account = (fresh_account ''a'' Anthropic)\<lparr>a_refresh_token := Some ''r'', a_quota_known := True,
     a_warms_without_evidence := 3, a_warm_evidence_retry_after_ms := Some 3600000\<rparr>"

definition silent_ticks :: "(odt \<times> i64 \<times> headers option) list" where
  "silent_ticks = map (\<lambda>(t, outcome). (t * ns_per_ms, t, outcome))
     [(3000000, Some (\<lambda>_. None)), (4000000, None), (5000000, Some (\<lambda>_. None)), (8000000, Some (\<lambda>_. None))]"

theorem silent_warms_are_spaced_witness:
  "warm_sends sample_time (Fin (49 / 50)) True silent_ticks silent_account = [4000000, 8000000] \<and>
   sorted_wrt (\<lambda>t t'. t + 3600000 \<le> t') (warm_sends sample_time (Fin (49 / 50)) True silent_ticks silent_account)"
proof
  show "warm_sends sample_time (Fin (49 / 50)) True silent_ticks silent_account = [4000000, 8000000]" by code_simp
  have "excluded_until 3600000 silent_account" by code_simp
  moreover have "list_all (silent_tick sample_time) silent_ticks" by code_simp
  ultimately show "sorted_wrt (\<lambda>t t'. t + 3600000 \<le> t')
      (warm_sends sample_time (Fin (49 / 50)) True silent_ticks silent_account)"
    using silent_warms_are_spaced by blast
qed

section \<open>Stream errors\<close>

lemma drop_stale_filter:
  assumes "sorted ts" and "\<forall>t\<in>set ts. 0 \<le> t \<and> t \<le> now_ms" and "in_i64 now_ms"
  shows "drop_stale now_ms ts = filter (\<lambda>t. i64_sub now_ms t \<le> STREAM_ERROR_WINDOW_MS) ts"
  using assms
proof (induction ts)
  case (Cons t ts)
  have sub: "i64_sub now_ms s = now_ms - s" if "s \<in> set (t # ts)" for s
  proof -
    have "0 \<le> s" "s \<le> now_ms" using Cons.prems(2) that by auto
    then have "in_i64 (now_ms - s)" using Cons.prems(3) by (simp add: in_i64_def i64_min_def)
    then show ?thesis by (simp add: i64_sub_def)
  qed
  have "filter (\<lambda>s. i64_sub now_ms s \<le> STREAM_ERROR_WINDOW_MS) ts = ts"
    if "now_ms - t \<le> STREAM_ERROR_WINDOW_MS"
    using that sub Cons.prems(1) by (intro filter_True) fastforce
  with Cons sub show ?case by simp
qed simp

text \<open>
  The stream-error count on display is the number of errors of the last hour, up to 64: counting
  without popping, as the read side does, and popping on insert, as the write side does, agree on any
  clock that does not run backwards.
\<close>

theorem stream_error_count_exact:
  assumes "sorted ts" and "\<forall>t\<in>set ts. 0 \<le> t \<and> t \<le> now_ms" and "in_i64 now_ms"
  shows "stream_error_count (prune_stream_errors now_ms ts) now_ms = min 64 (stream_error_count ts now_ms)"
proof -
  let ?live = "filter (\<lambda>t. i64_sub now_ms t \<le> STREAM_ERROR_WINDOW_MS) ts"
  have p: "prune_stream_errors now_ms ts = drop (length ?live - 64) ?live"
    by (simp add: prune_stream_errors_def drop_stale_filter [OF assms] STREAM_ERROR_CAP_def Let_def)
  have "filter (\<lambda>t. i64_sub now_ms t \<le> STREAM_ERROR_WINDOW_MS) (drop n ?live) = drop n ?live" for n
    by (rule filter_True) (auto dest: in_set_dropD)
  then have "stream_error_count (prune_stream_errors now_ms ts) now_ms = length (drop (length ?live - 64) ?live)"
    by (simp add: stream_error_count_def p)
  then show ?thesis by (simp add: stream_error_count_def)
qed

theorem stream_error_count_exact_witness:
  "stream_error_count (prune_stream_errors 4000000 [1, 500000, 3999999]) 4000000 = 2"
proof -
  have "stream_error_count (prune_stream_errors 4000000 [1, 500000, 3999999]) 4000000 =
      min 64 (stream_error_count [1, 500000, 3999999] 4000000)"
    by (rule stream_error_count_exact) (simp_all add: in_i64_def i64_min_def i64_max_def)
  also have "\<dots> = 2" by code_simp
  finally show ?thesis .
qed

end
