(* ===== verification/Exhaustion.thy ===== *)
theory Exhaustion
  imports Select_Props
begin

text \<open>
  The exhaustion hint of \<^verbatim>\<open>src/manager/mod.rs\<close>: what a synthetic 429 tells the client when no account
  can serve, folded from the gate every account reports; the Codex candidate folds of
  \<^verbatim>\<open>src/manager/state.rs\<close>; and the gate a refused Codex account shows.
\<close>

section \<open>Codex candidates\<close>

definition codex_candidate :: "manager \<Rightarrow> nat option \<Rightarrow> string option \<Rightarrow> nat \<Rightarrow> account \<Rightarrow> bool" where
  "codex_candidate m bound_to grp i a =
     (case a_provider a of
        Anthropic \<Rightarrow> False
      | Codex \<Rightarrow>
          \<not> a_removed a \<and> is_none_or bound_to (\<lambda>b. b = i) \<and>
          is_none_or (locked_account_for m Codex) (\<lambda>l. l = i) \<and>
          is_none_or grp (\<lambda>g. g \<in> set (a_groups a)) \<and>
          \<not> a_disabled a \<and> a_status a \<noteq> Error \<and>
          \<not> parked_blocks a (gp_parked (m_groups m)) \<and>
          \<not> reserved_blocks a grp (gp_reserved (m_groups m)) \<and>
          i \<notin> codex_accounts_with_unsupported_exit m)"

definition fold_codex_candidates ::
  "manager \<Rightarrow> nat option \<Rightarrow> string option \<Rightarrow> 't \<Rightarrow> ('t \<Rightarrow> nat \<Rightarrow> account \<Rightarrow> 't) \<Rightarrow> 't" where
  "fold_codex_candidates m bound_to grp initial f =
     fold (\<lambda>i v. f v i (m_accounts m ! i))
       (filter (\<lambda>i. codex_candidate m bound_to grp i (m_accounts m ! i)) [0..<length (m_accounts m)]) initial"

definition codex_candidate_counts ::
  "manager \<Rightarrow> nat option \<Rightarrow> string option \<Rightarrow> (account \<Rightarrow> bool) \<Rightarrow> nat \<times> nat" where
  "codex_candidate_counts m bound_to grp matches =
     fold_codex_candidates m bound_to grp (0, 0)
       (\<lambda>(total, matching) _ a. (total + 1, matching + (if matches a then 1 else 0)))"

definition codex_candidate_indices :: "manager \<Rightarrow> nat option \<Rightarrow> string option \<Rightarrow> nat set" where
  "codex_candidate_indices m bound_to grp = fold_codex_candidates m bound_to grp {} (\<lambda>is i _. insert i is)"

definition codex_account_can_serve_eventually :: "manager \<Rightarrow> nat option \<Rightarrow> bool" where
  "codex_account_can_serve_eventually m bound_to \<longleftrightarrow> fst (codex_candidate_counts m bound_to None (\<lambda>_. False)) > 0"

definition codex_pool_is_refused :: "manager \<Rightarrow> odt \<Rightarrow> nat option \<Rightarrow> string option \<Rightarrow> bool" where
  "codex_pool_is_refused m now bound_to grp =
     (let now_ms = odt_to_ms now;
          (candidates, refused) = codex_candidate_counts m bound_to grp
            (\<lambda>a. a_hold_cause a = Refused \<and> is_some_and (a_rate_limited_until_ms a) (\<lambda>until. until > now_ms))
      in candidates > 0 \<and> candidates = refused)"

section \<open>A refused Codex account\<close>

definition codex_windows_of :: "account \<Rightarrow> (gate_reason \<times> quota_window option) list" where
  "codex_windows_of a = [(GFiveHour, five_hour (a_quota a)), (GSevenDay, seven_day (a_quota a))]"

definition rejected_codex_window :: "account \<Rightarrow> f64 \<Rightarrow> odt \<Rightarrow> (gate_reason \<times> odt) option" where
  "rejected_codex_window a threshold now =
     max_by_key snd (List.map_filter (\<lambda>(g, w).
       Option.bind (filter_opt (\<lambda>w. f64_ge (effective w now) threshold) w)
         (\<lambda>w. map_option (Pair g) (live_reset w now))) (codex_windows_of a))"

definition rolled_codex_window :: "account \<Rightarrow> f64 \<Rightarrow> odt \<Rightarrow> gate_reason option" where
  "rolled_codex_window a threshold now =
     map_option fst (max_by_key snd (List.map_filter (\<lambda>(g, w).
       Option.bind (filter_opt (\<lambda>w. f64_ge (utilization w) threshold) w)
         (\<lambda>w. map_option (Pair g) (filter_opt (\<lambda>r. r \<le> now) (reset w)))) (codex_windows_of a)))"

definition rejected_codex_free_at_ms :: "account \<Rightarrow> f64 \<Rightarrow> odt \<Rightarrow> i64 option" where
  "rejected_codex_free_at_ms a threshold now =
     filter_opt (\<lambda>t. t > odt_to_ms now)
       (or_else (map_option odt_to_ms (refusal_reset (q_codex (a_quota a))))
         (or_else (map_option (\<lambda>(_, r). odt_to_ms r) (rejected_codex_window a threshold now))
            (a_rate_limited_until_ms a)))"

definition codex_refusal_gate ::
  "time_lib \<Rightarrow> account \<Rightarrow> f64 \<Rightarrow> odt \<Rightarrow> gate_reason \<times> odt option \<Rightarrow> gate_reason \<times> odt option" where
  "codex_refusal_gate T a threshold now gate =
     (if a_provider a = Anthropic \<or> fst gate \<noteq> GRejected then gate
      else case rejected_codex_window a threshold now of
        Some (w, r) \<Rightarrow> (w, Some r)
      | None \<Rightarrow>
          (case rolled_codex_window a threshold now of
             Some w \<Rightarrow> (w, None)
           | None \<Rightarrow>
               (case filter_opt (\<lambda>until. until > odt_to_ms now) (a_rate_limited_until_ms a) of
                  Some until \<Rightarrow> (hold_gate (a_hold_cause a), ms_to_odt T until)
                | None \<Rightarrow> (GRejected, None))))"

section \<open>The hint\<close>

record exhaustion_hint_view =
  eh_retry_after :: i64
  eh_free_at :: "odt option"
  eh_binding :: "gate_reason option"
  eh_gated :: "gate_reason \<Rightarrow> nat"

record hint_acc =
  ha_gated :: "gate_reason \<Rightarrow> nat"
  ha_soonest :: "(i64 \<times> gate_reason) option"
  ha_every_one_rejected :: bool
  ha_rejected_codex_soonest :: "i64 option"

definition hint_start :: hint_acc where
  "hint_start = \<lparr>ha_gated = (\<lambda>_. 0), ha_soonest = None, ha_every_one_rejected = True,
     ha_rejected_codex_soonest = None\<rparr>"

definition hint_step ::
  "time_lib \<Rightarrow> policy \<Rightarrow> request \<Rightarrow> string option \<Rightarrow> account \<Rightarrow> hint_acc \<Rightarrow> hint_acc" where
  "hint_step T p r grp a h =
     (let threshold = threshold_of a p;
          (reason, free_at) = account_gate T a threshold p r grp;
          h1 = (if reason = GRejected
                then (case a_provider a of
                        Anthropic \<Rightarrow> h
                      | Codex \<Rightarrow>
                          (case rejected_codex_free_at_ms a threshold (r_now r) of
                             None \<Rightarrow> h
                           | Some t \<Rightarrow> h\<lparr>ha_rejected_codex_soonest :=
                               Some (case ha_rejected_codex_soonest h of None \<Rightarrow> t | Some best \<Rightarrow> min best t)\<rparr>))
                else h\<lparr>ha_every_one_rejected := False\<rparr>);
          h2 = (if reason \<noteq> GOk then h1\<lparr>ha_gated := (ha_gated h1)(reason := ha_gated h1 reason + 1)\<rparr> else h1)
      in case filter_opt (\<lambda>t. t > r_now_ms r) (map_option odt_to_ms free_at) of
           None \<Rightarrow> h2
         | Some t \<Rightarrow>
             if is_none_or (ha_soonest h2) (\<lambda>(best, _). t < best)
             then h2\<lparr>ha_soonest := Some (t, reason)\<rparr> else h2)"

definition hint_finish :: "time_lib \<Rightarrow> i64 \<Rightarrow> hint_acc \<Rightarrow> exhaustion_hint_view" where
  "hint_finish T now_ms h =
     (let soonest = (case ha_rejected_codex_soonest h of
                       Some t \<Rightarrow> if ha_every_one_rejected h then Some (t, GRejected) else ha_soonest h
                     | None \<Rightarrow> ha_soonest h)
      in case soonest of
           Some (t, reason) \<Rightarrow>
             \<lparr>eh_retry_after = max 1 (trunc_div (i64_add (i64_sub t now_ms) 999) 1000),
              eh_free_at = ms_to_odt T t, eh_binding = Some reason, eh_gated = ha_gated h\<rparr>
         | None \<Rightarrow> \<lparr>eh_retry_after = 60, eh_free_at = None, eh_binding = None, eh_gated = ha_gated h\<rparr>)"

text \<open>The accounts the fold visits: one index only, the Codex candidates for a Codex request, the
  provider's, the group's.\<close>

definition account_provider :: "manager \<Rightarrow> nat \<Rightarrow> provider option" where
  "account_provider m idx = map_option a_provider (get (m_accounts m) idx)"

definition hint_visits :: "manager \<Rightarrow> provider option \<Rightarrow> string option \<Rightarrow> nat option \<Rightarrow> nat \<Rightarrow> account \<Rightarrow> bool" where
  "hint_visits m provider grp only i a \<longleftrightarrow>
     is_none_or only (\<lambda>j. j = i) \<and>
     (or_else provider (Option.bind only (account_provider m)) = Some Codex \<longrightarrow> i \<in> codex_candidate_indices m only grp) \<and>
     is_none_or provider (\<lambda>p. a_provider a = p) \<and>
     is_none_or grp (\<lambda>g. g \<in> set (a_groups a))"

definition hint_accounts :: "manager \<Rightarrow> provider option \<Rightarrow> string option \<Rightarrow> nat option \<Rightarrow> account list" where
  "hint_accounts m provider grp only =
     map ((!) (m_accounts m))
       (filter (\<lambda>i. hint_visits m provider grp only i (m_accounts m ! i)) [0..<length (m_accounts m)])"

definition exhaustion_hint_over ::
  "time_lib \<Rightarrow> manager \<Rightarrow> request \<Rightarrow> provider option \<Rightarrow> string option \<Rightarrow> nat option \<Rightarrow> exhaustion_hint_view" where
  "exhaustion_hint_over T m r provider grp only =
     hint_finish T (r_now_ms r) (fold (hint_step T (policy_of m) r grp) (hint_accounts m provider grp only) hint_start)"

definition hint_request :: "odt \<Rightarrow> bool \<Rightarrow> provider \<Rightarrow> request" where
  "hint_request now is_fable p = \<lparr>r_now = now, r_now_ms = odt_to_ms now, r_is_fable = is_fable, r_provider = p\<rparr>"

definition exhaustion_hint ::
  "time_lib \<Rightarrow> manager \<Rightarrow> odt \<Rightarrow> bool \<Rightarrow> provider \<Rightarrow> string option \<Rightarrow> exhaustion_hint_view" where
  "exhaustion_hint T m now is_fable p grp = exhaustion_hint_over T m (hint_request now is_fable p) (Some p) grp None"

definition exhaustion_hint_for_account :: "time_lib \<Rightarrow> manager \<Rightarrow> odt \<Rightarrow> bool \<Rightarrow> nat \<Rightarrow> exhaustion_hint_view" where
  "exhaustion_hint_for_account T m now is_fable idx =
     exhaustion_hint_over T m (hint_request now is_fable Anthropic) None None (Some idx)"

definition retry_after_hint :: "time_lib \<Rightarrow> manager \<Rightarrow> odt \<Rightarrow> bool \<Rightarrow> provider \<Rightarrow> i64" where
  "retry_after_hint T m now is_fable p = eh_retry_after (exhaustion_hint T m now is_fable p None)"

definition retry_after_hint_for_group :: "time_lib \<Rightarrow> manager \<Rightarrow> odt \<Rightarrow> bool \<Rightarrow> provider \<Rightarrow> string \<Rightarrow> i64" where
  "retry_after_hint_for_group T m now is_fable p g = eh_retry_after (exhaustion_hint T m now is_fable p (Some g))"

section \<open>The fold\<close>

abbreviation gate_of :: "time_lib \<Rightarrow> policy \<Rightarrow> request \<Rightarrow> string option \<Rightarrow> account \<Rightarrow> gate_reason \<times> odt option" where
  "gate_of T p r grp a \<equiv> account_gate T a (threshold_of a p) p r grp"

text \<open>When the account frees, in milliseconds, if that is known and still ahead.\<close>

definition frees_at :: "time_lib \<Rightarrow> policy \<Rightarrow> request \<Rightarrow> string option \<Rightarrow> account \<Rightarrow> i64 option" where
  "frees_at T p r grp a = filter_opt (\<lambda>t. t > r_now_ms r) (map_option odt_to_ms (snd (gate_of T p r grp a)))"

lemma hint_step_gated:
  "ha_gated (hint_step T p r grp a h) g =
     ha_gated h g + (if fst (gate_of T p r grp a) = g \<and> g \<noteq> GOk then 1 else 0)"
  by (auto simp: hint_step_def Let_def split_beta split: option.splits provider.splits)

lemma hint_step_every:
  "ha_every_one_rejected (hint_step T p r grp a h) \<longleftrightarrow> ha_every_one_rejected h \<and> fst (gate_of T p r grp a) = GRejected"
  by (auto simp: hint_step_def Let_def split_beta split: option.splits provider.splits)

lemma hint_step_soonest:
  "ha_soonest (hint_step T p r grp a h) =
     (case frees_at T p r grp a of
        None \<Rightarrow> ha_soonest h
      | Some t \<Rightarrow> if is_none_or (ha_soonest h) (\<lambda>(best, _). t < best) then Some (t, fst (gate_of T p r grp a)) else ha_soonest h)"
  by (auto simp: hint_step_def frees_at_def Let_def split_beta split: option.splits provider.splits)

lemma hint_step_codex:
  "ha_rejected_codex_soonest (hint_step T p r grp a h) = ha_rejected_codex_soonest h \<or>
   (\<exists>t. ha_rejected_codex_soonest (hint_step T p r grp a h) = Some t \<and>
      (rejected_codex_free_at_ms a (threshold_of a p) (r_now r) = Some t \<or> ha_rejected_codex_soonest h = Some t))"
  by (auto simp: hint_step_def Let_def split_beta min_def split: option.splits provider.splits)

abbreviation hint_fold :: "time_lib \<Rightarrow> policy \<Rightarrow> request \<Rightarrow> string option \<Rightarrow> account list \<Rightarrow> hint_acc" where
  "hint_fold T p r grp as \<equiv> fold (hint_step T p r grp) as hint_start"

lemma hint_fold_gated:
  "ha_gated (hint_fold T p r grp as) g = length (filter (\<lambda>a. fst (gate_of T p r grp a) = g \<and> g \<noteq> GOk) as)"
  by (induction as rule: rev_induct) (simp_all add: hint_start_def hint_step_gated)

lemma hint_fold_every:
  "ha_every_one_rejected (hint_fold T p r grp as) \<longleftrightarrow> (\<forall>a\<in>set as. fst (gate_of T p r grp a) = GRejected)"
  by (induction as rule: rev_induct) (auto simp: hint_start_def hint_step_every)

lemma hint_fold_codex:
  "ha_rejected_codex_soonest (hint_fold T p r grp as) = Some t \<Longrightarrow> odt_to_ms (r_now r) < t"
proof (induction as arbitrary: t rule: rev_induct)
  case (snoc a as)
  have "odt_to_ms (r_now r) < t" if "rejected_codex_free_at_ms a (threshold_of a p) (r_now r) = Some t"
    using that by (auto simp: rejected_codex_free_at_ms_def filter_opt_Some_iff)
  with snoc hint_step_codex [of T p r grp a "hint_fold T p r grp as"] show ?case by auto
qed (simp add: hint_start_def)

lemma hint_fold_soonest:
  "(ha_soonest (hint_fold T p r grp as) = None \<longleftrightarrow> (\<forall>a\<in>set as. frees_at T p r grp a = None)) \<and>
   (\<forall>t g. ha_soonest (hint_fold T p r grp as) = Some (t, g) \<longrightarrow>
      (\<exists>a\<in>set as. frees_at T p r grp a = Some t \<and> fst (gate_of T p r grp a) = g) \<and>
      (\<forall>a\<in>set as. \<forall>u. frees_at T p r grp a = Some u \<longrightarrow> t \<le> u))"
proof (induction as rule: rev_induct)
  case (snoc a as)
  then show ?case
    by (auto simp: hint_step_soonest is_none_or_def split: option.splits if_splits)
      (force intro: order_less_imp_le order_trans)+
qed (simp add: hint_start_def)

section \<open>The hint is honest\<close>

text \<open>The seconds a wait until \<open>t\<close> takes, as the hint rounds them.\<close>

definition wait_secs :: "i64 \<Rightarrow> i64 \<Rightarrow> i64" where
  "wait_secs now_ms t = max 1 (trunc_div (i64_add (i64_sub t now_ms) 999) 1000)"

lemma wait_secs_bounds:
  assumes "999 \<le> now_ms" and "now_ms < t" and "in_i64 t"
  shows "1 \<le> wait_secs now_ms t" "t \<le> now_ms + wait_secs now_ms t * 1000" "now_ms + (wait_secs now_ms t - 1) * 1000 < t"
proof -
  have s: "i64_sub t now_ms = t - now_ms" using assms by (simp add: i64_sub_def in_i64_def i64_min_def)
  have "i64_add (t - now_ms) 999 = t - now_ms + 999"
    using assms by (simp add: i64_add_def in_i64_def i64_min_def)
  then have w: "wait_secs now_ms t = max 1 ((t - now_ms + 999) div 1000)"
    using assms(2) by (simp add: wait_secs_def s trunc_div_nonneg)
  have "1 \<le> (t - now_ms + 999) div 1000" using assms(2) by linarith
  then have w': "wait_secs now_ms t = (t - now_ms + 999) div 1000" by (simp add: w)
  then show "1 \<le> wait_secs now_ms t" using \<open>1 \<le> (t - now_ms + 999) div 1000\<close> by simp
  show "t \<le> now_ms + wait_secs now_ms t * 1000" "now_ms + (wait_secs now_ms t - 1) * 1000 < t"
    unfolding w' using div_mult_mod_eq [of "t - now_ms + 999" 1000] pos_mod_bound [of 1000 "t - now_ms + 999"]
      pos_mod_sign [of 1000 "t - now_ms + 999"] by (auto simp: algebra_simps)
qed

lemma hint_finish_soonest:
  assumes "\<not> ha_every_one_rejected h \<or> ha_rejected_codex_soonest h = None"
  shows "hint_finish T now_ms h = (case ha_soonest h of
      Some (t, g) \<Rightarrow> \<lparr>eh_retry_after = wait_secs now_ms t, eh_free_at = ms_to_odt T t, eh_binding = Some g, eh_gated = ha_gated h\<rparr>
    | None \<Rightarrow> \<lparr>eh_retry_after = 60, eh_free_at = None, eh_binding = None, eh_gated = ha_gated h\<rparr>)"
  using assms by (auto simp: hint_finish_def Let_def wait_secs_def split: option.splits)

lemma frees_at_in_i64: "frees_at T p r grp a = Some t \<Longrightarrow> in_i64 t \<and> r_now_ms r < t"
  using in_i64_odt_to_ms by (auto simp: frees_at_def filter_opt_Some_iff)

lemma hint_request_sel [simp]:
  "r_now (hint_request now f p) = now" "r_now_ms (hint_request now f p) = odt_to_ms now"
  "r_is_fable (hint_request now f p) = f" "r_provider (hint_request now f p) = p"
  by (simp_all add: hint_request_def)

lemma exhaustion_hint_cases:
  fixes now f p m grp T
  defines "r \<equiv> hint_request now f p" and "as \<equiv> hint_accounts m (Some p) grp None"
  assumes "\<exists>a\<in>set as. fst (gate_of T (policy_of m) r grp a) \<noteq> GRejected"
  obtains (unknown) "exhaustion_hint T m now f p grp =
      \<lparr>eh_retry_after = 60, eh_free_at = None, eh_binding = None, eh_gated = ha_gated (hint_fold T (policy_of m) r grp as)\<rparr>"
      "\<forall>a\<in>set as. frees_at T (policy_of m) r grp a = None"
    | (known) a t where "a \<in> set as" "frees_at T (policy_of m) r grp a = Some t"
      "\<forall>b\<in>set as. \<forall>u. frees_at T (policy_of m) r grp b = Some u \<longrightarrow> t \<le> u"
      "exhaustion_hint T m now f p grp =
        \<lparr>eh_retry_after = wait_secs (odt_to_ms now) t, eh_free_at = ms_to_odt T t,
         eh_binding = Some (fst (gate_of T (policy_of m) r grp a)), eh_gated = ha_gated (hint_fold T (policy_of m) r grp as)\<rparr>"
proof -
  let ?h = "hint_fold T (policy_of m) r grp as"
  have "\<not> ha_every_one_rejected ?h" using assms(3) by (simp add: hint_fold_every)
  then have e: "exhaustion_hint T m now f p grp = (case ha_soonest ?h of
      Some (t, g) \<Rightarrow> \<lparr>eh_retry_after = wait_secs (odt_to_ms now) t, eh_free_at = ms_to_odt T t, eh_binding = Some g, eh_gated = ha_gated ?h\<rparr>
    | None \<Rightarrow> \<lparr>eh_retry_after = 60, eh_free_at = None, eh_binding = None, eh_gated = ha_gated ?h\<rparr>)"
    by (simp add: exhaustion_hint_def exhaustion_hint_over_def hint_finish_soonest r_def as_def split: option.split)
  note s = hint_fold_soonest [of T "policy_of m" r grp as]
  show thesis
  proof (cases "ha_soonest ?h")
    case None
    with e s show thesis by (intro unknown) auto
  next
    case (Some tg)
    obtain t g where tg: "tg = (t, g)" by force
    with Some s obtain a where "a \<in> set as" "frees_at T (policy_of m) r grp a = Some t"
      "fst (gate_of T (policy_of m) r grp a) = g"
      "\<forall>b\<in>set as. \<forall>u. frees_at T (policy_of m) r grp b = Some u \<longrightarrow> t \<le> u" by blast
    with e Some tg show thesis by (intro known) auto
  qed
qed

text \<open>
  The hint of an exhausted pool is exact. Unless every account is rejected, \<open>retry_after\<close> is the
  wait for the first of the request's own accounts to free, rounded up to whole seconds and at least
  one, \<open>binding\<close> names that account's gate, and with no recovery instant known it is the 60 second
  sentinel with neither; \<open>gated\<close> counts every account that is out, by its gate.
\<close>

theorem exhaustion_hint_exact:
  assumes "999 \<le> odt_to_ms now"
    and "\<exists>a\<in>set (hint_accounts m (Some p) grp None). fst (gate_of T (policy_of m) (hint_request now f p) grp a) \<noteq> GRejected"
  shows "(\<forall>g. g \<noteq> GOk \<longrightarrow> eh_gated (exhaustion_hint T m now f p grp) g =
       length (filter (\<lambda>a. fst (gate_of T (policy_of m) (hint_request now f p) grp a) = g) (hint_accounts m (Some p) grp None))) \<and>
    (eh_retry_after (exhaustion_hint T m now f p grp) = 60 \<and> eh_free_at (exhaustion_hint T m now f p grp) = None \<and>
       eh_binding (exhaustion_hint T m now f p grp) = None \<and>
       (\<forall>a\<in>set (hint_accounts m (Some p) grp None). frees_at T (policy_of m) (hint_request now f p) grp a = None) \<or>
     (\<exists>a\<in>set (hint_accounts m (Some p) grp None). \<exists>t.
       frees_at T (policy_of m) (hint_request now f p) grp a = Some t \<and>
       (\<forall>b\<in>set (hint_accounts m (Some p) grp None). \<forall>u.
          frees_at T (policy_of m) (hint_request now f p) grp b = Some u \<longrightarrow> t \<le> u) \<and>
       eh_binding (exhaustion_hint T m now f p grp) = Some (fst (gate_of T (policy_of m) (hint_request now f p) grp a)) \<and>
       1 \<le> eh_retry_after (exhaustion_hint T m now f p grp) \<and>
       t \<le> odt_to_ms now + eh_retry_after (exhaustion_hint T m now f p grp) * 1000 \<and>
       odt_to_ms now + (eh_retry_after (exhaustion_hint T m now f p grp) - 1) * 1000 < t))"
  using assms(2)
proof (cases rule: exhaustion_hint_cases)
  case unknown
  then show ?thesis by (simp add: hint_fold_gated)
next
  case (known a t)
  have "in_i64 t" "odt_to_ms now < t" using frees_at_in_i64 [OF known(2)] by simp_all
  note w = wait_secs_bounds [OF assms(1) this(2,1)]
  have "\<forall>g. g \<noteq> GOk \<longrightarrow> eh_gated (exhaustion_hint T m now f p grp) g =
      length (filter (\<lambda>a. fst (gate_of T (policy_of m) (hint_request now f p) grp a) = g) (hint_accounts m (Some p) grp None))"
    by (simp add: known(4) hint_fold_gated)
  moreover have "eh_retry_after (exhaustion_hint T m now f p grp) = wait_secs (odt_to_ms now) t"
    "eh_binding (exhaustion_hint T m now f p grp) = Some (fst (gate_of T (policy_of m) (hint_request now f p) grp a))"
    by (simp_all add: known(4))
  ultimately show ?thesis using known(1-3) w by auto
qed

text \<open>One account under a five second hold, asked about two and a half seconds before it ends.\<close>

definition one_held :: manager where
  "one_held = sample_manager [held_account]"

definition half_past_two :: odt where
  "half_past_two = 2500 * ns_per_ms"

lemma one_held_gate:
  "hint_accounts one_held (Some Anthropic) None None = [held_account]"
  "gate_of sample_time (policy_of one_held) (hint_request half_past_two False Anthropic) None held_account =
     (GHold, Some (5000 * ns_per_ms))"
  by code_simp+

lemma half_past_two_ms: "odt_to_ms half_past_two = 2500"
  by code_simp

theorem exhaustion_hint_exact_witness:
  "eh_binding (exhaustion_hint sample_time one_held half_past_two False Anthropic None) = Some GHold \<and>
   eh_retry_after (exhaustion_hint sample_time one_held half_past_two False Anthropic None) = 3"
proof -
  have "frees_at sample_time (policy_of one_held) (hint_request half_past_two False Anthropic) None held_account = Some 5000"
    by code_simp
  then have "let h = exhaustion_hint sample_time one_held half_past_two False Anthropic None in
      eh_binding h = Some GHold \<and> 5000 \<le> 2500 + eh_retry_after h * 1000 \<and> 2500 + (eh_retry_after h - 1) * 1000 < 5000"
    using exhaustion_hint_exact [where now = half_past_two and m = one_held and p = Anthropic and grp = None
        and T = sample_time and f = False]
    by (simp add: one_held_gate half_past_two_ms)
  then show ?thesis by (auto simp: Let_def)
qed

section \<open>Waiting out the hint\<close>

text \<open>An instant the \<open>time\<close> crate can hold fits the milliseconds of an \<open>i64\<close>.\<close>

definition representable :: "odt option \<Rightarrow> bool" where
  "representable t = is_none_or t (\<lambda>t. 0 \<le> t \<and> in_i64 (t div ns_per_ms))"

lemma hint_accounts_anyone:
  "a \<in> set (hint_accounts m (Some p) None None) \<Longrightarrow>
     \<exists>j. get (m_accounts m) j = Some a \<and> a_provider a = p \<and> (p = Codex \<longrightarrow> j \<in> codex_candidate_indices m None None)"
  by (auto simp: hint_accounts_def hint_visits_def get_eq_Some_iff)

lemma set_candidate_indices:
  "codex_candidate_indices m bound_to grp =
     {i. i < length (m_accounts m) \<and> codex_candidate m bound_to grp i (m_accounts m ! i)}"
proof -
  have "fold (\<lambda>i s. insert i s) xs s = set xs \<union> s" for xs :: "nat list" and s
    by (induction xs arbitrary: s) auto
  then show ?thesis by (auto simp: codex_candidate_indices_def fold_codex_candidates_def)
qed

lemma candidate_exit_supported:
  "i \<in> codex_candidate_indices m bound_to grp \<Longrightarrow> i \<notin> codex_accounts_with_unsupported_exit m"
  by (auto simp: set_candidate_indices codex_candidate_def split: provider.splits)

lemma div_ms_less: "a div ns_per_ms < b div ns_per_ms \<Longrightarrow> a \<le> b"
  by (rule ccontr) (use zdiv_mono1 [of b a ns_per_ms] in \<open>simp add: ns_per_ms_def\<close>)

lemma later_instant:
  assumes "clock_ok r'" and "representable (Some t)" and "odt_to_ms t < r_now_ms r'"
  shows "t \<le> r_now r'"
proof -
  show ?thesis
    by (rule div_ms_less) (use assms clock_ms [OF assms(1)] in \<open>simp add: representable_def odt_to_ms_nonneg\<close>)
qed

text \<open>
  C17. The hint keeps its promise, for an ungrouped request of a fleet with no operator lock and no control
  account. When not every account is rejected and the hint names a gate, then a request for the same model that
  comes strictly later than \<open>retry_after\<close> seconds after the first and meets the fleet as it was gets an account:
  the one wait the client is told is enough. The thresholds are positive, the freeing instants are
  representable and the time library does what it documents.
\<close>

theorem waiting_out_the_hint_is_served:
  assumes "time_lib_ok T" and "clock_ok (request_of now model path)" and "clock_ok (request_of later model path)"
    and "999 \<le> odt_to_ms now" and "locked_account_for m (of_path path) = None" and "control m = None"
    and "\<forall>a\<in>set (hint_accounts m (Some (of_path path)) None None).
       f64_lt f64_zero (threshold_of a (policy_of m)) \<and>
       f64_lt f64_zero (effective_fable_threshold (m_fable_weekly_threshold m) (threshold_of a (policy_of m))) \<and>
       representable (snd (gate_of T (policy_of m) (request_of now model path) None a))"
    and "\<exists>a\<in>set (hint_accounts m (Some (of_path path)) None None).
       fst (gate_of T (policy_of m) (request_of now model path) None a) \<noteq> GRejected"
    and hint: "h = exhaustion_hint T m now (r_is_fable (request_of now model path)) (of_path path) None"
    and "eh_binding h \<noteq> None"
    and late: "odt_to_ms now + eh_retry_after h * 1000 < odt_to_ms later"
  shows "\<exists>i. fst (select_with_group {} later model aff path ck None m) = Some i"
proof -
  let ?p = "policy_of m" and ?r = "request_of now model path" and ?r' = "request_of later model path"
  have r: "hint_request now (r_is_fable ?r) (of_path path) = ?r" by (simp add: hint_request_def request_of_def)
  have "\<exists>a\<in>set (hint_accounts m (Some (of_path path)) None None).
      fst (gate_of T ?p (hint_request now (r_is_fable ?r) (of_path path)) None a) \<noteq> GRejected"
    unfolding r by (rule assms(8))
  then obtain a t where a: "a \<in> set (hint_accounts m (Some (of_path path)) None None)"
    "frees_at T ?p ?r None a = Some t" "eh_retry_after h = wait_secs (odt_to_ms now) t"
    by (cases rule: exhaustion_hint_cases) (use assms(10) in \<open>auto simp: hint r\<close>)
  then obtain g free where free: "gate_of T ?p ?r None a = (g, Some free)" "t = odt_to_ms free" "odt_to_ms now < t"
    by (cases "gate_of T ?p ?r None a") (auto simp: frees_at_def filter_opt_Some_iff)
  have "odt_to_ms free < odt_to_ms later"
    using wait_secs_bounds(2) [OF assms(4) free(3)] frees_at_in_i64 [OF a(2)] late a(3) free(2) by simp
  moreover have "representable (Some free)" using assms(7) a(1) free(1) by auto
  ultimately have "free \<le> r_now ?r'" by (intro later_instant [OF assms(3)]) simp_all
  moreover have "r_now ?r \<le> r_now ?r'"
    using \<open>odt_to_ms free < odt_to_ms later\<close> free(2,3) clock_ms [OF assms(2)] clock_ms [OF assms(3)]
    by (intro div_ms_less) simp
  ultimately have "fst (gate_of T ?p ?r' None a) = GOk"
    using assms(7) a(1) gate_clears [OF assms(1-3) _ _ _ _ free(1)] by (auto simp: policy_of_def request_of_def)
  then have "eligible a ?p (?r'\<lparr>r_provider := a_provider a\<rparr>) False None None" by (simp add: gate_Ok_eligible)
  with hint_accounts_anyone [OF a(1)] candidate_exit_supported assms(5,6) show ?thesis
    by (auto intro!: select_complete simp: strict_group_def request_of_def)
qed

theorem waiting_out_the_hint_is_served_witness:
  "\<exists>i. fst (select_with_group {} (5501 * ns_per_ms) None None path_messages None None one_held) = Some i"
proof -
  let ?p = "policy_of one_held"
  let ?h = "exhaustion_hint sample_time one_held half_past_two (r_is_fable (request_of half_past_two None path_messages))
     (of_path path_messages) None"
  have h: "eh_binding ?h = Some GHold" "eh_retry_after ?h = 3" by code_simp+
  have path: "of_path path_messages = Anthropic" by code_simp
  have r: "request_of half_past_two None path_messages = hint_request half_past_two False Anthropic" by code_simp
  have "odt_to_ms (5501 * ns_per_ms) = 5501" by code_simp
  moreover have "clock_ok (request_of (5501 * ns_per_ms) None path_messages)"
    "clock_ok (hint_request half_past_two False Anthropic)"
    by (simp_all add: clock_ok_def half_past_two_def ns_per_ms_def in_i64_def i64_min_def i64_max_def)
  moreover have "locked_account_for one_held Anthropic = None" "control one_held = None" by code_simp+
  moreover have "f64_lt f64_zero (threshold_of held_account ?p)"
    "f64_lt f64_zero (effective_fable_threshold (m_fable_weekly_threshold one_held) (threshold_of held_account ?p))"
    by code_simp+
  moreover have "representable (Some (5000 * ns_per_ms))"
    by (simp add: representable_def ns_per_ms_def in_i64_def i64_min_def i64_max_def)
  ultimately show ?thesis
    using h sample_time_ok
    by (intro waiting_out_the_hint_is_served [where T = sample_time and now = half_past_two and h = ?h])
      (simp_all add: half_past_two_ms path r one_held_gate)
qed

end
