(* ===== verification/Schedule.thy ===== *)
theory Schedule
  imports Account_Ops
begin

unbundle bit_operations_syntax

text \<open>
  The background scheduler of \<^verbatim>\<open>src/schedule.rs\<close>: the SplitMix64 generator, the jittered draws, the
  per-account schedule with its trailing-hour cap, and the loop that drives it as a step relation.
  The clock and the probes themselves are events; the order in which a hash map lists its keys is the
  order of the list that stands for it.
\<close>

section \<open>Draws\<close>

definition JITTER_PERCENT :: u64 where "JITTER_PERCENT = 30"
definition MAX_SLEEP_MS :: i64 where "MAX_SLEEP_MS = 5000"
definition MIN_SLEEP_MS :: i64 where "MIN_SLEEP_MS = 50"
definition PROBE_CAP_PER_HOUR :: nat where "PROBE_CAP_PER_HOUR = 20"
definition CAP_WINDOW_MS :: i64 where "CAP_WINDOW_MS = 60 * 60 * 1000"
definition NEAR_LIMIT_CADENCE_DIVISOR :: u64 where "NEAR_LIMIT_CADENCE_DIVISOR = 2"

datatype quota_state = QNormal | QNearLimit | QExhausted

definition from_utilization :: "f64 option \<Rightarrow> f64 \<Rightarrow> quota_state" where
  "from_utilization util threshold =
     (case util of
        Some u \<Rightarrow> if f64_ge u f64_one then QExhausted else if f64_ge u threshold then QNearLimit else QNormal
      | None \<Rightarrow> QNormal)"

datatype probe_urgency = Routine | NearLimit

text \<open>What \<open>ProbeUrgency::of\<close> reads off a snapshot row: its quota state, its gate and whether a Codex
  refusal stands.\<close>

definition urgency_of :: "quota_state \<Rightarrow> gate_reason \<Rightarrow> bool \<Rightarrow> probe_urgency" where
  "urgency_of qs gate limit_reached =
     (let refused = (gate = GRejected \<or> (limit_reached \<and> \<not> (gate = GDisabled \<or> gate = GLogin)))
      in if qs \<noteq> QNormal \<or> refused then NearLimit else Routine)"

definition saturating_mul_u64 :: "u64 \<Rightarrow> u64 \<Rightarrow> u64" where
  "saturating_mul_u64 a b = (if uint a * uint b < 2 ^ 64 then a * b else -1)"

definition saturating_sub_u64 :: "u64 \<Rightarrow> u64 \<Rightarrow> u64" where
  "saturating_sub_u64 a b = (if b \<le> a then a - b else 0)"

definition jittered_interval_secs :: "u64 \<Rightarrow> u64 \<Rightarrow> u64" where
  "jittered_interval_secs cadence_secs draw =
     (let cadence = max cadence_secs 1;
          spread = saturating_mul_u64 cadence JITTER_PERCENT div 100;
          low = saturating_sub_u64 cadence spread;
          span = saturating_add_u64 (saturating_mul_u64 spread 2) 1
      in max (low + draw mod span) 1)"

definition probe_interval_secs :: "u64 \<Rightarrow> probe_urgency \<Rightarrow> u64 \<Rightarrow> u64" where
  "probe_interval_secs cadence_secs urgency draw =
     (let centre = (case urgency of Routine \<Rightarrow> cadence_secs | NearLimit \<Rightarrow> cadence_secs div NEAR_LIMIT_CADENCE_DIVISOR)
      in jittered_interval_secs centre draw)"

definition initial_offset_secs :: "u64 \<Rightarrow> u64 \<Rightarrow> u64" where
  "initial_offset_secs cadence_secs draw = draw mod (max cadence_secs 1 + 1)"

definition mix64 :: "u64 \<Rightarrow> u64" where
  "mix64 z0 =
     (let z1 = (z0 XOR drop_bit 30 z0) * 0xBF58476D1CE4E5B9;
          z2 = (z1 XOR drop_bit 27 z1) * 0x94D049BB133111EB
      in z2 XOR drop_bit 31 z2)"

record rng = rng_state :: u64

definition next_u64 :: "rng \<Rightarrow> u64 \<times> rng" where
  "next_u64 g = (let s = rng_state g + 0x9E3779B97F4A7C15 in (mix64 s, g\<lparr>rng_state := s\<rparr>))"

section \<open>The schedule\<close>

record fleet_schedule =
  fs_due_ms :: "(nat, i64) hash_map"
  fs_cap :: "nat option"
  fs_fired_ms :: "(nat, i64 list) hash_map"

definition schedule_default :: fleet_schedule where
  "schedule_default = \<lparr>fs_due_ms = [], fs_cap = None, fs_fired_ms = []\<rparr>"

definition capped :: "nat \<Rightarrow> fleet_schedule" where
  "capped cap = schedule_default\<lparr>fs_cap := Some cap\<rparr>"

definition cap_clamp :: "fleet_schedule \<Rightarrow> nat \<Rightarrow> i64 \<Rightarrow> i64" where
  "cap_clamp s idx want_ms =
     (case fs_cap s of
        None \<Rightarrow> want_ms
      | Some cap \<Rightarrow>
          (case hm_get (fs_fired_ms s) idx of
             None \<Rightarrow> want_ms
           | Some fired \<Rightarrow>
               (case (if cap \<le> length fired then get fired (length fired - cap) else None) of
                  Some oldest_counted \<Rightarrow> max want_ms (i64_add oldest_counted CAP_WINDOW_MS)
                | None \<Rightarrow> want_ms)))"

fun drop_left_window :: "i64 \<Rightarrow> i64 list \<Rightarrow> i64 list" where
  "drop_left_window now_ms [] = []"
| "drop_left_window now_ms (t # ts) =
     (if t \<le> i64_sub now_ms CAP_WINDOW_MS then drop_left_window now_ms ts else t # ts)"

definition record_fire :: "nat \<Rightarrow> i64 \<Rightarrow> fleet_schedule \<Rightarrow> fleet_schedule" where
  "record_fire idx now_ms s =
     (if fs_cap s = None then s
      else s\<lparr>fs_fired_ms := hm_insert idx
               (drop_left_window now_ms (unwrap_or (hm_get (fs_fired_ms s) idx) [] @ [now_ms])) (fs_fired_ms s)\<rparr>)"

definition sync_one :: "i64 \<Rightarrow> u64 \<Rightarrow> nat \<Rightarrow> fleet_schedule \<times> rng \<Rightarrow> fleet_schedule \<times> rng" where
  "sync_one now_ms cadence_secs idx = (\<lambda>(s, g).
     if hm_get (fs_due_ms s) idx \<noteq> None then (s, g)
     else let (draw, g') = next_u64 g;
              want = i64_add now_ms (i64_mul 1000 (u64_as_i64 (initial_offset_secs cadence_secs draw)))
          in (s\<lparr>fs_due_ms := hm_insert idx (cap_clamp s idx want) (fs_due_ms s)\<rparr>, g'))"

definition sync :: "i64 \<Rightarrow> nat list \<Rightarrow> u64 \<Rightarrow> fleet_schedule \<times> rng \<Rightarrow> fleet_schedule \<times> rng" where
  "sync now_ms who cadence_secs = (\<lambda>(s, g).
     fold (sync_one now_ms cadence_secs) who
       (s\<lparr>fs_due_ms := filter (\<lambda>(idx, _). idx \<in> set who) (fs_due_ms s)\<rparr>, g))"

definition due :: "fleet_schedule \<Rightarrow> i64 \<Rightarrow> nat list" where
  "due s now_ms = map snd (sort (map (\<lambda>(idx, t). (t, idx)) (filter (\<lambda>(_, t). t \<le> now_ms) (fs_due_ms s))))"

definition reschedule :: "nat \<Rightarrow> i64 \<Rightarrow> u64 \<Rightarrow> probe_urgency \<Rightarrow> fleet_schedule \<times> rng \<Rightarrow> fleet_schedule \<times> rng" where
  "reschedule idx now_ms cadence_secs urgency = (\<lambda>(s, g).
     let s1 = record_fire idx now_ms s;
         (draw, g') = next_u64 g;
         want = i64_add now_ms (i64_mul 1000 (u64_as_i64 (probe_interval_secs cadence_secs urgency draw)))
     in (s1\<lparr>fs_due_ms := hm_insert idx (cap_clamp s1 idx want) (fs_due_ms s1)\<rparr>, g'))"

definition reschedule_all :: "i64 \<Rightarrow> u64 \<Rightarrow> fleet_schedule \<times> rng \<Rightarrow> fleet_schedule \<times> rng" where
  "reschedule_all now_ms cadence_secs = (\<lambda>(s, g).
     fold (\<lambda>idx. reschedule idx now_ms cadence_secs Routine) (map fst (fs_due_ms s)) (s, g))"

definition next_due_ms :: "fleet_schedule \<Rightarrow> i64 option" where
  "next_due_ms s = (if fs_due_ms s = [] then None else Some (Min (set (map snd (fs_due_ms s)))))"

definition sleep_for :: "i64 \<Rightarrow> i64 option \<Rightarrow> i64" where
  "sleep_for now_ms next_due =
     (let wait = (case next_due of Some d \<Rightarrow> max 0 (i64_sub d now_ms) | None \<Rightarrow> MAX_SLEEP_MS)
      in clamp_int MIN_SLEEP_MS MAX_SLEEP_MS wait)"

section \<open>The loop\<close>

text \<open>
  What the loop does between two looks at the clock: sync with the eligible accounts, or send for an
  account that was due at \<open>started\<close> and reschedule it at \<open>finished\<close>, after the send came back. A
  keep-warm loop may also be woken, and then sweeps the whole fleet.
\<close>

datatype sched_event =
    Sync i64 "nat list"
  | Fire nat i64 i64 probe_urgency
  | Woken i64

fun event_times :: "sched_event \<Rightarrow> i64 \<times> i64" where
  "event_times (Sync now _) = (now, now)"
| "event_times (Fire _ started finished _) = (started, finished)"
| "event_times (Woken now) = (now, now)"

inductive sched_step :: "u64 \<Rightarrow> fleet_schedule \<times> rng \<Rightarrow> sched_event \<Rightarrow> fleet_schedule \<times> rng \<Rightarrow> bool"
  for cadence_secs where
  sync_step: "sched_step cadence_secs sg (Sync now who) (sync now who cadence_secs sg)"
| fire_step: "idx \<in> set (due (fst sg) started) \<Longrightarrow>
    sched_step cadence_secs sg (Fire idx started finished urgency) (reschedule idx finished cadence_secs urgency sg)"
| woken_step: "fs_cap (fst sg) = None \<Longrightarrow>
    sched_step cadence_secs sg (Woken now) (reschedule_all now cadence_secs sg)"

inductive_cases sched_stepE [elim]:
  "sched_step cadence_secs sg (Sync now who) sg'"
  "sched_step cadence_secs sg (Fire idx started finished urgency) sg'"
  "sched_step cadence_secs sg (Woken now) sg'"

inductive sched_run :: "u64 \<Rightarrow> fleet_schedule \<times> rng \<Rightarrow> sched_event list \<Rightarrow> fleet_schedule \<times> rng \<Rightarrow> bool"
  for cadence_secs where
  run_nil: "sched_run cadence_secs sg [] sg"
| run_snoc: "sched_run cadence_secs sg es sg' \<Longrightarrow> sched_step cadence_secs sg' e sg'' \<Longrightarrow>
    sched_run cadence_secs sg (es @ [e]) sg''"

text \<open>The clock never runs backwards, and stays within bounds.\<close>

fun clock_forward :: "i64 \<Rightarrow> sched_event list \<Rightarrow> bool" where
  "clock_forward t [] = True"
| "clock_forward t (e # es) = (case event_times e of (a, b) \<Rightarrow> t \<le> a \<and> a \<le> b \<and> b \<le> 2 ^ 60 \<and> clock_forward b es)"

text \<open>When each send for an account started.\<close>

fun fires :: "nat \<Rightarrow> sched_event list \<Rightarrow> (i64 \<times> i64) list" where
  "fires idx [] = []"
| "fires idx (Fire i started finished _ # es) = (if i = idx then [(started, finished)] else []) @ fires idx es"
| "fires idx (_ # es) = fires idx es"

section \<open>The draws stay in their band\<close>

lemma uint_small_mult:
  fixes a b :: u64
  assumes "uint a * uint b < 2 ^ 64"
  shows "uint (a * b) = uint a * uint b"
  using assms by (simp add: uint_word_ariths)

lemma uint_small_add:
  fixes a b :: u64
  assumes "uint a + uint b < 2 ^ 64"
  shows "uint (a + b) = uint a + uint b"
  using assms by (simp add: uint_word_ariths)

lemma uint_small_sub:
  fixes a b :: u64
  assumes "uint b \<le> uint a"
  shows "uint (a - b) = uint a - uint b"
  using assms by (simp add: uint_sub_if')

lemma uint_max: "uint (max a b) = max (uint a) (uint (b :: u64))"
  by (simp add: max_def word_le_def)

lemma uint_saturating_mul: "uint a * uint b < 2 ^ 64 \<Longrightarrow> uint (saturating_mul_u64 a b) = uint a * uint b"
  by (simp add: saturating_mul_u64_def uint_small_mult)

lemma uint_saturating_add: "uint a + uint b < 2 ^ 64 \<Longrightarrow> uint (saturating_add_u64 a b) = uint a + uint b"
  by (simp add: saturating_add_u64_def uint_small_add)

lemma uint_saturating_sub: "uint b \<le> uint a \<Longrightarrow> uint (saturating_sub_u64 a b) = uint a - uint b"
  by (simp add: saturating_sub_u64_def word_le_def uint_small_sub)

text \<open>Every interval is within thirty percent of its cadence and never zero.\<close>

lemma jittered_interval_bounds:
  assumes "uint cadence \<le> 2 ^ 40"
  shows "let c = max (uint cadence) 1; s = c * 30 div 100 in
    1 \<le> uint (jittered_interval_secs cadence draw) \<and>
    c - s \<le> uint (jittered_interval_secs cadence draw) \<and> uint (jittered_interval_secs cadence draw) \<le> c + s"
proof -
  define c where "c = max (uint cadence) 1"
  define s where "s = c * 30 div 100"
  have c: "1 \<le> c" "c \<le> 2 ^ 40" using assms by (auto simp: c_def)
  have s: "0 \<le> s" "s < c" using c by (auto simp: s_def)
  let ?c = "max cadence 1" and ?s = "saturating_mul_u64 (max cadence 1) JITTER_PERCENT div 100"
  have uc: "uint ?c = c" by (simp add: c_def uint_max)
  have us: "uint ?s = s"
    using c by (simp add: uint_div uint_saturating_mul uc JITTER_PERCENT_def s_def)
  have low: "uint (saturating_sub_u64 ?c ?s) = c - s"
    using s by (simp add: uint_saturating_sub uc us)
  have two: "uint (saturating_mul_u64 ?s 2) = s * 2"
    using s c by (subst uint_saturating_mul) (simp_all add: us)
  have span: "uint (saturating_add_u64 (saturating_mul_u64 ?s 2) 1) = s * 2 + 1"
    using s c by (subst uint_saturating_add) (simp_all add: two)
  let ?d = "draw mod saturating_add_u64 (saturating_mul_u64 ?s 2) 1"
  have d: "0 \<le> uint ?d" "uint ?d \<le> s * 2"
    using s pos_mod_bound [of "s * 2 + 1" "uint draw"] by (simp_all add: uint_mod span)
  have "uint (saturating_sub_u64 ?c ?s + ?d) = c - s + uint ?d"
    using d low s c by (subst uint_small_add) auto
  then have "uint (jittered_interval_secs cadence draw) = max (c - s + uint ?d) 1"
    by (simp add: jittered_interval_secs_def Let_def uint_max)
  with d s have "1 \<le> uint (jittered_interval_secs cadence draw) \<and>
      c - s \<le> uint (jittered_interval_secs cadence draw) \<and> uint (jittered_interval_secs cadence draw) \<le> c + s"
    by linarith
  then show ?thesis unfolding Let_def c_def s_def .
qed

lemma probe_interval_bounds:
  assumes "uint cadence \<le> 2 ^ 40"
  shows "1 \<le> uint (probe_interval_secs cadence urgency draw) \<and> uint (probe_interval_secs cadence urgency draw) \<le> 2 ^ 41"
proof -
  define centre where "centre = (case urgency of Routine \<Rightarrow> cadence | NearLimit \<Rightarrow> cadence div NEAR_LIMIT_CADENCE_DIVISOR)"
  have "uint centre \<le> uint cadence"
    using zdiv_mono2 [of "uint cadence" 1 2]
    by (simp add: centre_def NEAR_LIMIT_CADENCE_DIVISOR_def uint_div split: probe_urgency.split)
  with assms have c: "uint centre \<le> 2 ^ 40" by simp
  have "max (uint centre) 1 + max (uint centre) 1 * 30 div 100 \<le> 2 ^ 41" using c by auto
  with jittered_interval_bounds [OF c, of draw] show ?thesis
    by (simp add: probe_interval_secs_def centre_def Let_def)
qed

lemma initial_offset_bounds:
  assumes "uint cadence \<le> 2 ^ 40"
  shows "0 \<le> uint (initial_offset_secs cadence draw) \<and> uint (initial_offset_secs cadence draw) \<le> max (uint cadence) 1"
proof -
  have "uint (max cadence 1 + 1) = max (uint cadence) 1 + 1"
    using assms by (subst uint_small_add) (auto simp: uint_max)
  then show ?thesis
    using pos_mod_bound [of "max (uint cadence) 1 + 1" "uint draw"] by (simp add: initial_offset_secs_def uint_mod)
qed

lemma sleep_bounds: "MIN_SLEEP_MS \<le> sleep_for now next_due \<and> sleep_for now next_due \<le> MAX_SLEEP_MS"
  by (simp add: sleep_for_def clamp_int_def MIN_SLEEP_MS_def MAX_SLEEP_MS_def Let_def)

section \<open>The trailing-hour cap\<close>

definition clock_end :: "i64 \<Rightarrow> sched_event list \<Rightarrow> i64" where
  "clock_end t es = (if es = [] then t else snd (event_times (last es)))"

lemma fires_snoc: "fires idx (es @ [e]) = fires idx es @ fires idx [e]"
  by (induction idx es rule: fires.induct) auto

lemma clock_forward_snoc:
  "clock_forward t (es @ [e]) \<longleftrightarrow> clock_forward t es \<and> clock_end t es \<le> fst (event_times e) \<and>
     fst (event_times e) \<le> snd (event_times e) \<and> snd (event_times e) \<le> 2 ^ 60"
  by (induction es arbitrary: t) (auto simp: clock_end_def split_beta)

lemma hm_get_filter_keys: "hm_get (filter (\<lambda>(k, _). k \<in> S) m) k = (if k \<in> S then hm_get m k else None)"
  by (induction m) (auto simp: hm_get_def)

lemma drop_left_window_drop: "\<exists>n \<le> length ts. drop_left_window now ts = drop n ts \<and> (\<forall>i<n. ts ! i \<le> i64_sub now CAP_WINDOW_MS)"
proof (induction ts)
  case (Cons t ts)
  then obtain n where n: "n \<le> length ts" "drop_left_window now ts = drop n ts" "\<forall>i<n. ts ! i \<le> i64_sub now CAP_WINDOW_MS" by blast
  show ?case
  proof (cases "t \<le> i64_sub now CAP_WINDOW_MS")
    case True
    with n show ?thesis by (intro exI [of _ "Suc n"]) (auto simp: nth_Cons')
  qed auto
qed simp

text \<open>
  The state of one account: \<open>F\<close> holds the start and end of each of its sends. The kept fire times are
  the ends, less those more than an hour old; the next send is due no earlier than an hour after the
  end of the cap-th last.
\<close>

definition due_spaced :: "nat \<Rightarrow> (i64 \<times> i64) list \<Rightarrow> i64 \<Rightarrow> bool" where
  "due_spaced cap F t \<longleftrightarrow> (0 < cap \<and> cap \<le> length F \<longrightarrow> snd (F ! (length F - cap)) + CAP_WINDOW_MS \<le> t)"

definition kept_fires :: "i64 \<Rightarrow> (i64 \<times> i64) list \<Rightarrow> i64 list \<Rightarrow> bool" where
  "kept_fires clock F kept \<longleftrightarrow>
     (\<exists>n \<le> length F. kept = drop n (map snd F) \<and> (\<forall>i<n. snd (F ! i) + CAP_WINDOW_MS \<le> clock)) \<and>
     (\<forall>(a, b)\<in>set F. a \<le> b \<and> 0 \<le> b \<and> b \<le> clock)"

definition cap_inv :: "nat \<Rightarrow> nat \<Rightarrow> (i64 \<times> i64) list \<Rightarrow> i64 \<Rightarrow> fleet_schedule \<Rightarrow> bool" where
  "cap_inv cap idx F clock s \<longleftrightarrow>
     fs_cap s = Some cap \<and> hm_ok (fs_due_ms s) \<and> 0 \<le> clock \<and> clock \<le> 2 ^ 60 \<and>
     kept_fires clock F (unwrap_or (hm_get (fs_fired_ms s) idx) []) \<and>
     (\<forall>t. hm_get (fs_due_ms s) idx = Some t \<longrightarrow> due_spaced cap F t)"

lemma kept_fires_later:
  assumes "kept_fires clock F kept" and "clock \<le> clock'"
  shows "kept_fires clock' F kept"
proof -
  obtain n where "n \<le> length F" "kept = drop n (map snd F)" "\<forall>i<n. snd (F ! i) + CAP_WINDOW_MS \<le> clock"
    using assms(1) by (auto simp: kept_fires_def)
  then have "\<exists>n \<le> length F. kept = drop n (map snd F) \<and> (\<forall>i<n. snd (F ! i) + CAP_WINDOW_MS \<le> clock')"
    using assms(2) by (intro exI [of _ n]) (meson order_trans)
  then show ?thesis using assms by (auto simp: kept_fires_def)
qed

lemma cap_inv_later: "cap_inv cap idx F clock s \<Longrightarrow> clock \<le> clock' \<Longrightarrow> clock' \<le> 2 ^ 60 \<Longrightarrow> cap_inv cap idx F clock' s"
  unfolding cap_inv_def using kept_fires_later by auto

lemma cap_clamp_spaced:
  assumes "fs_cap s = Some cap" and "kept_fires clock F (unwrap_or (hm_get (fs_fired_ms s) idx) [])"
    and "clock \<le> want" and "clock \<le> 2 ^ 60"
  shows "due_spaced cap F (cap_clamp s idx want)"
  unfolding due_spaced_def
proof
  assume cap: "0 < cap \<and> cap \<le> length F"
  define kept where "kept = unwrap_or (hm_get (fs_fired_ms s) idx) []"
  obtain n where n: "n \<le> length F" "kept = drop n (map snd F)" "\<forall>i<n. snd (F ! i) + CAP_WINDOW_MS \<le> clock"
    using assms(2) by (auto simp: kept_fires_def kept_def)
  show "snd (F ! (length F - cap)) + CAP_WINDOW_MS \<le> cap_clamp s idx want"
  proof (cases "cap \<le> length kept")
    case True
    then have "hm_get (fs_fired_ms s) idx = Some kept" using cap by (cases "hm_get (fs_fired_ms s) idx") (auto simp: kept_def)
    moreover have k: "kept ! (length kept - cap) = snd (F ! (length F - cap))" using n(1,2) True cap by (auto simp: nth_map)
    moreover have "F ! (length F - cap) \<in> set F" using cap by (intro nth_mem) auto
    then have "0 \<le> snd (F ! (length F - cap))" "snd (F ! (length F - cap)) \<le> 2 ^ 60"
      using assms(2,4) by (auto simp: kept_fires_def split_beta)
    then have "i64_add (snd (F ! (length F - cap))) CAP_WINDOW_MS = snd (F ! (length F - cap)) + CAP_WINDOW_MS"
      by (intro i64_add_small) (auto simp: in_i64_def i64_min_def i64_max_def CAP_WINDOW_MS_def)
    moreover have "length kept - cap < length kept" using True cap by auto
    ultimately show ?thesis using True assms(1) by (simp add: cap_clamp_def get_def)
  next
    case False
    then have "length F - cap < n" using n(1,2) cap by simp
    then have "snd (F ! (length F - cap)) + CAP_WINDOW_MS \<le> want" using n(3) assms(3) by fastforce
    moreover have "want \<le> cap_clamp s idx want" by (auto simp: cap_clamp_def split: option.splits)
    ultimately show ?thesis by simp
  qed
qed

lemma later_by:
  assumes "0 \<le> now" "now \<le> 2 ^ 60" "uint w \<le> 2 ^ 41"
  shows "now \<le> i64_add now (i64_mul 1000 (u64_as_i64 w))"
proof -
  define v where "v = uint w"
  have v: "0 \<le> v" "v \<le> 2 ^ 41" using assms(3) by (simp_all add: v_def)
  have "- (2 ^ 63) \<le> v" "v < 2 ^ 63" using v by simp_all
  then have "signed_take_bit 63 v = v" by (rule signed_take_bit_int_eq_self)
  then have "u64_as_i64 w = v" by (simp add: u64_as_i64_def sint_uint v_def)
  moreover have "in_i64 (1000 * v)" "in_i64 (now + 1000 * v)"
    using assms v by (simp_all add: in_i64_def i64_min_def i64_max_def)
  ultimately show ?thesis using v by (simp add: i64_add_def i64_mul_def)
qed

lemma record_fire_kept:
  assumes "fs_cap s = Some cap" and "kept_fires clock F (unwrap_or (hm_get (fs_fired_ms s) idx) [])"
    and "clock \<le> started" and "started \<le> finished" and "0 \<le> clock" and "finished \<le> 2 ^ 60"
  shows "kept_fires finished (F @ [(started, finished)])
    (unwrap_or (hm_get (fs_fired_ms (record_fire idx finished s)) idx) [])"
proof -
  define kept where "kept = unwrap_or (hm_get (fs_fired_ms s) idx) []"
  obtain n where n: "n \<le> length F" "kept = drop n (map snd F)" "\<forall>i<n. snd (F ! i) + CAP_WINDOW_MS \<le> clock"
    using assms(2) by (auto simp: kept_fires_def kept_def)
  have sub: "i64_sub finished CAP_WINDOW_MS = finished - CAP_WINDOW_MS"
    using assms(3-6) by (simp add: i64_sub_def CAP_WINDOW_MS_def in_i64_def i64_min_def i64_max_def)
  obtain k where k: "k \<le> length (kept @ [finished])" "drop_left_window finished (kept @ [finished]) = drop k (kept @ [finished])"
    "\<forall>i<k. (kept @ [finished]) ! i \<le> finished - CAP_WINDOW_MS"
    using drop_left_window_drop [of "kept @ [finished]" finished] by (auto simp: sub)
  let ?F = "F @ [(started, finished)]"
  have app: "kept @ [finished] = drop n (map snd ?F)" using n(1,2) by simp
  have "snd (?F ! i) + CAP_WINDOW_MS \<le> finished" if "i < n + k" for i
  proof (cases "i < n")
    case True
    with n assms(3,4) show ?thesis by (fastforce simp: nth_append)
  next
    case False
    with that have "(kept @ [finished]) ! (i - n) \<le> finished - CAP_WINDOW_MS" using k(3) by simp
    moreover have "(kept @ [finished]) ! (i - n) = snd (?F ! i)"
      using False that n(1) k(1) n(2) unfolding app by (subst nth_drop) (auto simp: nth_map simp del: map_append)
    ultimately show ?thesis by simp
  qed
  moreover have "drop k (kept @ [finished]) = drop (n + k) (map snd ?F)" unfolding app by (simp add: add.commute del: map_append)
  moreover have "n + k \<le> length ?F" using n(1,2) k(1) by simp
  moreover have "\<forall>(a, b)\<in>set ?F. a \<le> b \<and> 0 \<le> b \<and> b \<le> finished"
    using assms(2-5) by (fastforce simp: kept_fires_def)
  ultimately have "kept_fires finished ?F (drop k (kept @ [finished]))"
    unfolding kept_fires_def by blast
  then show ?thesis using assms(1) k(2) by (simp add: record_fire_def kept_def)
qed

lemma cap_inv_reschedule:
  assumes "cap_inv cap idx F clock s" and "clock \<le> started" and "started \<le> finished" and "finished \<le> 2 ^ 60"
    and "uint cadence \<le> 2 ^ 40"
  shows "cap_inv cap idx (F @ [(started, finished)]) finished (fst (reschedule idx finished cadence u (s, g)))"
proof -
  let ?s1 = "record_fire idx finished s"
  have inv: "fs_cap s = Some cap" "hm_ok (fs_due_ms s)" "0 \<le> clock"
    "kept_fires clock F (unwrap_or (hm_get (fs_fired_ms s) idx) [])"
    using assms(1) by (simp_all add: cap_inv_def)
  note kept = record_fire_kept [OF inv(1,4) assms(2,3) inv(3) assms(4)]
  have cap: "fs_cap ?s1 = Some cap" "fs_due_ms ?s1 = fs_due_ms s" using inv(1) by (simp_all add: record_fire_def)
  have "finished \<le> i64_add finished (i64_mul 1000 (u64_as_i64 (probe_interval_secs cadence u draw)))" for draw
    using assms(2-4) inv(3) probe_interval_bounds [OF assms(5), of u draw] by (intro later_by) auto
  from cap_clamp_spaced [OF cap(1) kept this assms(4)] kept cap inv assms show ?thesis
    by (auto simp: cap_inv_def reschedule_def Let_def split_beta)
qed

lemma cap_inv_reschedule_other:
  assumes "cap_inv cap idx F clock s" and "other \<noteq> idx"
  shows "cap_inv cap idx F clock (fst (reschedule other now cadence u (s, g)))"
  using assms by (auto simp: cap_inv_def reschedule_def record_fire_def Let_def split_beta)

lemma cap_inv_sync_one:
  assumes "cap_inv cap idx F now (fst sg)" and "uint cadence \<le> 2 ^ 40"
  shows "cap_inv cap idx F now (fst (sync_one now cadence i sg))"
proof (cases "hm_get (fs_due_ms (fst sg)) i = None \<and> i = idx")
  case True
  obtain s g where sg: "sg = (s, g)" by force
  have inv: "fs_cap s = Some cap" "kept_fires now F (unwrap_or (hm_get (fs_fired_ms s) idx) [])" "0 \<le> now" "now \<le> 2 ^ 60"
    using assms(1) by (simp_all add: cap_inv_def sg)
  have "now \<le> i64_add now (i64_mul 1000 (u64_as_i64 (initial_offset_secs cadence draw)))" for draw
    using inv(3,4) initial_offset_bounds [OF assms(2), of draw] assms(2) by (intro later_by) auto
  from cap_clamp_spaced [OF inv(1,2) this inv(4)] True assms(1) show ?thesis
    by (auto simp: cap_inv_def sync_one_def sg Let_def split_beta)
next
  case False
  with assms(1) show ?thesis by (auto simp: cap_inv_def sync_one_def Let_def split_beta)
qed

lemma cap_inv_sync:
  assumes "cap_inv cap idx F clock (fst sg)" and "clock \<le> now" and "now \<le> 2 ^ 60" and "uint cadence \<le> 2 ^ 40"
  shows "cap_inv cap idx F now (fst (sync now who cadence sg))"
proof -
  have "cap_inv cap idx F now (fst (fold (sync_one now cadence) ids sg'))" if "cap_inv cap idx F now (fst sg')" for ids sg'
    using that cap_inv_sync_one [OF _ assms(4)] by (induction ids arbitrary: sg') auto
  moreover obtain s g where sg: "sg = (s, g)" by force
  moreover have "cap_inv cap idx F now (s\<lparr>fs_due_ms := filter (\<lambda>(i, _). i \<in> set who) (fs_due_ms s)\<rparr>)"
    using cap_inv_later [OF assms(1-3)] by (simp add: sg cap_inv_def hm_get_filter_keys hm_ok_filter)
  ultimately show ?thesis by (simp add: sync_def)
qed

lemma due_hm_get: "hm_ok (fs_due_ms s) \<Longrightarrow> idx \<in> set (due s now) \<Longrightarrow> \<exists>t\<le>now. hm_get (fs_due_ms s) idx = Some t"
  by (auto simp: due_def hm_get_in)

definition fires_spaced :: "nat \<Rightarrow> (i64 \<times> i64) list \<Rightarrow> bool" where
  "fires_spaced cap F \<longleftrightarrow> (\<forall>k. k + cap < length F \<longrightarrow> fst (F ! k) + CAP_WINDOW_MS \<le> fst (F ! (k + cap)))"

lemma fires_spaced_snoc:
  assumes "fires_spaced cap F" and "0 < cap" and "due_spaced cap F t" and "t \<le> started" and "\<forall>(a, b)\<in>set F. a \<le> b"
  shows "fires_spaced cap (F @ [(started, finished)])"
  unfolding fires_spaced_def
proof (intro allI impI)
  fix k
  assume k: "k + cap < length (F @ [(started, finished)])"
  show "fst ((F @ [(started, finished)]) ! k) + CAP_WINDOW_MS \<le> fst ((F @ [(started, finished)]) ! (k + cap))"
  proof (cases "k + cap < length F")
    case True
    with assms(1) show ?thesis by (simp add: fires_spaced_def nth_append)
  next
    case False
    then have e: "k + cap = length F" "k < length F" using k assms(2) by auto
    then have "fst (F ! k) \<le> snd (F ! k)" using assms(5) nth_mem [of k F] by (auto simp: split_beta)
    moreover have "snd (F ! k) + CAP_WINDOW_MS \<le> t"
      using assms(2,3) e(1) [symmetric] by (auto simp: due_spaced_def)
    ultimately show ?thesis using assms(4) e by (simp add: nth_append)
  qed
qed

lemma capped_run:
  assumes "sched_run cadence (capped cap, g) es sg'" and "clock_forward 0 es"
    and "0 < cap" and "uint cadence \<le> 2 ^ 40"
  shows "cap_inv cap idx (fires idx es) (clock_end 0 es) (fst sg') \<and> fires_spaced cap (fires idx es)"
  using assms(1,2)
proof (induction "(capped cap, g)" es sg' rule: sched_run.induct)
  case run_nil
  then show ?case
    by (simp add: cap_inv_def capped_def schedule_default_def kept_fires_def hm_get_def fires_spaced_def clock_end_def)
next
  case (run_snoc es sg' e sg'')
  let ?F = "fires idx es" and ?clock = "clock_end 0 es"
  have inv: "cap_inv cap idx ?F ?clock (fst sg')" "fires_spaced cap ?F"
    and clock: "?clock \<le> fst (event_times e)" "fst (event_times e) \<le> snd (event_times e)" "snd (event_times e) \<le> 2 ^ 60"
    using run_snoc by (auto simp: clock_forward_snoc)
  have last: "clock_end 0 (es @ [e]) = snd (event_times e)" by (simp add: clock_end_def)
  obtain s g' where sg': "sg' = (s, g')" by force
  show ?case
  proof (cases e)
    case (Sync now who)
    with run_snoc.hyps(3) have "sg'' = sync now who cadence sg'" by auto
    with cap_inv_sync [OF inv(1) _ _ assms(4)] clock inv(2) show ?thesis
      unfolding last fires_snoc by (simp add: Sync)
  next
    case (Fire i started finished u)
    with run_snoc.hyps(3) have due: "i \<in> set (due s started)" and sg'': "sg'' = reschedule i finished cadence u sg'"
      by (auto simp: sg')
    have le: "?clock \<le> finished" using clock Fire by simp
    show ?thesis
    proof (cases "i = idx")
      case True
      obtain t where t: "t \<le> started" "hm_get (fs_due_ms s) idx = Some t"
        using due_hm_get [OF _ due] inv(1) True by (auto simp: cap_inv_def sg')
      have "due_spaced cap ?F t" "\<forall>(a, b)\<in>set ?F. a \<le> b"
        using inv(1) t(2) by (auto simp: cap_inv_def kept_fires_def sg')
      from fires_spaced_snoc [OF inv(2) assms(3) this(1) t(1) this(2)]
        cap_inv_reschedule [OF inv(1) [unfolded sg' fst_conv] _ _ _ assms(4)] clock True show ?thesis
        unfolding last fires_snoc by (simp add: Fire sg'' sg')
    next
      case False
      with cap_inv_later [OF cap_inv_reschedule_other [OF inv(1) [unfolded sg' fst_conv] False] le] clock inv(2) show ?thesis
        unfolding last fires_snoc by (simp add: Fire sg'' sg')
    qed
  next
    case (Woken now)
    with run_snoc.hyps(3) inv(1) show ?thesis by (auto simp: cap_inv_def)
  qed
qed

text \<open>
  C23. The probe scheduler keeps its hourly budget, on a clock that never steps back. In every run of a capped
  schedule, with whatever accounts coming and going, whatever draws and however near its limit an account is, an
  account's \<open>k + cap\<close>-th scheduled send starts at least sixty minutes after its \<open>k\<close>-th: no trailing hour
  holds more than \<open>cap\<close> of them. Counted are the sends the scheduler itself fires; the sweep at boot, the
  second try after a 401 and the probes of the command line are not its sends.
\<close>

theorem probe_budget_per_hour:
  assumes "sched_run cadence (capped cap, g) es sg" and "clock_forward 0 es" and "0 < cap" and "uint cadence \<le> 2 ^ 40"
    and "k + cap < length (fires idx es)"
  shows "fst (fires idx es ! k) + 60 * 60 * 1000 \<le> fst (fires idx es ! (k + cap))"
  using capped_run [OF assms(1-4), of idx] assms(5) by (simp add: fires_spaced_def CAP_WINDOW_MS_def)

text \<open>One account under a cap of one, at a ten second cadence: the second send waits for the hour.\<close>

definition one_probed :: "sched_event list" where
  "one_probed = [Sync 0 [4], Fire 4 20000 21000 NearLimit, Sync 25000 [4], Fire 4 3630000 3631000 Routine]"

definition one_probed_states :: "(fleet_schedule \<times> rng) list" where
  "one_probed_states =
     (let s0 = (capped 1, \<lparr>rng_state = 7\<rparr>);
          s1 = sync 0 [4] 10 s0; s2 = reschedule 4 21000 10 NearLimit s1;
          s3 = sync 25000 [4] 10 s2; s4 = reschedule 4 3631000 10 Routine s3
      in [s0, s1, s2, s3, s4])"

lemma one_probed_runs: "\<exists>sg. sched_run 10 (capped 1, \<lparr>rng_state = 7\<rparr>) one_probed sg"
proof -
  let ?s = "\<lambda>i. one_probed_states ! i"
  have syncs: "sched_step 10 (?s 0) (Sync 0 [4]) (?s 1)" "sched_step 10 (?s 2) (Sync 25000 [4]) (?s 3)"
    using sync_step [of 10 "?s 0" 0 "[4]"] sync_step [of 10 "?s 2" 25000 "[4]"]
    by (simp_all add: one_probed_states_def Let_def)
  have "4 \<in> set (due (fst (?s 1)) 20000)" "4 \<in> set (due (fst (?s 3)) 3630000)" by code_simp+
  then have fires: "sched_step 10 (?s 1) (Fire 4 20000 21000 NearLimit) (?s 2)"
    "sched_step 10 (?s 3) (Fire 4 3630000 3631000 Routine) (?s 4)"
    using fire_step [of 4 "?s 1" 20000 10 21000 NearLimit] fire_step [of 4 "?s 3" 3630000 10 3631000 Routine]
    by (simp_all add: one_probed_states_def Let_def)
  have "sched_run 10 (capped 1, \<lparr>rng_state = 7\<rparr>) one_probed (?s 4)"
    using run_snoc [OF run_snoc [OF run_snoc [OF run_snoc [OF run_nil syncs(1)] fires(1)] syncs(2)] fires(2)]
    by (simp add: one_probed_def one_probed_states_def Let_def)
  then show ?thesis by blast
qed

theorem probe_budget_per_hour_witness:
  "fst (fires 4 one_probed ! 0) + 60 * 60 * 1000 \<le> fst (fires 4 one_probed ! 1)"
proof -
  obtain sg where "sched_run 10 (capped 1, \<lparr>rng_state = 7\<rparr>) one_probed sg" using one_probed_runs by blast
  moreover have "clock_forward 0 one_probed" by (simp add: one_probed_def)
  moreover have "0 + 1 < length (fires 4 one_probed)" by (simp add: one_probed_def)
  ultimately show ?thesis using probe_budget_per_hour [of 10 1 _ one_probed sg 0 4] by simp
qed

end
