(* ===== verification/Strings.thy ===== *)
theory Strings
  imports F64
begin

text \<open>
  The standard library's operations on text that the parsers and printers of the sources share:
  splitting, joining, stripping, the decimal digits of a number, and the parsing of an unsigned number
  of a given width.
\<close>

section \<open>Splitting and joining\<close>

text \<open>\<open>str::split\<close> on one character.\<close>

fun split_on :: "char \<Rightarrow> string \<Rightarrow> string list" where
  "split_on c [] = [[]]"
| "split_on c (x # xs) =
     (if x = c then [] # split_on c xs
      else case split_on c xs of [] \<Rightarrow> [[x]] | w # ws \<Rightarrow> (x # w) # ws)"

definition split_once :: "char \<Rightarrow> string \<Rightarrow> (string \<times> string) option" where
  "split_once c s = (if c \<in> set s then Some (takeWhile (\<lambda>x. x \<noteq> c) s, tl (dropWhile (\<lambda>x. x \<noteq> c) s)) else None)"

text \<open>\<open>join\<close> of a list of strings.\<close>

fun join_with :: "string \<Rightarrow> string list \<Rightarrow> string" where
  "join_with s [] = []"
| "join_with s [w] = w"
| "join_with s (w # ws) = w @ s @ join_with s ws"

definition strip_prefix :: "string \<Rightarrow> string \<Rightarrow> string option" where
  "strip_prefix p s = (if starts_with s p then Some (drop (length p) s) else None)"

section \<open>Numbers\<close>

text \<open>The decimal digits of a number, as \<open>format!\<close> prints it.\<close>

fun decimal :: "nat \<Rightarrow> string" where
  "decimal n = (if n < 10 then [char_of (48 + n)] else decimal (n div 10) @ [char_of (48 + n mod 10)])"

declare decimal.simps [simp del]

fun undecimal :: "string \<Rightarrow> nat" where
  "undecimal s = foldl (\<lambda>n c. 10 * n + (of_char c - 48)) 0 s"

lemma undecimal_decimal [simp]: "undecimal (decimal n) = n"
proof (induction n rule: decimal.induct)
  case (1 n)
  then show ?case by (subst decimal.simps) (auto simp: take_bit_eq_mod simp del: One_nat_def)
qed

lemma decimal_inject [simp]: "decimal a = decimal b \<longleftrightarrow> a = b"
  by (metis undecimal_decimal)

text \<open>\<open>str::parse\<close> of an unsigned number of \<open>w\<close> bits: a plus sign before at least one digit, or none.\<close>

definition strip_plus :: "string \<Rightarrow> string" where
  "strip_plus s = (case s of CHR ''+'' # d # t \<Rightarrow> d # t | _ \<Rightarrow> s)"

definition parse_unsigned :: "nat \<Rightarrow> string \<Rightarrow> nat option" where
  "parse_unsigned w s =
     (case parse_nat1 (strip_plus s) of None \<Rightarrow> None
      | Some n \<Rightarrow> if n < 2 ^ w then Some (nat n) else None)"

text \<open>\<open>char::to_digit(16)\<close>, \<open>from_str_radix(_, 16)\<close> of an unsigned number of \<open>w\<close> bits, a lower-case digit, and a
  number in a fixed number of digits.\<close>

definition hex_value :: "char \<Rightarrow> nat option" where
  "hex_value c = (let n = of_char c in
     if 48 \<le> n \<and> n \<le> 57 then Some (n - 48)
     else if 97 \<le> n \<and> n \<le> 102 then Some (n - 87)
     else if 65 \<le> n \<and> n \<le> 70 then Some (n - 55) else None)"

fun hex_digits :: "nat \<Rightarrow> nat \<Rightarrow> string \<Rightarrow> nat option" where
  "hex_digits w acc [] = Some acc"
| "hex_digits w acc (c # cs) =
     (case hex_value c of
        None \<Rightarrow> None
      | Some d \<Rightarrow> let acc' = 16 * acc + d in if acc' \<ge> 2 ^ w then None else hex_digits w acc' cs)"

definition from_hex :: "nat \<Rightarrow> string \<Rightarrow> nat option" where
  "from_hex w s = (if s = [] then None else hex_digits w 0 (strip_plus s))"

definition hex_char :: "nat \<Rightarrow> char" where
  "hex_char d = char_of (if d < 10 then 48 + d else 87 + d)"

fun hex_fixed :: "nat \<Rightarrow> nat \<Rightarrow> string" where
  "hex_fixed 0 n = []"
| "hex_fixed (Suc k) n = hex_fixed k (n div 16) @ [hex_char (n mod 16)]"

section \<open>Lemmas\<close>

lemma split_once_append [simp]: "c \<notin> set a \<Longrightarrow> split_once c (a @ c # b) = Some (a, b)"
proof -
  assume "c \<notin> set a"
  then have t: "\<forall>x\<in>set a. x \<noteq> c" by auto
  show ?thesis using t by (simp add: split_once_def takeWhile_append2 dropWhile_append2)
qed

lemma split_on_none: "c \<notin> set w \<Longrightarrow> split_on c w = [w]"
  by (induction w) auto

lemma split_on_append: "c \<notin> set w \<Longrightarrow> split_on c (w @ c # s) = w # split_on c s"
  by (induction w) auto

lemma split_on_join:
  "ws \<noteq> [] \<Longrightarrow> (\<And>w. w \<in> set ws \<Longrightarrow> c \<notin> set w) \<Longrightarrow> split_on c (join_with [c] ws) = ws"
proof (induction ws)
  case (Cons w ws)
  then show ?case by (cases ws) (simp_all add: split_on_none split_on_append)
qed simp

lemma strip_prefix_append [simp]: "strip_prefix p (p @ s) = Some s"
  by (simp add: strip_prefix_def)

lemma trim_id:
  assumes "s \<noteq> [] \<Longrightarrow> \<not> is_ascii_space (hd s) \<and> \<not> is_ascii_space (last s)"
  shows "trim s = s"
proof -
  have keep: "dropWhile is_ascii_space w = w" if "w \<noteq> [] \<Longrightarrow> \<not> is_ascii_space (hd w)" for w
    using that by (cases w) simp_all
  show ?thesis using keep [of s] keep [of "rev s"] assms by (auto simp: trim_def hd_rev)
qed

lemma trim_no_space: "(\<And>c. c \<in> set s \<Longrightarrow> \<not> is_ascii_space c) \<Longrightarrow> trim s = s"
  by (rule trim_id) simp

lemma digit_char: "d < 10 \<Longrightarrow> digit_of (char_of (48 + d)) = Some d"
  by (simp add: digit_of_def take_bit_eq_mod)

lemma decimal_digits: "c \<in> set (decimal n) \<Longrightarrow> is_digit c"
proof (induction n rule: decimal.induct)
  case (1 n)
  have d: "is_digit (char_of (48 + n mod 10))" "n < 10 \<Longrightarrow> is_digit (char_of (48 + n))"
    by (simp_all add: is_digit_def digit_char del: of_char_of char_of_mod_256)
  have "c \<in> set (if n < 10 then [char_of (48 + n)] else decimal (n div 10) @ [char_of (48 + n mod 10)])"
    using "1.prems" by (subst (asm) decimal.simps)
  with d "1.IH" show ?case by (auto split: if_splits)
qed

lemma decimal_not_Nil [simp]: "decimal n \<noteq> []"
  by (subst decimal.simps) simp

lemma parse_digits_append:
  "parse_digits (a @ b) acc = Option.bind (parse_digits a acc) (parse_digits b)"
  by (induction a arbitrary: acc) (auto split: option.splits)

lemma parse_digits_decimal: "parse_digits (decimal n) 0 = Some (int n)"
proof (induction n rule: decimal.induct)
  case (1 n)
  show ?case
  proof (cases "n < 10")
    case True
    then show ?thesis by (subst decimal.simps) (simp add: digit_char)
  next
    case False
    with 1 have "parse_digits (decimal (n div 10)) 0 = Some (int (n div 10))" by simp
    moreover have "digit_of (char_of (48 + n mod 10)) = Some (n mod 10)" by (rule digit_char) simp
    moreover have "10 * int (n div 10) + int (n mod 10) = int n" by presburger
    ultimately show ?thesis using False
      by (subst decimal.simps) (simp add: parse_digits_append)
  qed
qed

lemma strip_plus_digits: "(\<And>c. c \<in> set s \<Longrightarrow> c \<noteq> CHR ''+'') \<Longrightarrow> strip_plus s = s"
  by (cases s) (auto simp: strip_plus_def split: list.splits char.splits bool.splits)

lemma parse_unsigned_decimal [simp]: "n < 2 ^ w \<Longrightarrow> parse_unsigned w (decimal n) = Some n"
proof -
  assume n: "n < 2 ^ w"
  have "strip_plus (decimal n) = decimal n"
  proof (rule strip_plus_digits)
    fix c assume "c \<in> set (decimal n)"
    then have "is_digit c" by (rule decimal_digits)
    then show "c \<noteq> CHR ''+''" by (auto simp: is_digit_def digit_of_def)
  qed
  moreover have "int n < 2 ^ w" using n by (metis of_nat_less_iff of_nat_numeral of_nat_power)
  ultimately show ?thesis by (simp add: parse_unsigned_def parse_nat1_def parse_digits_decimal)
qed

lemma hex_value_char [simp]: "d < 16 \<Longrightarrow> hex_value (hex_char d) = Some d"
  by (auto simp: hex_value_def hex_char_def Let_def take_bit_eq_mod)

lemma hex_digits_append: "hex_digits w acc (a @ b) = Option.bind (hex_digits w acc a) (\<lambda>r. hex_digits w r b)"
  by (induction w acc a rule: hex_digits.induct) (auto simp: Let_def split: option.splits)

lemma hex_digits_fixed: "n < 16 ^ k \<Longrightarrow> 16 ^ k \<le> (2 :: nat) ^ w \<Longrightarrow> hex_digits w 0 (hex_fixed k n) = Some n"
proof (induction k arbitrary: n)
  case (Suc k)
  then have "n div 16 < 16 ^ k" "(16 :: nat) ^ k \<le> 2 ^ w" by (auto intro: order_trans [rotated])
  then have "hex_digits w 0 (hex_fixed k (n div 16)) = Some (n div 16)" by (rule Suc.IH)
  moreover have "16 * (n div 16) + n mod 16 = n" by simp
  moreover have "n < 2 ^ w" using Suc.prems by linarith
  ultimately show ?case by (simp add: hex_digits_append)
qed simp

lemma hex_char_chars: "d < 16 \<Longrightarrow> hex_char d \<noteq> CHR ''+'' \<and> \<not> is_ascii_space (hex_char d) \<and> hex_char d \<noteq> CHR ''x''"
proof -
  assume d: "d < 16"
  have "hex_value (CHR ''+'') = None" "hex_value (CHR ''x'') = None" by (simp_all add: hex_value_def)
  moreover have "\<not> is_ascii_space (hex_char d)"
    using d by (auto simp: is_ascii_space_def hex_char_def Let_def take_bit_eq_mod)
  ultimately show ?thesis using hex_value_char [OF d] by auto
qed

lemma hex_fixed_chars: "c \<in> set (hex_fixed k n) \<Longrightarrow> c \<noteq> CHR ''+'' \<and> \<not> is_ascii_space c \<and> c \<noteq> CHR ''x''"
  by (induction k arbitrary: n) (auto simp: hex_char_chars)

lemma length_hex_fixed [simp]: "length (hex_fixed k n) = k"
  by (induction k arbitrary: n) simp_all

lemma from_hex_fixed:
  assumes "n < 16 ^ k" "16 ^ k \<le> (2 :: nat) ^ w" "0 < k"
  shows "from_hex w (hex_fixed k n) = Some n"
proof -
  have "hex_fixed k n \<noteq> []" using assms(3) by (metis length_0_conv length_hex_fixed less_numeral_extra(3))
  moreover have "strip_plus (hex_fixed k n) = hex_fixed k n" by (rule strip_plus_digits) (simp add: hex_fixed_chars)
  ultimately show ?thesis using hex_digits_fixed [OF assms(1,2)] by (simp add: from_hex_def)
qed

end
