(* ===== verification/Ladder.thy ===== *)
theory Ladder
  imports Exhaustion Account_Ops Strings
begin

text \<open>
  The rotation ladder of one request: the state of \<^verbatim>\<open>src/proxy/ladder.rs\<close> with its operations, the
  tally and the verdict read off it, the decision functions of \<^verbatim>\<open>src/proxy.rs\<close>, and the arms of its
  attempt (transport failure, 401, 403, 429, 529), each giving the step it decides, the ladder after it
  and what it does to the account. A response body is what a bounded read returned; a decoder of JSON
  is an argument. Message texts are left out of the answers.
\<close>

section \<open>Answers\<close>

datatype error_kind =
    InvalidRequest | Proxy | Api | NotFound | Authentication | Permission | RateLimitKind | UpgradeRequired

fun error_kind_as_str :: "error_kind \<Rightarrow> string" where
  "error_kind_as_str InvalidRequest = ''invalid_request_error''"
| "error_kind_as_str Proxy = ''proxy_error''"
| "error_kind_as_str Api = ''api_error''"
| "error_kind_as_str NotFound = ''not_found_error''"
| "error_kind_as_str Authentication = ''authentication_error''"
| "error_kind_as_str Permission = ''permission_error''"
| "error_kind_as_str RateLimitKind = ''rate_limit_error''"
| "error_kind_as_str UpgradeRequired = ''upgrade_required''"

datatype codex_refusal_kind = NoCodexAccount | UsageLimitReached | PoolUnavailable | CredentialRefused | ModelUnavailable

text \<open>What the client gets: a refusal of the proxy's own (status, kind, \<open>retry-after\<close>,
  \<open>x-should-retry\<close>), a Codex refusal, upstream's refusal with the proxy's sentence merged in, or an
  answer forwarded as it came.\<close>

datatype answer =
    Client_Error (ans_status: nat) error_kind "i64 option" "bool option"
  | Codex_Error (ans_status: nat) codex_refusal_kind "i64 option"
  | Codex_Merged (ans_status: nat)
  | Forwarded (ans_status: nat)

section \<open>Decisions\<close>

definition INLINE_WAIT_MAX_SECS :: i64 where "INLINE_WAIT_MAX_SECS = 15"
definition MAX_SAME_ACCOUNT_429 :: nat where "MAX_SAME_ACCOUNT_429 = 2"
definition NO_GUIDANCE_HOLD_SECS :: i64 where "NO_GUIDANCE_HOLD_SECS = 15"
definition NO_GUIDANCE_JITTER_MAX_SECS :: i64 where "NO_GUIDANCE_JITTER_MAX_SECS = 5"
definition MAX_QUOTA_HOLD_SECS :: i64 where "MAX_QUOTA_HOLD_SECS = 3600"
definition QUOTA_HOLD_JITTER_MAX_SECS :: i64 where "QUOTA_HOLD_JITTER_MAX_SECS = 90"
definition EXHAUSTION_SOFT_WAIT_MAX_SECS :: i64 where
  "EXHAUSTION_SOFT_WAIT_MAX_SECS = NO_GUIDANCE_HOLD_SECS + NO_GUIDANCE_JITTER_MAX_SECS"
definition CLIENT_RETRY_AFTER_MAX_SECS :: i64 where "CLIENT_RETRY_AFTER_MAX_SECS = 59"
definition STATUS_OVERLOADED :: nat where "STATUS_OVERLOADED = 529"
definition MAX_SAME_ACCOUNT_529_RETRIES :: nat where "MAX_SAME_ACCOUNT_529_RETRIES = 2"
definition RETRY_529_BASE_BACKOFF_SECS :: i64 where "RETRY_529_BASE_BACKOFF_SECS = 1"
definition RETRY_529_MAX_BACKOFF_SECS :: i64 where "RETRY_529_MAX_BACKOFF_SECS = 4"
definition MAX_529_FAILOVERS_PER_REQUEST :: nat where "MAX_529_FAILOVERS_PER_REQUEST = 2"
definition MAX_OFFLINE_WAITS_PER_REQUEST :: nat where "MAX_OFFLINE_WAITS_PER_REQUEST = 3"
definition OFFLINE_RETRY_AFTER_SECS :: i64 where "OFFLINE_RETRY_AFTER_SECS = 5"
definition MAX_SAME_ACCOUNT_TRANSPORT_RETRIES :: nat where "MAX_SAME_ACCOUNT_TRANSPORT_RETRIES = 3"

definition MAX_SENDS_PER_ACCOUNT :: nat where
  "MAX_SENDS_PER_ACCOUNT =
     2 + MAX_SAME_ACCOUNT_TRANSPORT_RETRIES + MAX_SAME_ACCOUNT_429 + MAX_SAME_ACCOUNT_529_RETRIES"

text \<open>The products stay far below the width of a \<open>usize\<close>, where \<open>saturating_\<close> and plain agree.\<close>

definition max_attempts_for :: "nat \<Rightarrow> nat" where
  "max_attempts_for account_count =
     max (account_count * MAX_SENDS_PER_ACCOUNT + (4 + MAX_OFFLINE_WAITS_PER_REQUEST)) 1"

definition backoff_529_secs :: "nat \<Rightarrow> i64 option \<Rightarrow> i64" where
  "backoff_529_secs retried retry_after =
     (let ladder = saturating_mul_i64 RETRY_529_BASE_BACKOFF_SECS (2 ^ min retried 16);
          secs = (case retry_after of Some hint \<Rightarrow> max hint ladder | None \<Rightarrow> ladder)
      in clamp_int 1 RETRY_529_MAX_BACKOFF_SECS secs)"

datatype transient_429 = InlineWait i64 | ParkFor i64

text \<open>\<open>nanos\<close> is the sub-second nanosecond count of a clock, a \<open>u32\<close>.\<close>

definition jittered_quota_hold :: "i64 \<Rightarrow> nat \<Rightarrow> i64" where
  "jittered_quota_hold retry_after nanos =
     (let clamped = clamp_int 1 MAX_QUOTA_HOLD_SECS retry_after in
      if clamped < MAX_QUOTA_HOLD_SECS then clamped
      else max (clamped - int nanos mod (QUOTA_HOLD_JITTER_MAX_SECS + 1)) 1)"

definition classify_transient_429 :: "i64 option \<Rightarrow> nat \<Rightarrow> i64 \<Rightarrow> transient_429" where
  "classify_transient_429 retry_after retried jitter =
     (case retry_after of
        Some secs \<Rightarrow>
          let wait = clamp_int 1 300 secs in
          if retried < MAX_SAME_ACCOUNT_429 \<and> wait \<le> INLINE_WAIT_MAX_SECS then InlineWait wait else ParkFor wait
      | None \<Rightarrow> ParkFor (NO_GUIDANCE_HOLD_SECS + jitter))"

definition carries_beta_flag :: "string \<Rightarrow> bool" where
  "carries_beta_flag path_and_query =
     is_some_and (split_once (CHR ''?'') path_and_query)
       (\<lambda>(_, query). ''beta=true'' \<in> set (split_on (CHR ''&'') query))"

definition is_request_scoped_429 :: "string \<Rightarrow> headers \<Rightarrow> bool \<Rightarrow> bool" where
  "is_request_scoped_429 path_and_query h quota_rejected =
     (let guided = (quota_rejected \<or> h ''retry-after'' \<noteq> None \<or> h ''anthropic-ratelimit-unified-status'' \<noteq> None)
      in \<not> guided \<and> \<not> carries_beta_flag path_and_query)"

definition soft_wait_secs :: "i64 \<Rightarrow> bool \<Rightarrow> i64 option" where
  "soft_wait_secs soonest_free_secs already_waited =
     (if already_waited \<or> soonest_free_secs \<le> 0 \<or> soonest_free_secs > EXHAUSTION_SOFT_WAIT_MAX_SECS
      then None else Some soonest_free_secs)"

definition parse_retry_after :: "headers \<Rightarrow> i64 option" where
  "parse_retry_after h = get_parsed_i64 h ''retry-after''"

definition every_attempt_transport_failed :: "nat \<Rightarrow> nat \<Rightarrow> bool" where
  "every_attempt_transport_failed transport_failures upstream_responses \<longleftrightarrow>
     transport_failures > 0 \<and> upstream_responses = 0"

definition challenged :: "headers \<Rightarrow> bool" where
  "challenged h = is_some_and (h ''cf-mitigated'') (\<lambda>v. eq_ignore_ascii_case (trim v) ''challenge'')"

definition codex_forbidden_is_auth_error :: "(string \<Rightarrow> json option) \<Rightarrow> headers \<Rightarrow> string \<Rightarrow> bool" where
  "codex_forbidden_is_auth_error decode h body =
     (\<not> challenged h \<and>
      is_some_and (Option.bind (decode body) (jget ''error'')) (\<lambda>e.
        is_some_and (jfield ''type'' as_string e) (\<lambda>k. eq_ignore_ascii_case (trim k) ''authentication_error'') \<or>
        is_some_and (jfield ''code'' as_string e)
          (\<lambda>c. list_ex (eq_ignore_ascii_case (trim c)) [''invalid_api_key'', ''unauthorized''])))"

definition codex_forbidden_is_account_error :: "(string \<Rightarrow> json option) \<Rightarrow> headers \<Rightarrow> string \<Rightarrow> bool" where
  "codex_forbidden_is_account_error decode h body =
     (\<not> challenged h \<and>
      is_some_and (Option.bind (decode body) (jget ''error'')) (\<lambda>e.
        list_ex (\<lambda>field. is_some_and (jfield field as_string e) (\<lambda>c.
          list_ex (eq_ignore_ascii_case (trim c))
            [''workspace_deactivated'', ''deactivated_workspace'', ''workspace_disabled'',
             ''account_deactivated'', ''account_disabled'', ''organization_deactivated'']))
          [''code'', ''type'']))"

text \<open>A transport error: whether it failed while connecting, and the rendered frames of its source chain.\<close>

record transport_error =
  te_is_connect :: bool
  te_frames :: "string list"

definition DNS_FAILURE_MARKERS :: "string list" where
  "DNS_FAILURE_MARKERS = [''dns error'', ''failed to lookup address information'',
     ''nodename nor servname provided'', ''temporary failure in name resolution'']"

definition H2_STREAM_RESET_MARKERS :: "string list" where
  "H2_STREAM_RESET_MARKERS = [''stream error '']"

definition is_offline_error :: "transport_error \<Rightarrow> bool" where
  "is_offline_error e =
     list_ex (\<lambda>f. list_ex (contains_str (to_ascii_lowercase f)) DNS_FAILURE_MARKERS) (te_frames e)"

datatype transport_failure_reason = ConnectPhase | StreamReset | OtherFailure

definition classify_transport_failure :: "transport_error \<Rightarrow> transport_failure_reason" where
  "classify_transport_failure e =
     (if te_is_connect e then ConnectPhase
      else if list_ex (\<lambda>f. list_ex (contains_str (to_ascii_lowercase f)) H2_STREAM_RESET_MARKERS) (te_frames e)
      then StreamReset else OtherFailure)"

section \<open>The ladder\<close>

record tally =
  t_transport_failures :: nat
  t_upstream_responses :: nat
  t_unknown_outcome :: bool
  t_offline_failures :: nat
  t_refused_403 :: "(nat \<times> string option) list"
  t_model_refusals :: "(string option \<times> string) list"
  t_account_access_blocks :: nat
  t_codex_access_read_failures :: nat
  t_last_account_access_block :: "(headers \<times> string) option"

record ladder =
  l_tried :: "nat set"
  l_benched_for_hold :: "nat list"
  l_next_idx :: "nat option"
  l_forced_401 :: "nat set"
  l_retried_429 :: "nat \<Rightarrow> nat"
  l_retried_529 :: "nat \<Rightarrow> nat"
  l_failovers_529 :: nat
  l_peer_egress_tried :: bool
  l_soft_waited :: bool
  l_parked_transient :: "nat set"
  l_transport_retried :: "nat \<Rightarrow> nat"
  l_reset_recycled :: "nat set"
  l_offline_waits :: nat
  l_tally :: tally

definition tally_default :: tally where
  "tally_default = \<lparr>t_transport_failures = 0, t_upstream_responses = 0, t_unknown_outcome = False,
     t_offline_failures = 0, t_refused_403 = [], t_model_refusals = [], t_account_access_blocks = 0,
     t_codex_access_read_failures = 0, t_last_account_access_block = None\<rparr>"

definition ladder_default :: ladder where
  "ladder_default = \<lparr>l_tried = {}, l_benched_for_hold = [], l_next_idx = None, l_forced_401 = {},
     l_retried_429 = (\<lambda>_. 0), l_retried_529 = (\<lambda>_. 0), l_failovers_529 = 0, l_peer_egress_tried = False,
     l_soft_waited = False, l_parked_transient = {}, l_transport_retried = (\<lambda>_. 0), l_reset_recycled = {},
     l_offline_waits = 0, l_tally = tally_default\<rparr>"

definition bench :: "nat \<Rightarrow> ladder \<Rightarrow> ladder" where
  "bench idx l = l\<lparr>l_tried := insert idx (l_tried l)\<rparr>"

definition bench_for_hold :: "nat \<Rightarrow> ladder \<Rightarrow> ladder" where
  "bench_for_hold idx l =
     (if idx \<in> l_tried l then l
      else l\<lparr>l_tried := insert idx (l_tried l), l_benched_for_hold := l_benched_for_hold l @ [idx]\<rparr>)"

definition release_hold :: "ladder \<Rightarrow> ladder" where
  "release_hold l = l\<lparr>l_tried := l_tried l - set (l_benched_for_hold l), l_benched_for_hold := []\<rparr>"

definition park :: "nat \<Rightarrow> ladder \<Rightarrow> ladder" where
  "park idx l = l\<lparr>l_tried := insert idx (l_tried l), l_parked_transient := insert idx (l_parked_transient l)\<rparr>"

definition hold_expired :: "manager \<Rightarrow> nat \<Rightarrow> i64 \<Rightarrow> bool" where
  "hold_expired m idx now_ms = is_some_and (get (m_accounts m) idx) (\<lambda>a. hold_remaining_ms a now_ms = None)"

definition readmit_expired_parks :: "manager \<Rightarrow> i64 \<Rightarrow> ladder \<Rightarrow> (nat \<times> nat) \<times> ladder" where
  "readmit_expired_parks m now_ms l =
     (let freed = {i \<in> l_parked_transient l. hold_expired m i now_ms};
          l' = l\<lparr>l_tried := l_tried l - freed, l_parked_transient := l_parked_transient l - freed\<rparr>
      in ((card freed, card (l_parked_transient l')), l'))"

definition retry_same :: "nat \<Rightarrow> ladder \<Rightarrow> ladder" where
  "retry_same idx l = l\<lparr>l_next_idx := Some idx\<rparr>"

definition set_next :: "nat option \<Rightarrow> ladder \<Rightarrow> ladder" where
  "set_next n l = l\<lparr>l_next_idx := n\<rparr>"

definition take_next :: "ladder \<Rightarrow> nat option \<times> ladder" where
  "take_next l = (l_next_idx l, l\<lparr>l_next_idx := None\<rparr>)"

definition first_forced_refresh :: "nat \<Rightarrow> ladder \<Rightarrow> bool \<times> ladder" where
  "first_forced_refresh idx l = (idx \<notin> l_forced_401 l, l\<lparr>l_forced_401 := insert idx (l_forced_401 l)\<rparr>)"

definition spend_429_retry :: "nat \<Rightarrow> ladder \<Rightarrow> ladder" where
  "spend_429_retry idx l = l\<lparr>l_retried_429 := (l_retried_429 l)(idx := l_retried_429 l idx + 1)\<rparr>"

definition spend_529_retry :: "nat \<Rightarrow> ladder \<Rightarrow> ladder" where
  "spend_529_retry idx l = l\<lparr>l_retried_529 := (l_retried_529 l)(idx := l_retried_529 l idx + 1)\<rparr>"

definition fail_over_529 :: "nat \<Rightarrow> nat \<Rightarrow> ladder \<Rightarrow> ladder" where
  "fail_over_529 idx other l =
     l\<lparr>l_tried := insert idx (l_tried l), l_failovers_529 := l_failovers_529 l + 1, l_next_idx := Some other\<rparr>"

definition spend_transport_retry :: "nat \<Rightarrow> ladder \<Rightarrow> ladder" where
  "spend_transport_retry idx l = l\<lparr>l_transport_retried := (l_transport_retried l)(idx := l_transport_retried l idx + 1)\<rparr>"

definition first_reset_recycle :: "nat \<Rightarrow> ladder \<Rightarrow> bool \<times> ladder" where
  "first_reset_recycle idx l = (idx \<notin> l_reset_recycled l, l\<lparr>l_reset_recycled := insert idx (l_reset_recycled l)\<rparr>)"

definition take_offline_wait :: "nat \<Rightarrow> ladder \<Rightarrow> nat option \<times> ladder" where
  "take_offline_wait limit l =
     (if l_offline_waits l < limit
      then (Some (l_offline_waits l + 1), l\<lparr>l_offline_waits := l_offline_waits l + 1\<rparr>) else (None, l))"

definition spend_peer_egress :: "ladder \<Rightarrow> ladder" where
  "spend_peer_egress l = l\<lparr>l_peer_egress_tried := True\<rparr>"

definition spend_soft_wait :: "ladder \<Rightarrow> ladder" where
  "spend_soft_wait l = l\<lparr>l_soft_waited := True\<rparr>"

definition on_tally :: "(tally \<Rightarrow> tally) \<Rightarrow> ladder \<Rightarrow> ladder" where
  "on_tally f l = l\<lparr>l_tally := f (l_tally l)\<rparr>"

definition transport_failed :: "ladder \<Rightarrow> ladder" where
  "transport_failed = on_tally (\<lambda>t. t\<lparr>t_transport_failures := t_transport_failures t + 1\<rparr>)"
definition upstream_answered :: "ladder \<Rightarrow> ladder" where
  "upstream_answered = on_tally (\<lambda>t. t\<lparr>t_upstream_responses := t_upstream_responses t + 1\<rparr>)"
definition unknown_outcome :: "ladder \<Rightarrow> ladder" where
  "unknown_outcome = on_tally (\<lambda>t. t\<lparr>t_unknown_outcome := True\<rparr>)"
definition offline_failed :: "ladder \<Rightarrow> ladder" where
  "offline_failed = on_tally (\<lambda>t. t\<lparr>t_offline_failures := t_offline_failures t + 1\<rparr>)"
definition codex_access_unread :: "ladder \<Rightarrow> ladder" where
  "codex_access_unread = on_tally (\<lambda>t. t\<lparr>t_codex_access_read_failures := t_codex_access_read_failures t + 1\<rparr>)"
definition account_access_blocked :: "(headers \<times> string) option \<Rightarrow> ladder \<Rightarrow> ladder" where
  "account_access_blocked ans = on_tally (\<lambda>t. t\<lparr>t_account_access_blocks := t_account_access_blocks t + 1,
     t_last_account_access_block := ans\<rparr>)"
definition refused_403 :: "nat \<Rightarrow> string option \<Rightarrow> ladder \<Rightarrow> ladder" where
  "refused_403 idx name = on_tally (\<lambda>t. t\<lparr>t_refused_403 := t_refused_403 t @ [(idx, name)]\<rparr>)"
definition model_refused :: "string option \<Rightarrow> string \<Rightarrow> ladder \<Rightarrow> ladder" where
  "model_refused account detail = on_tally (\<lambda>t. t\<lparr>t_model_refusals := t_model_refusals t @ [(account, detail)]\<rparr>)"

section \<open>The verdict\<close>

definition bad_gateway :: "bool \<Rightarrow> answer" where
  "bad_gateway unknown =
     (if unknown then Client_Error 502 Proxy None (Some False)
      else Client_Error 503 Proxy (Some OFFLINE_RETRY_AFTER_SECS) (Some True))"

definition offline_unavailable :: answer where
  "offline_unavailable = Client_Error 503 Proxy (Some OFFLINE_RETRY_AFTER_SECS) None"

definition codex_model_unavailable_response :: answer where
  "codex_model_unavailable_response = Codex_Error 400 ModelUnavailable None"

definition credential_refused_response :: "provider \<Rightarrow> answer" where
  "credential_refused_response p =
     (case p of Codex \<Rightarrow> Codex_Error 403 CredentialRefused None | Anthropic \<Rightarrow> Client_Error 502 Proxy None None)"

definition codex_refused_pool_response :: answer where
  "codex_refused_pool_response = Codex_Error 403 CredentialRefused None"

definition verdict :: "manager \<Rightarrow> provider \<Rightarrow> odt \<Rightarrow> nat option \<Rightarrow> string option \<Rightarrow> tally \<Rightarrow> answer option \<times> tally" where
  "verdict m p now bound_to strict t =
     (if every_attempt_transport_failed (t_transport_failures t) (t_upstream_responses t) then
        (Some (if t_offline_failures t > 0 then offline_unavailable else bad_gateway (t_unknown_outcome t)), t)
      else if t_model_refusals t \<noteq> [] then (Some codex_model_unavailable_response, t)
      else if t_codex_access_read_failures t > 0 \<and> t_codex_access_read_failures t = t_upstream_responses t then
        (Some (Client_Error 502 Proxy None None), t)
      else if t_account_access_blocks t > 0 \<and>
              t_account_access_blocks t + length (t_refused_403 t) = t_upstream_responses t \<and>
              t_last_account_access_block t \<noteq> None then
        (Some (if t_refused_403 t \<noteq> [] then Codex_Merged 403 else Forwarded 403),
         t\<lparr>t_last_account_access_block := None\<rparr>)
      else if t_refused_403 t \<noteq> [] \<and> length (t_refused_403 t) = t_upstream_responses t then
        (Some (credential_refused_response p), t)
      else
        (case p of
           Codex \<Rightarrow> (if codex_pool_is_refused m now bound_to strict
                     then Some codex_refused_pool_response else None, t)
         | Anthropic \<Rightarrow> (None, t)))"

definition ladder_verdict :: "manager \<Rightarrow> provider \<Rightarrow> odt \<Rightarrow> nat option \<Rightarrow> string option \<Rightarrow> ladder \<Rightarrow> answer option \<times> ladder" where
  "ladder_verdict m p now bound_to strict l =
     (case verdict m p now bound_to strict (l_tally l) of (ans, t) \<Rightarrow> (ans, l\<lparr>l_tally := t\<rparr>))"

definition advertised_retry_after :: "exhaustion_hint_view \<Rightarrow> i64" where
  "advertised_retry_after hint =
     (case eh_free_at hint of
        Some _ \<Rightarrow> min (eh_retry_after hint) CLIENT_RETRY_AFTER_MAX_SECS
      | None \<Rightarrow> eh_retry_after hint)"

fun unified_claim_for :: "gate_reason \<Rightarrow> string option" where
  "unified_claim_for GFiveHour = Some ''five_hour''"
| "unified_claim_for GSevenDay = Some ''seven_day''"
| "unified_claim_for GFableWeekly = Some ''seven_day''"
| "unified_claim_for _ = None"

definition all_gates :: "gate_reason list" where
  "all_gates = [GOk, GHold, GRefused, GFiveHour, GSevenDay, GFableWeekly, GStandard, GLogin, GRejected, GDisabled,
     GReserved, GParked]"

definition codex_limit_is_quota :: "exhaustion_hint_view \<Rightarrow> bool" where
  "codex_limit_is_quota hint =
     (let quota_gate = (\<lambda>g. g \<in> set [GFiveHour, GSevenDay, GRejected]);
          gated = filter (\<lambda>g. eh_gated hint g > 0) all_gates
      in case eh_binding hint of
           Some g \<Rightarrow> quota_gate g
         | None \<Rightarrow> gated \<noteq> [] \<and> list_all quota_gate gated)"

text \<open>The answer of an exhausted pool, and the quota claim its headers carry for a Claude client.\<close>

definition exhausted_response ::
  "time_lib \<Rightarrow> manager \<Rightarrow> odt \<Rightarrow> bool \<Rightarrow> provider \<Rightarrow> string option \<Rightarrow> nat option \<Rightarrow> answer \<times> (string \<times> odt) option" where
  "exhausted_response T m now is_fable p strict bound_to =
     (if p = Codex \<and> \<not> codex_account_can_serve_eventually m bound_to
      then (Codex_Error 400 NoCodexAccount None, None)
      else
        let hint = (case bound_to of
                      Some idx \<Rightarrow> exhaustion_hint_for_account T m now is_fable idx
                    | None \<Rightarrow> exhaustion_hint T m now is_fable p strict);
            adv = advertised_retry_after hint
        in case p of
             Codex \<Rightarrow>
               (Codex_Error 429 (if codex_limit_is_quota hint then UsageLimitReached else PoolUnavailable) (Some adv), None)
           | Anthropic \<Rightarrow>
               (Client_Error 429 RateLimitKind (Some adv) None,
                case (if bound_to = None then Option.bind (eh_binding hint) unified_claim_for else None, eh_free_at hint) of
                  (Some claim, Some t) \<Rightarrow> Some (claim, t)
                | _ \<Rightarrow> None))"

section \<open>One attempt\<close>

datatype step = RetrySame | Rotate | Park | FailOver nat | Answer answer | Forward nat

text \<open>What the offer of another Mac's route came to.\<close>

datatype carry = Not_Carried | Taken_And_Failed | Carried nat

definition delivered_unknown_response :: answer where
  "delivered_unknown_response = Client_Error 502 Proxy None (Some False)"

definition may_carry :: "manager \<Rightarrow> provider \<Rightarrow> transport_error \<Rightarrow> ladder \<Rightarrow> bool" where
  "may_carry m p e l =
     (let machine_level = is_offline_error e;
          nothing_ever_left_this_box =
            (\<not> t_unknown_outcome (l_tally l) \<and> (te_is_connect e \<or> machine_level) \<and>
             every_attempt_transport_failed (t_transport_failures (l_tally l)) (t_upstream_responses (l_tally l)));
          tried_of_provider = card {i \<in> l_tried l. live_provider m i = Some p};
          rotation_is_spent = (machine_level \<or> tried_of_provider + 1 \<ge> provider_account_count m p)
      in \<not> l_peer_egress_tried l \<and> nothing_ever_left_this_box \<and> rotation_is_spent \<and> on_peer_mesh p)"

definition direct_failure :: "nat \<Rightarrow> transport_error \<Rightarrow> ladder \<Rightarrow> step \<times> ladder" where
  "direct_failure idx e l =
     (if is_offline_error e then
        (case take_offline_wait MAX_OFFLINE_WAITS_PER_REQUEST (offline_failed l) of
           (Some _, l') \<Rightarrow> (RetrySame, l')
         | (None, l') \<Rightarrow> (Answer offline_unavailable, l'))
      else
        let l1 = (if \<not> te_is_connect e then unknown_outcome l else l);
            l2 = (if classify_transport_failure e = StreamReset then snd (first_reset_recycle idx l1) else l1)
        in if \<not> te_is_connect e \<and> l_transport_retried l2 idx < MAX_SAME_ACCOUNT_TRANSPORT_RETRIES
           then (RetrySame, spend_transport_retry idx l2) else (Rotate, l2))"

definition transport_arm :: "manager \<Rightarrow> provider \<Rightarrow> nat \<Rightarrow> transport_error \<Rightarrow> carry \<Rightarrow> ladder \<Rightarrow> step \<times> ladder" where
  "transport_arm m p idx e outcome l =
     (let l1 = transport_failed l in
      if may_carry m p e l1
      then (case outcome of
              Taken_And_Failed \<Rightarrow> (Answer delivered_unknown_response, spend_peer_egress l1)
            | Carried status \<Rightarrow> (Answer (Forwarded status), spend_peer_egress l1)
            | Not_Carried \<Rightarrow> direct_failure idx e (spend_peer_egress l1))
      else direct_failure idx e l1)"

text \<open>An upstream response: the status, the headers, and the body if the bounded read got it.\<close>

record response =
  rs_status :: nat
  rs_headers :: headers
  rs_body :: "string option"

text \<open>The request, as far as an attempt reads it.\<close>

record routed_request =
  rq_provider :: provider
  rq_path :: string
  rq_path_and_query :: string
  rq_model :: "string option"
  rq_session :: "session_key option"
  rq_conn :: "session_key option"
  rq_group :: "string option"

text \<open>The clocks an attempt reads: the loop's at its top, with its nanoseconds, and the one after the
  response, in both forms.\<close>

record clocks =
  ck_now :: odt
  ck_nanos :: nat
  ck_after :: odt
  ck_after_ms :: i64

definition jitter_of :: "nat \<Rightarrow> i64" where
  "jitter_of nanos = int nanos mod (NO_GUIDANCE_JITTER_MAX_SECS + 1)"

text \<open>What a forced refresh came to: new tokens, nothing (coalesced, cooling down or failed), or a
  rejected credential.\<close>

datatype refreshed = Fresh_Tokens tokens "i64 option" | No_New_Token | Token_Rejected

fun refresh_effect :: "i64 \<Rightarrow> refreshed \<Rightarrow> account \<Rightarrow> account" where
  "refresh_effect now_ms (Fresh_Tokens tk cooldown) a = apply_refresh tk cooldown a"
| "refresh_effect now_ms No_New_Token a = a"
| "refresh_effect now_ms Token_Rejected a = mark_error now_ms a"

definition arm_401 :: "nat \<Rightarrow> i64 \<Rightarrow> refreshed \<Rightarrow> account \<Rightarrow> ladder \<Rightarrow> step \<times> ladder \<times> account" where
  "arm_401 idx now_ms r a l =
     (if a_refresh_token a = None then (Rotate, l, mark_error now_ms a)
      else case first_forced_refresh idx l of
        (True, l1) \<Rightarrow>
          ((case r of Fresh_Tokens _ _ \<Rightarrow> RetrySame | _ \<Rightarrow> Rotate), l1, refresh_effect now_ms r a)
      | (False, l1) \<Rightarrow> (Rotate, l1, a))"

definition arm_403 ::
  "(string \<Rightarrow> json option) \<Rightarrow> provider \<Rightarrow> nat \<Rightarrow> clocks \<Rightarrow> response \<Rightarrow> account \<Rightarrow> ladder \<Rightarrow> step \<times> ladder \<times> account" where
  "arm_403 decode p idx ck rs a l =
     (let refuse = (Rotate, refused_403 idx (Some (a_name a)) l, mark_refused (ck_after_ms ck) a) in
      case p of
        Anthropic \<Rightarrow> refuse
      | Codex \<Rightarrow>
          (case rs_body rs of
             None \<Rightarrow>
               (Rotate, codex_access_unread l,
                mark_rate_limited (ck_after_ms ck) (NO_GUIDANCE_HOLD_SECS + jitter_of (ck_nanos ck)) a)
           | Some body \<Rightarrow>
               if codex_forbidden_is_auth_error decode (rs_headers rs) body then refuse
               else if codex_forbidden_is_account_error decode (rs_headers rs) body
               then (Rotate, account_access_blocked (Some (rs_headers rs, body)) l, mark_refused (ck_after_ms ck) a)
               else (Answer (Forwarded 403), l, a)))"

definition transient_arm :: "nat \<Rightarrow> i64 option \<Rightarrow> i64 \<Rightarrow> i64 \<Rightarrow> account \<Rightarrow> ladder \<Rightarrow> step \<times> ladder \<times> account" where
  "transient_arm idx retry_after jitter now_ms a l =
     (case classify_transient_429 retry_after (l_retried_429 l idx) jitter of
        InlineWait _ \<Rightarrow> (RetrySame, spend_429_retry idx l, a)
      | ParkFor wait \<Rightarrow> (Park, l, mark_rate_limited now_ms wait a))"

definition arm_429 ::
  "(string \<Rightarrow> json option) \<Rightarrow> time_lib \<Rightarrow> routed_request \<Rightarrow> nat \<Rightarrow> clocks \<Rightarrow> nat \<Rightarrow> response \<Rightarrow> account \<Rightarrow> ladder
     \<Rightarrow> step \<times> ladder \<times> account" where
  "arm_429 decode T rq idx ck nanos rs a l =
     (let h = rs_headers rs; rejections = quota_rejections h; retry_after_raw = parse_retry_after h;
          retry_after = unwrap_or retry_after_raw 60; body = unwrap_or (rs_body rs) []
      in case rq_provider rq of
           Codex \<Rightarrow>
             let refusal = refusal_parse decode T h body (ck_after ck);
                 a1 = snd (fold_quota T (ck_after ck) h 429 refusal a)
             in (case refusal of
                   Some rf \<Rightarrow>
                     let hold = (case cr_reset rf of
                                   None \<Rightarrow> retry_after
                                 | Some rst \<Rightarrow> saturating_sub_i64 (unix_timestamp rst) (unix_timestamp (ck_after ck)))
                     in (Rotate, l, mark_codex_quota_limited (ck_after ck) (ck_after_ms ck) hold a1)
                 | None \<Rightarrow> transient_arm idx retry_after_raw (jitter_of nanos) (ck_after_ms ck) a1 l)
         | Anthropic \<Rightarrow>
             if is_request_scoped_429 (rq_path_and_query rq) h (rejections \<noteq> []) then (Forward 429, l, a)
             else if rejections \<noteq> [] then
               let a1 = (if FableWeekly \<in> set rejections then mark_model_weekly_rejected T (ck_after ck) h a else a);
                   a2 = (if list_ex (\<lambda>k. k \<noteq> FableWeekly) rejections
                         then mark_rate_limited (ck_after_ms ck) (jittered_quota_hold retry_after (ck_nanos ck)) a1 else a1)
               in (Rotate, l, a2)
             else transient_arm idx retry_after_raw (jitter_of (ck_nanos ck)) (ck_after_ms ck) a l)"

text \<open>The in-place retries first, then another account if \<open>select\<close> offers one.\<close>

definition arm_529 :: "routed_request \<Rightarrow> nat \<Rightarrow> odt \<Rightarrow> manager \<Rightarrow> ladder \<Rightarrow> step \<times> ladder \<times> manager" where
  "arm_529 rq idx failover_now m l =
     (if l_retried_529 l idx < MAX_SAME_ACCOUNT_529_RETRIES then (RetrySame, spend_529_retry idx l, m)
      else if l_failovers_529 l < MAX_529_FAILOVERS_PER_REQUEST then
        (case select_with_group (insert idx (l_tried l)) failover_now (rq_model rq) (rq_session rq) (rq_path rq)
                (rq_conn rq) (rq_group rq) m of
           (Some other, m') \<Rightarrow> (FailOver other, l, m')
         | (None, m') \<Rightarrow> (Forward STATUS_OVERLOADED, l, m'))
      else (Forward STATUS_OVERLOADED, l, m))"

text \<open>What every response does to the account before its status decides: its headers are folded in
  (a Codex 429 is folded in its own arm), and any status but 429 ends a hold.\<close>

definition account_answered :: "time_lib \<Rightarrow> provider \<Rightarrow> clocks \<Rightarrow> response \<Rightarrow> account \<Rightarrow> account" where
  "account_answered T p ck rs a =
     (let a1 = (if p = Codex \<and> rs_status rs = 429 then a
                else snd (fold_quota T (ck_after ck) (rs_headers rs) (rs_status rs) None a))
      in if rs_status rs \<noteq> 429 then clear_rate_limited a1 else a1)"

definition response_arm ::
  "(string \<Rightarrow> json option) \<Rightarrow> time_lib \<Rightarrow> routed_request \<Rightarrow> nat \<Rightarrow> clocks \<Rightarrow> nat \<Rightarrow> refreshed \<Rightarrow> response \<Rightarrow> manager \<Rightarrow> ladder
     \<Rightarrow> step \<times> ladder \<times> manager" where
  "response_arm decode T rq idx ck nanos r rs m l =
     (let l1 = upstream_answered l in
      case get (m_accounts m) idx of
        None \<Rightarrow> (Forward (rs_status rs), l1, m)
      | Some a0 \<Rightarrow>
          let a = account_answered T (rq_provider rq) ck rs a0;
              commit = (\<lambda>(st, l', a'). (st, l', m\<lparr>m_accounts := (m_accounts m)[idx := a']\<rparr>))
          in if rs_status rs = 401 then commit (arm_401 idx (ck_after_ms ck) r a l1)
             else if rs_status rs = 403 then commit (arm_403 decode (rq_provider rq) idx ck rs a l1)
             else if rs_status rs = 429 then commit (arm_429 decode T rq idx ck nanos rs a l1)
             else if rs_status rs = STATUS_OVERLOADED
               then arm_529 rq idx (ck_after ck) (m\<lparr>m_accounts := (m_accounts m)[idx := a]\<rparr>) l1
             else (Forward (rs_status rs), l1, m\<lparr>m_accounts := (m_accounts m)[idx := a]\<rparr>))"

text \<open>The one place the ladder moves for an attempt.\<close>

definition apply_step :: "nat \<Rightarrow> step \<Rightarrow> ladder \<Rightarrow> answer option \<times> ladder" where
  "apply_step idx st l =
     (case st of
        RetrySame \<Rightarrow> (None, retry_same idx l)
      | Rotate \<Rightarrow> (None, bench idx l)
      | Park \<Rightarrow> (None, park idx l)
      | FailOver other \<Rightarrow> (None, fail_over_529 idx other l)
      | Answer ans \<Rightarrow> (Some ans, l)
      | Forward status \<Rightarrow> (Some (Forwarded status), l))"

end
