(* ===== verification/Identity.thy ===== *)
theory Identity
  imports Account Strings
begin

text \<open>
  Account identity, \<^verbatim>\<open>src/identity.rs\<close>: the organization key, when two records are the same account,
  the one record a stored identity resolves to, and the unique names a login mints. The identity
  fields of a record are those \<open>probe\<close> takes.
\<close>

section \<open>Keys\<close>

definition org_key_of :: "string option \<Rightarrow> string option \<Rightarrow> string option" where
  "org_key_of org_uuid org_name = or_else (filter_opt (\<lambda>s. s \<noteq> []) org_uuid) (filter_opt (\<lambda>s. s \<noteq> []) org_name)"

definition uuid_key_of :: "string option \<Rightarrow> string option" where
  "uuid_key_of account_uuid = filter_opt (\<lambda>s. s \<noteq> []) account_uuid"

record identity =
  id_provider :: provider
  id_name :: string
  id_account_uuid :: "string option"
  id_org_uuid :: "string option"
  id_org_name :: "string option"

definition uuid_key :: "identity \<Rightarrow> string option" where
  "uuid_key a = uuid_key_of (id_account_uuid a)"

definition org_key :: "identity \<Rightarrow> string option" where
  "org_key a = org_key_of (id_org_uuid a) (id_org_name a)"

definition probe :: "provider \<Rightarrow> string \<Rightarrow> string option \<Rightarrow> string option \<Rightarrow> string option \<Rightarrow> identity" where
  "probe p name account_uuid org_uuid org_name =
     \<lparr>id_provider = p, id_name = name, id_account_uuid = account_uuid, id_org_uuid = org_uuid, id_org_name = org_name\<rparr>"

section \<open>The same account\<close>

definition same_identity :: "identity \<Rightarrow> identity \<Rightarrow> bool" where
  "same_identity a b =
     (if id_provider a \<noteq> id_provider b then False
      else case (uuid_key a, uuid_key b) of
        (Some ua, Some ub) \<Rightarrow>
          if ua \<noteq> ub then False
          else (case (org_key a, org_key b) of (Some ka, Some kb) \<Rightarrow> ka = kb | _ \<Rightarrow> True)
      | _ \<Rightarrow> id_name a = id_name b)"

definition same_identity_strict :: "identity \<Rightarrow> identity \<Rightarrow> bool" where
  "same_identity_strict a b \<longleftrightarrow>
     same_identity a b \<and>
     (case (uuid_key a, uuid_key b) of (Some ua, Some ub) \<Rightarrow> ua = ub | _ \<Rightarrow> False) \<and> org_key a = org_key b"

datatype resolved = One nat | Nobody | Many

definition resolve :: "identity list \<Rightarrow> identity \<Rightarrow> resolved" where
  "resolve candidates target =
     (let loose = filter (\<lambda>i. same_identity target (candidates ! i)) [0..<length candidates];
          exact = filter (\<lambda>i. same_identity_strict target (candidates ! i)) loose
      in case (loose, exact) of
           ([], _) \<Rightarrow> Nobody
         | ([only], _) \<Rightarrow> One only
         | (_, [only]) \<Rightarrow> One only
         | _ \<Rightarrow> Many)"

section \<open>Names\<close>

definition ORG_SEPARATOR :: char where "ORG_SEPARATOR = CHR ''/''"

definition email_of :: "string \<Rightarrow> string" where
  "email_of name = takeWhile (\<lambda>c. c \<noteq> ORG_SEPARATOR) name"

definition is_ascii_alphanumeric :: "char \<Rightarrow> bool" where
  "is_ascii_alphanumeric c =
     (let n = (of_char c :: nat) in (48 \<le> n \<and> n \<le> 57) \<or> (65 \<le> n \<and> n \<le> 90) \<or> (97 \<le> n \<and> n \<le> 122))"

text \<open>The bytes of a character that is not ASCII collapse into the one dash the character itself gives.\<close>

fun slug_of :: "string \<Rightarrow> string \<Rightarrow> string" where
  "slug_of slug [] = slug"
| "slug_of slug (c # s) =
     (if is_ascii_alphanumeric c then slug_of (slug @ [ascii_lower c]) s
      else if slug \<noteq> [] \<and> last slug = CHR ''-'' then slug_of slug s
      else slug_of (slug @ [CHR ''-'']) s)"

definition trim_dashes :: "string \<Rightarrow> string" where
  "trim_dashes s = rev (dropWhile (\<lambda>c. c = CHR ''-'') (rev (dropWhile (\<lambda>c. c = CHR ''-'') s)))"

definition org_slug :: "string \<Rightarrow> string" where
  "org_slug org_name = trim_dashes (slug_of [] org_name)"

definition org_suffix :: "string option \<Rightarrow> string option \<Rightarrow> string option" where
  "org_suffix org_name org_uuid =
     or_else (filter_opt (\<lambda>s. s \<noteq> []) (map_option org_slug org_name))
             (filter_opt (\<lambda>s. s \<noteq> []) (map_option (take 8) org_uuid))"

text \<open>The loop over the numbered names ends: the names in use are finitely many.\<close>

function mint_number :: "string \<Rightarrow> string list \<Rightarrow> nat \<Rightarrow> string" where
  "mint_number base taken n =
     (let candidate = base @ ''-'' @ decimal n
      in if candidate \<notin> set taken then candidate else mint_number base taken (Suc n))"
  by auto

lemma numbered_taken_finite: "finite {k. n \<le> k \<and> base @ ''-'' @ decimal k \<in> set taken}"
proof (rule finite_subset)
  show "{k. n \<le> k \<and> base @ ''-'' @ decimal k \<in> set taken} \<subseteq> (\<lambda>k. base @ ''-'' @ decimal k) -` set taken" by auto
  show "finite ((\<lambda>k. base @ ''-'' @ decimal k) -` set taken)" by (intro finite_vimageI) (simp_all add: inj_def)
qed

termination mint_number
proof (relation "measure (\<lambda>(base, taken, n). card {k. n \<le> k \<and> base @ ''-'' @ decimal k \<in> set taken})")
  fix base :: string and taken :: "string list" and n :: nat and candidate :: string
  assume "candidate = base @ ''-'' @ decimal n" "\<not> candidate \<notin> set taken"
  then have "n \<in> {k. n \<le> k \<and> base @ ''-'' @ decimal k \<in> set taken}"
    "{k. Suc n \<le> k \<and> base @ ''-'' @ decimal k \<in> set taken} \<subseteq> {k. n \<le> k \<and> base @ ''-'' @ decimal k \<in> set taken} - {n}"
    by auto
  then have "{k. Suc n \<le> k \<and> base @ ''-'' @ decimal k \<in> set taken} \<subset> {k. n \<le> k \<and> base @ ''-'' @ decimal k \<in> set taken}"
    by blast
  then show "((base, taken, Suc n), base, taken, n)
    \<in> measure (\<lambda>(base, taken, n). card {k. n \<le> k \<and> base @ ''-'' @ decimal k \<in> set taken})"
    by (simp only: in_measure split_conv psubset_card_mono [OF numbered_taken_finite])
qed simp

declare mint_number.simps [simp del]

definition mint_name :: "string \<Rightarrow> string option \<Rightarrow> string option \<Rightarrow> string list \<Rightarrow> string" where
  "mint_name email org_name org_uuid taken =
     (if email \<notin> set taken then email
      else
        let base = (case org_suffix org_name org_uuid of
                      Some sfx \<Rightarrow> email @ [ORG_SEPARATOR] @ sfx
                    | None \<Rightarrow> email)
        in if base \<notin> set taken then base else mint_number base taken 2)"

datatype query_match = Match_One nat | Match_None | Ambiguous "string list"

definition match_accounts :: "string list \<Rightarrow> string \<Rightarrow> nat list" where
  "match_accounts names query = filter (\<lambda>i. names ! i = query) [0..<length names]"

definition match_one :: "string list \<Rightarrow> string \<Rightarrow> query_match" where
  "match_one names query =
     (case match_accounts names query of
        [] \<Rightarrow> Match_None
      | [only] \<Rightarrow> Match_One only
      | many \<Rightarrow> Ambiguous (map (\<lambda>i. names ! i) many))"

section \<open>Lemmas\<close>

lemma mint_number_fresh: "mint_number base taken n \<notin> set taken \<and> (\<exists>k\<ge>n. mint_number base taken n = base @ ''-'' @ decimal k)"
  by (induction base taken n rule: mint_number.induct)
    (subst (1 2) mint_number.simps, use Suc_leD in \<open>auto simp: Let_def\<close>)

lemma same_identity_refl [simp]: "same_identity a a"
  by (auto simp: same_identity_def split: option.splits)

lemma filter_upt_eq: "i < n \<Longrightarrow> filter (\<lambda>j. j = i) [0..<n] = [i]"
  by (induction n) (auto simp: less_Suc_eq)

lemma filter_singleton:
  assumes "\<And>j. j < n \<Longrightarrow> P j \<longleftrightarrow> j = i" "i < n"
  shows "filter P [0..<n] = [i]"
proof -
  have "filter P [0..<n] = filter (\<lambda>j. j = i) [0..<n]" using assms(1) by (intro filter_cong) auto
  then show ?thesis using filter_upt_eq assms(2) by simp
qed

lemma resolve_One:
  assumes "resolve cs t = One j"
  shows "j < length cs \<and> same_identity t (cs ! j)"
proof -
  define loose where "loose = filter (\<lambda>i. same_identity t (cs ! i)) [0..<length cs]"
  define exact where "exact = filter (\<lambda>i. same_identity_strict t (cs ! i)) loose"
  have "set exact \<subseteq> set loose" by (auto simp: exact_def)
  moreover have "(case (loose, exact) of ([], _) \<Rightarrow> Nobody | ([only], _) \<Rightarrow> One only | (_, [only]) \<Rightarrow> One only | _ \<Rightarrow> Many) = One j"
    using assms by (simp only: resolve_def Let_def loose_def exact_def)
  ultimately have "j \<in> set loose" by (auto split: list.splits)
  then show ?thesis by (simp add: loose_def)
qed

text \<open>An identity with one loose match, or several and one strict one, resolves to it.\<close>

lemma resolve_unique:
  assumes "i < length cs" "\<And>j. j < length cs \<Longrightarrow> same_identity t (cs ! j) \<longleftrightarrow> j = i"
  shows "resolve cs t = One i"
  using filter_singleton [of "length cs" "\<lambda>j. same_identity t (cs ! j)" i] assms by (simp add: resolve_def Let_def)

text \<open>Unique names make a name a complete answer.\<close>

lemma match_one_distinct:
  assumes "distinct names" "i < length names"
  shows "match_one names (names ! i) = Match_One i"
  using filter_singleton [of "length names" "\<lambda>j. names ! j = names ! i" i] assms
  by (simp add: match_one_def match_accounts_def nth_eq_iff_index_eq)

lemma email_of_append: "CHR ''/'' \<notin> set email \<Longrightarrow> email_of (email @ CHR ''/'' # rest) = email"
  by (induction email) (auto simp: email_of_def ORG_SEPARATOR_def)

text \<open>
  A login's name is free and says whose it is. However many names are in use, \<open>mint_name\<close> returns
  one that is not among them (the loop over the numbered names ends); an unused email is taken as it is;
  and when the account has an organization to be named by, the email is read back off the minted name.
\<close>

theorem minted_name_is_free:
  assumes "CHR ''/'' \<notin> set email"
  shows "mint_name email org_name org_uuid taken \<notin> set taken \<and>
    (email \<notin> set taken \<longrightarrow> mint_name email org_name org_uuid taken = email) \<and>
    (org_suffix org_name org_uuid \<noteq> None \<longrightarrow> email_of (mint_name email org_name org_uuid taken) = email)"
proof -
  define base where "base = (case org_suffix org_name org_uuid of Some sfx \<Rightarrow> email @ [ORG_SEPARATOR] @ sfx | None \<Rightarrow> email)"
  obtain k where k: "mint_number base taken 2 = base @ ''-'' @ decimal k" using mint_number_fresh by blast
  have "email_of email = email" using assms by (auto simp: email_of_def ORG_SEPARATOR_def takeWhile_eq_all_conv)
  moreover have "org_suffix org_name org_uuid \<noteq> None \<Longrightarrow> email_of base = email \<and> email_of (base @ ''-'' @ decimal k) = email"
    using email_of_append [OF assms] by (auto simp: base_def ORG_SEPARATOR_def)
  ultimately show ?thesis using mint_number_fresh [of base taken 2] k
    by (auto simp: mint_name_def base_def [symmetric] Let_def)
qed

theorem minted_name_is_free_witness:
  "mint_name ''h@x.com'' (Some ''Henry Token'') None [''h@x.com'', ''h@x.com/henry-token''] \<notin>
      set [''h@x.com'', ''h@x.com/henry-token''] \<and>
   email_of (mint_name ''h@x.com'' (Some ''Henry Token'') None [''h@x.com'', ''h@x.com/henry-token'']) = ''h@x.com''"
proof -
  have "CHR ''/'' \<notin> set ''h@x.com''" "org_suffix (Some ''Henry Token'') None \<noteq> None" by code_simp+
  with minted_name_is_free [of "''h@x.com''" "Some ''Henry Token''" None "[''h@x.com'', ''h@x.com/henry-token'']"]
  show ?thesis by blast
qed

end
