(* ===== verification/Throttle.thy ===== *)
theory Throttle
  imports Select Identity
begin

text \<open>
  The outbound throttle of \<^verbatim>\<open>src/manager/throttle.rs\<close>: two GCRA buckets (\<open>throttle_slot\<close> of
  \<^verbatim>\<open>src/manager/mod.rs\<close>), one per organization and one per provider, that delay a send without ever
  refusing it, with the settings of \<^verbatim>\<open>src/config.rs\<close> and the organization key of
  \<^verbatim>\<open>src/identity.rs\<close>. The locale states what one bucket promises a sequence of sends; both buckets
  interpret it.
\<close>

section \<open>Settings and keys\<close>

record throttle_config =
  tc_min_spacing_ms :: "u64 option"
  tc_burst :: "u32 option"

definition effective_min_spacing :: "throttle_config \<Rightarrow> u64 option" where
  "effective_min_spacing c = (if tc_min_spacing_ms c = Some 0 then None else tc_min_spacing_ms c)"

definition effective_burst :: "throttle_config \<Rightarrow> u32" where
  "effective_burst c = max 1 (unwrap_or (tc_burst c) 1)"

definition throttle_is_active :: "throttle_config \<Rightarrow> bool" where
  "throttle_is_active c \<longleftrightarrow> effective_min_spacing c \<noteq> None"

definition default_account_throttle :: throttle_config where
  "default_account_throttle = \<lparr>tc_min_spacing_ms = Some 350, tc_burst = Some 24\<rparr>"

definition default_fleet_throttle :: throttle_config where
  "default_fleet_throttle = \<lparr>tc_min_spacing_ms = Some 100, tc_burst = Some 32\<rparr>"

definition bucket_key_for :: "string option \<Rightarrow> string option \<Rightarrow> nat \<Rightarrow> string" where
  "bucket_key_for org_uuid org_name idx =
     (case org_key_of org_uuid org_name of
        Some key \<Rightarrow> ''org:'' @ key
      | None \<Rightarrow> ''acct:'' @ decimal idx)"

definition throttle_bucket_key :: "account list \<Rightarrow> nat \<Rightarrow> string" where
  "throttle_bucket_key accounts idx =
     (let account = get accounts idx;
          identity = bucket_key_for (Option.bind account a_org_uuid) (Option.bind account a_org_name) idx
      in case account of
           Some a \<Rightarrow> as_str (a_provider a) @ '':'' @ identity
         | None \<Rightarrow> identity)"

definition throttle_exempt :: "request_class \<Rightarrow> bool" where
  "throttle_exempt c \<longleftrightarrow> c = Noise"

section \<open>A send\<close>

definition throttle_slot :: "i64 \<Rightarrow> i64 \<Rightarrow> i64 \<Rightarrow> u32 \<Rightarrow> i64 \<times> i64" where
  "throttle_slot tat_ms now_ms spacing_ms burst =
     (let tau = i64_mul spacing_ms (i64_sub (uint (max burst 1)) 1);
          base = max tat_ms now_ms
      in (i64_add base spacing_ms, i64_sub base tau))"

record throttle =
  th_exempt_noise :: bool
  th_account_throttle :: throttle_config
  th_fleet_throttle :: throttle_config
  th_org_tat_ms :: "(string, i64) hash_map"
  th_fleet_tat_ms :: "(provider, i64) hash_map"

text \<open>\<open>tats.entry(key).or_insert(0)\<close>, one slot taken from it: the instant the slot allows and the map.\<close>

definition charge :: "'k \<Rightarrow> i64 \<Rightarrow> u64 \<Rightarrow> u32 \<Rightarrow> ('k, i64) hash_map \<Rightarrow> i64 \<times> ('k, i64) hash_map" where
  "charge key now spacing_ms burst tats =
     (let (new_tat, allow_at) = throttle_slot (unwrap_or (hm_get tats key) 0) now (u64_as_i64 spacing_ms) burst
      in (allow_at, hm_insert key new_tat tats))"

definition noise_exempt :: "throttle \<Rightarrow> string \<Rightarrow> bool" where
  "noise_exempt t path \<longleftrightarrow> th_exempt_noise t \<and> throttle_exempt (classify_request path)"

definition org_charge :: "account list \<Rightarrow> string \<Rightarrow> nat \<Rightarrow> i64 \<Rightarrow> throttle \<Rightarrow> i64 \<times> throttle" where
  "org_charge accounts path idx now t =
     (case effective_min_spacing (th_account_throttle t) of
        Some spacing_ms \<Rightarrow>
          if noise_exempt t path then (now, t)
          else let (allow_at, tats) = charge (throttle_bucket_key accounts idx) now spacing_ms
                     (effective_burst (th_account_throttle t)) (th_org_tat_ms t)
               in (max now allow_at, t\<lparr>th_org_tat_ms := tats\<rparr>)
      | None \<Rightarrow> (now, t))"

text \<open>The instant the send goes out: \<open>now\<close>, or the end of the sleep. A fleet bucket asked about an
  account that is not there returns without the sleep.\<close>

definition throttle_send :: "account list \<Rightarrow> string \<Rightarrow> nat \<Rightarrow> i64 \<Rightarrow> throttle \<Rightarrow> i64 \<times> throttle" where
  "throttle_send accounts path idx now t =
     (let (allow_at, t1) = org_charge accounts path idx now t in
      case effective_min_spacing (th_fleet_throttle t1) of
        Some spacing_ms \<Rightarrow>
          (case map_option a_provider (get accounts idx) of
             None \<Rightarrow> (now, t1)
           | Some p \<Rightarrow>
               let (fleet_allow_at, tats) = charge p now spacing_ms
                     (effective_burst (th_fleet_throttle t1)) (th_fleet_tat_ms t1)
               in (now + max 0 (i64_sub (max allow_at fleet_allow_at) now), t1\<lparr>th_fleet_tat_ms := tats\<rparr>))
      | None \<Rightarrow> (now + max 0 (i64_sub allow_at now), t1))"

section \<open>What a bucket promises\<close>

fun run_steps :: "('e \<Rightarrow> 's \<Rightarrow> 'r \<times> 's) \<Rightarrow> 'e list \<Rightarrow> 's \<Rightarrow> 'r list" where
  "run_steps step [] s = []"
| "run_steps step (e # es) s = (case step e s of (r, s') \<Rightarrow> r # run_steps step es s')"

fun run_fits :: "('e \<Rightarrow> 's \<Rightarrow> 'r \<times> 's) \<Rightarrow> ('e \<Rightarrow> 's \<Rightarrow> bool) \<Rightarrow> 'e list \<Rightarrow> 's \<Rightarrow> bool" where
  "run_fits step room [] s = True"
| "run_fits step room (e # es) s = (room e s \<and> run_fits step room es (snd (step e s)))"

definition count_between :: "('e \<Rightarrow> bool) \<Rightarrow> 'e list \<Rightarrow> nat \<Rightarrow> nat \<Rightarrow> int" where
  "count_between p es i j = int (length (filter p (take (Suc j - i) (drop i es))))"

lemma count_between_Cons:
  "count_between p (e # es) 0 (Suc j) = count_between p es 0 j + (if p e then 1 else 0)"
  "count_between p (e # es) (Suc i) (Suc j) = count_between p es i j"
  "count_between p (e # es) 0 0 = (if p e then 1 else 0)"
  by (simp_all add: count_between_def)

text \<open>
  A GCRA bucket with spacing \<open>T\<close> and capacity \<open>B\<close>, seen from a stream of sends: a send that is charged
  moves the theoretical arrival time on by \<open>T\<close> from the later of it and its own arrival, and is not
  released before that point less the burst tolerance; one that is not leaves the bucket alone.
\<close>

locale gcra_bucket =
  fixes step :: "'e \<Rightarrow> 's \<Rightarrow> i64 \<times> 's"
    and arrival :: "'e \<Rightarrow> i64" and charged :: "'e \<Rightarrow> bool"
    and tat :: "'s \<Rightarrow> i64" and room :: "'e \<Rightarrow> 's \<Rightarrow> bool"
    and T :: i64 and B :: int
  assumes spacing_pos: "room e s \<Longrightarrow> 0 \<le> T"
    and charged_tat: "room e s \<Longrightarrow> charged e \<Longrightarrow> tat (snd (step e s)) = max (tat s) (arrival e) + T"
    and charged_release: "room e s \<Longrightarrow> charged e \<Longrightarrow> max (tat s) (arrival e) - (B - 1) * T \<le> fst (step e s)"
    and passed_tat: "room e s \<Longrightarrow> \<not> charged e \<Longrightarrow> tat (snd (step e s)) = tat s"
begin

lemma nth_charged_release:
  assumes "run_fits step room es s" and "j < length es" and "charged (es ! j)"
  shows "tat s + (count_between charged es 0 j - B) * T \<le> run_steps step es s ! j"
  using assms
proof (induction es arbitrary: s j)
  case (Cons e es)
  then have room: "room e s" by simp
  show ?case
  proof (cases j)
    case 0
    with Cons.prems charged_release [OF room] show ?thesis
      by (simp add: split_beta count_between_Cons algebra_simps)
  next
    case (Suc i)
    have "tat s + (if charged e then T else 0) \<le> tat (snd (step e s))"
      using charged_tat [OF room] passed_tat [OF room] by auto
    with Cons.IH [of "snd (step e s)" i] Cons.prems Suc show ?thesis
      by (auto simp: split_beta count_between_Cons algebra_simps split: if_splits)
  qed
qed simp

text \<open>The bound between two charged sends, from the slot of the first.\<close>

lemma charged_spacing:
  assumes "run_fits step room es s" and "i < j" and "j < length es" and "charged (es ! i)" and "charged (es ! j)"
  shows "\<exists>s'. room (es ! i) s' \<and> run_steps step es s ! i = fst (step (es ! i) s') \<and>
    max (tat s') (arrival (es ! i)) + (count_between charged es i j - B) * T \<le> run_steps step es s ! j"
  using assms
proof (induction es arbitrary: s i j)
  case (Cons e es)
  then obtain k where k: "j = Suc k" by (cases j) auto
  show ?case
  proof (cases i)
    case 0
    have room: "room e s" using Cons.prems(1) by simp
    have "tat (snd (step e s)) = max (tat s) (arrival e) + T"
      using charged_tat [OF room] Cons.prems(4) 0 by simp
    moreover have "tat (snd (step e s)) + (count_between charged es 0 k - B) * T \<le> run_steps step es (snd (step e s)) ! k"
      using Cons.prems k 0 by (intro nth_charged_release) auto
    ultimately have "max (tat s) (arrival e) + (count_between charged (e # es) 0 (Suc k) - B) * T
        \<le> run_steps step es (snd (step e s)) ! k"
      using Cons.prems(4) 0 by (simp add: count_between_Cons algebra_simps)
    with room k 0 show ?thesis by (auto simp: split_beta)
  next
    case (Suc l)
    with Cons.prems k show ?thesis
      using Cons.IH [of "snd (step e s)" l k] by (simp add: split_beta count_between_Cons)
  qed
qed simp

lemma spacing_from_arrival:
  assumes "run_fits step room es s" and "i < j" and "j < length es" and "charged (es ! i)" and "charged (es ! j)"
  shows "arrival (es ! i) + (count_between charged es i j - B) * T \<le> run_steps step es s ! j"
  using charged_spacing [OF assms] by auto

end

text \<open>A bucket that alone decides when its sends go out: none is released after its own slot.\<close>

locale gcra_alone = gcra_bucket +
  assumes prompt: "room e s \<Longrightarrow> charged e \<Longrightarrow> fst (step e s) \<le> max (tat s) (arrival e)"
begin

lemma spacing_from_release:
  assumes "run_fits step room es s" and "i < j" and "j < length es" and "charged (es ! i)" and "charged (es ! j)"
  shows "run_steps step es s ! i + (count_between charged es i j - B) * T \<le> run_steps step es s ! j"
  using charged_spacing [OF assms] prompt assms(4) by fastforce

end

section \<open>The two buckets\<close>

text \<open>A send: its path, its account and the instant it asks.\<close>

type_synonym send = "string \<times> nat \<times> i64"

abbreviation sent_at :: "send \<Rightarrow> i64" where "sent_at e \<equiv> snd (snd e)"

definition throttle_step :: "account list \<Rightarrow> send \<Rightarrow> throttle \<Rightarrow> i64 \<times> throttle" where
  "throttle_step accounts e = (case e of (path, idx, now) \<Rightarrow> throttle_send accounts path idx now)"

text \<open>The bucket a send is charged to, if any.\<close>

definition org_bucket :: "account list \<Rightarrow> bool \<Rightarrow> send \<Rightarrow> string option" where
  "org_bucket accounts exempt e = (case e of (path, idx, _) \<Rightarrow>
     if exempt \<and> throttle_exempt (classify_request path) then None else Some (throttle_bucket_key accounts idx))"

definition fleet_bucket :: "account list \<Rightarrow> send \<Rightarrow> provider option" where
  "fleet_bucket accounts e = (case e of (_, idx, _) \<Rightarrow> map_option a_provider (get accounts idx))"

text \<open>Settings and clocks far from the ends of an \<open>i64\<close>: spacings of at most three days, instants and
  theoretical arrival times up to \<open>M\<close>.\<close>

definition spacing_ok :: "throttle_config \<Rightarrow> bool" where
  "spacing_ok c = is_none_or (tc_min_spacing_ms c) (\<lambda>w. uint w \<le> 2 ^ 28)"

definition tats_within :: "int \<Rightarrow> ('k, i64) hash_map \<Rightarrow> bool" where
  "tats_within M tats \<longleftrightarrow> (\<forall>k v. hm_get tats k = Some v \<longrightarrow> 0 \<le> v \<and> v \<le> M)"

definition timely :: "int \<Rightarrow> throttle \<Rightarrow> bool" where
  "timely M t \<longleftrightarrow> spacing_ok (th_account_throttle t) \<and> spacing_ok (th_fleet_throttle t) \<and>
     tats_within M (th_org_tat_ms t) \<and> tats_within M (th_fleet_tat_ms t)"

lemma u64_as_i64_small:
  fixes w :: u64
  assumes "uint w \<le> 2 ^ 28"
  shows "u64_as_i64 w = uint w"
proof -
  have nonneg: "0 \<le> uint w" by simp
  have "- (2 ^ 63) \<le> uint w" by (rule order_trans [OF _ nonneg]) simp
  moreover have "uint w < 2 ^ 63" by (rule order_le_less_trans [OF assms]) simp
  ultimately have "signed_take_bit 63 (uint w) = uint w" by (rule signed_take_bit_int_eq_self)
  then show ?thesis by (simp add: u64_as_i64_def sint_uint)
qed

lemma small_in_i64: "- (2 ^ 62) \<le> x \<Longrightarrow> x \<le> 2 ^ 62 \<Longrightarrow> in_i64 x"
  by (simp add: in_i64_def i64_min_def i64_max_def)

lemma throttle_slot_exact:
  assumes "0 \<le> T" "T \<le> 2 ^ 28" "0 \<le> tat" "tat \<le> 2 ^ 61" "0 \<le> now" "now \<le> 2 ^ 61" "1 \<le> burst"
  shows "throttle_slot tat now T burst = (max tat now + T, max tat now - (uint burst - 1) * T)"
proof -
  have b: "max burst 1 = burst" using assms(7) by (simp add: max_def)
  have u: "0 \<le> uint burst - 1" "uint burst - 1 \<le> 2 ^ 32 - 1"
    using assms(7) uint_lt2p [of burst] by (simp_all add: word_le_def)
  define P where "P = T * (uint burst - 1)"
  define M where "M = max tat now"
  have P: "0 \<le> P" "P \<le> 2 ^ 28 * (2 ^ 32 - 1)" unfolding P_def
    using assms(1,2) u mult_mono [OF assms(2) u(2)] by simp_all
  have M: "0 \<le> M" "M \<le> 2 ^ 61" using assms by (simp_all add: M_def)
  have "in_i64 (uint burst - 1)" "in_i64 P" "in_i64 (M + T)" "in_i64 (M - P)"
    using u P M assms(1,2) by (auto intro!: small_in_i64)
  then show ?thesis
    by (simp add: throttle_slot_def b Let_def i64_sub_def i64_mul_def i64_add_def mult.commute flip: P_def M_def)
qed

lemma effective_burst_pos: "1 \<le> effective_burst c"
  by (simp add: effective_burst_def)

lemma charge_exact:
  assumes "uint w \<le> 2 ^ 28" "tats_within (2 ^ 61) tats" "0 \<le> now" "now \<le> 2 ^ 61"
  shows "charge key now w (effective_burst c) tats =
    (let base = max (unwrap_or (hm_get tats key) 0) now
     in (base - (uint (effective_burst c) - 1) * uint w, hm_insert key (base + uint w) tats))"
proof -
  have "0 \<le> unwrap_or (hm_get tats key) 0 \<and> unwrap_or (hm_get tats key) 0 \<le> 2 ^ 61"
    using assms(2) by (cases "hm_get tats key") (auto simp: tats_within_def)
  then show ?thesis
    using assms by (simp add: charge_def u64_as_i64_small throttle_slot_exact effective_burst_pos Let_def)
qed

text \<open>One send under the bounds, with the arithmetic exact.\<close>

definition settled :: "account list \<Rightarrow> send \<Rightarrow> throttle \<Rightarrow> bool" where
  "settled accounts e t \<longleftrightarrow> timely (2 ^ 61) t \<and> 0 \<le> sent_at e \<and> sent_at e \<le> 2 ^ 61 \<and>
     fst (snd e) < length accounts"

definition org_base :: "string \<Rightarrow> send \<Rightarrow> throttle \<Rightarrow> i64" where
  "org_base key e t = max (unwrap_or (hm_get (th_org_tat_ms t) key) 0) (sent_at e)"

definition fleet_base :: "provider \<Rightarrow> send \<Rightarrow> throttle \<Rightarrow> i64" where
  "fleet_base p e t = max (unwrap_or (hm_get (th_fleet_tat_ms t) p) 0) (sent_at e)"

definition slack :: "throttle_config \<Rightarrow> u64 \<Rightarrow> i64" where
  "slack c w = (uint (effective_burst c) - 1) * uint w"

definition org_allow :: "account list \<Rightarrow> send \<Rightarrow> throttle \<Rightarrow> i64" where
  "org_allow accounts e t =
     (case (effective_min_spacing (th_account_throttle t), org_bucket accounts (th_exempt_noise t) e) of
        (Some w, Some key) \<Rightarrow> org_base key e t - slack (th_account_throttle t) w
      | _ \<Rightarrow> sent_at e)"

definition fleet_allow :: "account list \<Rightarrow> send \<Rightarrow> throttle \<Rightarrow> i64" where
  "fleet_allow accounts e t =
     (case (effective_min_spacing (th_fleet_throttle t), fleet_bucket accounts e) of
        (Some w, Some p) \<Rightarrow> fleet_base p e t - slack (th_fleet_throttle t) w
      | _ \<Rightarrow> sent_at e)"

definition org_tats_after :: "account list \<Rightarrow> send \<Rightarrow> throttle \<Rightarrow> (string, i64) hash_map" where
  "org_tats_after accounts e t =
     (case (effective_min_spacing (th_account_throttle t), org_bucket accounts (th_exempt_noise t) e) of
        (Some w, Some key) \<Rightarrow> hm_insert key (org_base key e t + uint w) (th_org_tat_ms t)
      | _ \<Rightarrow> th_org_tat_ms t)"

definition fleet_tats_after :: "account list \<Rightarrow> send \<Rightarrow> throttle \<Rightarrow> (provider, i64) hash_map" where
  "fleet_tats_after accounts e t =
     (case (effective_min_spacing (th_fleet_throttle t), fleet_bucket accounts e) of
        (Some w, Some p) \<Rightarrow> hm_insert p (fleet_base p e t + uint w) (th_fleet_tat_ms t)
      | _ \<Rightarrow> th_fleet_tat_ms t)"

lemma spacing_small: "spacing_ok c \<Longrightarrow> effective_min_spacing c = Some w \<Longrightarrow> uint w \<le> 2 ^ 28"
  by (auto simp: spacing_ok_def effective_min_spacing_def split: if_splits)

lemma tats_base:
  "tats_within (2 ^ 61) tats \<Longrightarrow> 0 \<le> now \<Longrightarrow> now \<le> 2 ^ 61 \<Longrightarrow>
     0 \<le> max (unwrap_or (hm_get tats k) 0) now \<and> max (unwrap_or (hm_get tats k) 0) now \<le> 2 ^ 61"
  by (cases "hm_get tats k") (auto simp: tats_within_def)

lemma slack_bounds:
  assumes "spacing_ok c" and "effective_min_spacing c = Some w"
  shows "0 \<le> slack c w" "slack c w \<le> 2 ^ 60"
proof -
  have u: "0 \<le> uint (effective_burst c) - 1" "uint (effective_burst c) - 1 \<le> 2 ^ 32 - 1"
    using effective_burst_pos [of c] uint_lt2p [of "effective_burst c"] by (simp_all add: word_le_def)
  have "(uint (effective_burst c) - 1) * uint w \<le> (2 ^ 32 - 1) * 2 ^ 28"
    using u spacing_small [OF assms] by (intro mult_mono) simp_all
  then show "slack c w \<le> 2 ^ 60" unfolding slack_def by (rule order_trans) simp
  show "0 \<le> slack c w" unfolding slack_def using u(1) by simp
qed

lemma org_charge_exact:
  assumes "settled accounts (path, idx, now) t"
  shows "org_charge accounts path idx now t =
    (max now (org_allow accounts (path, idx, now) t), t\<lparr>th_org_tat_ms := org_tats_after accounts (path, idx, now) t\<rparr>)"
  using assms spacing_small [of "th_account_throttle t"]
  by (auto simp: settled_def timely_def org_charge_def noise_exempt_def org_bucket_def org_allow_def org_tats_after_def
      org_base_def slack_def charge_exact Let_def split: option.splits)

lemma org_allow_bounds:
  assumes "settled accounts e t"
  shows "- (2 ^ 60) \<le> org_allow accounts e t \<and> org_allow accounts e t \<le> 2 ^ 61"
proof -
  have s: "spacing_ok (th_account_throttle t)" "tats_within (2 ^ 61) (th_org_tat_ms t)" "0 \<le> sent_at e" "sent_at e \<le> 2 ^ 61"
    using assms by (simp_all add: settled_def timely_def)
  have "- (2 ^ 60) \<le> org_base key e t - slack (th_account_throttle t) w \<and> org_base key e t - slack (th_account_throttle t) w \<le> 2 ^ 61"
    if "effective_min_spacing (th_account_throttle t) = Some w" for key w
    using slack_bounds [OF s(1) that] tats_base [OF s(2-4), of key] unfolding org_base_def by linarith
  moreover have "- (2 ^ 60) \<le> sent_at e" using s(3) by (rule order_trans [rotated]) simp
  ultimately show ?thesis using s(4) by (auto simp: org_allow_def split: option.split)
qed

lemma fleet_allow_bounds:
  assumes "settled accounts e t"
  shows "- (2 ^ 60) \<le> fleet_allow accounts e t \<and> fleet_allow accounts e t \<le> 2 ^ 61"
proof -
  have s: "spacing_ok (th_fleet_throttle t)" "tats_within (2 ^ 61) (th_fleet_tat_ms t)" "0 \<le> sent_at e" "sent_at e \<le> 2 ^ 61"
    using assms by (simp_all add: settled_def timely_def)
  have "- (2 ^ 60) \<le> fleet_base key e t - slack (th_fleet_throttle t) w \<and> fleet_base key e t - slack (th_fleet_throttle t) w \<le> 2 ^ 61"
    if "effective_min_spacing (th_fleet_throttle t) = Some w" for key w
    using slack_bounds [OF s(1) that] tats_base [OF s(2-4), of key] unfolding fleet_base_def by linarith
  moreover have "- (2 ^ 60) \<le> sent_at e" using s(3) by (rule order_trans [rotated]) simp
  ultimately show ?thesis using s(4) by (auto simp: fleet_allow_def split: option.split)
qed

lemma fleet_bucket_settled:
  "settled accounts e t \<Longrightarrow> fleet_bucket accounts e = Some (a_provider (accounts ! fst (snd e)))"
  by (auto simp: settled_def fleet_bucket_def get_def split: prod.splits)

lemma throttle_step_exact:
  assumes "settled accounts e t"
  shows "throttle_step accounts e t =
    (max (sent_at e) (max (org_allow accounts e t) (fleet_allow accounts e t)),
     t\<lparr>th_org_tat_ms := org_tats_after accounts e t, th_fleet_tat_ms := fleet_tats_after accounts e t\<rparr>)"
proof -
  obtain path idx now where e: "e = (path, idx, now)" by (cases e)
  let ?o = "max now (org_allow accounts e t)"
  have idx: "get accounts idx = Some (accounts ! idx)" and now: "0 \<le> now" "now \<le> 2 ^ 61"
    using assms by (simp_all add: settled_def e get_def)
  have sub: "now + max 0 (i64_sub x now) = max now x" if "- (2 ^ 60) \<le> x" "x \<le> 2 ^ 61" for x
    using that now small_in_i64 [of "x - now"] by (simp add: i64_sub_def max_def)
  have o: "- (2 ^ 60) \<le> ?o" "?o \<le> 2 ^ 61" using org_allow_bounds [OF assms] now by auto
  show ?thesis
  proof (cases "effective_min_spacing (th_fleet_throttle t)")
    case None
    with o show ?thesis
      by (simp add: e throttle_step_def throttle_send_def org_charge_exact [OF assms [unfolded e]] sub
          fleet_allow_def fleet_tats_after_def)
  next
    case (Some w)
    let ?p = "a_provider (accounts ! idx)"
    have w: "uint w \<le> 2 ^ 28" "tats_within (2 ^ 61) (th_fleet_tat_ms t)"
      using assms Some spacing_small by (auto simp: settled_def timely_def)
    have bucket: "fleet_bucket accounts e = Some ?p" using fleet_bucket_settled [OF assms] by (simp add: e)
    have "charge ?p now w (effective_burst (th_fleet_throttle t)) (th_fleet_tat_ms t) =
        (fleet_allow accounts e t, fleet_tats_after accounts e t)"
      using charge_exact [OF w now, of ?p] bucket Some
      by (simp add: fleet_allow_def fleet_tats_after_def fleet_base_def slack_def e Let_def)
    moreover have "now + max 0 (i64_sub (max ?o (fleet_allow accounts e t)) now) = max ?o (fleet_allow accounts e t)"
      using sub [of "max ?o (fleet_allow accounts e t)"] o fleet_allow_bounds [OF assms] by auto
    ultimately show ?thesis
      using Some by (simp add: e throttle_step_def throttle_send_def org_charge_exact [OF assms [unfolded e]] idx max.assoc)
  qed
qed

lemma tats_within_insert:
  assumes "tats_within M tats" "M \<le> M'" "0 \<le> v" "v \<le> M'"
  shows "tats_within M' (hm_insert k v tats)"
  using assms by (fastforce simp: tats_within_def split: if_splits)

lemma tats_within_mono: "tats_within M tats \<Longrightarrow> M \<le> M' \<Longrightarrow> tats_within M' tats"
  by (meson order_trans tats_within_def)

lemma base_within:
  "tats_within M tats \<Longrightarrow> 0 \<le> now \<Longrightarrow> now \<le> M \<Longrightarrow>
     0 \<le> max (unwrap_or (hm_get tats k) 0) now \<and> max (unwrap_or (hm_get tats k) 0) now \<le> M"
  by (cases "hm_get tats k") (auto simp: tats_within_def)

lemma timely_step:
  assumes "timely M t" and "settled accounts e t" and "sent_at e \<le> M"
  shows "timely (M + 2 ^ 28) (snd (throttle_step accounts e t))"
proof -
  have now: "0 \<le> sent_at e" using assms(2) by (simp add: settled_def)
  have sp: "spacing_ok (th_account_throttle t)" "spacing_ok (th_fleet_throttle t)"
    and tats: "tats_within M (th_org_tat_ms t)" "tats_within M (th_fleet_tat_ms t)"
    using assms(1) by (simp_all add: timely_def)
  have "tats_within (M + 2 ^ 28) (org_tats_after accounts e t)"
    using tats_within_mono [OF tats(1)] base_within [OF tats(1) now assms(3)] spacing_small [OF sp(1)] tats(1)
    by (auto simp: org_tats_after_def org_base_def split: option.splits intro!: tats_within_insert add_mono)
  moreover have "tats_within (M + 2 ^ 28) (fleet_tats_after accounts e t)"
    using tats_within_mono [OF tats(2)] base_within [OF tats(2) now assms(3)] spacing_small [OF sp(2)] tats(2)
    by (auto simp: fleet_tats_after_def fleet_base_def split: option.splits intro!: tats_within_insert add_mono)
  ultimately show ?thesis using sp by (simp add: throttle_step_exact [OF assms(2)] timely_def)
qed

lemma timely_mono: "timely M t \<Longrightarrow> M \<le> M' \<Longrightarrow> timely M' t"
  by (auto simp: timely_def elim: tats_within_mono)

lemma throttle_step_settings:
  "settled accounts e t \<Longrightarrow>
     th_exempt_noise (snd (throttle_step accounts e t)) = th_exempt_noise t \<and>
     th_account_throttle (snd (throttle_step accounts e t)) = th_account_throttle t \<and>
     th_fleet_throttle (snd (throttle_step accounts e t)) = th_fleet_throttle t"
  by (simp add: throttle_step_exact)

text \<open>The sends and the throttle a run starts from: everything well within range.\<close>

definition calm :: "account list \<Rightarrow> send list \<Rightarrow> throttle \<Rightarrow> bool" where
  "calm accounts sends t \<longleftrightarrow> timely (2 ^ 60) t \<and> length sends \<le> 2 ^ 28 \<and>
     (\<forall>(path, idx, now)\<in>set sends. idx < length accounts \<and> 0 \<le> now \<and> now \<le> 2 ^ 60)"

lemma run_settles:
  assumes "timely M t" and "2 ^ 60 \<le> M" and "M + int (length sends) * 2 ^ 28 \<le> 2 ^ 61"
    and "\<forall>(path, idx, now)\<in>set sends. idx < length accounts \<and> 0 \<le> now \<and> now \<le> 2 ^ 60"
  shows "run_fits (throttle_step accounts)
    (\<lambda>e s. settled accounts e s \<and> th_exempt_noise s = th_exempt_noise t \<and>
       th_account_throttle s = th_account_throttle t \<and> th_fleet_throttle s = th_fleet_throttle t) sends t"
  using assms
proof (induction sends arbitrary: t M)
  case (Cons e sends)
  obtain path idx now where e: "e = (path, idx, now)" by (cases e)
  have "M \<le> 2 ^ 61" using Cons.prems(3) by (simp add: algebra_simps)
  then have s: "settled accounts e t"
    using Cons.prems timely_mono [OF Cons.prems(1)] by (auto simp: settled_def e)
  have "timely (M + 2 ^ 28) (snd (throttle_step accounts e t))"
    using Cons.prems by (intro timely_step s) (auto simp: e)
  moreover have "M + 2 ^ 28 + int (length sends) * 2 ^ 28 \<le> 2 ^ 61" using Cons.prems(3) by (simp add: algebra_simps)
  ultimately show ?case
    using Cons.IH [of "M + 2 ^ 28" "snd (throttle_step accounts e t)"] Cons.prems(2,4) s throttle_step_settings [OF s]
    by simp
qed simp

lemma run_fits_mono:
  assumes "run_fits step room es s" and "\<And>e s. room e s \<Longrightarrow> room' e s"
  shows "run_fits step room' es s"
  using assms by (induction es arbitrary: s) auto

section \<open>Both buckets are such buckets\<close>

definition org_room :: "account list \<Rightarrow> bool \<Rightarrow> throttle_config \<Rightarrow> u64 \<Rightarrow> send \<Rightarrow> throttle \<Rightarrow> bool" where
  "org_room accounts exempt c w e t \<longleftrightarrow> settled accounts e t \<and> th_exempt_noise t = exempt \<and>
     th_account_throttle t = c \<and> effective_min_spacing c = Some w"

definition fleet_room :: "account list \<Rightarrow> throttle_config \<Rightarrow> u64 \<Rightarrow> send \<Rightarrow> throttle \<Rightarrow> bool" where
  "fleet_room accounts c w e t \<longleftrightarrow> settled accounts e t \<and> th_fleet_throttle t = c \<and> effective_min_spacing c = Some w"

interpretation org_pace: gcra_bucket "throttle_step accounts" sent_at "\<lambda>e. org_bucket accounts exempt e = Some key"
  "\<lambda>t. unwrap_or (hm_get (th_org_tat_ms t) key) 0" "org_room accounts exempt c w" "uint w" "uint (effective_burst c)"
  for accounts exempt key c w
  by unfold_locales
    (auto simp: org_room_def throttle_step_exact org_allow_def org_tats_after_def org_base_def slack_def split: option.splits)

interpretation org_pace_alone: gcra_alone "throttle_step accounts" sent_at "\<lambda>e. org_bucket accounts exempt e = Some key"
  "\<lambda>t. unwrap_or (hm_get (th_org_tat_ms t) key) 0"
  "\<lambda>e t. org_room accounts exempt c w e t \<and> effective_min_spacing (th_fleet_throttle t) = None"
  "uint w" "uint (effective_burst c)"
  for accounts exempt key c w
proof (unfold_locales, goal_cases)
  case (5 e t)
  then have "0 \<le> slack c w" using slack_bounds(1) by (auto simp: org_room_def settled_def timely_def)
  with 5 show ?case
    by (auto simp: org_room_def throttle_step_exact org_allow_def fleet_allow_def org_base_def)
qed (use org_pace.charged_tat org_pace.charged_release org_pace.passed_tat in auto)

interpretation fleet_pace: gcra_bucket "throttle_step accounts" sent_at "\<lambda>e. fleet_bucket accounts e = Some p"
  "\<lambda>t. unwrap_or (hm_get (th_fleet_tat_ms t) p) 0" "fleet_room accounts c w" "uint w" "uint (effective_burst c)"
  for accounts p c w
  by unfold_locales
    (auto simp: fleet_room_def throttle_step_exact fleet_allow_def fleet_tats_after_def fleet_base_def slack_def
      split: option.splits)

section \<open>Properties\<close>

definition throttle_run :: "account list \<Rightarrow> send list \<Rightarrow> throttle \<Rightarrow> i64 list" where
  "throttle_run accounts = run_steps (throttle_step accounts)"

lemma calm_fits:
  "calm accounts sends t \<Longrightarrow> run_fits (throttle_step accounts)
    (\<lambda>e s. settled accounts e s \<and> th_exempt_noise s = th_exempt_noise t \<and>
       th_account_throttle s = th_account_throttle t \<and> th_fleet_throttle s = th_fleet_throttle t) sends t"
  by (rule run_settles [where M = "2 ^ 60"]) (auto simp: calm_def)

text \<open>
  C22. The per-organization throttle paces. Among the sends charged to one bucket, if the \<open>i\<close>-th and the
  \<open>j\<close>-th have \<open>n\<close> charged sends from one to the other, themselves included, then the \<open>j\<close>-th goes out no
  earlier than \<open>(n - burst) * spacing\<close> after the \<open>i\<close>-th arrived at the throttle. Measured from where the
  \<open>i\<close>-th went out, the same holds only with the fleet ceiling off: behind the ceiling two sends of one
  organization can leave together (\<open>org_spacing_lost_behind_the_fleet\<close>). The instants are within range and the
  settings the same throughout. Sends of other organizations in between take nothing from this bucket and give it
  nothing.
\<close>

theorem org_sends_are_paced:
  assumes "calm accounts sends t" and "effective_min_spacing (th_account_throttle t) = Some w"
    and "i < j" and "j < length sends"
    and "org_bucket accounts (th_exempt_noise t) (sends ! i) = Some key"
    and "org_bucket accounts (th_exempt_noise t) (sends ! j) = Some key"
    and "n = count_between (\<lambda>e. org_bucket accounts (th_exempt_noise t) e = Some key) sends i j"
  shows "sent_at (sends ! i) + (n - uint (effective_burst (th_account_throttle t))) * uint w
      \<le> throttle_run accounts sends t ! j \<and>
    (effective_min_spacing (th_fleet_throttle t) = None \<longrightarrow>
      throttle_run accounts sends t ! i + (n - uint (effective_burst (th_account_throttle t))) * uint w
      \<le> throttle_run accounts sends t ! j)"
proof -
  note fits = calm_fits [OF assms(1)]
  have "run_fits (throttle_step accounts) (org_room accounts (th_exempt_noise t) (th_account_throttle t) w) sends t"
    by (rule run_fits_mono [OF fits]) (simp add: org_room_def assms(2))
  note arrival = org_pace.spacing_from_arrival [OF this assms(3-6)]
  have "run_fits (throttle_step accounts) (\<lambda>e s. org_room accounts (th_exempt_noise t) (th_account_throttle t) w e s \<and>
      effective_min_spacing (th_fleet_throttle s) = None) sends t" if "effective_min_spacing (th_fleet_throttle t) = None"
    by (rule run_fits_mono [OF fits]) (simp add: org_room_def assms(2) that)
  note alone = org_pace_alone.spacing_from_release [OF this assms(3-6)]
  show ?thesis unfolding throttle_run_def assms(7) using arrival alone by blast
qed

text \<open>Two accounts of one organization and one of another, with a spacing of 350 ms and no burst.\<close>

definition in_org :: "string \<Rightarrow> account" where
  "in_org org = (fresh_account org Anthropic)\<lparr>a_org_uuid := Some org\<rparr>"

definition strict_spacing :: "u64 \<Rightarrow> throttle_config" where
  "strict_spacing w = \<lparr>tc_min_spacing_ms = Some w, tc_burst = None\<rparr>"

definition idle_throttle :: "throttle_config \<Rightarrow> throttle_config \<Rightarrow> throttle" where
  "idle_throttle c f = \<lparr>th_exempt_noise = False, th_account_throttle = c, th_fleet_throttle = f,
     th_org_tat_ms = [], th_fleet_tat_ms = []\<rparr>"

definition two_orgs :: "account list" where
  "two_orgs = [in_org ''A'', in_org ''B'', in_org ''A'']"

definition three_sends :: "send list" where
  "three_sends = [(''/v1/messages'', 0, 1000), (''/v1/messages'', 1, 1000), (''/v1/messages'', 2, 1000)]"

theorem org_sends_are_paced_witness:
  "1000 + 350 \<le> throttle_run two_orgs three_sends
     (idle_throttle (strict_spacing 350) \<lparr>tc_min_spacing_ms = None, tc_burst = None\<rparr>) ! 2"
proof -
  let ?t = "idle_throttle (strict_spacing 350) \<lparr>tc_min_spacing_ms = None, tc_burst = None\<rparr>"
  have calm: "calm two_orgs three_sends ?t"
    by (simp add: calm_def timely_def tats_within_def hm_get_def spacing_ok_def idle_throttle_def strict_spacing_def
        three_sends_def two_orgs_def)
  have w: "effective_min_spacing (th_account_throttle ?t) = Some 350" by code_simp
  have keys: "org_bucket two_orgs (th_exempt_noise ?t) (three_sends ! 0) = Some ''anthropic:org:A''"
    "org_bucket two_orgs (th_exempt_noise ?t) (three_sends ! 2) = Some ''anthropic:org:A''" by code_simp+
  have n: "2 = count_between (\<lambda>e. org_bucket two_orgs (th_exempt_noise ?t) e = Some ''anthropic:org:A'') three_sends 0 2"
    by code_simp
  have "sent_at (three_sends ! 0) + (2 - uint (effective_burst (th_account_throttle ?t))) * uint (350 :: u64)
      \<le> throttle_run two_orgs three_sends ?t ! 2"
    using org_sends_are_paced [OF calm w _ _ keys n] by (simp only: three_sends_def) simp
  moreover have "uint (effective_burst (th_account_throttle ?t)) = 1" by code_simp
  ultimately show ?thesis by (simp add: three_sends_def)
qed

section \<open>The two buckets together\<close>

text \<open>
  With both buckets on, the bound from release to release is gone. A slot is reserved in the organization's
  bucket for the instant the send arrives, and the fleet bucket then delays the send past it: the
  organization's next slot comes due while the first send still waits, and the two leave one fleet
  spacing apart. Here organization A is held to one send per 350 ms; ten sends of organization B fill the fleet
  bucket, and A's two sends, asked for at the same instant, go out 100 ms apart.
\<close>

definition fleet_backlog :: "send list" where
  "fleet_backlog = replicate 10 (''/v1/messages'', 1, 1000) @ [(''/v1/messages'', 0, 1000), (''/v1/messages'', 2, 1000)]"

theorem org_spacing_lost_behind_the_fleet:
  "drop 10 (throttle_run two_orgs fleet_backlog (idle_throttle (strict_spacing 350) (strict_spacing 100))) = [2000, 2100]"
  by code_simp

text \<open>The fleet bucket holds the same way, from arrival to release.\<close>

theorem fleet_sends_are_paced:
  assumes "calm accounts sends t" and "effective_min_spacing (th_fleet_throttle t) = Some w"
    and "i < j" and "j < length sends"
    and "fleet_bucket accounts (sends ! i) = Some p" and "fleet_bucket accounts (sends ! j) = Some p"
  shows "sent_at (sends ! i) +
      (count_between (\<lambda>e. fleet_bucket accounts e = Some p) sends i j - uint (effective_burst (th_fleet_throttle t))) * uint w
      \<le> throttle_run accounts sends t ! j"
proof -
  have "run_fits (throttle_step accounts) (fleet_room accounts (th_fleet_throttle t) w) sends t"
    by (rule run_fits_mono [OF calm_fits [OF assms(1)]]) (simp add: fleet_room_def assms(2))
  then show ?thesis unfolding throttle_run_def using assms(3-6) by (rule fleet_pace.spacing_from_arrival)
qed

section \<open>Bucket keys\<close>

text \<open>Two accounts share a bucket exactly when they carry the same organization key; accounts without
  one never share, whatever an organization is called.\<close>

theorem bucket_key_for_eq_iff:
  "bucket_key_for u n i = bucket_key_for u' n' i' \<longleftrightarrow>
     org_key_of u n = org_key_of u' n' \<and> (org_key_of u n = None \<longrightarrow> i = i')"
  by (auto simp: bucket_key_for_def split: option.splits)

end
