(* ===== verification/Token_Map.thy ===== *)
theory Token_Map
  imports Capped_Map Strings "HOL-Library.Char_ord" "HOL-Library.List_Lexorder"
begin

text \<open>
  The bound-token map of \<^verbatim>\<open>src/manager/bound_tokens.rs\<close>: one part (\<open>BoundTokenMap\<close>, a hash map with an
  ordered index by mint time) and the sixteen locked parts it is split into
  (\<open>ShardedBoundTokens\<close>). The locale \<open>expiring_store\<close> is what the request path relies on: a recorded
  token reads back as recorded or not at all, and no other token changes account. The parts are
  shown to refine a plain map from which a record drops exactly what has expired or is not among the
  newest of its part.
\<close>

section \<open>The interface\<close>

locale expiring_store =
  fixes invar :: "'s \<Rightarrow> bool"
    and lookup :: "'s \<Rightarrow> 'k \<Rightarrow> 'v option"
    and put :: "'k \<Rightarrow> 'v \<Rightarrow> 's \<Rightarrow> 's"
  assumes invar_put: "invar s \<Longrightarrow> invar (put k v s)"
    and lookup_put_same: "invar s \<Longrightarrow> lookup (put k v s) k \<in> {Some v, None}"
    and lookup_put_other: "invar s \<Longrightarrow> k' \<noteq> k \<Longrightarrow> lookup (put k v s) k' \<in> {lookup s k', None}"
begin

definition put_all :: "('k \<times> 'v) list \<Rightarrow> 's \<Rightarrow> 's" where
  "put_all kvs s = fold (\<lambda>(k, v). put k v) kvs s"

lemma put_all_simps [simp]:
  "put_all [] s = s" "put_all ((k, v) # kvs) s = put_all kvs (put k v s)"
  by (simp_all add: put_all_def)

lemma invar_put_all: "invar s \<Longrightarrow> invar (put_all kvs s)"
  by (induction kvs arbitrary: s) (auto simp: invar_put)

lemma lookup_put: "invar s \<Longrightarrow> lookup (put k v s) k' \<in> {if k' = k then Some v else lookup s k', None}"
  using lookup_put_same lookup_put_other by (cases "k' = k") auto

text \<open>A key that was written reads as one of the values written to it; the others as before, or not
  at all.\<close>

lemma lookup_put_all:
  "invar s \<Longrightarrow> lookup (put_all kvs s) k = Some w \<Longrightarrow>
     (k, w) \<in> set kvs \<or> k \<notin> fst ` set kvs \<and> lookup s k = Some w"
proof (induction kvs arbitrary: s)
  case (Cons kv kvs)
  obtain a v where kv: "kv = (a, v)" by force
  from Cons.IH [of "put a v s"] Cons.prems lookup_put [of s a v k] show ?case
    by (auto simp: kv invar_put split: if_splits)
qed simp

end

section \<open>One part\<close>

text \<open>\<open>BoundTokenKind\<close> of \<^verbatim>\<open>src/bound_tokens.rs\<close>, with its names in the file and in logs.\<close>

datatype bound_token_kind = ServerToolUse | ThinkingSignature | RedactedThinking | MessageId

fun kind_as_str :: "bound_token_kind \<Rightarrow> string" where
  "kind_as_str ServerToolUse = ''server-tool-id''"
| "kind_as_str ThinkingSignature = ''thinking-signature''"
| "kind_as_str RedactedThinking = ''redacted-thinking''"
| "kind_as_str MessageId = ''message-id''"

type_synonym minted = "nat \<times> bound_token_kind \<times> i64"

abbreviation mint_ms :: "minted \<Rightarrow> i64" where "mint_ms v \<equiv> snd (snd v)"

record token_map =
  by_hash :: "(string, minted) hash_map"
  by_age :: "(i64 \<times> string) list"

definition token_map_new :: token_map where
  "token_map_new = \<lparr>by_hash = [], by_age = []\<rparr>"

abbreviation tm_get :: "token_map \<Rightarrow> string \<Rightarrow> minted option" where
  "tm_get m h \<equiv> hm_get (by_hash m) h"

definition tm_insert :: "string \<Rightarrow> minted \<Rightarrow> token_map \<Rightarrow> token_map" where
  "tm_insert h v m =
     (let aged = (case tm_get m h of
                    Some old \<Rightarrow> remove1 (mint_ms old, h) (by_age m)
                  | None \<Rightarrow> by_age m)
      in \<lparr>by_hash = hm_insert h v (by_hash m), by_age = insort_insert (mint_ms v, h) aged\<rparr>)"

definition tm_insert_if_absent :: "string \<Rightarrow> minted \<Rightarrow> token_map \<Rightarrow> token_map" where
  "tm_insert_if_absent h v m = (if tm_get m h = None then tm_insert h v m else m)"

definition fresh :: "i64 \<Rightarrow> i64 \<Rightarrow> i64 \<Rightarrow> bool" where
  "fresh now_ms ttl_ms ms \<longleftrightarrow> saturating_sub_i64 now_ms ms \<le> ttl_ms"

fun prune_age ::
  "i64 \<Rightarrow> i64 \<Rightarrow> nat \<Rightarrow> (string, minted) hash_map \<Rightarrow> (i64 \<times> string) list \<Rightarrow> token_map" where
  "prune_age now_ms ttl_ms cap hs [] = \<lparr>by_hash = hs, by_age = []\<rparr>"
| "prune_age now_ms ttl_ms cap hs ((ms, h) # older) =
     (if fresh now_ms ttl_ms ms \<and> length hs \<le> cap then \<lparr>by_hash = hs, by_age = (ms, h) # older\<rparr>
      else prune_age now_ms ttl_ms cap (hm_remove h hs) older)"

definition tm_prune :: "i64 \<Rightarrow> i64 \<Rightarrow> nat \<Rightarrow> token_map \<Rightarrow> token_map" where
  "tm_prune now_ms ttl_ms cap m = prune_age now_ms ttl_ms cap (by_hash m) (by_age m)"

text \<open>The two halves agree: an entry is in one exactly when it is in the other, at its mint time.\<close>

definition age_of :: "string \<times> minted \<Rightarrow> i64 \<times> string" where
  "age_of = (\<lambda>(h, v). (mint_ms v, h))"

definition tm_ok :: "token_map \<Rightarrow> bool" where
  "tm_ok m \<longleftrightarrow> hm_ok (by_hash m) \<and> sorted (by_age m) \<and> distinct (by_age m) \<and>
     set (by_age m) = age_of ` set (by_hash m)"

lemma tm_ok_new [simp]: "tm_ok token_map_new"
  by (simp add: tm_ok_def token_map_new_def)

lemma hm_unique: "hm_ok m \<Longrightarrow> (h, v) \<in> set m \<Longrightarrow> (h, w) \<in> set m \<Longrightarrow> v = w"
  unfolding hm_ok_def by (rule eq_key_imp_eq_value)

lemma age_of_inj: "hm_ok m \<Longrightarrow> inj_on age_of (set m)"
  using hm_unique by (fastforce simp: inj_on_def age_of_def)

lemma length_by_age: "tm_ok m \<Longrightarrow> length (by_age m) = length (by_hash m)"
  using card_image [OF age_of_inj, of "by_hash m"]
  by (simp add: tm_ok_def distinct_card [symmetric] hm_ok_def distinct_map)

lemma by_hash_set:
  "hm_ok m \<Longrightarrow> (h, v) \<in> set m \<Longrightarrow> age_of ` set (hm_remove h m) = age_of ` set m - {(mint_ms v, h)}"
  using hm_unique [of m h v] by (fastforce simp: hm_remove_def age_of_def)

lemma age_of_mem: "hm_ok m \<Longrightarrow> (ms, h) \<in> age_of ` set m \<longleftrightarrow> (\<exists>v. hm_get m h = Some v \<and> mint_ms v = ms)"
  by (force simp: age_of_def hm_get_in)

lemma hm_insert_set: "hm_ok m \<Longrightarrow> set (hm_insert h v m) = insert (h, v) (set (hm_remove h m))"
  by (auto simp: hm_get_in [symmetric] split: if_splits)

lemma tm_ok_insert: assumes "tm_ok m" shows "tm_ok (tm_insert h v m)"
proof -
  define aged where "aged = (case tm_get m h of Some old \<Rightarrow> remove1 (mint_ms old, h) (by_age m) | None \<Rightarrow> by_age m)"
  have ok: "hm_ok (by_hash m)" and age: "sorted (by_age m)" "distinct (by_age m)" "set (by_age m) = age_of ` set (by_hash m)"
    using assms by (simp_all add: tm_ok_def)
  have "set aged = age_of ` set (hm_remove h (by_hash m))"
  proof (cases "tm_get m h")
    case None
    then have "hm_remove h (by_hash m) = by_hash m" by (force simp: hm_get_None hm_remove_def filter_id_conv)
    with None age show ?thesis by (simp add: aged_def)
  next
    case (Some old)
    with by_hash_set [OF ok, of h old] have "age_of ` set (hm_remove h (by_hash m)) = set (by_age m) - {(mint_ms old, h)}"
      by (simp add: hm_get_in [OF ok, symmetric] age)
    with Some age(2) show ?thesis by (simp add: aged_def)
  qed
  moreover have "sorted aged" "distinct aged" using age by (simp_all add: aged_def sorted_remove1 split: option.splits)
  ultimately show ?thesis
    using ok by (simp add: tm_ok_def tm_insert_def aged_def [symmetric] Let_def hm_insert_set set_insort_insert
        sorted_insort_insert distinct_insort_insert age_of_def)
qed

lemma tm_get_insert [simp]: "tm_get (tm_insert h v m) k = (if k = h then Some v else tm_get m k)"
  by (simp add: tm_insert_def Let_def)

text \<open>What bounding keeps: what has not expired and has fewer than \<open>cap\<close> newer entries.\<close>

definition newest :: "i64 \<Rightarrow> i64 \<Rightarrow> nat \<Rightarrow> (i64 \<times> string) set \<Rightarrow> (i64 \<times> string) set" where
  "newest now_ms ttl_ms cap S = {x \<in> S. fresh now_ms ttl_ms (fst x) \<and> card {y \<in> S. x < y} < cap}"

lemma fresh_mono: "fresh now_ms ttl_ms a \<Longrightarrow> a \<le> b \<Longrightarrow> fresh now_ms ttl_ms b"
  using sat64_mono [of "now_ms - b" "now_ms - a"] by (simp add: fresh_def saturating_sub_i64_def)

lemma newest_Cons:
  assumes "sorted (x # xs)" "distinct (x # xs)"
  shows "newest now_ms ttl_ms cap (set (x # xs)) =
    (if fresh now_ms ttl_ms (fst x) \<and> length (x # xs) \<le> cap then set (x # xs) else newest now_ms ttl_ms cap (set xs))"
proof -
  have less: "x < y" if "y \<in> set xs" for y using assms that by (auto simp: le_less)
  have same: "{z \<in> set (x # xs). y < z} = {z \<in> set xs. y < z}" if "y \<in> set xs" for y using less [OF that] by auto
  have all: "{z \<in> set (x # xs). x < z} = set xs" using less by auto
  have n: "card (set xs) = length xs" using assms(2) by (simp add: distinct_card)
  show ?thesis
  proof (cases "fresh now_ms ttl_ms (fst x) \<and> length (x # xs) \<le> cap")
    case True
    have "fresh now_ms ttl_ms (fst y) \<and> card {z \<in> set (x # xs). y < z} < cap" if "y \<in> set (x # xs)" for y
    proof
      have "x \<le> y" using assms(1) that by auto
      then have "fst x \<le> fst y" by (auto simp: less_eq_prod_def)
      with True show "fresh now_ms ttl_ms (fst y)" using fresh_mono by blast
      have "card {z \<in> set (x # xs). y < z} \<le> card (set xs)"
        by (rule card_mono) (use \<open>x \<le> y\<close> in auto)
      with True n show "card {z \<in> set (x # xs). y < z} < cap" by simp
    qed
    with True show ?thesis by (auto simp: newest_def)
  next
    case False
    then have "\<not> (fresh now_ms ttl_ms (fst x) \<and> card {z \<in> set (x # xs). x < z} < cap)"
      using n by (simp only: all) auto
    then have "newest now_ms ttl_ms cap (set (x # xs)) = newest now_ms ttl_ms cap (set xs)"
      unfolding newest_def using same by auto
    with False show ?thesis by auto
  qed
qed

lemma prune_age_spec:
  fixes now_ms ttl_ms :: i64 and cap :: nat
  assumes "tm_ok \<lparr>by_hash = hs, by_age = ages\<rparr>"
  defines "m \<equiv> prune_age now_ms ttl_ms cap hs ages"
  shows "tm_ok m \<and> set (by_age m) = newest now_ms ttl_ms cap (set ages) \<and> (tm_get m k = Some v \<longleftrightarrow>
    hm_get hs k = Some v \<and> (mint_ms v, k) \<in> newest now_ms ttl_ms cap (set ages)) \<and> length (by_hash m) \<le> cap"
  using assms(1) unfolding m_def
proof (induction now_ms ttl_ms cap hs ages rule: prune_age.induct)
  case (1 now_ms ttl_ms cap hs)
  then show ?case by (auto simp: tm_ok_def newest_def hm_get_def)
next
  case (2 now_ms ttl_ms cap hs ms h older)
  then have ok: "hm_ok hs" "sorted ((ms, h) # older)" "distinct ((ms, h) # older)"
    "set ((ms, h) # older) = age_of ` set hs" by (simp_all add: tm_ok_def)
  have "(ms, h) \<in> age_of ` set hs" unfolding ok(4) [symmetric] by simp
  then obtain w where w: "hm_get hs h = Some w" "mint_ms w = ms" unfolding age_of_mem [OF ok(1)] by blast
  note len = length_by_age [OF "2.prems", simplified]
  note new = newest_Cons [OF ok(2,3), of now_ms ttl_ms cap]
  show ?case
  proof (cases "fresh now_ms ttl_ms ms \<and> length hs \<le> cap")
    case True
    have mem: "(mint_ms v, k) \<in> set ((ms, h) # older)" if "hm_get hs k = Some v"
      unfolding ok(4) age_of_mem [OF ok(1)] using that by blast
    have "fresh now_ms ttl_ms (fst (ms, h)) \<and> length ((ms, h) # older) \<le> cap" using True len by simp
    then have "newest now_ms ttl_ms cap (set ((ms, h) # older)) = set ((ms, h) # older)" unfolding new by (rule if_P)
    with True mem "2.prems" show ?thesis by (simp only: prune_age.simps simp_thms if_True token_map.simps) blast
  next
    case False
    have "age_of ` set (hm_remove h hs) = set older"
      using by_hash_set [OF ok(1), of h w] w ok(1,3) ok(4) [symmetric] by (auto simp: hm_get_in)
    then have "tm_ok \<lparr>by_hash = hm_remove h hs, by_age = older\<rparr>" using ok by (simp add: tm_ok_def)
    note IH = "2.IH" [OF False this]
    have "\<not> (fresh now_ms ttl_ms (fst (ms, h)) \<and> length ((ms, h) # older) \<le> cap)" using False len by simp
    then have new': "newest now_ms ttl_ms cap (set ((ms, h) # older)) = newest now_ms ttl_ms cap (set older)"
      unfolding new by (rule if_not_P)
    have "(mint_ms v, h) \<notin> set older" if "hm_get hs h = Some v" using w that ok(3) by simp
    then have "(mint_ms v, h) \<notin> newest now_ms ttl_ms cap (set older)" if "hm_get hs h = Some v"
      using that by (auto simp: newest_def)
    with IH False show ?thesis unfolding new' by (auto split: if_splits)
  qed
qed

lemma tm_prune_spec:
  assumes "tm_ok m"
  shows "tm_ok (tm_prune now_ms ttl_ms cap m) \<and>
    set (by_age (tm_prune now_ms ttl_ms cap m)) = newest now_ms ttl_ms cap (set (by_age m)) \<and>
    (tm_get (tm_prune now_ms ttl_ms cap m) k = Some v \<longleftrightarrow>
       tm_get m k = Some v \<and> (mint_ms v, k) \<in> newest now_ms ttl_ms cap (set (by_age m))) \<and>
    length (by_hash (tm_prune now_ms ttl_ms cap m)) \<le> cap"
  using prune_age_spec [of "by_hash m" "by_age m" now_ms ttl_ms cap k v] assms by (cases m) (simp add: tm_prune_def)

definition tm_record :: "i64 \<Rightarrow> nat \<Rightarrow> i64 \<Rightarrow> string \<Rightarrow> minted \<Rightarrow> token_map \<Rightarrow> token_map" where
  "tm_record ttl_ms cap now_ms h v m = tm_prune now_ms ttl_ms cap (tm_insert h v m)"

interpretation part: expiring_store tm_ok tm_get "tm_record ttl_ms cap now_ms" for ttl_ms cap now_ms
proof
  fix h k :: string and v and m :: token_map
  assume ok: "tm_ok m"
  note spec = tm_prune_spec [OF tm_ok_insert [OF ok, of h v], folded tm_record_def, of ttl_ms cap now_ms]
  show "tm_ok (tm_record ttl_ms cap now_ms h v m)" using spec by blast
  show "tm_get (tm_record ttl_ms cap now_ms h v m) h \<in> {Some v, None}"
    by (cases "tm_get (tm_record ttl_ms cap now_ms h v m) h") (use spec [of h] in auto)
  show "tm_get (tm_record ttl_ms cap now_ms h v m) k \<in> {tm_get m k, None}" if "k \<noteq> h"
    by (cases "tm_get (tm_record ttl_ms cap now_ms h v m) k") (use spec [of k] that in auto)
qed

section \<open>The parts\<close>

definition BOUND_TOKEN_TTL_MS :: i64 where "BOUND_TOKEN_TTL_MS = 24 * 60 * 60 * 1000"
definition BOUND_TOKEN_CAP :: nat where "BOUND_TOKEN_CAP = 65536"
definition BOUND_TOKEN_SHARDS :: nat where "BOUND_TOKEN_SHARDS = 16"

text \<open>\<open>hash.get(..8)\<close>: absent when the string is shorter or the cut is inside a character.\<close>

definition head_8 :: "string \<Rightarrow> string option" where
  "head_8 s =
     (if length s < 8 \<or> length s > 8 \<and> 128 \<le> (of_char (s ! 8) :: nat) \<and> (of_char (s ! 8) :: nat) < 192 then None
      else Some (take 8 s))"

text \<open>\<open>std_hash\<close> is the standard library's default hasher, whose algorithm is left open.\<close>

definition shard_of :: "(string \<Rightarrow> u64) \<Rightarrow> string \<Rightarrow> nat \<Rightarrow> nat" where
  "shard_of std_hash h shards =
     unwrap_or (Option.bind (head_8 h) (from_hex 32)) (unat (std_hash h)) mod shards"

record sharded_tokens =
  sh_shards :: "token_map list"
  sh_cap :: nat

definition with_shards :: "nat \<Rightarrow> sharded_tokens" where
  "with_shards n = (let k = max n 1 in \<lparr>sh_shards = replicate k token_map_new, sh_cap = BOUND_TOKEN_CAP div k\<rparr>)"

definition bound_tokens_default :: sharded_tokens where
  "bound_tokens_default = with_shards BOUND_TOKEN_SHARDS"

definition sh_index :: "(string \<Rightarrow> u64) \<Rightarrow> sharded_tokens \<Rightarrow> string \<Rightarrow> nat" where
  "sh_index std_hash s h = shard_of std_hash h (length (sh_shards s))"

definition sh_update :: "(string \<Rightarrow> u64) \<Rightarrow> string \<Rightarrow> (token_map \<Rightarrow> token_map) \<Rightarrow> sharded_tokens \<Rightarrow> sharded_tokens" where
  "sh_update std_hash h f s =
     (let i = sh_index std_hash s h in s\<lparr>sh_shards := (sh_shards s)[i := f (sh_shards s ! i)]\<rparr>)"

definition sh_find :: "(string \<Rightarrow> u64) \<Rightarrow> sharded_tokens \<Rightarrow> string \<Rightarrow> minted option" where
  "sh_find std_hash s h = tm_get (sh_shards s ! sh_index std_hash s h) h"

definition sh_get :: "(string \<Rightarrow> u64) \<Rightarrow> i64 \<Rightarrow> sharded_tokens \<Rightarrow> string \<Rightarrow> minted option" where
  "sh_get std_hash now_ms s h = filter_opt (\<lambda>v. fresh now_ms BOUND_TOKEN_TTL_MS (mint_ms v)) (sh_find std_hash s h)"

definition sh_record :: "(string \<Rightarrow> u64) \<Rightarrow> i64 \<Rightarrow> string \<Rightarrow> minted \<Rightarrow> sharded_tokens \<Rightarrow> sharded_tokens" where
  "sh_record std_hash now_ms h v s = sh_update std_hash h (tm_record BOUND_TOKEN_TTL_MS (sh_cap s) now_ms h v) s"

definition sh_rebind ::
  "(string \<Rightarrow> u64) \<Rightarrow> i64 \<Rightarrow> string \<Rightarrow> nat \<Rightarrow> minted \<Rightarrow> sharded_tokens \<Rightarrow> bool \<times> sharded_tokens" where
  "sh_rebind std_hash now_ms h source v s =
     (if is_none_or (sh_find std_hash s h) (\<lambda>old. fst old \<noteq> source) then (False, s)
      else (True, sh_record std_hash now_ms h v s))"

definition sh_insert_if_absent :: "(string \<Rightarrow> u64) \<Rightarrow> string \<Rightarrow> minted \<Rightarrow> sharded_tokens \<Rightarrow> sharded_tokens" where
  "sh_insert_if_absent std_hash h v s = sh_update std_hash h (tm_insert_if_absent h v) s"

definition sh_entries :: "sharded_tokens \<Rightarrow> (string \<times> minted) list" where
  "sh_entries s = concat (map by_hash (sh_shards s))"

text \<open>Every part is consistent and holds only its own hashes; \<open>sh_bounded\<close> is the cap.\<close>

definition sh_ok :: "(string \<Rightarrow> u64) \<Rightarrow> sharded_tokens \<Rightarrow> bool" where
  "sh_ok std_hash s \<longleftrightarrow> sh_shards s \<noteq> [] \<and>
     (\<forall>i<length (sh_shards s). tm_ok (sh_shards s ! i) \<and> (\<forall>e\<in>set (by_hash (sh_shards s ! i)). sh_index std_hash s (fst e) = i))"

definition sh_bounded :: "sharded_tokens \<Rightarrow> bool" where
  "sh_bounded s \<longleftrightarrow> (\<forall>m\<in>set (sh_shards s). length (by_hash m) \<le> sh_cap s) \<and> length (sh_shards s) * sh_cap s \<le> BOUND_TOKEN_CAP"

lemma sh_index_less: "sh_shards s \<noteq> [] \<Longrightarrow> sh_index std_hash s h < length (sh_shards s)"
  by (simp add: sh_index_def shard_of_def)

lemma sh_ok_index: "sh_ok std_hash s \<Longrightarrow> sh_index std_hash s h < length (sh_shards s)"
  by (simp add: sh_ok_def sh_index_less)

lemma sh_index_update [simp]: "sh_index std_hash (sh_update std_hash h f s) k = sh_index std_hash s k"
  by (simp add: sh_index_def sh_update_def Let_def)

lemma sh_find_update:
  "sh_shards s \<noteq> [] \<Longrightarrow> sh_find std_hash (sh_update std_hash h f s) k =
    (if sh_index std_hash s k = sh_index std_hash s h then tm_get (f (sh_shards s ! sh_index std_hash s h)) k
     else sh_find std_hash s k)"
  using sh_index_less [of s std_hash h] by (simp add: sh_find_def) (simp add: sh_update_def Let_def)

lemma sh_ok_part: "sh_ok std_hash s \<Longrightarrow> tm_ok (sh_shards s ! sh_index std_hash s h)"
  using sh_index_less [of s std_hash h] by (simp add: sh_ok_def)

lemma sh_ok_keys:
  "sh_ok std_hash s \<Longrightarrow> i < length (sh_shards s) \<Longrightarrow> k \<in> fst ` set (by_hash (sh_shards s ! i)) \<Longrightarrow>
    sh_index std_hash s k = i"
  unfolding sh_ok_def by (metis imageE)

lemma sh_ok_update:
  assumes "sh_ok std_hash s" "tm_ok (f (sh_shards s ! sh_index std_hash s h))"
    "\<And>k. tm_get (f (sh_shards s ! sh_index std_hash s h)) k \<noteq> None \<Longrightarrow> k = h \<or> tm_get (sh_shards s ! sh_index std_hash s h) k \<noteq> None"
  shows "sh_ok std_hash (sh_update std_hash h f s)"
proof -
  let ?i = "sh_index std_hash s h"
  have "sh_index std_hash s (fst e) = ?i" if "e \<in> set (by_hash (f (sh_shards s ! ?i)))" for e
  proof -
    have "tm_get (f (sh_shards s ! ?i)) (fst e) \<noteq> None" using that by (simp add: hm_get_None)
    from assms(3) [OF this] consider "fst e = h" | "fst e \<in> fst ` set (by_hash (sh_shards s ! ?i))"
      by (auto simp: hm_get_None)
    then show ?thesis
      by cases (simp, rule sh_ok_keys [OF assms(1) sh_ok_index [OF assms(1)]])
  qed
  with assms(1,2) show ?thesis
    unfolding sh_ok_def sh_index_update
    by (auto simp: sh_update_def Let_def nth_list_update sh_ok_index [OF assms(1)])
qed

lemma tm_record_spec:
  assumes "tm_ok m"
  shows "tm_ok (tm_record ttl cap now h v m) \<and> length (by_hash (tm_record ttl cap now h v m)) \<le> cap \<and>
    (tm_get (tm_record ttl cap now h v m) k = Some w \<longleftrightarrow>
       (if k = h then Some v else tm_get m k) = Some w \<and>
       (mint_ms w, k) \<in> newest now ttl cap {(mint_ms u, j) |j u. (if j = h then Some v else tm_get m j) = Some u})"
proof -
  have ok: "tm_ok (tm_insert h v m)" by (rule tm_ok_insert [OF assms])
  have "set (by_age (tm_insert h v m)) = {(mint_ms u, j) |j u. tm_get (tm_insert h v m) j = Some u}"
    using ok age_of_mem [of "by_hash (tm_insert h v m)"] by (fastforce simp: tm_ok_def)
  with tm_prune_spec [OF ok, of now ttl cap k w] show ?thesis by (simp add: tm_record_def)
qed

lemma sh_find_part:
  assumes "sh_ok std_hash s"
  shows "tm_get (sh_shards s ! sh_index std_hash s h) k = (if sh_index std_hash s k = sh_index std_hash s h then sh_find std_hash s k else None)"
proof (cases "tm_get (sh_shards s ! sh_index std_hash s h) k = None")
  case False
  then have "k \<in> fst ` set (by_hash (sh_shards s ! sh_index std_hash s h))" by (simp add: hm_get_None)
  then have "sh_index std_hash s k = sh_index std_hash s h" by (rule sh_ok_keys [OF assms sh_ok_index [OF assms]])
  then show ?thesis by (simp add: sh_find_def)
qed (auto simp: sh_find_def)

text \<open>The map the parts stand for: a record keeps every other part, and of its own part what has not
  expired and is among the newest.\<close>

definition spec_record ::
  "(string \<Rightarrow> nat) \<Rightarrow> nat \<Rightarrow> i64 \<Rightarrow> string \<Rightarrow> minted \<Rightarrow> (string \<rightharpoonup> minted) \<Rightarrow> (string \<rightharpoonup> minted)" where
  "spec_record part cap now_ms h v M =
     (let M' = M(h \<mapsto> v)
      in M' |` {k. part k = part h \<longrightarrow> (\<exists>w. M' k = Some w \<and> (mint_ms w, k) \<in>
             newest now_ms BOUND_TOKEN_TTL_MS cap {(mint_ms u, j) |j u. M' j = Some u \<and> part j = part h})})"

lemma sh_record_find:
  assumes "sh_ok std_hash s"
  shows "sh_find std_hash (sh_record std_hash now_ms h v s) =
    spec_record (sh_index std_hash s) (sh_cap s) now_ms h v (sh_find std_hash s)"
proof (rule ext, rule option_eqI)
  fix k w
  let ?m = "sh_shards s ! sh_index std_hash s h" and ?part = "sh_index std_hash s"
  define M where "M = (sh_find std_hash s)(h \<mapsto> v)"
  define N where "N = newest now_ms BOUND_TOKEN_TTL_MS (sh_cap s) {(mint_ms u, j) |j u. M j = Some u \<and> ?part j = ?part h}"
  have M: "M j = Some u \<and> ?part j = ?part h \<longleftrightarrow> (if j = h then Some v else tm_get ?m j) = Some u" for j u
    using sh_find_part [OF assms, of h j] by (auto simp: M_def split: if_splits)
  have "tm_get (tm_record BOUND_TOKEN_TTL_MS (sh_cap s) now_ms h v ?m) k = Some w \<longleftrightarrow>
      M k = Some w \<and> ?part k = ?part h \<and> (mint_ms w, k) \<in> N"
    using tm_record_spec [OF sh_ok_part [OF assms], of BOUND_TOKEN_TTL_MS "sh_cap s" now_ms h v h k w]
    unfolding M [symmetric] N_def by blast
  moreover have "sh_find std_hash (sh_record std_hash now_ms h v s) k =
      (if ?part k = ?part h then tm_get (tm_record BOUND_TOKEN_TTL_MS (sh_cap s) now_ms h v ?m) k else M k)"
    using assms by (auto simp: sh_record_def sh_find_update sh_ok_def M_def)
  moreover have "spec_record ?part (sh_cap s) now_ms h v (sh_find std_hash s) k = Some w \<longleftrightarrow>
      M k = Some w \<and> (?part k = ?part h \<longrightarrow> (mint_ms w, k) \<in> N)"
    unfolding spec_record_def M_def [symmetric] Let_def N_def [symmetric] by (cases w) (auto simp: restrict_map_def)
  ultimately show "sh_find std_hash (sh_record std_hash now_ms h v s) k = Some w \<longleftrightarrow>
      spec_record ?part (sh_cap s) now_ms h v (sh_find std_hash s) k = Some w" by auto
qed

lemma sh_ok_default [simp]: "sh_ok std_hash bound_tokens_default" "sh_bounded bound_tokens_default"
  by (simp_all add: sh_ok_def sh_bounded_def bound_tokens_default_def with_shards_def Let_def BOUND_TOKEN_SHARDS_def
      BOUND_TOKEN_CAP_def token_map_new_def [THEN arg_cong, of by_hash])

lemma sh_ok_record:
  assumes "sh_ok std_hash s"
  shows "sh_ok std_hash (sh_record std_hash now_ms h v s)"
  unfolding sh_record_def
proof (rule sh_ok_update [OF assms])
  note spec = tm_record_spec [OF sh_ok_part [OF assms], of BOUND_TOKEN_TTL_MS "sh_cap s" now_ms h v h]
  show "tm_ok (tm_record BOUND_TOKEN_TTL_MS (sh_cap s) now_ms h v (sh_shards s ! sh_index std_hash s h))"
    using spec by blast
  show "k = h \<or> tm_get (sh_shards s ! sh_index std_hash s h) k \<noteq> None"
    if "tm_get (tm_record BOUND_TOKEN_TTL_MS (sh_cap s) now_ms h v (sh_shards s ! sh_index std_hash s h)) k \<noteq> None" for k
    using that spec [of k] by (cases "k = h") auto
qed

lemma sh_bounded_record:
  assumes "sh_ok std_hash s" "sh_bounded s"
  shows "sh_bounded (sh_record std_hash now_ms h v s)"
proof -
  let ?i = "sh_index std_hash s h"
  have "length (by_hash (tm_record BOUND_TOKEN_TTL_MS (sh_cap s) now_ms h v (sh_shards s ! ?i))) \<le> sh_cap s"
    using tm_record_spec [OF sh_ok_part [OF assms(1)]] by blast
  moreover have "m = x \<or> m \<in> set xs" if "m \<in> set (xs[?i := x])" for m x xs
    using that set_update_subset_insert [of xs ?i x] by auto
  ultimately show ?thesis using assms(2) unfolding sh_bounded_def sh_record_def sh_update_def Let_def by force
qed

lemma sh_entries_bounded:
  assumes "sh_bounded s" shows "length (sh_entries s) \<le> BOUND_TOKEN_CAP"
proof -
  have "sum_list (map length (map by_hash ms)) \<le> length ms * c" if "\<forall>m\<in>set ms. length (by_hash m) \<le> c" for ms c
    using that by (induction ms) auto
  with assms show ?thesis unfolding sh_bounded_def sh_entries_def length_concat using order_trans by blast
qed

interpretation tokens: expiring_store "sh_ok std_hash" "sh_find std_hash" "sh_record std_hash now_ms" for std_hash now_ms
proof
  fix h k :: string and v and s
  assume ok: "sh_ok std_hash s"
  show "sh_ok std_hash (sh_record std_hash now_ms h v s)" by (rule sh_ok_record [OF ok])
  show "sh_find std_hash (sh_record std_hash now_ms h v s) h \<in> {Some v, None}"
    by (auto simp: sh_record_find [OF ok] spec_record_def restrict_map_def Let_def)
  show "sh_find std_hash (sh_record std_hash now_ms h v s) k \<in> {sh_find std_hash s k, None}" if "k \<noteq> h"
    using that by (auto simp: sh_record_find [OF ok] spec_record_def restrict_map_def Let_def)
qed

lemma sh_rebind_ok: "sh_ok std_hash s \<Longrightarrow> sh_ok std_hash (snd (sh_rebind std_hash now_ms h source v s))"
  by (simp add: sh_rebind_def sh_ok_record)

lemma sh_ok_insert_if_absent: assumes "sh_ok std_hash s" shows "sh_ok std_hash (sh_insert_if_absent std_hash h v s)"
  unfolding sh_insert_if_absent_def
  by (rule sh_ok_update [OF assms]) (use sh_ok_part [OF assms, of h] in \<open>auto simp: tm_insert_if_absent_def tm_ok_insert split: if_splits\<close>)

lemma sh_insert_if_absent_find:
  assumes "sh_ok std_hash s"
  shows "sh_find std_hash (sh_insert_if_absent std_hash h v s) k =
    (if k = h \<and> sh_find std_hash s h = None then Some v else sh_find std_hash s k)"
proof -
  have "sh_shards s \<noteq> []" using assms by (simp add: sh_ok_def)
  from sh_find_update [OF this] show ?thesis
    unfolding sh_insert_if_absent_def by (auto simp: tm_insert_if_absent_def sh_find_def)
qed

lemma sh_entries_iff:
  assumes "sh_ok std_hash s"
  shows "(h, v) \<in> set (sh_entries s) \<longleftrightarrow> sh_find std_hash s h = Some v"
proof
  assume "(h, v) \<in> set (sh_entries s)"
  then obtain m where "m \<in> set (sh_shards s)" "(h, v) \<in> set (by_hash m)" by (auto simp: sh_entries_def)
  then obtain i where i: "i < length (sh_shards s)" "(h, v) \<in> set (by_hash (sh_shards s ! i))"
    by (metis in_set_conv_nth)
  then have "sh_index std_hash s h = i" by (intro sh_ok_keys [OF assms]) force+
  with i assms show "sh_find std_hash s h = Some v" by (simp add: sh_find_def sh_ok_def tm_ok_def hm_get_in)
next
  assume "sh_find std_hash s h = Some v"
  moreover have "hm_ok (by_hash (sh_shards s ! sh_index std_hash s h))"
    using sh_ok_part [OF assms] by (simp add: tm_ok_def)
  ultimately have "(h, v) \<in> set (by_hash (sh_shards s ! sh_index std_hash s h))"
    by (simp add: sh_find_def hm_get_in)
  then show "(h, v) \<in> set (sh_entries s)"
    using nth_mem [OF sh_ok_index [OF assms, of h]] by (auto simp: sh_entries_def)
qed

lemma distinct_concat_tagged:
  "(\<And>i. i < length xss \<Longrightarrow> distinct (xss ! i) \<and> (\<forall>k\<in>set (xss ! i). f k = i)) \<Longrightarrow> distinct (concat xss)"
proof (induction xss rule: rev_induct)
  case (snoc xs xss)
  have old: "distinct (xss ! i) \<and> (\<forall>k\<in>set (xss ! i). f k = i)" if "i < length xss" for i
    using snoc.prems [of i] that by (simp add: nth_append)
  have "k \<notin> set ys" if "ys \<in> set xss" "k \<in> set xs" for ys k
  proof
    assume k: "k \<in> set ys"
    obtain i where i: "i < length xss" "xss ! i = ys" using \<open>ys \<in> set xss\<close> by (auto simp: in_set_conv_nth)
    have "f k = i" using old [OF i(1)] k i(2) by simp
    with snoc.prems [of "length xss"] that(2) i(1) show False by simp
  qed
  then show ?case using snoc.IH [OF old] snoc.prems [of "length xss"] by auto
qed simp

lemma sh_entries_distinct:
  assumes "sh_ok std_hash s"
  shows "distinct (map fst (sh_entries s))"
  unfolding sh_entries_def map_concat map_map
proof (rule distinct_concat_tagged)
  fix i assume i: "i < length (map (map fst \<circ> by_hash) (sh_shards s))"
  then have "distinct (map fst (by_hash (sh_shards s ! i)))"
    using assms by (simp add: sh_ok_def tm_ok_def hm_ok_def)
  with i sh_ok_keys [OF assms] show "distinct (map (map fst \<circ> by_hash) (sh_shards s) ! i) \<and>
      (\<forall>k\<in>set (map (map fst \<circ> by_hash) (sh_shards s) ! i). sh_index std_hash s k = i)" by simp
qed

lemma map_of_sh_entries: "sh_ok std_hash s \<Longrightarrow> map_of (sh_entries s) = sh_find std_hash s"
  by (rule ext, rule option_eqI) (simp add: sh_entries_iff [symmetric] sh_entries_distinct)

text \<open>
  C38. The sixteen parts with their two indexes are one map. Recording a token, moving one to another
  account, and filling one in at boot change exactly what they would change in a plain map from hashes
  to mints, except that a record forgets, within the part of its token, what has expired and what is
  not among the newest; a move says whether the token was still on the account it moves from; and a look-up
  answers what the map holds, and only while it is no older than a day. Every one of these operations keeps the
  parts and their two indexes consistent, the copy a save takes lists every token once, and
  recording never leaves more than the cap. The one hypothesis is that consistency, which the empty map has.
\<close>

theorem bound_tokens_refine_map:
  assumes "sh_ok std_hash s"
  shows "sh_find std_hash (sh_record std_hash now_ms h v s) =
      spec_record (sh_index std_hash s) (sh_cap s) now_ms h v (sh_find std_hash s) \<and>
    sh_find std_hash (snd (sh_rebind std_hash now_ms h source v s)) =
      (if \<exists>k t. sh_find std_hash s h = Some (source, k, t)
       then spec_record (sh_index std_hash s) (sh_cap s) now_ms h v (sh_find std_hash s) else sh_find std_hash s) \<and>
    fst (sh_rebind std_hash now_ms h source v s) = (\<exists>k t. sh_find std_hash s h = Some (source, k, t)) \<and>
    sh_find std_hash (sh_insert_if_absent std_hash h v s) =
      (if sh_find std_hash s h = None then (sh_find std_hash s)(h \<mapsto> v) else sh_find std_hash s) \<and>
    (sh_get std_hash wall_ms s k = Some w) =
      (sh_find std_hash s k = Some w \<and> saturating_sub_i64 wall_ms (mint_ms w) \<le> 24 * 60 * 60 * 1000) \<and>
    map_of (sh_entries s) = sh_find std_hash s \<and> distinct (map fst (sh_entries s)) \<and>
    sh_ok std_hash (sh_record std_hash now_ms h v s) \<and>
    sh_ok std_hash (snd (sh_rebind std_hash now_ms h source v s)) \<and>
    sh_ok std_hash (sh_insert_if_absent std_hash h v s) \<and>
    (sh_bounded s \<longrightarrow> length (sh_entries (sh_record std_hash now_ms h v s)) \<le> BOUND_TOKEN_CAP \<and>
       length (sh_entries (snd (sh_rebind std_hash now_ms h source v s))) \<le> BOUND_TOKEN_CAP)"
proof -
  note recorded = sh_record_find [OF assms]
    and bounded = sh_entries_bounded [OF sh_bounded_record [OF assms]]
  have rebound: "sh_find std_hash (snd (sh_rebind std_hash now_ms h source v s)) =
      (if \<exists>k t. sh_find std_hash s h = Some (source, k, t)
       then spec_record (sh_index std_hash s) (sh_cap s) now_ms h v (sh_find std_hash s) else sh_find std_hash s)"
    "fst (sh_rebind std_hash now_ms h source v s) = (\<exists>k t. sh_find std_hash s h = Some (source, k, t))"
    "sh_bounded s \<longrightarrow> length (sh_entries (snd (sh_rebind std_hash now_ms h source v s))) \<le> BOUND_TOKEN_CAP"
    using bounded sh_entries_bounded
    by (cases "sh_find std_hash s h"; auto simp: sh_rebind_def recorded is_none_or_def)+
  have filled: "sh_find std_hash (sh_insert_if_absent std_hash h v s) =
      (if sh_find std_hash s h = None then (sh_find std_hash s)(h \<mapsto> v) else sh_find std_hash s)"
    by (rule ext) (simp add: sh_insert_if_absent_find [OF assms])
  have got: "(sh_get std_hash wall_ms s k = Some w) =
      (sh_find std_hash s k = Some w \<and> saturating_sub_i64 wall_ms (mint_ms w) \<le> 24 * 60 * 60 * 1000)"
    by (simp add: sh_get_def filter_opt_Some_iff fresh_def BOUND_TOKEN_TTL_MS_def)
  show ?thesis
    using rebound filled got recorded bounded map_of_sh_entries [OF assms] sh_entries_distinct [OF assms]
      sh_ok_record [OF assms] sh_rebind_ok [OF assms] sh_ok_insert_if_absent [OF assms] by blast
qed

definition one_token :: sharded_tokens where
  "one_token = sh_record (\<lambda>_. 0) 5 ''00000001aa'' (0, MessageId, 5) bound_tokens_default"

theorem bound_tokens_refine_map_witness:
  "sh_find (\<lambda>_. 0) (sh_record (\<lambda>_. 0) 9 ''00000011bb'' (1, MessageId, 9) one_token) =
     spec_record (sh_index (\<lambda>_. 0) one_token) 4096 9 ''00000011bb'' (1, MessageId, 9) (sh_find (\<lambda>_. 0) one_token)"
proof -
  have ok: "sh_ok (\<lambda>_. 0) one_token" unfolding one_token_def by (rule sh_ok_record [OF sh_ok_default(1)])
  have cap: "sh_cap one_token = 4096"
    by (simp add: one_token_def sh_record_def sh_update_def Let_def bound_tokens_default_def with_shards_def
        BOUND_TOKEN_CAP_def BOUND_TOKEN_SHARDS_def)
  show ?thesis by (rule conjunct1 [OF bound_tokens_refine_map [OF ok], unfolded cap])
qed

end
