(* ===== verification/Bound.thy ===== *)
theory Bound
  imports Throttle Revalidation Token_Map
begin

text \<open>
  Conversations whose history is bound to an account, \<^verbatim>\<open>src/manager/bound_tokens.rs\<close>: whether that
  account still holds the conversation, the serve that ignores the soft threshold for it, the
  accounts outside its organization with the steered release of \<^verbatim>\<open>src/proxy.rs\<close>, and the
  one-time switch warning. Which account minted a token is the matter of \<^verbatim>\<open>Bound_Tokens\<close>.
\<close>

definition SWITCH_WARNING_TTL_MS :: i64 where "SWITCH_WARNING_TTL_MS = 10 * 60 * 1000"

section \<open>Holding and serving a bound conversation\<close>

text \<open>The request as the gates read it; these two functions ask no provider.\<close>

definition bound_request :: "odt \<Rightarrow> bool \<Rightarrow> account \<Rightarrow> request" where
  "bound_request now is_fable a =
     \<lparr>r_now = now, r_now_ms = odt_to_ms now, r_is_fable = is_fable, r_provider = a_provider a\<rparr>"

definition bound_account_holds :: "manager \<Rightarrow> nat \<Rightarrow> odt \<Rightarrow> bool \<Rightarrow> string option \<Rightarrow> warm_window \<Rightarrow> bool" where
  "bound_account_holds m idx now is_fable grp warm =
     is_some_and (get (m_accounts m) idx) (\<lambda>a.
       account_hard_ok a (odt_to_ms now) grp (gp_reserved (m_groups m)) (gp_parked (m_groups m)) warm \<and>
       account_terminal_gate a = None \<and> \<not> model_blocked a (policy_of m) (bound_request now is_fable a))"

definition select_bound ::
  "nat \<Rightarrow> nat set \<Rightarrow> odt \<Rightarrow> bool \<Rightarrow> string option \<Rightarrow> string option \<Rightarrow> warm_window \<Rightarrow> manager \<Rightarrow> nat option \<times> manager" where
  "select_bound idx tried now is_fable grp strict warm m =
     (if idx \<in> tried then (None, m)
      else case get (m_accounts m) idx of
        None \<Rightarrow> (None, m)
      | Some a \<Rightarrow>
          if a_provider a = Codex \<and> idx \<in> codex_accounts_with_unsupported_exit m then (None, m)
          else if is_some_and strict (\<lambda>g. g \<notin> set (a_groups a)) \<or>
                  \<not> hard_ok a (policy_of m) (bound_request now is_fable a) grp warm
          then (None, m)
          else (Some idx, stamp_account idx m))"

definition org_key_at :: "manager \<Rightarrow> nat \<Rightarrow> string option" where
  "org_key_at m idx = Option.bind (get (m_accounts m) idx) (\<lambda>a. org_key_of (a_org_uuid a) (a_org_name a))"

definition outside_org_of :: "nat \<Rightarrow> manager \<Rightarrow> nat set" where
  "outside_org_of idx m =
     set (filter (\<lambda>i. i = idx \<or> org_key_at m idx = None \<or> org_key_at m i \<noteq> org_key_at m idx)
            [0..<length (m_accounts m)])"

definition same_org_release ::
  "manager \<Rightarrow> nat \<Rightarrow> nat set \<Rightarrow> string option \<Rightarrow> (nat set \<Rightarrow> nat option \<times> manager) \<Rightarrow> nat option \<times> manager" where
  "same_org_release m bound_idx tried model pick =
     (if is_some_and model thinking_is_org_bound then pick (outside_org_of bound_idx m \<union> tried) else (None, m))"

section \<open>The switch warning\<close>

type_synonym warnings = "(session_key \<times> nat, i64) hash_map"

definition first_switch_warning :: "session_key \<Rightarrow> nat \<Rightarrow> i64 \<Rightarrow> warnings \<Rightarrow> bool \<times> warnings" where
  "first_switch_warning key idx now_ms warned =
     (let w1 = filter (\<lambda>(_, told). saturating_sub_i64 now_ms told < SWITCH_WARNING_TTL_MS) warned;
          w2 = (if length w1 \<ge> BOUND_TOKEN_CAP then [] else w1)
      in case hm_get w2 (key, idx) of
           Some _ \<Rightarrow> (False, w2)
         | None \<Rightarrow> (True, hm_insert (key, idx) now_ms w2))"

definition switch_warned :: "session_key \<Rightarrow> nat \<Rightarrow> i64 \<Rightarrow> warnings \<Rightarrow> bool" where
  "switch_warned key idx now_ms warned =
     is_some_and (hm_get warned (key, idx)) (\<lambda>told. saturating_sub_i64 now_ms told < SWITCH_WARNING_TTL_MS)"

section \<open>Lemmas\<close>

lemma select_bound_Some:
  "select_bound idx tried now fable grp strict warm m = (Some i, m') \<Longrightarrow>
     i = idx \<and> i \<notin> tried \<and> i < length (m_accounts m) \<and> bound_account_holds m i now fable grp warm"
  by (auto simp: select_bound_def bound_account_holds_def is_some_and_def hard_ok_def bound_request_def
      get_eq_Some_iff policy_of_def split: if_splits option.splits)

lemma same_org_release_Some:
  assumes "same_org_release m b tried model (\<lambda>tr. select_with_group tr now model aff path ck grp m) = (Some i, m')"
  shows "i \<notin> tried \<and> i \<noteq> b \<and> i < length (m_accounts m) \<and>
    (\<exists>k. org_key_at m b = Some k \<and> org_key_at m i = Some k)"
proof -
  have sel: "fst (select_with_group (outside_org_of b m \<union> tried) now model aff path ck grp m) = Some i"
    using assms by (auto simp: same_org_release_def split: if_splits)
  from select_admissible [OF this] show ?thesis
    by (auto simp: outside_org_of_def get_eq_Some_iff)
qed

lemma reval_untried:
  assumes "select_revalidation tried now model aff path m = (Some i, m')"
  shows "i \<notin> tried \<and> i < length (m_accounts m)"
proof -
  obtain tried' m1 where e: "exclude_unsupported_codex_exits tried (of_path path) m = (tried', m1)" by force
  define c where "c = make_ctx m tried' now model aff path None"
  have m1: "m_accounts m1 = m_accounts m" using exclude_frame(1) [of tried "of_path path" m] e by simp
  have "reval_candidate m1 c i"
    using assms reval_pin_Honor reval_fallback_Some
    by (fastforce simp: select_revalidation_ctx [OF e] c_def [symmetric] Let_def split: pin_stage.splits)
  then show ?thesis using exclude_tried [of i tried "of_path path" m] e
    by (auto simp: reval_candidate_def is_some_and_iff m1 c_def get_eq_Some_iff)
qed

text \<open>A warning is a commitment: once told, a session reads as told and is not told again until the
  warning lapses, unless the table overflowed in between.\<close>

lemma told_is_remembered:
  assumes "first_switch_warning key idx now_ms w = (True, w')" "saturating_sub_i64 later now_ms < SWITCH_WARNING_TTL_MS"
    "length w' < BOUND_TOKEN_CAP" "hm_ok w"
  shows "switch_warned key idx later w'" "fst (first_switch_warning key idx later w') = False"
proof -
  have w': "hm_get w' (key, idx) = Some now_ms"
    using assms(1) by (auto simp: first_switch_warning_def Let_def hm_get_def [of "[_]"] split: option.splits if_splits)
  show "switch_warned key idx later w'" using w' assms(2) by (simp add: switch_warned_def is_some_and_def)
  have ok: "hm_ok w'" using assms(1,4)
    by (auto simp: first_switch_warning_def Let_def hm_ok_def [of "[_]"] split: option.splits if_splits)
  define q where "q = (\<lambda>(_ :: session_key \<times> nat, told). saturating_sub_i64 later told < SWITCH_WARNING_TTL_MS)"
  have "((key, idx), now_ms) \<in> set (filter q w')"
    using w' hm_get_in [OF ok] assms(2) by (auto simp: q_def)
  then have "hm_get (filter q w') (key, idx) = Some now_ms" using hm_get_in [OF hm_ok_filter [OF ok]] by blast
  moreover have "length (filter q w') < BOUND_TOKEN_CAP" using assms(3) length_filter_le [of q w'] by linarith
  ultimately show "fst (first_switch_warning key idx later w') = False"
    by (simp add: first_switch_warning_def q_def [symmetric] Let_def)
qed

end
