(* ===== verification/Handle.thy ===== *)
theory Handle
  imports Ladder Bound
begin

text \<open>
  The selection and rotation loop of \<^verbatim>\<open>src/proxy.rs\<close> (\<open>handle\<close>), one definition per stage: the hold
  of a bound conversation at the top, the choice of an account for a turn with every answer the loop
  gives when there is none, the attempt on that account, and the loop under its attempt budget. What the
  loop does not decide (clocks, the outcome of a send, of a refresh, of a peer's route, what other
  requests did to the fleet meanwhile) comes in one record per turn.
\<close>

section \<open>The switch warning\<close>

definition SWITCH_WARNING_RETRY_AFTER_SECS :: i64 where "SWITCH_WARNING_RETRY_AFTER_SECS = 3"

definition switch_warning ::
  "manager \<Rightarrow> session_key option \<Rightarrow> nat \<Rightarrow> odt \<Rightarrow> bool \<Rightarrow> string option \<Rightarrow> i64 \<Rightarrow> warnings \<Rightarrow> answer option \<times> warnings" where
  "switch_warning m session bound_idx now is_fable grp now_ms warned =
     (case session of
        None \<Rightarrow> (None, warned)
      | Some key \<Rightarrow>
          if is_fable \<and> bound_account_holds m bound_idx now False grp (warm_window m (Some key)) then (None, warned)
          else (case first_switch_warning key bound_idx now_ms warned of
                  (False, w) \<Rightarrow> (None, w)
                | (True, w) \<Rightarrow> (Some (Client_Error 429 RateLimitKind (Some SWITCH_WARNING_RETRY_AFTER_SECS) None), w)))"

section \<open>A Codex model refusal\<close>

definition RATE_LIMIT_BODY_CAP :: nat where "RATE_LIMIT_BODY_CAP = 64 * 1024"

text \<open>\<open>Value::pointer\<close> on object keys.\<close>

fun jpointer :: "string list \<Rightarrow> json \<Rightarrow> json option" where
  "jpointer [] v = Some v"
| "jpointer (k # ks) v = Option.bind (jget k v) (jpointer ks)"

text \<open>\<open>split_whitespace\<close> (of ASCII blanks) and \<open>join(" ")\<close>.\<close>

fun squeeze_blanks :: "bool \<Rightarrow> string \<Rightarrow> string" where
  "squeeze_blanks _ [] = []"
| "squeeze_blanks gap (c # s) =
     (if is_ascii_space c then squeeze_blanks True s
      else (if gap then [CHR '' '', c] else [c]) @ squeeze_blanks False s)"

definition normalize_blanks :: "string \<Rightarrow> string" where
  "normalize_blanks s = squeeze_blanks False (dropWhile is_ascii_space s)"

fun find_map :: "('a \<Rightarrow> 'b option) \<Rightarrow> 'a list \<Rightarrow> 'b option" where
  "find_map f [] = None"
| "find_map f (x # xs) = (case f x of Some y \<Rightarrow> Some y | None \<Rightarrow> find_map f xs)"

definition codex_model_refusal_detail :: "(string \<Rightarrow> json option) \<Rightarrow> string \<Rightarrow> string option" where
  "codex_model_refusal_detail decode bytes =
     (if length bytes > RATE_LIMIT_BODY_CAP then None
      else Option.bind (decode bytes) (\<lambda>body.
        Option.bind (find_map (\<lambda>path. Option.bind (jpointer path body) as_string)
            [[''detail''], [''detail'', ''message''], [''error'', ''message''], [''message''], [''error'']])
          (\<lambda>message.
             if contains_str (to_ascii_lowercase (normalize_blanks message))
                  ''model is not supported when using codex with a chatgpt account''
             then Some (take 2048 message) else None)))"

section \<open>What a turn meets\<close>

datatype send =
    Failed transport_error carry
  | Replied clocks nat refreshed response bool

text \<open>A reply carries the two clocks' nanoseconds, the outcome of the refresh a 401 forces, the
  response, and whether its body is forwarded as a stream.\<close>

record turn_env =
  tn_now :: odt
  tn_now_ms :: i64
  tn_others :: "manager \<Rightarrow> manager"
  tn_woken :: "manager \<Rightarrow> manager"
  tn_woken_ms :: i64
  tn_revalidation :: bool
  tn_fallback :: "nat option"
  tn_slept :: bool
  tn_fresh :: "manager \<Rightarrow> manager"
  tn_exit_lock :: "nat option"
  tn_send :: send

text \<open>\<open>tn_others\<close> is what other requests did to the fleet before the turn, \<open>tn_woken\<close> during the soft
  wait and \<open>tn_fresh\<close> together with \<open>ensure_fresh\<close>; \<open>tn_fallback\<close> the status a fallback provider served,
  \<open>tn_exit_lock\<close> the one a pinned exit answered with.\<close>

record walk =
  wk_bound :: "nat option"
  wk_warned :: warnings
  wk_manager :: manager
  wk_ladder :: ladder

definition rq_is_fable :: "routed_request \<Rightarrow> bool" where
  "rq_is_fable rq = (has_fable_bucket (rq_provider rq) \<and> is_some_and (rq_model rq) is_fable_model)"

section \<open>Opening the walk\<close>

text \<open>The bound account, if it may hold the request: the token's account, else the session's pin under
  a bound history, and only one of the request's own provider.\<close>

definition bound_candidate :: "manager \<Rightarrow> routed_request \<Rightarrow> nat option \<Rightarrow> bool \<Rightarrow> nat option" where
  "bound_candidate m rq minted carries_bound_history =
     filter_opt (\<lambda>i. live_provider m i = Some (rq_provider rq))
       (case minted of
          Some i \<Rightarrow> Some i
        | None \<Rightarrow> if carries_bound_history then Option.bind (rq_session rq) (affinity_pin m) else None)"

definition select_for :: "routed_request \<Rightarrow> odt \<Rightarrow> manager \<Rightarrow> nat set \<Rightarrow> nat option \<times> manager" where
  "select_for rq now m tried =
     select_with_group tried now (rq_model rq) (rq_session rq) (rq_path rq) (rq_conn rq) (rq_group rq) m"

text \<open>\<open>l\<close> carries what a lease's account scope benched.\<close>

definition open_walk ::
  "routed_request \<Rightarrow> odt \<Rightarrow> i64 \<Rightarrow> nat option \<Rightarrow> warnings \<Rightarrow> manager \<Rightarrow> ladder \<Rightarrow> answer option \<times> walk" where
  "open_walk rq now now_ms candidate warned m l =
     (case candidate of
        None \<Rightarrow> (None, \<lparr>wk_bound = None, wk_warned = warned, wk_manager = m, wk_ladder = set_next None l\<rparr>)
      | Some b \<Rightarrow>
          let told = is_some_and (rq_session rq) (\<lambda>key. switch_warned key b now_ms warned) in
          if \<not> told \<and> bound_account_holds m b now (rq_is_fable rq) (rq_group rq) (warm_window m (rq_session rq))
          then (None, \<lparr>wk_bound = Some b, wk_warned = warned, wk_manager = m,
                  wk_ladder = set_next None (fold bench_for_hold (filter (\<lambda>i. i \<noteq> b) [0..<length (m_accounts m)]) l)\<rparr>)
          else
            (case switch_warning m (rq_session rq) b now (rq_is_fable rq) (rq_group rq) now_ms warned of
               (Some ans, w) \<Rightarrow> (Some ans, \<lparr>wk_bound = None, wk_warned = w, wk_manager = m, wk_ladder = l\<rparr>)
             | (None, w) \<Rightarrow>
                 (case same_org_release m b (l_tried l) (rq_model rq) (select_for rq now m) of
                    (released, m') \<Rightarrow>
                      (None, \<lparr>wk_bound = None, wk_warned = w, wk_manager = m', wk_ladder = set_next released l\<rparr>))))"

section \<open>Choosing an account\<close>

datatype pick = Serve_On nat | Stop answer | Go_On

definition exhausted_or_fallback ::
  "time_lib \<Rightarrow> routed_request \<Rightarrow> turn_env \<Rightarrow> manager \<Rightarrow> string option \<Rightarrow> nat option \<Rightarrow> answer" where
  "exhausted_or_fallback T rq env m strict bound_to =
     (case (strict, locked_account_for m (rq_provider rq), bound_to, tn_fallback env) of
        (None, None, None, Some status) \<Rightarrow> Forwarded status
      | _ \<Rightarrow> fst (exhausted_response T m (tn_now env) (rq_is_fable rq) (rq_provider rq) strict bound_to))"

definition soonest_free :: "time_lib \<Rightarrow> routed_request \<Rightarrow> odt \<Rightarrow> manager \<Rightarrow> string option \<Rightarrow> nat option \<Rightarrow> i64" where
  "soonest_free T rq now m strict bound_to =
     (case (bound_to, strict) of
        (Some idx, _) \<Rightarrow> eh_retry_after (exhaustion_hint_for_account T m now (rq_is_fable rq) idx)
      | (None, Some g) \<Rightarrow> retry_after_hint_for_group T m now (rq_is_fable rq) (rq_provider rq) g
      | (None, None) \<Rightarrow> retry_after_hint T m now (rq_is_fable rq) (rq_provider rq))"

text \<open>The account went out during the request: warn once, then release it to the fleet.\<close>

definition release_turn :: "routed_request \<Rightarrow> turn_env \<Rightarrow> nat \<Rightarrow> walk \<Rightarrow> pick \<times> walk" where
  "release_turn rq env b w =
     (let m = wk_manager w in
      case switch_warning m (rq_session rq) b (tn_now env) (rq_is_fable rq) (rq_group rq) (tn_now_ms env) (wk_warned w) of
        (Some ans, w') \<Rightarrow> (Stop ans, w\<lparr>wk_warned := w'\<rparr>)
      | (None, w') \<Rightarrow>
          let l = release_hold (wk_ladder w) in
          (case same_org_release m b (l_tried l) (rq_model rq) (select_for rq (tn_now env) m) of
             (released, m') \<Rightarrow>
               (Go_On, w\<lparr>wk_bound := None, wk_warned := w', wk_manager := m', wk_ladder := set_next released l\<rparr>)))"

definition last_serve :: "time_lib \<Rightarrow> routed_request \<Rightarrow> turn_env \<Rightarrow> string option \<Rightarrow> walk \<Rightarrow> pick \<times> walk" where
  "last_serve T rq env strict w =
     (let m = wk_manager w; tried = l_tried (wk_ladder w);
          served = (case wk_bound w of
                      Some b \<Rightarrow> select_bound b tried (tn_now env) (rq_is_fable rq) (rq_group rq) strict
                                  (warm_window m (rq_session rq)) m
                    | None \<Rightarrow> if strict = None \<and> tn_revalidation env
                              then select_revalidation tried (tn_now env) (rq_model rq) (rq_session rq) (rq_path rq) m
                              else (None, m))
      in case served of
           (Some idx, m') \<Rightarrow> (Serve_On idx, w\<lparr>wk_manager := m'\<rparr>)
         | (None, m') \<Rightarrow> (Stop (exhausted_or_fallback T rq env m' strict (wk_bound w)), w\<lparr>wk_manager := m'\<rparr>))"

text \<open>No account is selectable: the verdict, the one soft wait, the lock, the release, the last resort.\<close>

definition nothing_selectable :: "time_lib \<Rightarrow> routed_request \<Rightarrow> turn_env \<Rightarrow> walk \<Rightarrow> pick \<times> walk" where
  "nothing_selectable T rq env w =
     (let m = wk_manager w; now = tn_now env; strict = strict_group m (rq_group rq) in
      case ladder_verdict m (rq_provider rq) now (wk_bound w) strict (wk_ladder w) of
        (Some ans, l) \<Rightarrow> (Stop ans, w\<lparr>wk_ladder := l\<rparr>)
      | (None, l) \<Rightarrow>
          let w1 = w\<lparr>wk_ladder := l\<rparr> in
          (case soft_wait_secs (soonest_free T rq now m strict (wk_bound w)) (l_soft_waited l) of
             Some _ \<Rightarrow>
               let m' = tn_woken env m
               in (Go_On, w1\<lparr>wk_manager := m',
                     wk_ladder := snd (readmit_expired_parks m' (tn_woken_ms env) (spend_soft_wait l))\<rparr>)
           | None \<Rightarrow>
               if locked_account_for m (rq_provider rq) \<noteq> None
               then (Stop (exhausted_or_fallback T rq env m strict (wk_bound w)), w1)
               else if is_some_and (wk_bound w) (\<lambda>b. \<not> bound_account_holds m b now (rq_is_fable rq) (rq_group rq)
                                                        (warm_window m (rq_session rq)))
               then release_turn rq env (the (wk_bound w)) w1
               else last_serve T rq env strict w1))"

definition pick_turn :: "time_lib \<Rightarrow> routed_request \<Rightarrow> turn_env \<Rightarrow> walk \<Rightarrow> pick \<times> walk" where
  "pick_turn T rq env w =
     (case take_next (wk_ladder w) of
        (Some i, l) \<Rightarrow> (Serve_On i, w\<lparr>wk_ladder := l\<rparr>)
      | (None, l) \<Rightarrow>
          (case select_for rq (tn_now env) (wk_manager w) (l_tried l) of
             (Some i, m) \<Rightarrow> (Serve_On i, w\<lparr>wk_manager := m, wk_ladder := l\<rparr>)
           | (None, m) \<Rightarrow> nothing_selectable T rq env (w\<lparr>wk_manager := m, wk_ladder := l\<rparr>)))"

section \<open>The attempt\<close>

datatype turn_result = Answered answer | Again

text \<open>Before the send: the in-flight guard, the refresh, a dead or vanished account, the exit lock.\<close>

datatype attempt_stage = Benched | Exit_Answered nat | Send_On account

definition before_send :: "turn_env \<Rightarrow> nat \<Rightarrow> manager \<Rightarrow> attempt_stage \<times> manager" where
  "before_send env idx m =
     (let m' = tn_fresh env (snd (enter_in_flight (tn_slept env) (tn_now_ms env) idx m)) in
      (case get (m_accounts m') idx of
         None \<Rightarrow> Benched
       | Some a \<Rightarrow> if a_status a = Error then Benched
                   else (case tn_exit_lock env of Some status \<Rightarrow> Exit_Answered status | None \<Rightarrow> Send_On a), m'))"

text \<open>A response on its way to the client is counted; a streamed body keeps the in-flight guard until it
  ends; a Codex refusal of the model moves on.\<close>

definition deliver ::
  "(string \<Rightarrow> json option) \<Rightarrow> routed_request \<Rightarrow> nat \<Rightarrow> clocks \<Rightarrow> response \<Rightarrow> bool \<Rightarrow> manager \<Rightarrow> ladder
     \<Rightarrow> turn_result \<times> manager \<times> ladder" where
  "deliver decode rq idx ck rs streamed m l =
     (let m' = update_account idx (record_served (ck_after ck)) m;
          name = map_option a_name (get (m_accounts m) idx)
      in if streamed then (Answered (Forwarded (rs_status rs)), m', l)
         else case rs_body rs of
           None \<Rightarrow> (Answered (Client_Error 502 Proxy None None), exit_in_flight idx m', l)
         | Some body \<Rightarrow>
             (case (if rq_provider rq = Codex \<and> rs_status rs = 400 then codex_model_refusal_detail decode body else None) of
                Some detail \<Rightarrow> (Again, exit_in_flight idx m', bench idx (model_refused name detail l))
              | None \<Rightarrow> (Answered (Forwarded (rs_status rs)), exit_in_flight idx m', l)))"

definition settle :: "nat \<Rightarrow> step \<Rightarrow> manager \<Rightarrow> ladder \<Rightarrow> turn_result \<times> manager \<times> ladder" where
  "settle idx st m l =
     (case apply_step idx st l of
        (Some ans, l') \<Rightarrow> (Answered ans, exit_in_flight idx m, l')
      | (None, l') \<Rightarrow> (Again, exit_in_flight idx m, l'))"

definition is_forward :: "step \<Rightarrow> bool" where
  "is_forward st = (case st of Forward _ \<Rightarrow> True | _ \<Rightarrow> False)"

definition after_send ::
  "(string \<Rightarrow> json option) \<Rightarrow> time_lib \<Rightarrow> routed_request \<Rightarrow> send \<Rightarrow> nat \<Rightarrow> manager \<Rightarrow> ladder \<Rightarrow> turn_result \<times> manager \<times> ladder" where
  "after_send decode T rq s idx m l =
     (case s of
        Failed e carry \<Rightarrow>
          (case transport_arm m (rq_provider rq) idx e carry l of (st, l') \<Rightarrow> settle idx st m l')
      | Replied ck nanos r rs streamed \<Rightarrow>
          (case response_arm decode T rq idx ck nanos r rs m l of
             (st, l', m') \<Rightarrow>
               if is_forward st then deliver decode rq idx ck rs streamed m' l' else settle idx st m' l'))"

definition attempt ::
  "(string \<Rightarrow> json option) \<Rightarrow> time_lib \<Rightarrow> routed_request \<Rightarrow> turn_env \<Rightarrow> nat \<Rightarrow> manager \<Rightarrow> ladder \<Rightarrow> turn_result \<times> manager \<times> ladder" where
  "attempt decode T rq env idx m l =
     (case before_send env idx m of
        (Benched, m') \<Rightarrow> (Again, exit_in_flight idx m', bench idx l)
      | (Exit_Answered status, m') \<Rightarrow> (Answered (Forwarded status), exit_in_flight idx m', l)
      | (Send_On _, m') \<Rightarrow> after_send decode T rq (tn_send env) idx m' l)"

section \<open>The loop\<close>

text \<open>One turn, with what it put on the wire.\<close>

definition turn ::
  "(string \<Rightarrow> json option) \<Rightarrow> time_lib \<Rightarrow> routed_request \<Rightarrow> turn_env \<Rightarrow> walk \<Rightarrow> (nat \<times> send) list \<times> turn_result \<times> walk" where
  "turn decode T rq env w =
     (case pick_turn T rq env (w\<lparr>wk_manager := tn_others env (wk_manager w)\<rparr>) of
        (Stop ans, w') \<Rightarrow> ([], Answered ans, w')
      | (Go_On, w') \<Rightarrow> ([], Again, w')
      | (Serve_On idx, w') \<Rightarrow>
          (case attempt decode T rq env idx (wk_manager w') (wk_ladder w') of
             (res, m, l) \<Rightarrow>
               (case fst (before_send env idx (wk_manager w')) of Send_On _ \<Rightarrow> [(idx, tn_send env)] | _ \<Rightarrow> [],
                res, w'\<lparr>wk_manager := m, wk_ladder := l\<rparr>)))"

fun turns ::
  "(string \<Rightarrow> json option) \<Rightarrow> time_lib \<Rightarrow> routed_request \<Rightarrow> (nat \<Rightarrow> turn_env) \<Rightarrow> nat \<Rightarrow> nat \<Rightarrow> walk
     \<Rightarrow> (nat \<times> send) list \<times> answer option \<times> walk" where
  "turns decode T rq env k 0 w = ([], None, w)"
| "turns decode T rq env k (Suc n) w =
     (case turn decode T rq (env k) w of
        (sent, Answered ans, w') \<Rightarrow> (sent, Some ans, w')
      | (sent, Again, w') \<Rightarrow>
          (case turns decode T rq env (Suc k) n w' of (sent', ans, w'') \<Rightarrow> (sent @ sent', ans, w'')))"

text \<open>The budget is spent while still rotating: the verdict, else the exhausted answer.\<close>

definition out_of_attempts :: "time_lib \<Rightarrow> routed_request \<Rightarrow> odt \<Rightarrow> walk \<Rightarrow> answer" where
  "out_of_attempts T rq now w =
     (let m = wk_manager w; strict = strict_group m (rq_group rq) in
      case ladder_verdict m (rq_provider rq) now (wk_bound w) strict (wk_ladder w) of
        (Some ans, _) \<Rightarrow> ans
      | (None, _) \<Rightarrow> fst (exhausted_response T m now (rq_is_fable rq) (rq_provider rq) strict (wk_bound w)))"

definition handle_loop ::
  "(string \<Rightarrow> json option) \<Rightarrow> time_lib \<Rightarrow> routed_request \<Rightarrow> (nat \<Rightarrow> turn_env) \<Rightarrow> nat \<Rightarrow> walk \<Rightarrow> (nat \<times> send) list \<times> answer" where
  "handle_loop decode T rq env account_count w =
     (case turns decode T rq env 0 (max_attempts_for account_count) w of
        (sent, Some ans, _) \<Rightarrow> (sent, ans)
      | (sent, None, w') \<Rightarrow> (sent, out_of_attempts T rq (tn_now (env (max_attempts_for account_count))) w'))"

end
