(* ===== verification/Handle_Props.thy ===== *)
theory Handle_Props
  imports Handle
begin

text \<open>
  The rotation loop ends by its own counters, apart from its attempt budget, and what it answers when
  no upstream could be reached.
\<close>

section \<open>What a walk has left\<close>

definition retries_left :: "ladder \<Rightarrow> nat \<Rightarrow> nat" where
  "retries_left l i =
     (MAX_SAME_ACCOUNT_TRANSPORT_RETRIES - l_transport_retried l i) + (if i \<in> l_forced_401 l then 0 else 1) +
     (MAX_SAME_ACCOUNT_429 - l_retried_429 l i) + (MAX_SAME_ACCOUNT_529_RETRIES - l_retried_529 l i)"

definition ladder_rest :: "nat \<Rightarrow> ladder \<Rightarrow> nat" where
  "ladder_rest n l =
     (\<Sum>i<n. retries_left l i) + card ({..<n} - l_tried l) + (MAX_OFFLINE_WAITS_PER_REQUEST - l_offline_waits l) +
     (if l_soft_waited l then 0 else Suc n)"

definition walk_rest :: "nat \<Rightarrow> walk \<Rightarrow> nat" where
  "walk_rest n w = ladder_rest n (wk_ladder w) + (if wk_bound w = None then 0 else Suc n)"

definition ladder_ok :: "nat \<Rightarrow> ladder \<Rightarrow> bool" where
  "ladder_ok n l \<longleftrightarrow> (\<forall>i. l_next_idx l = Some i \<longrightarrow> i < n \<and> i \<notin> l_tried l)"

definition walk_ok :: "nat \<Rightarrow> walk \<Rightarrow> bool" where
  "walk_ok n w \<longleftrightarrow> length (m_accounts (wk_manager w)) = n \<and> ladder_ok n (wk_ladder w)"

text \<open>The fleet keeps its size while the request is walked.\<close>

definition keeps_size :: "(manager \<Rightarrow> manager) \<Rightarrow> bool" where
  "keeps_size f \<longleftrightarrow> (\<forall>m. length (m_accounts (f m)) = length (m_accounts m))"

definition env_ok :: "turn_env \<Rightarrow> bool" where
  "env_ok env \<longleftrightarrow> keeps_size (tn_others env) \<and> keeps_size (tn_woken env) \<and> keeps_size (tn_fresh env)"

lemmas rest_defs = ladder_rest_def retries_left_def

lemma sum_drop:
  fixes f g :: "nat \<Rightarrow> nat"
  assumes "i < n" "f i < g i" "\<And>j. j \<noteq> i \<Longrightarrow> f j = g j"
  shows "(\<Sum>j<n. f j) < (\<Sum>j<n. g j)"
proof (rule sum_strict_mono_ex1)
  have "f j \<le> g j" for j using assms(2) assms(3) [of j] by (cases "j = i") simp_all
  then show "\<forall>j\<in>{..<n}. f j \<le> g j" by blast
  show "\<exists>j\<in>{..<n}. f j < g j" using assms(1,2) by auto
qed simp

lemma card_bench:
  fixes n :: nat
  assumes "i < n" "i \<notin> tr"
  shows "card ({..<n} - tr) = Suc (card ({..<n} - insert i tr))"
proof -
  have "card ({..<n} - tr) > 0" using assms by (auto simp: card_gt_0_iff )
  then show ?thesis using card_Diff_insert [of i "{..<n}" tr] assms by simp
qed

lemma card_untried_le: "card ({..<n} - tr) \<le> n"
  using card_mono [of "{..<n}" "{..<n} - tr"] by auto

section \<open>Ladder moves\<close>

text \<open>What an arm may do to the ladder: never bench or redirect by itself, never give budget back, spend
  some before it retries in place, and name a fresh account when it fails over.\<close>

definition arm_ok :: "nat \<Rightarrow> nat \<Rightarrow> ladder \<Rightarrow> step \<times> ladder \<Rightarrow> bool" where
  "arm_ok n idx l r \<longleftrightarrow>
     l_tried (snd r) = l_tried l \<and> l_next_idx (snd r) = l_next_idx l \<and> l_soft_waited (snd r) = l_soft_waited l \<and>
     l_parked_transient (snd r) = l_parked_transient l \<and> l_benched_for_hold (snd r) = l_benched_for_hold l \<and>
     ladder_rest n (snd r) \<le> ladder_rest n l \<and> (fst r = RetrySame \<longrightarrow> ladder_rest n (snd r) < ladder_rest n l) \<and>
     (\<forall>j. fst r = FailOver j \<longrightarrow> j < n \<and> j \<noteq> idx \<and> j \<notin> l_tried l)"

lemma on_tally_frame [simp]:
  "l_tried (on_tally f l) = l_tried l" "l_next_idx (on_tally f l) = l_next_idx l"
  "l_soft_waited (on_tally f l) = l_soft_waited l" "ladder_rest n (on_tally f l) = ladder_rest n l"
  "l_offline_waits (on_tally f l) = l_offline_waits l" "l_transport_retried (on_tally f l) = l_transport_retried l"
  "l_retried_429 (on_tally f l) = l_retried_429 l" "l_retried_529 (on_tally f l) = l_retried_529 l"
  "l_failovers_529 (on_tally f l) = l_failovers_529 l" "l_forced_401 (on_tally f l) = l_forced_401 l"
  "l_peer_egress_tried (on_tally f l) = l_peer_egress_tried l" "l_parked_transient (on_tally f l) = l_parked_transient l"
  "l_benched_for_hold (on_tally f l) = l_benched_for_hold l"
  by (simp_all add: on_tally_def rest_defs)

lemmas tally_ops = transport_failed_def upstream_answered_def unknown_outcome_def offline_failed_def
  codex_access_unread_def account_access_blocked_def refused_403_def model_refused_def

lemma peer_egress_frame [simp]:
  "l_tried (spend_peer_egress l) = l_tried l" "l_next_idx (spend_peer_egress l) = l_next_idx l"
  "l_soft_waited (spend_peer_egress l) = l_soft_waited l" "ladder_rest n (spend_peer_egress l) = ladder_rest n l"
  "l_parked_transient (spend_peer_egress l) = l_parked_transient l"
  "l_benched_for_hold (spend_peer_egress l) = l_benched_for_hold l"
  by (simp_all add: spend_peer_egress_def rest_defs)

lemma spend_retries:
  assumes "idx < n"
  shows "l_transport_retried l idx < MAX_SAME_ACCOUNT_TRANSPORT_RETRIES \<Longrightarrow>
      ladder_rest n (spend_transport_retry idx l) < ladder_rest n l"
    and "l_retried_429 l idx < MAX_SAME_ACCOUNT_429 \<Longrightarrow> ladder_rest n (spend_429_retry idx l) < ladder_rest n l"
    and "l_retried_529 l idx < MAX_SAME_ACCOUNT_529_RETRIES \<Longrightarrow> ladder_rest n (spend_529_retry idx l) < ladder_rest n l"
    and "idx \<notin> l_forced_401 l \<Longrightarrow> ladder_rest n (snd (first_forced_refresh idx l)) < ladder_rest n l"
  unfolding ladder_rest_def
  by (simp_all add: spend_transport_retry_def spend_429_retry_def spend_529_retry_def first_forced_refresh_def)
     (rule sum_drop [OF assms]; simp add: retries_left_def)+

lemma transport_retry_frame [simp]:
  "l_tried (spend_transport_retry i l) = l_tried l" "l_next_idx (spend_transport_retry i l) = l_next_idx l"
  "l_soft_waited (spend_transport_retry i l) = l_soft_waited l"
  "l_tried (spend_429_retry i l) = l_tried l" "l_next_idx (spend_429_retry i l) = l_next_idx l"
  "l_soft_waited (spend_429_retry i l) = l_soft_waited l"
  "l_tried (spend_529_retry i l) = l_tried l" "l_next_idx (spend_529_retry i l) = l_next_idx l"
  "l_soft_waited (spend_529_retry i l) = l_soft_waited l"
  "l_parked_transient (spend_transport_retry i l) = l_parked_transient l"
  "l_parked_transient (spend_429_retry i l) = l_parked_transient l"
  "l_parked_transient (spend_529_retry i l) = l_parked_transient l"
  "l_benched_for_hold (spend_transport_retry i l) = l_benched_for_hold l"
  "l_benched_for_hold (spend_429_retry i l) = l_benched_for_hold l"
  "l_benched_for_hold (spend_529_retry i l) = l_benched_for_hold l"
  by (simp_all add: spend_transport_retry_def spend_429_retry_def spend_529_retry_def)

lemma reset_recycle_frame [simp]:
  "l_tried (snd (first_reset_recycle i l)) = l_tried l" "l_next_idx (snd (first_reset_recycle i l)) = l_next_idx l"
  "l_soft_waited (snd (first_reset_recycle i l)) = l_soft_waited l"
  "ladder_rest n (snd (first_reset_recycle i l)) = ladder_rest n l"
  "l_transport_retried (snd (first_reset_recycle i l)) = l_transport_retried l"
  "l_parked_transient (snd (first_reset_recycle i l)) = l_parked_transient l"
  "l_benched_for_hold (snd (first_reset_recycle i l)) = l_benched_for_hold l"
  by (simp_all add: first_reset_recycle_def rest_defs)

lemma arm_ok_same: "(\<And>j. st \<noteq> FailOver j) \<Longrightarrow> st \<noteq> RetrySame \<Longrightarrow> arm_ok n idx l (st, l)"
  by (simp add: arm_ok_def)

lemma arm_ok_tally: "arm_ok n idx (on_tally f l) r \<longleftrightarrow> arm_ok n idx l r"
  by (simp add: arm_ok_def)

lemma arm_ok_egress: "arm_ok n idx (spend_peer_egress l) r \<longleftrightarrow> arm_ok n idx l r"
  by (simp add: arm_ok_def)

lemma arm_ok_spend:
  assumes "idx < n"
  shows "l_transport_retried l idx < MAX_SAME_ACCOUNT_TRANSPORT_RETRIES \<Longrightarrow> arm_ok n idx l (RetrySame, spend_transport_retry idx l)"
    and "l_retried_429 l idx < MAX_SAME_ACCOUNT_429 \<Longrightarrow> arm_ok n idx l (RetrySame, spend_429_retry idx l)"
    and "l_retried_529 l idx < MAX_SAME_ACCOUNT_529_RETRIES \<Longrightarrow> arm_ok n idx l (RetrySame, spend_529_retry idx l)"
  using spend_retries [OF assms] by (simp_all add: arm_ok_def less_imp_le)

lemma arm_ok_recycle: "arm_ok n idx (snd (first_reset_recycle i l)) r \<longleftrightarrow> arm_ok n idx l r"
  by (simp add: arm_ok_def)

lemma arm_ok_offline: "arm_ok n idx l (case take_offline_wait MAX_OFFLINE_WAITS_PER_REQUEST l of
    (Some _, l') \<Rightarrow> (RetrySame, l') | (None, l') \<Rightarrow> (Answer ans, l'))"
proof -
  have "retries_left (l\<lparr>l_offline_waits := k\<rparr>) = retries_left l" for k by (simp add: retries_left_def fun_eq_iff)
  then show ?thesis by (auto simp: take_offline_wait_def arm_ok_def ladder_rest_def)
qed

lemma direct_failure_ok:
  assumes "idx < n"
  shows "arm_ok n idx l (direct_failure idx e l)"
proof (cases "is_offline_error e")
  case True
  then show ?thesis
    using arm_ok_offline [of n idx "offline_failed l"] by (simp add: direct_failure_def offline_failed_def arm_ok_tally)
next
  case False
  define l1 where "l1 = (if \<not> te_is_connect e then unknown_outcome l else l)"
  define l2 where "l2 = (if classify_transport_failure e = StreamReset then snd (first_reset_recycle idx l1) else l1)"
  have eq: "arm_ok n idx l2 r \<longleftrightarrow> arm_ok n idx l r" for r
    by (simp add: l2_def l1_def arm_ok_recycle unknown_outcome_def arm_ok_tally)
  have "arm_ok n idx l2 (Rotate, l2)" by (simp add: arm_ok_same)
  with arm_ok_spend(1) [OF assms, of l2] False show ?thesis
    by (simp add: direct_failure_def Let_def l1_def [symmetric] l2_def [symmetric] eq [symmetric])
qed

lemma transport_arm_ok:
  assumes "idx < n"
  shows "arm_ok n idx l (transport_arm m p idx e c l)"
proof -
  have d: "arm_ok n idx (transport_failed l) (direct_failure idx e (spend_peer_egress (transport_failed l)))"
    using direct_failure_ok [OF assms] arm_ok_egress by blast
  have a: "arm_ok n idx (transport_failed l) (Answer ans, spend_peer_egress (transport_failed l))" for ans
    by (simp add: arm_ok_def)
  have "arm_ok n idx (transport_failed l) (transport_arm m p idx e c l)"
    using d a direct_failure_ok [OF assms, of "transport_failed l" e]
    by (simp add: transport_arm_def Let_def split: carry.splits)
  then show ?thesis by (simp add: transport_failed_def arm_ok_tally)
qed

section \<open>The responses\<close>

definition response_ok :: "nat \<Rightarrow> nat \<Rightarrow> ladder \<Rightarrow> step \<times> ladder \<times> 'a \<Rightarrow> bool" where
  "response_ok n idx l r \<longleftrightarrow> arm_ok n idx l (fst r, fst (snd r))"

lemma arm_401_ok:
  assumes "idx < n"
  shows "response_ok n idx l (arm_401 idx t r a l)"
proof (cases "idx \<in> l_forced_401 l")
  case True
  then have "first_forced_refresh idx l = (False, l)" by (simp add: first_forced_refresh_def insert_absorb)
  then show ?thesis by (simp add: response_ok_def arm_401_def arm_ok_same)
next
  case False
  with spend_retries(4) [OF assms, of l] show ?thesis
    by (simp add: response_ok_def arm_401_def arm_ok_def first_forced_refresh_def less_imp_le split: refreshed.splits)
qed

lemma arm_403_ok: "response_ok n idx l (arm_403 decode p idx ck rs a l)"
  by (simp add: response_ok_def arm_403_def Let_def tally_ops arm_ok_def split: provider.splits option.splits)

lemma transient_arm_ok:
  assumes "idx < n"
  shows "response_ok n idx l (transient_arm idx ra j t a l)"
  using arm_ok_spend(2) [OF assms, of l]
  by (auto simp: response_ok_def transient_arm_def classify_transient_429_def Let_def arm_ok_same
      split: transient_429.splits option.splits if_splits)

lemma arm_429_ok:
  assumes "idx < n"
  shows "response_ok n idx l (arm_429 decode T rq idx ck nanos rs a l)"
  using transient_arm_ok [OF assms, of l]
  by (simp add: arm_429_def Let_def response_ok_def arm_ok_same split: provider.splits option.splits)

lemma arm_529_ok:
  assumes "idx < n" "length (m_accounts m) = n"
  shows "response_ok n idx l (arm_529 rq idx now m l)"
proof (cases "l_retried_529 l idx < MAX_SAME_ACCOUNT_529_RETRIES")
  case True
  then show ?thesis using arm_ok_spend(3) [OF assms(1), of l] by (simp add: response_ok_def arm_529_def)
next
  case False
  obtain r m' where sel: "select_with_group (insert idx (l_tried l)) now (rq_model rq) (rq_session rq) (rq_path rq)
      (rq_conn rq) (rq_group rq) m = (r, m')" by force
  have "j < n \<and> j \<noteq> idx \<and> j \<notin> l_tried l" if "r = Some j" for j
  proof -
    have "fst (select_with_group (insert idx (l_tried l)) now (rq_model rq) (rq_session rq) (rq_path rq)
      (rq_conn rq) (rq_group rq) m) = Some j" using sel that by simp
    from select_admissible [OF this] assms(2) show ?thesis by (auto simp: get_eq_Some_iff)
  qed
  with False sel show ?thesis
    by (auto simp: response_ok_def arm_529_def arm_ok_def split: option.splits)
qed

lemma response_arm_ok:
  assumes "idx < n" "length (m_accounts m) = n"
  shows "response_ok n idx l (response_arm decode T rq idx ck nanos r rs m l)"
proof -
  let ?l = "upstream_answered l"
  have up: "response_ok n idx ?l x \<longleftrightarrow> response_ok n idx l x" for x :: "step \<times> ladder \<times> manager"
    by (simp add: response_ok_def upstream_answered_def arm_ok_tally)
  have fwd: "response_ok n idx ?l (Forward s, ?l, m')" for s and m' :: manager
    by (simp add: response_ok_def arm_ok_same)
  have com: "response_ok n idx ?l x \<Longrightarrow> response_ok n idx ?l (case x of (st, l', a') \<Rightarrow> (st, l', f a'))"
    for x :: "step \<times> ladder \<times> account" and f :: "account \<Rightarrow> manager"
    by (simp add: response_ok_def split_beta)
  have "response_ok n idx ?l (response_arm decode T rq idx ck nanos r rs m l)"
    using assms by (auto simp: response_arm_def Let_def fwd com arm_401_ok arm_403_ok arm_429_ok arm_529_ok split: option.splits)
  then show ?thesis by (simp add: up)
qed

section \<open>The turn\<close>

text \<open>Moving on costs: whatever the step, an attempt on an untried account that does not answer leaves
  less.\<close>

lemma apply_step_rest:
  assumes "arm_ok n idx l (st, l')" "apply_step idx st l' = (None, l'')" "idx < n" "idx \<notin> l_tried l"
    "l_next_idx l = None"
  shows "ladder_rest n l'' < ladder_rest n l \<and> ladder_ok n l''"
proof -
  have rest: "ladder_rest n (l'\<lparr>l_next_idx := x\<rparr>) = ladder_rest n l'" for x
    by (simp add: rest_defs)
  have bench: "ladder_rest n (l'\<lparr>l_tried := insert idx (l_tried l')\<rparr>) < ladder_rest n l'"
    "retries_left (l'\<lparr>l_tried := insert idx (l_tried l')\<rparr>) = retries_left l'"
    using assms(1,3,4) card_bench [of idx n "l_tried l'"] by (simp_all add: rest_defs arm_ok_def fun_eq_iff)
  have more: "ladder_rest n (k\<lparr>l_parked_transient := y, l_next_idx := x, l_failovers_529 := z\<rparr>) = ladder_rest n k"
    for k x y z by (simp add: rest_defs)
  have parked: "ladder_rest n (l'\<lparr>l_tried := insert idx (l_tried l'), l_parked_transient := y\<rparr>) < ladder_rest n l'"
    and failed: "ladder_rest n (l'\<lparr>l_tried := insert idx (l_tried l'), l_failovers_529 := z, l_next_idx := x\<rparr>) < ladder_rest n l'"
    for x y z using bench(1) by (simp_all add: rest_defs)
  have ok: "ladder_rest n l' \<le> ladder_rest n l" "l_tried l' = l_tried l" "l_next_idx l' = None"
    "st = RetrySame \<Longrightarrow> ladder_rest n l' < ladder_rest n l"
    "st = FailOver j \<Longrightarrow> j < n \<and> j \<noteq> idx \<and> j \<notin> l_tried l" for j
    using assms(1,5) by (simp_all add: arm_ok_def)
  show ?thesis using assms(2-4) ok bench(1) parked failed rest
    by (cases st) (fastforce simp: apply_step_def retry_same_def bench_def park_def fail_over_529_def ladder_ok_def
        intro: order.strict_trans2)+
qed

lemma length_accounts [simp]:
  "length (m_accounts (update_account i f m)) = length (m_accounts m)"
  "length (m_accounts (exit_in_flight i m)) = length (m_accounts m)"
  "length (m_accounts (snd (enter_in_flight b t i m))) = length (m_accounts m)"
  "length (m_accounts (stamp_account i m)) = length (m_accounts m)"
  by (simp_all add: update_account_def exit_in_flight_def enter_in_flight_def retire_every_client_after_sleep_def
      stamp_account_def Let_def split: option.splits)

lemma length_fleet_view: "fleet_view m' = fleet_view m \<Longrightarrow> length (m_accounts m') = length (m_accounts m)"
  by (auto simp: fleet_view_def dest: map_eq_imp_length_eq)

lemma length_select:
  assumes "select_with_group tr now model aff path ck grp m = (r, m')"
  shows "length (m_accounts m') = length (m_accounts m)"
  using call_frame_select [of aff m tr now model path ck grp] assms by (intro length_fleet_view) (simp add: call_frame_def)

lemma length_arm_529: "length (m_accounts (snd (snd (arm_529 rq idx now m l)))) = length (m_accounts m)"
  by (auto simp: arm_529_def length_select split: option.splits prod.splits)

lemma length_response_arm:
  "length (m_accounts (snd (snd (response_arm decode T rq idx ck nanos r rs m l)))) = length (m_accounts m)"
  by (simp add: response_arm_def Let_def split_beta length_arm_529 split: option.splits)

text \<open>The account a turn serves on.\<close>

definition fresh_pick :: "nat \<Rightarrow> nat \<Rightarrow> manager \<Rightarrow> ladder \<Rightarrow> bool" where
  "fresh_pick n idx m l \<longleftrightarrow> idx < n \<and> idx \<notin> l_tried l \<and> l_next_idx l = None \<and> length (m_accounts m) = n"

lemma settle_rest:
  assumes "settle idx st m l' = (Again, m', l'')" "arm_ok n idx l (st, l')" "fresh_pick n idx m0 l"
  shows "ladder_rest n l'' < ladder_rest n l \<and> ladder_ok n l'' \<and> length (m_accounts m') = length (m_accounts m)"
proof -
  have "apply_step idx st l' = (None, l'')" "m' = exit_in_flight idx m"
    using assms(1) by (auto simp: settle_def split: prod.splits option.splits)
  with apply_step_rest [OF assms(2)] assms(3) show ?thesis by (simp add: fresh_pick_def)
qed

lemma deliver_rest:
  assumes "deliver decode rq idx ck rs streamed m l' = (Again, m', l'')" "arm_ok n idx l (st, l')" "fresh_pick n idx m0 l"
  shows "ladder_rest n l'' < ladder_rest n l \<and> ladder_ok n l'' \<and> length (m_accounts m') = length (m_accounts m)"
proof -
  obtain f where l'': "l'' = bench idx (on_tally f l')" and m': "length (m_accounts m') = length (m_accounts m)"
    using assms(1) by (auto simp: deliver_def Let_def model_refused_def split: if_splits option.splits)
  have "arm_ok n idx l (Rotate, on_tally f l')" using assms(2) by (simp add: arm_ok_def)
  moreover have "apply_step idx Rotate (on_tally f l') = (None, l'')" by (simp add: apply_step_def l'')
  ultimately show ?thesis using apply_step_rest assms(3) m' by (simp add: fresh_pick_def)
qed

lemma after_send_rest:
  assumes "after_send decode T rq s idx m l = (Again, m', l')" "fresh_pick n idx m l"
  shows "ladder_rest n l' < ladder_rest n l \<and> ladder_ok n l' \<and> length (m_accounts m') = n"
proof (cases s)
  case (Failed e c)
  obtain st l1 where t: "transport_arm m (rq_provider rq) idx e c l = (st, l1)" by force
  have s: "settle idx st m l1 = (Again, m', l')" using assms(1) by (simp add: after_send_def Failed t)
  have ok: "arm_ok n idx l (st, l1)"
    using transport_arm_ok [of idx n l m "rq_provider rq" e c] assms(2) by (simp add: t fresh_pick_def)
  from settle_rest [OF s ok assms(2)] assms(2) show ?thesis by (simp add: fresh_pick_def)
next
  case (Replied ck nanos r rs streamed)
  obtain st l1 m1 where t: "response_arm decode T rq idx ck nanos r rs m l = (st, l1, m1)" using prod_cases3 by blast
  have ok: "arm_ok n idx l (st, l1)" using response_arm_ok [of idx n m l decode T rq ck nanos r rs] assms(2) t
    by (simp add: fresh_pick_def response_ok_def)
  have len: "length (m_accounts m1) = n" using length_response_arm [of decode T rq idx ck nanos r rs m l] t assms(2)
    by (simp add: fresh_pick_def)
  have "(if is_forward st then deliver decode rq idx ck rs streamed m1 l1 else settle idx st m1 l1) = (Again, m', l')"
    using assms(1) by (simp add: after_send_def Replied t)
  then show ?thesis using settle_rest [OF _ ok assms(2)] deliver_rest [OF _ ok assms(2)] len by (simp split: if_splits)
qed

lemma before_send_length: "env_ok env \<Longrightarrow> length (m_accounts (snd (before_send env idx m))) = length (m_accounts m)"
  by (simp add: before_send_def Let_def env_ok_def keeps_size_def)

lemma attempt_rest:
  assumes "attempt decode T rq env idx m l = (Again, m', l')" "fresh_pick n idx m l" "env_ok env"
  shows "ladder_rest n l' < ladder_rest n l \<and> ladder_ok n l' \<and> length (m_accounts m') = n"
proof -
  obtain stage m1 where b: "before_send env idx m = (stage, m1)" by force
  have len: "length (m_accounts m1) = n" using before_send_length [OF assms(3), of idx m] assms(2) b by (simp add: fresh_pick_def)
  show ?thesis
  proof (cases stage)
    case Benched
    have "settle idx Rotate m1 l = (Again, m', l')"
      using assms(1) by (simp add: attempt_def b Benched settle_def apply_step_def)
    from settle_rest [OF this _ assms(2)] len show ?thesis by (simp add: arm_ok_same)
  next
    case (Exit_Answered st)
    with assms(1) show ?thesis by (simp add: attempt_def b)
  next
    case (Send_On a)
    then have "after_send decode T rq (tn_send env) idx m1 l = (Again, m', l')" using assms(1) by (simp add: attempt_def b)
    moreover have "fresh_pick n idx m1 l" using assms(2) len by (simp add: fresh_pick_def)
    ultimately show ?thesis by (rule after_send_rest)
  qed
qed

lemma ladder_verdict_tally: "ladder_verdict m p now b strict l = (x, l') \<Longrightarrow> \<exists>f. l' = on_tally f l"
  by (auto simp: ladder_verdict_def on_tally_def split: prod.splits)

lemma release_turn_rest:
  assumes "release_turn rq env b w = (Go_On, w')" "wk_bound w = Some b" "length (m_accounts (wk_manager w)) = n"
  shows "walk_rest n w' < walk_rest n w \<and> walk_ok n w'"
proof -
  define l where "l = release_hold (wk_ladder w)"
  obtain released m' where sr: "same_org_release (wk_manager w) b (l_tried l) (rq_model rq)
      (select_for rq (tn_now env) (wk_manager w)) = (released, m')" by force
  have w': "wk_bound w' = None" "wk_manager w' = m'" "wk_ladder w' = set_next released l"
    using assms(1) by (auto simp: release_turn_def Let_def l_def [symmetric] sr split: prod.splits option.splits)
  have "released = Some i \<Longrightarrow> i < n \<and> i \<notin> l_tried l" for i
    using same_org_release_Some [of "wk_manager w" b "l_tried l" "rq_model rq"] sr assms(3)
    unfolding select_for_def [abs_def] by blast
  moreover have "length (m_accounts m') = n" using sr assms(3)
    by (auto simp: same_org_release_def select_for_def length_select split: if_splits)
  moreover have "ladder_rest n (set_next released l) \<le> ladder_rest n (wk_ladder w) + n"
    using card_untried_le [of n "l_tried l"] by (simp add: rest_defs l_def release_hold_def set_next_def)
  ultimately show ?thesis
    using w' assms(2) by (auto simp: walk_ok_def walk_rest_def ladder_ok_def set_next_def)
qed

lemma length_revalidation:
  assumes "select_revalidation tried now model aff path m = (r, m')"
  shows "length (m_accounts m') = length (m_accounts m)"
  using frame_revalidation [of tried now model aff path m] assms by (intro length_fleet_view) simp

lemma last_serve_pick:
  assumes "last_serve T rq env strict w = (p, w')" "length (m_accounts (wk_manager w)) = n" "l_next_idx (wk_ladder w) = None"
  shows "p \<noteq> Go_On \<and> (\<forall>i. p = Serve_On i \<longrightarrow> fresh_pick n i (wk_manager w') (wk_ladder w')) \<and>
    walk_rest n w' = walk_rest n w"
proof -
  let ?m = "wk_manager w"
  define served where "served = (case wk_bound w of
      Some b \<Rightarrow> select_bound b (l_tried (wk_ladder w)) (tn_now env) (rq_is_fable rq) (rq_group rq) strict
                  (warm_window ?m (rq_session rq)) ?m
    | None \<Rightarrow> if strict = None \<and> tn_revalidation env
              then select_revalidation (l_tried (wk_ladder w)) (tn_now env) (rq_model rq) (rq_session rq) (rq_path rq) ?m
              else (None, ?m))"
  have bound: "select_bound b tr now fb g st wm ?m = (Some i, m') \<Longrightarrow> length (m_accounts m') = n"
    for b tr now fb g st wm i m'
    using assms(2) by (auto simp: select_bound_def split: if_splits option.splits)
  have "i < n \<and> i \<notin> l_tried (wk_ladder w) \<and> length (m_accounts m') = n" if "served = (Some i, m')" for i m'
    using that reval_untried select_bound_Some length_revalidation bound assms(2)
    unfolding served_def by (auto split: option.splits if_splits)
  then show ?thesis using assms(1,3) unfolding last_serve_def Let_def served_def [symmetric]
    by (auto simp: fresh_pick_def walk_rest_def split: prod.splits option.splits)
qed

lemma soft_wait_rest:
  assumes "\<not> l_soft_waited l"
  shows "ladder_rest n (snd (readmit_expired_parks m t (spend_soft_wait l))) < ladder_rest n l"
  using assms card_untried_le [of n "l_tried l - {i \<in> l_parked_transient l. hold_expired m i t}"]
  by (simp add: rest_defs readmit_expired_parks_def spend_soft_wait_def Let_def)

lemma nothing_selectable_pick:
  assumes "nothing_selectable T rq env w = (p, w')" "length (m_accounts (wk_manager w)) = n"
    "l_next_idx (wk_ladder w) = None" "env_ok env"
  shows "(p = Go_On \<longrightarrow> walk_rest n w' < walk_rest n w \<and> walk_ok n w') \<and>
    (\<forall>i. p = Serve_On i \<longrightarrow> fresh_pick n i (wk_manager w') (wk_ladder w') \<and> walk_rest n w' \<le> walk_rest n w)"
proof -
  let ?m = "wk_manager w" and ?now = "tn_now env" and ?strict = "strict_group (wk_manager w) (rq_group rq)"
  obtain ans l where v: "ladder_verdict ?m (rq_provider rq) ?now (wk_bound w) ?strict (wk_ladder w) = (ans, l)" by force
  obtain f where l: "l = on_tally f (wk_ladder w)" using ladder_verdict_tally [OF v] by blast
  define w1 where "w1 = w\<lparr>wk_ladder := l\<rparr>"
  have w1: "walk_rest n w1 = walk_rest n w" "wk_manager w1 = ?m" "l_next_idx (wk_ladder w1) = None" "wk_bound w1 = wk_bound w"
    using assms(3) by (simp_all add: w1_def l walk_rest_def)
  note unfold = assms(1) [unfolded nothing_selectable_def Let_def v, simplified, folded w1_def]
  consider (stop) a where "ans = Some a" | (wait) s where "ans = None"
      "soft_wait_secs (soonest_free T rq ?now ?m ?strict (wk_bound w)) (l_soft_waited l) = Some s"
    | (on) "ans = None" "soft_wait_secs (soonest_free T rq ?now ?m ?strict (wk_bound w)) (l_soft_waited l) = None"
    by (cases ans; cases "soft_wait_secs (soonest_free T rq ?now ?m ?strict (wk_bound w)) (l_soft_waited l)") auto
  then show ?thesis
  proof cases
    case stop
    with unfold show ?thesis by auto
  next
    case wait
    then have "\<not> l_soft_waited l" by (auto simp: soft_wait_secs_def split: if_splits)
    from soft_wait_rest [OF this, of n "tn_woken env ?m" "tn_woken_ms env"]
    have "ladder_rest n (snd (readmit_expired_parks (tn_woken env ?m) (tn_woken_ms env) (spend_soft_wait l)))
      < ladder_rest n (wk_ladder w)" by (simp add: l)
    with unfold wait assms(2,3,4) show ?thesis
      by (auto simp: walk_rest_def walk_ok_def ladder_ok_def w1_def l readmit_expired_parks_def spend_soft_wait_def
          Let_def env_ok_def keeps_size_def on_tally_def)
  next
    case on
    show ?thesis
    proof (cases "is_some_and (wk_bound w) (\<lambda>b. \<not> bound_account_holds ?m b ?now (rq_is_fable rq) (rq_group rq)
        (warm_window ?m (rq_session rq)))")
      case True
      then obtain b where b: "wk_bound w = Some b" by (auto simp: is_some_and_iff)
      have "p \<noteq> Serve_On i" if "release_turn rq env b w1 = (p, w')" for i
        using that by (auto simp: release_turn_def Let_def split: prod.splits option.splits)
      then show ?thesis using unfold on True b release_turn_rest [of rq env b w1 w' n] assms(2) w1
        by (auto split: if_splits)
    next
      case False
      with unfold on last_serve_pick [of T rq env ?strict w1 p w' n] assms(2) w1 show ?thesis
        by (auto split: if_splits)
    qed
  qed
qed

lemma pick_turn_rest:
  assumes "pick_turn T rq env w = (p, w')" "walk_ok n w" "env_ok env"
  shows "(p = Go_On \<longrightarrow> walk_rest n w' < walk_rest n w \<and> walk_ok n w') \<and>
    (\<forall>i. p = Serve_On i \<longrightarrow> fresh_pick n i (wk_manager w') (wk_ladder w') \<and> walk_rest n w' \<le> walk_rest n w)"
proof -
  define l where "l = (wk_ladder w)\<lparr>l_next_idx := None\<rparr>"
  have len: "length (m_accounts (wk_manager w)) = n" using assms(2) by (simp add: walk_ok_def)
  have rest: "walk_rest n (w\<lparr>wk_manager := x, wk_ladder := l\<rparr>) = walk_rest n w"
    "walk_rest n (w\<lparr>wk_ladder := l\<rparr>) = walk_rest n w" for x
    by (simp_all add: walk_rest_def l_def rest_defs)
  obtain r m where sel: "select_for rq (tn_now env) (wk_manager w) (l_tried l) = (r, m)" by force
  have m: "length (m_accounts m) = n" using sel len by (simp add: select_for_def length_select)
  show ?thesis
  proof (cases "l_next_idx (wk_ladder w)")
    case (Some i)
    then have "p = Serve_On i" "w' = w\<lparr>wk_ladder := l\<rparr>"
      using assms(1) by (simp_all add: pick_turn_def take_next_def l_def)
    moreover have "i < n" "i \<notin> l_tried l" "l_next_idx l = None"
      using Some assms(2) by (simp_all add: walk_ok_def ladder_ok_def l_def)
    ultimately show ?thesis using len rest by (simp add: fresh_pick_def)
  next
    case None
    show ?thesis
    proof (cases r)
      case (Some i)
      have "fst (select_with_group (l_tried l) (tn_now env) (rq_model rq) (rq_session rq) (rq_path rq) (rq_conn rq)
        (rq_group rq) (wk_manager w)) = Some i" using sel Some by (simp add: select_for_def)
      from select_admissible [OF this] len have "i < n" "i \<notin> l_tried l" by (auto simp: get_eq_Some_iff)
      with assms(1) None Some m sel rest show ?thesis
        by (auto simp: pick_turn_def take_next_def l_def [symmetric] fresh_pick_def) (simp_all add: l_def)
    next
      case N: None
      have "nothing_selectable T rq env (w\<lparr>wk_manager := m, wk_ladder := l\<rparr>) = (p, w')"
        using assms(1) None N sel by (simp add: pick_turn_def take_next_def l_def [symmetric])
      from nothing_selectable_pick [OF this _ _ assms(3), of n] m show ?thesis by (simp add: rest) (simp add: l_def)
    qed
  qed
qed

lemma turn_rest:
  assumes "turn decode T rq env w = (sent, Again, w')" "walk_ok n w" "env_ok env"
  shows "walk_rest n w' < walk_rest n w \<and> walk_ok n w'"
proof -
  define w0 where "w0 = w\<lparr>wk_manager := tn_others env (wk_manager w)\<rparr>"
  have w0: "walk_ok n w0" "walk_rest n w0 = walk_rest n w"
    using assms(2,3) by (simp_all add: w0_def walk_ok_def env_ok_def keeps_size_def walk_rest_def)
  obtain p w1 where pk: "pick_turn T rq env w0 = (p, w1)" by force
  note pick = pick_turn_rest [OF pk w0(1) assms(3)]
  show ?thesis
  proof (cases p)
    case (Serve_On i)
    obtain res m l where at: "attempt decode T rq env i (wk_manager w1) (wk_ladder w1) = (res, m, l)"
      using prod_cases3 by blast
    have "res = Again" "w' = w1\<lparr>wk_manager := m, wk_ladder := l\<rparr>"
      using assms(1) by (auto simp: turn_def w0_def [symmetric] pk Serve_On at)
    with attempt_rest [of decode T rq env i "wk_manager w1" "wk_ladder w1" m l n] at pick Serve_On assms(3) w0(2)
    show ?thesis by (auto simp: walk_rest_def walk_ok_def)
  next
    case (Stop a)
    with assms(1) show ?thesis by (simp add: turn_def w0_def [symmetric] pk)
  next
    case Go_On
    with assms(1) pick w0(2) show ?thesis by (simp add: turn_def w0_def [symmetric] pk)
  qed
qed

lemma turns_answer:
  assumes "walk_ok n w" "\<And>k. env_ok (env k)" "walk_rest n w < fuel"
  shows "\<exists>sent ans w'. turns decode T rq env k fuel w = (sent, Some ans, w')"
  using assms(1,3)
proof (induction fuel arbitrary: k w)
  case (Suc fuel)
  obtain sent res w' where t: "turn decode T rq (env k) w = (sent, res, w')" using prod_cases3 by blast
  show ?case
  proof (cases res)
    case Again
    with turn_rest [OF t [unfolded Again] Suc.prems(1) assms(2)] Suc.prems(2) have "walk_ok n w'" "walk_rest n w' < fuel"
      by auto
    from Suc.IH [OF this, of "Suc k"] t Again show ?thesis by auto
  qed (simp add: t)
qed simp

section \<open>Termination\<close>

lemma hold_benches:
  "l_tried (fold bench_for_hold xs l) = l_tried l \<union> set xs" "l_next_idx (fold bench_for_hold xs l) = l_next_idx l"
  "retries_left (fold bench_for_hold xs l) = retries_left l" "l_offline_waits (fold bench_for_hold xs l) = l_offline_waits l"
  "l_soft_waited (fold bench_for_hold xs l) = l_soft_waited l"
  by (induction xs arbitrary: l) (auto simp: bench_for_hold_def retries_left_def fun_eq_iff)

lemma fresh_ladder_rest:
  "ladder_rest n (ladder_default\<lparr>l_tried := tr, l_next_idx := x\<rparr>) = 9 * n + 4 + card ({..<n} - tr)"
  by (simp add: rest_defs ladder_default_def MAX_SAME_ACCOUNT_TRANSPORT_RETRIES_def MAX_SAME_ACCOUNT_429_def
      MAX_SAME_ACCOUNT_529_RETRIES_def MAX_OFFLINE_WAITS_PER_REQUEST_def)

lemma open_walk_rest:
  assumes "open_walk rq now now_ms cand warned m (ladder_default\<lparr>l_tried := scope\<rparr>) = (None, w)"
    and "length (m_accounts m) = n"
  shows "walk_ok n w \<and> walk_rest n w \<le> 10 * n + (if cand = None then 4 else 6)"
proof -
  let ?l = "ladder_default\<lparr>l_tried := scope\<rparr>"
  have free: "walk_ok n w \<and> walk_rest n w \<le> 10 * n + 4"
    if "wk_bound w = None" "wk_ladder w = set_next r ?l" "length (m_accounts (wk_manager w)) = n"
      "\<And>i. r = Some i \<Longrightarrow> i < n \<and> i \<notin> scope" for r
    using that fresh_ladder_rest [of n r scope] card_untried_le [of n scope]
    by (simp add: walk_ok_def walk_rest_def ladder_ok_def set_next_def)
  show ?thesis
  proof (cases cand)
    case None
    with assms show ?thesis using free [of None] by (auto simp: open_walk_def)
  next
    case (Some b)
    let ?holds = "\<not> is_some_and (rq_session rq) (\<lambda>key. switch_warned key b now_ms warned) \<and>
      bound_account_holds m b now (rq_is_fable rq) (rq_group rq) (warm_window m (rq_session rq))"
    show ?thesis
    proof (cases ?holds)
      case True
      let ?xs = "filter (\<lambda>i. i \<noteq> b) [0..<length (m_accounts m)]"
      have w: "w = \<lparr>wk_bound = Some b, wk_warned = warned, wk_manager = m,
          wk_ladder = set_next None (fold bench_for_hold ?xs ?l)\<rparr>"
        using assms(1) Some True by (simp add: open_walk_def Let_def)
      have "{..<n} - (scope \<union> set ?xs) \<subseteq> {b}" using assms(2) by auto
      then have "card ({..<n} - (scope \<union> set ?xs)) \<le> 1" using card_mono [of "{b}"] by fastforce
      moreover have "(\<Sum>i<n. retries_left ?l i) = 8 * n"
        by (simp add: retries_left_def ladder_default_def MAX_SAME_ACCOUNT_TRANSPORT_RETRIES_def
            MAX_SAME_ACCOUNT_429_def MAX_SAME_ACCOUNT_529_RETRIES_def)
      moreover have "retries_left (set_next None k) = retries_left k" for k
        by (simp add: set_next_def retries_left_def fun_eq_iff)
      ultimately have "walk_rest n w \<le> 10 * n + 6"
        by (simp add: w walk_rest_def ladder_rest_def hold_benches)
          (simp add: set_next_def hold_benches ladder_default_def MAX_OFFLINE_WAITS_PER_REQUEST_def)
      then show ?thesis using Some assms(2) by (simp add: w walk_ok_def ladder_ok_def set_next_def)
    next
      case False
      obtain x w' where sw: "switch_warning m (rq_session rq) b now (rq_is_fable rq) (rq_group rq) now_ms warned = (x, w')"
        by force
      obtain r m' where sr: "same_org_release m b scope (rq_model rq) (select_for rq now m) = (r, m')" by force
      have x: "x = None" and w: "w = \<lparr>wk_bound = None, wk_warned = w', wk_manager = m', wk_ladder = set_next r ?l\<rparr>"
        using assms(1) Some False sw sr by (auto simp: open_walk_def Let_def split: option.splits)
      have "length (m_accounts m') = n" using sr assms(2)
        by (auto simp: same_org_release_def select_for_def length_select split: if_splits)
      moreover have "r = Some i \<Longrightarrow> i < n \<and> i \<notin> scope" for i
        using same_org_release_Some [of m b scope "rq_model rq"] sr assms(2) unfolding select_for_def [abs_def] by blast
      ultimately show ?thesis using free [of r] Some by (simp add: w)
    qed
  qed
qed

text \<open>
  C19. A request's walk through the fleet ends, whatever upstream, the peers and the other requests do.
  With \<open>n\<close> accounts and any lease scope, the loop answers within \<open>10 * n + 7\<close> turns by its own counters
  (retries in place, benches, parks, the one soft wait, the one release), the attempt budget set aside; a
  request that is not bound to an account takes at most \<open>10 * n + 5\<close>. So for such a request, and up to two
  accounts, the budget of \<open>max_attempts_for\<close> (\<open>9 * n + 7\<close>) never cuts the walk short; of a bound
  conversation and of a larger fleet this is not said.
\<close>

theorem rotation_ends:
  assumes "open_walk rq now now_ms cand warned m (ladder_default\<lparr>l_tried := scope\<rparr>) = (None, w)"
    and "length (m_accounts m) = n" and "\<forall>k. env_ok (env k)"
  shows "(\<exists>sent ans w'. turns decode T rq env 0 (10 * n + 7) w = (sent, Some ans, w')) \<and>
    (cand = None \<longrightarrow> (\<exists>sent ans w'. turns decode T rq env 0 (10 * n + 5) w = (sent, Some ans, w'))) \<and>
    (cand = None \<longrightarrow> n \<le> 2 \<longrightarrow> (\<exists>sent ans w'. turns decode T rq env 0 (max_attempts_for n) w = (sent, Some ans, w')))"
proof -
  have w: "walk_ok n w" "walk_rest n w \<le> 10 * n + (if cand = None then 4 else 6)"
    using open_walk_rest [OF assms(1,2)] by simp_all
  have "max_attempts_for n = 9 * n + 7"
    by (simp add: max_attempts_for_def MAX_SENDS_PER_ACCOUNT_def MAX_SAME_ACCOUNT_TRANSPORT_RETRIES_def
        MAX_SAME_ACCOUNT_429_def MAX_SAME_ACCOUNT_529_RETRIES_def MAX_OFFLINE_WAITS_PER_REQUEST_def)
  then have "n \<le> 2 \<Longrightarrow> 10 * n + 4 < max_attempts_for n" by simp
  with w turns_answer [OF w(1), of env _ decode T rq 0] assms(3) show ?thesis by (auto split: if_splits)
qed

definition messages_request :: routed_request where
  "messages_request = \<lparr>rq_provider = Anthropic, rq_path = path_messages, rq_path_and_query = path_messages,
     rq_model = None, rq_session = None, rq_conn = None, rq_group = None\<rparr>"

text \<open>A turn in which nothing else moves.\<close>

definition quiet_env :: "send \<Rightarrow> turn_env" where
  "quiet_env s = \<lparr>tn_now = 0, tn_now_ms = 0, tn_others = (\<lambda>m. m), tn_woken = (\<lambda>m. m), tn_woken_ms = 0,
     tn_revalidation = False, tn_fallback = None, tn_slept = False, tn_fresh = (\<lambda>m. m), tn_exit_lock = None, tn_send = s\<rparr>"

definition broken_pipe :: send where
  "broken_pipe = Failed \<lparr>te_is_connect = False, te_frames = [''broken pipe'']\<rparr> Not_Carried"
definition connect_refused :: send where
  "connect_refused = Failed \<lparr>te_is_connect = True, te_frames = [''connection refused'']\<rparr> Not_Carried"
definition no_resolver :: send where
  "no_resolver = Failed \<lparr>te_is_connect = True, te_frames = [''dns error'']\<rparr> Not_Carried"

definition fresh_walk :: "manager \<Rightarrow> walk" where
  "fresh_walk m = \<lparr>wk_bound = None, wk_warned = [], wk_manager = m, wk_ladder = ladder_default\<rparr>"

lemma fresh_walk_opens:
  "open_walk rq now now_ms None [] m (ladder_default\<lparr>l_tried := {}\<rparr>) = (None, fresh_walk m)"
  by (simp add: open_walk_def fresh_walk_def set_next_def ladder_default_def)

theorem rotation_ends_witness:
  "\<exists>sent ans w'. turns (\<lambda>_. None) sample_time messages_request (\<lambda>_. quiet_env broken_pipe) 0 (max_attempts_for 2)
     (fresh_walk two_claude) = (sent, Some ans, w')"
proof -
  have "length (m_accounts two_claude) = 2" by (simp add: two_claude_def sample_manager_def)
  moreover have "\<forall>k::nat. env_ok (quiet_env broken_pipe)" by (simp add: env_ok_def keeps_size_def quiet_env_def)
  ultimately show ?thesis using rotation_ends [OF fresh_walk_opens, of two_claude 2 "\<lambda>_. quiet_env broken_pipe"] by blast
qed

section \<open>A held conversation\<close>

text \<open>Every account but the bound one is benched, and none of them is parked for the soft wait.\<close>

definition held :: "nat \<Rightarrow> nat \<Rightarrow> ladder \<Rightarrow> bool" where
  "held n b l \<longleftrightarrow> (\<forall>j<n. j \<noteq> b \<longrightarrow> j \<in> l_tried l) \<and> l_parked_transient l \<subseteq> {b}"

lemma held_fresh_pick: "held n b l \<Longrightarrow> fresh_pick n i m l \<Longrightarrow> i = b"
  by (auto simp: held_def fresh_pick_def)

lemma held_bench: "held n b l \<Longrightarrow> held n b (bench i l)"
  by (simp add: held_def bench_def)

lemma apply_step_held:
  assumes "arm_ok n b l (st, l')" "apply_step b st l' = (r, l'')" "held n b l"
  shows "held n b l''"
  using assms by (cases st)
    (auto simp: arm_ok_def apply_step_def held_def retry_same_def bench_def park_def fail_over_529_def)

lemma after_send_held:
  assumes "after_send decode T rq s b m l = (res, m', l')" "fresh_pick n b m l" "held n b l"
  shows "held n b l'"
proof (cases s)
  case (Failed e c)
  obtain st l1 where t: "transport_arm m (rq_provider rq) b e c l = (st, l1)" by force
  have "arm_ok n b l (st, l1)"
    using transport_arm_ok [of b n l m "rq_provider rq" e c] assms(2) by (simp add: t fresh_pick_def)
  from apply_step_held [OF this _ assms(3)] assms(1) show ?thesis
    by (auto simp: after_send_def Failed t settle_def split: prod.splits option.splits)
next
  case (Replied ck nanos r rs streamed)
  obtain st l1 m1 where t: "response_arm decode T rq b ck nanos r rs m l = (st, l1, m1)" using prod_cases3 by blast
  have ok: "arm_ok n b l (st, l1)" using response_arm_ok [of b n m l decode T rq ck nanos r rs] assms(2) t
    by (simp add: fresh_pick_def response_ok_def)
  have "held n b l'" if "deliver decode rq b ck rs streamed m1 l1 = (res, m', l')"
    using that ok assms(3)
    by (auto simp: deliver_def Let_def arm_ok_def held_def bench_def model_refused_def split: if_splits option.splits)
  then show ?thesis using apply_step_held [OF ok _ assms(3)] assms(1)
    by (auto simp: after_send_def Replied t settle_def split: if_splits prod.splits option.splits)
qed

lemma nothing_selectable_held:
  assumes "nothing_selectable T rq env w = (p, w')" "held n b (wk_ladder w)" "wk_bound w' = Some b"
  shows "held n b (wk_ladder w')"
proof -
  let ?m = "wk_manager w" and ?strict = "strict_group (wk_manager w) (rq_group rq)"
  obtain x l where v: "ladder_verdict ?m (rq_provider rq) (tn_now env) (wk_bound w) ?strict (wk_ladder w) = (x, l)" by force
  obtain f where l: "l = on_tally f (wk_ladder w)" using ladder_verdict_tally [OF v] by blast
  have "held n b l" using assms(2) by (simp add: held_def l)
  then show ?thesis using assms(1,3) v
    by (auto simp: nothing_selectable_def Let_def readmit_expired_parks_def spend_soft_wait_def release_turn_def
        last_serve_def held_def split: option.splits if_splits prod.splits)
qed

lemma pick_turn_held:
  assumes "pick_turn T rq env w = (p, w')" "held n b (wk_ladder w)" "wk_bound w' = Some b"
  shows "held n b (wk_ladder w')"
  using assms nothing_selectable_held [of T rq env _ p w' n b]
  by (auto simp: pick_turn_def take_next_def held_def split: option.splits prod.splits)

lemma bound_monotone: "turn decode T rq env w = (s, res, w') \<Longrightarrow> wk_bound w' = Some b \<Longrightarrow> wk_bound w = Some b"
  by (auto simp: turn_def pick_turn_def nothing_selectable_def release_turn_def last_serve_def Let_def
      split: pick.splits prod.splits option.splits if_splits)

lemma turn_held:
  assumes "turn decode T rq env w = (s, res, w')" "held n b (wk_ladder w)" "walk_ok n w" "env_ok env" "wk_bound w' = Some b"
  shows "held n b (wk_ladder w') \<and> fst ` set s \<subseteq> {b}"
proof -
  define w0 where "w0 = w\<lparr>wk_manager := tn_others env (wk_manager w)\<rparr>"
  have w0: "walk_ok n w0" "held n b (wk_ladder w0)"
    using assms(2-4) by (simp_all add: w0_def walk_ok_def env_ok_def keeps_size_def)
  obtain p w1 where pk: "pick_turn T rq env w0 = (p, w1)" by force
  have b1: "wk_bound w1 = Some b" using assms(1,5) by (auto simp: turn_def w0_def [symmetric] pk split: pick.splits prod.splits)
  note h1 = pick_turn_held [OF pk w0(2) b1]
  show ?thesis
  proof (cases p)
    case (Serve_On i)
    have pick: "fresh_pick n i (wk_manager w1) (wk_ladder w1)" using pick_turn_rest [OF pk w0(1) assms(4)] Serve_On by simp
    have i: "i = b" using held_fresh_pick [OF h1 pick] .
    obtain stage m1 where st: "before_send env b (wk_manager w1) = (stage, m1)" by force
    have "length (m_accounts m1) = n" using before_send_length [OF assms(4), of b "wk_manager w1"] pick st by (simp add: fresh_pick_def)
    then have pick1: "fresh_pick n b m1 (wk_ladder w1)" using pick i by (simp add: fresh_pick_def)
    have "held n b (wk_ladder w')"
      using assms(1) h1 after_send_held [OF _ pick1 h1]
      by (cases stage) (auto simp: turn_def w0_def [symmetric] pk Serve_On i attempt_def st held_bench split: prod.splits)
    moreover have "fst ` set s \<subseteq> {b}"
      using assms(1) by (auto simp: turn_def w0_def [symmetric] pk Serve_On i split: prod.splits attempt_stage.splits)
    ultimately show ?thesis by blast
  qed (use assms(1) h1 in \<open>auto simp: turn_def w0_def [symmetric] pk\<close>)
qed

lemma turns_bound: "turns decode T rq env k fuel w = (s, x, w') \<Longrightarrow> wk_bound w' = Some b \<Longrightarrow> wk_bound w = Some b"
proof (induction fuel arbitrary: k w s)
  case (Suc fuel)
  then show ?case by (auto split: prod.splits turn_result.splits dest: bound_monotone)
qed simp

lemma turns_held:
  assumes "turns decode T rq env k fuel w = (s, x, w')" "held n b (wk_ladder w)" "walk_ok n w" "\<forall>k. env_ok (env k)"
    "wk_bound w' = Some b"
  shows "fst ` set s \<subseteq> {b} \<and> wk_bound w = Some b"
  using assms(1-3)
proof (induction fuel arbitrary: k w s)
  case (Suc fuel)
  obtain s1 res w1 where t: "turn decode T rq (env k) w = (s1, res, w1)" using prod_cases3 by blast
  show ?case
  proof (cases res)
    case (Answered a)
    with Suc.prems t have eq: "s = s1" "w' = w1" by auto
    with turn_held [OF t Suc.prems(2,3)] bound_monotone [OF t] assms(4,5) show ?thesis by simp
  next
    case Again
    obtain s2 x2 w2 where ts: "turns decode T rq env (Suc k) fuel w1 = (s2, x2, w2)" using prod_cases3 by blast
    have s: "s = s1 @ s2" "x = x2" "w' = w2" using Suc.prems(1) t Again ts by auto
    have w1: "walk_ok n w1" using turn_rest [OF t [unfolded Again] Suc.prems(3)] assms(4) by simp
    have "held n b (wk_ladder w1) \<and> fst ` set s1 \<subseteq> {b}" if "wk_bound w1 = Some b"
      using turn_held [OF t Suc.prems(2,3) _ that] assms(4) by blast
    moreover have "wk_bound w1 = Some b" using turns_bound [OF ts] assms(5) s(3) by simp
    ultimately show ?thesis using Suc.IH [OF ts [folded s(2,3)] _ w1] bound_monotone [OF t] s(1) by auto
  qed
qed (simp add: assms(5))

text \<open>A walk that opens with the hold benches every account but the bound one, and parks none.\<close>

lemma open_walk_held:
  assumes "open_walk rq now now_ms cand warned m (ladder_default\<lparr>l_tried := scope\<rparr>) = (None, w)" "wk_bound w = Some b"
  shows "cand = Some b" "held (length (m_accounts m)) b (wk_ladder w)" "b \<notin> scope \<Longrightarrow> b \<notin> l_tried (wk_ladder w)"
    "l_next_idx (wk_ladder w) = None" "l_tally (wk_ladder w) = tally_default" "l_soft_waited (wk_ladder w) = False"
    "wk_manager w = m"
proof -
  have w: "cand = Some b \<and> wk_manager w = m \<and>
      wk_ladder w = set_next None (fold bench_for_hold (filter (\<lambda>i. i \<noteq> b) [0..<length (m_accounts m)])
      (ladder_default\<lparr>l_tried := scope\<rparr>))"
    using assms by (auto simp: open_walk_def Let_def split: option.splits if_splits prod.splits)
  have "l_parked_transient (fold bench_for_hold xs l) = l_parked_transient l \<and> l_tally (fold bench_for_hold xs l) = l_tally l" for xs l
    by (induction xs arbitrary: l) (simp_all add: bench_for_hold_def)
  with w show "cand = Some b" "held (length (m_accounts m)) b (wk_ladder w)" "b \<notin> scope \<Longrightarrow> b \<notin> l_tried (wk_ladder w)"
    "l_next_idx (wk_ladder w) = None" "l_tally (wk_ladder w) = tally_default" "l_soft_waited (wk_ladder w) = False"
    "wk_manager w = m"
    by (auto simp: held_def set_next_def hold_benches ladder_default_def)
qed

text \<open>
  C20. A conversation held to the account that minted its history goes nowhere else. From a walk opened
  with the hold, for as long as the walk has not released the conversation, every send of the request,
  retries, soft wait, failovers and the last-resort serve included, is on the bound account.
\<close>

theorem held_conversation_stays:
  assumes "open_walk rq now now_ms cand warned m (ladder_default\<lparr>l_tried := scope\<rparr>) = (None, w)"
    and "length (m_accounts m) = n" and "\<forall>k. env_ok (env k)"
    and "turns decode T rq env 0 fuel w = (sent, x, w')" and "wk_bound w' = Some b"
  shows "cand = Some b \<and> (\<forall>(i, s)\<in>set sent. i = b)"
proof -
  have w: "walk_ok n w" using open_walk_rest [OF assms(1,2)] by simp
  have b: "wk_bound w = Some b" using turns_bound [OF assms(4,5)] .
  have "cand = Some b" "held n b (wk_ladder w)" using open_walk_held(1,2) [OF assms(1) b] assms(2) by simp_all
  with turns_held [OF assms(4) _ w assms(3,5)] show ?thesis by auto
qed

definition held_run :: "(nat \<times> send) list \<times> answer option \<times> walk" where
  "held_run = turns (\<lambda>_. None) sample_time messages_request (\<lambda>_. quiet_env broken_pipe) 0 3
     (snd (open_walk messages_request 0 0 (Some 1) [] two_claude (ladder_default\<lparr>l_tried := {}\<rparr>)))"

theorem held_conversation_stays_witness:
  "length (fst held_run) = 3 \<and> list_all (\<lambda>(i, s). i = 1) (fst held_run)"
proof -
  let ?open = "open_walk messages_request 0 0 (Some 1) [] two_claude (ladder_default\<lparr>l_tried := {}\<rparr>)"
  have "fst ?open = None \<and> wk_bound (snd (snd held_run)) = Some 1 \<and> length (fst held_run) = 3" by code_simp
  then have h: "?open = (None, snd ?open)" "wk_bound (snd (snd held_run)) = Some 1" "length (fst held_run) = 3"
    by (simp_all add: prod_eq_iff)
  have len: "length (m_accounts two_claude) = 2" by (simp add: two_claude_def sample_manager_def)
  have env: "\<forall>k::nat. env_ok (quiet_env broken_pipe)" by (simp add: env_ok_def keeps_size_def quiet_env_def)
  have run: "turns (\<lambda>_. None) sample_time messages_request (\<lambda>_. quiet_env broken_pipe) 0 3 (snd ?open) =
    (fst held_run, fst (snd held_run), snd (snd held_run))" by (simp add: held_run_def)
  from held_conversation_stays [OF h(1) len env run h(2)] h(3) show ?thesis by (simp add: list_all_iff)
qed

section \<open>No upstream reached\<close>

text \<open>A send that failed in transport, named resolution aside, and that no peer took over; and one
  upstream may have seen.\<close>

definition plain_failure :: "nat \<times> send \<Rightarrow> bool" where
  "plain_failure s = (case snd s of Failed e c \<Rightarrow> c = Not_Carried \<and> \<not> is_offline_error e | _ \<Rightarrow> False)"

definition maybe_delivered :: "nat \<times> send \<Rightarrow> bool" where
  "maybe_delivered s = (case snd s of Failed e _ \<Rightarrow> \<not> te_is_connect e | _ \<Rightarrow> True)"

definition tally_of :: "(nat \<times> send) list \<Rightarrow> tally \<Rightarrow> bool" where
  "tally_of sent t \<longleftrightarrow> t_transport_failures t = length sent \<and> t_upstream_responses t = 0 \<and> t_offline_failures t = 0 \<and>
     t_unknown_outcome t = list_ex maybe_delivered sent"

lemma verdict_unreached:
  assumes "tally_of sent (l_tally l)" "sent \<noteq> []"
  shows "fst (ladder_verdict m p now b strict l) = Some (bad_gateway (list_ex maybe_delivered sent))"
  using assms by (simp add: tally_of_def ladder_verdict_def verdict_def every_attempt_transport_failed_def)

lemma verdict_None_tally: "ladder_verdict m p now b strict l = (None, l') \<Longrightarrow> l_tally l' = l_tally l"
  by (auto simp: ladder_verdict_def verdict_def split: if_splits provider.splits)

lemma nothing_selectable_tally:
  assumes "nothing_selectable T rq env w = (p, w')" "tally_of sent (l_tally (wk_ladder w))"
  shows "(case p of Stop ans \<Rightarrow> sent \<noteq> [] \<longrightarrow> ans = bad_gateway (list_ex maybe_delivered sent)
    | _ \<Rightarrow> l_tally (wk_ladder w') = l_tally (wk_ladder w))"
proof -
  let ?m = "wk_manager w" and ?strict = "strict_group (wk_manager w) (rq_group rq)"
  obtain x l where v: "ladder_verdict ?m (rq_provider rq) (tn_now env) (wk_bound w) ?strict (wk_ladder w) = (x, l)" by force
  show ?thesis
  proof (cases x)
    case (Some a)
    then show ?thesis
      using assms v verdict_unreached [OF assms(2), of ?m "rq_provider rq" "tn_now env" "wk_bound w" ?strict]
      by (auto simp: nothing_selectable_def Let_def)
  next
    case None
    have "sent = []"
      using verdict_unreached [OF assms(2), of ?m "rq_provider rq" "tn_now env" "wk_bound w" ?strict] v None by auto
    moreover have "l_tally l = l_tally (wk_ladder w)" using verdict_None_tally v None by blast
    ultimately show ?thesis using assms(1) v None
      by (auto simp: nothing_selectable_def Let_def readmit_expired_parks_def spend_soft_wait_def release_turn_def
          last_serve_def release_hold_def set_next_def split: option.splits if_splits prod.splits pick.splits)
  qed
qed

lemma pick_turn_tally:
  assumes "pick_turn T rq env w = (p, w')" "tally_of sent (l_tally (wk_ladder w))"
  shows "(case p of Stop ans \<Rightarrow> sent \<noteq> [] \<longrightarrow> ans = bad_gateway (list_ex maybe_delivered sent)
    | _ \<Rightarrow> l_tally (wk_ladder w') = l_tally (wk_ladder w))"
proof -
  define l where "l = snd (take_next (wk_ladder w))"
  have l: "l_tally l = l_tally (wk_ladder w)" by (simp add: l_def take_next_def)
  obtain r m where sel: "select_for rq (tn_now env) (wk_manager w) (l_tried l) = (r, m)" by force
  show ?thesis
  proof (cases "l_next_idx (wk_ladder w) = None \<and> r = None")
    case True
    then have "nothing_selectable T rq env (w\<lparr>wk_manager := m, wk_ladder := l\<rparr>) = (p, w')"
      using assms(1) sel by (simp add: pick_turn_def l_def take_next_def)
    from nothing_selectable_tally [OF this, of sent] assms(2) l show ?thesis by (simp split: pick.splits)
  next
    case False
    then show ?thesis using assms(1) sel l
      by (auto simp: pick_turn_def l_def take_next_def split: option.splits)
  qed
qed

lemma direct_failure_tally:
  assumes "direct_failure idx e l = (st, l')" "\<not> is_offline_error e"
  shows "(st = RetrySame \<or> st = Rotate) \<and>
    l_tally l' = (l_tally l)\<lparr>t_unknown_outcome := t_unknown_outcome (l_tally l) \<or> \<not> te_is_connect e\<rparr>"
  using assms by (auto simp: direct_failure_def Let_def unknown_outcome_def on_tally_def first_reset_recycle_def
      spend_transport_retry_def split: if_splits)

lemma plain_failure_attempt:
  assumes "after_send decode T rq s idx m l = (res, m', l')" "plain_failure (idx, s)"
  shows "res = Again \<and> (tally_of sent (l_tally l) \<longrightarrow> tally_of (sent @ [(idx, s)]) (l_tally l'))"
proof -
  obtain e where s: "s = Failed e Not_Carried" "\<not> is_offline_error e"
    using assms(2) by (auto simp: plain_failure_def split: send.splits)
  define l1 where "l1 = (if may_carry m (rq_provider rq) e (transport_failed l) then spend_peer_egress (transport_failed l)
    else transport_failed l)"
  obtain st l2 where d: "direct_failure idx e l1 = (st, l2)" by force
  have "transport_arm m (rq_provider rq) idx e Not_Carried l = (st, l2)"
    using d by (simp add: transport_arm_def Let_def l1_def split: if_splits)
  moreover have "l_tally l1 = (l_tally l)\<lparr>t_transport_failures := t_transport_failures (l_tally l) + 1\<rparr>"
    by (simp add: l1_def spend_peer_egress_def transport_failed_def on_tally_def)
  ultimately show ?thesis using assms(1) direct_failure_tally [OF d s(2)]
    by (auto simp: after_send_def s settle_def apply_step_def retry_same_def bench_def tally_of_def maybe_delivered_def
        split: send.splits)
qed

lemma turn_tally:
  assumes "turn decode T rq env w = (s, res, w')" "tally_of sent (l_tally (wk_ladder w))"
    "list_all plain_failure s" "tn_exit_lock env = None"
  shows "(case res of Again \<Rightarrow> tally_of (sent @ s) (l_tally (wk_ladder w'))
    | Answered ans \<Rightarrow> sent @ s \<noteq> [] \<longrightarrow> ans = bad_gateway (list_ex maybe_delivered (sent @ s)))"
proof -
  define w0 where "w0 = w\<lparr>wk_manager := tn_others env (wk_manager w)\<rparr>"
  obtain p w1 where pk: "pick_turn T rq env w0 = (p, w1)" by force
  have "tally_of sent (l_tally (wk_ladder w0))" using assms(2) by (simp add: w0_def)
  note pick = pick_turn_tally [OF pk this]
  show ?thesis
  proof (cases p)
    case (Serve_On i)
    obtain stage m1 where b: "before_send env i (wk_manager w1) = (stage, m1)" by force
    have t1: "tally_of sent (l_tally (wk_ladder w1))" using pick assms(2) Serve_On by (simp add: w0_def)
    show ?thesis
    proof (cases stage)
      case Benched
      with assms(1) t1 show ?thesis
        by (auto simp: turn_def w0_def [symmetric] pk Serve_On attempt_def b bench_def)
    next
      case (Exit_Answered st)
      with b assms(4) show ?thesis by (auto simp: before_send_def Let_def split: option.splits if_splits)
    next
      case (Send_On a)
      obtain r m l where at: "after_send decode T rq (tn_send env) i m1 (wk_ladder w1) = (r, m, l)"
        using prod_cases3 by blast
      have "s = [(i, tn_send env)]" "res = r" "wk_ladder w' = l"
        using assms(1) Send_On by (auto simp: turn_def w0_def [symmetric] pk Serve_On attempt_def b at)
      with plain_failure_attempt [OF at, of sent] assms(3) t1 show ?thesis by simp
    qed
  qed (use assms(1,2) pick in \<open>auto simp: turn_def w0_def [symmetric] pk\<close>, simp add: w0_def)
qed

lemma turns_tally:
  assumes "turns decode T rq env k fuel w = (s, x, w')" "tally_of sent (l_tally (wk_ladder w))"
    "list_all plain_failure s" "\<forall>k. tn_exit_lock (env k) = None"
  shows "(case x of None \<Rightarrow> tally_of (sent @ s) (l_tally (wk_ladder w'))
    | Some ans \<Rightarrow> sent @ s \<noteq> [] \<longrightarrow> ans = bad_gateway (list_ex maybe_delivered (sent @ s)))"
  using assms(1-3)
proof (induction fuel arbitrary: k w s sent)
  case (Suc fuel)
  obtain s1 res w1 where t: "turn decode T rq (env k) w = (s1, res, w1)" using prod_cases3 by blast
  show ?case
  proof (cases res)
    case (Answered a)
    with turn_tally [OF t Suc.prems(2)] Suc.prems(1,3) assms(4) t show ?thesis by auto
  next
    case Again
    obtain s2 x2 w2 where ts: "turns decode T rq env (Suc k) fuel w1 = (s2, x2, w2)" using prod_cases3 by blast
    have s: "s = s1 @ s2" "x = x2" "w' = w2" using Suc.prems(1) t Again ts by auto
    have "tally_of (sent @ s1) (l_tally (wk_ladder w1))"
      using turn_tally [OF t Suc.prems(2)] Suc.prems(3) assms(4) Again s by simp
    from Suc.IH [OF ts [folded s(2,3)] this] Suc.prems(3) s(1) show ?thesis by (simp split: option.splits)
  qed
qed simp

lemma out_of_attempts_verdict:
  assumes "\<And>m p now b strict. fst (ladder_verdict m p now b strict (wk_ladder w)) = Some a"
  shows "out_of_attempts T rq now w = a"
proof -
  let ?v = "ladder_verdict (wk_manager w) (rq_provider rq) now (wk_bound w) (strict_group (wk_manager w) (rq_group rq))
    (wk_ladder w)"
  have "?v = (Some a, snd ?v)" using assms by (simp add: prod_eq_iff)
  then show ?thesis by (metis (no_types, lifting) out_of_attempts_def case_prod_conv option.simps(5))
qed

text \<open>
  C18. What the client hears when no upstream was reached, with no exit lock. If a request was sent at least
  once and every send of it failed in transport, none of them for want of name resolution or of a network and none
  carried or tried by a peer, then whatever accounts it rotated through, in whatever order, and whether the walk
  ended by itself or on its attempt budget, the answer is decided by one thing: a send that may have been
  delivered makes it a 502 that forbids a retry, and otherwise it is a 503 that asks for one after five
  seconds. It is never a 429. (Where one send failed offline, the answer is another: \<open>offline_hides_unknown_outcome\<close>.)
\<close>

theorem unreachable_upstream_answer:
  assumes "handle_loop decode T rq env n w = (sent, ans)" and "l_tally (wk_ladder w) = tally_default"
    and "\<forall>k. tn_exit_lock (env k) = None" and "sent \<noteq> []" and "list_all plain_failure sent"
  shows "ans = (if list_ex maybe_delivered sent then Client_Error 502 Proxy None (Some False)
    else Client_Error 503 Proxy (Some 5) (Some True))"
proof -
  obtain s x w' where t: "turns decode T rq env 0 (max_attempts_for n) w = (s, x, w')" using prod_cases3 by blast
  have s: "s = sent" using assms(1) t by (auto simp: handle_loop_def split: option.splits)
  have "tally_of [] (l_tally (wk_ladder w))" by (simp add: assms(2) tally_of_def tally_default_def)
  note tal = turns_tally [OF t this assms(5) [folded s] assms(3)]
  have "ans = bad_gateway (list_ex maybe_delivered sent)"
  proof (cases x)
    case (Some a)
    with tal assms(1,4) t s show ?thesis by (simp add: handle_loop_def)
  next
    case None
    then have "tally_of sent (l_tally (wk_ladder w'))" using tal s by simp
    from out_of_attempts_verdict [OF verdict_unreached [OF this assms(4)]] assms(1) t None show ?thesis
      by (simp add: handle_loop_def)
  qed
  then show ?thesis by (simp add: bad_gateway_def OFFLINE_RETRY_AFTER_SECS_def)
qed


text \<open>Two accounts: the first send dies on the wire, its retry and the second account refuse the connection.\<close>

definition dying_then_refused :: "(nat \<times> send) list \<times> answer" where
  "dying_then_refused = handle_loop (\<lambda>_. None) sample_time messages_request
     (\<lambda>k. quiet_env (if k = 0 then broken_pipe else connect_refused)) 2 (fresh_walk two_claude)"

theorem unreachable_upstream_answer_witness:
  "map fst (fst dying_then_refused) = [0, 0, 1] \<and> snd dying_then_refused = Client_Error 502 Proxy None (Some False)"
proof -
  have run: "map fst (fst dying_then_refused) = [0, 0, 1] \<and> list_all plain_failure (fst dying_then_refused) \<and>
    list_ex maybe_delivered (fst dying_then_refused)" by code_simp
  have "handle_loop (\<lambda>_. None) sample_time messages_request
      (\<lambda>k. quiet_env (if k = 0 then broken_pipe else connect_refused)) 2 (fresh_walk two_claude)
      = (fst dying_then_refused, snd dying_then_refused)" by (simp add: dying_then_refused_def)
  from unreachable_upstream_answer [OF this] run show ?thesis
    by (auto simp: fresh_walk_def ladder_default_def quiet_env_def)
qed

section \<open>Where the code and its comments part\<close>

text \<open>A single offline failure hides an earlier send whose outcome is unknown: the client is told to retry a
  request that upstream may have served.\<close>

definition one_claude :: manager where
  "one_claude = sample_manager [(fresh_account ''a'' Anthropic)\<lparr>a_refresh_token := Some ''r''\<rparr>]"

theorem offline_hides_unknown_outcome:
  "let (sent, ans) = handle_loop (\<lambda>_. None) sample_time messages_request
       (\<lambda>k. quiet_env (if k = 0 then broken_pipe else no_resolver)) 1 (fresh_walk one_claude)
   in list_ex maybe_delivered sent \<and> ans = Client_Error 503 Proxy (Some 5) None"
  by code_simp

text \<open>One account can take ten sends of one request, one more than \<open>MAX_SENDS_PER_ACCOUNT\<close>: the soft wait
  re-admits a parked account whose other retries are spent.\<close>

definition reply :: "nat \<Rightarrow> (string \<times> string) list \<Rightarrow> refreshed \<Rightarrow> send" where
  "reply status hs r = Replied \<lparr>ck_now = 0, ck_nanos = 0, ck_after = 0, ck_after_ms = 0\<rparr> 0 r
     \<lparr>rs_status = status, rs_headers = map_of hs, rs_body = Some []\<rparr> False"

definition worn_sends :: "send list" where
  "worn_sends = [broken_pipe, broken_pipe, broken_pipe,
     reply 401 [] (Fresh_Tokens \<lparr>tk_access_token = ''n'', tk_refresh_token = Some ''r'', tk_expires_at_ms = 3600000\<rparr> None),
     reply 429 [(''retry-after'', ''1'')] No_New_Token, reply 429 [(''retry-after'', ''1'')] No_New_Token,
     reply 529 [] No_New_Token, reply 529 [] No_New_Token,
     reply 429 [(''retry-after'', ''16'')] No_New_Token, broken_pipe, reply 200 [] No_New_Token]"

definition worn_env :: "nat \<Rightarrow> turn_env" where
  "worn_env k = (quiet_env (worn_sends ! k))\<lparr>tn_woken_ms := 16000, tn_now := if k \<ge> 10 then 16000 * ns_per_ms else 0\<rparr>"

theorem sends_per_account_exceeded:
  "let (sent, ans) = handle_loop (\<lambda>_. None) sample_time messages_request worn_env 1 (fresh_walk one_claude)
   in map fst sent = replicate 10 0 \<and> 10 > MAX_SENDS_PER_ACCOUNT \<and> ans = Forwarded 200"
  by code_simp

end
