(* ===== verification/Pin_Store.thy ===== *)
theory Pin_Store
  imports Identity Select_Props
begin

text \<open>
  Session pins across a restart: \<^verbatim>\<open>src/affinity.rs\<close>, the snapshot and restore of
  \<^verbatim>\<open>src/manager/pins.rs\<close>, the reader of \<^verbatim>\<open>src/cache_file.rs\<close> and the gate of
  \<^verbatim>\<open>src/save_gate.rs\<close> that decides whether a periodic save writes. The JSON form of a pin follows its
  \<open>serde\<close> attributes (skipped and defaulted fields, a field given twice refused); turning a JSON value
  into text and back is third-party code, so the writer and the decoder of text are arguments.
\<close>

definition PIN_TTL_MS :: i64 where "PIN_TTL_MS = 15 * 60 * 1000"
definition PIN_CAP :: nat where "PIN_CAP = 1024"
definition FORMAT_VERSION :: int where "FORMAT_VERSION = 1"

section \<open>Stored pins\<close>

record stored_pin =
  sp_key :: session_key
  sp_name :: string
  sp_account_uuid :: "string option"
  sp_org_uuid :: "string option"
  sp_org_name :: "string option"
  sp_touched_at_ms :: i64
  sp_extended_ttl :: bool
  sp_provider :: provider

definition sp_probe :: "stored_pin \<Rightarrow> identity" where
  "sp_probe p = probe (sp_provider p) (sp_name p) (sp_account_uuid p) (sp_org_uuid p) (sp_org_name p)"

definition identity_of :: "account \<Rightarrow> identity" where
  "identity_of a = probe (a_provider a) (a_name a) (a_account_uuid a) (a_org_uuid a) (a_org_name a)"

definition restore_candidates :: "manager \<Rightarrow> identity list" where
  "restore_candidates m = map identity_of (m_accounts m)"

definition stored_pin_of :: "manager \<Rightarrow> session_key set \<Rightarrow> session_key \<times> nat \<times> i64 \<Rightarrow> stored_pin option" where
  "stored_pin_of m extended = (\<lambda>(key, idx, touched).
     map_option (\<lambda>a. \<lparr>sp_key = key, sp_name = a_name a, sp_account_uuid = a_account_uuid a, sp_org_uuid = a_org_uuid a,
         sp_org_name = a_org_name a, sp_touched_at_ms = touched, sp_extended_ttl = (key \<in> extended),
         sp_provider = a_provider a\<rparr>) (get (m_accounts m) idx))"

definition affinity_pin_snapshot :: "manager \<Rightarrow> stored_pin list \<times> manager" where
  "affinity_pin_snapshot m =
     (let pins = cm_map (m_affinity m) in
      if pins = [] then ([], m\<lparr>m_affinity_extended := capped_set_clear (m_affinity_extended m)\<rparr>)
      else
        let ext = capped_set_retain (\<lambda>k. k \<in> fst ` set pins) (m_affinity_extended m)
        in (List.map_filter (stored_pin_of m (cs_set ext)) pins, m\<lparr>m_affinity_extended := ext\<rparr>))"

text \<open>\<open>sort_by_key\<close> is stable, as \<open>sort_key\<close> is.\<close>

definition written_pins :: "stored_pin list \<Rightarrow> stored_pin list" where
  "written_pins pins =
     (let kept = (if length pins > PIN_CAP then take PIN_CAP (sort_key (\<lambda>p. - sp_touched_at_ms p) pins) else pins)
      in sort_key sp_key kept)"

section \<open>The JSON form\<close>

definition opt_field :: "string \<Rightarrow> string option \<Rightarrow> (string \<times> json) list" where
  "opt_field k v = (case v of None \<Rightarrow> [] | Some s \<Rightarrow> [(k, JStr s)])"

definition pin_to_json :: "stored_pin \<Rightarrow> json" where
  "pin_to_json p =
     JObj ([(''key'', JInt (uint (sp_key p))), (''name'', JStr (sp_name p))] @ opt_field ''accountUuid'' (sp_account_uuid p) @
       opt_field ''orgUuid'' (sp_org_uuid p) @ opt_field ''orgName'' (sp_org_name p) @
       [(''touchedAtMs'', JInt (sp_touched_at_ms p)), (''extendedTtl'', JBool (sp_extended_ttl p))] @
       (if is_anthropic (sp_provider p) then [] else [(''provider'', JStr (as_str (sp_provider p)))]))"

definition as_u64 :: "json \<Rightarrow> u64 option" where
  "as_u64 v = (case v of JInt n \<Rightarrow> if 0 \<le> n \<and> n < 2 ^ 64 then Some (word_of_int n) else None | _ \<Rightarrow> None)"

definition as_u32 :: "json \<Rightarrow> int option" where
  "as_u32 v = (case v of JInt n \<Rightarrow> if 0 \<le> n \<and> n < 2 ^ 32 then Some n else None | _ \<Rightarrow> None)"

text \<open>An optional field: absent gives the default, present must read.\<close>

definition field_or :: "'a \<Rightarrow> string \<Rightarrow> (json \<Rightarrow> 'a option) \<Rightarrow> json \<Rightarrow> 'a option" where
  "field_or d k f v = (case jget k v of None \<Rightarrow> Some d | Some w \<Rightarrow> f w)"

definition as_opt_string :: "json \<Rightarrow> string option option" where
  "as_opt_string v = (case v of JNull \<Rightarrow> Some None | JStr s \<Rightarrow> Some (Some s) | _ \<Rightarrow> None)"

definition as_provider :: "json \<Rightarrow> provider option" where
  "as_provider v = Option.bind (as_string v) from_name"

definition fields_once :: "string list \<Rightarrow> json \<Rightarrow> bool" where
  "fields_once ks v = (case v of JObj m \<Rightarrow> distinct (filter (\<lambda>k. k \<in> set ks) (map fst m)) | _ \<Rightarrow> False)"

definition pin_fields :: "string list" where
  "pin_fields = [''key'', ''name'', ''accountUuid'', ''orgUuid'', ''orgName'', ''touchedAtMs'', ''extendedTtl'', ''provider'']"

definition pin_from_json :: "json \<Rightarrow> stored_pin option" where
  "pin_from_json v =
     (if \<not> fields_once pin_fields v then None
      else case (jfield ''key'' as_u64 v, jfield ''name'' as_string v, field_or None ''accountUuid'' as_opt_string v,
                 field_or None ''orgUuid'' as_opt_string v, field_or None ''orgName'' as_opt_string v,
                 jfield ''touchedAtMs'' as_i64 v, field_or False ''extendedTtl'' as_bool v,
                 field_or Anthropic ''provider'' as_provider v) of
        (Some key, Some name, Some au, Some ou, Some on, Some touched, Some ext, Some p) \<Rightarrow>
          Some \<lparr>sp_key = key, sp_name = name, sp_account_uuid = au, sp_org_uuid = ou, sp_org_name = on,
                sp_touched_at_ms = touched, sp_extended_ttl = ext, sp_provider = p\<rparr>
      | _ \<Rightarrow> None)"

definition pin_file_json :: "i64 \<Rightarrow> stored_pin list \<Rightarrow> json" where
  "pin_file_json saved_at_ms pins =
     JObj [(''version'', JInt FORMAT_VERSION), (''savedAtMs'', JInt saved_at_ms), (''pins'', JArr (map pin_to_json pins))]"

fun all_some :: "'a option list \<Rightarrow> 'a list option" where
  "all_some [] = Some []"
| "all_some (None # xs) = None"
| "all_some (Some x # xs) = map_option ((#) x) (all_some xs)"

definition pin_file_from_json :: "json \<Rightarrow> stored_pin list option" where
  "pin_file_from_json v =
     (if \<not> fields_once [''version'', ''savedAtMs'', ''pins''] v then None
      else case (jfield ''version'' as_u32 v, jfield ''savedAtMs'' as_i64 v, jfield ''pins'' as_array v) of
        (Some _, Some _, Some pins) \<Rightarrow> all_some (map pin_from_json pins)
      | _ \<Rightarrow> None)"

section \<open>Reading the file\<close>

datatype file_read = Not_Found | Unreadable | Contents string

datatype 'a cache_read = Missing | Degraded | Read 'a

definition read_cache :: "(string \<Rightarrow> json option) \<Rightarrow> (json \<Rightarrow> 'a option) \<Rightarrow> int \<Rightarrow> file_read \<Rightarrow> 'a cache_read" where
  "read_cache decode from_json version f =
     (case f of
        Not_Found \<Rightarrow> Missing
      | Unreadable \<Rightarrow> Degraded
      | Contents data \<Rightarrow>
          (case decode data of
             None \<Rightarrow> Degraded
           | Some v \<Rightarrow>
               if \<not> fields_once [''version''] v then Degraded
               else (case jfield ''version'' as_u32 v of
                       None \<Rightarrow> Degraded
                     | Some n \<Rightarrow> if n \<noteq> version then Degraded
                                 else (case from_json v of Some file \<Rightarrow> Read file | None \<Rightarrow> Degraded))))"

record load_report =
  lr_pins :: "(session_key, nat \<times> i64) hash_map"
  lr_extended :: "session_key list"
  lr_expired :: nat
  lr_unresolved :: nat
  lr_ambiguous :: nat
  lr_degraded :: bool

definition report_default :: load_report where
  "report_default = \<lparr>lr_pins = [], lr_extended = [], lr_expired = 0, lr_unresolved = 0, lr_ambiguous = 0, lr_degraded = False\<rparr>"

definition pin_expired :: "i64 \<Rightarrow> i64 \<Rightarrow> stored_pin \<Rightarrow> bool" where
  "pin_expired now_ms ttl_ms p =
     (saturating_sub_i64 now_ms (sp_touched_at_ms p) > (if sp_extended_ttl p then EXTENDED_PIN_TTL_MS else ttl_ms))"

text \<open>The set of extended keys in the order of insertion.\<close>

fun load_pins :: "identity list \<Rightarrow> i64 \<Rightarrow> i64 \<Rightarrow> stored_pin list \<Rightarrow> load_report \<Rightarrow> load_report" where
  "load_pins accounts now_ms ttl_ms [] r = r"
| "load_pins accounts now_ms ttl_ms (p # ps) r =
     (if pin_expired now_ms ttl_ms p then load_pins accounts now_ms ttl_ms ps (r\<lparr>lr_expired := lr_expired r + 1\<rparr>)
      else
        let r' = (case resolve accounts (sp_probe p) of
                    One idx \<Rightarrow>
                      r\<lparr>lr_pins := hm_insert (sp_key p) (idx, sp_touched_at_ms p) (lr_pins r),
                        lr_extended := (if sp_extended_ttl p \<and> sp_key p \<notin> set (lr_extended r)
                                        then lr_extended r @ [sp_key p] else lr_extended r)\<rparr>
                  | Nobody \<Rightarrow> r\<lparr>lr_unresolved := lr_unresolved r + 1\<rparr>
                  | Many \<Rightarrow> r\<lparr>lr_ambiguous := lr_ambiguous r + 1\<rparr>)
        in if length (lr_pins r') \<ge> PIN_CAP then r' else load_pins accounts now_ms ttl_ms ps r')"

definition load :: "(string \<Rightarrow> json option) \<Rightarrow> file_read \<Rightarrow> identity list \<Rightarrow> i64 \<Rightarrow> i64 \<Rightarrow> load_report" where
  "load decode f accounts now_ms ttl_ms =
     (case read_cache decode pin_file_from_json FORMAT_VERSION f of
        Missing \<Rightarrow> report_default
      | Degraded \<Rightarrow> report_default\<lparr>lr_degraded := True\<rparr>
      | Read pins \<Rightarrow> load_pins accounts now_ms ttl_ms pins report_default)"

definition or_insert :: "'k \<times> 'v \<Rightarrow> ('k, 'v) hash_map \<Rightarrow> ('k, 'v) hash_map" where
  "or_insert kv m = (if hm_get m (fst kv) = None then hm_insert (fst kv) (snd kv) m else m)"

definition restore_affinity :: "(string \<Rightarrow> json option) \<Rightarrow> file_read \<Rightarrow> i64 \<Rightarrow> i64 \<Rightarrow> manager \<Rightarrow> load_report \<times> manager" where
  "restore_affinity decode f now_ms ttl_ms m =
     (let r = load decode f (restore_candidates m) now_ms ttl_ms
      in (r, m\<lparr>m_affinity := (m_affinity m)\<lparr>cm_map := fold or_insert (lr_pins r) (cm_map (m_affinity m))\<rparr>,
               m_affinity_extended := fold (\<lambda>k s. snd (capped_set_insert k s)) (lr_extended r) (m_affinity_extended m)\<rparr>))"

text \<open>\<open>flush_affinity\<close>: what lands in the file.\<close>

definition saved_text :: "(json \<Rightarrow> string) \<Rightarrow> i64 \<Rightarrow> manager \<Rightarrow> string" where
  "saved_text render now_ms m = render (pin_file_json now_ms (written_pins (fst (affinity_pin_snapshot m))))"

definition rename_pins :: "(string \<times> string) list \<Rightarrow> stored_pin list \<Rightarrow> nat \<times> stored_pin list" where
  "rename_pins renames pins =
     (length (filter (\<lambda>p. map_of renames (sp_name p) \<noteq> None) pins),
      map (\<lambda>p. case map_of renames (sp_name p) of Some to_name \<Rightarrow> p\<lparr>sp_name := to_name\<rparr> | None \<Rightarrow> p) pins)"

section \<open>The save gate\<close>

datatype save_outcome = Wrote nat | Unchanged | Deferred int

record written =
  wr_shape :: u64
  wr_content :: u64
  wr_at :: int

record save_gate =
  sg_refresh :: int
  sg_last :: "written option"

definition skip :: "u64 \<Rightarrow> u64 \<Rightarrow> int \<Rightarrow> save_gate \<Rightarrow> save_outcome option" where
  "skip shape content now g =
     (case sg_last g of
        None \<Rightarrow> None
      | Some w \<Rightarrow>
          if wr_content w = content then Some Unchanged
          else if wr_shape w \<noteq> shape then None
          else let due = wr_at w + sg_refresh g in if now < due then Some (Deferred due) else None)"

definition wrote :: "u64 \<Rightarrow> u64 \<Rightarrow> int \<Rightarrow> save_gate \<Rightarrow> save_gate" where
  "wrote shape content now g = g\<lparr>sg_last := Some \<lparr>wr_shape = shape, wr_content = content, wr_at = now\<rparr>\<rparr>"

text \<open>\<open>save_if_changed\<close>: \<open>res\<close> is what the write came to, a count or a failure.\<close>

definition save_if_changed :: "u64 \<Rightarrow> u64 \<Rightarrow> int \<Rightarrow> nat option \<Rightarrow> save_gate \<Rightarrow> save_outcome option \<times> save_gate" where
  "save_if_changed shape content now res g =
     (case skip shape content now g of
        Some skipped \<Rightarrow> (Some skipped, g)
      | None \<Rightarrow> (case res of None \<Rightarrow> (None, g) | Some n \<Rightarrow> (Some (Wrote n), wrote shape content now g)))"

section \<open>Lemmas\<close>

lemma as_u64_uint: "as_u64 (JInt (uint (w::u64))) = Some w"
  using uint_lt2p [of w] by (simp add: as_u64_def)

lemma as_opt_string_JStr [simp]: "as_opt_string (JStr s) = Some (Some s)"
  by (simp add: as_opt_string_def)

lemma pin_json_roundtrip: "in_i64 (sp_touched_at_ms p) \<Longrightarrow> pin_from_json (pin_to_json p) = Some p"
  by (cases p; cases "sp_account_uuid p"; cases "sp_org_uuid p"; cases "sp_org_name p"; cases "sp_provider p")
    (simp_all add: pin_from_json_def pin_to_json_def opt_field_def fields_once_def pin_fields_def jfield_def jget_def
      field_or_def as_u64_uint as_string_def as_i64_def as_bool_def as_provider_def from_name_as_str [of Codex, simplified])

lemma all_some_map: "(\<And>x. x \<in> set xs \<Longrightarrow> f (g x) = Some x) \<Longrightarrow> all_some (map (f \<circ> g) xs) = Some xs"
  by (induction xs) simp_all

lemma pin_file_roundtrip:
  assumes "in_i64 t" "\<And>p. p \<in> set pins \<Longrightarrow> in_i64 (sp_touched_at_ms p)"
  shows "pin_file_from_json (pin_file_json t pins) = Some pins"
  using all_some_map [of pins pin_from_json pin_to_json] assms pin_json_roundtrip
  by (simp add: pin_file_from_json_def pin_file_json_def fields_once_def jfield_def jget_def as_u32_def FORMAT_VERSION_def
      as_i64_def as_array_def)

lemma read_cache_saved:
  assumes "decode text = Some (pin_file_json t pins)" "in_i64 t" "\<And>p. p \<in> set pins \<Longrightarrow> in_i64 (sp_touched_at_ms p)"
  shows "read_cache decode pin_file_from_json FORMAT_VERSION (Contents text) = Read pins"
  using assms(1) pin_file_roundtrip [OF assms(2,3)]
  by (simp add: read_cache_def) (simp add: pin_file_json_def fields_once_def jfield_def jget_def as_u32_def FORMAT_VERSION_def)

text \<open>Where a stored pin comes back.\<close>

definition restored_to :: "identity list \<Rightarrow> i64 \<Rightarrow> i64 \<Rightarrow> stored_pin \<Rightarrow> nat option" where
  "restored_to accounts now_ms ttl_ms p =
     (if pin_expired now_ms ttl_ms p then None
      else case resolve accounts (sp_probe p) of One idx \<Rightarrow> Some idx | _ \<Rightarrow> None)"

lemma load_pins_result:
  assumes "distinct (map sp_key ps)" "sp_key ` set ps \<inter> fst ` set (lr_pins r) = {}"
    "sp_key ` set ps \<inter> set (lr_extended r) = {}" "length (lr_pins r) + length ps \<le> PIN_CAP"
  shows "lr_pins (load_pins accounts now ttl ps r) = lr_pins r @
      List.map_filter (\<lambda>p. map_option (\<lambda>i. (sp_key p, i, sp_touched_at_ms p)) (restored_to accounts now ttl p)) ps \<and>
    lr_extended (load_pins accounts now ttl ps r) = lr_extended r @
      List.map_filter (\<lambda>p. if restored_to accounts now ttl p \<noteq> None \<and> sp_extended_ttl p then Some (sp_key p) else None) ps"
  using assms
proof (induction ps arbitrary: r)
  case Nil
  then show ?case by (simp add: List.map_filter_def)
next
  case (Cons p ps)
  show ?case
  proof (cases "restored_to accounts now ttl p")
    case None
    define r' where "r' = (if pin_expired now ttl p then r\<lparr>lr_expired := lr_expired r + 1\<rparr>
      else if resolve accounts (sp_probe p) = Nobody then r\<lparr>lr_unresolved := lr_unresolved r + 1\<rparr>
      else r\<lparr>lr_ambiguous := lr_ambiguous r + 1\<rparr>)"
    have r': "lr_pins r' = lr_pins r" "lr_extended r' = lr_extended r" by (simp_all add: r'_def)
    have "length (lr_pins r) < PIN_CAP" using Cons.prems(4) by simp
    then have "load_pins accounts now ttl (p # ps) r = load_pins accounts now ttl ps r'"
      using None by (auto simp: r'_def restored_to_def Let_def split: resolved.splits if_splits)
    moreover from Cons.IH [of r'] Cons.prems r' None show ?thesis unfolding calculation
      by (simp add: List.map_filter_simps)
  next
    case (Some i)
    define r' where "r' = r\<lparr>lr_pins := hm_insert (sp_key p) (i, sp_touched_at_ms p) (lr_pins r),
      lr_extended := (if sp_extended_ttl p \<and> sp_key p \<notin> set (lr_extended r) then lr_extended r @ [sp_key p] else lr_extended r)\<rparr>"
    have fresh: "hm_insert (sp_key p) (i, sp_touched_at_ms p) (lr_pins r) = lr_pins r @ [(sp_key p, i, sp_touched_at_ms p)]"
      using Cons.prems(2) by (intro hm_insert_fresh) (auto simp: hm_get_None)
    have r': "lr_pins r' = lr_pins r @ [(sp_key p, i, sp_touched_at_ms p)]"
      "lr_extended r' = lr_extended r @ (if sp_extended_ttl p then [sp_key p] else [])"
      using Cons.prems(3) by (auto simp: r'_def fresh)
    have step: "load_pins accounts now ttl (p # ps) r =
      (if length (lr_pins r') \<ge> PIN_CAP then r' else load_pins accounts now ttl ps r')"
      using Some by (auto simp: r'_def restored_to_def Let_def split: resolved.splits if_splits)
    show ?thesis
    proof (cases "length (lr_pins r') \<ge> PIN_CAP")
      case True
      then have "ps = []" using Cons.prems(4) r' by (cases ps) simp_all
      with True step Some r' show ?thesis by (simp add: List.map_filter_simps)
    next
      case False
      have "lr_pins (load_pins accounts now ttl ps r') = lr_pins r' @
          List.map_filter (\<lambda>p. map_option (\<lambda>i. (sp_key p, i, sp_touched_at_ms p)) (restored_to accounts now ttl p)) ps \<and>
        lr_extended (load_pins accounts now ttl ps r') = lr_extended r' @
          List.map_filter (\<lambda>p. if restored_to accounts now ttl p \<noteq> None \<and> sp_extended_ttl p then Some (sp_key p) else None) ps"
        by (rule Cons.IH) (use Cons.prems r' in \<open>auto split: if_splits\<close>)
      with False step Some r' show ?thesis by (simp add: List.map_filter_simps)
    qed
  qed
qed

lemma hm_get_Cons: "hm_get (kv # m) k = (if k = fst kv then Some (snd kv) else hm_get m k)"
  by (cases kv) (simp add: hm_get_def)

lemma or_insert_all:
  "hm_get (fold or_insert kvs m) k = (case hm_get m k of Some v \<Rightarrow> Some v | None \<Rightarrow> hm_get kvs k)"
proof (induction kvs arbitrary: m)
  case (Cons kv kvs)
  then show ?case by (auto simp: or_insert_def hm_get_Cons split: option.splits)
qed (simp add: hm_get_def [of "[]"] split: option.splits)

lemma fresh_recency: "distinct ks \<Longrightarrow> set ks \<inter> set l = {} \<Longrightarrow> length ks + length l \<le> cap \<Longrightarrow>
  fold (recency_do cap) (map Insert ks) l = rev ks @ l"
  by (induction ks arbitrary: l) (auto simp: removeAll_id)

lemma capped_set_insert_all:
  assumes "distinct ks" "length ks \<le> AFFINITY_CAP"
  shows "cs_set (fold (\<lambda>k s. snd (capped_set_insert k s)) ks (capped_set_new AFFINITY_CAP)) = set ks"
proof -
  have "fold (\<lambda>k s. snd (capped_set_insert k s)) ks s = fold capped_set_do (map Insert ks) s" for s :: "'a capped_set"
    by (induction ks arbitrary: s) simp_all
  moreover have "recency AFFINITY_CAP (0 + length (map Insert ks)) (fold capped_set_do (map Insert ks) (capped_set_new AFFINITY_CAP))
      (fold (recency_do AFFINITY_CAP) (map Insert ks) [])"
    by (rule recency_run [OF recency_new]) (use assms(2) in \<open>simp_all add: AFFINITY_CAP_def i64_max_def\<close>)
  ultimately show ?thesis using fresh_recency [of ks "[]" AFFINITY_CAP] assms
    by (simp add: recency_def ordered_by_def)
qed

text \<open>The pin a session has after a restart: its account's new index, if the pin is fresh and the account's
  identity names exactly one row.\<close>

definition restart_pin :: "manager \<Rightarrow> manager \<Rightarrow> i64 \<Rightarrow> i64 \<Rightarrow> session_key \<Rightarrow> (nat \<times> i64) option" where
  "restart_pin m m' now_ms ttl_ms key =
     (case cm_get (m_affinity m) key of
        None \<Rightarrow> None
      | Some (i, touched) \<Rightarrow>
          (case get (m_accounts m) i of
             None \<Rightarrow> None
           | Some a \<Rightarrow>
               if saturating_sub_i64 now_ms touched >
                  (if key \<in> cs_set (m_affinity_extended m) then EXTENDED_PIN_TTL_MS else ttl_ms) then None
               else (case resolve (restore_candidates m') (identity_of a) of One j \<Rightarrow> Some (j, touched) | _ \<Rightarrow> None)))"

lemma length_map_filter: "length (List.map_filter f xs) \<le> length xs"
  by (simp add: List.map_filter_def)

lemma distinct_map_filter:
  "distinct (map g xs) \<Longrightarrow> (\<And>x y. f x = Some y \<Longrightarrow> h y = g x) \<Longrightarrow> distinct (map h (List.map_filter f xs))"
  by (induction xs) (auto simp: List.map_filter_simps set_map_filter image_iff split: option.splits)

lemma stored_pin_of_iff:
  "stored_pin_of m ext (k, i, t) = Some p \<longleftrightarrow> (\<exists>a. get (m_accounts m) i = Some a \<and> sp_key p = k \<and> sp_touched_at_ms p = t \<and>
     sp_extended_ttl p = (k \<in> ext) \<and> sp_probe p = identity_of a \<and> p = the (stored_pin_of m ext (k, i, t)))"
  by (cases "get (m_accounts m) i") (auto simp: stored_pin_of_def sp_probe_def identity_of_def)

lemma snapshot_pins:
  "set (fst (affinity_pin_snapshot m)) =
     {p. \<exists>x\<in>set (cm_map (m_affinity m)). stored_pin_of m (cs_set (m_affinity_extended m)) x = Some p}"
proof -
  define keys where "keys = fst ` set (cm_map (m_affinity m))"
  define ext where "ext = capped_set_retain (\<lambda>k. k \<in> keys) (m_affinity_extended m)"
  have "cs_set ext = cs_set (m_affinity_extended m) \<inter> keys" by (auto simp: ext_def capped_set_retain_def Let_def)
  then have "stored_pin_of m (cs_set ext) x = stored_pin_of m (cs_set (m_affinity_extended m)) x"
    if "x \<in> set (cm_map (m_affinity m))" for x
    using that by (cases x) (force simp: stored_pin_of_def keys_def intro!: option.map_cong)
  then show ?thesis
    by (auto simp: affinity_pin_snapshot_def Let_def set_map_filter ext_def [symmetric] keys_def [symmetric])
qed

lemma snapshot_distinct: "manager_ok m \<Longrightarrow> distinct (map sp_key (fst (affinity_pin_snapshot m)))"
  unfolding affinity_pin_snapshot_def Let_def
  by (auto simp: manager_ok_def cm_ok_def hm_ok_def stored_pin_of_def intro!: distinct_map_filter [of fst])

lemma written_pins_small:
  assumes "length pins \<le> PIN_CAP"
  shows "set (written_pins pins) = set pins" "length (written_pins pins) = length pins"
    "distinct (map sp_key pins) \<Longrightarrow> distinct (map sp_key (written_pins pins))"
  using assms by (simp_all add: written_pins_def Let_def distinct_map inj_on_def)

lemma stored_restart:
  assumes "manager_ok m" "stored_pin_of m (cs_set (m_affinity_extended m)) (k, i, t) = Some p"
    "(k, i, t) \<in> set (cm_map (m_affinity m))"
  shows "restart_pin m m' now ttl k = map_option (\<lambda>j. (j, t)) (restored_to (restore_candidates m') now ttl p)"
proof -
  obtain a where a: "get (m_accounts m) i = Some a" "sp_key p = k" "sp_touched_at_ms p = t" "sp_probe p = identity_of a"
    "sp_extended_ttl p = (k \<in> cs_set (m_affinity_extended m))"
    using assms(2) by (auto simp: stored_pin_of_iff)
  have "cm_get (m_affinity m) k = Some (i, t)"
    using assms(1,3) by (simp add: manager_ok_def cm_ok_def hm_get_in)
  with a show ?thesis
    by (simp add: restart_pin_def restored_to_def pin_expired_def split: resolved.splits)
qed

lemma restart_pin_stored:
  assumes "manager_ok m" "restart_pin m m' now ttl k = Some (j, t)"
  obtains i p where "(k, i, t) \<in> set (cm_map (m_affinity m))"
    "stored_pin_of m (cs_set (m_affinity_extended m)) (k, i, t) = Some p"
proof -
  obtain i a where "cm_get (m_affinity m) k = Some (i, t)" "get (m_accounts m) i = Some a"
    using assms(2) by (auto simp: restart_pin_def split: option.splits if_splits resolved.splits)
  then show thesis using assms(1) that
    by (force simp: manager_ok_def cm_ok_def hm_get_in stored_pin_of_def)
qed

text \<open>The pins a snapshot writes, and what the next process finds among them.\<close>

definition snapshot_of :: "manager \<Rightarrow> stored_pin list \<Rightarrow> bool" where
  "snapshot_of m ps \<longleftrightarrow> length ps \<le> PIN_CAP \<and> distinct (map sp_key ps) \<and>
     set ps = {p. \<exists>x\<in>set (cm_map (m_affinity m)). stored_pin_of m (cs_set (m_affinity_extended m)) x = Some p}"

lemma snapshot_written:
  assumes "manager_ok m" "length (cm_map (m_affinity m)) \<le> PIN_CAP"
  shows "snapshot_of m (written_pins (fst (affinity_pin_snapshot m)))"
proof -
  have "length (fst (affinity_pin_snapshot m)) \<le> PIN_CAP"
    using assms(2) length_map_filter [of _ "cm_map (m_affinity m)"]
    by (auto simp: affinity_pin_snapshot_def Let_def intro: order_trans)
  from written_pins_small [OF this] this show ?thesis
    using snapshot_distinct [OF assms(1)] snapshot_pins [of m] by (simp add: snapshot_of_def)
qed

lemma snapshot_found:
  assumes "manager_ok m" "snapshot_of m ps"
  shows "(\<exists>p\<in>set ps. sp_key p = key \<and> restored_to (restore_candidates m') now ttl p = Some j \<and> sp_touched_at_ms p = t) \<longleftrightarrow>
      restart_pin m m' now ttl key = Some (j, t)" (is "?found \<longleftrightarrow> ?restart")
proof
  assume ?found
  then obtain p k i u where p: "(k, i, u) \<in> set (cm_map (m_affinity m))"
    "stored_pin_of m (cs_set (m_affinity_extended m)) (k, i, u) = Some p"
    "sp_key p = key" "restored_to (restore_candidates m') now ttl p = Some j" "sp_touched_at_ms p = t"
    using assms(2) by (auto simp: snapshot_of_def)
  then have "k = key" "u = t" by (auto simp: stored_pin_of_iff)
  with stored_restart [OF assms(1) p(2,1), of m' now ttl] p(4) show ?restart by simp
next
  assume r: ?restart
  from restart_pin_stored [OF assms(1) this] obtain i p where p: "(key, i, t) \<in> set (cm_map (m_affinity m))"
    "stored_pin_of m (cs_set (m_affinity_extended m)) (key, i, t) = Some p" by blast
  have "p \<in> set ps" using p assms(2) by (auto simp: snapshot_of_def)
  moreover have "sp_key p = key" "sp_touched_at_ms p = t" using p(2) by (auto simp: stored_pin_of_iff)
  moreover have "restored_to (restore_candidates m') now ttl p = Some j"
    using stored_restart [OF assms(1) p(2,1), of m' now ttl] r
    by (cases "restored_to (restore_candidates m') now ttl p") simp_all
  ultimately show ?found by blast
qed

lemma snapshot_extended:
  "snapshot_of m ps \<Longrightarrow> p \<in> set ps \<Longrightarrow> sp_extended_ttl p = (sp_key p \<in> cs_set (m_affinity_extended m))"
  by (auto simp: snapshot_of_def stored_pin_of_def)

lemma restored_state:
  assumes "snapshot_of m ps" "load decode f (restore_candidates m') now ttl = load_pins (restore_candidates m') now ttl ps report_default"
    and fresh: "m_affinity m' = capped_map_new AFFINITY_CAP snd" "m_affinity_extended m' = capped_set_new AFFINITY_CAP"
    and "restore_affinity decode f now ttl m' = (r, m'')"
  shows "cm_get (m_affinity m'') k = Some (j, t) \<longleftrightarrow>
      (\<exists>p\<in>set ps. sp_key p = k \<and> restored_to (restore_candidates m') now ttl p = Some j \<and> sp_touched_at_ms p = t)"
    and "k \<in> cs_set (m_affinity_extended m'') \<longleftrightarrow>
      (\<exists>p\<in>set ps. sp_key p = k \<and> restored_to (restore_candidates m') now ttl p \<noteq> None \<and> sp_extended_ttl p)"
proof -
  let ?to = "restored_to (restore_candidates m') now ttl"
  define P where "P = (\<lambda>p. map_option (\<lambda>i. (sp_key p, i, sp_touched_at_ms p)) (?to p))"
  define E where "E = (\<lambda>p. if ?to p \<noteq> None \<and> sp_extended_ttl p then Some (sp_key p) else None)"
  have ps: "distinct (map sp_key ps)" "length ps \<le> PIN_CAP" using assms(1) by (simp_all add: snapshot_of_def)
  have r: "r = load_pins (restore_candidates m') now ttl ps report_default"
    using assms(2,5) by (simp add: restore_affinity_def Let_def)
  have pins: "lr_pins r = List.map_filter P ps" and exts: "lr_extended r = List.map_filter E ps"
    using load_pins_result [of ps report_default "restore_candidates m'" now ttl] ps
    by (simp_all add: r report_default_def P_def E_def)
  have "P p = Some y \<Longrightarrow> fst y = sp_key p" "E p = Some z \<Longrightarrow> z = sp_key p" for p y z
    by (auto simp: P_def E_def split: if_splits)
  then have dp: "hm_ok (lr_pins r)" and de: "distinct (lr_extended r)"
    using distinct_map_filter [OF ps(1), of P fst] distinct_map_filter [OF ps(1), of E "\<lambda>x. x"]
    by (simp_all add: pins exts hm_ok_def)
  have len: "length (lr_extended r) \<le> AFFINITY_CAP"
    using length_map_filter [of E ps] ps(2) by (simp add: exts PIN_CAP_def AFFINITY_CAP_def)
  have lists: "cm_map (m_affinity m'') = fold or_insert (lr_pins r) []"
    "m_affinity_extended m'' = fold (\<lambda>k s. snd (capped_set_insert k s)) (lr_extended r) (capped_set_new AFFINITY_CAP)"
    using assms(5) by (auto simp: restore_affinity_def Let_def fresh capped_map_new_def)
  have get: "cm_get (m_affinity m'') k = hm_get (lr_pins r) k"
    using or_insert_all [of "lr_pins r" "[]" k] by (simp add: lists(1)) (simp add: hm_get_def)
  have ext: "cs_set (m_affinity_extended m'') = set (lr_extended r)"
    unfolding lists(2) by (rule capped_set_insert_all [OF de len])
  show "cm_get (m_affinity m'') k = Some (j, t) \<longleftrightarrow> (\<exists>p\<in>set ps. sp_key p = k \<and> ?to p = Some j \<and> sp_touched_at_ms p = t)"
    unfolding get hm_get_in [OF dp] by (auto simp: pins set_map_filter P_def)
  show "k \<in> cs_set (m_affinity_extended m'') \<longleftrightarrow> (\<exists>p\<in>set ps. sp_key p = k \<and> ?to p \<noteq> None \<and> sp_extended_ttl p)"
    by (auto simp: ext exts set_map_filter E_def)
qed

text \<open>
  C21. Session pins survive a restart exactly. Written by one process and read back by the next, which
  may have its accounts in another order, fewer or more of them, a session is pinned afterwards if and
  only if it was pinned before, its pin is younger than the restore window (the long one if the session
  asked for the one-hour cache), and the identity of its account names exactly one account of the new
  fleet; then it is pinned to that account with its old touch time, and it keeps its long window. No
  other session is pinned.
\<close>

theorem restart_keeps_pins:
  assumes ok: "manager_ok m" and small: "length (cm_map (m_affinity m)) \<le> PIN_CAP"
    and ints: "in_i64 saved_at" "\<forall>(_, _, t)\<in>set (cm_map (m_affinity m)). in_i64 t"
    and codec: "decode (saved_text render saved_at m) =
      Some (pin_file_json saved_at (written_pins (fst (affinity_pin_snapshot m))))"
    and fresh: "m_affinity m' = capped_map_new AFFINITY_CAP snd" "m_affinity_extended m' = capped_set_new AFFINITY_CAP"
    and restored: "restore_affinity decode (Contents (saved_text render saved_at m)) now ttl m' = (r, m'')"
  shows "cm_get (m_affinity m'') key = restart_pin m m' now ttl key \<and>
    (key \<in> cs_set (m_affinity_extended m'') \<longleftrightarrow>
       restart_pin m m' now ttl key \<noteq> None \<and> key \<in> cs_set (m_affinity_extended m))"
proof -
  define ps where "ps = written_pins (fst (affinity_pin_snapshot m))"
  have snap: "snapshot_of m ps" unfolding ps_def by (rule snapshot_written [OF ok small])
  then have "p \<in> set ps \<Longrightarrow> in_i64 (sp_touched_at_ms p)" for p
    using ints(2) by (auto simp: snapshot_of_def stored_pin_of_def)
  then have "read_cache decode pin_file_from_json FORMAT_VERSION (Contents (saved_text render saved_at m)) = Read ps"
    using codec ints(1) unfolding ps_def [symmetric] by (intro read_cache_saved)
  then have "load decode (Contents (saved_text render saved_at m)) (restore_candidates m') now ttl =
    load_pins (restore_candidates m') now ttl ps report_default" by (simp add: load_def)
  note state = restored_state [OF snap this fresh restored, of key]
  have found: "cm_get (m_affinity m'') key = Some (j, t) \<longleftrightarrow> restart_pin m m' now ttl key = Some (j, t)" for j t
    using state(1) snapshot_found [OF ok snap] by blast
  then have "cm_get (m_affinity m'') key = restart_pin m m' now ttl key" by (metis option.exhaust prod.exhaust)
  moreover have "key \<in> cs_set (m_affinity_extended m'') \<longleftrightarrow>
      restart_pin m m' now ttl key \<noteq> None \<and> key \<in> cs_set (m_affinity_extended m)"
    unfolding state(2) using snapshot_found [OF ok snap, of key m' now ttl] snapshot_extended [OF snap]
    by (metis (no_types, lifting) not_None_eq prod.exhaust)
  ultimately show ?thesis by blast
qed

text \<open>Two accounts of one person in two organizations, swapped across the restart; session 7 is pinned to
  the second.\<close>

definition seat :: "string \<Rightarrow> account" where
  "seat org = (fresh_account (''me@example.com/'' @ org) Anthropic)\<lparr>a_account_uuid := Some ''u1'', a_org_uuid := Some org\<rparr>"

definition before_restart :: manager where
  "before_restart = (sample_manager [seat ''a'', seat ''b''])\<lparr>
     m_affinity := snd (capped_insert 7 (1, 1000) (capped_map_new AFFINITY_CAP snd)),
     m_affinity_extended := snd (capped_set_insert 7 (capped_set_new AFFINITY_CAP))\<rparr>"

definition after_restart :: manager where "after_restart = sample_manager [seat ''b'', seat ''a'']"

definition pin_file :: json where
  "pin_file = pin_file_json 2000 (written_pins (fst (affinity_pin_snapshot before_restart)))"

theorem restart_keeps_pins_witness:
  "cm_get (m_affinity (snd (restore_affinity (\<lambda>_. Some pin_file) (Contents ''pins'') 3000 PIN_TTL_MS after_restart))) 7 = Some (0, 1000)"
proof -
  let ?r = "restore_affinity (\<lambda>_. Some pin_file) (Contents (saved_text (\<lambda>_. ''pins'') 2000 before_restart)) 3000 PIN_TTL_MS after_restart"
  have ok: "manager_ok before_restart" "length (cm_map (m_affinity before_restart)) \<le> PIN_CAP" by code_simp+
  have ints: "in_i64 2000" "\<forall>(_, _, t)\<in>set (cm_map (m_affinity before_restart)). in_i64 t"
    by code_simp+
  have "restart_pin before_restart after_restart 3000 PIN_TTL_MS 7 = Some (0, 1000)" by code_simp
  moreover have "cm_get (m_affinity (snd ?r)) 7 = restart_pin before_restart after_restart 3000 PIN_TTL_MS 7"
    using restart_keeps_pins [OF ok ints, of "\<lambda>_. Some pin_file" "\<lambda>_. ''pins''" after_restart 3000 PIN_TTL_MS "fst ?r" "snd ?r" 7]
    by (simp add: pin_file_def after_restart_def sample_manager_def)
  ultimately show ?thesis by (simp add: saved_text_def)
qed

end
