(* ===== verification/Config_Reload.thy ===== *)
theory Config_Reload
  imports Account_Props Pin_Store
begin

text \<open>
  The reload of a config file another process edited (\<open>apply_group_reload\<close> in \<^verbatim>\<open>src/manager/mod.rs\<close>): which
  rows of the running fleet the file still has, which it lost, which it has again, and which it gained. A row the
  file lost keeps its index, marked and disabled, until a restart; the rest of the proxy is kept away from it by
  those two flags and by the control index. Reading the file and its modification time are I/O; a reload here is
  given the parsed file. The group colours and the rebuilt network clients are left out.
\<close>

section \<open>The file\<close>

record fresh_row =
  fr_identity :: identity
  fr_type :: account_type
  fr_priority :: "i64 option"
  fr_disabled :: "bool option"
  fr_groups :: "string list option"
  fr_switch_threshold :: "f64 option"
  fr_access_token :: string
  fr_refresh_token :: "string option"
  fr_expires_at :: "i64 option"
  fr_row :: config_row

record fresh_config =
  fc_rows :: "fresh_row list"
  fc_groups :: group_policy
  fc_control :: "string option"

definition normalize_expires_at :: "i64 \<Rightarrow> i64" where
  "normalize_expires_at v = (if v < 1000000000000 then wrap64 (v * 1000) else v)"

text \<open>\<open>AccountRuntime::from_config\<close>.\<close>

definition account_from_config :: "fresh_row \<Rightarrow> account" where
  "account_from_config r =
     (fresh_account (id_name (fr_identity r)) (id_provider (fr_identity r)))
       \<lparr>a_type := fr_type r, a_account_uuid := id_account_uuid (fr_identity r), a_org_uuid := id_org_uuid (fr_identity r),
        a_org_name := id_org_name (fr_identity r), a_priority := unwrap_or (fr_priority r) 0,
        a_disabled := unwrap_or (fr_disabled r) False, a_groups := unwrap_or (fr_groups r) [],
        a_switch_threshold := fr_switch_threshold r, a_access_token := fr_access_token r,
        a_refresh_token := fr_refresh_token r, a_expires_at_ms := map_option normalize_expires_at (fr_expires_at r)\<rparr>"

section \<open>The reload\<close>

text \<open>The first row of the file that is the same account.\<close>

definition matched_row :: "fresh_config \<Rightarrow> account \<Rightarrow> fresh_row option" where
  "matched_row f a = find (\<lambda>r. same_identity (identity_of a) (fr_identity r)) (fc_rows f)"

text \<open>The row at one index, and the control index it may clear or take back.\<close>

definition reload_row :: "fresh_config \<Rightarrow> nat \<Rightarrow> account \<Rightarrow> nat option \<Rightarrow> account \<times> nat option" where
  "reload_row f idx a ctl =
     (case matched_row f a of
        None \<Rightarrow>
          if a_removed a then (a, ctl)
          else (a\<lparr>a_removed := True, a_disabled := True\<rparr>, if ctl = Some idx then None else ctl)
      | Some r \<Rightarrow>
          (let (a1, ctl1) =
             (if a_removed a
              then (a\<lparr>a_removed := False, a_disabled := unwrap_or (fr_disabled r) False,
                      a_access_token := fr_access_token r, a_refresh_token := fr_refresh_token r,
                      a_expires_at_ms := map_option normalize_expires_at (fr_expires_at r)\<rparr>,
                    if fc_control f = Some (a_name a) \<and> ctl = None then Some idx else ctl)
              else (a, ctl))
           in (a1\<lparr>a_groups := unwrap_or (fr_groups r) []\<rparr>, ctl1)))"

fun reload_rows :: "fresh_config \<Rightarrow> nat \<Rightarrow> account list \<Rightarrow> nat option \<Rightarrow> account list \<times> nat option" where
  "reload_rows f idx [] ctl = ([], ctl)"
| "reload_rows f idx (a # as) ctl =
     (let (a', ctl') = reload_row f idx a ctl; (as', ctl'') = reload_rows f (Suc idx) as ctl' in (a' # as', ctl''))"

text \<open>A row the file gained is appended, on the runtime side and on the config side alike.\<close>

definition admit_row :: "fresh_row \<Rightarrow> manager \<Rightarrow> manager" where
  "admit_row r m =
     (if list_ex (\<lambda>a. same_identity (identity_of a) (fr_identity r)) (m_accounts m) then m
      else m\<lparr>m_accounts := m_accounts m @ [account_from_config r],
             m_config_accounts := m_config_accounts m @ [fr_row r]\<rparr>)"

definition apply_group_reload :: "fresh_config \<Rightarrow> manager \<Rightarrow> manager" where
  "apply_group_reload f m =
     (let (rows, ctl) = reload_rows f 0 (m_accounts m) (m_control_idx m)
      in fold admit_row (fc_rows f)
           (m\<lparr>m_groups := fc_groups f, m_accounts := rows, m_control_idx := ctl\<rparr>))"

section \<open>Choosing the control account\<close>

text \<open>\<open>match_listed\<close>: the rows of that name that are not deleted.\<close>

definition match_listed :: "account list \<Rightarrow> string \<Rightarrow> query_match" where
  "match_listed accounts query =
     (case filter (\<lambda>i. \<not> a_removed (accounts ! i)) (match_accounts (map a_name accounts) query) of
        [] \<Rightarrow> Match_None
      | [only] \<Rightarrow> Match_One only
      | many \<Rightarrow> Ambiguous (map (\<lambda>i. a_name (accounts ! i)) many))"

datatype set_control_outcome = Sets "nat option" | Codex_Account string | No_Such | Several "string list"

text \<open>\<open>set_control_by_query\<close> up to the release of the accounts lock; the write of the control index comes later,
  under its own lock.\<close>

definition resolve_control :: "manager \<Rightarrow> string option \<Rightarrow> set_control_outcome" where
  "resolve_control m query =
     (case query of
        None \<Rightarrow> Sets None
      | Some q \<Rightarrow>
          (case match_listed (m_accounts m) q of
             Match_One idx \<Rightarrow>
               (case a_provider (m_accounts m ! idx) of
                  Anthropic \<Rightarrow> Sets (Some idx)
                | Codex \<Rightarrow> Codex_Account (a_name (m_accounts m ! idx)))
           | Match_None \<Rightarrow> No_Such
           | Ambiguous names \<Rightarrow> Several names))"

definition set_control :: "nat option \<Rightarrow> manager \<Rightarrow> manager" where
  "set_control idx m = m\<lparr>m_control_idx := idx\<rparr>"

section \<open>Histories of a fleet\<close>

datatype fleet_op =
    Reload fresh_config
  | On_Account nat account_op
  | Routed router_call
  | Control_Written "nat option"

fun fleet_do :: "time_lib \<Rightarrow> fleet_op \<Rightarrow> manager \<Rightarrow> manager" where
  "fleet_do T (Reload f) m = apply_group_reload f m"
| "fleet_do T (On_Account idx x) m = update_account idx (account_do T x) m"
| "fleet_do T (Routed call) m = snd (route call m)"
| "fleet_do T (Control_Written idx) m = set_control idx m"

definition fleet_run :: "time_lib \<Rightarrow> fleet_op list \<Rightarrow> manager \<Rightarrow> manager" where
  "fleet_run T ops m = fold (fleet_do T) ops m"

text \<open>Every reload is of a file without the account, and nobody writes its index as the control account.\<close>

fun stays_deleted :: "identity \<Rightarrow> nat \<Rightarrow> fleet_op \<Rightarrow> bool" where
  "stays_deleted who i (Reload f) = list_all (\<lambda>r. \<not> same_identity who (fr_identity r)) (fc_rows f)"
| "stays_deleted who i (On_Account idx x) = op_ok x"
| "stays_deleted who i (Routed call) = True"
| "stays_deleted who i (Control_Written idx) = (idx \<noteq> Some i)"

section \<open>What the operations keep\<close>

definition row_id :: "account \<Rightarrow> bool \<times> identity" where
  "row_id a = (a_removed a, identity_of a)"

lemma row_id_fold_quota: "row_id (snd (fold_quota T now h st refusal a)) = row_id a"
  by (auto simp: fold_quota_def row_id_def identity_of_def Let_def split: prod.splits)

lemma row_id_probes:
  "row_id (probe_failed t http tmo msg retry a) = row_id a" "row_id (probe_succeeded T clk t u a) = row_id a"
  by (auto simp: probe_failed_def probe_succeeded_def account_apply_usage_def note_5xx_probe_def record_probe_def
      row_id_def identity_of_def Let_def split: probe_status.splits)

lemma row_id_warm: "row_id (warm_account T now t outcome a) = row_id a"
proof (cases outcome)
  case (Some h)
  obtain read a1 where f: "fold_quota T now h 200 None a = (read, a1)" by force
  then have "row_id a1 = row_id a" using row_id_fold_quota [of T now h 200 None a] by simp
  then show ?thesis using Some f
    by (auto simp: warm_account_def record_warm_without_evidence_def rearm_warm_evidence_cooldown_if_excluded_def
        row_id_def identity_of_def Let_def)
qed (simp add: warm_account_def record_warm_failure_def rearm_warm_evidence_cooldown_if_excluded_def row_id_def identity_of_def)

lemma row_id_do [simp]: "row_id (account_do T x a) = row_id a"
proof (cases x)
  case (Set_Disabled d)
  then show ?thesis by (auto simp: account_set_disabled_def row_id_def identity_of_def unwrap_or_def Let_def)
next
  case Cleared
  then show ?thesis by (simp add: clear_rate_limited_def row_id_def identity_of_def Let_def)
qed (simp_all add: row_id_fold_quota row_id_probes row_id_warm,
    simp_all add: mark_model_weekly_rejected_def record_usage_def record_served_def mark_rate_limited_def
      mark_codex_quota_limited_def mark_refused_def record_stream_error_def account_enter_def account_exit_def mark_error_def
      grow_error_backoff_def apply_refresh_def row_id_def identity_of_def Let_def)

text \<open>The account at an index stays deleted: marked, disabled, itself, and not the control account. Every row
  of the fleet stays in range beside it.\<close>

definition out_of_service :: "identity \<Rightarrow> nat \<Rightarrow> manager \<Rightarrow> bool" where
  "out_of_service who i m \<longleftrightarrow>
     (\<forall>a\<in>set (m_accounts m). account_ok a) \<and> control m \<noteq> Some i \<and>
     (\<exists>a. get (m_accounts m) i = Some a \<and> row_id a = (True, who))"

lemma account_ok_from_config: "account_ok (account_from_config r)"
  by (simp add: account_from_config_def account_ok_def fresh_account_def hold_ok_def MAX_SERVES_PER_CONNECTION_def)

lemma account_ok_reload_row: "account_ok a \<Longrightarrow> account_ok (fst (reload_row f idx a ctl))"
  by (auto simp: reload_row_def account_ok_def hold_ok_def split: option.splits)

lemma get_list [simp]: "get [] i = None" "get (x # xs) 0 = Some x" "get (x # xs) (Suc i) = get xs i"
  by (simp_all add: get_def)

lemma reload_row_index: "fst (reload_row f j a c) = fst (reload_row f k a c')"
  by (simp add: reload_row_def split: option.splits)

lemma reload_rows_get:
  "get (fst (reload_rows f idx as ctl)) i = map_option (\<lambda>a. fst (reload_row f (idx + i) a c)) (get as i)"
proof (induction as arbitrary: idx ctl i c)
  case (Cons a as)
  show ?case
  proof (cases i)
    case 0
    then show ?thesis using reload_row_index [of f idx a ctl idx c] by (simp add: split_beta Let_def)
  next
    case (Suc n)
    then show ?thesis using Cons.IH [of "Suc idx" _ n c] by (simp add: split_beta Let_def)
  qed
qed simp

lemma reload_rows_ok: "\<forall>a\<in>set as. account_ok a \<Longrightarrow> \<forall>a\<in>set (fst (reload_rows f idx as ctl)). account_ok a"
  by (induction as arbitrary: idx ctl) (auto simp: split_beta Let_def account_ok_reload_row)

lemma matched_row_None: "list_all (\<lambda>r. \<not> same_identity (identity_of a) (fr_identity r)) (fc_rows f) \<Longrightarrow> matched_row f a = None"
  by (auto simp: matched_row_def find_None_iff list_all_iff)

text \<open>A reload that does not have the row leaves the control index off it.\<close>

lemma reload_row_control:
  assumes "snd (reload_row f idx a ctl) = Some i" and "idx = i \<Longrightarrow> matched_row f a = None"
  shows "ctl = Some i \<and> (idx = i \<longrightarrow> a_removed a)"
  using assms by (auto simp: reload_row_def split: option.splits if_splits)

lemma reload_rows_control:
  assumes "snd (reload_rows f idx as ctl) = Some i" and "\<And>a. idx \<le> i \<Longrightarrow> get as (i - idx) = Some a \<Longrightarrow> matched_row f a = None"
  shows "ctl = Some i \<and> (\<forall>a. idx \<le> i \<longrightarrow> get as (i - idx) = Some a \<longrightarrow> a_removed a)"
  using assms
proof (induction as arbitrary: idx ctl)
  case (Cons a as)
  obtain a' ctl' where r: "reload_row f idx a ctl = (a', ctl')" by force
  have shift: "get (a # as) (i - idx) = get as (i - Suc idx)" if "Suc idx \<le> i"
  proof -
    have "i - idx = Suc (i - Suc idx)" using that by simp
    then show ?thesis by simp
  qed
  have rest: "ctl' = Some i \<and> (\<forall>b. Suc idx \<le> i \<longrightarrow> get as (i - Suc idx) = Some b \<longrightarrow> a_removed b)"
  proof (rule Cons.IH)
    show "snd (reload_rows f (Suc idx) as ctl') = Some i" using Cons.prems(1) r by (simp add: split_beta Let_def)
    show "matched_row f b = None" if "Suc idx \<le> i" "get as (i - Suc idx) = Some b" for b
      using Cons.prems(2) [of b] that shift by simp
  qed
  have "matched_row f a = None" if "idx = i" using Cons.prems(2) [of a] that by simp
  with rest reload_row_control [of f idx a ctl i] r have "ctl = Some i \<and> (idx = i \<longrightarrow> a_removed a)" by simp
  then show ?case using rest shift by (cases "idx = i") (auto simp: not_less_eq_eq [symmetric])
qed simp

lemma admit_row_keeps:
  assumes "\<forall>a\<in>set (m_accounts m). account_ok a" and "get (m_accounts m) i = Some a"
  shows "(\<forall>b\<in>set (m_accounts (admit_row r m)). account_ok b) \<and> get (m_accounts (admit_row r m)) i = Some a \<and>
    m_control_idx (admit_row r m) = m_control_idx m"
  using assms by (auto simp: admit_row_def account_ok_from_config get_def nth_append)

lemma admit_rows_keep:
  "\<forall>a\<in>set (m_accounts m). account_ok a \<Longrightarrow> get (m_accounts m) i = Some a \<Longrightarrow>
   (\<forall>b\<in>set (m_accounts (fold admit_row rs m)). account_ok b) \<and> get (m_accounts (fold admit_row rs m)) i = Some a \<and>
    m_control_idx (fold admit_row rs m) = m_control_idx m"
proof (induction rs arbitrary: m)
  case (Cons r rs)
  from Cons.IH [of "admit_row r m"] admit_row_keeps [OF Cons.prems, of r] show ?case by simp
qed simp

text \<open>The reload that does not find a row puts it out of service, and keeps it there.\<close>

lemma reload_deletes:
  assumes "\<forall>a\<in>set (m_accounts m). account_ok a" and a: "get (m_accounts m) i = Some a"
    and "list_all (\<lambda>r. \<not> same_identity (identity_of a) (fr_identity r)) (fc_rows f)"
    and "a_removed a \<longrightarrow> control m \<noteq> Some i"
  shows "out_of_service (identity_of a) i (apply_group_reload f m)"
proof -
  obtain rows ctl where r: "reload_rows f 0 (m_accounts m) (m_control_idx m) = (rows, ctl)" by force
  define m1 where "m1 = m\<lparr>m_groups := fc_groups f, m_accounts := rows, m_control_idx := ctl\<rparr>"
  have none: "matched_row f a = None" using assms(3) by (rule matched_row_None)
  have row: "get (m_accounts m1) i = Some (fst (reload_row f i a None))"
    using reload_rows_get [of f 0 "m_accounts m" "m_control_idx m" i None] a r by (simp add: m1_def)
  have ok: "\<forall>b\<in>set (m_accounts m1). account_ok b" using reload_rows_ok [OF assms(1), of f 0 "m_control_idx m"] r by (simp add: m1_def)
  have "ctl \<noteq> Some i"
    using reload_rows_control [of f 0 "m_accounts m" "m_control_idx m" i] r a none assms(4) by (auto simp: control_def)
  with admit_rows_keep [OF ok row, of "fc_rows f"] none show ?thesis
    by (auto simp: out_of_service_def apply_group_reload_def r m1_def [symmetric] control_def reload_row_def row_id_def identity_of_def)
      (simp_all add: m1_def)
qed

lemma row_id_unstamped [simp]: "row_id (unstamped a) = row_id a" "account_ok (unstamped a) = account_ok a"
  by (simp_all add: row_id_def identity_of_def unstamped_def account_ok_def hold_ok_def)

lemma out_of_service_view:
  assumes "fleet_view m' = fleet_view m"
  shows "out_of_service who i m' = out_of_service who i m"
proof -
  have row: "(\<exists>a. get (m_accounts x) i = Some a \<and> row_id a = (True, who)) \<longleftrightarrow>
      is_some_and (map_option unstamped (get (m_accounts x) i)) (\<lambda>a. row_id a = (True, who))" for x
    by (cases "get (m_accounts x) i") simp_all
  have ok: "(\<forall>a\<in>set (m_accounts x). account_ok a) \<longleftrightarrow> list_all account_ok (map unstamped (m_accounts x))" for x
    by (simp add: list_all_iff)
  have "m_control_idx m' = m_control_idx m" "map unstamped (m_accounts m') = map unstamped (m_accounts m)"
    using assms by (simp_all add: fleet_view_def)
  then show ?thesis unfolding out_of_service_def row ok control_def fleet_view_get [OF assms, of i] by simp
qed

lemma route_view: "fleet_view (snd (route call m)) = fleet_view m"
proof (cases call)
  case (Normal tried now model aff path ck grp)
  then show ?thesis using call_frame_select [of aff m tried now model path ck grp] by (simp add: call_frame_def)
qed (simp add: frame_revalidation)

lemma out_of_service_do:
  assumes "out_of_service who i m" and "stays_deleted who i x"
  shows "out_of_service who i (fleet_do T x m)"
proof (cases x)
  case (Reload f)
  obtain a where a: "get (m_accounts m) i = Some a" "row_id a = (True, who)" using assms(1) by (auto simp: out_of_service_def)
  with assms Reload reload_deletes [OF _ a(1), of f] show ?thesis by (auto simp: out_of_service_def row_id_def)
next
  case (On_Account idx y)
  obtain a where a: "get (m_accounts m) i = Some a" "row_id a = (True, who)" using assms(1) by (auto simp: out_of_service_def)
  show ?thesis
  proof (cases "get (m_accounts m) idx")
    case (Some b)
    then have "account_ok b" using assms(1) get_in_set [of "m_accounts m" idx b] by (simp add: out_of_service_def)
    then have "account_ok (account_do T y b)" using account_ok_do assms(2) On_Account by simp
    then have "\<forall>c\<in>set ((m_accounts m)[idx := account_do T y b]). account_ok c"
      using assms(1) set_update_subset_insert [of "m_accounts m" idx] by (fastforce simp: out_of_service_def)
    moreover have "fleet_do T x m = m\<lparr>m_accounts := (m_accounts m)[idx := account_do T y b]\<rparr>"
      using On_Account Some by (simp add: update_account_def)
    ultimately show ?thesis using Some a assms(1) by (auto simp: out_of_service_def get_list_update control_def)
  qed (use On_Account assms(1) in \<open>simp add: update_account_def\<close>)
next
  case (Routed call)
  then show ?thesis using out_of_service_view [OF route_view] assms(1) by simp
next
  case (Control_Written idx)
  then show ?thesis using assms by (auto simp: out_of_service_def set_control_def control_def)
qed

lemma out_of_service_run:
  "list_all (stays_deleted who i) ops \<Longrightarrow> out_of_service who i m \<Longrightarrow> out_of_service who i (fleet_run T ops m)"
  by (induction ops arbitrary: m) (simp_all add: fleet_run_def out_of_service_do)

section \<open>A deleted account is never served\<close>

lemma out_of_service_select:
  assumes out: "out_of_service who i m" and clock: "clock_ok (request_of now model path)"
  shows "fst (select_with_group tried now model aff path ck grp m) \<noteq> Some i"
proof
  assume s: "fst (select_with_group tried now model aff path ck grp m) = Some i"
  obtain a where a: "get (m_accounts m) i = Some a" "a_removed a" "account_ok a"
    using out get_in_set [of "m_accounts m" i] by (force simp: out_of_service_def row_id_def)
  have "locked_account_for m (of_path path) \<noteq> Some i"
    using a by (auto simp: locked_account_for_def split: option.splits if_splits)
  then have "locked_account_for m (of_path path) = None"
    using select_locked [OF s] by (cases "locked_account_for m (of_path path)") auto
  moreover have "\<forall>b\<in>set (m_accounts m). hold_ok b" using out by (simp add: out_of_service_def account_ok_def)
  ultimately have "\<not> a_disabled a \<or> control m = Some i" using select_in_service [OF s _ clock] a(1) by auto
  then show False using a out by (auto simp: account_ok_def out_of_service_def)
qed

lemma out_of_service_revalidation:
  assumes out: "out_of_service who i m" and clock: "clock_ok (request_of now model path)"
  shows "fst (select_revalidation tried now model aff path m) \<noteq> Some i"
proof
  assume "fst (select_revalidation tried now model aff path m) = Some i"
  then have s: "select_revalidation tried now model aff path m = (Some i, snd (select_revalidation tried now model aff path m))"
    by (simp add: prod_eq_iff)
  obtain a where a: "get (m_accounts m) i = Some a" "a_removed a" "account_ok a"
    using out get_in_set [of "m_accounts m" i] by (force simp: out_of_service_def row_id_def)
  have "\<forall>b\<in>set (m_accounts m). hold_ok b" using out by (simp add: out_of_service_def account_ok_def)
  from select_revalidation_serves [OF s clock this] a show False
    by (auto simp: account_terminal_gate_def account_ok_def split: if_splits)
qed

text \<open>
  C16. A deleted account is never served again. A reload finds the account gone from the file; from then on, in
  whatever order the proxy probes it, refreshes its token, ends its holds, is told to enable it, selects other
  accounts or reloads again, no selection and no last resort returns it: no lock, no pin, no divert, no group
  and no control routing. It comes back only by a reload of a file that has it, or when somebody makes that
  very index the control account; a write of the control index is not checked against the deletion.
\<close>

theorem deleted_account_is_never_served:
  assumes "\<forall>b\<in>set (m_accounts m). account_ok b" and "get (m_accounts m) i = Some a" and "\<not> a_removed a"
    and "list_all (stays_deleted (identity_of a) i) (Reload f # ops)"
    and "m' = fleet_run T (Reload f # ops) m" and "clock_ok (request_of now model path)"
  shows "fst (select_with_group tried now model aff path ck grp m') \<noteq> Some i \<and>
    fst (select_revalidation tried now model aff path m') \<noteq> Some i \<and>
    (\<exists>a'. get (m_accounts m') i = Some a' \<and> a_disabled a' \<and> identity_of a' = identity_of a)"
proof -
  have "out_of_service (identity_of a) i (apply_group_reload f m)" using assms(1-4) by (intro reload_deletes) simp_all
  then have out: "out_of_service (identity_of a) i m'"
    using assms(4,5) out_of_service_run [of "identity_of a" i ops "apply_group_reload f m" T] by (simp add: fleet_run_def)
  then obtain a' where "get (m_accounts m') i = Some a'" "row_id a' = (True, identity_of a)" "account_ok a'"
    using get_in_set [of "m_accounts m'" i] by (force simp: out_of_service_def)
  then show ?thesis
    using out_of_service_select [OF out assms(6)] out_of_service_revalidation [OF out assms(6)]
    by (auto simp: row_id_def account_ok_def)
qed

definition file_without_a :: fresh_config where
  "file_without_a = \<lparr>fc_rows = [], fc_groups = m_groups two_claude, fc_control = None\<rparr>"

definition alone :: manager where
  "alone = sample_manager [fresh_account ''a'' Anthropic]"

theorem deleted_account_is_never_served_witness:
  "fst (select_with_group {} 0 None (Some 7) path_messages None None
     (fleet_run sample_time [Reload file_without_a, On_Account 0 (Set_Disabled False), On_Account 0 Cleared] alone)) \<noteq> Some 0"
proof -
  have "\<forall>b\<in>set (m_accounts alone). account_ok b"
    by (simp add: alone_def sample_manager_def account_ok_def fresh_account_def hold_ok_def MAX_SERVES_PER_CONNECTION_def)
  moreover have "get (m_accounts alone) 0 = Some (fresh_account ''a'' Anthropic)" by (simp add: alone_def sample_manager_def get_def)
  moreover have "\<not> a_removed (fresh_account ''a'' Anthropic)" by (simp add: fresh_account_def)
  moreover have "list_all (stays_deleted (identity_of (fresh_account ''a'' Anthropic)) 0)
      [Reload file_without_a, On_Account 0 (Set_Disabled False), On_Account 0 Cleared]" by (simp add: file_without_a_def)
  ultimately show ?thesis
    using deleted_account_is_never_served [OF _ _ _ _ refl clock_ok_zero] by blast
qed

section \<open>The race on the control index\<close>

text \<open>
  \<open>set_control_by_query\<close> resolves the name under a read lock, releases it, and writes the index later without
  looking at the row again. A reload in between deletes the row and clears nothing, since it was not the control
  account yet; the write then makes the deleted row the control account, and control-plane traffic, which passes
  over \<open>disabled\<close>, is served on the credentials the operator removed, through every later reload of a file
  without the account.
\<close>

definition path_identity :: string where "path_identity = ''/api/oauth/profile''"

theorem raced_control_serves_a_deleted_account:
  "let m1 = fleet_run sample_time [Reload file_without_a] alone;
       m2 = fleet_run sample_time [Control_Written (Some 0), Reload file_without_a] m1
   in resolve_control alone (Some ''a'') = Sets (Some 0) \<and> resolve_control m1 (Some ''a'') = No_Such \<and>
      fst (select_with_group {} 0 None None path_identity None None m1) = None \<and>
      fst (select_with_group {} 0 None None path_identity None None m2) = Some 0 \<and>
      map a_removed (m_accounts m2) = [True]"
  by code_simp

end
