(* ===== verification/Bound_Tokens.thy ===== *)
theory Bound_Tokens
  imports Bound
begin

text \<open>
  The manager's side of the bound-token map, \<^verbatim>\<open>src/manager/bound_tokens.rs\<close>: what a response teaches
  it, which account a history is bound to, and how a history follows the conversation to the account
  that served it. The digest is third-party code and the map's clock is read by the caller, so both are
  arguments; \<open>std_hash\<close> is the hasher of \<open>Token_Map\<close>.
\<close>

record bound_state =
  bs_tokens :: sharded_tokens
  bs_dirty :: bool
  bs_logged :: "session_key list"

section \<open>Hashing\<close>

definition hex_byte :: "char \<Rightarrow> string" where
  "hex_byte c = (let n = of_char c in [hex_char (n div 16), hex_char (n mod 16)])"

definition hash_token :: "(string \<Rightarrow> string) \<Rightarrow> string \<Rightarrow> string" where
  "hash_token sha256 token = concat (map hex_byte (sha256 token))"

section \<open>Operations\<close>

definition record_bound_tokens ::
  "(string \<Rightarrow> u64) \<Rightarrow> (string \<Rightarrow> string) \<Rightarrow> (bound_token_kind \<times> string) list \<Rightarrow> nat \<Rightarrow> i64 \<Rightarrow> bound_state \<Rightarrow> bound_state" where
  "record_bound_tokens std_hash sha256 tokens idx now_ms st =
     (if tokens = [] then st
      else st\<lparr>bs_tokens := fold (\<lambda>(kind, token). sh_record std_hash now_ms (hash_token sha256 token) (idx, kind, now_ms))
                tokens (bs_tokens st),
              bs_dirty := True\<rparr>)"

definition is_thinking :: "bound_token_kind \<Rightarrow> bool" where
  "is_thinking kind = (kind = ThinkingSignature \<or> kind = RedactedThinking)"

text \<open>A thinking token an organization-bound model may have dropped on the account that served.\<close>

definition stays_minted :: "manager \<Rightarrow> string option \<Rightarrow> nat \<Rightarrow> minted \<Rightarrow> bool" where
  "stays_minted m model served v =
     (is_some_and model thinking_is_org_bound \<and> is_thinking (fst (snd v)) \<and> served \<in> outside_org_of (fst v) m)"

fun rebind_moves ::
  "(string \<Rightarrow> u64) \<Rightarrow> nat \<Rightarrow> i64 \<Rightarrow> (string \<times> minted) list \<Rightarrow> sharded_tokens \<Rightarrow> nat \<times> sharded_tokens" where
  "rebind_moves std_hash served now_ms [] s = (0, s)"
| "rebind_moves std_hash served now_ms ((h, source, kind, _) # moves) s =
     (let (moved, s1) = sh_rebind std_hash now_ms h source (served, kind, now_ms) s;
          (n, s2) = rebind_moves std_hash served now_ms moves s1
      in (if moved then Suc n else n, s2))"

definition known_tokens ::
  "(string \<Rightarrow> u64) \<Rightarrow> (string \<Rightarrow> string) \<Rightarrow> i64 \<Rightarrow> string list \<Rightarrow> sharded_tokens \<Rightarrow> (string \<times> minted) list" where
  "known_tokens std_hash sha256 wall_ms tokens s =
     List.map_filter (\<lambda>t. let h = hash_token sha256 t in map_option (Pair h) (sh_get std_hash wall_ms s h)) tokens"

definition rebind_served_history ::
  "(string \<Rightarrow> u64) \<Rightarrow> (string \<Rightarrow> string) \<Rightarrow> manager \<Rightarrow> i64 \<Rightarrow> string list \<Rightarrow> nat \<Rightarrow> string option \<Rightarrow> i64 \<Rightarrow> bound_state
     \<Rightarrow> nat \<times> bound_state" where
  "rebind_served_history std_hash sha256 m wall_ms tokens served model now_ms st =
     (let elsewhere = filter (\<lambda>(_, v). fst v \<noteq> served) (known_tokens std_hash sha256 wall_ms tokens (bs_tokens st));
          moves = filter (\<lambda>(_, v). \<not> stays_minted m model served v) elsewhere;
          (n, s) = rebind_moves std_hash served now_ms moves (bs_tokens st)
      in (n, st\<lparr>bs_tokens := s, bs_dirty := bs_dirty st \<or> 0 < n\<rparr>))"

definition bound_token_account ::
  "(string \<Rightarrow> u64) \<Rightarrow> (string \<Rightarrow> string) \<Rightarrow> i64 \<Rightarrow> string list \<Rightarrow> bound_state \<Rightarrow> (nat \<times> bound_token_kind) option" where
  "bound_token_account std_hash sha256 wall_ms tokens st =
     map_option (\<lambda>(idx, kind, _). (idx, kind))
       (max_by_key mint_ms (map snd (known_tokens std_hash sha256 wall_ms tokens (bs_tokens st))))"

fun disagree :: "nat option \<Rightarrow> nat list \<Rightarrow> bool" where
  "disagree seen [] = False"
| "disagree None (i # js) = disagree (Some i) js"
| "disagree (Some first) (i # js) = (if first \<noteq> i then True else disagree (Some first) js)"

definition bound_tokens_disagree ::
  "(string \<Rightarrow> u64) \<Rightarrow> (string \<Rightarrow> string) \<Rightarrow> i64 \<Rightarrow> string list \<Rightarrow> bound_state \<Rightarrow> bool" where
  "bound_tokens_disagree std_hash sha256 wall_ms tokens st =
     disagree None (map (fst \<circ> snd) (known_tokens std_hash sha256 wall_ms tokens (bs_tokens st)))"

definition first_bound_history_hold :: "session_key \<Rightarrow> bound_state \<Rightarrow> bool \<times> bound_state" where
  "first_bound_history_hold key st =
     (let seen = (if length (bs_logged st) \<ge> BOUND_TOKEN_CAP then [] else bs_logged st)
      in (key \<notin> set seen, st\<lparr>bs_logged := (if key \<in> set seen then seen else key # seen)\<rparr>))"

definition take_bound_tokens_dirty :: "bound_state \<Rightarrow> bool \<times> bound_state" where
  "take_bound_tokens_dirty st = (bs_dirty st, st\<lparr>bs_dirty := False\<rparr>)"

section \<open>Lemmas\<close>

declare split_paired_All [simp del] split_paired_Ex [simp del]

lemma known_tokens_iff:
  "(h, v) \<in> set (known_tokens std_hash sha256 wall_ms tokens s) \<longleftrightarrow>
     h \<in> hash_token sha256 ` set tokens \<and> sh_get std_hash wall_ms s h = Some v"
  by (cases v) (auto simp: known_tokens_def set_map_filter Let_def)

lemma disagree_iff: "disagree (Some i) js \<longleftrightarrow> (\<exists>j\<in>set js. j \<noteq> i)"
  by (induction js) auto

lemma bound_tokens_disagree_iff:
  "bound_tokens_disagree std_hash sha256 wall_ms tokens st \<longleftrightarrow>
     (\<exists>a b. a \<in> set (known_tokens std_hash sha256 wall_ms tokens (bs_tokens st)) \<and>
            b \<in> set (known_tokens std_hash sha256 wall_ms tokens (bs_tokens st)) \<and> fst (snd a) \<noteq> fst (snd b))"
proof -
  have "disagree None (map (fst \<circ> snd) xs) \<longleftrightarrow> (\<exists>a\<in>set xs. \<exists>b\<in>set xs. fst (snd a) \<noteq> fst (snd b))"
    for xs :: "(string \<times> minted) list"
  proof (cases xs)
    case (Cons x ys)
    have "disagree None (map (fst \<circ> snd) xs) \<longleftrightarrow> (\<exists>b\<in>set ys. fst (snd b) \<noteq> fst (snd x))"
      by (auto simp: Cons disagree_iff)
    then show ?thesis unfolding Cons set_simps by (metis insert_iff)
  qed simp
  then show ?thesis unfolding bound_tokens_disagree_def by blast
qed

lemma sh_rebind_find:
  assumes "sh_ok std_hash s" "sh_find std_hash (snd (sh_rebind std_hash now_ms h source (served, kind, now_ms) s)) k = Some w"
  shows "fst w = served \<or> sh_find std_hash s k = Some w \<and> \<not> (k = h \<and> fst w = source)"
proof (cases "is_none_or (sh_find std_hash s h) (\<lambda>old. fst old \<noteq> source)")
  case True
  with assms(2) show ?thesis by (auto simp: sh_rebind_def is_none_or_def)
next
  case False
  with assms(2) tokens.lookup_put [OF assms(1), of now_ms h "(served, kind, now_ms)" k] show ?thesis
    by (auto simp: sh_rebind_def split: if_splits)
qed

lemma rebind_moves_find:
  "sh_ok std_hash s \<Longrightarrow> sh_find std_hash (snd (rebind_moves std_hash served now_ms moves s)) k = Some w \<Longrightarrow>
     sh_ok std_hash (snd (rebind_moves std_hash served now_ms moves s)) \<and>
     (fst w = served \<or> sh_find std_hash s k = Some w \<and> (\<forall>v. (k, v) \<in> set moves \<longrightarrow> fst v \<noteq> fst w))"
proof (induction moves arbitrary: s)
  case (Cons mv moves)
  obtain h source kind t where mv: "mv = (h, source, kind, t)" by (cases mv)
  let ?s1 = "snd (sh_rebind std_hash now_ms h source (served, kind, now_ms) s)"
  have step: "snd (rebind_moves std_hash served now_ms (mv # moves) s) =
      snd (rebind_moves std_hash served now_ms moves ?s1)" by (simp add: mv split_beta Let_def)
  have ok: "sh_ok std_hash ?s1" by (rule sh_rebind_ok [OF Cons.prems(1)])
  have "sh_ok std_hash (snd (rebind_moves std_hash served now_ms moves ?s1)) \<and>
      (fst w = served \<or> sh_find std_hash ?s1 k = Some w \<and> (\<forall>v. (k, v) \<in> set moves \<longrightarrow> fst v \<noteq> fst w))"
    using Cons.IH [OF ok] Cons.prems(2) unfolding step by simp
  with sh_rebind_find [OF Cons.prems(1), of now_ms h source served kind k w] show ?case unfolding step by (auto simp: mv)
qed simp

lemma rebind_moves_ok: "sh_ok std_hash s \<Longrightarrow> sh_ok std_hash (snd (rebind_moves std_hash served now_ms moves s))"
proof (induction moves arbitrary: s)
  case (Cons mv moves)
  obtain h source kind t where mv: "mv = (h, source, kind, t)" by (cases mv)
  show ?case using Cons.IH [OF sh_rebind_ok [OF Cons.prems]] by (simp add: mv split_beta Let_def)
qed simp

lemma rebind_moves_none: "fst (rebind_moves std_hash served now_ms moves s) = 0 \<Longrightarrow>
    snd (rebind_moves std_hash served now_ms moves s) = s"
proof (induction moves arbitrary: s)
  case (Cons mv moves)
  obtain h source kind t where mv: "mv = (h, source, kind, t)" by (cases mv)
  from Cons show ?case
    by (auto simp: mv split_beta Let_def sh_rebind_def split: if_splits)
qed simp

text \<open>What a served history's tokens say afterwards.\<close>

lemma rebound_token:
  assumes ok: "sh_ok std_hash (bs_tokens st)" and t: "t \<in> set tokens"
    and after: "sh_get std_hash wall_ms
      (bs_tokens (snd (rebind_served_history std_hash sha256 m wall_ms tokens served model now_ms st))) (hash_token sha256 t) = Some v"
  shows "fst v = served \<or> stays_minted m model served v \<and> sh_find std_hash (bs_tokens st) (hash_token sha256 t) = Some v"
proof (rule ccontr)
  let ?h = "hash_token sha256 t" and ?s = "bs_tokens st"
  let ?elsewhere = "filter (\<lambda>(_, v). fst v \<noteq> served) (known_tokens std_hash sha256 wall_ms tokens ?s)"
  let ?moves = "filter (\<lambda>(_, v). \<not> stays_minted m model served v) ?elsewhere"
  assume not: "\<not> ?thesis"
  have "bs_tokens (snd (rebind_served_history std_hash sha256 m wall_ms tokens served model now_ms st)) =
      snd (rebind_moves std_hash served now_ms ?moves ?s)"
    by (simp add: rebind_served_history_def Let_def split_beta)
  with after have find: "sh_find std_hash (snd (rebind_moves std_hash served now_ms ?moves ?s)) ?h = Some v"
    and live: "fresh wall_ms BOUND_TOKEN_TTL_MS (mint_ms v)"
    by (simp_all add: sh_get_def filter_opt_Some_iff)
  have served: "fst v \<noteq> served" using not by blast
  with rebind_moves_find [OF ok find] have v: "sh_find std_hash ?s ?h = Some v"
    "(?h, v) \<notin> set ?moves" by blast+
  then have "(?h, v) \<in> set (known_tokens std_hash sha256 wall_ms tokens ?s)"
    using t live by (auto simp: known_tokens_iff sh_get_def filter_opt_Some_iff)
  moreover have "\<not> stays_minted m model served v" using not v(1) by blast
  ultimately have "(?h, v) \<in> set ?moves" using served by simp
  with v(2) show False by blast
qed

text \<open>
  A conversation is looked for where it last ran. After an account has answered a history with a
  2xx and its tokens were re-bound, the account the history is bound to is the one that answered, or
  nothing is known of it any more, or the newest token is a thinking block an organization-bound model
  may have dropped there, which stays with the account that minted it.
\<close>

theorem served_history_follows:
  assumes "sh_ok std_hash (bs_tokens st)"
    and "rebind_served_history std_hash sha256 m wall_ms tokens served model now_ms st = (n, st')"
    and "bound_token_account std_hash sha256 wall_ms tokens st' = Some (i, kind)"
  shows "i = served \<or> is_some_and model thinking_is_org_bound \<and> is_thinking kind \<and> served \<in> outside_org_of i m \<and>
    (\<exists>t\<in>set tokens. \<exists>ms. sh_find std_hash (bs_tokens st) (hash_token sha256 t) = Some (i, kind, ms))"
proof -
  obtain ms where "max_by_key mint_ms (map snd (known_tokens std_hash sha256 wall_ms tokens (bs_tokens st'))) = Some (i, kind, ms)"
    using assms(3) by (auto simp: bound_token_account_def)
  from max_by_key_Some [OF this] obtain h where "(h, i, kind, ms) \<in> set (known_tokens std_hash sha256 wall_ms tokens (bs_tokens st'))"
    by auto
  then obtain t where t: "t \<in> set tokens" "sh_get std_hash wall_ms (bs_tokens st') (hash_token sha256 t) = Some (i, kind, ms)"
    by (auto simp: known_tokens_iff)
  have "st' = snd (rebind_served_history std_hash sha256 m wall_ms tokens served model now_ms st)" by (simp add: assms(2))
  from rebound_token [OF assms(1) t(1) t(2) [unfolded this]] t(1) show ?thesis by (auto simp: stays_minted_def)
qed

section \<open>A minted token is found\<close>

text \<open>The store as the clock moves forward: what is there is older, or was recorded at this instant
  under one of the hashes \<open>H\<close>.\<close>

definition older_than :: "(string \<Rightarrow> u64) \<Rightarrow> i64 \<Rightarrow> string set \<Rightarrow> sharded_tokens \<Rightarrow> bool" where
  "older_than std_hash now_ms H s \<longleftrightarrow>
     (\<forall>k u. sh_find std_hash s k = Some u \<longrightarrow> mint_ms u < now_ms \<or> mint_ms u = now_ms \<and> k \<in> H)"

definition small_store :: bound_state where
  "small_store = \<lparr>bs_tokens = \<lparr>sh_shards = [token_map_new], sh_cap = 8\<rparr>, bs_dirty = False, bs_logged = []\<rparr>"

lemma small_store_ok: "sh_ok std_hash (bs_tokens small_store)" "older_than std_hash now_ms {} (bs_tokens small_store)"
  by (simp_all add: small_store_def sh_ok_def older_than_def sh_find_def sh_index_def shard_of_def token_map_new_def [THEN arg_cong, of by_hash] hm_get_def)

lemma record_keeps_now:
  assumes ok: "sh_ok std_hash s" and old: "older_than std_hash now_ms H s" and H: "finite H" "card H \<le> sh_cap s"
    and h: "h \<in> H" "mint_ms v = now_ms" and k: "k \<in> H" "((sh_find std_hash s)(h \<mapsto> v)) k = Some w" "mint_ms w = now_ms"
  shows "sh_find std_hash (sh_record std_hash now_ms h v s) k = Some w"
proof -
  let ?M = "(sh_find std_hash s)(h \<mapsto> v)" and ?part = "sh_index std_hash s"
  let ?S = "{(mint_ms u, j) |j u. ?M j = Some u \<and> ?part j = ?part h}"
  have now: "mint_ms u < now_ms \<or> mint_ms u = now_ms \<and> j \<in> H" if "?M j = Some u" for j u
    using that old h by (auto simp: older_than_def split: if_splits)
  have "{y \<in> ?S. (now_ms, k) < y} \<subseteq> Pair now_ms ` (H - {k})"
  proof
    fix y assume "y \<in> {y \<in> ?S. (now_ms, k) < y}"
    then obtain u j where y: "y = (mint_ms u, j)" "?M j = Some u" "(now_ms, k) < y" by blast
    with now [OF y(2)] show "y \<in> Pair now_ms ` (H - {k})" by (simp add: less_prod_def' image_iff) fastforce
  qed
  then have "card {y \<in> ?S. (now_ms, k) < y} \<le> card (H - {k})"
    using H(1) by (meson card_image_le card_mono finite_Diff finite_imageI order_trans)
  also have "\<dots> < sh_cap s" using H k(1) by (metis card_Diff1_less order_less_le_trans)
  finally have "(mint_ms w, k) \<in> newest now_ms BOUND_TOKEN_TTL_MS (sh_cap s) ?S" if "?part k = ?part h"
    using k that by (auto simp: newest_def fresh_def saturating_sub_i64_def sat64_def i64_min_def i64_max_def BOUND_TOKEN_TTL_MS_def)
  with k(2) show ?thesis
    unfolding sh_record_find [OF ok] spec_record_def Let_def by (cases w) (auto simp: restrict_map_def)
qed

lemma older_than_record:
  assumes "sh_ok std_hash s" "older_than std_hash now_ms H s" "h \<in> H" "mint_ms v = now_ms"
  shows "older_than std_hash now_ms H (sh_record std_hash now_ms h v s)"
  unfolding older_than_def
proof (intro allI impI)
  fix k u assume "sh_find std_hash (sh_record std_hash now_ms h v s) k = Some u"
  with tokens.lookup_put [OF assms(1), of now_ms h v k] assms(2-4)
  show "mint_ms u < now_ms \<or> mint_ms u = now_ms \<and> k \<in> H" by (auto simp: older_than_def split: if_splits)
qed

lemma sh_cap_record [simp]: "sh_cap (sh_record std_hash now_ms h v s) = sh_cap s"
  by (simp add: sh_record_def sh_update_def Let_def)

definition minted_here :: "(string \<Rightarrow> u64) \<Rightarrow> nat \<Rightarrow> i64 \<Rightarrow> sharded_tokens \<Rightarrow> string \<Rightarrow> bool" where
  "minted_here std_hash idx now_ms s k \<longleftrightarrow> (\<exists>kind. sh_find std_hash s k = Some (idx, kind, now_ms))"

lemma record_all_minted:
  assumes "sh_ok std_hash s" "older_than std_hash now_ms H s" "finite H" "card H \<le> sh_cap s"
    "\<forall>(kind, t)\<in>set tokens. hash_token sha256 t \<in> H" "P \<subseteq> H" "\<forall>k\<in>P. minted_here std_hash idx now_ms s k"
  shows "let s' = fold (\<lambda>(kind, t). sh_record std_hash now_ms (hash_token sha256 t) (idx, kind, now_ms)) tokens s
    in sh_ok std_hash s' \<and> older_than std_hash now_ms H s' \<and>
       (\<forall>k\<in>P \<union> hash_token sha256 ` snd ` set tokens. minted_here std_hash idx now_ms s' k)"
  using assms
proof (induction tokens arbitrary: s P)
  case (Cons kt tokens)
  obtain kind t where kt: "kt = (kind, t)" by force
  let ?h = "hash_token sha256 t" and ?v = "(idx, kind, now_ms)"
  let ?s = "sh_record std_hash now_ms ?h ?v s"
  have h: "?h \<in> H" using Cons.prems(5) by (simp add: kt)
  have "minted_here std_hash idx now_ms ?s k" if "k \<in> insert ?h P" for k
  proof -
    have "\<exists>kind'. ((sh_find std_hash s)(?h \<mapsto> ?v)) k = Some (idx, kind', now_ms)"
      using that Cons.prems(7) by (cases "k = ?h") (simp_all add: minted_here_def)
    moreover have "k \<in> H" using that h Cons.prems(6) by auto
    ultimately show ?thesis
      using record_keeps_now [OF Cons.prems(1-4) h, of ?v k] unfolding minted_here_def by fastforce
  qed
  then have "let s' = fold (\<lambda>(kind, t). sh_record std_hash now_ms (hash_token sha256 t) (idx, kind, now_ms)) tokens ?s
      in sh_ok std_hash s' \<and> older_than std_hash now_ms H s' \<and>
         (\<forall>k\<in>insert ?h P \<union> hash_token sha256 ` snd ` set tokens. minted_here std_hash idx now_ms s' k)"
    using Cons.prems h by (intro Cons.IH) (auto simp: sh_ok_record older_than_record)
  then show ?case by (simp add: kt Let_def)
qed simp

lemma minted_is_bound:
  assumes ok: "sh_ok std_hash (bs_tokens st)" and old: "older_than std_hash now_ms {} (bs_tokens st)"
    and live: "fresh wall_ms BOUND_TOKEN_TTL_MS now_ms" and few: "length minted \<le> sh_cap (bs_tokens st)" and t: "t \<in> snd ` set minted" "t \<in> set tokens"
  shows "\<exists>kind. bound_token_account std_hash sha256 wall_ms tokens
    (record_bound_tokens std_hash sha256 minted idx now_ms st) = Some (idx, kind)"
proof -
  let ?H = "hash_token sha256 ` snd ` set minted"
  define s where "s = fold (\<lambda>(kind, t). sh_record std_hash now_ms (hash_token sha256 t) (idx, kind, now_ms)) minted (bs_tokens st)"
  have "card ?H \<le> length minted" by (meson card_image_le card_length finite_imageI finite_set order_trans)
  then have few: "card ?H \<le> sh_cap (bs_tokens st)" using few by simp
  have "older_than std_hash now_ms ?H (bs_tokens st)" using old unfolding older_than_def by blast
  moreover have "\<forall>(kind, t)\<in>set minted. hash_token sha256 t \<in> ?H" by force
  ultimately have s: "older_than std_hash now_ms ?H s" "\<forall>k\<in>?H. minted_here std_hash idx now_ms s k"
    using record_all_minted [OF ok _ _ few, of now_ms minted sha256 "{}" idx]
    unfolding Let_def s_def [symmetric] by simp_all
  have st: "bs_tokens (record_bound_tokens std_hash sha256 minted idx now_ms st) = s"
    using t(1) by (auto simp: record_bound_tokens_def s_def)
  let ?known = "known_tokens std_hash sha256 wall_ms tokens s"
  obtain kind where mine: "(hash_token sha256 t, idx, kind, now_ms) \<in> set ?known"
    using s(2) t live by (auto simp: minted_here_def known_tokens_iff sh_get_def)
  then obtain v where v: "max_by_key mint_ms (map snd ?known) = Some v" by (cases "max_by_key mint_ms (map snd ?known)") auto
  from max_by_key_Some [OF this] mine obtain h where h: "(h, v) \<in> set ?known" "now_ms \<le> mint_ms v" by force
  then have "sh_find std_hash s h = Some v" by (auto simp: known_tokens_iff sh_get_def filter_opt_Some_iff)
  with s(1) h(2) have "h \<in> ?H" "sh_find std_hash s h = Some v" unfolding older_than_def by fastforce+
  with s(2) have "fst v = idx" unfolding minted_here_def by fastforce
  with v show ?thesis by (cases v) (simp add: bound_token_account_def st)
qed

theorem served_history_follows_witness:
  "map_option fst (bound_token_account (\<lambda>_. 0) id 9 [''msg''] (snd (rebind_served_history (\<lambda>_. 0) id
     (sample_manager [fresh_account ''a'' Anthropic, fresh_account ''b'' Anthropic]) 9 [''msg''] 1 None 9
     (record_bound_tokens (\<lambda>_. 0) id [(MessageId, ''msg'')] 0 5 small_store)))) = Some 1"
proof -
  let ?m = "sample_manager [fresh_account ''a'' Anthropic, fresh_account ''b'' Anthropic]"
  let ?st = "record_bound_tokens (\<lambda>_. 0) id [(MessageId, ''msg'')] 0 5 small_store"
  let ?after = "snd (rebind_served_history (\<lambda>_. 0) id ?m 9 [''msg''] 1 None 9 ?st)"
  have "sh_ok (\<lambda>_. 0) (bs_tokens ?st)" by (simp add: record_bound_tokens_def sh_ok_record small_store_ok)
  moreover obtain n where "rebind_served_history (\<lambda>_. 0) id ?m 9 [''msg''] 1 None 9 ?st = (n, ?after)"
    by (metis prod.collapse)
  moreover have "bound_token_account (\<lambda>_. 0) id 9 [''msg''] ?after \<noteq> None" by code_simp
  then obtain i kind where "bound_token_account (\<lambda>_. 0) id 9 [''msg''] ?after = Some (i, kind)" by auto
  ultimately show ?thesis using served_history_follows by fastforce
qed

declare split_paired_All [simp] split_paired_Ex [simp]

end
