(* ===== verification/Conversation.thy ===== *)
theory Conversation
  imports Handle_Props Bound_Tokens
begin

text \<open>
  A conversation from the response that minted its tokens to the request that carries them: the
  bound-token map of \<open>Bound_Tokens\<close> under the choice of the bound account at the top of \<open>handle\<close>, the turn
  that serves it there, by the normal selection or by \<open>select_bound\<close>, and the rest of the walk.
\<close>

definition conversation_candidate ::
  "(string \<Rightarrow> u64) \<Rightarrow> (string \<Rightarrow> string) \<Rightarrow> i64 \<Rightarrow> manager \<Rightarrow> routed_request \<Rightarrow> string list \<Rightarrow> bool \<Rightarrow> bound_state \<Rightarrow> nat option" where
  "conversation_candidate std_hash sha256 wall_ms m rq tokens carries_bound_history st =
     bound_candidate m rq (map_option fst (bound_token_account std_hash sha256 wall_ms tokens st)) carries_bound_history"

section \<open>A turn of a held conversation\<close>

text \<open>What the last-resort serve of a bound conversation asks of its account, and no lock on the fleet.\<close>

definition may_serve_bound :: "manager \<Rightarrow> odt \<Rightarrow> routed_request \<Rightarrow> nat \<Rightarrow> bool" where
  "may_serve_bound m now rq idx \<longleftrightarrow> locked_account_for m (rq_provider rq) = None \<and>
     is_some_and (get (m_accounts m) idx) (\<lambda>a.
       hard_ok a (policy_of m) (bound_request now (rq_is_fable rq) a) (rq_group rq) (warm_window m (rq_session rq)) \<and>
       is_none_or (strict_group m (rq_group rq)) (\<lambda>g. g \<in> set (a_groups a)) \<and>
       \<not> (a_provider a = Codex \<and> idx \<in> codex_accounts_with_unsupported_exit m) \<and>
       \<not> (a_hold_cause a = Refused \<and> live_hold a (odt_to_ms now)))"

lemma select_bound_serves:
  assumes "may_serve_bound m now rq idx" "idx \<notin> tried"
  shows "select_bound idx tried now (rq_is_fable rq) (rq_group rq) (strict_group m (rq_group rq))
    (warm_window m (rq_session rq)) m = (Some idx, stamp_account idx m)"
  using assms by (auto simp: may_serve_bound_def select_bound_def is_some_and_iff is_none_or_def split: option.splits)

lemma may_serve_holds:
  "may_serve_bound m now rq idx \<Longrightarrow>
   bound_account_holds m idx now (rq_is_fable rq) (rq_group rq) (warm_window m (rq_session rq))"
  by (auto simp: may_serve_bound_def bound_account_holds_def is_some_and_iff hard_ok_def bound_request_def policy_of_def)

lemma codex_counts:
  "codex_candidate_counts m b grp matches =
    (let is = filter (\<lambda>i. codex_candidate m b grp i (m_accounts m ! i)) [0..<length (m_accounts m)]
     in (length is, length (filter (\<lambda>i. matches (m_accounts m ! i)) is)))"
proof -
  have "fold (\<lambda>i (total, matching). (total + 1, matching + (if matches (m_accounts m ! i) then 1 else 0))) is (x, y) =
      (x + length is, y + length (filter (\<lambda>i. matches (m_accounts m ! i)) is))" for "is" and x y :: nat
    by (induction "is" arbitrary: x y) auto
  from this [of _ 0 0] show ?thesis by (simp add: codex_candidate_counts_def fold_codex_candidates_def Let_def case_prod_unfold)
qed

lemma may_serve_unrefused:
  assumes "may_serve_bound m now rq idx"
  shows "\<not> codex_pool_is_refused m now (Some idx) grp"
proof
  let ?is = "filter (\<lambda>i. codex_candidate m (Some idx) grp i (m_accounts m ! i)) [0..<length (m_accounts m)]"
  let ?refused = "\<lambda>a. a_hold_cause a = Refused \<and> is_some_and (a_rate_limited_until_ms a) (\<lambda>until. until > odt_to_ms now)"
  assume "codex_pool_is_refused m now (Some idx) grp"
  then have "?is \<noteq> []" "length (filter (\<lambda>i. ?refused (m_accounts m ! i)) ?is) = length ?is"
    by (simp_all add: codex_pool_is_refused_def codex_counts Let_def)
  moreover have "i = idx" if "i \<in> set ?is" for i using that by (auto simp: codex_candidate_def split: provider.splits)
  ultimately have "?refused (m_accounts m ! idx)"
    by (metis (mono_tags, lifting) filter_id_conv length_filter_less list.set_intros(1) neq_Nil_conv order_less_irrefl)
  with assms show False by (auto simp: may_serve_bound_def is_some_and_iff get_eq_Some_iff live_hold_def)
qed

lemma may_serve_view:
  assumes "fleet_view m' = fleet_view m"
  shows "may_serve_bound m' now rq idx = may_serve_bound m now rq idx"
proof -
  have eq: "policy_of m' = policy_of m" "m_groups m' = m_groups m" "m_config_accounts m' = m_config_accounts m"
    "m_affinity_extended m' = m_affinity_extended m" using assms by (simp_all add: fleet_view_def)
  have env: "warm_window m' = warm_window m" "strict_group m' = strict_group m"
    "codex_accounts_with_unsupported_exit m' = codex_accounts_with_unsupported_exit m"
    by (simp_all add: fun_eq_iff warm_window_def strict_group_def codex_accounts_with_unsupported_exit_def eq split: option.split)
  have row: "is_some_and (get (m_accounts x) idx) (\<lambda>a.
       hard_ok a p (bound_request now f a) grp wm \<and> is_none_or st (\<lambda>g. g \<in> set (a_groups a)) \<and>
       \<not> (a_provider a = Codex \<and> ex) \<and> \<not> (a_hold_cause a = Refused \<and> live_hold a t)) =
     is_some_and (map_option unstamped (get (m_accounts x) idx)) (\<lambda>a.
       hard_ok a p (bound_request now f a) grp wm \<and> is_none_or st (\<lambda>g. g \<in> set (a_groups a)) \<and>
       \<not> (a_provider a = Codex \<and> ex) \<and> \<not> (a_hold_cause a = Refused \<and> live_hold a t))" for x p f grp wm st ex t
  proof -
    have "a_hold_cause (unstamped a) = a_hold_cause a" "live_hold (unstamped a) t = live_hold a t"
      "bound_request now f (unstamped a) = bound_request now f a" for a
      by (simp_all add: unstamped_def live_hold_def bound_request_def)
    then show ?thesis by (cases "get (m_accounts x) idx") (simp_all add: fields_unstamped)
  qed
  show ?thesis
    unfolding may_serve_bound_def env eq(1) fleet_view_lock [OF assms] row [of m'] row [of m] fleet_view_get [OF assms] ..
qed

lemma fresh_verdict:
  assumes "l_tally l = tally_default" "may_serve_bound m now rq idx"
  shows "ladder_verdict m (rq_provider rq) now (Some idx) strict l = (None, l)"
proof -
  have "verdict m (rq_provider rq) now (Some idx) strict tally_default = (None, tally_default)"
    using may_serve_unrefused [OF assms(2)]
    by (simp add: verdict_def tally_default_def every_attempt_transport_failed_def split: provider.split)
  moreover have "l\<lparr>l_tally := tally_default\<rparr> = l" by (simp add: assms(1) [symmetric])
  ultimately show ?thesis by (simp add: ladder_verdict_def assms(1))
qed

text \<open>The first turn of a held conversation whose account can take it goes there, or takes the one soft wait
  and stays held.\<close>

lemma held_turn_picks:
  assumes "held n idx (wk_ladder w)" "walk_ok n w" "wk_bound w = Some idx" "idx \<notin> l_tried (wk_ladder w)"
    and "l_next_idx (wk_ladder w) = None" "l_tally (wk_ladder w) = tally_default"
    and can: "may_serve_bound (wk_manager w) (tn_now env) rq idx" and env: "env_ok env"
    and p: "pick_turn T rq env w = (p, w')"
  shows "wk_bound w' = Some idx \<and> (p = Serve_On idx \<or> p = Go_On \<and> l_soft_waited (wk_ladder w'))"
proof -
  define l where "l = (wk_ladder w)\<lparr>l_next_idx := None\<rparr>"
  have l: "l = wk_ladder w" using assms(5) by (simp add: l_def)
  obtain r m where sel: "select_for rq (tn_now env) (wk_manager w) (l_tried l) = (r, m)" by force
  have "fleet_view m = fleet_view (wk_manager w)"
    using sel call_frame_select [of "rq_session rq" "wk_manager w" "l_tried l" "tn_now env" "rq_model rq" "rq_path rq" "rq_conn rq" "rq_group rq"]
    by (simp add: select_for_def call_frame_def)
  then have can': "may_serve_bound m (tn_now env) rq idx" using can may_serve_view by blast
  have "wk_bound w' = Some idx \<and> ((\<exists>i. p = Serve_On i) \<or> p = Go_On \<and> l_soft_waited (wk_ladder w'))"
  proof (cases r)
    case (Some i)
    with p sel assms(3,5) show ?thesis by (auto simp: pick_turn_def take_next_def l_def)
  next
    case None
    define w1 where "w1 = w\<lparr>wk_manager := m, wk_ladder := l\<rparr>"
    have n: "nothing_selectable T rq env w1 = (p, w')"
      using p None sel assms(5) by (simp add: pick_turn_def take_next_def l_def w1_def)
    have w1: "wk_manager w1 = m" "wk_bound w1 = Some idx" "l_tally (wk_ladder w1) = tally_default" "idx \<notin> l_tried (wk_ladder w1)"
      using assms(3,4,6) by (simp_all add: w1_def l)
    have lock: "locked_account_for m (rq_provider rq) = None" using can' by (simp add: may_serve_bound_def)
    show ?thesis
      using n w1 lock may_serve_holds [OF can'] fresh_verdict [OF w1(3) can'] select_bound_serves [OF can' w1(4)]
      by (auto simp: nothing_selectable_def Let_def last_serve_def readmit_expired_parks_def spend_soft_wait_def split: option.splits)
  qed
  moreover have "i = idx" if "p = Serve_On i" for i
    using pick_turn_rest [OF p assms(2) env] that held_fresh_pick [OF pick_turn_held [OF p assms(1)]] calculation by blast
  ultimately show ?thesis by blast
qed

text \<open>
  C40. A conversation goes back to the account that minted its tokens. A response just taught the map tokens of
  one account, nothing in the map is newer, and they have not expired. A request of that provider whose history
  carries one of them is held to that account, with every other account benched, when the account may hold it
  and the session was not told it is moving: whatever else its history names, and whatever the session's pin
  says. The first turn goes to that account, by the normal selection or else by \<open>select_bound\<close>, whenever no
  lock is set, no lease keeps it out and the account passes the gates of that serve, or it takes the request's
  one soft wait, still held. And every send of the walk is on that account until the walk releases it.
\<close>

theorem minted_conversation_returns:
  assumes "sh_ok std_hash (bs_tokens st)" and "older_than std_hash minted_ms {} (bs_tokens st)"
    and "fresh now_ms BOUND_TOKEN_TTL_MS minted_ms" and "length minted \<le> sh_cap (bs_tokens st)"
    and "t \<in> snd ` set minted" and "t \<in> set tokens"
    and "live_provider m idx = Some (rq_provider rq)"
    and "bound_account_holds m idx now (rq_is_fable rq) (rq_group rq) (warm_window m (rq_session rq))"
    and "\<forall>key. rq_session rq = Some key \<longrightarrow> \<not> switch_warned key idx now_ms warned"
    and "open_walk rq now now_ms (conversation_candidate std_hash sha256 now_ms m rq tokens carries
           (record_bound_tokens std_hash sha256 minted idx minted_ms st)) warned m (ladder_default\<lparr>l_tried := scope\<rparr>) = (ans, w)"
    and "\<forall>k. env_ok (env k)" and "turns decode T rq env 0 fuel w = (sent, x, w')"
  shows "ans = None \<and> wk_bound w = Some idx \<and> (\<forall>i<length (m_accounts m). i \<noteq> idx \<longrightarrow> i \<in> l_tried (wk_ladder w)) \<and>
    (idx \<notin> scope \<and> may_serve_bound (tn_others (env 0) m) (tn_now (env 0)) rq idx \<longrightarrow>
       (\<exists>p w1. pick_turn T rq (env 0) (w\<lparr>wk_manager := tn_others (env 0) m\<rparr>) = (p, w1) \<and> wk_bound w1 = Some idx \<and>
          (p = Serve_On idx \<or> p = Go_On \<and> l_soft_waited (wk_ladder w1)))) \<and>
    (wk_bound w' = None \<or> (\<forall>(i, s)\<in>set sent. i = idx))"
proof -
  obtain kind where "bound_token_account std_hash sha256 now_ms tokens
      (record_bound_tokens std_hash sha256 minted idx minted_ms st) = Some (idx, kind)"
    using minted_is_bound [OF assms(1-6)] by blast
  then have "conversation_candidate std_hash sha256 now_ms m rq tokens carries
      (record_bound_tokens std_hash sha256 minted idx minted_ms st) = Some idx"
    using assms(7) by (simp add: conversation_candidate_def bound_candidate_def)
  moreover have "\<not> is_some_and (rq_session rq) (\<lambda>key. switch_warned key idx now_ms warned)"
    using assms(9) by (cases "rq_session rq") simp_all
  ultimately have w: "ans = None" "wk_bound w = Some idx" using assms(8,10) by (auto simp: open_walk_def Let_def)
  let ?n = "length (m_accounts m)"
  note start = open_walk_held [OF assms(10) [unfolded w(1)] w(2)]
  have ok: "walk_ok ?n w" using open_walk_rest [OF assms(10) [unfolded w(1)] refl] by simp
  have "\<exists>p w1. pick_turn T rq (env 0) (w\<lparr>wk_manager := tn_others (env 0) m\<rparr>) = (p, w1) \<and> wk_bound w1 = Some idx \<and>
      (p = Serve_On idx \<or> p = Go_On \<and> l_soft_waited (wk_ladder w1))"
    if "idx \<notin> scope" "may_serve_bound (tn_others (env 0) m) (tn_now (env 0)) rq idx"
  proof -
    define w0 where "w0 = w\<lparr>wk_manager := tn_others (env 0) m\<rparr>"
    have "walk_ok ?n w0" using ok start(7) assms(11) by (simp add: w0_def walk_ok_def env_ok_def keeps_size_def)
    then show ?thesis
      using held_turn_picks [of ?n idx w0 "env 0" rq T] start(2-5) w(2) that assms(11) unfolding w0_def [symmetric]
      by (cases "pick_turn T rq (env 0) w0") (simp add: w0_def)
  qed
  moreover have "\<forall>(i, s)\<in>set sent. i = idx" if "wk_bound w' \<noteq> None"
  proof -
    obtain b where b: "wk_bound w' = Some b" using \<open>wk_bound w' \<noteq> None\<close> by blast
    then have "b = idx" using turns_bound [OF assms(12) b] w(2) by simp
    with turns_held [OF assms(12) start(2) ok assms(11)] b show ?thesis by auto
  qed
  ultimately show ?thesis using w start(2) by (auto simp: held_def)
qed

definition sample_turn :: routed_request where
  "sample_turn = \<lparr>rq_provider = Anthropic, rq_path = path_messages, rq_path_and_query = path_messages,
     rq_model = None, rq_session = Some 7, rq_conn = None, rq_group = None\<rparr>"

definition taught_open :: "answer option \<times> walk" where
  "taught_open = open_walk sample_turn 0 9 (conversation_candidate (\<lambda>_. 0) id 9 two_claude sample_turn [''msg''] True
     (record_bound_tokens (\<lambda>_. 0) id [(MessageId, ''msg'')] 1 5 small_store)) [] two_claude (ladder_default\<lparr>l_tried := {}\<rparr>)"

definition taught_run :: "(nat \<times> send) list \<times> answer option \<times> walk" where
  "taught_run = turns (\<lambda>_. None) sample_time sample_turn (\<lambda>_. quiet_env broken_pipe) 0 2 (snd taught_open)"

theorem minted_conversation_returns_witness:
  "wk_bound (snd taught_open) = Some 1 \<and> length (fst taught_run) = 2 \<and> list_all (\<lambda>(i, s). i = 1) (fst taught_run) \<and>
   fst (pick_turn sample_time sample_turn (quiet_env broken_pipe) (snd taught_open)) = Serve_On 1"
proof -
  have held: "bound_account_holds two_claude 1 0 (rq_is_fable sample_turn) (rq_group sample_turn)
      (warm_window two_claude (rq_session sample_turn))" by code_simp
  have live: "live_provider two_claude 1 = Some (rq_provider sample_turn)" by code_simp
  have recent: "fresh 9 BOUND_TOKEN_TTL_MS 5" by code_simp
  have quiet: "\<forall>key. rq_session sample_turn = Some key \<longrightarrow> \<not> switch_warned key 1 9 []"
    by (simp add: switch_warned_def hm_get_def)
  have fit: "length [(MessageId, ''msg'')] \<le> sh_cap (bs_tokens small_store)" by (simp add: small_store_def)
  have env: "\<forall>k::nat. env_ok (quiet_env broken_pipe)" by (simp add: env_ok_def keeps_size_def quiet_env_def)
  have opened: "open_walk sample_turn 0 9 (conversation_candidate (\<lambda>_. 0) id 9 two_claude sample_turn [''msg''] True
     (record_bound_tokens (\<lambda>_. 0) id [(MessageId, ''msg'')] 1 5 small_store)) [] two_claude (ladder_default\<lparr>l_tried := {}\<rparr>) =
     (fst taught_open, snd taught_open)" by (simp add: taught_open_def)
  have run: "turns (\<lambda>_. None) sample_time sample_turn (\<lambda>_. quiet_env broken_pipe) 0 2 (snd taught_open) =
     (fst taught_run, fst (snd taught_run), snd (snd taught_run))" by (simp add: taught_run_def)
  have can: "may_serve_bound two_claude 0 sample_turn 1" by code_simp
  have begun: "fst taught_open = None" "wk_bound (snd taught_open) = Some 1" by code_simp+
  then have "wk_manager (snd taught_open) = two_claude" using open_walk_held(7) opened by metis
  then have same: "(snd taught_open)\<lparr>wk_manager := two_claude\<rparr> = snd taught_open" by simp
  have walk: "wk_bound (snd (snd taught_run)) \<noteq> None" "length (fst taught_run) = 2"
    "\<not> l_soft_waited (wk_ladder (snd (pick_turn sample_time sample_turn (quiet_env broken_pipe) (snd taught_open))))"
    by code_simp+
  from minted_conversation_returns [OF small_store_ok recent fit _ _ live held quiet opened env run, of "''msg''"] can walk
  show ?thesis by (auto simp: quiet_env_def same list_all_iff)
qed

end
