(* ===== verification/Token_Store.thy ===== *)
theory Token_Store
  imports Pin_Store Bound_Tokens
begin

text \<open>
  The bound-token map across a restart: the snapshot and restore of
  \<^verbatim>\<open>src/manager/bound_tokens.rs\<close> and the file of \<^verbatim>\<open>src/bound_tokens.rs\<close>, which names each minting
  account once and each token by the account's slot. A \<open>StoredAccount\<close> holds the fields of an
  \<open>identity\<close>, and its probe is that identity. The writer and the decoder of JSON text are arguments, as in
  \<open>Pin_Store\<close>.
\<close>

definition TOKEN_FORMAT_VERSION :: int where "TOKEN_FORMAT_VERSION = 2"

type_synonym stored_account = identity

record stored_token =
  st_hash :: string
  st_kind :: bound_token_kind
  st_account :: nat
  st_ms :: i64

record token_snapshot =
  sn_accounts :: "stored_account list"
  sn_tokens :: "stored_token list"

section \<open>The snapshot\<close>

definition position :: "('a \<Rightarrow> bool) \<Rightarrow> 'a list \<Rightarrow> nat option" where
  "position p xs = (let n = length (takeWhile (\<lambda>x. \<not> p x) xs) in if n < length xs then Some n else None)"

definition account_slot :: "stored_account \<Rightarrow> token_snapshot \<Rightarrow> nat \<times> token_snapshot" where
  "account_slot a sn =
     (case position (\<lambda>b. b = a) (sn_accounts sn) of
        Some slot \<Rightarrow> (slot, sn)
      | None \<Rightarrow> (length (sn_accounts sn), sn\<lparr>sn_accounts := sn_accounts sn @ [a]\<rparr>))"

definition snapshot_push :: "string \<Rightarrow> bound_token_kind \<Rightarrow> nat \<Rightarrow> i64 \<Rightarrow> token_snapshot \<Rightarrow> token_snapshot" where
  "snapshot_push h kind slot ms sn =
     sn\<lparr>sn_tokens := sn_tokens sn @ [\<lparr>st_hash = h, st_kind = kind, st_account = slot, st_ms = ms\<rparr>]\<rparr>"

text \<open>\<open>slots\<close> remembers the slot each live account was given.\<close>

fun snapshot_entries ::
  "account list \<Rightarrow> (string \<times> minted) list \<Rightarrow> nat option list \<Rightarrow> token_snapshot \<Rightarrow> token_snapshot" where
  "snapshot_entries accounts [] slots sn = sn"
| "snapshot_entries accounts ((h, i, kind, ms) # es) slots sn =
     (case get accounts i of
        None \<Rightarrow> snapshot_entries accounts es slots sn
      | Some a \<Rightarrow>
          let (slot, sn') = (case slots ! i of Some s \<Rightarrow> (s, sn) | None \<Rightarrow> account_slot (identity_of a) sn)
          in snapshot_entries accounts es (slots[i := Some slot]) (snapshot_push h kind slot ms sn'))"

definition bound_token_snapshot :: "manager \<Rightarrow> bound_state \<Rightarrow> token_snapshot" where
  "bound_token_snapshot m st =
     snapshot_entries (m_accounts m) (sh_entries (bs_tokens st)) (replicate (length (m_accounts m)) None)
       \<lparr>sn_accounts = [], sn_tokens = []\<rparr>"

section \<open>The file\<close>

text \<open>\<open>prepare\<close>'s loop: an account gets its place in the file's table when a token first names it. The
  error is a slot the snapshot does not hold.\<close>

fun place_tokens ::
  "stored_account option list \<Rightarrow> nat option list \<Rightarrow> stored_account list \<Rightarrow> stored_token list
     \<Rightarrow> (stored_account list \<times> stored_token list) option" where
  "place_tokens unplaced placed table [] = Some (table, [])"
| "place_tokens unplaced placed table (t # ts) =
     (let source = st_account t in
      case Option.bind (get placed source) id of
        Some to \<Rightarrow> map_option (apsnd ((#) (t\<lparr>st_account := to\<rparr>))) (place_tokens unplaced placed table ts)
      | None \<Rightarrow>
          (case Option.bind (get unplaced source) id of
             None \<Rightarrow> None
           | Some a \<Rightarrow>
               let to = length table in
               map_option (apsnd ((#) (t\<lparr>st_account := to\<rparr>)))
                 (place_tokens (unplaced[source := None]) (placed[source := Some to]) (table @ [a]) ts)))"

definition kept_tokens :: "stored_token list \<Rightarrow> stored_token list" where
  "kept_tokens ts =
     sort_key st_hash (if length ts > BOUND_TOKEN_CAP then take BOUND_TOKEN_CAP (sort_key (\<lambda>t. - st_ms t) ts) else ts)"

definition prepare :: "token_snapshot \<Rightarrow> (stored_account list \<times> stored_token list) option" where
  "prepare sn = place_tokens (map Some (sn_accounts sn)) (replicate (length (sn_accounts sn)) None) [] (kept_tokens (sn_tokens sn))"

fun kind_name :: "bound_token_kind \<Rightarrow> string" where
  "kind_name ServerToolUse = ''tool''"
| "kind_name ThinkingSignature = ''sig''"
| "kind_name RedactedThinking = ''redacted''"
| "kind_name MessageId = ''msg''"

definition kind_from_name :: "string \<Rightarrow> bound_token_kind option" where
  "kind_from_name s = List.find (\<lambda>k. kind_name k = s) [ServerToolUse, ThinkingSignature, RedactedThinking, MessageId]"

definition stored_account_to_json :: "stored_account \<Rightarrow> json" where
  "stored_account_to_json a =
     JObj ([(''name'', JStr (id_name a))] @ opt_field ''accountUuid'' (id_account_uuid a) @
       opt_field ''orgUuid'' (id_org_uuid a) @ opt_field ''orgName'' (id_org_name a) @
       (if is_anthropic (id_provider a) then [] else [(''provider'', JStr (as_str (id_provider a)))]))"

definition stored_account_from_json :: "json \<Rightarrow> stored_account option" where
  "stored_account_from_json v =
     (if \<not> fields_once [''name'', ''accountUuid'', ''orgUuid'', ''orgName'', ''provider''] v then None
      else case (jfield ''name'' as_string v, field_or None ''accountUuid'' as_opt_string v,
                 field_or None ''orgUuid'' as_opt_string v, field_or None ''orgName'' as_opt_string v,
                 field_or Anthropic ''provider'' as_provider v) of
        (Some name, Some au, Some ou, Some on, Some p) \<Rightarrow> Some (Identity.probe p name au ou on)
      | _ \<Rightarrow> None)"

definition stored_token_to_json :: "stored_token \<Rightarrow> json" where
  "stored_token_to_json t =
     JObj [(''hash'', JStr (st_hash t)), (''kind'', JStr (kind_name (st_kind t))), (''account'', JInt (int (st_account t))),
           (''ms'', JInt (st_ms t))]"

definition as_usize :: "json \<Rightarrow> nat option" where
  "as_usize v = (case v of JInt n \<Rightarrow> if 0 \<le> n \<and> n < 2 ^ 64 then Some (nat n) else None | _ \<Rightarrow> None)"

definition stored_token_from_json :: "json \<Rightarrow> stored_token option" where
  "stored_token_from_json v =
     (if \<not> fields_once [''hash'', ''kind'', ''account'', ''ms''] v then None
      else case (jfield ''hash'' as_string v, jfield ''kind'' (\<lambda>k. Option.bind (as_string k) kind_from_name) v,
                 jfield ''account'' as_usize v, jfield ''ms'' as_i64 v) of
        (Some h, Some k, Some a, Some ms) \<Rightarrow> Some \<lparr>st_hash = h, st_kind = k, st_account = a, st_ms = ms\<rparr>
      | _ \<Rightarrow> None)"

definition token_file_json :: "i64 \<Rightarrow> stored_account list \<times> stored_token list \<Rightarrow> json" where
  "token_file_json saved_at_ms file =
     JObj [(''version'', JInt TOKEN_FORMAT_VERSION), (''savedAtMs'', JInt saved_at_ms),
           (''accounts'', JArr (map stored_account_to_json (fst file))), (''tokens'', JArr (map stored_token_to_json (snd file)))]"

definition token_file_from_json :: "json \<Rightarrow> (stored_account list \<times> stored_token list) option" where
  "token_file_from_json v =
     (if \<not> fields_once [''version'', ''savedAtMs'', ''accounts'', ''tokens''] v then None
      else case (jfield ''version'' as_u32 v, jfield ''savedAtMs'' as_i64 v, jfield ''accounts'' as_array v,
                 jfield ''tokens'' as_array v) of
        (Some _, Some _, Some accounts, Some tokens) \<Rightarrow>
          (case (all_some (map stored_account_from_json accounts), all_some (map stored_token_from_json tokens)) of
             (Some a, Some t) \<Rightarrow> Some (a, t) | _ \<Rightarrow> None)
      | _ \<Rightarrow> None)"

section \<open>Reading it back\<close>

record token_report =
  tr_tokens :: "(string, minted) hash_map"
  tr_expired :: nat
  tr_unresolved :: nat
  tr_ambiguous :: nat
  tr_degraded :: bool

definition token_report_default :: token_report where
  "token_report_default = \<lparr>tr_tokens = [], tr_expired = 0, tr_unresolved = 0, tr_ambiguous = 0, tr_degraded = False\<rparr>"

definition load_token :: "resolved list \<Rightarrow> i64 \<Rightarrow> i64 \<Rightarrow> stored_token \<Rightarrow> token_report \<Rightarrow> token_report" where
  "load_token resolved_accounts now_ms ttl_ms t r =
     (if saturating_sub_i64 now_ms (st_ms t) > ttl_ms then r\<lparr>tr_expired := tr_expired r + 1\<rparr>
      else case get resolved_accounts (st_account t) of
        Some (One idx) \<Rightarrow> r\<lparr>tr_tokens := hm_insert (st_hash t) (idx, st_kind t, st_ms t) (tr_tokens r)\<rparr>
      | Some Many \<Rightarrow> r\<lparr>tr_ambiguous := tr_ambiguous r + 1\<rparr>
      | _ \<Rightarrow> r\<lparr>tr_unresolved := tr_unresolved r + 1\<rparr>)"

definition load_tokens ::
  "(string \<Rightarrow> json option) \<Rightarrow> file_read \<Rightarrow> identity list \<Rightarrow> i64 \<Rightarrow> i64 \<Rightarrow> token_report" where
  "load_tokens decode f accounts now_ms ttl_ms =
     (case read_cache decode token_file_from_json TOKEN_FORMAT_VERSION f of
        Missing \<Rightarrow> token_report_default
      | Degraded \<Rightarrow> token_report_default\<lparr>tr_degraded := True\<rparr>
      | Read (stored, tokens) \<Rightarrow>
          fold (load_token (map (resolve accounts) stored) now_ms ttl_ms) tokens token_report_default)"

definition restore_bound_tokens ::
  "(string \<Rightarrow> u64) \<Rightarrow> (string \<Rightarrow> json option) \<Rightarrow> file_read \<Rightarrow> i64 \<Rightarrow> i64 \<Rightarrow> manager \<Rightarrow> bound_state \<Rightarrow> token_report \<times> bound_state" where
  "restore_bound_tokens std_hash decode f now_ms ttl_ms m st =
     (let r = load_tokens decode f (restore_candidates m) now_ms ttl_ms
      in (r, st\<lparr>bs_tokens := fold (\<lambda>(h, v). sh_insert_if_absent std_hash h v) (tr_tokens r) (bs_tokens st)\<rparr>))"

text \<open>\<open>flush_bound_tokens\<close>: the text that lands in the file, or the refusal.\<close>

definition saved_tokens :: "(json \<Rightarrow> string) \<Rightarrow> i64 \<Rightarrow> manager \<Rightarrow> bound_state \<Rightarrow> string option" where
  "saved_tokens render now_ms m st =
     map_option (\<lambda>file. render (token_file_json now_ms file)) (prepare (bound_token_snapshot m st))"

section \<open>Lemmas\<close>

lemma stored_account_roundtrip: "stored_account_from_json (stored_account_to_json a) = Some a"
  by (cases a; cases "id_account_uuid a"; cases "id_org_uuid a"; cases "id_org_name a"; cases "id_provider a")
    (simp_all add: stored_account_from_json_def stored_account_to_json_def opt_field_def fields_once_def jfield_def jget_def
      field_or_def as_string_def as_provider_def from_name_as_str [of Codex, simplified] Identity.probe_def)

lemma kind_from_kind_name: "kind_from_name (kind_name k) = Some k"
  by (cases k) (simp_all add: kind_from_name_def)

lemma stored_token_roundtrip:
  "in_i64 (st_ms t) \<Longrightarrow> st_account t < 2 ^ 64 \<Longrightarrow> stored_token_from_json (stored_token_to_json t) = Some t"
  by (cases t) (simp add: stored_token_from_json_def stored_token_to_json_def fields_once_def jfield_def jget_def
      as_string_def kind_from_kind_name as_usize_def as_i64_def)

lemma token_file_roundtrip:
  assumes "in_i64 t" "\<And>x. x \<in> set tokens \<Longrightarrow> in_i64 (st_ms x) \<and> st_account x < 2 ^ 64"
  shows "token_file_from_json (token_file_json t (accounts, tokens)) = Some (accounts, tokens)"
  using all_some_map [of accounts stored_account_from_json stored_account_to_json]
    all_some_map [of tokens stored_token_from_json stored_token_to_json] assms stored_account_roundtrip stored_token_roundtrip
  by (simp add: token_file_from_json_def token_file_json_def fields_once_def jfield_def jget_def as_u32_def
      TOKEN_FORMAT_VERSION_def as_i64_def as_array_def)

text \<open>What a stored token says: its hash, the identity its account slot stands for, kind and time.\<close>

definition token_view :: "stored_account list \<Rightarrow> stored_token \<Rightarrow> string \<times> stored_account \<times> bound_token_kind \<times> i64" where
  "token_view accounts t = (st_hash t, accounts ! st_account t, st_kind t, st_ms t)"

definition entry_view :: "account list \<Rightarrow> string \<times> minted \<Rightarrow> (string \<times> stored_account \<times> bound_token_kind \<times> i64) option" where
  "entry_view accounts = (\<lambda>(h, i, kind, ms). map_option (\<lambda>a. (h, identity_of a, kind, ms)) (get accounts i))"

definition slots_ok :: "stored_account list \<Rightarrow> stored_token list \<Rightarrow> bool" where
  "slots_ok accounts ts \<longleftrightarrow> (\<forall>t\<in>set ts. st_account t < length accounts)"

lemma token_view_append:
  "slots_ok accounts ts \<Longrightarrow> slots_ok (accounts @ extra) ts \<and> map (token_view (accounts @ extra)) ts = map (token_view accounts) ts"
  by (auto simp: slots_ok_def token_view_def nth_append)

lemma token_view_slot:
  "token_view accounts (t\<lparr>st_account := s\<rparr>) = (st_hash t, accounts ! s, st_kind t, st_ms t)"
  by (simp add: token_view_def)

lemma slots_ok_Cons: "slots_ok accounts (t # ts) \<longleftrightarrow> st_account t < length accounts \<and> slots_ok accounts ts"
  by (simp add: slots_ok_def)

lemma account_slot_spec:
  assumes "account_slot a sn = (slot, sn')"
  shows "\<exists>extra. sn_accounts sn' = sn_accounts sn @ extra \<and> sn_tokens sn' = sn_tokens sn \<and>
    slot < length (sn_accounts sn') \<and> sn_accounts sn' ! slot = a"
proof (cases "position (\<lambda>b. b = a) (sn_accounts sn)")
  case None
  with assms show ?thesis by (auto simp: account_slot_def)
next
  case (Some n)
  then have "n < length (sn_accounts sn) \<and> sn_accounts sn ! n = a"
    using nth_length_takeWhile [of "\<lambda>b. b \<noteq> a" "sn_accounts sn"] by (auto simp: position_def Let_def split: if_splits)
  with Some assms show ?thesis by (auto simp: account_slot_def)
qed

lemma snapshot_entries_view:
  assumes "length slots = length accounts" and "slots_ok (sn_accounts sn) (sn_tokens sn)"
    and "\<forall>i<length slots. \<forall>s. slots ! i = Some s \<longrightarrow> s < length (sn_accounts sn) \<and> sn_accounts sn ! s = identity_of (accounts ! i)"
  shows "slots_ok (sn_accounts (snapshot_entries accounts es slots sn)) (sn_tokens (snapshot_entries accounts es slots sn)) \<and>
    map (token_view (sn_accounts (snapshot_entries accounts es slots sn))) (sn_tokens (snapshot_entries accounts es slots sn)) =
      map (token_view (sn_accounts sn)) (sn_tokens sn) @ List.map_filter (entry_view accounts) es"
  using assms
proof (induction es arbitrary: slots sn)
  case (Cons e es)
  obtain h i kind ms where e: "e = (h, i, kind, ms)" by (cases e)
  show ?case
  proof (cases "get accounts i")
    case None
    with Cons.IH [OF Cons.prems] show ?thesis by (simp add: e entry_view_def List.map_filter_simps)
  next
    case (Some a)
    then have i: "i < length slots" "accounts ! i = a" using Cons.prems(1) by (simp_all add: get_eq_Some_iff)
    obtain slot sn' where slot: "(case slots ! i of Some s \<Rightarrow> (s, sn) | None \<Rightarrow> account_slot (identity_of a) sn) = (slot, sn')"
      by force
    obtain extra where sn': "sn_accounts sn' = sn_accounts sn @ extra" "sn_tokens sn' = sn_tokens sn"
      "slot < length (sn_accounts sn')" "sn_accounts sn' ! slot = identity_of a"
    proof (cases "slots ! i")
      case None
      with slot have "account_slot (identity_of a) sn = (slot, sn')" by simp
      from account_slot_spec [OF this] show thesis using that by blast
    next
      case (Some s)
      with slot have "slot = s" "sn' = sn" by simp_all
      with Some Cons.prems(3) i show thesis using that [of "[]"] by simp
    qed
    define sn2 where "sn2 = snapshot_push h kind slot ms sn'"
    have step: "snapshot_entries accounts (e # es) slots sn = snapshot_entries accounts es (slots[i := Some slot]) sn2"
      using Some slot by (simp add: e sn2_def)
    have old: "slots_ok (sn_accounts sn') (sn_tokens sn)" "map (token_view (sn_accounts sn')) (sn_tokens sn) = map (token_view (sn_accounts sn)) (sn_tokens sn)"
      using token_view_append [OF Cons.prems(2), of extra] by (simp_all add: sn'(1))
    have "slots_ok (sn_accounts sn2) (sn_tokens sn2)"
      using old(1) sn'(2,3) by (simp add: sn2_def snapshot_push_def slots_ok_def)
    moreover have "\<forall>j<length (slots[i := Some slot]). \<forall>s. slots[i := Some slot] ! j = Some s \<longrightarrow>
        s < length (sn_accounts sn2) \<and> sn_accounts sn2 ! s = identity_of (accounts ! j)"
      using Cons.prems(3) sn' i by (auto simp: sn2_def snapshot_push_def nth_list_update nth_append)
    ultimately have "slots_ok (sn_accounts (snapshot_entries accounts es (slots[i := Some slot]) sn2))
          (sn_tokens (snapshot_entries accounts es (slots[i := Some slot]) sn2)) \<and>
        map (token_view (sn_accounts (snapshot_entries accounts es (slots[i := Some slot]) sn2)))
          (sn_tokens (snapshot_entries accounts es (slots[i := Some slot]) sn2)) =
        map (token_view (sn_accounts sn2)) (sn_tokens sn2) @ List.map_filter (entry_view accounts) es"
      using Cons.prems(1) by (intro Cons.IH) simp_all
    moreover have "map (token_view (sn_accounts sn2)) (sn_tokens sn2) =
        map (token_view (sn_accounts sn)) (sn_tokens sn) @ [(h, identity_of a, kind, ms)]"
      using old(2) sn'(2,4) by (simp add: sn2_def snapshot_push_def token_view_def)
    ultimately show ?thesis unfolding step using Some by (simp add: e entry_view_def List.map_filter_simps)
  qed
qed (simp add: List.map_filter_simps)

lemma snapshot_view:
  "slots_ok (sn_accounts (bound_token_snapshot m st)) (sn_tokens (bound_token_snapshot m st)) \<and>
   map (token_view (sn_accounts (bound_token_snapshot m st))) (sn_tokens (bound_token_snapshot m st)) =
     List.map_filter (entry_view (m_accounts m)) (sh_entries (bs_tokens st))"
  unfolding bound_token_snapshot_def
  using snapshot_entries_view [of "replicate (length (m_accounts m)) None" "m_accounts m" "\<lparr>sn_accounts = [], sn_tokens = []\<rparr>"]
  by (simp add: slots_ok_def)

text \<open>A placed slot stands for the account it had in the snapshot; an account not placed yet is still to
  be had.\<close>

definition placing_ok ::
  "stored_account list \<Rightarrow> stored_account option list \<Rightarrow> nat option list \<Rightarrow> stored_account list \<Rightarrow> bool" where
  "placing_ok accounts unplaced placed table \<longleftrightarrow> length unplaced = length accounts \<and> length placed = length accounts \<and>
     (\<forall>i<length accounts. case placed ! i of
        Some to \<Rightarrow> to < length table \<and> table ! to = accounts ! i
      | None \<Rightarrow> unplaced ! i = Some (accounts ! i))"

lemma place_tokens_spec:
  assumes "placing_ok accounts unplaced placed table" "slots_ok accounts ts"
  shows "\<exists>extra ts'. place_tokens unplaced placed table ts = Some (table @ extra, ts') \<and> length extra \<le> length ts \<and>
    slots_ok (table @ extra) ts' \<and> map (token_view (table @ extra)) ts' = map (token_view accounts) ts"
  using assms
proof (induction ts arbitrary: unplaced placed table)
  case (Cons t ts)
  let ?i = "st_account t"
  have i: "?i < length accounts" "slots_ok accounts ts" using Cons.prems(2) by (simp_all add: slots_ok_def)
  have len: "length unplaced = length accounts" "length placed = length accounts"
    using Cons.prems(1) by (simp_all add: placing_ok_def)
  show ?case
  proof (cases "placed ! ?i")
    case (Some to)
    with Cons.prems(1) i have to: "to < length table" "table ! to = accounts ! ?i" by (auto simp: placing_ok_def)
    obtain extra ts' where IH: "place_tokens unplaced placed table ts = Some (table @ extra, ts')" "length extra \<le> length ts"
      "slots_ok (table @ extra) ts'" "map (token_view (table @ extra)) ts' = map (token_view accounts) ts"
      using Cons.IH [OF Cons.prems(1) i(2)] by blast
    have "place_tokens unplaced placed table (t # ts) = Some (table @ extra, t\<lparr>st_account := to\<rparr> # ts')"
      using Some i(1) len IH(1) by (simp add: get_def)
    moreover have "token_view (table @ extra) (t\<lparr>st_account := to\<rparr>) = token_view accounts t"
      unfolding token_view_slot using to by (simp add: token_view_def nth_append)
    ultimately show ?thesis using IH to
      by (intro exI [of _ extra] exI [of _ "t\<lparr>st_account := to\<rparr> # ts'"]) (simp add: slots_ok_Cons)
  next
    case None
    with Cons.prems(1) i have un: "unplaced ! ?i = Some (accounts ! ?i)" by (auto simp: placing_ok_def)
    let ?table = "table @ [accounts ! ?i]"
    have "placing_ok accounts (unplaced[?i := None]) (placed[?i := Some (length table)]) ?table"
      using Cons.prems(1) i(1) by (auto simp: placing_ok_def nth_list_update nth_append split: option.splits)
    from Cons.IH [OF this i(2)] obtain extra ts' where IH:
      "place_tokens (unplaced[?i := None]) (placed[?i := Some (length table)]) ?table ts = Some (?table @ extra, ts')"
      "length extra \<le> length ts" "slots_ok (?table @ extra) ts'" "map (token_view (?table @ extra)) ts' = map (token_view accounts) ts"
      by blast
    have "place_tokens unplaced placed table (t # ts) =
        Some (table @ accounts ! ?i # extra, t\<lparr>st_account := length table\<rparr> # ts')"
      using None un i(1) len IH(1) by (simp add: get_def Let_def)
    moreover have "token_view (?table @ extra) (t\<lparr>st_account := length table\<rparr>) = token_view accounts t"
      unfolding token_view_slot by (simp add: token_view_def)
    ultimately show ?thesis using IH
      by (intro exI [of _ "accounts ! ?i # extra"] exI [of _ "t\<lparr>st_account := length table\<rparr> # ts'"])
        (simp add: slots_ok_Cons)
  qed
qed (simp add: slots_ok_def)

lemma kept_tokens_small:
  "length ts \<le> BOUND_TOKEN_CAP \<Longrightarrow> set (kept_tokens ts) = set ts \<and> length (kept_tokens ts) = length ts \<and>
     (distinct (map st_hash ts) \<longrightarrow> distinct (map st_hash (kept_tokens ts)))"
  by (simp add: kept_tokens_def distinct_map inj_on_def)

text \<open>A token as a load reads it, and as its view decides it.\<close>

definition token_value :: "resolved list \<Rightarrow> i64 \<Rightarrow> i64 \<Rightarrow> stored_token \<Rightarrow> minted option" where
  "token_value res now_ms ttl_ms t =
     (if saturating_sub_i64 now_ms (st_ms t) > ttl_ms then None
      else case get res (st_account t) of Some (One idx) \<Rightarrow> Some (idx, st_kind t, st_ms t) | _ \<Rightarrow> None)"

definition view_value ::
  "identity list \<Rightarrow> i64 \<Rightarrow> i64 \<Rightarrow> string \<times> stored_account \<times> bound_token_kind \<times> i64 \<Rightarrow> minted option" where
  "view_value accounts now_ms ttl_ms = (\<lambda>(h, a, kind, ms).
     if saturating_sub_i64 now_ms ms > ttl_ms then None
     else case resolve accounts a of One idx \<Rightarrow> Some (idx, kind, ms) | _ \<Rightarrow> None)"

lemma token_value_view:
  "st_account t < length table \<Longrightarrow>
     token_value (map (resolve accounts) table) now_ms ttl_ms t = view_value accounts now_ms ttl_ms (token_view table t)"
  by (simp add: token_value_def view_value_def token_view_def get_def)

lemma load_token_get:
  "hm_get (tr_tokens (load_token res now_ms ttl_ms t r)) h =
     (if h = st_hash t \<and> token_value res now_ms ttl_ms t \<noteq> None then token_value res now_ms ttl_ms t else hm_get (tr_tokens r) h)"
  by (auto simp: load_token_def token_value_def split: option.splits resolved.splits)

lemma load_tokens_get:
  "distinct (map st_hash ts) \<Longrightarrow> (\<And>t. t \<in> set ts \<Longrightarrow> hm_get (tr_tokens r) (st_hash t) = None) \<Longrightarrow>
     hm_get (tr_tokens (fold (load_token res now_ms ttl_ms) ts r)) h = Some v \<longleftrightarrow>
       hm_get (tr_tokens r) h = Some v \<or> (\<exists>t\<in>set ts. st_hash t = h \<and> token_value res now_ms ttl_ms t = Some v)"
proof (induction ts arbitrary: r)
  case (Cons t ts)
  let ?r = "load_token res now_ms ttl_ms t r"
  have "hm_get (tr_tokens ?r) (st_hash t') = None" if "t' \<in> set ts" for t'
  proof -
    have "st_hash t' \<noteq> st_hash t" using Cons.prems(1) that by (auto simp: image_iff)
    then show ?thesis using Cons.prems(2) [of t'] that by (simp add: load_token_get)
  qed
  with Cons.IH [of ?r] Cons.prems(1) have IH: "hm_get (tr_tokens (fold (load_token res now_ms ttl_ms) ts ?r)) h = Some v \<longleftrightarrow>
      hm_get (tr_tokens ?r) h = Some v \<or> (\<exists>t\<in>set ts. st_hash t = h \<and> token_value res now_ms ttl_ms t = Some v)" by simp
  have "hm_get (tr_tokens r) (st_hash t) = None" using Cons.prems(2) by simp
  then show ?case unfolding fold_simps comp_apply IH by (cases v) (auto simp: load_token_get)
qed simp

lemma restore_all:
  "sh_ok std_hash s \<Longrightarrow> sh_find std_hash (fold (\<lambda>(h, v). sh_insert_if_absent std_hash h v) kvs s) h =
     (case sh_find std_hash s h of Some v \<Rightarrow> Some v | None \<Rightarrow> hm_get kvs h)"
proof (induction kvs arbitrary: s)
  case (Cons kv kvs)
  obtain k v where kv: "kv = (k, v)" by (cases kv)
  have "sh_find std_hash (fold (\<lambda>(h, v). sh_insert_if_absent std_hash h v) kvs (sh_insert_if_absent std_hash k v s)) h =
      (case sh_find std_hash (sh_insert_if_absent std_hash k v s) h of Some v \<Rightarrow> Some v | None \<Rightarrow> hm_get kvs h)"
    by (rule Cons.IH [OF sh_ok_insert_if_absent [OF Cons.prems]])
  then show ?case
    using sh_insert_if_absent_find [OF Cons.prems, of k v h] by (auto simp: kv hm_get_Cons split: option.splits)
qed (simp add: hm_get_def split: option.splits)

text \<open>The account a token names after a restart.\<close>

definition restart_token :: "manager \<Rightarrow> manager \<Rightarrow> i64 \<Rightarrow> i64 \<Rightarrow> minted \<Rightarrow> minted option" where
  "restart_token m m' now_ms ttl_ms = (\<lambda>(i, kind, ms).
     case get (m_accounts m) i of
       None \<Rightarrow> None
     | Some a \<Rightarrow> if saturating_sub_i64 now_ms ms > ttl_ms then None
                 else (case resolve (restore_candidates m') (identity_of a) of One j \<Rightarrow> Some (j, kind, ms) | _ \<Rightarrow> None))"

lemma entry_view_restart:
  "entry_view (m_accounts m) (h, u) = Some x \<Longrightarrow> fst x = h \<and> view_value (restore_candidates m') now_ms ttl_ms x = restart_token m m' now_ms ttl_ms u"
  "entry_view (m_accounts m) (h, u) = None \<Longrightarrow> restart_token m m' now_ms ttl_ms u = None"
  by (cases u; force simp: entry_view_def restart_token_def view_value_def split: option.splits)+

lemma entry_view_time: "entry_view accounts (h, u) = Some x \<Longrightarrow> snd (snd (snd x)) = mint_ms u"
  by (cases u) (auto simp: entry_view_def)

lemma prepared_file:
  assumes ok: "sh_ok std_hash (bs_tokens st)" and small: "sh_bounded (bs_tokens st)"
  obtains table ts where "prepare (bound_token_snapshot m st) = Some (table, ts)" "slots_ok table ts" "length table \<le> BOUND_TOKEN_CAP"
    "distinct (map st_hash ts)"
    "\<And>x. x \<in> token_view table ` set ts \<longleftrightarrow> (\<exists>h u. sh_find std_hash (bs_tokens st) h = Some u \<and> entry_view (m_accounts m) (h, u) = Some x)"
proof -
  define sn where "sn = bound_token_snapshot m st"
  define es where "es = sh_entries (bs_tokens st)"
  define kept where "kept = kept_tokens (sn_tokens sn)"
  have sn: "slots_ok (sn_accounts sn) (sn_tokens sn)"
    "map (token_view (sn_accounts sn)) (sn_tokens sn) = List.map_filter (entry_view (m_accounts m)) es"
    using snapshot_view [of m st] by (simp_all add: sn_def es_def)
  have "length (sn_tokens sn) = length (List.map_filter (entry_view (m_accounts m)) es)" by (metis sn(2) length_map)
  also have "\<dots> \<le> BOUND_TOKEN_CAP" using length_map_filter [of _ es] sh_entries_bounded [OF small] by (auto simp: es_def intro: order_trans)
  finally have short: "length (sn_tokens sn) \<le> BOUND_TOKEN_CAP" .
  have "distinct (map fst (List.map_filter (entry_view (m_accounts m)) es))"
    by (rule distinct_map_filter [of fst]) (use sh_entries_distinct [OF ok] in \<open>auto simp: es_def entry_view_def\<close>)
  then have "distinct (map st_hash (sn_tokens sn))"
    unfolding sn(2) [symmetric] map_map by (simp add: comp_def token_view_def)
  with kept_tokens_small [OF short] have kept: "set kept = set (sn_tokens sn)" "length kept \<le> BOUND_TOKEN_CAP" "distinct (map st_hash kept)"
    using short by (simp_all add: kept_def)
  have "placing_ok (sn_accounts sn) (map Some (sn_accounts sn)) (replicate (length (sn_accounts sn)) None) []"
    by (simp add: placing_ok_def)
  moreover have "slots_ok (sn_accounts sn) kept" using sn(1) kept(1) by (simp add: slots_ok_def)
  ultimately obtain table ts where prep: "prepare sn = Some (table, ts)" "length table \<le> length kept" "slots_ok table ts"
    "map (token_view table) ts = map (token_view (sn_accounts sn)) kept"
    using place_tokens_spec [of "sn_accounts sn" "map Some (sn_accounts sn)" "replicate (length (sn_accounts sn)) None" "[]" kept]
    by (auto simp: prepare_def kept_def)
  have "map fst (map (token_view table) ts) = map fst (map (token_view (sn_accounts sn)) kept)" by (simp only: prep(4))
  then have "map st_hash ts = map st_hash kept" by (simp add: token_view_def comp_def)
  moreover have "token_view table ` set ts = set (List.map_filter (entry_view (m_accounts m)) es)"
    using arg_cong [OF prep(4), of set] arg_cong [OF sn(2), of set] kept(1) by simp
  then have "x \<in> token_view table ` set ts \<longleftrightarrow>
      (\<exists>h u. sh_find std_hash (bs_tokens st) h = Some u \<and> entry_view (m_accounts m) (h, u) = Some x)" for x
    unfolding set_map_filter by (auto simp: es_def Bex_def sh_entries_iff [OF ok])
  ultimately show thesis using that [of table ts] prep kept by (simp add: sn_def)
qed

lemma loaded_tokens:
  assumes "slots_ok table ts" "distinct (map st_hash ts)"
    and "\<And>x. x \<in> token_view table ` set ts \<longleftrightarrow> (\<exists>h u. sh_find std_hash (bs_tokens st) h = Some u \<and> entry_view (m_accounts m) (h, u) = Some x)"
  shows "hm_get (tr_tokens (fold (load_token (map (resolve (restore_candidates m')) table) now_ms ttl_ms) ts token_report_default)) h =
    Option.bind (sh_find std_hash (bs_tokens st) h) (restart_token m m' now_ms ttl_ms)"
proof (rule option_eqI)
  fix v
  let ?load = "fold (load_token (map (resolve (restore_candidates m')) table) now_ms ttl_ms) ts token_report_default"
  have "hm_get (tr_tokens ?load) h = Some v \<longleftrightarrow>
      (\<exists>t\<in>set ts. st_hash t = h \<and> token_value (map (resolve (restore_candidates m')) table) now_ms ttl_ms t = Some v)"
    using load_tokens_get [OF assms(2), of token_report_default] by (simp add: token_report_default_def hm_get_def [of "[]"])
  also have "\<dots> \<longleftrightarrow> (\<exists>x\<in>token_view table ` set ts. fst x = h \<and> view_value (restore_candidates m') now_ms ttl_ms x = Some v)"
    using assms(1) token_value_view unfolding slots_ok_def by (fastforce simp: token_view_def)
  also have "\<dots> \<longleftrightarrow> (\<exists>u. sh_find std_hash (bs_tokens st) h = Some u \<and> restart_token m m' now_ms ttl_ms u = Some v)"
    unfolding Bex_def assms(3)
  proof (intro iffI; elim exE conjE)
    fix x h' u assume x: "sh_find std_hash (bs_tokens st) h' = Some u" "entry_view (m_accounts m) (h', u) = Some x"
      "fst x = h" "view_value (restore_candidates m') now_ms ttl_ms x = Some v"
    with entry_view_restart(1) [OF x(2), of m' now_ms ttl_ms]
    show "\<exists>u. sh_find std_hash (bs_tokens st) h = Some u \<and> restart_token m m' now_ms ttl_ms u = Some v" by auto
  next
    fix u assume u: "sh_find std_hash (bs_tokens st) h = Some u" "restart_token m m' now_ms ttl_ms u = Some v"
    then obtain x where "entry_view (m_accounts m) (h, u) = Some x"
      using entry_view_restart(2) [of m h u m' now_ms ttl_ms] by fastforce
    with u entry_view_restart(1) [OF this, of m' now_ms ttl_ms]
    show "\<exists>x. (\<exists>h u. sh_find std_hash (bs_tokens st) h = Some u \<and> entry_view (m_accounts m) (h, u) = Some x) \<and>
        fst x = h \<and> view_value (restore_candidates m') now_ms ttl_ms x = Some v" by (intro exI [of _ x] conjI exI [of _ h] exI [of _ u]) auto
  qed
  finally show "hm_get (tr_tokens ?load) h = Some v \<longleftrightarrow>
      Option.bind (sh_find std_hash (bs_tokens st) h) (restart_token m m' now_ms ttl_ms) = Some v"
    by (cases "sh_find std_hash (bs_tokens st) h") simp_all
qed

text \<open>
  C39. Bound tokens survive a restart under a reordered fleet. Saving never refuses, and whatever is
  loaded afterwards names, for every token the map held, the account with the minting account's identity
  at its new place, with the same kind and mint time; a token that has expired, whose account is gone or
  whose identity two accounts share is dropped, never moved to another account, and what was learned
  since the boot stays.
\<close>

theorem restart_keeps_tokens:
  assumes ok: "sh_ok std_hash (bs_tokens st)" and small: "sh_bounded (bs_tokens st)" and boot: "sh_ok std_hash' (bs_tokens st')"
    and ints: "in_i64 saved_at" "\<forall>h u. sh_find std_hash (bs_tokens st) h = Some u \<longrightarrow> in_i64 (mint_ms u)"
    and codec: "\<forall>file. prepare (bound_token_snapshot m st) = Some file \<longrightarrow>
      decode (render (token_file_json saved_at file)) = Some (token_file_json saved_at file)"
  shows "\<exists>text. saved_tokens render saved_at m st = Some text \<and>
    (\<forall>h. sh_find std_hash' (bs_tokens (snd (restore_bound_tokens std_hash' decode (Contents text) now_ms ttl_ms m' st'))) h =
      (case sh_find std_hash' (bs_tokens st') h of
         Some v \<Rightarrow> Some v
       | None \<Rightarrow> Option.bind (sh_find std_hash (bs_tokens st) h) (restart_token m m' now_ms ttl_ms)))"
proof -
  obtain table ts where prep: "prepare (bound_token_snapshot m st) = Some (table, ts)" "slots_ok table ts"
    "length table \<le> BOUND_TOKEN_CAP" "distinct (map st_hash ts)"
    "\<And>x. x \<in> token_view table ` set ts \<longleftrightarrow> (\<exists>h u. sh_find std_hash (bs_tokens st) h = Some u \<and> entry_view (m_accounts m) (h, u) = Some x)"
    by (rule prepared_file [OF ok small, where m = m]) (rule that)
  have "in_i64 (st_ms t) \<and> st_account t < 2 ^ 64" if t: "t \<in> set ts" for t
  proof -
    obtain h u where u: "sh_find std_hash (bs_tokens st) h = Some u" "entry_view (m_accounts m) (h, u) = Some (token_view table t)"
      using prep(5) t by blast
    have "st_ms t = mint_ms u" using entry_view_time [OF u(2)] by (simp add: token_view_def)
    moreover have "in_i64 (mint_ms u)" using ints(2) u(1) by blast
    moreover have "st_account t < length table" using prep(2) t by (simp add: slots_ok_def)
    ultimately show ?thesis using prep(3) by (simp add: BOUND_TOKEN_CAP_def)
  qed
  from token_file_roundtrip [OF ints(1) this]
  have "read_cache decode token_file_from_json TOKEN_FORMAT_VERSION (Contents (render (token_file_json saved_at (table, ts)))) = Read (table, ts)"
    using codec prep(1) by (simp add: read_cache_def)
      (simp add: token_file_json_def fields_once_def jfield_def jget_def as_u32_def TOKEN_FORMAT_VERSION_def)
  then have load: "load_tokens decode (Contents (render (token_file_json saved_at (table, ts)))) (restore_candidates m') now_ms ttl_ms =
      fold (load_token (map (resolve (restore_candidates m')) table) now_ms ttl_ms) ts token_report_default"
    by (simp add: load_tokens_def)
  note loaded = loaded_tokens [OF prep(2,4,5), of m' now_ms ttl_ms]
  let ?text = "render (token_file_json saved_at (table, ts))"
  have "bs_tokens (snd (restore_bound_tokens std_hash' decode (Contents ?text) now_ms ttl_ms m' st')) =
      fold (\<lambda>(h, v). sh_insert_if_absent std_hash' h v)
        (tr_tokens (load_tokens decode (Contents ?text) (restore_candidates m') now_ms ttl_ms)) (bs_tokens st')"
    by (simp add: restore_bound_tokens_def Let_def)
  note restored = this [unfolded load]
  have "sh_find std_hash' (bs_tokens (snd (restore_bound_tokens std_hash' decode (Contents ?text) now_ms ttl_ms m' st'))) h =
      (case sh_find std_hash' (bs_tokens st') h of
         Some v \<Rightarrow> Some v
       | None \<Rightarrow> Option.bind (sh_find std_hash (bs_tokens st) h) (restart_token m m' now_ms ttl_ms))" for h
    unfolding restored restore_all [OF boot] loaded by (rule refl)
  with prep(1) show ?thesis by (simp add: saved_tokens_def)
qed

definition two_seats :: bound_state where
  "two_seats = record_bound_tokens (\<lambda>_. 0) id [(MessageId, ''msg'')] 1 1000 small_store"

lemma two_seats_ok: "sh_ok std_hash (bs_tokens small_store)" "sh_bounded (bs_tokens small_store)"
  "sh_ok (\<lambda>_. 0) (bs_tokens two_seats)" "sh_bounded (bs_tokens two_seats)"
proof -
  show ok: "sh_ok std_hash (bs_tokens small_store)" for std_hash by (rule small_store_ok)
  show b: "sh_bounded (bs_tokens small_store)"
    by (simp add: small_store_def sh_bounded_def token_map_new_def BOUND_TOKEN_CAP_def)
  show "sh_ok (\<lambda>_. 0) (bs_tokens two_seats)" "sh_bounded (bs_tokens two_seats)"
    using sh_ok_record [OF ok] sh_bounded_record [OF ok b] by (simp_all add: two_seats_def record_bound_tokens_def)
qed

theorem restart_keeps_tokens_witness:
  "\<exists>text. saved_tokens (\<lambda>_. ''tokens'') 2000 before_restart two_seats = Some text \<and>
     sh_find (\<lambda>_. 0) (bs_tokens (snd (restore_bound_tokens (\<lambda>_. 0)
       (\<lambda>_. map_option (token_file_json 2000) (prepare (bound_token_snapshot before_restart two_seats)))
       (Contents text) 3000 BOUND_TOKEN_TTL_MS after_restart small_store))) (hash_token id ''msg'') = Some (0, MessageId, 1000)"
proof -
  have entries: "sh_find (\<lambda>_. 0) (bs_tokens two_seats) h = (if h = hash_token id ''msg'' then Some (1, MessageId, 1000) else None)" for h
  proof (cases "h = hash_token id ''msg''")
    case True
    have "sh_find (\<lambda>_. 0) (bs_tokens two_seats) (hash_token id ''msg'') = Some (1, MessageId, 1000)" by code_simp
    with True show ?thesis by simp
  next
    case False
    have "sh_find (\<lambda>_. 0) (bs_tokens small_store) h = None"
      by (simp add: small_store_def sh_find_def sh_index_def shard_of_def token_map_new_def hm_get_def)
    with False tokens.lookup_put [OF two_seats_ok(1), of "\<lambda>_. 0" 1000 "hash_token id ''msg''" "(1, MessageId, 1000)" h]
    show ?thesis by (simp add: two_seats_def record_bound_tokens_def)
  qed
  have "restart_token before_restart after_restart 3000 BOUND_TOKEN_TTL_MS (1, MessageId, 1000) = Some (0, MessageId, 1000)"
    by code_simp
  moreover have "sh_find (\<lambda>_. 0) (bs_tokens small_store) (hash_token id ''msg'') = None" by code_simp
  moreover have "in_i64 2000" by code_simp
  moreover have "\<forall>h u. sh_find (\<lambda>_. 0) (bs_tokens two_seats) h = Some u \<longrightarrow> in_i64 (mint_ms u)"
    by (auto simp: entries in_i64_def i64_min_def i64_max_def split: if_splits)
  ultimately show ?thesis
    using restart_keeps_tokens [OF two_seats_ok(3,4,1), of 2000 before_restart
        "\<lambda>_. map_option (token_file_json 2000) (prepare (bound_token_snapshot before_restart two_seats))" "\<lambda>_. ''tokens''"
        "\<lambda>_. 0" 3000 BOUND_TOKEN_TTL_MS after_restart] entries by fastforce
qed

end
