(* ===== verification/Peer_Wire.thy ===== *)
theory Peer_Wire
  imports Json Strings
begin

text \<open>
  The vocabulary two machines share, \<^verbatim>\<open>crates/tcr-peer-wire/src/lib.rs\<close>: frames on a stream, the ids
  a node announces and a lease carries, labels, lending scopes, and the messages a lease is asked for and
  granted in. Text is ASCII. A refusal keeps what the code's refusal names.
\<close>

section \<open>Frames\<close>

type_synonym byte = "8 word"

definition MAX_FRAME_BYTES :: nat where "MAX_FRAME_BYTES = 65535"

datatype frame_error = Incomplete | Frame_Too_Long nat

definition encode_frame :: "byte list \<Rightarrow> byte list \<Rightarrow> frame_error + byte list" where
  "encode_frame payload out =
     (let len = length payload in
      if len > MAX_FRAME_BYTES then Inl (Frame_Too_Long len)
      else Inr (out @ [word_of_nat (len div 256), word_of_nat (len mod 256)] @ payload))"

definition decode_frame :: "byte list \<Rightarrow> frame_error + byte list \<times> nat" where
  "decode_frame buf =
     (case buf of
        hi # lo # rest \<Rightarrow>
          (let len = unat hi * 256 + unat lo
           in if len \<le> length rest then Inr (take len rest, 2 + len) else Inl Incomplete)
      | _ \<Rightarrow> Inl Incomplete)"

section \<open>Ids\<close>

definition INSTANCE_ID_BYTES :: nat where "INSTANCE_ID_BYTES = 8"

type_synonym instance_id = "byte list"

datatype instance_id_error = Id_Alphabet char | Id_Length nat

fun instance_to_wire :: "instance_id \<Rightarrow> string" where
  "instance_to_wire [] = []"
| "instance_to_wire (b # bs) = hex_char (unat b div 16) # hex_char (unat b mod 16) # instance_to_wire bs"

definition hex_nibble :: "char \<Rightarrow> instance_id_error + nat" where
  "hex_nibble c = (case hex_value c of Some d \<Rightarrow> Inr d | None \<Rightarrow> Inl (Id_Alphabet c))"

fun instance_bytes :: "string \<Rightarrow> instance_id_error + instance_id" where
  "instance_bytes (hi # lo # cs) =
     (case hex_nibble hi of
        Inl e \<Rightarrow> Inl e
      | Inr h \<Rightarrow>
          (case hex_nibble lo of
             Inl e \<Rightarrow> Inl e
           | Inr l \<Rightarrow>
               (case instance_bytes cs of
                  Inl e \<Rightarrow> Inl e
                | Inr bs \<Rightarrow> Inr (word_of_nat (16 * h + l) # bs))))"
| "instance_bytes _ = Inr []"

definition instance_parse :: "string \<Rightarrow> instance_id_error + instance_id" where
  "instance_parse raw =
     (let wire = trim raw in
      if length wire \<noteq> INSTANCE_ID_BYTES * 2 then Inl (Id_Length (length wire)) else instance_bytes wire)"

text \<open>\<open>id_hex\<close>: a 128-bit id as text.\<close>

type_synonym u128 = "128 word"

definition id_hex_serialize :: "u128 \<Rightarrow> string" where
  "id_hex_serialize i = hex_fixed 32 (unat i)"

definition id_hex_deserialize :: "string \<Rightarrow> u128 option" where
  "id_hex_deserialize raw =
     (let trimmed = trim raw
      in map_option word_of_nat (from_hex 128 (unwrap_or (strip_prefix ''0x'' trimmed) trimmed)))"

section \<open>Labels and scopes\<close>

definition MAX_LABEL_BYTES :: nat where "MAX_LABEL_BYTES = 32"

datatype label_refusal = Label_Character char | Uuid_Shape | Label_Too_Long nat | Label_Empty

definition is_ascii_alnum :: "char \<Rightarrow> bool" where
  "is_ascii_alnum c = (let n = (of_char c :: nat) in 48 \<le> n \<and> n \<le> 57 \<or> 65 \<le> n \<and> n \<le> 90 \<or> 97 \<le> n \<and> n \<le> 122)"

definition is_uuid_shape :: "string \<Rightarrow> bool" where
  "is_uuid_shape s =
     (let groups = split_on (CHR ''-'') s
      in length groups = 5 \<and>
         list_all (\<lambda>(g, len). length g = len \<and> list_all (\<lambda>c. hex_value c \<noteq> None) g) (zip groups [8, 4, 4, 4, 12]))"

definition label_char :: "char \<Rightarrow> bool" where
  "label_char c = (is_ascii_alnum c \<or> c \<in> {CHR ''-'', CHR ''_'', CHR ''.'', CHR '' ''})"

definition sanitize_label :: "string \<Rightarrow> label_refusal + string" where
  "sanitize_label raw =
     (let trimmed = trim raw in
      if trimmed = [] then Inl Label_Empty
      else if is_uuid_shape trimmed then Inl Uuid_Shape
      else if length trimmed > MAX_LABEL_BYTES then Inl (Label_Too_Long (length trimmed))
      else case List.find (\<lambda>c. \<not> label_char c) trimmed of
             Some c \<Rightarrow> Inl (Label_Character c)
           | None \<Rightarrow> Inr trimmed)"

datatype lend_scope = Scope_All | Scope_Group string | Scope_Accounts "string list"

datatype lend_scope_refusal = Scope_Shape string | No_Accounts | Scope_Label label_refusal

fun scope_labels :: "string list \<Rightarrow> label_refusal + string list" where
  "scope_labels [] = Inr []"
| "scope_labels (raw # raws) =
     (if trim raw = [] then scope_labels raws
      else case sanitize_label (trim raw) of
             Inl e \<Rightarrow> Inl e
           | Inr l \<Rightarrow> (case scope_labels raws of Inl e \<Rightarrow> Inl e | Inr ls \<Rightarrow> Inr (l # ls)))"

definition scope_parse :: "string \<Rightarrow> lend_scope_refusal + lend_scope" where
  "scope_parse raw =
     (let spec = trim raw in
      if eq_ignore_ascii_case spec ''all'' then Inr Scope_All
      else case strip_prefix ''group:'' spec of
        Some name \<Rightarrow> (case sanitize_label (trim name) of Inl e \<Rightarrow> Inl (Scope_Label e) | Inr l \<Rightarrow> Inr (Scope_Group l))
      | None \<Rightarrow>
          (case or_else (strip_prefix ''account:'' spec) (strip_prefix ''accounts:'' spec) of
             Some names \<Rightarrow>
               (case scope_labels (split_on (CHR '','') names) of
                  Inl e \<Rightarrow> Inl (Scope_Label e)
                | Inr [] \<Rightarrow> Inl No_Accounts
                | Inr ls \<Rightarrow> Inr (Scope_Accounts ls))
           | None \<Rightarrow> Inl (Scope_Shape spec)))"

fun scope_to_spec :: "lend_scope \<Rightarrow> string" where
  "scope_to_spec Scope_All = ''all''"
| "scope_to_spec (Scope_Group name) = ''group:'' @ name"
| "scope_to_spec (Scope_Accounts labels) = ''account:'' @ join_with '','' labels"

section \<open>Leases\<close>

datatype window = Five_Hour | Seven_Day | Seven_Day_Oi | Window_Unknown

datatype lease_unit = Fraction f64 | Tokens u64 | Unit_Unknown

text \<open>\<open>From<LeaseUnitWire>\<close> and back: the unit is a string, the amount any JSON value.\<close>

definition as_u64 :: "json \<Rightarrow> u64 option" where
  "as_u64 v = (case v of JInt n \<Rightarrow> if 0 \<le> n \<and> n < 2 ^ 64 then Some (word_of_int n) else None | _ \<Rightarrow> None)"

definition unit_from_wire :: "string \<times> json option \<Rightarrow> lease_unit" where
  "unit_from_wire w =
     (case w of (unit, amount) \<Rightarrow>
        if unit = ''fraction'' then (case Option.bind amount as_f64 of Some f \<Rightarrow> Fraction f | None \<Rightarrow> Unit_Unknown)
        else if unit = ''tokens'' then (case Option.bind amount as_u64 of Some n \<Rightarrow> Tokens n | None \<Rightarrow> Unit_Unknown)
        else Unit_Unknown)"

text \<open>A fraction that is no number is written as null.\<close>

fun unit_to_wire :: "lease_unit \<Rightarrow> string \<times> json option" where
  "unit_to_wire (Fraction f) = (''fraction'', Some (if is_finite f then JFloat f else JNull))"
| "unit_to_wire (Tokens n) = (''tokens'', Some (JInt (uint n)))"
| "unit_to_wire Unit_Unknown = (''unknown'', None)"

type_synonym u8 = "8 word"

record lease =
  le_id :: u128
  le_window :: window
  le_unit :: lease_unit
  le_granted_at_ms :: i64
  le_expires_at_ms :: i64
  le_spent :: f64
  le_max_inflight :: u8
  le_until :: "u64 option"

record lease_request =
  rq_window :: window
  rq_unit :: lease_unit
  rq_ttl_s :: u32
  rq_max_inflight :: u8

datatype lease_refusal =
  Lease_Expired | Lease_Spent | Owner_Guard | Too_Many_Leases | Inspect_Not_Granted | Unsupported | In_Flight_Full | Outside_Schedule

record lease_grant =
  lg_lease :: "lease option"
  lg_refusal :: "lease_refusal option"

section \<open>Frames lose nothing\<close>

lemma unat_byte: "n < 256 \<Longrightarrow> unat (word_of_nat n :: byte) = n"
  by (simp add: unat_of_nat)

text \<open>
  A frame is read back whole and nothing but the frame is. Whatever follows it on the stream, the
  reader gets the payload and the number of bytes that were the frame; of every proper prefix it is told
  to read more; and the writer refuses exactly the payloads the length prefix cannot describe.
\<close>

theorem frame_roundtrip:
  assumes "length payload \<le> MAX_FRAME_BYTES"
  shows "\<exists>frame. encode_frame payload out = Inr (out @ frame) \<and>
    decode_frame (frame @ rest) = Inr (payload, length frame) \<and>
    (\<forall>k<length frame. decode_frame (take k frame) = Inl Incomplete)"
proof -
  let ?n = "length payload"
  let ?frame = "[word_of_nat (?n div 256), word_of_nat (?n mod 256)] @ payload :: byte list"
  have n: "?n div 256 < 256" "?n mod 256 < 256" using assms by (simp_all add: MAX_FRAME_BYTES_def)
  then have len: "unat (word_of_nat (?n div 256) :: byte) * 256 + unat (word_of_nat (?n mod 256) :: byte) = ?n"
    by (simp only: unat_byte div_mult_mod_eq)
  have "encode_frame payload out = Inr (out @ ?frame)"
    using assms by (simp add: encode_frame_def Let_def)
  moreover have "decode_frame (?frame @ rest) = Inr (payload, length ?frame)"
    using len by (simp add: decode_frame_def Let_def)
  moreover have "decode_frame (take k ?frame) = Inl Incomplete" if "k < length ?frame" for k
  proof -
    have kn: "k < Suc (Suc ?n)" using that by simp
    show ?thesis
    proof (cases k)
      case (Suc j)
      then show ?thesis using kn len by (cases j) (simp_all add: decode_frame_def Let_def)
    qed (simp add: decode_frame_def)
  qed
  ultimately show ?thesis by blast
qed

lemma frame_refused_iff: "(\<exists>e. encode_frame payload out = Inl e) \<longleftrightarrow> MAX_FRAME_BYTES < length payload"
  by (auto simp: encode_frame_def Let_def)

section \<open>Ids\<close>

lemma instance_bytes_wire: "instance_bytes (instance_to_wire i) = Inr i"
proof (induction i)
  case (Cons b bs)
  have "unat b < 256" using unsigned_less [of b] by simp
  then have "unat b div 16 < 16" "unat b mod 16 < 16" by simp_all
  moreover have "(word_of_nat (16 * (unat b div 16) + unat b mod 16) :: byte) = b" by simp
  ultimately show ?case using Cons.IH by (simp add: hex_nibble_def)
qed simp

lemma length_instance_to_wire [simp]: "length (instance_to_wire i) = 2 * length i"
  by (induction i) simp_all

lemma instance_to_wire_chars: "c \<in> set (instance_to_wire i) \<Longrightarrow> \<not> is_ascii_space c"
proof (induction i)
  case (Cons b bs)
  have "unat b < 256" using unsigned_less [of b] by simp
  then have "unat b div 16 < 16" "unat b mod 16 < 16" by simp_all
  with Cons show ?case by (auto simp: hex_char_chars)
qed simp

lemma instance_roundtrip: "length i = INSTANCE_ID_BYTES \<Longrightarrow> instance_parse (instance_to_wire i) = Inr i"
  by (simp add: instance_parse_def trim_no_space instance_to_wire_chars instance_bytes_wire)

lemma id_hex_roundtrip: "id_hex_deserialize (id_hex_serialize i) = Some i"
proof -
  have n: "unat i < 16 ^ 32" using unsigned_less [of i] by simp
  have "starts_with (hex_fixed 32 (unat i)) ''0x'' \<Longrightarrow> CHR ''x'' \<in> set (hex_fixed 32 (unat i))"
    by (auto simp: starts_with_iff)
  then have "strip_prefix ''0x'' (hex_fixed 32 (unat i)) = None"
    using hex_fixed_chars [of "CHR ''x''" 32 "unat i"] by (auto simp: strip_prefix_def)
  moreover have "trim (hex_fixed 32 (unat i)) = hex_fixed 32 (unat i)" by (rule trim_no_space) (simp add: hex_fixed_chars)
  moreover have "from_hex 128 (hex_fixed 32 (unat i)) = Some (unat i)" using n by (rule from_hex_fixed) simp_all
  ultimately show ?thesis
    unfolding id_hex_deserialize_def id_hex_serialize_def by (simp add: Let_def unwrap_or_def del: hex_fixed.simps)
qed

section \<open>Labels and scopes\<close>

lemma sanitize_label_iff:
  "sanitize_label raw = Inr l \<longleftrightarrow>
     l = trim raw \<and> l \<noteq> [] \<and> \<not> is_uuid_shape l \<and> length l \<le> MAX_LABEL_BYTES \<and> (\<forall>c\<in>set l. label_char c)"
proof (cases "List.find (\<lambda>c. \<not> label_char c) (trim raw)")
  case None
  then have "\<forall>c\<in>set (trim raw). label_char c" by (simp add: find_None_iff)
  with None show ?thesis by (auto simp: sanitize_label_def Let_def)
next
  case (Some c)
  then have "c \<in> set (trim raw) \<and> \<not> label_char c" by (auto simp: find_Some_iff)
  with Some show ?thesis by (auto simp: sanitize_label_def Let_def)
qed

definition label_ok :: "string \<Rightarrow> bool" where
  "label_ok l \<longleftrightarrow> trim l = l \<and> l \<noteq> [] \<and> \<not> is_uuid_shape l \<and> length l \<le> MAX_LABEL_BYTES \<and> (\<forall>c\<in>set l. label_char c)"

lemma trim_ends:
  assumes "trim s = t" "t \<noteq> []"
  shows "\<not> is_ascii_space (hd t)" "\<not> is_ascii_space (last t)"
proof -
  let ?d = "dropWhile is_ascii_space"
  have t: "t = rev (?d (rev (?d s)))" using assms(1) by (simp add: trim_def)
  then have d: "?d (rev (?d s)) \<noteq> []" using assms(2) by auto
  show "\<not> is_ascii_space (last t)" using hd_dropWhile [of is_ascii_space "rev (?d s)"] d t by (simp add: last_rev dropWhile_eq_Nil_conv)
  obtain u where u: "?d s = t @ u"
    using suffix_dropWhile [of is_ascii_space "rev (?d s)"] unfolding t by (metis rev_rev_ident suffix_def rev_append)
  then have "hd t = hd (?d s)" "?d s \<noteq> []" using assms(2) by simp_all
  then show "\<not> is_ascii_space (hd t)" using hd_dropWhile [of is_ascii_space s] by (metis dropWhile_eq_Nil_conv)
qed

lemma trim_trim [simp]: "trim (trim s) = trim s"
  by (rule trim_id) (simp add: trim_ends)

lemma sanitize_label_ok: "sanitize_label raw = Inr l \<Longrightarrow> label_ok l"
  by (auto simp: sanitize_label_iff label_ok_def)

lemma sanitize_ok_label: "label_ok l \<Longrightarrow> sanitize_label l = Inr l"
  by (simp add: sanitize_label_iff label_ok_def)

fun scope_ok :: "lend_scope \<Rightarrow> bool" where
  "scope_ok Scope_All = True"
| "scope_ok (Scope_Group name) = label_ok name"
| "scope_ok (Scope_Accounts labels) = (labels \<noteq> [] \<and> (\<forall>l\<in>set labels. label_ok l))"

lemma scope_labels_ok: "scope_labels raws = Inr ls \<Longrightarrow> l \<in> set ls \<Longrightarrow> label_ok l"
  by (induction raws arbitrary: ls) (auto simp: sanitize_label_ok split: if_splits sum.splits)

lemma scope_parse_ok: "scope_parse raw = Inr sc \<Longrightarrow> scope_ok sc"
  by (auto simp: scope_parse_def Let_def sanitize_label_ok scope_labels_ok split: if_splits option.splits sum.splits list.splits)

lemma scope_labels_of_ok: "(\<And>l. l \<in> set ls \<Longrightarrow> label_ok l) \<Longrightarrow> scope_labels ls = Inr ls"
proof (induction ls)
  case (Cons l ls)
  then have "label_ok l" by simp
  then have "trim l = l" "l \<noteq> []" "sanitize_label l = Inr l" by (auto simp: label_ok_def sanitize_ok_label)
  with Cons show ?case by simp
qed simp

lemma label_no_comma: "label_ok l \<Longrightarrow> CHR '','' \<notin> set l"
proof -
  have "\<not> label_char (CHR '','')" by (simp add: label_char_def is_ascii_alnum_def)
  then show "label_ok l \<Longrightarrow> CHR '','' \<notin> set l" by (auto simp: label_ok_def)
qed

lemma last_join: "ls \<noteq> [] \<Longrightarrow> (\<And>l. l \<in> set ls \<Longrightarrow> l \<noteq> []) \<Longrightarrow> join_with s ls \<noteq> [] \<and> last (join_with s ls) = last (last ls)"
proof (induction ls)
  case (Cons l ls)
  then show ?case by (cases ls) auto
qed simp

text \<open>
  What an operator writes as a scope is what is stored, printed and read back. A scope that was
  parsed prints to a text that parses to it again, so no two scopes print alike, and every label in it
  is one no email address and no account id can be.
\<close>

theorem scope_roundtrip:
  assumes "scope_parse raw = Inr sc"
  shows "scope_parse (scope_to_spec sc) = Inr sc"
proof -
  note ok = scope_parse_ok [OF assms]
  show ?thesis
  proof (cases sc)
    case Scope_All
    then show ?thesis by (simp add: scope_parse_def trim_def is_ascii_space_def eq_ignore_ascii_case_def)
  next
    case (Scope_Group name)
    with ok have l: "label_ok name" by simp
    then have "\<not> is_ascii_space (last name)" "name \<noteq> []" "trim name = name"
      using trim_ends [of name name] by (auto simp: label_ok_def)
    then have "trim (''group:'' @ name) = ''group:'' @ name" by (intro trim_id) (simp add: is_ascii_space_def)
    moreover have "\<not> eq_ignore_ascii_case (''group:'' @ name) ''all''"
      by (simp add: eq_ignore_ascii_case_def to_ascii_lowercase_def ascii_lower_def)
    ultimately show ?thesis
      using Scope_Group l \<open>trim name = name\<close> strip_prefix_append [of "''group:''" name]
      by (simp add: scope_parse_def Let_def sanitize_ok_label)
  next
    case (Scope_Accounts labels)
    with ok have l: "labels \<noteq> []" "\<And>l. l \<in> set labels \<Longrightarrow> label_ok l" by auto
    then have "\<not> is_ascii_space (last (last labels))"
      using trim_ends [of "last labels" "last labels"] by (auto simp: label_ok_def)
    then have "\<not> is_ascii_space (last (join_with '','' labels))" "join_with '','' labels \<noteq> []"
      using last_join [of labels "'',''"] l by (auto simp: label_ok_def)
    then have "trim (''account:'' @ join_with '','' labels) = ''account:'' @ join_with '','' labels"
      by (intro trim_id) (simp add: is_ascii_space_def)
    moreover have "\<not> eq_ignore_ascii_case (''account:'' @ join_with '','' labels) ''all''"
      by (simp add: eq_ignore_ascii_case_def to_ascii_lowercase_def ascii_lower_def)
    moreover have "strip_prefix ''group:'' (''account:'' @ join_with '','' labels) = None"
      by (simp add: strip_prefix_def starts_with_def)
    moreover have "split_on (CHR '','') (join_with '','' labels) = labels"
      using l by (intro split_on_join) (auto dest: label_no_comma)
    ultimately show ?thesis
      using Scope_Accounts l scope_labels_of_ok [of labels] strip_prefix_append [of "''account:''" "join_with '','' labels"]
      by (simp add: scope_parse_def Let_def or_else_def split: list.splits)
  qed
qed

theorem scope_roundtrip_witness:
  "scope_parse (scope_to_spec (Scope_Accounts [''work'', ''home mac''])) = Inr (Scope_Accounts [''work'', ''home mac''])"
proof -
  have "scope_parse '' account: work,, home mac '' = Inr (Scope_Accounts [''work'', ''home mac''])" by code_simp
  then show ?thesis by (rule scope_roundtrip)
qed

theorem frame_roundtrip_witness:
  "decode_frame ([0, 2, 7, 9] @ [1]) = Inr ([7, 9], 4)"
proof -
  have "length ([7, 9] :: byte list) \<le> MAX_FRAME_BYTES" by (simp add: MAX_FRAME_BYTES_def)
  moreover have "encode_frame [7, 9] [] = Inr [0, 2, 7, 9]"
    by (simp add: encode_frame_def Let_def MAX_FRAME_BYTES_def)
  ultimately show ?thesis using frame_roundtrip [of "[7, 9]" "[]" "[1]"] by auto
qed

end
