(* ===== verification/Lend_Schedule.thy ===== *)
theory Lend_Schedule
  imports Quota Strings
begin

text \<open>
  \<^verbatim>\<open>src/peer/schedule.rs\<close>: the daily window and the days a grant is lent on, and the instant a window
  closes, \<open>schedule_closes_at_ms\<close> of \<^verbatim>\<open>src/peer/lease.rs\<close>. The offset of this machine at an instant
  (\<open>UtcOffset::local_offset_at\<close>, in seconds) is an argument; it may fail, and the code then takes UTC. A
  local reading is the instant plus its offset, in nanoseconds.
\<close>

section \<open>Times of day and days\<close>

record hhmm =
  hh_hour :: nat
  hh_minute :: nat

definition hhmm_new :: "nat \<Rightarrow> nat \<Rightarrow> hhmm option" where
  "hhmm_new hour minute = (if hour < 24 \<and> minute < 60 then Some \<lparr>hh_hour = hour, hh_minute = minute\<rparr> else None)"

definition minute_of_day :: "hhmm \<Rightarrow> nat" where
  "minute_of_day t = hh_hour t * 60 + hh_minute t"

definition pad2 :: "nat \<Rightarrow> string" where
  "pad2 n = (if n < 10 then CHR ''0'' # decimal n else decimal n)"

definition hhmm_to_string :: "hhmm \<Rightarrow> string" where
  "hhmm_to_string t = pad2 (hh_hour t) @ '':'' @ pad2 (hh_minute t)"

definition hhmm_from_str :: "string \<Rightarrow> hhmm option" where
  "hhmm_from_str raw =
     (case split_once (CHR '':'') (trim raw) of
        None \<Rightarrow> None
      | Some (hour, minute) \<Rightarrow>
          (case (parse_unsigned 8 hour, parse_unsigned 8 minute) of
             (Some h, Some m) \<Rightarrow> hhmm_new h m
           | _ \<Rightarrow> None))"

record between =
  bw_start :: hhmm
  bw_end :: hhmm

definition between_to_string :: "between \<Rightarrow> string" where
  "between_to_string w = hhmm_to_string (bw_start w) @ ''-'' @ hhmm_to_string (bw_end w)"

definition between_from_str :: "string \<Rightarrow> between option" where
  "between_from_str raw =
     (case split_once (CHR ''-'') (trim raw) of
        None \<Rightarrow> None
      | Some (a, b) \<Rightarrow>
          (case (hhmm_from_str a, hhmm_from_str b) of
             (Some s, Some e) \<Rightarrow> Some \<lparr>bw_start = s, bw_end = e\<rparr>
           | _ \<Rightarrow> None))"

datatype weekday = Monday | Tuesday | Wednesday | Thursday | Friday | Saturday | Sunday

fun previous_day :: "weekday \<Rightarrow> weekday" where
  "previous_day Monday = Sunday"
| "previous_day Tuesday = Monday"
| "previous_day Wednesday = Tuesday"
| "previous_day Thursday = Wednesday"
| "previous_day Friday = Thursday"
| "previous_day Saturday = Friday"
| "previous_day Sunday = Saturday"

fun weekday_name :: "weekday \<Rightarrow> string" where
  "weekday_name Monday = ''Monday''"
| "weekday_name Tuesday = ''Tuesday''"
| "weekday_name Wednesday = ''Wednesday''"
| "weekday_name Thursday = ''Thursday''"
| "weekday_name Friday = ''Friday''"
| "weekday_name Saturday = ''Saturday''"
| "weekday_name Sunday = ''Sunday''"

definition DAY_NAMES :: "(string \<times> weekday) list" where
  "DAY_NAMES = [(''mon'', Monday), (''tue'', Tuesday), (''wed'', Wednesday), (''thu'', Thursday), (''fri'', Friday),
     (''sat'', Saturday), (''sun'', Sunday)]"

text \<open>\<open>Days\<close> is the list in the order it was written.\<close>

type_synonym days = "weekday list"

definition day_name :: "weekday \<Rightarrow> string" where
  "day_name d = unwrap_or (map_option fst (List.find (\<lambda>(_, known). known = d) DAY_NAMES)) ''???''"

definition days_to_string :: "days \<Rightarrow> string" where
  "days_to_string ds = join_with '','' (map day_name ds)"

definition day_named :: "string \<Rightarrow> weekday option" where
  "day_named token =
     map_option snd (List.find (\<lambda>(name, d). token = name \<or> token = to_ascii_lowercase (weekday_name d)) DAY_NAMES)"

fun days_of_tokens :: "string list \<Rightarrow> days \<Rightarrow> days option" where
  "days_of_tokens [] ds = Some ds"
| "days_of_tokens (raw # raws) ds =
     (let token = to_ascii_lowercase (trim raw) in
      if token = [] then days_of_tokens raws ds
      else case day_named token of
             None \<Rightarrow> None
           | Some d \<Rightarrow> days_of_tokens raws (if d \<in> set ds then ds else ds @ [d]))"

definition days_from_str :: "string \<Rightarrow> days option" where
  "days_from_str raw = days_of_tokens (split_on (CHR '','') raw) []"

section \<open>The schedule\<close>

record schedule =
  sd_between :: "(hhmm \<times> hhmm) option"
  sd_days :: "weekday set option"

definition always :: schedule where "always = \<lparr>sd_between = None, sd_days = None\<rparr>"

definition from_parts :: "between option \<Rightarrow> days option \<Rightarrow> schedule option" where
  "from_parts bt ds =
     (let days = map_option set (filter_opt (\<lambda>d. d \<noteq> []) ds);
          window = map_option (\<lambda>w. (bw_start w, bw_end w)) bt
      in if window = None \<and> days = None then None else Some \<lparr>sd_between = window, sd_days = days\<rparr>)"

definition NS_PER_MINUTE :: int where "NS_PER_MINUTE = 60 * 1000000000"
definition NS_PER_DAY :: int where "NS_PER_DAY = 86400 * 1000000000"

text \<open>The day the epoch fell on was a Thursday.\<close>

fun weekday_of_number :: "nat \<Rightarrow> weekday" where
  "weekday_of_number 0 = Thursday"
| "weekday_of_number (Suc 0) = Friday"
| "weekday_of_number (Suc (Suc 0)) = Saturday"
| "weekday_of_number (Suc (Suc (Suc 0))) = Sunday"
| "weekday_of_number (Suc (Suc (Suc (Suc 0)))) = Monday"
| "weekday_of_number (Suc (Suc (Suc (Suc (Suc 0))))) = Tuesday"
| "weekday_of_number _ = Wednesday"

definition local_date :: "odt \<Rightarrow> int" where "local_date local = local div NS_PER_DAY"
definition local_weekday :: "odt \<Rightarrow> weekday" where
  "local_weekday local = weekday_of_number (nat (local_date local mod 7))"
definition local_minute :: "odt \<Rightarrow> nat" where
  "local_minute local = nat (local mod NS_PER_DAY div NS_PER_MINUTE)"

definition to_local :: "(odt \<Rightarrow> int option) \<Rightarrow> odt \<Rightarrow> odt" where
  "to_local local_offset_at now = now + unwrap_or (local_offset_at now) 0 * ns_per_sec"

definition day_open :: "schedule \<Rightarrow> weekday \<Rightarrow> bool" where
  "day_open s d = is_none_or (sd_days s) (\<lambda>days. d \<in> days)"

definition contains_at_local :: "schedule \<Rightarrow> odt \<Rightarrow> bool" where
  "contains_at_local s local =
     (let day = local_weekday local; minute = local_minute local in
      case sd_between s of
        None \<Rightarrow> day_open s day
      | Some (start, stop) \<Rightarrow>
          (let start_m = minute_of_day start; end_m = minute_of_day stop in
           if start_m < end_m then day_open s day \<and> start_m \<le> minute \<and> minute < end_m
           else if start_m > end_m then
             (day_open s (previous_day day) \<and> minute < end_m) \<or> (day_open s day \<and> start_m \<le> minute)
           else False))"

definition contains :: "(odt \<Rightarrow> int option) \<Rightarrow> schedule \<Rightarrow> odt \<Rightarrow> bool" where
  "contains local_offset_at s now = contains_at_local s (to_local local_offset_at now)"

section \<open>When the window closes\<close>

text \<open>The close in local time: a time of day, today or tomorrow. \<open>Time::from_hms\<close> accepts the end of
  every window that can be written; a date has a successor before the year 9999.\<close>

definition closes_at_local :: "schedule \<Rightarrow> odt \<Rightarrow> odt option" where
  "closes_at_local s local =
     (let minute = local_minute local;
          day_at = (\<lambda>next_day close. Some ((local_date local + (if next_day then 1 else 0)) * NS_PER_DAY + int close * NS_PER_MINUTE))
      in case sd_between s of
           None \<Rightarrow> if sd_days s = None then None else day_at True 0
         | Some (start, stop) \<Rightarrow>
             (let start_m = minute_of_day start; end_m = minute_of_day stop in
              if start_m < end_m then day_at False end_m
              else if start_m > end_m then (if minute < end_m then day_at False end_m else day_at True end_m)
              else None))"

definition schedule_closes_at_ms :: "(odt \<Rightarrow> int option) \<Rightarrow> schedule \<Rightarrow> odt \<Rightarrow> i64 option" where
  "schedule_closes_at_ms local_offset_at s now =
     (case closes_at_local s (to_local local_offset_at now) of
        None \<Rightarrow> None
      | Some close \<Rightarrow>
          (let ms = trunc_div (close - unwrap_or (local_offset_at now) 0 * ns_per_sec) 1000000
           in if in_i64 ms then Some ms else None))"

section \<open>Text forms\<close>

definition hhmm_ok :: "hhmm \<Rightarrow> bool" where
  "hhmm_ok t \<longleftrightarrow> hh_hour t < 24 \<and> hh_minute t < 60"

lemma hhmm_new_ok: "hhmm_new h m = Some t \<Longrightarrow> hhmm_ok t"
  by (auto simp: hhmm_new_def hhmm_ok_def split: if_splits)

lemma hhmm_from_str_ok: "hhmm_from_str raw = Some t \<Longrightarrow> hhmm_ok t"
  by (auto simp: hhmm_from_str_def hhmm_new_ok split: option.splits)

lemma pad2_facts:
  assumes "n < 60"
  shows "parse_unsigned 8 (pad2 n) = Some n" "\<forall>c\<in>set (pad2 n). is_digit c"
proof -
  have all: "list_all (\<lambda>n. parse_unsigned 8 (pad2 n) = Some n \<and> list_all is_digit (pad2 n)) [0..<60]" by code_simp
  then have "parse_unsigned 8 (pad2 n) = Some n \<and> list_all is_digit (pad2 n)"
    using assms unfolding list_all_iff by auto
  then show "parse_unsigned 8 (pad2 n) = Some n" "\<forall>c\<in>set (pad2 n). is_digit c" by (auto simp: list_all_iff)
qed

lemma not_digits: "\<not> is_digit (CHR '':'')" "\<not> is_digit (CHR ''-'')" "is_digit c \<Longrightarrow> \<not> is_ascii_space c"
  by (auto simp: is_digit_def digit_of_def is_ascii_space_def Let_def split: if_splits)

lemma hhmm_chars:
  "hhmm_ok t \<Longrightarrow> c \<in> set (hhmm_to_string t) \<Longrightarrow> is_digit c \<or> c = CHR '':''"
  using pad2_facts(2) [of "hh_hour t"] pad2_facts(2) [of "hh_minute t"]
  by (auto simp: hhmm_to_string_def hhmm_ok_def)

lemma no_space_trim: "(\<And>c. c \<in> set s \<Longrightarrow> is_digit c \<or> c = CHR '':'' \<or> c = CHR ''-'') \<Longrightarrow> trim s = s"
proof (rule trim_no_space)
  fix c assume "\<And>c. c \<in> set s \<Longrightarrow> is_digit c \<or> c = CHR '':'' \<or> c = CHR ''-''" "c \<in> set s"
  then have "is_digit c \<or> c = CHR '':'' \<or> c = CHR ''-''" .
  then show "\<not> is_ascii_space c" by (elim disjE) (simp_all add: not_digits(3), simp_all add: is_ascii_space_def)
qed

lemma hhmm_roundtrip [simp]:
  assumes "hhmm_ok t"
  shows "hhmm_from_str (hhmm_to_string t) = Some t"
proof -
  have t: "hh_hour t < 24" "hh_minute t < 60" using assms by (simp_all add: hhmm_ok_def)
  have "trim (hhmm_to_string t) = hhmm_to_string t" using hhmm_chars [OF assms] by (blast intro: no_space_trim)
  moreover have "split_once (CHR '':'') (hhmm_to_string t) = Some (pad2 (hh_hour t), pad2 (hh_minute t))"
    using pad2_facts(2) [of "hh_hour t"] t not_digits(1) unfolding hhmm_to_string_def by (auto intro!: split_once_append)
  ultimately show ?thesis using t by (simp add: hhmm_from_str_def pad2_facts(1) hhmm_new_def)
qed

lemma between_roundtrip:
  assumes "hhmm_ok (bw_start w)" "hhmm_ok (bw_end w)"
  shows "between_from_str (between_to_string w) = Some w"
proof -
  have "trim (between_to_string w) = between_to_string w"
    using hhmm_chars [OF assms(1)] hhmm_chars [OF assms(2)]
    by (intro no_space_trim) (auto simp: between_to_string_def)
  moreover have "split_once (CHR ''-'') (between_to_string w) = Some (hhmm_to_string (bw_start w), hhmm_to_string (bw_end w))"
    using hhmm_chars [OF assms(1), of "CHR ''-''"] not_digits(2)
    unfolding between_to_string_def by (auto intro!: split_once_append)
  ultimately show ?thesis using assms by (simp add: between_from_str_def)
qed

lemma day_name_facts:
  "to_ascii_lowercase (trim (day_name d)) = day_name d" "day_name d \<noteq> []" "day_named (day_name d) = Some d"
  "CHR '','' \<notin> set (day_name d)"
proof -
  have "list_all (\<lambda>d. to_ascii_lowercase (trim (day_name d)) = day_name d \<and> day_name d \<noteq> [] \<and>
      day_named (day_name d) = Some d \<and> list_all (\<lambda>c. c \<noteq> CHR '','') (day_name d))
    [Monday, Tuesday, Wednesday, Thursday, Friday, Saturday, Sunday]" by code_simp
  then have "to_ascii_lowercase (trim (day_name d)) = day_name d \<and> day_name d \<noteq> [] \<and>
      day_named (day_name d) = Some d \<and> list_all (\<lambda>c. c \<noteq> CHR '','') (day_name d)"
    unfolding list_all_iff by (rule bspec) (cases d; simp)
  then show "to_ascii_lowercase (trim (day_name d)) = day_name d" "day_name d \<noteq> []" "day_named (day_name d) = Some d"
    "CHR '','' \<notin> set (day_name d)" by (auto simp: list_all_iff)
qed

lemma days_of_names:
  "distinct (acc @ ds) \<Longrightarrow> days_of_tokens (map day_name ds) acc = Some (acc @ ds)"
  by (induction ds arbitrary: acc) (simp_all add: day_name_facts Let_def)

lemma days_roundtrip:
  assumes "distinct ds"
  shows "days_from_str (days_to_string ds) = Some ds"
proof (cases "ds = []")
  case True
  have "days_from_str (days_to_string []) = Some []" by code_simp
  with True show ?thesis by simp
next
  case False
  then have "split_on (CHR '','') (days_to_string ds) = map day_name ds"
    unfolding days_to_string_def by (intro split_on_join) (auto simp: day_name_facts)
  with days_of_names [of "[]" ds] assms show ?thesis by (simp add: days_from_str_def)
qed

lemma days_from_str_distinct: "days_of_tokens raws acc = Some ds \<Longrightarrow> distinct acc \<Longrightarrow> distinct ds"
  by (induction raws arbitrary: acc) (auto simp: Let_def split: if_splits option.splits)

section \<open>The close is exact\<close>

lemma minute_dvd_day: "NS_PER_DAY = 1440 * NS_PER_MINUTE" by (simp add: NS_PER_DAY_def NS_PER_MINUTE_def)
lemma NS_PER_MINUTE_pos: "0 < NS_PER_MINUTE" by (simp add: NS_PER_MINUTE_def)

lemma less_mult_iff: "0 < (b::int) \<Longrightarrow> a < k * b \<longleftrightarrow> a div b < k"
proof -
  assume b: "0 < b"
  have "k * b \<le> a" if "k \<le> a div b"
  proof -
    have "k * b \<le> a div b * b" using that b by (intro mult_right_mono) simp_all
    also have "\<dots> \<le> a" using b pos_mod_sign [of b a] div_mult_mod_eq [of a b] by linarith
    finally show ?thesis .
  qed
  moreover have "k \<le> a div b" if "k * b \<le> a" using zdiv_mono1 [OF that b] b by simp
  ultimately show ?thesis by (meson not_le)
qed

lemma day_order:
  fixes e :: int
  assumes "0 \<le> e" "e \<le> 1440"
  shows "q < d * 1440 + e \<longleftrightarrow> q div 1440 < d \<or> q div 1440 = d \<and> q mod 1440 < e"
proof -
  have q: "q = q div 1440 * 1440 + q mod 1440" "0 \<le> q mod 1440" "q mod 1440 < 1440" by simp_all
  consider "q div 1440 \<le> d - 1" | "q div 1440 = d" | "d + 1 \<le> q div 1440" by linarith
  then show ?thesis using q assms by cases linarith+
qed

lemma same_day_order: "q \<le> p \<Longrightarrow> q div 1440 = p div 1440 \<Longrightarrow> q mod 1440 \<le> (p mod 1440 :: int)"
  using div_mult_mod_eq [of q 1440] div_mult_mod_eq [of p 1440] by linarith

lemma local_date_minutes: "local_date t = t div NS_PER_MINUTE div 1440"
  by (simp add: local_date_def minute_dvd_day zdiv_zmult2_eq mult.commute [of 1440] NS_PER_MINUTE_def)

lemma local_minute_minutes: "int (local_minute t) = t div NS_PER_MINUTE mod 1440"
proof -
  have "t mod (NS_PER_MINUTE * 1440) div NS_PER_MINUTE = t div NS_PER_MINUTE mod 1440"
    using zmod_zmult2_eq [of 1440 t NS_PER_MINUTE] NS_PER_MINUTE_pos by simp
  moreover have "0 \<le> t div NS_PER_MINUTE mod 1440" by simp
  ultimately show ?thesis by (simp add: local_minute_def minute_dvd_day mult.commute [of 1440])
qed

lemma before_minute:
  assumes "e \<le> 1440"
  shows "t < d * NS_PER_DAY + int e * NS_PER_MINUTE \<longleftrightarrow> local_date t < d \<or> local_date t = d \<and> local_minute t < e"
proof -
  have "t < d * NS_PER_DAY + int e * NS_PER_MINUTE \<longleftrightarrow> t < (d * 1440 + int e) * NS_PER_MINUTE"
    by (simp add: minute_dvd_day algebra_simps)
  also have "\<dots> \<longleftrightarrow> t div NS_PER_MINUTE < d * 1440 + int e"
    using NS_PER_MINUTE_pos by (rule less_mult_iff)
  also have "\<dots> \<longleftrightarrow> local_date t < d \<or> local_date t = d \<and> int (local_minute t) < int e"
    using assms unfolding local_date_minutes local_minute_minutes by (intro day_order) simp_all
  finally show ?thesis by simp
qed

lemma later_minute:
  assumes "t \<le> u" shows "local_date t \<le> local_date u" "local_date t = local_date u \<Longrightarrow> local_minute t \<le> local_minute u"
proof -
  have q: "t div NS_PER_MINUTE \<le> u div NS_PER_MINUTE" using assms NS_PER_MINUTE_pos by (simp add: zdiv_mono1)
  then show "local_date t \<le> local_date u" by (simp add: local_date_minutes zdiv_mono1)
  assume "local_date t = local_date u"
  with q have "int (local_minute t) \<le> int (local_minute u)"
    unfolding local_date_minutes local_minute_minutes by (rule same_day_order)
  then show "local_minute t \<le> local_minute u" by simp
qed

definition schedule_ok :: "schedule \<Rightarrow> bool" where
  "schedule_ok s \<longleftrightarrow> (\<forall>a b. sd_between s = Some (a, b) \<longrightarrow> hhmm_ok a \<and> hhmm_ok b)"

lemma minute_of_day_less: "hhmm_ok t \<Longrightarrow> minute_of_day t < 1440"
  by (simp add: hhmm_ok_def minute_of_day_def)

lemma local_minute_less: "local_minute t < 1440"
  using local_minute_minutes [of t] pos_mod_bound [of 1440 "t div NS_PER_MINUTE"] by linarith

lemma previous_weekday: "previous_day (weekday_of_number (nat ((d + 1) mod 7))) = weekday_of_number (nat (d mod 7))"
proof -
  have next_day: "(d + 1) mod 7 = (d mod 7 + 1) mod 7" by (simp add: mod_add_left_eq)
  have "0 \<le> d mod 7" "d mod 7 < 7" by simp_all
  then consider "d mod 7 = 0" | "d mod 7 = 1" | "d mod 7 = 2" | "d mod 7 = 3" | "d mod 7 = 4" | "d mod 7 = 5" | "d mod 7 = 6"
    by linarith
  then show ?thesis by cases (simp_all add: next_day eval_nat_numeral)
qed

lemma local_of_minute:
  assumes "e < 1440"
  shows "local_date (d * NS_PER_DAY + int e * NS_PER_MINUTE) = d" "local_minute (d * NS_PER_DAY + int e * NS_PER_MINUTE) = e"
proof -
  have "(d * NS_PER_DAY + int e * NS_PER_MINUTE) div NS_PER_MINUTE = (d * 1440 + int e) * NS_PER_MINUTE div NS_PER_MINUTE"
    by (simp add: minute_dvd_day algebra_simps)
  also have "\<dots> = d * 1440 + int e" using NS_PER_MINUTE_pos by simp
  finally have q: "(d * NS_PER_DAY + int e * NS_PER_MINUTE) div NS_PER_MINUTE = d * 1440 + int e" .
  show "local_date (d * NS_PER_DAY + int e * NS_PER_MINUTE) = d" using assms by (simp add: local_date_minutes q)
  have "int (local_minute (d * NS_PER_DAY + int e * NS_PER_MINUTE)) = int e"
    using assms unfolding local_minute_minutes q by simp
  then show "local_minute (d * NS_PER_DAY + int e * NS_PER_MINUTE) = e" by simp
qed

text \<open>Local readings between an open one and its close are of the same day, or of the morning after.\<close>

lemma until_close:
  assumes s: "schedule_ok s" and inside: "contains_at_local s local" and close: "closes_at_local s local = Some close"
  shows "local < close" "local \<le> t \<Longrightarrow> t < close \<Longrightarrow> contains_at_local s t"
    "sd_between s \<noteq> None \<Longrightarrow> \<not> contains_at_local s close"
proof -
  let ?d = "local_date local" and ?m = "local_minute local"
  note later = later_minute [of local t]
  have tomorrow: "previous_day (local_weekday t) = local_weekday local" if "local_date t = ?d + 1"
    using that previous_weekday [of ?d] by (simp add: local_weekday_def)
  have today: "local_weekday t = local_weekday local" if "local_date t = ?d"
    using that by (simp add: local_weekday_def)
  have "local < close \<and> (local \<le> t \<longrightarrow> t < close \<longrightarrow> contains_at_local s t) \<and>
      (sd_between s \<noteq> None \<longrightarrow> \<not> contains_at_local s close)"
  proof (cases "sd_between s")
    case None
    then have c: "close = (?d + 1) * NS_PER_DAY + int 0 * NS_PER_MINUTE"
      using close by (auto simp: closes_at_local_def Let_def split: if_splits)
    have before: "u < close \<longleftrightarrow> local_date u < ?d + 1" for u
      unfolding c using before_minute [of 0 u "?d + 1"] by simp
    have "contains_at_local s t" if "local \<le> t" "t < close"
    proof -
      have "local_date t = ?d" using later(1) that before by simp
      then show ?thesis using inside None today by (simp add: contains_at_local_def)
    qed
    with None before show ?thesis by auto
  next
    case (Some w)
    obtain start stop where w: "sd_between s = Some (start, stop)" using Some by (cases w) auto
    let ?a = "minute_of_day start" and ?b = "minute_of_day stop"
    have b: "?b < 1440" using s w by (auto simp: schedule_ok_def intro: minute_of_day_less)
    obtain n :: int where c: "close = (?d + n) * NS_PER_DAY + int ?b * NS_PER_MINUTE"
      and n: "n = (if ?a < ?b \<or> ?m < ?b then 0 else 1)" and ne: "?a \<noteq> ?b"
      using close w by (auto simp: closes_at_local_def Let_def split: if_splits)
    have before: "u < close \<longleftrightarrow> local_date u < ?d + n \<or> local_date u = ?d + n \<and> local_minute u < ?b" for u
      unfolding c using b by (intro before_minute) simp
    have open_now: "(if ?a < ?b then day_open s (local_weekday local) \<and> ?a \<le> ?m \<and> ?m < ?b
       else day_open s (previous_day (local_weekday local)) \<and> ?m < ?b \<or> day_open s (local_weekday local) \<and> ?a \<le> ?m)"
      using inside w ne by (auto simp: contains_at_local_def Let_def split: if_splits)
    have "local < close" using open_now n ne unfolding before by (auto split: if_splits)
    moreover have "contains_at_local s t" if "local \<le> t" "t < close"
    proof -
      have "local_date t = ?d \<or> local_date t = ?d + 1 \<and> n = 1"
        using later(1) [OF that(1)] that(2) unfolding before n by (auto split: if_splits)
      then show ?thesis
      proof
        assume d: "local_date t = ?d"
        then have "?m \<le> local_minute t" using later(2) that(1) by simp
        with d that(2) open_now show ?thesis
          using w ne n unfolding before by (auto simp: contains_at_local_def today split: if_splits)
      next
        assume d: "local_date t = ?d + 1 \<and> n = 1"
        with that(2) open_now n show ?thesis
          using w ne unfolding before by (auto simp: contains_at_local_def Let_def tomorrow split: if_splits)
      qed
    qed
    moreover have "local_minute close = ?b" unfolding c using local_of_minute b by simp
    then have "\<not> contains_at_local s close" using w ne by (auto simp: contains_at_local_def Let_def)
    ultimately show ?thesis by simp
  qed
  then show "local < close" "local \<le> t \<Longrightarrow> t < close \<Longrightarrow> contains_at_local s t"
    "sd_between s \<noteq> None \<Longrightarrow> \<not> contains_at_local s close" by auto
qed

lemma close_whole_ms:
  assumes "closes_at_local s local = Some close"
  shows "trunc_div (close - k * ns_per_sec) 1000000 * 1000000 = close - k * ns_per_sec"
proof -
  obtain d e where "close = d * NS_PER_DAY + int e * NS_PER_MINUTE"
  proof (cases "sd_between s")
    case None
    with assms show ?thesis by (auto simp: closes_at_local_def Let_def split: if_splits intro: that [of _ 0])
  next
    case (Some w)
    with assms show ?thesis
      by (cases w) (auto simp: closes_at_local_def Let_def split: if_splits intro: that)
  qed
  then obtain x where x: "close - k * ns_per_sec = x * 1000000"
    by (intro that [of "d * 86400000 + int e * 60000 - k * 1000"]) (simp add: NS_PER_DAY_def NS_PER_MINUTE_def ns_per_sec_def)
  have "trunc_div (x * 1000000) 1000000 = x" for x
    by (cases x "0 :: int" rule: linorder_cases) (simp_all add: trunc_div_def abs_mult sgn_mult)
  then show ?thesis unfolding x by simp
qed

text \<open>
  The instant a lending window is said to close at is exact: while this machine's offset does not
  change, every instant from an open one to the close is inside the schedule, and a daily window is shut
  at the close itself. A lease cut to that instant therefore never outlives its hours, nor loses any.
\<close>

theorem lend_window_closes_exactly:
  assumes "schedule_ok s" and "contains local_offset_at s now" and "schedule_closes_at_ms local_offset_at s now = Some c"
    and "\<forall>t. now \<le> t \<and> t \<le> c * ns_per_ms \<longrightarrow> local_offset_at t = local_offset_at now"
  shows "now < c * ns_per_ms \<and> (\<forall>t. now \<le> t \<and> t < c * ns_per_ms \<longrightarrow> contains local_offset_at s t) \<and>
    (sd_between s \<noteq> None \<longrightarrow> \<not> contains local_offset_at s (c * ns_per_ms))"
proof -
  let ?off = "unwrap_or (local_offset_at now) 0 * ns_per_sec" and ?local = "to_local local_offset_at now"
  have l: "?local = now + ?off" by (simp add: to_local_def)
  from assms(3) obtain close where close: "closes_at_local s ?local = Some close" "c = trunc_div (close - ?off) 1000000"
    by (auto simp: schedule_closes_at_ms_def Let_def split: option.splits if_splits)
  then have c: "c * ns_per_ms = close - ?off" using close_whole_ms [OF close(1)] by (simp add: ns_per_ms_def)
  have inside: "contains_at_local s ?local" using assms(2) by (simp add: contains_def)
  note until = until_close [OF assms(1) inside close(1)]
  have lt: "now < c * ns_per_ms" using until(1) unfolding c l by simp
  have same: "to_local local_offset_at t = t + ?off" if "now \<le> t" "t \<le> c * ns_per_ms" for t
  proof -
    from assms(4) that have "local_offset_at t = local_offset_at now" by blast
    then show ?thesis by (simp only: to_local_def)
  qed
  have "contains local_offset_at s t" if t: "now \<le> t" "t < c * ns_per_ms" for t
  proof -
    have "contains_at_local s (t + ?off)" using t c l by (intro until(2)) simp_all
    then show ?thesis using same [of t] t by (simp only: contains_def less_imp_le)
  qed
  moreover have "\<not> contains local_offset_at s (c * ns_per_ms)" if "sd_between s \<noteq> None"
  proof -
    have "to_local local_offset_at (c * ns_per_ms) = close" using same [of "c * ns_per_ms"] lt c by linarith
    then show ?thesis using until(3) [OF that] by (simp add: contains_def)
  qed
  ultimately show ?thesis using lt by blast
qed

definition friday_night :: schedule where
  "friday_night = \<lparr>sd_between = Some (\<lparr>hh_hour = 22, hh_minute = 0\<rparr>, \<lparr>hh_hour = 8, hh_minute = 0\<rparr>), sd_days = Some {Friday}\<rparr>"

theorem lend_window_closes_exactly_witness:
  "contains (\<lambda>_. Some 7200) friday_night (194399999 * ns_per_ms) \<and>
   \<not> contains (\<lambda>_. Some 7200) friday_night (194400000 * ns_per_ms)"
proof -
  have "schedule_ok friday_night" by (simp add: schedule_ok_def friday_night_def hhmm_ok_def)
  moreover have "contains (\<lambda>_. Some 7200) friday_night (162000 * ns_per_sec)" by code_simp
  moreover have "schedule_closes_at_ms (\<lambda>_. Some 7200) friday_night (162000 * ns_per_sec) = Some 194400000" by code_simp
  ultimately have "162000 * ns_per_sec < 194400000 * ns_per_ms \<and>
      (\<forall>t. 162000 * ns_per_sec \<le> t \<and> t < 194400000 * ns_per_ms \<longrightarrow> contains (\<lambda>_. Some 7200) friday_night t) \<and>
      (sd_between friday_night \<noteq> None \<longrightarrow> \<not> contains (\<lambda>_. Some 7200) friday_night (194400000 * ns_per_ms))"
    by (rule lend_window_closes_exactly) simp
  moreover have "sd_between friday_night \<noteq> None" by (simp add: friday_night_def)
  moreover have "162000 * ns_per_sec \<le> 194399999 * ns_per_ms" "194399999 * ns_per_ms < 194400000 * ns_per_ms"
    by (simp_all add: ns_per_sec_def ns_per_ms_def)
  ultimately show ?thesis by blast
qed

end
