(* ===== verification/Lease.thy ===== *)
theory Lease
  imports Peer_Wire Lend_Schedule Capped_Map
begin

text \<open>
  The lender's ledger of \<^verbatim>\<open>src/peer/lease.rs\<close>, with the grant of \<^verbatim>\<open>src/peer/config.rs\<close> that funds a
  lease: what a borrower asked for is cut to what it was granted and to what is left, a lease is spent only
  by the peer it was granted to, one request at a time per slot, and each request once.

  A \<open>u64\<close> second and a \<open>u8\<close> count are words. The readings of the clock that one call takes are one
  argument in milliseconds, and one more instant for the schedule. The lender's fleet is a record of the
  questions the ledger asks it. What the last write put in the state file is a field of the ledger, and
  whether a write succeeds is an argument.
\<close>

section \<open>Grants\<close>

text \<open>\<open>f64::min\<close>.\<close>

definition f64_min :: "f64 \<Rightarrow> f64 \<Rightarrow> f64" where
  "f64_min a b = (if a = NaN then b else if b = NaN then a else if f64_lt b a then b else a)"

type_synonym peer_id = "byte list"

datatype lend_mode = Serve_Mode | Hand_Mode

record lend_grant =
  gr_id :: u128
  gr_mode :: lend_mode
  gr_scope :: lend_scope
  gr_window :: window
  gr_fraction :: f64
  gr_ttl_s :: u32
  gr_max_inflight :: u8
  gr_until :: "u64 option"
  gr_between :: "between option"
  gr_days :: "days option"

definition MAX_LEND_FRACTION :: f64 where "MAX_LEND_FRACTION = Fin (1 / 2)"

definition lend_fraction :: "f64 \<Rightarrow> f64" where
  "lend_fraction raw =
     (if \<not> is_finite raw then f64_zero
      else if f64_lt raw f64_zero then f64_zero else if f64_lt MAX_LEND_FRACTION raw then MAX_LEND_FRACTION else raw)"

definition has_ended :: "lend_grant \<Rightarrow> u64 \<Rightarrow> bool" where
  "has_ended g now_s = is_some_and (gr_until g) (\<lambda>until. until \<le> now_s)"

definition grant_schedule :: "lend_grant \<Rightarrow> schedule option" where
  "grant_schedule g = from_parts (gr_between g) (gr_days g)"

record peer_row =
  pr_inspect :: bool
  pr_lend :: "lend_grant list"

definition grant_for :: "peer_row \<Rightarrow> window \<Rightarrow> u64 \<Rightarrow> (lend_scope \<Rightarrow> bool) \<Rightarrow> lend_grant option" where
  "grant_for row w now_s enforceable =
     List.find (\<lambda>g. enforceable (gr_scope g)) (filter (\<lambda>g. gr_window g = w \<and> \<not> has_ended g now_s) (pr_lend row))"

section \<open>The clamps\<close>

definition MIN_DEBIT :: f64 where "MIN_DEBIT = rnd (2 / 1000)"

text \<open>Seconds, floored; an instant before the epoch counts as the epoch.\<close>

definition seconds_of :: "i64 \<Rightarrow> u64" where
  "seconds_of now_ms = word_of_int (max 0 (now_ms div 1000))"

fun fraction_budget :: "lease_unit \<Rightarrow> f64 option" where
  "fraction_budget (Fraction f) = Some f"
| "fraction_budget (Tokens _) = None"
| "fraction_budget Unit_Unknown = None"

definition schedule_refusal :: "(odt \<Rightarrow> int option) \<Rightarrow> schedule option \<Rightarrow> odt \<Rightarrow> lease_refusal option" where
  "schedule_refusal local_offset_at s now =
     (case s of
        Some s \<Rightarrow> if \<not> contains local_offset_at s now then Some Outside_Schedule else None
      | None \<Rightarrow> None)"

definition refuse_lease :: "lease_refusal \<Rightarrow> lease_grant" where
  "refuse_lease r = \<lparr>lg_lease = None, lg_refusal = Some r\<rparr>"

definition clamp_to_grant ::
  "lease_request \<Rightarrow> lend_grant option \<Rightarrow> bool \<Rightarrow> f64 \<Rightarrow> i64 \<Rightarrow> u128 \<Rightarrow> u64 option \<Rightarrow> i64 option \<Rightarrow> lease_grant" where
  "clamp_to_grant ask granted inspect lendable now_ms lease_id ends schedule_close_ms =
     (if \<not> inspect then refuse_lease Inspect_Not_Granted
      else if rq_window ask = Window_Unknown then refuse_lease Unsupported
      else case fraction_budget (rq_unit ask) of
        None \<Rightarrow> refuse_lease Unsupported
      | Some wanted \<Rightarrow>
          (case filter_opt (\<lambda>g. gr_window g = rq_window ask) granted of
             None \<Rightarrow> refuse_lease Inspect_Not_Granted
           | Some g \<Rightarrow>
               (let amount = f64_min (f64_min wanted (gr_fraction g)) lendable in
                if f64_lt amount MIN_DEBIT \<or> amount = NaN then refuse_lease Owner_Guard
                else if is_some_and ends (\<lambda>e. e \<le> seconds_of now_ms) then refuse_lease Lease_Expired
                else
                  let ttl_s = min (rq_ttl_s ask) (gr_ttl_s g);
                      expires = i64_add now_ms (i64_mul (uint ttl_s) 1000);
                      expires = (case schedule_close_ms of Some close_ms \<Rightarrow> min expires close_ms | None \<Rightarrow> expires)
                  in \<lparr>lg_lease = Some \<lparr>le_id = lease_id, le_window = rq_window ask, le_unit = Fraction amount,
                        le_granted_at_ms = now_ms, le_expires_at_ms = expires, le_spent = f64_zero,
                        le_max_inflight = min (rq_max_inflight ask) (gr_max_inflight g), le_until = ends\<rparr>,
                      lg_refusal = None\<rparr>)))"

section \<open>The ledger\<close>

record relayed_pair =
  rp_request :: u128
  rp_at_ms :: i64
  rp_charged :: bool

record lease_row =
  lr_lease :: lease
  lr_peer :: peer_id
  lr_scope :: lend_scope

text \<open>\<open>Locator\<close>: a socket address as text, or a node.\<close>

datatype locator = Direct string | Via peer_id | Reverse peer_id

record ledger =
  ld_leases :: "lease list"
  ld_file :: "lease_row list option"
  ld_grantees :: "(u128, peer_id) hash_map"
  ld_headroom :: "(string \<times> window, f64) hash_map"
  ld_inflight :: "(u128, u8) hash_map"
  ld_pairs :: "(u128, relayed_pair list) hash_map"
  ld_scopes :: "(u128, lend_scope) hash_map"
  ld_dirty :: bool
  ld_paths :: "(u128, locator) hash_map"

definition ledger_new :: ledger where
  "ledger_new = \<lparr>ld_leases = [], ld_file = None, ld_grantees = [], ld_headroom = [], ld_inflight = [], ld_pairs = [],
     ld_scopes = [], ld_dirty = False, ld_paths = []\<rparr>"

datatype relay_refusal = Lease_Says lease_refusal | Too_Many_Inflight u8 | Replayed | Not_The_Grantee

fun to_wire :: "relay_refusal \<Rightarrow> lease_refusal" where
  "to_wire (Lease_Says r) = r"
| "to_wire (Too_Many_Inflight _) = In_Flight_Full"
| "to_wire Replayed = Unsupported"
| "to_wire Not_The_Grantee = Lease_Expired"

definition SERVED_CAPACITY :: nat where "SERVED_CAPACITY = 4096"
definition SERVED_TTL_MS :: i64 where "SERVED_TTL_MS = 600000"
definition SERVED_PER_LEASE_CAPACITY :: nat where "SERVED_PER_LEASE_CAPACITY = 256"
definition MAX_LEASES_PER_PEER :: nat where "MAX_LEASES_PER_PEER = 8"

definition scope_key :: "lend_scope \<Rightarrow> string" where "scope_key s = scope_to_spec s"

fun scopes_overlap :: "lend_scope \<Rightarrow> lend_scope \<Rightarrow> bool" where
  "scopes_overlap (Scope_Accounts wanted) (Scope_Accounts held) = list_ex (\<lambda>l. l \<in> set held) wanted"
| "scopes_overlap _ _ = True"

definition grantee_of :: "ledger \<Rightarrow> u128 \<Rightarrow> peer_id option" where
  "grantee_of d i = hm_get (ld_grantees d) i"

definition scope_of :: "ledger \<Rightarrow> u128 \<Rightarrow> lend_scope" where
  "scope_of d i = unwrap_or (hm_get (ld_scopes d) i) Scope_All"

definition lease_of :: "ledger \<Rightarrow> u128 \<Rightarrow> lease option" where
  "lease_of d i = List.find (\<lambda>l. le_id l = i) (ld_leases d)"

definition window_of :: "ledger \<Rightarrow> u128 \<Rightarrow> window option" where
  "window_of d i = map_option le_window (lease_of d i)"

subsection \<open>The file\<close>

definition ledger_rows :: "ledger \<Rightarrow> lease_row list" where
  "ledger_rows d =
     List.map_filter (\<lambda>l. map_option (\<lambda>p. \<lparr>lr_lease = l, lr_peer = p, lr_scope = scope_of d (le_id l)\<rparr>)
       (hm_get (ld_grantees d) (le_id l))) (ld_leases d)"

definition persist :: "bool \<Rightarrow> ledger \<Rightarrow> ledger" where
  "persist write_ok d =
     (case ld_file d of
        None \<Rightarrow> d
      | Some _ \<Rightarrow> if write_ok then d\<lparr>ld_file := Some (ledger_rows d)\<rparr> else d)"

definition flush :: "bool \<Rightarrow> ledger \<Rightarrow> bool \<times> ledger" where
  "flush write_ok d = (if \<not> ld_dirty d then (False, d) else (True, (persist write_ok d)\<lparr>ld_dirty := False\<rparr>))"

definition NOBODY :: peer_id where "NOBODY = replicate 32 0"

definition restore_row :: "i64 \<Rightarrow> lease_row \<Rightarrow> ledger \<Rightarrow> ledger" where
  "restore_row now_ms row d =
     (if le_expires_at_ms (lr_lease row) \<le> now_ms then d
      else if lr_peer row = NOBODY then d
      else d\<lparr>ld_grantees := hm_insert (le_id (lr_lease row)) (lr_peer row) (ld_grantees d),
             ld_scopes := hm_insert (le_id (lr_lease row)) (lr_scope row) (ld_scopes d),
             ld_leases := ld_leases d @ [lr_lease row]\<rparr>)"

text \<open>\<open>rows\<close> is the section read, or nothing when the file could not be read.\<close>

definition restored_from :: "i64 \<Rightarrow> lease_row list option \<Rightarrow> ledger" where
  "restored_from now_ms rows =
     (case rows of
        None \<Rightarrow> ledger_new\<lparr>ld_file := Some []\<rparr>
      | Some rs \<Rightarrow> fold (restore_row now_ms) rs (ledger_new\<lparr>ld_file := Some rs\<rparr>))"

subsection \<open>Recording and measuring\<close>

definition record_lease :: "i64 \<Rightarrow> lease \<Rightarrow> ledger \<Rightarrow> ledger" where
  "record_lease now_ms l d =
     (let kept = filter (\<lambda>h. le_expires_at_ms h > now_ms) (ld_leases d);
          live = le_id ` set kept
      in d\<lparr>ld_leases := kept @ [l], ld_grantees := filter (\<lambda>p. fst p \<in> live) (ld_grantees d),
           ld_scopes := filter (\<lambda>p. fst p \<in> live) (ld_scopes d), ld_inflight := filter (\<lambda>p. fst p \<in> live) (ld_inflight d)\<rparr>)"

definition record_scoped :: "bool \<Rightarrow> i64 \<Rightarrow> lease \<Rightarrow> peer_id \<Rightarrow> lend_scope \<Rightarrow> ledger \<Rightarrow> ledger" where
  "record_scoped write_ok now_ms l peer scope d =
     (let d = record_lease now_ms l d;
          d = d\<lparr>ld_grantees := hm_insert (le_id l) peer (ld_grantees d), ld_scopes := hm_insert (le_id l) scope (ld_scopes d)\<rparr>
      in (persist write_ok d)\<lparr>ld_dirty := False\<rparr>)"

definition note_scope_headroom :: "lend_scope \<Rightarrow> window \<Rightarrow> f64 \<Rightarrow> ledger \<Rightarrow> ledger" where
  "note_scope_headroom scope w fraction d =
     d\<lparr>ld_headroom := hm_insert (scope_key scope, w) (f64_max fraction f64_zero) (ld_headroom d)\<rparr>"

definition note_owner_headroom :: "window \<Rightarrow> f64 \<Rightarrow> ledger \<Rightarrow> ledger" where
  "note_owner_headroom w fraction d = note_scope_headroom Scope_All w fraction d"

definition headroom_for :: "ledger \<Rightarrow> lend_scope \<Rightarrow> window \<Rightarrow> f64 option" where
  "headroom_for d scope w =
     (case (hm_get (ld_headroom d) (scope_key scope, w), hm_get (ld_headroom d) (scope_key Scope_All, w)) of
        (Some s, Some a) \<Rightarrow> Some (f64_min s a)
      | (Some s, None) \<Rightarrow> Some s
      | (None, a) \<Rightarrow> a)"

definition is_live :: "i64 \<Rightarrow> lease \<Rightarrow> bool" where "is_live now_ms l = (le_expires_at_ms l > now_ms)"

definition live :: "ledger \<Rightarrow> i64 \<Rightarrow> lease list" where
  "live d now_ms = filter (is_live now_ms) (ld_leases d)"

definition live_for :: "ledger \<Rightarrow> peer_id \<Rightarrow> i64 \<Rightarrow> nat" where
  "live_for d peer now_ms = length (filter (\<lambda>l. hm_get (ld_grantees d) (le_id l) = Some peer) (live d now_ms))"

definition unspent :: "lease \<Rightarrow> f64" where
  "unspent l = (case le_unit l of Fraction f \<Rightarrow> f64_max (f64_sub f (le_spent l)) f64_zero | _ \<Rightarrow> f64_zero)"

definition f64_sum :: "f64 list \<Rightarrow> f64" where "f64_sum xs = foldl f64_add f64_zero xs"

definition committed_fraction :: "ledger \<Rightarrow> lend_scope \<Rightarrow> window \<Rightarrow> i64 \<Rightarrow> f64" where
  "committed_fraction d scope w now_ms =
     f64_sum (map unspent (filter (\<lambda>l. scopes_overlap scope (scope_of d (le_id l)))
       (filter (\<lambda>l. le_window l = w) (live d now_ms))))"

subsection \<open>Granting\<close>

datatype scope_restriction = Unrestricted | Only_Group string | Only_Accounts "string list" | Unenforceable

text \<open>What the lender's fleet answers (\<open>WindowUtilization\<close>).\<close>

record fleet =
  fl_restriction :: "lend_scope \<Rightarrow> scope_restriction"
  fl_lendable :: "lend_scope \<Rightarrow> window \<Rightarrow> f64 option"
  fl_lendable_by_hand :: "lend_scope \<Rightarrow> window \<Rightarrow> f64 option"

record granted_answer =
  ga_answer :: lease_grant
  ga_funding :: "lend_grant option"
  ga_scope :: lend_scope

definition unfunded :: "lease_refusal \<Rightarrow> granted_answer" where
  "unfunded r = \<lparr>ga_answer = refuse_lease r, ga_funding = None, ga_scope = Scope_All\<rparr>"

definition granted_mode :: "granted_answer \<Rightarrow> lend_mode" where
  "granted_mode a = (case ga_funding a of Some g \<Rightarrow> gr_mode g | None \<Rightarrow> Serve_Mode)"

definition note_measured :: "fleet \<Rightarrow> lend_scope \<Rightarrow> window \<Rightarrow> ledger \<Rightarrow> ledger" where
  "note_measured fl scope w d =
     (case fl_lendable fl scope w of Some m \<Rightarrow> note_scope_headroom scope w m d | None \<Rightarrow> d)"

definition picked_grant :: "fleet \<Rightarrow> peer_row option \<Rightarrow> window \<Rightarrow> i64 \<Rightarrow> lend_grant option" where
  "picked_grant fl row w now_ms =
     Option.bind row (\<lambda>r. grant_for r w (seconds_of now_ms) (\<lambda>s. fl_restriction fl s \<noteq> Unenforceable))"

definition lendable_now :: "fleet \<Rightarrow> lend_grant option \<Rightarrow> lend_scope \<Rightarrow> window \<Rightarrow> i64 \<Rightarrow> ledger \<Rightarrow> f64" where
  "lendable_now fl granted scope w now_ms d =
     (let room = f64_max (f64_sub (unwrap_or (headroom_for d scope w) f64_zero) (committed_fraction d scope w now_ms)) f64_zero
      in case map_option gr_mode granted of
           Some Hand_Mode \<Rightarrow> (case fl_lendable_by_hand fl scope w of Some h \<Rightarrow> f64_min room h | None \<Rightarrow> room)
         | _ \<Rightarrow> room)"

definition ledger_grant ::
  "(odt \<Rightarrow> int option) \<Rightarrow> bool \<Rightarrow> peer_id \<Rightarrow> lease_request \<Rightarrow> peer_row option \<Rightarrow> fleet \<Rightarrow> u128 option \<Rightarrow> i64 \<Rightarrow> odt \<Rightarrow> ledger
     \<Rightarrow> granted_answer \<times> ledger" where
  "ledger_grant local_offset_at write_ok peer ask row fl random_id now_ms now d =
     (if live_for d peer now_ms \<ge> MAX_LEASES_PER_PEER then (unfunded Too_Many_Leases, d)
      else
        let inspect = is_some_and row pr_inspect;
            granted = picked_grant fl row (rq_window ask) now_ms;
            schedule = Option.bind granted grant_schedule
        in case schedule_refusal local_offset_at schedule now of
             Some r \<Rightarrow> (unfunded r, d)
           | None \<Rightarrow>
               (let close_ms = Option.bind schedule (\<lambda>s. schedule_closes_at_ms local_offset_at s now);
                    scope = (case granted of Some g \<Rightarrow> gr_scope g | None \<Rightarrow> Scope_All);
                    d = note_measured fl scope (rq_window ask) d;
                    lendable = lendable_now fl granted scope (rq_window ask) now_ms d
                in case random_id of
                     None \<Rightarrow> (unfunded Unsupported, d)
                   | Some lease_id \<Rightarrow>
                       (let answer = clamp_to_grant ask granted inspect lendable now_ms lease_id (Option.bind granted gr_until) close_ms;
                            d = (case lg_lease answer of
                                   Some l \<Rightarrow> record_scoped write_ok now_ms l peer scope d
                                 | None \<Rightarrow> d)
                        in (\<lparr>ga_answer = answer, ga_funding = granted, ga_scope = scope\<rparr>, d))))"

subsection \<open>Relaying\<close>

definition may_relay :: "ledger \<Rightarrow> u128 \<Rightarrow> i64 \<Rightarrow> lease_refusal option" where
  "may_relay d i now_ms =
     (case lease_of d i of
        None \<Rightarrow> Some Lease_Expired
      | Some l \<Rightarrow>
          if le_expires_at_ms l \<le> now_ms then Some Lease_Expired
          else if is_some_and (le_until l) (\<lambda>u. u \<le> seconds_of now_ms) then Some Lease_Expired
          else case fraction_budget (le_unit l) of
            None \<Rightarrow> Some Unsupported
          | Some budget \<Rightarrow>
              if f64_ge (le_spent l) budget then Some Lease_Spent
              else case headroom_for d (scope_of d i) (le_window l) of
                Some h \<Rightarrow> if f64_gt h f64_zero then None else Some Owner_Guard
              | None \<Rightarrow> Some Owner_Guard)"

text \<open>\<open>Iterator::min_by_key\<close>: the first of the least.\<close>

fun min_by_key :: "('a \<Rightarrow> 'k::linorder) \<Rightarrow> 'a list \<Rightarrow> 'a option" where
  "min_by_key f [] = None"
| "min_by_key f (x # xs) = (case min_by_key f xs of None \<Rightarrow> Some x | Some y \<Rightarrow> if f y < f x then Some y else Some x)"

type_synonym pair_cache = "(u128, relayed_pair list) hash_map"

definition pairs_len :: "pair_cache \<Rightarrow> nat" where
  "pairs_len cache = sum_list (map (\<lambda>(_, ids). length ids) cache)"

definition expire_pairs :: "i64 \<Rightarrow> pair_cache \<Rightarrow> pair_cache" where
  "expire_pairs now_ms cache =
     filter (\<lambda>(_, ids). ids \<noteq> [])
       (map (\<lambda>(l, ids). (l, filter (\<lambda>p. saturating_sub_i64 now_ms (rp_at_ms p) < SERVED_TTL_MS) ids)) cache)"

definition oldest_lease :: "pair_cache \<Rightarrow> u128 option" where
  "oldest_lease cache =
     map_option fst (min_by_key snd (List.map_filter (\<lambda>(l, ids). case ids of [] \<Rightarrow> None | p # _ \<Rightarrow> Some (l, rp_at_ms p)) cache))"

definition drop_front :: "u128 \<Rightarrow> pair_cache \<Rightarrow> pair_cache" where
  "drop_front l cache =
     (case hm_get cache l of
        None \<Rightarrow> cache
      | Some ids \<Rightarrow> if tl ids = [] then hm_remove l cache else hm_insert l (tl ids) cache)"

text \<open>The eviction loop. Every turn drops one pair, so as many turns as there are pairs are enough.\<close>

fun evict_oldest :: "nat \<Rightarrow> pair_cache \<Rightarrow> pair_cache" where
  "evict_oldest 0 cache = cache"
| "evict_oldest (Suc n) cache =
     (if pairs_len cache < SERVED_CAPACITY then cache
      else case oldest_lease cache of None \<Rightarrow> cache | Some l \<Rightarrow> evict_oldest n (drop_front l cache))"

definition admit_pair :: "u128 \<Rightarrow> u128 \<Rightarrow> i64 \<Rightarrow> pair_cache \<Rightarrow> bool \<times> pair_cache" where
  "admit_pair lease_id request_id now_ms cache =
     (let cache = expire_pairs now_ms cache;
          cache = evict_oldest (pairs_len cache) cache;
          ids = unwrap_or (hm_get cache lease_id) []
      in if list_ex (\<lambda>p. rp_request p = request_id) ids then (False, cache)
         else let ids = drop (Suc (length ids) - SERVED_PER_LEASE_CAPACITY) ids
              in (True, hm_insert lease_id (ids @ [\<lparr>rp_request = request_id, rp_at_ms = now_ms, rp_charged = False\<rparr>]) cache))"

definition inflight :: "ledger \<Rightarrow> u128 \<Rightarrow> u8" where
  "inflight d i = unwrap_or (hm_get (ld_inflight d) i) 0"

definition enter_relay :: "u128 \<Rightarrow> peer_id \<Rightarrow> u128 \<Rightarrow> i64 \<Rightarrow> ledger \<Rightarrow> relay_refusal option \<times> ledger" where
  "enter_relay i peer request_id now_ms d =
     (if hm_get (ld_grantees d) i \<noteq> Some peer then (Some Not_The_Grantee, d)
      else case may_relay d i now_ms of
        Some r \<Rightarrow> (Some (Lease_Says r), d)
      | None \<Rightarrow>
          (let (fresh_pair, cache) = admit_pair i request_id now_ms (ld_pairs d);
               d = d\<lparr>ld_pairs := cache\<rparr>
           in if \<not> fresh_pair then (Some Replayed, d)
              else
                let most = (case lease_of d i of Some l \<Rightarrow> le_max_inflight l | None \<Rightarrow> 0)
                in if inflight d i \<ge> most then (Some (Too_Many_Inflight most), d)
                   else (None, d\<lparr>ld_inflight := hm_insert i (inflight d i + 1) (ld_inflight d)\<rparr>)))"

definition leave_relay :: "u128 \<Rightarrow> ledger \<Rightarrow> ledger" where
  "leave_relay i d =
     (case hm_get (ld_inflight d) i of
        None \<Rightarrow> d
      | Some n \<Rightarrow>
          (let n = (if n = 0 then 0 else n - 1)
           in d\<lparr>ld_inflight := (if n = 0 then hm_remove i (ld_inflight d) else hm_insert i n (ld_inflight d))\<rparr>))"

fun charge_pair :: "u128 \<Rightarrow> relayed_pair list \<Rightarrow> relayed_pair list" where
  "charge_pair r [] = []"
| "charge_pair r (p # ps) = (if rp_request p = r then p\<lparr>rp_charged := True\<rparr> # ps else p # charge_pair r ps)"

definition find_pair :: "u128 \<Rightarrow> u128 \<Rightarrow> pair_cache \<Rightarrow> relayed_pair option" where
  "find_pair i r cache = Option.bind (hm_get cache i) (List.find (\<lambda>p. rp_request p = r))"

definition set_charged :: "u128 \<Rightarrow> u128 \<Rightarrow> pair_cache \<Rightarrow> pair_cache" where
  "set_charged i r cache = (case hm_get cache i of None \<Rightarrow> cache | Some ids \<Rightarrow> hm_insert i (charge_pair r ids) cache)"

definition mark_charged :: "u128 \<Rightarrow> u128 \<Rightarrow> i64 \<Rightarrow> pair_cache \<Rightarrow> bool \<times> pair_cache" where
  "mark_charged i r now_ms cache =
     (case find_pair i r cache of
        Some p \<Rightarrow> if rp_charged p then (False, cache) else (True, set_charged i r cache)
      | None \<Rightarrow> (True, set_charged i r (snd (admit_pair i r now_ms cache))))"

text \<open>The tokens of a charge, for the meter of the path a lease is served over; the last component is what the
  meter is told.\<close>

definition round_half_away :: "rat \<Rightarrow> int" where "round_half_away x = \<lfloor>x + 1 / 2\<rfloor>"

definition tokens_of :: "lease_unit \<Rightarrow> f64 \<Rightarrow> nat option" where
  "tokens_of unit charge =
     (case unit of
        Tokens amount \<Rightarrow>
          (let c = (if f64_lt charge f64_zero then f64_zero else if f64_lt f64_one charge then f64_one else charge);
               tokens = f64_mul (f64_of_int (uint amount)) c
           in case tokens of Fin t \<Rightarrow> if t \<le> 0 then None else Some (nat (round_half_away t)) | _ \<Rightarrow> None)
      | _ \<Rightarrow> None)"

definition position_of :: "ledger \<Rightarrow> u128 \<Rightarrow> nat option" where
  "position_of d i = (let n = length (takeWhile (\<lambda>l. le_id l \<noteq> i) (ld_leases d)) in if n < length (ld_leases d) then Some n else None)"

definition add_spent :: "nat \<Rightarrow> f64 \<Rightarrow> ledger \<Rightarrow> ledger" where
  "add_spent at_idx charge d =
     d\<lparr>ld_leases := (ld_leases d)[at_idx := (ld_leases d ! at_idx)\<lparr>le_spent := f64_add (le_spent (ld_leases d ! at_idx)) charge\<rparr>],
       ld_dirty := True\<rparr>"

definition debit ::
  "u128 \<Rightarrow> u128 \<Rightarrow> f64 \<Rightarrow> i64 \<Rightarrow> ledger \<Rightarrow> f64 \<times> ledger \<times> (peer_id \<times> locator \<times> nat) option" where
  "debit i request_id observed_rise now_ms d =
     (let (charges, cache) = mark_charged i request_id now_ms (ld_pairs d);
          d = d\<lparr>ld_pairs := cache\<rparr>
      in if \<not> charges then (f64_zero, d, None)
         else
           let charge = (if f64_gt observed_rise MIN_DEBIT then observed_rise else MIN_DEBIT)
           in case position_of d i of
                None \<Rightarrow> (f64_zero, d, None)
              | Some k \<Rightarrow>
                  (let told = (case (tokens_of (le_unit (ld_leases d ! k)) charge, hm_get (ld_paths d) i, hm_get (ld_grantees d) i) of
                                 (Some tokens, Some path, Some peer) \<Rightarrow> Some (peer, path, tokens)
                               | _ \<Rightarrow> None)
                   in (charge, add_spent k charge d, told)))"

definition apply_usage_hint :: "u128 \<Rightarrow> f64 \<Rightarrow> ledger \<Rightarrow> f64 \<times> ledger" where
  "apply_usage_hint i hinted d =
     (if \<not> is_finite hinted \<or> f64_le hinted f64_zero then (f64_zero, d)
      else case position_of d i of
        None \<Rightarrow> (f64_zero, d)
      | Some k \<Rightarrow> (hinted, add_spent k hinted d))"

text \<open>The control stream's arm: only the grantee may report against a lease; anything else closes the session.\<close>

definition on_usage_hint :: "peer_id \<Rightarrow> u128 \<Rightarrow> f64 \<Rightarrow> ledger \<Rightarrow> (f64 \<times> ledger) option" where
  "on_usage_hint peer i spent d = (if grantee_of d i \<noteq> Some peer then None else Some (apply_usage_hint i spent d))"

definition note_lease_path :: "u128 \<Rightarrow> locator \<Rightarrow> ledger \<Rightarrow> ledger" where
  "note_lease_path i path d = d\<lparr>ld_paths := hm_insert i path (ld_paths d)\<rparr>"

subsection \<open>One relayed request\<close>

definition utilization_rise :: "f64 option list \<Rightarrow> f64 option list \<Rightarrow> f64" where
  "utilization_rise before after =
     foldl f64_max f64_zero
       (List.map_filter (\<lambda>(b, a). case (b, a) of (Some b, Some a) \<Rightarrow> Some (f64_max (f64_sub a b) f64_zero) | _ \<Rightarrow> None)
         (zip before after))"

text \<open>\<open>handle_serve_on\<close> up to the slot: the hours of the grant that is in force now, the scope's own
  headroom, and the slot. The restriction the picker is then held to can still refuse, and gives the slot
  back.\<close>

definition serve_admission ::
  "(odt \<Rightarrow> int option) \<Rightarrow> peer_id \<Rightarrow> peer_row option \<Rightarrow> fleet \<Rightarrow> u128 \<Rightarrow> u128 \<Rightarrow> i64 \<Rightarrow> odt \<Rightarrow> ledger
     \<Rightarrow> (lease_refusal + scope_restriction) \<times> ledger" where
  "serve_admission local_offset_at peer row fl i request_id now_ms now d =
     (let w = window_of d i;
          scope = scope_of d i;
          schedule = Option.bind w (\<lambda>w. Option.bind (picked_grant fl row w now_ms) grant_schedule)
      in case schedule_refusal local_offset_at schedule now of
           Some r \<Rightarrow> (Inl r, d)
         | None \<Rightarrow>
             (let d = (case w of Some w \<Rightarrow> note_measured fl scope w d | None \<Rightarrow> d)
              in case enter_relay i peer request_id now_ms d of
                   (Some refusal, d) \<Rightarrow> (Inl (to_wire refusal), d)
                 | (None, d) \<Rightarrow>
                     if fl_restriction fl scope = Unenforceable then (Inl Unsupported, leave_relay i d)
                     else (Inr (fl_restriction fl scope), d)))"

text \<open>After the answer: the slot is given back, the path noted, and an answered request charged.\<close>

definition serve_settled ::
  "u128 \<Rightarrow> u128 \<Rightarrow> locator option \<Rightarrow> bool \<Rightarrow> f64 \<Rightarrow> i64 \<Rightarrow> ledger \<Rightarrow> f64 \<times> ledger \<times> (peer_id \<times> locator \<times> nat) option" where
  "serve_settled i request_id path served rise now_ms d =
     (let d = leave_relay i d;
          d = (case path of Some p \<Rightarrow> note_lease_path i p d | None \<Rightarrow> d)
      in if served then debit i request_id rise now_ms d else (f64_zero, d, None))"

end
