(* ===== verification/Relay_Props.thy ===== *)
theory Relay_Props
  imports Lease_Props
begin

text \<open>
  The requests the ledger remembers and the slots it hands out: a request is relayed and charged once while
  it is remembered, and no more relays of a lease are open than the lease allows.
\<close>

section \<open>The memory of relayed requests\<close>

lemma pairs_len_insert:
  "hm_ok m \<Longrightarrow> pairs_len (hm_insert k v m) + length (unwrap_or (hm_get m k) []) = pairs_len m + length v"
proof (induction k v m rule: hm_insert.induct)
  case (2 k v a b m)
  show ?case
  proof (cases "a = k")
    case True
    then show ?thesis by (simp add: pairs_len_def hm_get_def)
  next
    case False
    with 2 have "pairs_len (hm_insert k v m) + length (unwrap_or (hm_get m k) []) = pairs_len m + length v"
      by (simp add: hm_ok_def)
    with False show ?thesis by (simp add: pairs_len_def hm_get_def)
  qed
qed (simp add: pairs_len_def hm_get_def)

lemma hm_get_expire:
  "hm_ok cache \<Longrightarrow> hm_get (expire_pairs t cache) i =
     filter_opt (\<lambda>ids. ids \<noteq> []) (map_option (filter (\<lambda>p. saturating_sub_i64 t (rp_at_ms p) < SERVED_TTL_MS)) (hm_get cache i))"
proof (induction cache)
  case (Cons q cache)
  obtain l ids where q: "q = (l, ids)" by force
  from Cons.prems q have ok: "hm_ok cache" "l \<notin> fst ` set cache" by (auto simp: hm_ok_def)
  have none: "hm_get (expire_pairs t cache) l = None"
    using ok(2) by (force simp: hm_get_None expire_pairs_def)
  show ?case using Cons.IH [OF ok(1)] none by (auto simp: q expire_pairs_def hm_get_def filter_opt_def)
qed (simp add: expire_pairs_def hm_get_def filter_opt_def)

lemma hm_ok_expire: "hm_ok cache \<Longrightarrow> hm_ok (expire_pairs t cache)"
proof -
  assume "hm_ok cache"
  then have "hm_ok (map (\<lambda>(l, ids). (l, filter (\<lambda>p. saturating_sub_i64 t (rp_at_ms p) < SERVED_TTL_MS) ids)) cache)"
    by (simp add: hm_ok_def comp_def case_prod_beta)
  then show ?thesis unfolding expire_pairs_def by (rule hm_ok_filter)
qed

lemma pairs_len_expire: "pairs_len (expire_pairs t cache) \<le> pairs_len cache"
proof (induction cache)
  case (Cons q cache)
  have len: "length (filter (\<lambda>p. saturating_sub_i64 t (rp_at_ms p) < SERVED_TTL_MS) (snd q)) + a \<le> length (snd q) + b"
    if "a \<le> b" for a b :: nat by (rule add_le_mono [OF length_filter_le that])
  from Cons show ?case by (auto simp: expire_pairs_def pairs_len_def case_prod_beta intro!: len intro: le_trans)
qed (simp add: expire_pairs_def pairs_len_def)

lemma evict_none: "pairs_len cache < SERVED_CAPACITY \<Longrightarrow> evict_oldest n cache = cache"
  by (cases n) simp_all

lemma drop_front_ok: "hm_ok cache \<Longrightarrow> hm_ok (drop_front l cache)"
  by (simp add: drop_front_def split: option.split)

lemma evict_ok: "hm_ok cache \<Longrightarrow> hm_ok (evict_oldest n cache)"
  by (induction n arbitrary: cache) (auto simp: drop_front_ok split: option.split)

lemma admit_pair_ok: "hm_ok cache \<Longrightarrow> hm_ok (snd (admit_pair i r t cache))"
  by (simp add: admit_pair_def Let_def evict_ok hm_ok_expire)

lemma set_charged_ok: "hm_ok cache \<Longrightarrow> hm_ok (set_charged i r cache)"
  by (simp add: set_charged_def split: option.split)

lemma mark_charged_ok: "hm_ok cache \<Longrightarrow> hm_ok (snd (mark_charged i r t cache))"
  by (auto simp: mark_charged_def set_charged_ok admit_pair_ok split: option.split)

lemma length_charge_pair [simp]: "length (charge_pair r ids) = length ids"
  by (induction ids) simp_all

lemma pairs_len_set_charged: "hm_ok cache \<Longrightarrow> pairs_len (set_charged i r cache) = pairs_len cache"
  using pairs_len_insert [of cache i "charge_pair r (unwrap_or (hm_get cache i) [])"]
  by (auto simp: set_charged_def split: option.split)

lemma pairs_len_admit:
  assumes "hm_ok cache" "pairs_len cache < SERVED_CAPACITY"
  shows "pairs_len (snd (admit_pair i r t cache)) \<le> Suc (pairs_len cache)"
proof -
  let ?c = "expire_pairs t cache"
  have small: "pairs_len ?c < SERVED_CAPACITY" "pairs_len ?c \<le> pairs_len cache"
    using pairs_len_expire [of t cache] assms(2) by simp_all
  then have e: "evict_oldest n ?c = ?c" for n by (simp add: evict_none)
  have ins: "pairs_len (hm_insert i v ?c) \<le> Suc (pairs_len ?c)" if "length v \<le> Suc (length (unwrap_or (hm_get ?c i) []))" for v
    using pairs_len_insert [OF hm_ok_expire [OF assms(1)], of i v t] that by linarith
  then show ?thesis using small(2) by (auto simp: admit_pair_def e Let_def intro!: order_trans [OF ins])
qed

lemma pairs_len_mark:
  assumes "hm_ok cache" "pairs_len cache < SERVED_CAPACITY"
  shows "pairs_len (snd (mark_charged i r t cache)) \<le> Suc (pairs_len cache)"
  using pairs_len_admit [OF assms, of i r t]
  by (auto simp: mark_charged_def pairs_len_set_charged admit_pair_ok assms(1) split: option.split)

text \<open>Request \<open>r\<close> of lease \<open>i\<close> is remembered since \<open>t0\<close>, at most \<open>k\<close> younger ones of the lease after it.\<close>

definition remembered :: "u128 \<Rightarrow> u128 \<Rightarrow> i64 \<Rightarrow> bool \<Rightarrow> nat \<Rightarrow> pair_cache \<Rightarrow> bool" where
  "remembered i r t0 charged k cache \<longleftrightarrow>
     (\<exists>older p younger. hm_get cache i = Some (older @ p # younger) \<and> rp_request p = r \<and> rp_at_ms p = t0 \<and>
        (charged \<longrightarrow> rp_charged p) \<and> length younger \<le> k \<and> r \<notin> rp_request ` set older)"

lemma rememberedI:
  "hm_get cache i = Some (older @ p # younger) \<Longrightarrow> rp_request p = r \<Longrightarrow> rp_at_ms p = t0 \<Longrightarrow> (c \<Longrightarrow> rp_charged p) \<Longrightarrow>
     length younger \<le> k \<Longrightarrow> r \<notin> rp_request ` set older \<Longrightarrow> remembered i r t0 c k cache"
  unfolding remembered_def by blast

lemma remembered_mono: "remembered i r t0 c k cache \<Longrightarrow> k \<le> k' \<Longrightarrow> remembered i r t0 c k' cache"
proof -
  assume "remembered i r t0 c k cache" "k \<le> k'"
  then obtain older p younger where "hm_get cache i = Some (older @ p # younger)" "rp_request p = r"
      "rp_at_ms p = t0" "c \<longrightarrow> rp_charged p" "length younger \<le> k'" "r \<notin> rp_request ` set older"
    unfolding remembered_def using order_trans by blast
  then show ?thesis unfolding remembered_def by blast
qed

lemma remembered_expire:
  assumes "remembered i r t0 c k cache" "hm_ok cache" "saturating_sub_i64 t t0 < SERVED_TTL_MS"
  shows "remembered i r t0 c k (expire_pairs t cache)"
proof -
  let ?keep = "\<lambda>p. saturating_sub_i64 t (rp_at_ms p) < SERVED_TTL_MS"
  from assms(1) obtain older p younger where p: "hm_get cache i = Some (older @ p # younger)" "rp_request p = r"
      "rp_at_ms p = t0" "c \<longrightarrow> rp_charged p" "length younger \<le> k" "r \<notin> rp_request ` set older"
    unfolding remembered_def by blast
  then have get: "hm_get (expire_pairs t cache) i = Some (filter ?keep older @ p # filter ?keep younger)"
    using hm_get_expire [OF assms(2)] assms(3) by (simp add: filter_opt_def)
  moreover have "length (filter ?keep younger) \<le> k" using p(5) order_trans length_filter_le by blast
  ultimately show ?thesis by (intro rememberedI [OF get]) (use p in auto)
qed

lemma remembered_admit:
  assumes "remembered i r t0 c k cache" "hm_ok cache" "saturating_sub_i64 t t0 < SERVED_TTL_MS"
    and "pairs_len cache < SERVED_CAPACITY" "Suc k < SERVED_PER_LEASE_CAPACITY"
  shows "remembered i r t0 c (Suc k) (snd (admit_pair l r' t cache))"
    and "l = i \<Longrightarrow> r' = r \<Longrightarrow> \<not> fst (admit_pair l r' t cache)"
proof -
  let ?c = "expire_pairs t cache"
  have e: "evict_oldest n ?c = ?c" for n
    using pairs_len_expire [of t cache] assms(4) by (intro evict_none) simp
  from remembered_expire [OF assms(1-3)] obtain older p younger where p: "hm_get ?c i = Some (older @ p # younger)"
      "rp_request p = r" "rp_at_ms p = t0" "c \<longrightarrow> rp_charged p" "length younger \<le> k" "r \<notin> rp_request ` set older"
    unfolding remembered_def by blast
  show "l = i \<Longrightarrow> r' = r \<Longrightarrow> \<not> fst (admit_pair l r' t cache)"
    using p(1,2) by (simp add: admit_pair_def e Let_def)
  have same: "remembered i r t0 c (Suc k) ?c"
    using remembered_expire [OF assms(1-3)] by (rule remembered_mono) simp
  show "remembered i r t0 c (Suc k) (snd (admit_pair l r' t cache))"
  proof (cases "l = i")
    case False
    with same show ?thesis by (auto simp: admit_pair_def e Let_def remembered_def)
  next
    case True
    let ?ids = "older @ p # younger"
    let ?n = "Suc (length ?ids) - SERVED_PER_LEASE_CAPACITY"
    have "?n \<le> length older" using p(5) assms(5) by simp
    then have d: "drop ?n ?ids = drop ?n older @ p # younger" by simp
    have "r \<notin> rp_request ` set (drop ?n older)" using p(6) set_drop_subset by fastforce
    moreover have "length (younger @ [x]) \<le> Suc k" for x using p(5) by simp
    moreover have "hm_get (hm_insert i (drop ?n ?ids @ [x]) ?c) i = Some (drop ?n older @ p # (younger @ [x]))" for x
      unfolding d by simp
    ultimately have "remembered i r t0 c (Suc k) (hm_insert i (drop ?n ?ids @ [x]) ?c)" for x
      using p(2-4) by (intro rememberedI) auto
    then show ?thesis using True same p(1) by (simp add: admit_pair_def e Let_def)
  qed
qed

lemma charge_pair_split:
  "r' \<noteq> rp_request p \<Longrightarrow> r \<notin> rp_request ` set older \<Longrightarrow> rp_request p = r \<Longrightarrow>
     \<exists>older' younger'. charge_pair r' (older @ p # younger) = older' @ p # younger' \<and> length younger' = length younger \<and>
       rp_request ` set older' = rp_request ` set older"
proof (induction older)
  case Nil
  then show ?case by (intro exI [of _ "[]"] exI [of _ "charge_pair r' younger"]) simp
next
  case (Cons q older)
  then obtain older' younger' where s: "charge_pair r' (older @ p # younger) = older' @ p # younger'" "length younger' = length younger"
      "rp_request ` set older' = rp_request ` set older" by auto
  show ?case
  proof (cases "rp_request q = r'")
    case True
    then show ?thesis by (intro exI [of _ "q\<lparr>rp_charged := True\<rparr> # older"] exI [of _ younger]) simp
  next
    case False
    with s show ?thesis by (intro exI [of _ "q # older'"] exI [of _ younger']) simp
  qed
qed

lemma charge_pair_hit: "r \<notin> rp_request ` set older \<Longrightarrow> rp_request p = r \<Longrightarrow>
  charge_pair r (older @ p # younger) = older @ p\<lparr>rp_charged := True\<rparr> # younger"
  by (induction older) auto

lemma remembered_set_charged:
  assumes "remembered i r t0 c k cache"
  shows "remembered i r t0 (c \<or> (l = i \<and> r' = r)) k (set_charged l r' cache)"
proof -
  from assms obtain older p younger where p: "hm_get cache i = Some (older @ p # younger)" "rp_request p = r"
      "rp_at_ms p = t0" "c \<longrightarrow> rp_charged p" "length younger \<le> k" "r \<notin> rp_request ` set older"
    unfolding remembered_def by blast
  consider "l \<noteq> i" | "l = i" "r' = r" | "l = i" "r' \<noteq> r" by blast
  then show ?thesis
  proof cases
    case 1
    with assms show ?thesis by (auto simp: set_charged_def remembered_def split: option.split)
  next
    case 2
    have "hm_get (set_charged l r' cache) i = Some (older @ p\<lparr>rp_charged := True\<rparr> # younger)"
      using 2 p(1) charge_pair_hit [OF p(6,2)] by (simp add: set_charged_def)
    then show ?thesis by (rule rememberedI) (use p in auto)
  next
    case 3
    then obtain older' younger' where s: "charge_pair r' (older @ p # younger) = older' @ p # younger'"
        "length younger' = length younger" "rp_request ` set older' = rp_request ` set older"
      using charge_pair_split [of r' p r older younger] p by auto
    then have "hm_get (set_charged l r' cache) i = Some (older' @ p # younger')" using 3 p(1) by (simp add: set_charged_def)
    then show ?thesis by (rule rememberedI) (use p s 3 in auto)
  qed
qed

lemma find_request: "r \<notin> rp_request ` set older \<Longrightarrow> rp_request p = r \<Longrightarrow>
  List.find (\<lambda>p. rp_request p = r) (older @ p # younger) = Some p"
  by (induction older) auto

lemma remembered_found:
  assumes "remembered i r t0 c k cache"
  obtains p where "find_pair i r cache = Some p" "c \<longrightarrow> rp_charged p"
proof -
  from assms obtain older p younger where p: "hm_get cache i = Some (older @ p # younger)" "rp_request p = r"
      "c \<longrightarrow> rp_charged p" "r \<notin> rp_request ` set older"
    unfolding remembered_def by blast
  have "List.find (\<lambda>p. rp_request p = r) (older @ p # younger) = Some p" using p(4,2) by (rule find_request)
  then show ?thesis using p by (intro that [of p]) (simp_all add: find_pair_def)
qed

lemma remembered_mark:
  assumes "remembered i r t0 c k cache" "hm_ok cache" "saturating_sub_i64 t t0 < SERVED_TTL_MS"
    and "pairs_len cache < SERVED_CAPACITY" "Suc k < SERVED_PER_LEASE_CAPACITY"
  shows "remembered i r t0 (c \<or> (l = i \<and> r' = r)) (Suc k) (snd (mark_charged l r' t cache))"
proof (cases "find_pair l r' cache")
  case None
  have m: "snd (mark_charged l r' t cache) = set_charged l r' (snd (admit_pair l r' t cache))"
    using None by (simp add: mark_charged_def)
  show ?thesis unfolding m by (rule remembered_set_charged) (rule remembered_admit(1) [OF assms])
next
  case (Some p)
  show ?thesis
  proof (cases "rp_charged p")
    case True
    have "remembered i r t0 (c \<or> (l = i \<and> r' = r)) (Suc k) cache"
    proof (cases "l = i \<and> r' = r")
      case hit: True
      from assms(1) obtain older q younger where q: "hm_get cache i = Some (older @ q # younger)" "rp_request q = r"
          "rp_at_ms q = t0" "length younger \<le> k" "r \<notin> rp_request ` set older"
        unfolding remembered_def by blast
      have "List.find (\<lambda>p. rp_request p = r) (older @ q # younger) = Some q" using q(5,2) by (rule find_request)
      with q Some hit have "q = p" by (simp add: find_pair_def)
      with q True show ?thesis by (intro rememberedI [OF q(1)]) auto
    next
      case False
      then have "(c \<or> (l = i \<and> r' = r)) = c" by blast
      moreover have "remembered i r t0 c (Suc k) cache" by (rule remembered_mono [OF assms(1)]) simp
      ultimately show ?thesis by (simp only:)
    qed
    moreover have "snd (mark_charged l r' t cache) = cache" using Some True by (simp add: mark_charged_def)
    ultimately show ?thesis by (simp only:)
  next
    case False
    with Some have m: "snd (mark_charged l r' t cache) = set_charged l r' cache" by (simp add: mark_charged_def)
    show ?thesis unfolding m by (rule remembered_mono [OF remembered_set_charged [OF assms(1)]]) simp
  qed
qed

section \<open>Relayed once, charged once\<close>

fun soon :: "i64 \<Rightarrow> ledger_op \<Rightarrow> bool" where
  "soon t0 (Enter _ _ _ t) = (saturating_sub_i64 t t0 < SERVED_TTL_MS)"
| "soon t0 (Debit _ _ _ t) = (saturating_sub_i64 t t0 < SERVED_TTL_MS)"
| "soon t0 _ = True"

fun charges :: "u128 \<Rightarrow> u128 \<Rightarrow> ledger_op \<Rightarrow> bool" where
  "charges i r (Debit j r' _ _) = (j = i \<and> r' = r)"
| "charges i r _ = False"

lemma enter_pairs:
  "ld_pairs (snd (enter_relay i peer r t d)) = ld_pairs d \<or>
   ld_pairs (snd (enter_relay i peer r t d)) = snd (admit_pair i r t (ld_pairs d))"
  by (auto simp: enter_relay_def Let_def split: option.split prod.split)

lemma grant_pairs: "ld_pairs (snd (ledger_grant off w peer ask row fl rid now_ms now d)) = ld_pairs d"
proof -
  obtain a d' where g: "ledger_grant off w peer ask row fl rid now_ms now d = (a, d')" by force
  then have "ld_pairs d' = ld_pairs d" by (cases rule: ledger_grant_cases) auto
  with g show ?thesis by simp
qed

lemma ledger_step_pairs:
  "(ld_pairs (ledger_step op d) = ld_pairs d \<and> \<not> charges i r op) \<or>
   (\<exists>j peer r' t. op = Enter j peer r' t \<and> ld_pairs (ledger_step op d) = snd (admit_pair j r' t (ld_pairs d))) \<or>
   (\<exists>j r' rise t. op = Debit j r' rise t \<and> ld_pairs (ledger_step op d) = snd (mark_charged j r' t (ld_pairs d)))"
proof (cases op)
  case (Enter j peer r' t)
  then show ?thesis using enter_pairs [of j peer r' t d] by auto
next
  case (Hint peer j spent)
  then show ?thesis using hint_simps by (cases "on_usage_hint peer j spent d") fastforce+
qed (simp_all add: grant_pairs debit_simps note_scope_headroom_def note_lease_path_def)

lemma pairs_ok_step:
  assumes "hm_ok (ld_pairs d)"
  shows "hm_ok (ld_pairs (ledger_step op d))"
  using ledger_step_pairs [of op d 0 0]
proof (elim disjE exE conjE)
qed (simp_all only: assms admit_pair_ok mark_charged_ok)

lemma pairs_ok_run: "hm_ok (ld_pairs d) \<Longrightarrow> hm_ok (ld_pairs (ledger_run ops d))"
  by (induction ops arbitrary: d) (simp_all add: pairs_ok_step del: ledger_step.simps)

lemma pairs_len_step:
  assumes "hm_ok (ld_pairs d)" "pairs_len (ld_pairs d) < SERVED_CAPACITY"
  shows "pairs_len (ld_pairs (ledger_step op d)) \<le> Suc (pairs_len (ld_pairs d))"
  using ledger_step_pairs [of op d 0 0]
proof (elim disjE exE conjE)
  assume "ld_pairs (ledger_step op d) = ld_pairs d" then show ?thesis by simp
next
  fix j r' t assume "ld_pairs (ledger_step op d) = snd (admit_pair j r' t (ld_pairs d))"
  then show ?thesis using pairs_len_admit [OF assms] by simp
next
  fix j r' t assume "ld_pairs (ledger_step op d) = snd (mark_charged j r' t (ld_pairs d))"
  then show ?thesis using pairs_len_mark [OF assms] by simp
qed

lemma remembered_step:
  assumes "remembered i r t0 c k (ld_pairs d)" "hm_ok (ld_pairs d)" "soon t0 op"
    and "pairs_len (ld_pairs d) < SERVED_CAPACITY" "Suc k < SERVED_PER_LEASE_CAPACITY"
  shows "remembered i r t0 (c \<or> charges i r op) (Suc k) (ld_pairs (ledger_step op d))"
  using ledger_step_pairs [of op d i r]
proof (elim disjE exE conjE)
  assume "ld_pairs (ledger_step op d) = ld_pairs d" "\<not> charges i r op"
  then show ?thesis using remembered_mono [OF assms(1), of "Suc k"] by simp
next
  fix j peer r' t assume op: "op = Enter j peer r' t" "ld_pairs (ledger_step op d) = snd (admit_pair j r' t (ld_pairs d))"
  have "remembered i r t0 c (Suc k) (snd (admit_pair j r' t (ld_pairs d)))"
    using assms op(1) by (intro remembered_admit) simp_all
  then show ?thesis unfolding op(2) by (simp add: op(1))
next
  fix j r' rise t assume op: "op = Debit j r' rise t" "ld_pairs (ledger_step op d) = snd (mark_charged j r' t (ld_pairs d))"
  have "remembered i r t0 (c \<or> (j = i \<and> r' = r)) (Suc k) (snd (mark_charged j r' t (ld_pairs d)))"
    using assms op(1) by (intro remembered_mark) simp_all
  then show ?thesis unfolding op(2) by (simp add: op(1))
qed

lemma remembered_run:
  assumes "remembered i r t0 c k (ld_pairs d)" "hm_ok (ld_pairs d)" "\<forall>op\<in>set ops. soon t0 op"
    and "pairs_len (ld_pairs d) + length ops < SERVED_CAPACITY" "k + length ops < SERVED_PER_LEASE_CAPACITY"
  shows "remembered i r t0 (c \<or> (\<exists>op\<in>set ops. charges i r op)) (k + length ops) (ld_pairs (ledger_run ops d)) \<and>
    pairs_len (ld_pairs (ledger_run ops d)) \<le> pairs_len (ld_pairs d) + length ops"
  using assms
proof (induction ops arbitrary: c k d)
  case (Cons op ops)
  let ?d = "ledger_step op d"
  have len: "pairs_len (ld_pairs ?d) \<le> Suc (pairs_len (ld_pairs d))" using Cons.prems by (intro pairs_len_step) simp_all
  have "remembered i r t0 (c \<or> charges i r op) (Suc k) (ld_pairs ?d)" using Cons.prems by (intro remembered_step) simp_all
  from Cons.IH [OF this pairs_ok_step [OF Cons.prems(2)]] Cons.prems(3-5) len
  have "remembered i r t0 ((c \<or> charges i r op) \<or> (\<exists>op\<in>set ops. charges i r op)) (Suc k + length ops) (ld_pairs (ledger_run ops ?d)) \<and>
    pairs_len (ld_pairs (ledger_run ops ?d)) \<le> pairs_len (ld_pairs ?d) + length ops" by simp
  then show ?case using len by (simp add: disj_assoc del: ledger_step.simps)
qed simp

lemma admitted_remembered:
  assumes "fst (admit_pair i r t cache)"
  shows "remembered i r t False 0 (snd (admit_pair i r t cache))"
proof -
  let ?c = "evict_oldest (pairs_len (expire_pairs t cache)) (expire_pairs t cache)"
  let ?ids = "unwrap_or (hm_get ?c i) []"
  have new: "\<not> list_ex (\<lambda>p. rp_request p = r) ?ids" using assms by (auto simp: admit_pair_def Let_def split: if_splits)
  then have "hm_get (snd (admit_pair i r t cache)) i =
      Some (drop (Suc (length ?ids) - SERVED_PER_LEASE_CAPACITY) ?ids @ \<lparr>rp_request = r, rp_at_ms = t, rp_charged = False\<rparr> # [])"
    by (simp add: admit_pair_def Let_def)
  moreover have "r \<notin> rp_request ` set (drop n ?ids)" for n
    using new set_drop_subset [of n ?ids] by (auto simp: list_ex_iff)
  ultimately show ?thesis by (intro rememberedI) auto
qed

text \<open>
  C26. A relayed request is relayed once and charged once. Within ten minutes, fewer than 256 operations
  later and short of the process's own bound, a second relay of the same request under the same lease is
  refused to every peer, whatever was done to the ledger in between; and once the request has been charged,
  charging it again charges nothing and moves no lease's spend.
\<close>

theorem relayed_and_charged_once:
  assumes "hm_ok (ld_pairs d)" and "fst (enter_relay i peer r t0 d) = None"
    and "\<forall>op\<in>set ops. soon t0 op" and "Suc (length ops) < SERVED_PER_LEASE_CAPACITY"
    and "pairs_len (ld_pairs (snd (enter_relay i peer r t0 d))) + length ops < SERVED_CAPACITY"
    and "saturating_sub_i64 t t0 < SERVED_TTL_MS"
  shows "let d' = ledger_run ops (snd (enter_relay i peer r t0 d)) in
    fst (enter_relay i peer' r t d') \<noteq> None \<and>
    ((\<exists>op\<in>set ops. charges i r op) \<longrightarrow>
      fst (debit i r rise t d') = f64_zero \<and> ld_leases (fst (snd (debit i r rise t d'))) = ld_leases d')"
proof -
  let ?d = "snd (enter_relay i peer r t0 d)"
  let ?d' = "ledger_run ops ?d" and ?c = "\<exists>op\<in>set ops. charges i r op"
  have ok: "hm_ok (ld_pairs ?d)" using pairs_ok_step [OF assms(1), of "Enter i peer r t0"] by simp
  have "remembered i r t0 False 0 (ld_pairs ?d)"
    unfolding enter_admitted(4) [OF assms(2)] by (rule admitted_remembered) (rule enter_admitted(3) [OF assms(2)])
  from remembered_run [OF this ok assms(3,5)] assms(4)
  have rem: "remembered i r t0 ?c (length ops) (ld_pairs ?d')" and len: "pairs_len (ld_pairs ?d') < SERVED_CAPACITY"
    using assms(5) by auto
  have "\<not> fst (admit_pair i r t (ld_pairs ?d'))"
    by (rule remembered_admit(2) [OF rem pairs_ok_run [OF ok] assms(6) len assms(4)]) simp_all
  then have "fst (enter_relay i peer' r t ?d') \<noteq> None" using enter_admitted(3) by blast
  moreover have "fst (debit i r rise t ?d') = f64_zero \<and> ld_leases (fst (snd (debit i r rise t ?d'))) = ld_leases ?d'" if charged: ?c
  proof -
    obtain p where "find_pair i r (ld_pairs ?d') = Some p" "rp_charged p" using remembered_found [OF rem] charged by blast
    then have "mark_charged i r t (ld_pairs ?d') = (False, ld_pairs ?d')" by (simp add: mark_charged_def)
    then show ?thesis by (simp add: debit_def)
  qed
  ultimately show ?thesis by (simp add: Let_def)
qed

theorem relayed_and_charged_once_witness:
  "let d = ledger_run [Debit 5 1 (Fin (1 / 100)) 162000002] (snd (enter_relay 5 [7] 1 162000001 (snd night_grant)))
   in fst (enter_relay 5 [9] 1 162000003 d) \<noteq> None \<and> fst (debit 5 1 (Fin (1 / 10)) 162000003 d) = f64_zero"
proof -
  have "let d = ledger_run [Debit 5 1 (Fin (1 / 100)) 162000002] (snd (enter_relay 5 [7] 1 162000001 (snd night_grant)))
    in fst (enter_relay 5 [9] 1 162000003 d) \<noteq> None \<and>
      ((\<exists>op\<in>set [Debit 5 1 (Fin (1 / 100)) 162000002]. charges 5 1 op) \<longrightarrow>
        fst (debit 5 1 (Fin (1 / 10)) 162000003 d) = f64_zero \<and>
        ld_leases (fst (snd (debit 5 1 (Fin (1 / 10)) 162000003 d))) = ld_leases d)"
  proof (rule relayed_and_charged_once)
    have p: "ld_pairs (snd night_grant) = []"
      "ld_pairs (snd (enter_relay 5 [7] 1 162000001 (snd night_grant))) =
        [(5, [\<lparr>rp_request = 1, rp_at_ms = 162000001, rp_charged = False\<rparr>])]" by code_simp+
    show "hm_ok (ld_pairs (snd night_grant))" by (simp add: p hm_ok_def)
    show "fst (enter_relay 5 [7] 1 162000001 (snd night_grant)) = None" by code_simp
    show "pairs_len (ld_pairs (snd (enter_relay 5 [7] 1 162000001 (snd night_grant)))) +
        length [Debit 5 1 (Fin (1 / 100)) 162000002] < SERVED_CAPACITY"
      by (simp add: p pairs_len_def SERVED_CAPACITY_def)
  qed (simp_all add: SERVED_TTL_MS_def SERVED_PER_LEASE_CAPACITY_def saturating_sub_i64_def sat64_def i64_min_def i64_max_def)
  then show ?thesis by (simp add: Let_def)
qed

section \<open>No more at once than the lease allows\<close>

text \<open>The relays of lease \<open>i\<close> that were admitted and have not left.\<close>

fun open_after :: "u128 \<Rightarrow> ledger_op \<Rightarrow> ledger \<Rightarrow> nat \<Rightarrow> nat" where
  "open_after i (Enter j peer r t) d n = (if j = i \<and> fst (enter_relay j peer r t d) = None then Suc n else n)"
| "open_after i (Leave j) d n = (if j = i then n - 1 else n)"
| "open_after i _ d n = n"

fun open_relays :: "u128 \<Rightarrow> ledger_op list \<Rightarrow> ledger \<Rightarrow> nat \<Rightarrow> nat" where
  "open_relays i [] d n = n"
| "open_relays i (op # ops) d n = open_relays i ops (ledger_step op d) (open_after i op d n)"

text \<open>The ledger's own count of them is right for as long as the lease has a grantee.\<close>

definition slots_counted :: "u128 \<Rightarrow> ledger \<Rightarrow> nat \<Rightarrow> bool" where
  "slots_counted i d n = (hm_get (ld_grantees d) i \<noteq> None \<longrightarrow> unat (inflight d i) = n)"

lemma inflight_grant:
  assumes "other_id i (Grant off w peer ask row fl rid now_ms now)"
    and "hm_get (ld_grantees (ledger_step (Grant off w peer ask row fl rid now_ms now) d)) i \<noteq> None"
  shows "inflight (ledger_step (Grant off w peer ask row fl rid now_ms now) d) i = inflight d i"
proof -
  obtain a d' where g: "ledger_grant off w peer ask row fl rid now_ms now d = (a, d')" by force
  from g have "inflight d' i = inflight d i"
  proof (cases rule: ledger_grant_cases)
    case (minted l g' j)
    then have "le_id l \<noteq> i" using clamp_id [of ask] assms(1) by (metis other_id.simps(1))
    with minted g assms(2) show ?thesis by (auto simp: inflight_def hm_get_filter_fst split: if_splits)
  next
    case refused
    then show ?thesis by (auto simp: inflight_def)
  qed
  with g show ?thesis by simp
qed

lemma unat_inc:
  fixes k m :: u8
  assumes "k < m"
  shows "unat (k + 1) = Suc (unat k)"
proof -
  have "unat k < unat m" "unat m < 2 ^ LENGTH(8)" using assms unsigned_less [of m] by (simp_all add: word_less_nat_alt)
  then have "unat k + 1 < 256" by simp
  then show ?thesis by (simp add: unat_word_ariths)
qed

lemma slots_enter:
  assumes "slots_counted i d n" "n \<le> unat (le_max_inflight l)" "terms_of i d \<subseteq> {terms l}"
  shows "slots_counted i (ledger_step (Enter j peer r t) d) (open_after i (Enter j peer r t) d n)"
    and "open_after i (Enter j peer r t) d n \<le> unat (le_max_inflight l)"
proof -
  let ?e = "enter_relay j peer r t d"
  have "slots_counted i (snd ?e) (open_after i (Enter j peer r t) d n) \<and> open_after i (Enter j peer r t) d n \<le> unat (le_max_inflight l)"
  proof (cases "fst ?e = None")
    case False
    then have "ld_inflight (snd ?e) = ld_inflight d" by (auto simp: enter_relay_def Let_def split: option.split prod.split)
    with assms False show ?thesis by (simp add: slots_counted_def inflight_def enter_relay_simps del: not_None_eq)
  next
    case True
    then have grantee: "hm_get (ld_grantees d) j = Some peer" by (rule enter_admitted)
    from enter_admitted(2) [OF True] obtain l' where l': "lease_of d j = Some l'" by (auto simp: may_relay_None)
    have "ld_inflight (snd ?e) = hm_insert j (inflight d j + 1) (ld_inflight d) \<and> inflight d j < le_max_inflight l'"
      using True l' by (auto simp: enter_relay_def Let_def lease_of_def inflight_def not_le split: option.splits prod.splits if_splits)
    then have e: "ld_inflight (snd ?e) = hm_insert j (inflight d j + 1) (ld_inflight d)" "inflight d j < le_max_inflight l'" by blast+
    show ?thesis
    proof (cases "j = i")
      case other: False
      with e assms show ?thesis by (simp add: slots_counted_def inflight_def enter_relay_simps)
    next
      case same: True
      have "terms l' \<in> {terms l}" using lease_of_terms [OF l'] same assms(3) by blast
      then have "le_max_inflight l' = le_max_inflight l"
        by (metis singletonD terms_def lease.ext_inject lease.surjective lease.update_convs(6))
      then have lt: "inflight d i < le_max_inflight l" using e(2) same by simp
      then have "unat (inflight d i) < unat (le_max_inflight l)" by (simp add: word_less_nat_alt)
      moreover have "unat (inflight d i + 1) = Suc (unat (inflight d i))" by (rule unat_inc [OF lt])
      moreover have "unat (inflight d i) = n" using assms(1) grantee same by (simp add: slots_counted_def)
      moreover have "inflight (snd ?e) i = inflight d i + 1" using e(1) same by (simp add: inflight_def)
      ultimately show ?thesis using True same by (simp add: slots_counted_def)
    qed
  qed
  then show "slots_counted i (ledger_step (Enter j peer r t) d) (open_after i (Enter j peer r t) d n)"
    and "open_after i (Enter j peer r t) d n \<le> unat (le_max_inflight l)" by simp_all
qed

lemma slots_leave:
  assumes "slots_counted i d n"
  shows "slots_counted i (leave_relay j d) (if j = i then n - 1 else n)"
proof -
  have "unat (inflight (leave_relay j d) i) = (if j = i then unat (inflight d i) - 1 else unat (inflight d i))"
  proof (cases "hm_get (ld_inflight d) j")
    case (Some k)
    have "unat (k - 1) = unat k - 1" if "k \<noteq> 0" using that by (simp add: unat_minus_one)
    with Some show ?thesis by (auto simp: leave_relay_def inflight_def Let_def)
  qed (auto simp: leave_relay_def inflight_def)
  with assms show ?thesis by (auto simp: slots_counted_def)
qed

lemma slots_step:
  assumes "other_id i op" "slots_counted i d n" "n \<le> unat (le_max_inflight l)" "terms_of i d \<subseteq> {terms l}"
  shows "slots_counted i (ledger_step op d) (open_after i op d n) \<and> open_after i op d n \<le> unat (le_max_inflight l)"
proof (cases op)
  case (Grant off w peer ask row fl rid now_ms now)
  with assms inflight_grant [of i off w peer ask row fl rid now_ms now d]
    ledger_step_keeps [OF assms(1), of d] show ?thesis by (auto simp: slots_counted_def simp del: ledger_step.simps)
next
  case (Enter j peer r t)
  then show ?thesis using slots_enter [OF assms(2-4)] by simp
next
  case (Leave j)
  then show ?thesis using slots_leave [OF assms(2), of j] assms(3) by auto
next
  case (Debit j r rise t)
  with assms(2,3) show ?thesis by (simp add: slots_counted_def inflight_def debit_simps)
next
  case (Hint peer j spent)
  with assms(2,3) hint_simps [of peer j spent d] show ?thesis
    by (cases "on_usage_hint peer j spent d") (auto simp: slots_counted_def inflight_def)
qed (use assms(2,3) in \<open>simp_all add: slots_counted_def inflight_def note_scope_headroom_def note_lease_path_def\<close>)

lemma slots_run:
  assumes "\<forall>op\<in>set ops. other_id i op" "slots_counted i d n" "n \<le> unat (le_max_inflight l)" "terms_of i d \<subseteq> {terms l}"
  shows "open_relays i ops d n \<le> unat (le_max_inflight l)"
  using assms
proof (induction ops arbitrary: d n)
  case (Cons op ops)
  then have op: "other_id i op" by simp
  have "terms_of i (ledger_step op d) \<subseteq> {terms l}" using ledger_step_keeps [OF op, of d] Cons.prems(4) by blast
  with Cons slots_step [OF op Cons.prems(2-4)] show ?case by (simp del: ledger_step.simps)
qed simp

text \<open>
  C27. No borrower runs more requests at once than the operator granted. From the moment a lease is minted
  and whatever happens to the ledger, including other peers' grants that prune it, the relays of the lease
  that were admitted and have not ended are at most the grant's own limit, and at most the borrower's ask.
\<close>

theorem relays_within_cap:
  assumes "ledger_grant off write_ok peer ask row fl (Some i) now_ms now d = (a, d')"
    and "lg_lease (ga_answer a) = Some l" "ga_funding a = Some g" "i \<notin> le_id ` set (ld_leases d)"
    and "\<forall>op\<in>set ops. other_id i op"
  shows "open_relays i ops d' 0 \<le> min (unat (rq_max_inflight ask)) (unat (gr_max_inflight g))"
  using assms(1)
proof (cases rule: ledger_grant_cases)
  case (minted l' g' j)
  with assms have m: "l' = l" "g' = g" "j = i" by auto
  from minted(2,9) m obtain room close where
    "lg_lease (clamp_to_grant ask (Some g) (is_some_and row pr_inspect) room now_ms i (gr_until g) close) = Some l" by auto
  then have "le_id l = i \<and> le_max_inflight l = min (rq_max_inflight ask) (gr_max_inflight g)" by (rule clamp_mints) blast
  then have c: "le_id l = i" "le_max_inflight l = min (rq_max_inflight ask) (gr_max_inflight g)" by blast+
  have d': "d' = record_scoped write_ok now_ms l peer (gr_scope g) (note_measured fl (gr_scope g) (rq_window ask) d)"
    using minted(7) m by simp
  have "terms_of i d' \<subseteq> {terms l}" using assms(4) c(1) by (auto simp: d' terms_of_def intro: rev_image_eqI)
  moreover have "slots_counted i d' 0"
    using assms(4) by (auto simp: slots_counted_def d' inflight_def hm_get_filter_fst intro: rev_image_eqI)
  ultimately have "open_relays i ops d' 0 \<le> unat (le_max_inflight l)" using slots_run [OF assms(5)] by blast
  then show ?thesis unfolding c(2) by (auto simp: min_def word_le_nat_alt split: if_splits)
qed (use assms(2) in simp)

theorem relays_within_cap_witness:
  "open_relays 5 [Enter 5 [7] 1 162000001, Enter 5 [7] 2 162000002, Enter 5 [7] 3 162000003] (snd night_grant) 0 \<le> 2"
proof -
  have "open_relays 5 [Enter 5 [7] 1 162000001, Enter 5 [7] 2 162000002, Enter 5 [7] 3 162000003] (snd night_grant) 0
      \<le> min (unat (rq_max_inflight night_ask)) (unat (gr_max_inflight lent_night))"
    by (rule relays_within_cap [OF night_grant_eq night_granted]) (simp_all add: ledger_new_def)
  also have "\<dots> \<le> 2" by (simp add: lent_night_def)
  finally show ?thesis .
qed

end
