(* ===== verification/Peer_Lend.thy ===== *)
theory Peer_Lend
  imports Lease_Props Select_Props
begin

text \<open>
  What this node can lend (\<^verbatim>\<open>src/manager/peer_lend.rs\<close>, \<^verbatim>\<open>src/peer/lease.rs\<close>): the candidates of a scope, the
  room of each after the owner's guard band, the bearer a hand-mode grant hands over, and the answers the
  lease ledger asks for. The exit locks are read off the configuration rows, the instant is an argument.
\<close>

section \<open>Candidates\<close>

definition forbids_handoff :: "config_row \<Rightarrow> bool" where
  "forbids_handoff pin = cfg_egress_strict pin"

definition may_be_handed :: "config_row list \<Rightarrow> nat \<Rightarrow> bool" where
  "may_be_handed pins index = is_some_and (get pins index) (\<lambda>pin. \<not> forbids_handoff pin)"

fun scope_covers :: "lend_scope \<Rightarrow> string \<Rightarrow> string list \<Rightarrow> bool" where
  "scope_covers Scope_All label groups = True"
| "scope_covers (Scope_Group name) label groups = (name \<in> set groups)"
| "scope_covers (Scope_Accounts labels) label groups = (label \<in> set labels)"

definition account_label :: "account \<Rightarrow> string" where
  "account_label a = (case sanitize_label (a_name a) of Inr l \<Rightarrow> l | Inl _ \<Rightarrow> [])"

definition label_of_account :: "account \<Rightarrow> string option" where
  "label_of_account a = (case sanitize_label (a_name a) of Inr l \<Rightarrow> Some l | Inl _ \<Rightarrow> None)"

lemma label_of_account_iff: "label_of_account a = Some l \<longleftrightarrow> sanitize_label (a_name a) = Inr l"
  by (auto simp: label_of_account_def split: sum.splits)

definition window_utilization :: "quota \<Rightarrow> window \<Rightarrow> odt \<Rightarrow> f64 option" where
  "window_utilization q w now =
     map_option (\<lambda>m. effective m now)
       (case w of Five_Hour \<Rightarrow> five_hour q | Seven_Day \<Rightarrow> seven_day q | Seven_Day_Oi \<Rightarrow> seven_day_oi q | Window_Unknown \<Rightarrow> None)"

record lend_candidate =
  lc_room :: f64
  lc_room_anywhere :: f64
  lc_bearer :: "((string \<times> i64) \<times> f64) option"

definition lends :: "lend_scope \<Rightarrow> account \<Rightarrow> bool" where
  "lends scope a = (a_provider a = Anthropic \<and> (\<not> a_disabled a \<and> a_status a \<noteq> Error) \<and> scope_covers scope (account_label a) (a_groups a))"

definition guard_of :: "manager \<Rightarrow> account \<Rightarrow> f64" where
  "guard_of m a = effective_threshold (unwrap_or (a_switch_threshold a) (m_global_threshold m)) (m_control_reserve m) True"

definition room_under :: "f64 \<Rightarrow> f64 \<Rightarrow> f64" where
  "room_under guard used = f64_max (f64_sub guard used) f64_zero"

definition candidate_of :: "manager \<Rightarrow> window \<Rightarrow> odt \<Rightarrow> nat \<Rightarrow> account \<Rightarrow> lend_candidate" where
  "candidate_of m w now index a =
     (let guard = guard_of m a;
          used = window_utilization (a_quota a) w now;
          anywhere = foldl f64_min PosInf
            (map (room_under guard)
              (List.map_filter (\<lambda>w. window_utilization (a_quota a) w now) [Five_Hour, Seven_Day, Seven_Day_Oi]));
          handable = (a_status a \<noteq> Throttled \<and> may_be_handed (m_config_accounts m) index)
      in \<lparr>lc_room = (case used of Some u \<Rightarrow> room_under guard u | None \<Rightarrow> f64_zero),
          lc_room_anywhere = (if is_finite anywhere then anywhere else f64_zero),
          lc_bearer = (case (if handable then map_option (\<lambda>t. (a_access_token a, t)) (a_expires_at_ms a) else None, used) of
             (Some bearer, Some u) \<Rightarrow> Some (bearer, u) | _ \<Rightarrow> None)\<rparr>)"

definition lend_candidates :: "manager \<Rightarrow> lend_scope \<Rightarrow> window \<Rightarrow> odt \<Rightarrow> lend_candidate list" where
  "lend_candidates m scope w now =
     map (\<lambda>(index, a). candidate_of m w now index a) (filter (\<lambda>(_, a). lends scope a) (enumerate 0 (m_accounts m)))"

definition handable_room :: "lend_candidate \<Rightarrow> f64" where
  "handable_room c = f64_min (lc_room c) (lc_room_anywhere c)"

fun best_from :: "lend_candidate \<Rightarrow> lend_candidate list \<Rightarrow> lend_candidate" where
  "best_from best [] = best"
| "best_from best (c # cs) = best_from (if f64_gt (handable_room c) (handable_room best) then c else best) cs"

definition best_handable :: "lend_candidate list \<Rightarrow> lend_candidate option" where
  "best_handable cs = (case filter (\<lambda>c. lc_bearer c \<noteq> None) cs of [] \<Rightarrow> None | c # cs \<Rightarrow> Some (best_from c cs))"

record handed_credential =
  hc_access_token :: string
  hc_expires_at_ms :: i64
  hc_utilization :: f64

definition into_credential :: "lend_candidate \<Rightarrow> handed_credential option" where
  "into_credential c =
     map_option (\<lambda>((token, t), u). \<lparr>hc_access_token = token, hc_expires_at_ms = t, hc_utilization = u\<rparr>) (lc_bearer c)"

section \<open>The answers\<close>

definition handoff_bearer :: "manager \<Rightarrow> lend_scope \<Rightarrow> window \<Rightarrow> odt \<Rightarrow> handed_credential option" where
  "handoff_bearer m scope w now = Option.bind (best_handable (lend_candidates m scope w now)) into_credential"

definition handable_fraction :: "manager \<Rightarrow> lend_scope \<Rightarrow> window \<Rightarrow> odt \<Rightarrow> f64" where
  "handable_fraction m scope w now =
     (case best_handable (lend_candidates m scope w now) of Some c \<Rightarrow> handable_room c | None \<Rightarrow> f64_zero)"

definition lendable_fraction :: "manager \<Rightarrow> lend_scope \<Rightarrow> window \<Rightarrow> odt \<Rightarrow> f64" where
  "lendable_fraction m scope w now = foldl f64_max f64_zero (map lc_room (lend_candidates m scope w now))"

definition window_utilizations :: "manager \<Rightarrow> window \<Rightarrow> odt \<Rightarrow> f64 option list" where
  "window_utilizations m w now = map (\<lambda>a. window_utilization (a_quota a) w now) (m_accounts m)"

definition lendable :: "manager \<Rightarrow> lend_scope \<Rightarrow> window \<Rightarrow> odt \<Rightarrow> f64 option" where
  "lendable m scope w now =
     (if list_ex (\<lambda>a. lends scope a \<and> window_utilization (a_quota a) w now \<noteq> None) (m_accounts m)
      then Some (lendable_fraction m scope w now) else None)"

definition lendable_by_hand :: "manager \<Rightarrow> lend_scope \<Rightarrow> window \<Rightarrow> odt \<Rightarrow> f64 option" where
  "lendable_by_hand m scope w now = Some (handable_fraction m scope w now)"

definition restriction_of :: "manager \<Rightarrow> lend_scope \<Rightarrow> scope_restriction" where
  "restriction_of m scope =
     (case scope of
        Scope_All \<Rightarrow> Unrestricted
      | Scope_Accounts labels \<Rightarrow>
          (let named = filter (\<lambda>l. l \<in> set labels)
             (List.map_filter label_of_account (m_accounts m))
           in if named = [] then Unenforceable else Only_Accounts named)
      | Scope_Group name \<Rightarrow>
          if name \<in> gp_spill (m_groups m) \<and> name \<notin> gp_reserved (m_groups m) then Unenforceable
          else if length (filter (\<lambda>a. name \<in> set (a_groups a)) (m_accounts m)) = 0 then Unenforceable
          else Only_Group name)"

text \<open>The manager as the ledger asks it (\<open>impl WindowUtilization for Manager\<close>).\<close>

definition manager_fleet :: "manager \<Rightarrow> odt \<Rightarrow> fleet" where
  "manager_fleet m now =
     \<lparr>fl_restriction = restriction_of m,
      fl_lendable = \<lambda>scope w. lendable m scope w now,
      fl_lendable_by_hand = \<lambda>scope w. lendable_by_hand m scope w now\<rparr>"

section \<open>Signs\<close>

lemma rnd_sign: "f64_lt f64_zero (rnd y) \<Longrightarrow> 0 < y" "0 \<le> y \<Longrightarrow> f64_le f64_zero (rnd y)"
proof -
  have pos: "0 \<le> z \<Longrightarrow> f64_le f64_zero (rnd_pos z)" for z
    using round_half_even_nonneg [of "z / pow2 (max (binexp z - 52) (- 1074))"]
    by (auto simp: rnd_pos_def Let_def f64_zero_def zero_le_mult_iff less_imp_le)
  have neg: "f64_le f64_zero v \<Longrightarrow> \<not> f64_lt f64_zero (f64_neg v)" for v
    by (cases v) (auto simp: f64_neg_def f64_zero_def)
  show "f64_lt f64_zero (rnd y) \<Longrightarrow> 0 < y"
    using neg [OF pos [of "- y"]] by (cases "y = 0"; cases "0 < y") (auto simp: rnd_def f64_zero_def)
  show "0 \<le> y \<Longrightarrow> f64_le f64_zero (rnd y)" using pos [of y] by (auto simp: rnd_def f64_zero_def)
qed

lemma f64_add_nonneg: "f64_le f64_zero a \<Longrightarrow> f64_le f64_zero b \<Longrightarrow> f64_le f64_zero (f64_add a b)"
  by (cases a; cases b) (auto simp: f64_zero_def rnd_sign(2) [unfolded f64_zero_def])

lemma f64_sub_pos: "f64_lt f64_zero (f64_sub a b) \<Longrightarrow> f64_le f64_zero b \<Longrightarrow> f64_lt f64_zero a"
  by (cases a; cases b) (auto simp: f64_sub_def f64_neg_def f64_zero_def dest!: rnd_sign(1) [unfolded f64_zero_def])

lemma f64_max_pos: "f64_lt f64_zero (f64_max x f64_zero) \<Longrightarrow> f64_lt f64_zero x"
    "f64_lt f64_zero (f64_max x f64_zero) \<Longrightarrow> f64_max x f64_zero = x"
  by (cases x; simp add: f64_max_def f64_zero_def split: if_splits)+

lemma committed_nonneg: "f64_le f64_zero (committed_fraction d scope w now_ms)"
proof -
  have zero: "f64_le f64_zero (f64_max x f64_zero)" for x
    by (rule f64_max_ge2) (simp add: f64_zero_def)
  have one: "f64_le f64_zero (unspent l)" for l
    using zero [of "f64_sub f (le_spent l)" for f] by (auto simp: unspent_def f64_zero_def split: lease_unit.split)
  have "f64_le f64_zero (foldl f64_add z (map unspent ls))" if "f64_le f64_zero z" for z ls
    using that by (induction ls arbitrary: z) (simp_all add: f64_add_nonneg one)
  then show ?thesis by (simp add: committed_fraction_def f64_sum_def f64_zero_def)
qed

section \<open>What the ledger relies on\<close>

text \<open>
  The ledger asks its fleet for a fraction and promises it to a borrower. \<open>backed s w x\<close> says that one
  account of the scope can absorb a fraction \<open>x\<close> of the window, \<open>handed s w x\<close> that the bearer which would
  go out now belongs to an account that can.
\<close>

locale lender_fleet =
  fixes restriction :: "lend_scope \<Rightarrow> scope_restriction"
    and measured :: "lend_scope \<Rightarrow> window \<Rightarrow> f64 option"
    and by_hand :: "lend_scope \<Rightarrow> window \<Rightarrow> f64 option"
    and backed :: "lend_scope \<Rightarrow> window \<Rightarrow> f64 \<Rightarrow> bool"
    and handed :: "lend_scope \<Rightarrow> window \<Rightarrow> f64 \<Rightarrow> bool"
  assumes measured_backed: "measured s w = Some x \<Longrightarrow> f64_lt f64_zero x \<Longrightarrow> backed s w x"
    and by_hand_handed: "by_hand s w = Some x \<Longrightarrow> f64_lt f64_zero x \<Longrightarrow> handed s w x"
    and by_hand_answers: "\<exists>x. by_hand s w = Some x \<and> x \<noteq> NaN"
    and backed_less: "backed s w x \<Longrightarrow> f64_le y x \<Longrightarrow> backed s w y"
    and handed_less: "handed s w x \<Longrightarrow> f64_le y x \<Longrightarrow> handed s w y"
begin

abbreviation fleet_of :: fleet where
  "fleet_of \<equiv> \<lparr>fl_restriction = restriction, fl_lendable = measured, fl_lendable_by_hand = by_hand\<rparr>"

lemma minted_room:
  assumes "ledger_grant off write_ok peer ask row fleet_of rid now_ms now d = (a, d')" "lg_lease (ga_answer a) = Some l"
  obtains g amount where "ga_funding a = Some g" "le_unit l = Fraction amount" "f64_lt f64_zero amount"
    "f64_le amount (lendable_now fleet_of (Some g) (gr_scope g) (rq_window ask) now_ms
       (note_measured fleet_of (gr_scope g) (rq_window ask) d))"
  using assms(1)
proof (cases rule: ledger_grant_cases)
  case (minted l' g j)
  let ?room = "lendable_now fleet_of (Some g) (gr_scope g) (rq_window ask) now_ms (note_measured fleet_of (gr_scope g) (rq_window ask) d)"
  from minted(2,9) assms(2) have "lg_lease (clamp_to_grant ask (Some g) (is_some_and row pr_inspect) ?room now_ms j (gr_until g)
      (Option.bind (grant_schedule g) (\<lambda>s. schedule_closes_at_ms off s now))) = Some l" by simp
  then obtain wanted amount where c: "le_unit l = Fraction amount" "amount \<noteq> NaN" "\<not> f64_lt amount MIN_DEBIT"
      "amount = f64_min (f64_min wanted (gr_fraction g)) ?room" by (rule clamp_mints)
  have "f64_le amount ?room" unfolding c(4) by (rule f64_min_le) (rule lendable_now_not_NaN)
  moreover have "f64_lt f64_zero MIN_DEBIT" "MIN_DEBIT \<noteq> NaN" by code_simp+
  then have "f64_lt f64_zero amount" using c(2,3) f64_not_le_iff_lt f64_lt_le_trans by (metis f64_zero_def f64.distinct(5))
  ultimately show ?thesis using that minted(4) c(1) by blast
qed (use assms(2) in simp)

text \<open>
  A lease over a scope that was measured: it is no more than what the leases outstanding leave of a fraction
  that one account of the scope backs.
\<close>

lemma lease_is_backed:
  assumes "ledger_grant off write_ok peer ask row fleet_of rid now_ms now d = (a, d')" "lg_lease (ga_answer a) = Some l"
    and "ga_funding a = Some g" "measured (gr_scope g) (rq_window ask) \<noteq> None"
  shows "\<exists>h amount. le_unit l = Fraction amount \<and> f64_lt f64_zero amount \<and> backed (gr_scope g) (rq_window ask) h \<and>
    f64_le amount (f64_sub h (committed_fraction (note_measured fleet_of (gr_scope g) (rq_window ask) d)
      (gr_scope g) (rq_window ask) now_ms))"
proof -
  let ?d = "note_measured fleet_of (gr_scope g) (rq_window ask) d"
  obtain amount where m: "le_unit l = Fraction amount" "f64_lt f64_zero amount"
    "f64_le amount (lendable_now fleet_of (Some g) (gr_scope g) (rq_window ask) now_ms ?d)"
    by (rule minted_room [OF assms(1,2)]) (use assms(3) in simp)
  obtain x where x: "measured (gr_scope g) (rq_window ask) = Some x" using assms(4) by blast
  have not_NaN: "f64_max x f64_zero \<noteq> NaN" by (auto simp: f64_max_def f64_zero_def)
  have "\<exists>h. headroom_for ?d (gr_scope g) (rq_window ask) = Some h \<and> f64_le h (f64_max x f64_zero)"
    using f64_min_le(1) [OF not_NaN] f64_le_refl [OF not_NaN]
    by (auto simp: note_measured_def note_scope_headroom_def headroom_for_def x split: option.split)
  then obtain h where h: "headroom_for ?d (gr_scope g) (rq_window ask) = Some h" "f64_le h (f64_max x f64_zero)" by blast
  let ?left = "f64_sub h (committed_fraction ?d (gr_scope g) (rq_window ask) now_ms)"
  have le: "f64_le amount (f64_max ?left f64_zero)" using f64_le_trans [OF m(3) lendable_now_le] h(1) by simp
  note some = f64_lt_le_trans [OF m(2) le]
  have left: "f64_lt f64_zero ?left" "f64_le amount ?left"
    using f64_max_pos(1) [OF some] le unfolding f64_max_pos(2) [OF some] .
  then have "f64_lt f64_zero h" using f64_sub_pos [OF _ committed_nonneg] by blast
  then have pos: "f64_lt f64_zero (f64_max x f64_zero)" using h(2) f64_lt_le_trans by blast
  then have x0: "f64_lt f64_zero x" "f64_max x f64_zero = x" using f64_max_pos by blast+
  have "f64_le h x" using h(2) unfolding x0(2) .
  with measured_backed [OF x x0(1)] have "backed (gr_scope g) (rq_window ask) h" by (rule backed_less)
  with m(1,2) left(2) show ?thesis by blast
qed

text \<open>A hand-mode lease is backed by the account whose bearer goes out.\<close>

lemma hand_lease_is_handed:
  assumes "ledger_grant off write_ok peer ask row fleet_of rid now_ms now d = (a, d')" "lg_lease (ga_answer a) = Some l"
    and "ga_funding a = Some g" "gr_mode g = Hand_Mode"
  shows "\<exists>amount. le_unit l = Fraction amount \<and> handed (gr_scope g) (rq_window ask) amount"
proof -
  let ?d = "note_measured fleet_of (gr_scope g) (rq_window ask) d"
  obtain amount where m: "le_unit l = Fraction amount" "f64_lt f64_zero amount"
    "f64_le amount (lendable_now fleet_of (Some g) (gr_scope g) (rq_window ask) now_ms ?d)"
    by (rule minted_room [OF assms(1,2)]) (use assms(3) in simp)
  obtain x where x: "by_hand (gr_scope g) (rq_window ask) = Some x" "x \<noteq> NaN" using by_hand_answers by blast
  from m(3) assms(4) x(1) have "f64_le amount (f64_min (f64_max (f64_sub (unwrap_or (headroom_for ?d (gr_scope g) (rq_window ask)) f64_zero)
      (committed_fraction ?d (gr_scope g) (rq_window ask) now_ms)) f64_zero) x)" by (simp add: lendable_now_def)
  then have "f64_le amount x" using f64_min_le(2) [OF x(2)] f64_le_trans by blast
  then show ?thesis using by_hand_handed [OF x(1)] handed_less m f64_lt_le_trans by blast
qed

end

section \<open>The manager keeps the contract\<close>

definition backed_by :: "manager \<Rightarrow> odt \<Rightarrow> lend_scope \<Rightarrow> window \<Rightarrow> f64 \<Rightarrow> bool" where
  "backed_by m now scope w x \<longleftrightarrow>
     (\<exists>a u. a \<in> set (m_accounts m) \<and> lends scope a \<and> window_utilization (a_quota a) w now = Some u \<and>
        f64_le x (room_under (guard_of m a) u))"

definition handed_by :: "manager \<Rightarrow> odt \<Rightarrow> lend_scope \<Rightarrow> window \<Rightarrow> f64 \<Rightarrow> bool" where
  "handed_by m now scope w x \<longleftrightarrow>
     (\<exists>i a t u. get (m_accounts m) i = Some a \<and> lends scope a \<and> a_status a \<noteq> Throttled \<and> may_be_handed (m_config_accounts m) i \<and>
        handoff_bearer m scope w now = Some \<lparr>hc_access_token = a_access_token a, hc_expires_at_ms = t, hc_utilization = u\<rparr> \<and>
        a_expires_at_ms a = Some t \<and> window_utilization (a_quota a) w now = Some u \<and>
        (\<forall>w' u'. w' \<noteq> Window_Unknown \<and> window_utilization (a_quota a) w' now = Some u' \<longrightarrow> f64_le x (room_under (guard_of m a) u')))"

lemma room_under_ge: "f64_le f64_zero (room_under g u)" "room_under g u \<noteq> NaN"
proof -
  have z: "f64_zero \<noteq> NaN" by (simp add: f64_zero_def)
  show "f64_le f64_zero (room_under g u)" unfolding room_under_def by (rule f64_max_ge2 [OF z])
  show "room_under g u \<noteq> NaN" by (auto simp: room_under_def f64_max_def z)
qed

lemma foldl_f64_max_in: "foldl f64_max z xs \<in> insert z (set xs)"
proof (induction xs arbitrary: z)
  case (Cons x xs)
  have "f64_max z x \<in> {z, x}" by (simp add: f64_max_def)
  with Cons [of "f64_max z x"] show ?case by auto
qed simp

lemma foldl_f64_min_le:
  assumes "z \<noteq> NaN" "NaN \<notin> set xs"
  shows "f64_le (foldl f64_min z xs) z \<and> (\<forall>x\<in>set xs. f64_le (foldl f64_min z xs) x) \<and> foldl f64_min z xs \<noteq> NaN"
  using assms
proof (induction xs arbitrary: z)
  case (Cons x xs)
  have x: "x \<noteq> NaN" "f64_min z x \<noteq> NaN" using Cons.prems by (auto simp: f64_min_NaN)
  note IH = Cons.IH [OF x(2)]
  have "f64_le (f64_min z x) z" "f64_le (f64_min z x) x" using Cons.prems(1) x(1) f64_min_le by blast+
  with IH Cons.prems(2) show ?case using f64_le_trans by auto
qed (simp add: f64_le_refl)

lemma candidates_iff:
  "c \<in> set (lend_candidates m scope w now) \<longleftrightarrow>
     (\<exists>i a. get (m_accounts m) i = Some a \<and> lends scope a \<and> c = candidate_of m w now i a)"
  by (auto simp: lend_candidates_def in_set_enumerate_eq get_eq_Some_iff image_iff)

lemma candidate_room:
  "f64_lt f64_zero (lc_room (candidate_of m w now i a)) \<Longrightarrow>
     \<exists>u. window_utilization (a_quota a) w now = Some u \<and> lc_room (candidate_of m w now i a) = room_under (guard_of m a) u"
  by (auto simp: candidate_of_def Let_def f64_zero_def split: option.splits)

lemma lendable_backed:
  assumes "lendable m scope w now = Some x" "f64_lt f64_zero x"
  shows "backed_by m now scope w x"
proof -
  have "x = f64_zero \<or> x \<in> lc_room ` set (lend_candidates m scope w now)"
    using assms(1) foldl_f64_max_in [of f64_zero "map lc_room (lend_candidates m scope w now)"]
    by (auto simp: lendable_def lendable_fraction_def split: if_splits)
  then obtain i a where a: "get (m_accounts m) i = Some a" "lends scope a" "x = lc_room (candidate_of m w now i a)"
    using assms(2) by (auto simp: candidates_iff f64_zero_def)
  then obtain u where "window_utilization (a_quota a) w now = Some u" "x = room_under (guard_of m a) u"
    using candidate_room assms(2) by metis
  then show ?thesis using a room_under_ge(2) by (auto simp: backed_by_def get_eq_Some_iff intro!: exI [of _ a] f64_le_refl)
qed

lemma best_from_in: "best_from c cs \<in> insert c (set cs)"
  by (induction cs arbitrary: c) (auto split: if_splits)

lemma best_handable_Some:
  "best_handable cs = Some c \<Longrightarrow> c \<in> set cs \<and> lc_bearer c \<noteq> None"
proof -
  assume b: "best_handable cs = Some c"
  then obtain d ds where d: "filter (\<lambda>c. lc_bearer c \<noteq> None) cs = d # ds" "c = best_from d ds"
    by (auto simp: best_handable_def split: list.splits)
  then have "c \<in> set (filter (\<lambda>c. lc_bearer c \<noteq> None) cs)" using best_from_in [of d ds] by simp
  then show ?thesis by simp
qed

lemma candidate_anywhere:
  assumes "f64_lt f64_zero (lc_room_anywhere (candidate_of m w now i a))" "w' \<noteq> Window_Unknown"
    "window_utilization (a_quota a) w' now = Some u"
  shows "f64_le (lc_room_anywhere (candidate_of m w now i a)) (room_under (guard_of m a) u)"
proof -
  let ?rooms = "map (room_under (guard_of m a)) (List.map_filter (\<lambda>w. window_utilization (a_quota a) w now) [Five_Hour, Seven_Day, Seven_Day_Oi])"
  have "NaN \<notin> set ?rooms" using room_under_ge(2) by (metis (no_types, lifting) ex_map_conv)
  note min = foldl_f64_min_le [of PosInf, OF _ this]
  have "u \<in> set (List.map_filter (\<lambda>w. window_utilization (a_quota a) w now) [Five_Hour, Seven_Day, Seven_Day_Oi])"
    using assms(2,3) by (cases w') (auto simp: List.map_filter_def)
  then have "room_under (guard_of m a) u \<in> set ?rooms" by simp
  with min have "f64_le (foldl f64_min PosInf ?rooms) (room_under (guard_of m a) u)" by blast
  then show ?thesis using assms(1) by (auto simp: candidate_of_def Let_def f64_zero_def split: if_splits)
qed

lemma by_hand_handed:
  assumes "lendable_by_hand m scope w now = Some x" "f64_lt f64_zero x"
  shows "handed_by m now scope w x"
proof -
  obtain c where c: "best_handable (lend_candidates m scope w now) = Some c" "x = handable_room c"
    using assms by (auto simp: lendable_by_hand_def handable_fraction_def f64_zero_def split: option.splits)
  obtain i a where a: "get (m_accounts m) i = Some a" "lends scope a" "c = candidate_of m w now i a"
    using best_handable_Some [OF c(1)] candidates_iff by blast
  obtain t u where b: "lc_bearer c = Some ((a_access_token a, t), u)" "a_expires_at_ms a = Some t"
      "window_utilization (a_quota a) w now = Some u" "a_status a \<noteq> Throttled" "may_be_handed (m_config_accounts m) i"
    using best_handable_Some [OF c(1)] a(3) by (auto simp: candidate_of_def Let_def split: option.splits if_splits)
  have rooms: "lc_room c \<noteq> NaN" "lc_room_anywhere c \<noteq> NaN"
    using room_under_ge(2) by (auto simp: a(3) candidate_of_def Let_def f64_zero_def is_finite_def split: option.splits)
  have x: "f64_le x (lc_room c)" "f64_le x (lc_room_anywhere c)"
    unfolding c(2) handable_room_def using f64_min_le rooms by blast+
  have "f64_le x (room_under (guard_of m a) u')" if "w' \<noteq> Window_Unknown" "window_utilization (a_quota a) w' now = Some u'" for w' u'
    using f64_le_trans [OF x(2)] candidate_anywhere [OF _ that, of m w i] f64_lt_le_trans [OF assms(2) x(2)] a(3) by blast
  moreover have "handoff_bearer m scope w now = Some \<lparr>hc_access_token = a_access_token a, hc_expires_at_ms = t, hc_utilization = u\<rparr>"
    by (simp add: handoff_bearer_def c(1) into_credential_def b(1))
  ultimately show ?thesis using a(1,2) b(2-5) unfolding handed_by_def
    by (intro exI [of _ i] exI [of _ a] exI [of _ t] exI [of _ u]) blast
qed

interpretation lent: lender_fleet "restriction_of m" "\<lambda>scope w. lendable m scope w now" "\<lambda>scope w. lendable_by_hand m scope w now"
    "backed_by m now" "handed_by m now" for m now
proof
  show "\<exists>x. lendable_by_hand m s w now = Some x \<and> x \<noteq> NaN" for s w
  proof (cases "best_handable (lend_candidates m s w now)")
    case (Some c)
    then obtain i a where "c = candidate_of m w now i a" using best_handable_Some candidates_iff by blast
    then have "lc_room c \<noteq> NaN" using room_under_ge(2) by (auto simp: candidate_of_def Let_def f64_zero_def split: option.splits)
    then show ?thesis by (simp add: lendable_by_hand_def handable_fraction_def Some handable_room_def f64_min_NaN)
  qed (simp add: lendable_by_hand_def handable_fraction_def f64_zero_def)
  show "backed_by m now s w y" if "backed_by m now s w x" "f64_le y x" for s w x y
    using that(1) f64_le_trans [OF that(2)] unfolding backed_by_def by blast
  show "handed_by m now s w y" if "handed_by m now s w x" "f64_le y x" for s w x y
    using that(1) f64_le_trans [OF that(2)] unfolding handed_by_def by blast
qed (fact lendable_backed by_hand_handed)+

text \<open>
  C28. A lease is minted on room the fleet has. When the scope it is funded from has a measured account, the
  fraction lent is positive, and no more than what the leases outstanding leave of the room that one single
  account of the scope has under the owner's guard band. And a lease the operator lends by hand is, measured
  or not, no more than what the very account whose bearer goes out has left on every window it has measured,
  an account that is not held, not locked to an exit, and whose token's expiry is known.
\<close>

theorem lease_backed_by_account:
  assumes "ledger_grant off write_ok peer ask row (manager_fleet m t) rid now_ms now d = (a, d')"
    and "lg_lease (ga_answer a) = Some l" and "ga_funding a = Some g"
  shows "(lendable m (gr_scope g) (rq_window ask) t \<noteq> None \<longrightarrow>
      (\<exists>h amount. le_unit l = Fraction amount \<and> f64_lt f64_zero amount \<and> backed_by m t (gr_scope g) (rq_window ask) h \<and>
         f64_le amount (f64_sub h (committed_fraction (note_measured (manager_fleet m t) (gr_scope g) (rq_window ask) d)
           (gr_scope g) (rq_window ask) now_ms)))) \<and>
    (gr_mode g = Hand_Mode \<longrightarrow> (\<exists>amount. le_unit l = Fraction amount \<and> handed_by m t (gr_scope g) (rq_window ask) amount))"
  using lent.lease_is_backed [OF assms(1) [unfolded manager_fleet_def] assms(2,3)]
    lent.hand_lease_is_handed [OF assms(1) [unfolded manager_fleet_def] assms(2,3)]
  by (simp add: manager_fleet_def)

definition quarter_used :: account where
  "quarter_used = (fresh_account ''a'' Anthropic)\<lparr>a_expires_at_ms := Some 200000000,
     a_quota := quota_default\<lparr>five_hour := Some \<lparr>utilization = Fin (1 / 4), reset = None\<rparr>\<rparr>\<rparr>"

definition lender :: manager where
  "lender = (sample_manager [quarter_used])\<lparr>m_config_accounts := [\<lparr>cfg_provider = Anthropic, cfg_egress_strict = False, cfg_egress_peer = None\<rparr>]\<rparr>"

definition hand_row :: peer_row where
  "hand_row = \<lparr>pr_inspect = True, pr_lend = [lent_night\<lparr>gr_mode := Hand_Mode, gr_between := None\<rparr>]\<rparr>"

definition handed_grant :: "granted_answer \<times> ledger" where
  "handed_grant = ledger_grant (\<lambda>_. None) True [7] night_ask (Some hand_row) (manager_fleet lender 0) (Some 5) 162000000 0 ledger_new"

theorem lease_backed_by_account_witness:
  "\<exists>amount h. le_unit (the (lg_lease (ga_answer (fst handed_grant)))) = Fraction amount \<and> f64_lt f64_zero amount \<and>
     handed_by lender 0 Scope_All Five_Hour amount \<and> backed_by lender 0 Scope_All Five_Hour h"
proof -
  have g: "ledger_grant (\<lambda>_. None) True [7] night_ask (Some hand_row) (manager_fleet lender 0) (Some 5) 162000000 0 ledger_new =
      (fst handed_grant, snd handed_grant)" by (simp add: handed_grant_def)
  have "lg_lease (ga_answer (fst handed_grant)) \<noteq> None" by code_simp
  then have l: "lg_lease (ga_answer (fst handed_grant)) = Some (the (lg_lease (ga_answer (fst handed_grant))))" by simp
  have f: "ga_funding (fst handed_grant) = Some (lent_night\<lparr>gr_mode := Hand_Mode, gr_between := None\<rparr>)" by code_simp
  have "lendable lender Scope_All Five_Hour 0 \<noteq> None" by code_simp
  with lease_backed_by_account [OF g l f] show ?thesis by (auto simp: lent_night_def night_ask_def)
qed

end
