(* ===== verification/Lease_Scope.thy ===== *)
theory Lease_Scope
  imports Handle_Props Peer_Lend
begin

text \<open>
  The scope of a lease, from the lender's answer to the request loop: what the serving leg writes onto the
  request it makes to its own proxy (\<^verbatim>\<open>src/peer/serve.rs\<close>), what the proxy makes of it (\<^verbatim>\<open>src/proxy.rs\<close>), and
  that no send of a borrowed request leaves the accounts it was lent.
\<close>

section \<open>The two headers\<close>

text \<open>The group and the account set \<open>serve_on_own_account\<close> puts on a relayed request.\<close>

fun selection_headers :: "scope_restriction \<Rightarrow> string option \<times> string option" where
  "selection_headers (Only_Group g) = (Some g, None)"
| "selection_headers (Only_Accounts labels) = (None, Some (join_with '','' labels))"
| "selection_headers _ = (None, None)"

text \<open>The labels \<open>handle\<close> reads off the account header of a request that carries the relay marker.\<close>

definition scope_labels_of :: "bool \<Rightarrow> string option \<Rightarrow> string list option" where
  "scope_labels_of relayed header =
     filter_opt (\<lambda>labels. labels \<noteq> [])
       (map_option (\<lambda>v. filter (\<lambda>l. l \<noteq> []) (map trim (split_on (CHR '','') v))) (if relayed then header else None))"

definition inside_scope :: "manager \<Rightarrow> string list \<Rightarrow> nat \<Rightarrow> bool" where
  "inside_scope m labels idx =
     is_some_and (map_option a_name (get (m_accounts m) idx))
       (\<lambda>name. case sanitize_label name of Inr l \<Rightarrow> l \<in> set labels | Inl _ \<Rightarrow> False)"

definition bench_outside :: "manager \<Rightarrow> string list \<Rightarrow> ladder \<Rightarrow> ladder" where
  "bench_outside m labels l =
     fold (\<lambda>idx l. if inside_scope m labels idx then l else bench idx l) [0..<length (m_accounts m)] l"

definition scoped_ladder :: "manager \<Rightarrow> bool \<Rightarrow> string option \<Rightarrow> ladder" where
  "scoped_ladder m relayed header =
     (case scope_labels_of relayed header of Some labels \<Rightarrow> bench_outside m labels ladder_default | None \<Rightarrow> ladder_default)"

lemma bench_outside_tried:
  "bench_outside m labels l = l\<lparr>l_tried := l_tried l \<union> {i. i < length (m_accounts m) \<and> \<not> inside_scope m labels i}\<rparr>"
proof -
  have "fold (\<lambda>idx l. if inside_scope m labels idx then l else bench idx l) is l =
      l\<lparr>l_tried := l_tried l \<union> {i \<in> set is. \<not> inside_scope m labels i}\<rparr>" for "is" l
  proof (induction "is" arbitrary: l)
    case (Cons i "is")
    show ?case by (cases "inside_scope m labels i") (auto simp: Cons bench_def intro!: arg_cong [of _ _ "\<lambda>x. l\<lparr>l_tried := x\<rparr>"])
  qed simp
  then show ?thesis by (simp add: bench_outside_def conj_commute)
qed

text \<open>The header says exactly the labels it was written from.\<close>

lemma scope_header_roundtrip:
  assumes "restriction_of m scope = Only_Accounts named"
  shows "scope_labels_of True (snd (selection_headers (restriction_of m scope))) = Some named"
proof -
  obtain labels where n: "named = filter (\<lambda>l. l \<in> set labels) (List.map_filter label_of_account (m_accounts m))" "named \<noteq> []"
    using assms by (auto simp: restriction_of_def Let_def split: lend_scope.splits if_splits)
  have ok: "label_ok l" if "l \<in> set named" for l
    using that n(1) sanitize_label_ok by (auto simp: set_map_filter label_of_account_iff)
  then have "split_on (CHR '','') (join_with '','' named) = named"
    by (intro split_on_join n(2)) (simp add: label_no_comma)
  moreover have "filter (\<lambda>l. l \<noteq> []) (map trim named) = named"
    using ok by (induction named) (auto simp: label_ok_def)
  ultimately show ?thesis by (simp add: assms scope_labels_of_def filter_opt_def n(2))
qed

section \<open>Benched for good\<close>

text \<open>Nothing of the walk re-admits \<open>S\<close>: it is tried, not parked, and not benched for the hold.\<close>

definition kept :: "nat set \<Rightarrow> ladder \<Rightarrow> bool" where
  "kept S l \<longleftrightarrow> S \<subseteq> l_tried l \<and> S \<inter> l_parked_transient l = {} \<and> S \<inter> set (l_benched_for_hold l) = {}"

lemma kept_bench: "kept S l \<Longrightarrow> kept S (bench i l)"
  by (auto simp: kept_def bench_def)

lemma kept_set_next [simp]: "kept S (set_next x l) \<longleftrightarrow> kept S l"
  by (simp add: kept_def set_next_def)

lemma kept_hold: "kept S l \<Longrightarrow> kept S (bench_for_hold i l)"
  by (auto simp: kept_def bench_for_hold_def)

lemma kept_holds: "kept S l \<Longrightarrow> kept S (fold bench_for_hold is l)"
  by (induction "is" arbitrary: l) (simp_all add: kept_hold)

lemma kept_release: "kept S l \<Longrightarrow> kept S (release_hold l)"
  by (auto simp: kept_def release_hold_def)

lemma open_walk_kept: "open_walk rq now now_ms cand warned m l = (ans, w) \<Longrightarrow> kept S l \<Longrightarrow> kept S (wk_ladder w)"
  by (auto simp: open_walk_def Let_def kept_holds split: option.splits if_splits prod.splits)

lemma apply_step_kept:
  assumes "arm_ok n b l (st, l')" "apply_step b st l' = (r, l'')" "kept S l" "b \<notin> S"
  shows "kept S l''"
  using assms by (cases st)
    (auto simp: arm_ok_def apply_step_def kept_def retry_same_def bench_def park_def fail_over_529_def)

lemma after_send_kept:
  assumes "after_send decode T rq s b m l = (res, m', l')" "fresh_pick n b m l" "kept S l"
  shows "kept S l'"
proof (cases s)
  case (Failed e c)
  have b: "b \<notin> S" using assms(2,3) by (auto simp: fresh_pick_def kept_def)
  obtain st l1 where t: "transport_arm m (rq_provider rq) b e c l = (st, l1)" by force
  have "arm_ok n b l (st, l1)"
    using transport_arm_ok [of b n l m "rq_provider rq" e c] assms(2) by (simp add: t fresh_pick_def)
  from apply_step_kept [OF this _ assms(3) b] assms(1) show ?thesis
    by (auto simp: after_send_def Failed t settle_def split: prod.splits option.splits)
next
  case (Replied ck nanos r rs streamed)
  have b: "b \<notin> S" using assms(2,3) by (auto simp: fresh_pick_def kept_def)
  obtain st l1 m1 where t: "response_arm decode T rq b ck nanos r rs m l = (st, l1, m1)" using prod_cases3 by blast
  have ok: "arm_ok n b l (st, l1)" using response_arm_ok [of b n m l decode T rq ck nanos r rs] assms(2) t
    by (simp add: fresh_pick_def response_ok_def)
  have "kept S l'" if "deliver decode rq b ck rs streamed m1 l1 = (res, m', l')"
    using that ok assms(3)
    by (auto simp: deliver_def Let_def arm_ok_def kept_def bench_def model_refused_def split: if_splits option.splits)
  then show ?thesis using apply_step_kept [OF ok _ assms(3) b] assms(1)
    by (auto simp: after_send_def Replied t settle_def split: if_splits prod.splits option.splits)
qed

lemma nothing_selectable_kept:
  assumes "nothing_selectable T rq env w = (p, w')" "kept S (wk_ladder w)"
  shows "kept S (wk_ladder w')"
proof -
  let ?m = "wk_manager w" and ?strict = "strict_group (wk_manager w) (rq_group rq)"
  obtain x l where v: "ladder_verdict ?m (rq_provider rq) (tn_now env) (wk_bound w) ?strict (wk_ladder w) = (x, l)" by force
  obtain f where l: "l = on_tally f (wk_ladder w)" using ladder_verdict_tally [OF v] by blast
  have kept: "kept S l" using assms(2) by (simp add: kept_def l)
  moreover have "kept S (snd (readmit_expired_parks m' t (spend_soft_wait l)))" for m' t
    using kept by (auto simp: kept_def readmit_expired_parks_def spend_soft_wait_def Let_def)
  ultimately show ?thesis using assms(1) v kept_release [OF kept]
    by (auto simp: nothing_selectable_def Let_def release_turn_def last_serve_def split: option.splits if_splits prod.splits)
qed

lemma pick_turn_kept:
  assumes "pick_turn T rq env w = (p, w')" "kept S (wk_ladder w)"
  shows "kept S (wk_ladder w')"
  using assms nothing_selectable_kept [of T rq env _ p w' S]
  by (auto simp: pick_turn_def take_next_def kept_def split: option.splits prod.splits)

lemma turn_kept:
  assumes "turn decode T rq env w = (s, res, w')" "kept S (wk_ladder w)" "walk_ok n w" "env_ok env"
  shows "kept S (wk_ladder w') \<and> fst ` set s \<subseteq> {..<n} - S"
proof -
  define w0 where "w0 = w\<lparr>wk_manager := tn_others env (wk_manager w)\<rparr>"
  have w0: "walk_ok n w0" "kept S (wk_ladder w0)"
    using assms(2-4) by (simp_all add: w0_def walk_ok_def env_ok_def keeps_size_def)
  obtain p w1 where pk: "pick_turn T rq env w0 = (p, w1)" by force
  note k1 = pick_turn_kept [OF pk w0(2)]
  show ?thesis
  proof (cases p)
    case (Serve_On i)
    have pick: "fresh_pick n i (wk_manager w1) (wk_ladder w1)" using pick_turn_rest [OF pk w0(1) assms(4)] Serve_On by simp
    obtain stage m1 where st: "before_send env i (wk_manager w1) = (stage, m1)" by force
    have "length (m_accounts m1) = n" using before_send_length [OF assms(4), of i "wk_manager w1"] pick st by (simp add: fresh_pick_def)
    then have pick1: "fresh_pick n i m1 (wk_ladder w1)" using pick by (simp add: fresh_pick_def)
    have "kept S (wk_ladder w')"
      using assms(1) k1 after_send_kept [OF _ pick1 k1]
      by (cases stage) (auto simp: turn_def w0_def [symmetric] pk Serve_On attempt_def st kept_bench split: prod.splits)
    moreover have "fst ` set s \<subseteq> {i}"
      using assms(1) by (auto simp: turn_def w0_def [symmetric] pk Serve_On split: prod.splits attempt_stage.splits)
    moreover have "i \<in> {..<n} - S" using pick k1 by (auto simp: fresh_pick_def kept_def)
    ultimately show ?thesis by blast
  qed (use assms(1) k1 in \<open>auto simp: turn_def w0_def [symmetric] pk\<close>)
qed

lemma turns_kept:
  assumes "turns decode T rq env k fuel w = (s, x, w')" "kept S (wk_ladder w)" "walk_ok n w" "\<forall>k. env_ok (env k)"
  shows "fst ` set s \<subseteq> {..<n} - S"
  using assms(1-3)
proof (induction fuel arbitrary: k w s)
  case (Suc fuel)
  obtain s1 res w1 where t: "turn decode T rq (env k) w = (s1, res, w1)" using prod_cases3 by blast
  note now = turn_kept [OF t Suc.prems(2,3) assms(4) [THEN spec]]
  show ?case
  proof (cases res)
    case (Answered a)
    with Suc.prems t now show ?thesis by auto
  next
    case Again
    obtain s2 x2 w2 where ts: "turns decode T rq env (Suc k) fuel w1 = (s2, x2, w2)" using prod_cases3 by blast
    have s: "s = s1 @ s2" "x = x2" "w' = w2" using Suc.prems(1) t Again ts by auto
    have w1: "walk_ok n w1" using turn_rest [OF t [unfolded Again] Suc.prems(3)] assms(4) by simp
    have "fst ` set s2 \<subseteq> {..<n} - S" using Suc.IH [OF ts [folded s(2,3)] _ w1] now by blast
    with now show ?thesis unfolding s(1) by auto
  qed
qed simp

section \<open>Held to a group\<close>

text \<open>Who is in which group and how the groups are set, which no step of a walk changes.\<close>

definition group_view :: "manager \<Rightarrow> string list list \<times> group_policy" where
  "group_view m = (map a_groups (m_accounts m), m_groups m)"

definition members :: "string list list \<times> group_policy \<Rightarrow> string \<Rightarrow> nat \<Rightarrow> bool" where
  "members gv g i = is_some_and (get (fst gv) i) (\<lambda>gs. g \<in> set gs)"

definition keeps_groups :: "turn_env \<Rightarrow> bool" where
  "keeps_groups env \<longleftrightarrow> (\<forall>m. group_view (tn_others env m) = group_view m \<and> group_view (tn_woken env m) = group_view m \<and>
     group_view (tn_fresh env m) = group_view m)"

lemma group_view_fleet:
  assumes "fleet_view m' = fleet_view m"
  shows "group_view m' = group_view m"
proof -
  have k: "map a_groups xs = map a_groups (map unstamped xs)" for xs by (simp add: comp_def fields_unstamped)
  have "map unstamped (m_accounts m') = map unstamped (m_accounts m)" "m_groups m' = m_groups m"
    using assms by (simp_all add: fleet_view_def)
  then show ?thesis unfolding group_view_def k [of "m_accounts m'"] k [of "m_accounts m"] by (simp only:)
qed

lemma group_view_row:
  assumes "get (m_accounts m) i = Some a" "a_groups a' = a_groups a"
  shows "group_view (m\<lparr>m_accounts := (m_accounts m)[i := a']\<rparr>) = group_view m"
  using assms by (auto simp: group_view_def map_update get_eq_Some_iff) (metis length_map list_update_id nth_map)

lemma group_view_update: "(\<And>a. a_groups (f a) = a_groups a) \<Longrightarrow> group_view (update_account i f m) = group_view m"
  by (auto simp: update_account_def group_view_row split: option.splits)

lemma group_view_ops [simp]:
  "group_view (exit_in_flight i m) = group_view m" "group_view (snd (enter_in_flight b t i m)) = group_view m"
  "group_view (update_account i (record_served now) m) = group_view m" "group_view (stamp_account i m) = group_view m"
proof -
  have retired: "group_view (retire_every_client_after_sleep m) = group_view m"
    by (simp add: group_view_def retire_every_client_after_sleep_def comp_def)
  show "group_view (snd (enter_in_flight b t i m)) = group_view m"
    by (auto simp: enter_in_flight_def Let_def retired group_view_update account_enter_def split: option.splits)
  show "group_view (stamp_account i m) = group_view m" by (rule group_view_fleet) simp
qed (simp_all add: exit_in_flight_def group_view_update account_exit_def record_served_def)

lemma group_view_select:
  "select_with_group tr now model aff path ck grp m = (r, m') \<Longrightarrow> group_view m' = group_view m"
  using call_frame_select [of aff m tr now model path ck grp] by (intro group_view_fleet) (simp add: call_frame_def)

lemma group_view_same_org: "same_org_release m b tried model (select_for rq now m) = (r, m') \<Longrightarrow> group_view m' = group_view m"
  by (auto simp: same_org_release_def select_for_def dest: group_view_select split: if_splits)

lemma groups_fold_quota [simp]: "a_groups (snd (fold_quota T now h st refusal a)) = a_groups a"
  by (auto simp: fold_quota_def Let_def split: prod.splits)

lemma groups_answered [simp]: "a_groups (account_answered T p ck rs a) = a_groups a"
  by (simp add: account_answered_def clear_rate_limited_def Let_def)

lemma groups_refresh [simp]: "a_groups (refresh_effect t r a) = a_groups a"
  by (cases r) (simp_all add: apply_refresh_def mark_error_def grow_error_backoff_def Let_def)

lemma groups_holds [simp]:
  "a_groups (mark_error t a) = a_groups a" "a_groups (mark_refused t a) = a_groups a"
  "a_groups (mark_rate_limited t secs a) = a_groups a" "a_groups (mark_codex_quota_limited now t secs a) = a_groups a"
  "a_groups (mark_model_weekly_rejected T now h a) = a_groups a"
  by (simp_all add: mark_error_def grow_error_backoff_def mark_refused_def mark_rate_limited_def mark_codex_quota_limited_def
      mark_model_weekly_rejected_def Let_def)

lemma groups_arms:
  "a_groups (snd (snd (arm_401 i t r a l))) = a_groups a" "a_groups (snd (snd (arm_403 decode p i ck rs a l))) = a_groups a"
  "a_groups (snd (snd (transient_arm i ra j t a l))) = a_groups a"
  "a_groups (snd (snd (arm_429 decode T rq i ck nanos rs a l))) = a_groups a"
proof -
  show transient: "a_groups (snd (snd (transient_arm i ra j t a l))) = a_groups a" for i ra j t a l
    by (simp add: transient_arm_def split: transient_429.splits)
  show "a_groups (snd (snd (arm_429 decode T rq i ck nanos rs a l))) = a_groups a"
    by (simp add: arm_429_def Let_def transient split: provider.splits option.splits)
qed (simp_all add: arm_401_def arm_403_def Let_def split: prod.splits bool.splits provider.splits option.splits)

lemma arms_never_fail_over:
  "fst (arm_401 i t r a l) \<noteq> FailOver j" "fst (arm_403 decode p i ck rs a l) \<noteq> FailOver j"
  "fst (transient_arm i ra jit t a l) \<noteq> FailOver j" "fst (arm_429 decode T rq i ck nanos rs a l) \<noteq> FailOver j"
proof -
  show transient: "fst (transient_arm i ra jit t a l) \<noteq> FailOver j" for i ra jit t a l
    by (simp add: transient_arm_def split: transient_429.splits)
  show "fst (arm_429 decode T rq i ck nanos rs a l) \<noteq> FailOver j"
    by (simp add: arm_429_def Let_def transient split: provider.splits option.splits)
qed (simp_all add: arm_401_def arm_403_def Let_def split: prod.splits bool.splits provider.splits option.splits refreshed.splits)

lemma transport_never_fails_over: "fst (transport_arm m p i e c l) \<noteq> FailOver j"
  by (simp add: transport_arm_def direct_failure_def Let_def take_offline_wait_def split: carry.splits)

text \<open>Every way to choose an account of a strict group chooses a member of it.\<close>

lemma select_member:
  assumes "select_with_group tr now model aff path ck (Some g) m = (Some i, m')" "is_strict (m_groups m) g"
  shows "members (group_view m) g i"
proof -
  have "strict_group m (Some g) = Some g" using assms(2) by (simp add: strict_group_def filter_opt_def)
  then show ?thesis using select_admissible [of tr now model aff path ck "Some g" m i] assms(1)
    by (auto simp: members_def group_view_def get_map)
qed

lemma release_member:
  assumes "same_org_release m b tried model (select_for rq now m) = (Some i, m')" "rq_group rq = Some g"
    "is_strict (m_groups m) g"
  shows "members (group_view m) g i"
  using assms select_member by (auto simp: same_org_release_def select_for_def split: if_splits)

lemma select_bound_member:
  assumes "select_bound b tried now fb grp (Some g) warm m = (Some i, m')"
  shows "members (group_view m) g i \<and> group_view m' = group_view m"
  using assms by (auto simp: select_bound_def members_def group_view_def [of m] get_map split: if_splits option.splits)

section \<open>A walk held to a group\<close>

definition walks_group :: "string list list \<times> group_policy \<Rightarrow> string \<Rightarrow> manager \<Rightarrow> ladder \<Rightarrow> bool" where
  "walks_group gv g m l \<longleftrightarrow> group_view m = gv \<and> (\<forall>i. l_next_idx l = Some i \<longrightarrow> members gv g i)"

lemma walks_group_strict: "walks_group gv g m l \<Longrightarrow> m_groups m = snd gv"
  by (auto simp: walks_group_def group_view_def)

lemma response_arm_group:
  assumes "response_arm decode T rq i ck nanos r rs m l = (st, l', m')" "rq_group rq = Some g" "is_strict (m_groups m) g"
  shows "group_view m' = group_view m \<and> (\<forall>j. st = FailOver j \<longrightarrow> members (group_view m) g j)"
proof (cases "get (m_accounts m) i")
  case (Some a0)
  define a where "a = account_answered T (rq_provider rq) ck rs a0"
  have row: "group_view (m\<lparr>m_accounts := (m_accounts m)[i := a']\<rparr>) = group_view m" if "a_groups a' = a_groups a" for a'
    using group_view_row [OF Some, of a'] that by (simp add: a_def)
  have failover: "group_view x = group_view m \<and> (\<forall>j. st = FailOver j \<longrightarrow> members (group_view m) g j)"
    if "arm_529 rq i (ck_after ck) (m\<lparr>m_accounts := (m_accounts m)[i := a]\<rparr>) k = (st, k', x)" for k k' x
  proof -
    have strict: "is_strict (m_groups (m\<lparr>m_accounts := (m_accounts m)[i := a]\<rparr>)) g" using assms(3) by simp
    show ?thesis using that assms(2) row [of a] select_member [OF _ strict] group_view_select
      by (fastforce simp: arm_529_def split: if_splits prod.splits option.splits)
  qed
  have commit: "group_view m' = group_view m \<and> (\<forall>j. st = FailOver j \<longrightarrow> members (group_view m) g j)"
    if "(case x of (st, l', a') \<Rightarrow> (st, l', m\<lparr>m_accounts := (m_accounts m)[i := a']\<rparr>)) = (st, l', m')"
      "a_groups (snd (snd x)) = a_groups a" "\<And>j. fst x \<noteq> FailOver j" for x
    using that row by (cases x) auto
  show ?thesis using assms(1) failover commit [OF _ groups_arms(1) arms_never_fail_over(1)]
      commit [OF _ groups_arms(2) arms_never_fail_over(2)] commit [OF _ groups_arms(4) arms_never_fail_over(4)] row [of a]
    by (auto simp: response_arm_def Let_def Some a_def [symmetric] split: if_splits)
qed (use assms in \<open>auto simp: response_arm_def Let_def\<close>)

lemma settle_group:
  assumes "settle b st m l' = (res, m', l'')" "l_next_idx l' = None" "members gv g b" "group_view m = gv"
    "\<And>j. st = FailOver j \<Longrightarrow> members gv g j"
  shows "walks_group gv g m' l''"
  using assms by (cases st)
    (auto simp: settle_def apply_step_def walks_group_def retry_same_def bench_def park_def fail_over_529_def)

lemma after_send_group:
  assumes "after_send decode T rq s b m l = (res, m', l')" "fresh_pick n b m l" "group_view m = gv" "members gv g b"
    "rq_group rq = Some g" "is_strict (snd gv) g"
  shows "walks_group gv g m' l'"
proof (cases s)
  case (Failed e c)
  obtain st l1 where t: "transport_arm m (rq_provider rq) b e c l = (st, l1)" by force
  have "arm_ok n b l (st, l1)"
    using transport_arm_ok [of b n l m "rq_provider rq" e c] assms(2) by (simp add: t fresh_pick_def)
  then have "l_next_idx l1 = None" using assms(2) by (simp add: arm_ok_def fresh_pick_def)
  moreover have "st \<noteq> FailOver j" for j using transport_never_fails_over [of m "rq_provider rq" b e c l j] t by simp
  moreover have "settle b st m l1 = (res, m', l')" using assms(1) by (simp add: after_send_def Failed t)
  ultimately show ?thesis using settle_group assms(3,4) by blast
next
  case (Replied ck nanos r rs streamed)
  obtain st l1 m1 where t: "response_arm decode T rq b ck nanos r rs m l = (st, l1, m1)" using prod_cases3 by blast
  have "arm_ok n b l (st, l1)" using response_arm_ok [of b n m l decode T rq ck nanos r rs] assms(2) t
    by (simp add: fresh_pick_def response_ok_def)
  then have next_idx: "l_next_idx l1 = None" using assms(2) by (simp add: arm_ok_def fresh_pick_def)
  have m: "is_strict (m_groups m) g" using assms(3,6) by (auto simp: group_view_def)
  note arm = response_arm_group [OF t assms(5) m]
  have "walks_group gv g m' l'" if "deliver decode rq b ck rs streamed m1 l1 = (res, m', l')"
    using that arm next_idx assms(3)
    by (auto simp: deliver_def Let_def walks_group_def bench_def model_refused_def split: if_splits option.splits)
  moreover have "walks_group gv g m' l'" if "settle b st m1 l1 = (res, m', l')"
    using settle_group [OF that next_idx assms(4)] arm assms(3) by simp
  ultimately show ?thesis using assms(1) by (auto simp: after_send_def Replied t split: if_splits)
qed

lemma nothing_selectable_group:
  assumes "nothing_selectable T rq env w = (p, w')" "walks_group gv g (wk_manager w) (wk_ladder w)"
    "rq_group rq = Some g" "is_strict (snd gv) g" "keeps_groups env" "l_next_idx (wk_ladder w) = None"
  shows "walks_group gv g (wk_manager w') (wk_ladder w') \<and> (\<forall>i. p = Serve_On i \<longrightarrow> members gv g i)"
proof -
  let ?m = "wk_manager w"
  have gv: "group_view ?m = gv" using assms(2) by (simp add: walks_group_def)
  have s: "is_strict (m_groups ?m) g" using gv assms(4) by (auto simp: group_view_def)
  then have strict: "strict_group ?m (rq_group rq) = Some g" using assms(3) by (simp add: strict_group_def filter_opt_def)
  obtain x l where v: "ladder_verdict ?m (rq_provider rq) (tn_now env) (wk_bound w) (Some g) (wk_ladder w) = (x, l)" by force
  obtain f where l: "l = on_tally f (wk_ladder w)" using ladder_verdict_tally [OF v] by blast
  define w1 where "w1 = w\<lparr>wk_ladder := l\<rparr>"
  have w1: "walks_group gv g (wk_manager w1) (wk_ladder w1)" "wk_manager w1 = ?m" "l_next_idx (wk_ladder w1) = None"
    using assms(6) by (simp_all add: w1_def l walks_group_def gv)
  have waited: "walks_group gv g (tn_woken env ?m) (snd (readmit_expired_parks (tn_woken env ?m) t (spend_soft_wait l)))" for t
    using assms(5,6) by (simp add: walks_group_def gv keeps_groups_def readmit_expired_parks_def spend_soft_wait_def Let_def l)
  have released: "walks_group gv g (wk_manager w') (wk_ladder w') \<and> (\<forall>i. p \<noteq> Serve_On i)"
    if "release_turn rq env b w1 = (p, w')" for b
    using that w1 gv s assms(3)
    by (auto simp: release_turn_def Let_def walks_group_def set_next_def group_view_same_org release_member release_hold_def
        split: prod.splits option.splits)
  have served: "walks_group gv g (wk_manager w') (wk_ladder w') \<and> (\<forall>i. p = Serve_On i \<longrightarrow> members gv g i)"
    if "last_serve T rq env (Some g) w1 = (p, w')"
  proof -
    have none: "group_view m' = group_view m" if "select_bound b tr now fb grp str warm m = (None, m')" for b tr now fb grp str warm m m'
      using that by (auto simp: select_bound_def split: if_splits option.splits)
    show ?thesis using that w1 gv
      by (auto simp: last_serve_def Let_def walks_group_def split: prod.splits option.splits if_splits
          dest: select_bound_member none)
  qed
  show ?thesis using assms(1) v waited released served w1 gv
    by (auto simp: nothing_selectable_def Let_def strict w1_def [symmetric] split: option.splits if_splits)
qed

lemma pick_turn_group:
  assumes "pick_turn T rq env w = (p, w')" "walks_group gv g (wk_manager w) (wk_ladder w)"
    "rq_group rq = Some g" "is_strict (snd gv) g" "keeps_groups env"
  shows "walks_group gv g (wk_manager w') (wk_ladder w') \<and> (\<forall>i. p = Serve_On i \<longrightarrow> members gv g i)"
proof -
  let ?m = "wk_manager w"
  define l where "l = (wk_ladder w)\<lparr>l_next_idx := None\<rparr>"
  have gv: "group_view ?m = gv" and s: "is_strict (m_groups ?m) g" using assms(2,4) by (auto simp: walks_group_def group_view_def)
  obtain r m where sel: "select_for rq (tn_now env) ?m (l_tried l) = (r, m)" by force
  then have m: "group_view m = gv" using gv by (simp add: select_for_def group_view_select)
  then have l: "walks_group gv g m l" by (simp add: walks_group_def l_def)
  show ?thesis
  proof (cases "l_next_idx (wk_ladder w)")
    case (Some i)
    with assms(1,2) show ?thesis by (auto simp: pick_turn_def take_next_def walks_group_def)
  next
    case None
    show ?thesis
    proof (cases r)
      case (Some i)
      have "members gv g i" using select_member [of _ _ _ _ _ _ g ?m i] sel Some assms(3) s gv by (auto simp: select_for_def)
      with assms(1) None Some sel l show ?thesis by (auto simp: pick_turn_def take_next_def l_def [symmetric])
    next
      case N: None
      have "nothing_selectable T rq env (w\<lparr>wk_manager := m, wk_ladder := l\<rparr>) = (p, w')"
        using assms(1) None N sel by (simp add: pick_turn_def take_next_def l_def [symmetric])
      from nothing_selectable_group [OF this _ assms(3-5)] l show ?thesis by (simp add: l_def)
    qed
  qed
qed

lemma before_send_group: "keeps_groups env \<Longrightarrow> group_view (snd (before_send env i m)) = group_view m"
  by (simp add: before_send_def Let_def keeps_groups_def)

lemma turn_group:
  assumes "turn decode T rq env w = (s, res, w')" "walks_group gv g (wk_manager w) (wk_ladder w)" "walk_ok n w" "env_ok env"
    "rq_group rq = Some g" "is_strict (snd gv) g" "keeps_groups env"
  shows "walks_group gv g (wk_manager w') (wk_ladder w') \<and> (\<forall>t\<in>set s. members gv g (fst t))"
proof -
  define w0 where "w0 = w\<lparr>wk_manager := tn_others env (wk_manager w)\<rparr>"
  have w0: "walk_ok n w0" "walks_group gv g (wk_manager w0) (wk_ladder w0)"
    using assms(2-4,7) by (simp_all add: w0_def walk_ok_def env_ok_def keeps_size_def walks_group_def keeps_groups_def)
  obtain p w1 where pk: "pick_turn T rq env w0 = (p, w1)" by force
  note g1 = pick_turn_group [OF pk w0(2) assms(5-7)]
  show ?thesis
  proof (cases p)
    case (Serve_On i)
    have pick: "fresh_pick n i (wk_manager w1) (wk_ladder w1)" using pick_turn_rest [OF pk w0(1) assms(4)] Serve_On by simp
    have i: "members gv g i" "group_view (wk_manager w1) = gv" using g1 Serve_On by (simp_all add: walks_group_def)
    obtain stage m1 where st: "before_send env i (wk_manager w1) = (stage, m1)" by force
    have gv1: "group_view m1 = gv" using before_send_group [OF assms(7), of i "wk_manager w1"] st i(2) by simp
    have "length (m_accounts m1) = n" using before_send_length [OF assms(4), of i "wk_manager w1"] pick st by (simp add: fresh_pick_def)
    then have pick1: "fresh_pick n i m1 (wk_ladder w1)" using pick by (simp add: fresh_pick_def)
    have "walks_group gv g (wk_manager w') (wk_ladder w')"
      using assms(1) g1 gv1 after_send_group [OF _ pick1 gv1 i(1) assms(5,6)]
      by (cases stage) (auto simp: turn_def w0_def [symmetric] pk Serve_On attempt_def st walks_group_def bench_def split: prod.splits)
    moreover have "fst t = i" if "t \<in> set s" for t
      using assms(1) that by (auto simp: turn_def w0_def [symmetric] pk Serve_On split: prod.splits attempt_stage.splits)
    ultimately show ?thesis using i(1) by simp
  qed (use assms(1) g1 in \<open>auto simp: turn_def w0_def [symmetric] pk\<close>)
qed

lemma turns_group:
  assumes "turns decode T rq env k fuel w = (s, x, w')" "walks_group gv g (wk_manager w) (wk_ladder w)" "walk_ok n w"
    and env: "\<forall>k. env_ok (env k)" "\<forall>k. keeps_groups (env k)" and g: "rq_group rq = Some g" "is_strict (snd gv) g"
  shows "\<forall>t\<in>set s. members gv g (fst t)"
  using assms(1-3)
proof (induction fuel arbitrary: k w s)
  case (Suc fuel)
  obtain s1 res w1 where t: "turn decode T rq (env k) w = (s1, res, w1)" using prod_cases3 by blast
  note now = turn_group [OF t Suc.prems(2,3) env(1) [THEN spec] g env(2) [THEN spec]]
  show ?case
  proof (cases res)
    case (Answered a)
    with Suc.prems t now show ?thesis by auto
  next
    case Again
    obtain s2 x2 w2 where ts: "turns decode T rq env (Suc k) fuel w1 = (s2, x2, w2)" using prod_cases3 by blast
    have s: "s = s1 @ s2" "x = x2" "w' = w2" using Suc.prems(1) t Again ts by auto
    have "walk_ok n w1" using turn_rest [OF t [unfolded Again] Suc.prems(3)] env by simp
    from Suc.IH [OF ts [folded s(2,3)] _ this] now show ?thesis unfolding s(1) by auto
  qed
qed simp

lemma open_walk_group:
  assumes "open_walk rq now now_ms cand warned m l = (None, w)" "rq_group rq = Some g" "is_strict (m_groups m) g"
  shows "walks_group (group_view m) g (wk_manager w) (wk_ladder w)"
  using assms
  by (auto simp: open_walk_def Let_def walks_group_def set_next_def group_view_same_org release_member
      split: option.splits if_splits prod.splits)

section \<open>A borrowed request stays in its scope\<close>

lemma inside_covers:
  assumes "restriction_of m scope = Only_Accounts named" "inside_scope m named i"
  shows "\<exists>a. get (m_accounts m) i = Some a \<and> scope_covers scope (account_label a) (a_groups a)"
proof -
  obtain labels where scope: "scope = Scope_Accounts labels" "set named \<subseteq> set labels"
    using assms(1) that by (fastforce simp: restriction_of_def Let_def split: lend_scope.splits if_splits)
  obtain a where a: "get (m_accounts m) i = Some a" using assms(2) by (auto simp: inside_scope_def is_some_and_iff)
  with assms(2) scope(2) have "account_label a \<in> set labels"
    by (auto simp: inside_scope_def account_label_def is_some_and_iff split: sum.splits)
  with a scope(1) show ?thesis by auto
qed

lemma accounts_scope_sends:
  assumes "restriction_of m scope = Only_Accounts named"
    and "open_walk rq now now_ms cand warned m
      (scoped_ladder m True (snd (selection_headers (restriction_of m scope)))) = (None, w)"
    and "\<forall>k. env_ok (env k)" and "turns decode T rq env 0 fuel w = (sent, x, w')" and "t \<in> set sent"
  shows "\<exists>a. get (m_accounts m) (fst t) = Some a \<and> scope_covers scope (account_label a) (a_groups a)"
proof -
  let ?n = "length (m_accounts m)"
  define S where "S = {i. i < ?n \<and> \<not> inside_scope m named i}"
  have l: "scoped_ladder m True (snd (selection_headers (restriction_of m scope))) = ladder_default\<lparr>l_tried := S\<rparr>"
    unfolding scoped_ladder_def scope_header_roundtrip [OF assms(1)] by (simp add: bench_outside_tried S_def ladder_default_def)
  have "kept S (ladder_default\<lparr>l_tried := S\<rparr>)" by (simp add: kept_def ladder_default_def)
  then have "kept S (wk_ladder w)" using open_walk_kept [OF assms(2) [unfolded l]] by blast
  moreover have "walk_ok ?n w" using open_walk_rest [OF assms(2) [unfolded l]] by simp
  ultimately have "fst ` set sent \<subseteq> {..<?n} - S" using turns_kept [OF assms(4) _ _ assms(3)] by blast
  then have "inside_scope m named (fst t)" using assms(5) by (force simp: S_def)
  then show ?thesis by (rule inside_covers [OF assms(1)])
qed

text \<open>A walk that no account set narrows; with no restriction at all it stays in the fleet, which is all the scope asks.\<close>

lemma unscoped_ladder: "scoped_ladder m True None = ladder_default\<lparr>l_tried := {}\<rparr>"
  by (simp add: scoped_ladder_def scope_labels_of_def filter_opt_def ladder_default_def)

lemma unscoped_sends:
  assumes "open_walk rq now now_ms cand warned m (ladder_default\<lparr>l_tried := {}\<rparr>) = (None, w)"
    and "\<forall>k. env_ok (env k)" and "turns decode T rq env 0 fuel w = (sent, x, w')" and "t \<in> set sent"
  shows "fst t < length (m_accounts m)"
proof -
  have "kept {} (wk_ladder w)" by (simp add: kept_def)
  from turns_kept [OF assms(3) this _ assms(2)] open_walk_rest [OF assms(1) refl] assms(4) show ?thesis by blast
qed

lemma group_scope_sends:
  assumes r: "restriction_of m scope = Only_Group g"
    and "rq_group rq = Some g" and o: "open_walk rq now now_ms cand warned m (ladder_default\<lparr>l_tried := {}\<rparr>) = (None, w)"
    and "\<forall>k. env_ok (env k)" "\<forall>k. keeps_groups (env k)"
    and "turns decode T rq env 0 fuel w = (sent, x, w')" and "t \<in> set sent"
  shows "\<exists>a. get (m_accounts m) (fst t) = Some a \<and> scope_covers scope (account_label a) (a_groups a)"
proof -
  have scope: "scope = Scope_Group g" and strict: "is_strict (m_groups m) g"
    using r by (auto simp: restriction_of_def is_strict_def Let_def split: lend_scope.splits if_splits)
  have "is_strict (snd (group_view m)) g" using strict by (simp add: group_view_def)
  with turns_group [OF assms(6) open_walk_group [OF o assms(2) strict] _ assms(4,5,2)] open_walk_rest [OF o refl] assms(7)
  have "members (group_view m) g (fst t)" by blast
  then show ?thesis by (auto simp: members_def group_view_def get_map is_some_and_iff scope)
qed

text \<open>The request a lender's proxy walks: its group is the one the serving leg wrote, and nothing of the borrower's.\<close>

definition borrowed_request :: "routed_request \<Rightarrow> scope_restriction \<Rightarrow> routed_request" where
  "borrowed_request rq r = rq\<lparr>rq_group := fst (selection_headers r)\<rparr>"

text \<open>
  C29. A borrowed request never leaves the accounts it was lent. Whatever a lease's scope is, all accounts, a
  set of them or a group, the headers the lender writes onto the relayed request are read back by its proxy,
  and every send of that request, in-place retries, failovers, the hold of a bound conversation and its
  release, the soft wait and the last-resort serve included, goes to an account the scope covers. The fleet
  keeps its rows while the request is walked, and under a group scope also who is in which group and how the
  groups are set.
\<close>

theorem borrowed_request_stays_in_scope:
  assumes "restriction_of m scope \<noteq> Unenforceable"
    and "open_walk (borrowed_request rq (restriction_of m scope)) now now_ms cand warned m
      (scoped_ladder m True (snd (selection_headers (restriction_of m scope)))) = (None, w)"
    and "\<forall>k. env_ok (env k)" and "\<forall>g. scope = Scope_Group g \<longrightarrow> (\<forall>k. keeps_groups (env k))"
    and "turns decode T (borrowed_request rq (restriction_of m scope)) env 0 fuel w = (sent, x, w')"
  shows "\<forall>(i, s)\<in>set sent. \<exists>a. get (m_accounts m) i = Some a \<and> scope_covers scope (account_label a) (a_groups a)"
proof -
  have "\<exists>a. get (m_accounts m) (fst t) = Some a \<and> scope_covers scope (account_label a) (a_groups a)" if t: "t \<in> set sent" for t
  proof (cases "restriction_of m scope")
    case Unrestricted
    then have "scope = Scope_All" by (auto simp: restriction_of_def Let_def split: lend_scope.splits if_splits)
    moreover have "fst t < length (m_accounts m)"
      using unscoped_sends [OF _ assms(3,5) t] assms(2) by (simp add: Unrestricted unscoped_ladder)
    ultimately show ?thesis by (simp add: get_def)
  next
    case (Only_Accounts named)
    from accounts_scope_sends [OF this assms(2,3,5) t] show ?thesis .
  next
    case (Only_Group g)
    then have "scope = Scope_Group g" by (auto simp: restriction_of_def Let_def split: lend_scope.splits if_splits)
    then have "\<forall>k. keeps_groups (env k)" using assms(4) by blast
    from group_scope_sends [OF Only_Group _ _ assms(3) this assms(5) t] assms(2) show ?thesis
      by (simp add: Only_Group unscoped_ladder borrowed_request_def)
  qed (use assms(1) in simp)
  then show ?thesis by auto
qed

definition lent_team :: lend_scope where "lent_team = Scope_Group ''team''"

definition team_fleet :: manager where
  "team_fleet = sample_manager [fresh_account ''a'' Anthropic, (fresh_account ''b'' Anthropic)\<lparr>a_groups := [''team'']\<rparr>]"

definition team_run :: "(nat \<times> send) list \<times> answer option \<times> walk" where
  "team_run = turns (\<lambda>_. None) sample_time (borrowed_request messages_request (restriction_of team_fleet lent_team))
     (\<lambda>_. quiet_env broken_pipe) 0 3
     (snd (open_walk (borrowed_request messages_request (restriction_of team_fleet lent_team)) 0 0 (Some 1) [] team_fleet
       (scoped_ladder team_fleet True (snd (selection_headers (restriction_of team_fleet lent_team))))))"

theorem borrowed_request_stays_in_scope_witness:
  "length (fst team_run) = 3 \<and>
   list_all (\<lambda>(i, s). \<exists>a. get (m_accounts team_fleet) i = Some a \<and> scope_covers lent_team (account_label a) (a_groups a)) (fst team_run)"
proof -
  let ?rq = "borrowed_request messages_request (restriction_of team_fleet lent_team)"
  let ?open = "open_walk ?rq 0 0 (Some 1) [] team_fleet
    (scoped_ladder team_fleet True (snd (selection_headers (restriction_of team_fleet lent_team))))"
  have r: "restriction_of team_fleet lent_team \<noteq> Unenforceable" by code_simp
  have "fst ?open = None \<and> length (fst team_run) = 3" by code_simp
  then have h: "?open = (None, snd ?open)" "length (fst team_run) = 3" by (simp_all add: prod_eq_iff)
  have env: "\<forall>k::nat. env_ok (quiet_env broken_pipe)" by (simp add: env_ok_def keeps_size_def quiet_env_def)
  have grp: "\<forall>g. lent_team = Scope_Group g \<longrightarrow> (\<forall>k::nat. keeps_groups (quiet_env broken_pipe))"
    by (simp add: keeps_groups_def quiet_env_def)
  have run: "turns (\<lambda>_. None) sample_time ?rq (\<lambda>_. quiet_env broken_pipe) 0 3 (snd ?open) =
    (fst team_run, fst (snd team_run), snd (snd team_run))" by (simp add: team_run_def)
  from borrowed_request_stays_in_scope [OF r h(1) env grp run] h(2) show ?thesis by (simp add: list_all_iff)
qed

end
