(* ===== verification/Headers.thy ===== *)
theory Headers
  imports Provider Strings
begin

text \<open>
  Header maps, and what the proxy makes of them (\<^verbatim>\<open>src/proxy.rs\<close>, \<^verbatim>\<open>src/peer/serve.rs\<close>): the headers of a
  pooled request, of a relayed one and of a token refresh, the headers of an answer, the frame a borrower
  sends and the request a lender makes of it. A map is the list of its pairs in the order of its iteration,
  with names in lower case; a value is either readable as text or opaque, which is all \<open>to_str\<close> tells.
  Making a value out of a text may fail and is an argument, \<open>from_str\<close>.
\<close>

section \<open>Header maps\<close>

datatype header_value = Readable string | Opaque string

type_synonym header_map = "(string \<times> header_value) list"

fun to_str :: "header_value \<Rightarrow> string option" where
  "to_str (Readable s) = Some s"
| "to_str (Opaque _) = None"

definition header_get :: "header_map \<Rightarrow> string \<Rightarrow> header_value option" where
  "header_get h n = map_of h n"

definition contains_key :: "header_map \<Rightarrow> string \<Rightarrow> bool" where
  "contains_key h n \<longleftrightarrow> n \<in> set (map fst h)"

text \<open>Every value under a name.\<close>

definition header_values :: "string \<Rightarrow> header_map \<Rightarrow> header_value list" where
  "header_values n h = map snd (filter (\<lambda>p. fst p = n) h)"

definition header_append :: "string \<Rightarrow> header_value \<Rightarrow> header_map \<Rightarrow> header_map" where
  "header_append n v h = h @ [(n, v)]"

definition header_remove :: "string \<Rightarrow> header_map \<Rightarrow> header_map" where
  "header_remove n h = filter (\<lambda>p. fst p \<noteq> n) h"

definition header_insert :: "string \<Rightarrow> header_value \<Rightarrow> header_map \<Rightarrow> header_map" where
  "header_insert n v h = header_append n v (header_remove n h)"

text \<open>\<open>headers.get(name).and_then(to_str)\<close>.\<close>

definition header_text :: "header_map \<Rightarrow> string \<Rightarrow> string option" where
  "header_text h n = Option.bind (header_get h n) to_str"

text \<open>The loop that copies a map name by name and leaves some out.\<close>

definition copy_headers :: "(string \<Rightarrow> header_value \<Rightarrow> bool) \<Rightarrow> header_map \<Rightarrow> header_map" where
  "copy_headers skip h = fold (\<lambda>(n, v) out. if skip n v then out else header_append n v out) h []"

section \<open>Names\<close>

definition GROUP_HEADER_NAME :: string where "GROUP_HEADER_NAME = ''x-tcr-group''"
definition ACCOUNTS_HEADER_NAME :: string where "ACCOUNTS_HEADER_NAME = ''x-tcr-accounts''"
definition RELAYED_HEADER_NAME :: string where "RELAYED_HEADER_NAME = ''x-tcr-relayed''"
definition KEY_HEADER :: string where "KEY_HEADER = ''x-tcr-key''"
definition CODEX_ACCOUNT_HEADER :: string where "CODEX_ACCOUNT_HEADER = ''chatgpt-account-id''"
definition CODEX_ROUTING_HEADERS :: "string list" where
  "CODEX_ROUTING_HEADERS = [''x-openai-account-routing-override'', ''x-openai-fedramp'']"
definition CODEX_SESSION_HEADER :: string where "CODEX_SESSION_HEADER = ''session-id''"

definition is_request_hop_by_hop :: "string \<Rightarrow> bool" where
  "is_request_hop_by_hop name \<longleftrightarrow> name \<in> set [''host'', ''connection'', ''keep-alive'', ''transfer-encoding'',
     ''te'', ''trailer'', ''trailers'', ''upgrade'', ''proxy-authorization'', ''proxy-authenticate'', ''content-length'']"

definition RESPONSE_SKIP :: "string list" where
  "RESPONSE_SKIP = [''connection'', ''keep-alive'', ''transfer-encoding'', ''upgrade'', ''proxy-connection'', ''te'',
     ''trailer'', ''trailers'', ''content-length'', ''content-encoding'']"

definition is_response_skip :: "string \<Rightarrow> bool" where
  "is_response_skip name \<longleftrightarrow> list_ex (\<lambda>skip. eq_ignore_ascii_case name skip) RESPONSE_SKIP"

definition CODEX_QUOTA_HEADERS :: "string list" where
  "CODEX_QUOTA_HEADERS = [''x-codex-primary-used-percent'', ''x-codex-primary-window-minutes'', ''x-codex-primary-reset-at'',
     ''x-codex-secondary-used-percent'', ''x-codex-secondary-window-minutes'', ''x-codex-secondary-reset-at'',
     ''x-codex-rate-limit-reached-type'', ''x-codex-credits-has-credits'', ''x-codex-credits-unlimited'',
     ''x-codex-credits-balance'', ''x-codex-promo-message'']"

definition is_account_scoped :: "string \<Rightarrow> bool" where
  "is_account_scoped name \<longleftrightarrow> starts_with name ''anthropic-ratelimit-'' \<or> name = ''anthropic-organization-id'' \<or>
     name \<in> set CODEX_QUOTA_HEADERS"

section \<open>Keys\<close>

definition byte_of :: "char \<Rightarrow> 8 word" where "byte_of c = of_nat (of_char c)"

text \<open>\<open>key_matches\<close>: every byte of the presented key is read, whatever the outcome, and the lengths are folded in.\<close>

fun key_diff :: "string \<Rightarrow> string \<Rightarrow> 8 word \<Rightarrow> 8 word" where
  "key_diff [] expected diff = diff"
| "key_diff (x # xs) expected diff =
     key_diff xs (drop 1 expected)
       (or diff (xor (byte_of x) (case expected of [] \<Rightarrow> 0 | y # _ \<Rightarrow> byte_of y)))"

definition key_matches :: "string option \<Rightarrow> string \<Rightarrow> bool" where
  "key_matches provided expected =
     (case provided of None \<Rightarrow> False
      | Some a \<Rightarrow> key_diff a expected (if length a \<noteq> length expected then 1 else 0) = 0)"

record proxy_secrets =
  ps_api_key :: "string option"
  ps_request_key :: "string option"

definition secrets_contain :: "proxy_secrets \<Rightarrow> string option \<Rightarrow> bool" where
  "secrets_contain s v =
     list_ex (\<lambda>secret. key_matches v secret)
       (filter (\<lambda>secret. secret \<noteq> []) (List.map_filter id [ps_api_key s, ps_request_key s]))"

section \<open>The headers of a request on its way out\<close>

definition build_upstream_headers :: "(string \<Rightarrow> header_value option) \<Rightarrow> header_map \<Rightarrow> string \<Rightarrow> header_map" where
  "build_upstream_headers from_str req token =
     (let out = copy_headers (\<lambda>n _. starts_with n '':'' \<or> is_request_hop_by_hop n \<or> n = ''x-api-key'' \<or> n = KEY_HEADER \<or>
            n = ''authorization'' \<or> n = ''accept-encoding'' \<or> n = RELAYED_HEADER_NAME) req
      in case from_str (''Bearer '' @ token) of Some v \<Rightarrow> header_insert ''authorization'' v out | None \<Rightarrow> out)"

definition names_codex_routing :: "header_map \<Rightarrow> bool" where
  "names_codex_routing h \<longleftrightarrow> list_ex (contains_key h) CODEX_ROUTING_HEADERS"

definition build_codex_upstream_headers ::
  "(string \<Rightarrow> header_value option) \<Rightarrow> header_map \<Rightarrow> string \<Rightarrow> string option \<Rightarrow> header_map" where
  "build_codex_upstream_headers from_str req token account_id =
     (let out = header_remove CODEX_ACCOUNT_HEADER (build_upstream_headers from_str req token);
          out = fold header_remove CODEX_ROUTING_HEADERS out
      in case Option.bind account_id from_str of
           Some v \<Rightarrow> header_insert CODEX_ACCOUNT_HEADER v out | None \<Rightarrow> out)"

definition build_passthrough_headers :: "header_map \<Rightarrow> proxy_secrets \<Rightarrow> header_map" where
  "build_passthrough_headers req secrets =
     copy_headers (\<lambda>n v. starts_with n '':'' \<or> is_request_hop_by_hop n \<or> n = ''accept-encoding'' \<or> n = KEY_HEADER \<or>
       (n = ''x-api-key'' \<and> secrets_contain secrets (to_str v))) req"

definition build_raw_relay_headers :: "string \<Rightarrow> header_map \<Rightarrow> header_map" where
  "build_raw_relay_headers user_agent req =
     fold (\<lambda>(name, default) out.
         header_insert name (case header_get req name of Some v \<Rightarrow> v | None \<Rightarrow> Readable default) out)
       [(''content-type'', ''application/json''), (''accept'', ''application/json''), (''user-agent'', user_agent)] []"

section \<open>The headers of an answer\<close>

datatype served_by = Pooled_Account | Caller

definition answer_headers :: "header_map \<Rightarrow> served_by \<Rightarrow> header_map" where
  "answer_headers up who =
     copy_headers (\<lambda>n _. is_response_skip n \<or> (who = Pooled_Account \<and> is_account_scoped n)) up"

section \<open>Between two machines\<close>

definition CLIENT_CREDENTIAL_HEADERS :: "string list" where
  "CLIENT_CREDENTIAL_HEADERS = [''authorization'', ''x-api-key'', ''proxy-authorization'', ''cookie'', KEY_HEADER]"

text \<open>One \<open>remove\<close>, counted when it removed something.\<close>

definition scrub_name :: "string \<Rightarrow> nat \<times> header_map \<Rightarrow> nat \<times> header_map" where
  "scrub_name n = (\<lambda>(k, h). (if contains_key h n then Suc k else k, header_remove n h))"

definition scrub_client_credentials :: "header_map \<Rightarrow> nat \<times> header_map" where
  "scrub_client_credentials h =
     (let (credentials, h) = fold scrub_name CLIENT_CREDENTIAL_HEADERS (0, h);
          hop_by_hop = filter is_request_hop_by_hop (remdups (map fst h));
          (hops, h) = fold scrub_name hop_by_hop (0, h)
      in (credentials + hops, h))"

definition LENDER_FORWARDED_HEADERS :: "string list" where
  "LENDER_FORWARDED_HEADERS = [''content-type'', ''accept'', ''anthropic-version'', ''anthropic-beta'', ''user-agent'']"

definition lender_forwards_header :: "string \<Rightarrow> bool" where
  "lender_forwards_header name \<longleftrightarrow> list_ex (\<lambda>allowed. eq_ignore_ascii_case name allowed) LENDER_FORWARDED_HEADERS"

section \<open>Lemmas\<close>

lemma copy_headers_filter: "copy_headers skip h = filter (\<lambda>(n, v). \<not> skip n v) h"
proof -
  have "fold (\<lambda>(n, v) out. if skip n v then out else header_append n v out) h acc = acc @ filter (\<lambda>(n, v). \<not> skip n v) h" for acc
    by (induction h arbitrary: acc) (auto simp: header_append_def)
  then show ?thesis by (simp add: copy_headers_def)
qed

lemma header_values_simps [simp]:
  "header_values n [] = []"
  "header_values n ((k, v) # h) = (if k = n then [v] else []) @ header_values n h"
  "header_values n (h @ h') = header_values n h @ header_values n h'"
  by (simp_all add: header_values_def)

lemma header_values_remove [simp]: "header_values n (header_remove m h) = (if n = m then [] else header_values n h)"
  by (induction h) (auto simp: header_remove_def)

lemma header_values_insert [simp]: "header_values n (header_insert m v h) = (if n = m then [v] else header_values n h)"
  by (auto simp: header_insert_def header_append_def)

lemma header_values_copy:
  "header_values n (copy_headers skip h) = filter (\<lambda>v. \<not> skip n v) (header_values n h)"
  unfolding copy_headers_filter by (induction h) (auto split: if_splits)

lemma contains_key_values: "contains_key h n \<longleftrightarrow> header_values n h \<noteq> []"
  by (induction h) (auto simp: contains_key_def)

lemma header_get_values: "header_get h n = (case header_values n h of [] \<Rightarrow> None | v # _ \<Rightarrow> Some v)"
  by (induction h) (auto simp: header_get_def)

lemma byte_of_inject [simp]: "byte_of c = byte_of d \<longleftrightarrow> c = d"
proof
  assume "byte_of c = byte_of d"
  then have "unat (byte_of c) = unat (byte_of d)" by simp
  moreover have "unat (byte_of x) = of_char x" for x
    by (simp add: byte_of_def unat_of_nat take_bit_nat_def)
  ultimately show "c = d" by simp
qed simp

lemma xor_zero: "xor a b = (0 :: 'a::len word) \<longleftrightarrow> a = b"
  by (metis xor.assoc xor.left_neutral xor.right_neutral xor_self_eq)

lemma key_diff_zero:
  "length a \<le> length b \<Longrightarrow> key_diff a b d = 0 \<longleftrightarrow> d = 0 \<and> a = take (length a) b"
proof (induction a b d rule: key_diff.induct)
  case (2 x xs b d)
  then obtain y ys where b: "b = y # ys" by (cases b) auto
  with 2 show ?case by (auto simp: or_eq_0_iff xor_zero)
qed simp

lemma key_diff_nonzero: "key_diff a b d = 0 \<Longrightarrow> d = 0"
  by (induction a b d rule: key_diff.induct) (auto simp: or_eq_0_iff)

text \<open>The loop is an equality test.\<close>

lemma key_matches_iff: "key_matches provided expected \<longleftrightarrow> provided = Some expected"
proof (cases provided)
  case (Some a)
  show ?thesis
  proof (cases "length a = length expected")
    case True
    then show ?thesis using key_diff_zero [of a expected 0] by (simp add: key_matches_def Some)
  next
    case False
    then show ?thesis using key_diff_nonzero [of a expected 1] by (auto simp: key_matches_def Some)
  qed
qed (simp add: key_matches_def)

lemma secrets_contain_iff:
  "secrets_contain s v \<longleftrightarrow> (\<exists>k. v = Some k \<and> k \<noteq> [] \<and> (ps_api_key s = Some k \<or> ps_request_key s = Some k))"
  by (cases "ps_api_key s"; cases "ps_request_key s") (auto simp: secrets_contain_def key_matches_iff List.map_filter_def)

lemma fold_scrub_name:
  "snd (fold scrub_name ns (k, h)) = filter (\<lambda>(n, _). n \<notin> set ns) h"
  by (induction ns arbitrary: k h) (auto simp: scrub_name_def header_remove_def intro!: filter_cong)

text \<open>What is left of a scrubbed frame.\<close>

lemma scrubbed_headers:
  "snd (scrub_client_credentials h) =
    filter (\<lambda>(n, _). n \<notin> set CLIENT_CREDENTIAL_HEADERS \<and> \<not> is_request_hop_by_hop n) h"
proof -
  let ?h = "snd (fold scrub_name CLIENT_CREDENTIAL_HEADERS (0, h))"
  have "snd (scrub_client_credentials h) =
      filter (\<lambda>(n, _). n \<notin> set (filter is_request_hop_by_hop (remdups (map fst ?h)))) ?h"
    by (simp add: scrub_client_credentials_def Let_def case_prod_beta fold_scrub_name)
  also have "\<dots> = filter (\<lambda>(n, _). \<not> is_request_hop_by_hop n) ?h" by (rule filter_cong) (auto simp: image_iff)
  finally show ?thesis by (simp add: fold_scrub_name case_prod_unfold filter_filter conj_commute)
qed

section \<open>What reaches an upstream\<close>

text \<open>The names of a client's request that no pooled request carries over.\<close>

definition never_upstream :: "string \<Rightarrow> bool" where
  "never_upstream n \<longleftrightarrow> starts_with n '':'' \<or> is_request_hop_by_hop n \<or> n = ''x-api-key'' \<or> n = KEY_HEADER \<or>
     n = ''authorization'' \<or> n = ''accept-encoding'' \<or> n = RELAYED_HEADER_NAME"

lemma upstream_values:
  "header_values n (build_upstream_headers fs req token) =
    (if n = ''authorization'' then (case fs (''Bearer '' @ token) of Some v \<Rightarrow> [v] | None \<Rightarrow> [])
     else if never_upstream n then [] else header_values n req)"
  by (auto simp: build_upstream_headers_def never_upstream_def header_values_copy Let_def split: option.splits)

lemma codex_upstream_values:
  "header_values n (build_codex_upstream_headers fs req token account_id) =
    (if n = CODEX_ACCOUNT_HEADER then (case Option.bind account_id fs of Some v \<Rightarrow> [v] | None \<Rightarrow> [])
     else if n \<in> set CODEX_ROUTING_HEADERS then []
     else header_values n (build_upstream_headers fs req token))"
  by (auto simp: build_codex_upstream_headers_def CODEX_ROUTING_HEADERS_def CODEX_ACCOUNT_HEADER_def Let_def split: option.splits)

text \<open>The headers of one attempt, built for the account that serves it.\<close>

definition attempt_headers ::
  "(string \<Rightarrow> header_value option) \<Rightarrow> provider \<Rightarrow> header_map \<Rightarrow> string \<Rightarrow> string option \<Rightarrow> header_map" where
  "attempt_headers fs p req token account_id =
     (case p of Anthropic \<Rightarrow> build_upstream_headers fs req token
      | Codex \<Rightarrow> build_codex_upstream_headers fs req token account_id)"

lemma attempt_values:
  "header_values n (attempt_headers fs p req token account_id) =
    (if n = ''authorization'' then (case fs (''Bearer '' @ token) of Some v \<Rightarrow> [v] | None \<Rightarrow> [])
     else if p = Codex \<and> n = CODEX_ACCOUNT_HEADER then (case Option.bind account_id fs of Some v \<Rightarrow> [v] | None \<Rightarrow> [])
     else if never_upstream n \<or> (p = Codex \<and> n \<in> set CODEX_ROUTING_HEADERS) then []
     else header_values n req)"
proof -
  have "CODEX_ACCOUNT_HEADER \<noteq> ''authorization''" "''authorization'' \<notin> set CODEX_ROUTING_HEADERS"
    by (simp_all add: CODEX_ACCOUNT_HEADER_def CODEX_ROUTING_HEADERS_def)
  then show ?thesis
    by (cases p) (auto simp: attempt_headers_def codex_upstream_values upstream_values split: option.splits)
qed

text \<open>A group or an account-set header goes upstream with the rest.\<close>

lemma selection_headers_reach_upstream:
  "header_values ACCOUNTS_HEADER_NAME (build_upstream_headers fs [(ACCOUNTS_HEADER_NAME, v), (RELAYED_HEADER_NAME, r)] token) = [v]"
  by (simp add: upstream_values never_upstream_def ACCOUNTS_HEADER_NAME_def RELAYED_HEADER_NAME_def KEY_HEADER_def
      is_request_hop_by_hop_def starts_with_def)

lemma passthrough_values:
  "header_values n (build_passthrough_headers req secrets) =
    (if starts_with n '':'' \<or> is_request_hop_by_hop n \<or> n = ''accept-encoding'' \<or> n = KEY_HEADER then []
     else if n = ''x-api-key'' then filter (\<lambda>v. \<not> secrets_contain secrets (to_str v)) (header_values n req)
     else header_values n req)"
  by (simp add: build_passthrough_headers_def header_values_copy)

text \<open>A secret that is not visible ASCII is not recognised, and goes to the upstream.\<close>

lemma opaque_secret_passes_through:
  "header_values ''x-api-key'' (build_passthrough_headers [(''x-api-key'', Opaque k)] \<lparr>ps_api_key = Some k, ps_request_key = None\<rparr>)
    = [Opaque k]"
  by (simp add: passthrough_values secrets_contain_iff is_request_hop_by_hop_def KEY_HEADER_def starts_with_def)

lemma raw_relay_values:
  "header_values n (build_raw_relay_headers ua req) =
    (if n = ''content-type'' \<or> n = ''accept'' then [unwrap_or (header_get req n) (Readable ''application/json'')]
     else if n = ''user-agent'' then [unwrap_or (header_get req n) (Readable ua)] else [])"
  by (auto simp: build_raw_relay_headers_def unwrap_or_def)

lemma answer_values:
  "header_values n (answer_headers up who) =
    (if is_response_skip n \<or> (who = Pooled_Account \<and> is_account_scoped n) then [] else header_values n up)"
  by (simp add: answer_headers_def header_values_copy)

lemma lender_forwards_no_credential:
  "lender_forwards_header n \<Longrightarrow> to_ascii_lowercase n \<in> set LENDER_FORWARDED_HEADERS"
  by (auto simp: lender_forwards_header_def LENDER_FORWARDED_HEADERS_def eq_ignore_ascii_case_def to_ascii_lowercase_def
      ascii_lower_def)

end
