(* ===== verification/Edge.thy ===== *)
theory Edge
  imports Request_Key Identity Manager_State
begin

text \<open>
  The gates a request passes before an account is chosen for it (\<^verbatim>\<open>src/proxy.rs\<close>, \<^verbatim>\<open>src/mitm.rs\<close>,
  \<^verbatim>\<open>src/control_identity.rs\<close>): the key, the shape of the path, the local prefix, the host it names and the
  tunnel it came through, the WebSocket answer, the identity of the client and the relays; the gate of the
  local endpoints; what becomes of a \<open>CONNECT\<close>; the key of a session.
\<close>

section \<open>IP addresses\<close>

text \<open>\<open>IpAddr::from_str\<close> of the standard library, parser by parser: what is read and what is left.\<close>

fun digits_of :: "nat \<Rightarrow> string \<Rightarrow> nat list \<times> string" where
  "digits_of radix [] = ([], [])"
| "digits_of radix (c # s) =
     (case filter_opt (\<lambda>d. d < radix) (hex_value c) of
        Some d \<Rightarrow> (let (ds, r) = digits_of radix s in (d # ds, r))
      | None \<Rightarrow> ([], c # s))"

definition read_number :: "nat \<Rightarrow> nat \<Rightarrow> bool \<Rightarrow> int \<Rightarrow> string \<Rightarrow> (nat \<times> string) option" where
  "read_number radix max_digits allow_zero_prefix bound s =
     (let (ds, r) = digits_of radix s;
          v = foldl (\<lambda>n d. n * radix + d) 0 ds
      in if length ds > max_digits \<or> ds = [] then None
         else if \<not> allow_zero_prefix \<and> hd ds = 0 \<and> length ds > 1 then None
         else if int v < bound then Some (v, r) else None)"

definition read_given_char :: "char \<Rightarrow> string \<Rightarrow> string option" where
  "read_given_char c s = (case s of x # t \<Rightarrow> if x = c then Some t else None | [] \<Rightarrow> None)"

definition read_separator :: "char \<Rightarrow> nat \<Rightarrow> (string \<Rightarrow> ('a \<times> string) option) \<Rightarrow> string \<Rightarrow> ('a \<times> string) option" where
  "read_separator sep index inner s = (if index > 0 then Option.bind (read_given_char sep s) inner else inner s)"

fun read_octets :: "nat \<Rightarrow> nat \<Rightarrow> string \<Rightarrow> (nat list \<times> string) option" where
  "read_octets 0 i s = Some ([], s)"
| "read_octets (Suc left) i s =
     (case read_separator (CHR ''.'') i (read_number 10 3 False 256) s of
        None \<Rightarrow> None
      | Some (v, r) \<Rightarrow> map_option (\<lambda>(vs, r). (v # vs, r)) (read_octets left (Suc i) r))"

definition read_ipv4_addr :: "string \<Rightarrow> (nat list \<times> string) option" where
  "read_ipv4_addr = read_octets 4 0"

text \<open>\<open>read_groups\<close>: \<open>left\<close> slots remain; the flag says an embedded IPv4 address ended the groups.\<close>

fun read_groups :: "nat \<Rightarrow> nat \<Rightarrow> string \<Rightarrow> nat list \<times> bool \<times> string" where
  "read_groups 0 i s = ([], False, s)"
| "read_groups (Suc left) i s =
     (case (if left \<ge> 1 then read_separator (CHR '':'') i read_ipv4_addr s else None) of
        Some (o4, r) \<Rightarrow> ([o4 ! 0 * 256 + o4 ! 1, o4 ! 2 * 256 + o4 ! 3], True, r)
      | None \<Rightarrow>
          (case read_separator (CHR '':'') i (read_number 16 4 True 65536) s of
             Some (g, r) \<Rightarrow> (let (gs, v4, r) = read_groups left (Suc i) r in (g # gs, v4, r))
           | None \<Rightarrow> ([], False, s)))"

definition read_ipv6_addr :: "string \<Rightarrow> (nat list \<times> string) option" where
  "read_ipv6_addr s =
     (let (front, front_v4, r) = read_groups 8 0 s in
      if length front = 8 then Some (front, r)
      else if front_v4 then None
      else case Option.bind (read_given_char (CHR '':'') r) (read_given_char (CHR '':'')) of
        None \<Rightarrow> None
      | Some r \<Rightarrow>
          (let (back, _, r) = read_groups (8 - (length front + 1)) 0 r
           in Some (front @ replicate (8 - length front - length back) 0 @ back, r)))"

datatype ip_addr = V4 "nat list" | V6 "nat list"

definition parse_ip :: "string \<Rightarrow> ip_addr option" where
  "parse_ip s =
     (case or_else (map_option (apfst V4) (read_ipv4_addr s)) (map_option (apfst V6) (read_ipv6_addr s)) of
        Some (ip, []) \<Rightarrow> Some ip
      | _ \<Rightarrow> None)"

fun ip_is_loopback :: "ip_addr \<Rightarrow> bool" where
  "ip_is_loopback (V4 os) = (hd os = 127)"
| "ip_is_loopback (V6 gs) = (gs = [0, 0, 0, 0, 0, 0, 0, 1])"

lemma loopback_addresses:
  "map_option ip_is_loopback (parse_ip ''127.0.0.1'') = Some True" "map_option ip_is_loopback (parse_ip ''::1'') = Some True"
  "map_option ip_is_loopback (parse_ip ''::2'') = Some False" "parse_ip ''127.0.0.01'' = None"
  by code_simp+

section \<open>Hosts\<close>

definition rsplit_once :: "char \<Rightarrow> string \<Rightarrow> (string \<times> string) option" where
  "rsplit_once c s = map_option (\<lambda>(b, a). (rev a, rev b)) (split_once c (rev s))"

definition strip_suffix :: "string \<Rightarrow> string \<Rightarrow> string option" where
  "strip_suffix p s = map_option rev (strip_prefix (rev p) (rev s))"

definition strip_port :: "string \<Rightarrow> string" where
  "strip_port authority =
     (if starts_with authority ''['' then
        takeWhile (\<lambda>c. c \<noteq> CHR '']'') authority @ (if CHR '']'' \<in> set authority then '']'' else [])
      else case rsplit_once (CHR '':'') authority of Some (host, _) \<Rightarrow> host | None \<Rightarrow> authority)"

definition host_is_loopback :: "string \<Rightarrow> bool" where
  "host_is_loopback host =
     (let bare = unwrap_or (Option.bind (strip_prefix ''['' host) (strip_suffix '']'')) host
      in is_some_and (parse_ip bare) ip_is_loopback \<or> eq_ignore_ascii_case host ''localhost'')"

definition ALLOWED_HOSTS :: "string list" where
  "ALLOWED_HOSTS = [''api.anthropic.com'', ''platform.claude.com'', ''chatgpt.com'']"

definition host_allowed :: "string \<Rightarrow> bool" where
  "host_allowed host \<longleftrightarrow> list_ex (\<lambda>h. eq_ignore_ascii_case h host) ALLOWED_HOSTS"

definition INTERCEPTED_HOST_PROVIDERS :: "(string \<times> provider) list" where
  "INTERCEPTED_HOST_PROVIDERS = [(''api.anthropic.com'', Anthropic), (''platform.claude.com'', Anthropic), (CODEX_HOST, Codex)]"

definition intercepted_host_provider :: "string \<Rightarrow> provider option" where
  "intercepted_host_provider host =
     map_option snd (find (\<lambda>p. eq_ignore_ascii_case (fst p) host) INTERCEPTED_HOST_PROVIDERS)"

section \<open>Paths\<close>

definition CLIENT_CREDENTIAL_PREFIXES :: "string list" where
  "CLIENT_CREDENTIAL_PREFIXES = [''/v1/code'', ''/api/oauth/files'', ''/api/oauth/file_upload'',
     ''/api/oauth/organizations'', ''/v1/mcp_servers'', ''/v1/sessions'']"

definition CLIENT_TOKEN_REFRESH_PATH :: string where "CLIENT_TOKEN_REFRESH_PATH = ''/v1/oauth/token''"
definition LOCAL_PREFIX :: string where "LOCAL_PREFIX = ''/_tcr''"

definition path_is_under :: "string \<Rightarrow> string \<Rightarrow> bool" where
  "path_is_under path base = is_some_and (strip_prefix base path) (\<lambda>rest. rest = [] \<or> starts_with rest ''/'')"

text \<open>One dot off the front of a segment, plain or escaped.\<close>

definition strip_dot :: "string \<Rightarrow> string option" where
  "strip_dot s =
     (case strip_prefix ''.'' s of
        Some t \<Rightarrow> Some t
      | None \<Rightarrow> if length s \<ge> 3 \<and> s ! 0 = CHR ''%'' \<and> s ! 1 = CHR ''2'' \<and> ascii_lower (s ! 2) = CHR ''e''
               then Some (drop 3 s) else None)"

lemma strip_dot_shorter: "strip_dot s = Some t \<Longrightarrow> length t < length s"
  by (cases s) (auto simp: strip_dot_def strip_prefix_def starts_with_def split: option.splits if_splits)

function dots_of :: "string \<Rightarrow> nat \<Rightarrow> bool" where
  "dots_of rest dots =
     (if rest = [] then dots = 1 \<or> dots = 2
      else case strip_dot rest of
        None \<Rightarrow> False
      | Some rest' \<Rightarrow> if dots + 1 > 2 then False else dots_of rest' (dots + 1))"
  by auto
termination by (relation "measure (\<lambda>(rest, _). length rest)") (auto dest: strip_dot_shorter)

declare dots_of.simps [simp del]

definition is_dot_segment :: "string \<Rightarrow> bool" where
  "is_dot_segment segment = dots_of segment 0"

definition path_is_ambiguous :: "string \<Rightarrow> bool" where
  "path_is_ambiguous path \<longleftrightarrow> CHR 0x5C \<in> set path \<or> list_ex is_dot_segment (split_on (CHR ''/'') path)"

datatype relay_mode = Client_Credential | Raw

definition relay_mode_of :: "string \<Rightarrow> string \<Rightarrow> bool \<Rightarrow> relay_mode option" where
  "relay_mode_of http_method path client_bearer =
     (if http_method = ''POST'' \<and> path_is_under path CLIENT_TOKEN_REFRESH_PATH then Some Raw
      else if list_ex (path_is_under path) CLIENT_CREDENTIAL_PREFIXES \<or>
              (case of_path path of Anthropic \<Rightarrow> False | Codex \<Rightarrow> \<not> is_inference_path Codex path)
      then Some Client_Credential
      else if client_bearer \<and> \<not> is_inference_path (of_path path) path then Some Client_Credential
      else None)"

section \<open>Reading a request's headers\<close>

definition split_once_where :: "(char \<Rightarrow> bool) \<Rightarrow> string \<Rightarrow> (string \<times> string) option" where
  "split_once_where p s =
     (if list_ex p s then Some (takeWhile (\<lambda>c. \<not> p c) s, tl (dropWhile (\<lambda>c. \<not> p c) s)) else None)"

definition client_bearer_of :: "header_map \<Rightarrow> string option" where
  "client_bearer_of h =
     (case header_text h ''authorization'' of
        None \<Rightarrow> None
      | Some v \<Rightarrow>
          (case split_once_where is_ascii_space (trim v) of
             None \<Rightarrow> None
           | Some (scheme, token) \<Rightarrow>
               (let token = trim token in if eq_ignore_ascii_case scheme ''bearer'' \<and> token \<noteq> [] then Some token else None)))"

definition wants_websocket_upgrade :: "header_map \<Rightarrow> bool" where
  "wants_websocket_upgrade h = is_some_and (header_text h ''upgrade'') (\<lambda>v. eq_ignore_ascii_case (trim v) ''websocket'')"

definition is_json_content_type :: "header_map \<Rightarrow> bool" where
  "is_json_content_type h =
     is_some_and (header_text h ''content-type'')
       (\<lambda>v. eq_ignore_ascii_case (trim (hd (split_on (CHR '';'') v))) ''application/json'')"

definition is_cross_site_request :: "header_map \<Rightarrow> bool" where
  "is_cross_site_request h \<longleftrightarrow> contains_key h ''origin'' \<or>
     is_some_and (header_text h ''sec-fetch-site'') (\<lambda>site. trim site \<notin> {''same-origin'', ''none''})"

definition codex_session_id :: "header_map \<Rightarrow> string option" where
  "codex_session_id h = filter_opt (\<lambda>s. s \<noteq> []) (map_option trim (header_text h CODEX_SESSION_HEADER))"

section \<open>The client's identity\<close>

record control_identity =
  ci_name :: string
  ci_account_uuid :: "string option"

record client_identity =
  cl_email :: "string option"
  cl_account_uuid :: "string option"

datatype client_verdict = Match | Mismatch client_identity | Unknown_Client

definition verdict_of :: "control_identity \<Rightarrow> client_identity \<Rightarrow> client_verdict" where
  "verdict_of ctl client =
     (case (ci_account_uuid ctl, cl_account_uuid client) of
        (Some c, Some k) \<Rightarrow> if c = k then Match else Mismatch client
      | _ \<Rightarrow>
          (let control_email = email_of (ci_name ctl) in
           if CHR 0x40 \<notin> set control_email then Unknown_Client
           else case cl_email client of
             Some email \<Rightarrow> if eq_ignore_ascii_case email control_email then Match else Mismatch client
           | None \<Rightarrow> Unknown_Client))"

datatype control_identity_mode = Refuse_Mode | Warn_Mode | Off_Mode

section \<open>The configuration and the request at the edge\<close>

record edge_config =
  ec_api_key :: "string option"
  ec_request_key :: "string option"
  ec_control_mode :: control_identity_mode
  ec_control :: "control_identity option"

definition proxy_secrets_of :: "edge_config \<Rightarrow> proxy_secrets" where
  "proxy_secrets_of cfg = \<lparr>ps_api_key = ec_api_key cfg, ps_request_key = ec_request_key cfg\<rparr>"

text \<open>What the listener stamps on a request is beside what the client sent: whether its peer is on this
  machine, the host of the tunnel it was decrypted from, and whether that tunnel was keyed.\<close>

record edge_request =
  er_method :: string
  er_uri_host :: "string option"
  er_path :: string
  er_headers :: header_map
  er_peer_loopback :: "bool option"
  er_tunnel :: "string option"
  er_tunnel_keyed :: bool

definition target_host :: "edge_request \<Rightarrow> string option" where
  "target_host rq = or_else (er_uri_host rq) (map_option strip_port (header_text (er_headers rq) ''host''))"

definition client_is_loopback :: "edge_request \<Rightarrow> bool" where
  "client_is_loopback rq = is_some_and (er_peer_loopback rq) (\<lambda>b. b)"

definition request_keying_of :: "edge_request \<Rightarrow> string option \<Rightarrow> request_keying" where
  "request_keying_of rq request_key =
     (if request_key = None then No_Server_Key
      else if er_tunnel_keyed rq then Keyed
      else if er_tunnel rq \<noteq> None then Counted_At_Connect
      else let credential = from_request_headers (er_headers rq) request_key in
        if pc_key_ok credential then Keyed else Unkeyed (pc_user_agent credential))"

text \<open>The client's bearer is resolved at the upstream; what it resolves to is an argument.\<close>

definition refuse_foreign_client :: "edge_config \<Rightarrow> (string \<Rightarrow> client_identity option) \<Rightarrow> string \<Rightarrow> bool" where
  "refuse_foreign_client cfg profile_of bearer =
     (if ec_control_mode cfg = Off_Mode then False
      else case ec_control cfg of
        None \<Rightarrow> False
      | Some ctl \<Rightarrow>
          (case profile_of bearer of
             None \<Rightarrow> False
           | Some client \<Rightarrow>
               (case verdict_of ctl client of
                  Mismatch _ \<Rightarrow> ec_control_mode cfg \<noteq> Warn_Mode
                | _ \<Rightarrow> False)))"

section \<open>The gates, in the order of \<open>handle_request\<close>\<close>

datatype edge_answer =
    Unauthorized | Bad_Path | Unknown_Endpoint | Misdirected | Upgrade_Required | Foreign_Client
  | Relayed relay_mode provider | Pooled provider

datatype edge_effect = Count_Unkeyed unkeyed ua_family | Note_Codex_Unpooled

definition request_provider :: "edge_request \<Rightarrow> provider" where
  "request_provider rq =
     (if is_some_and (er_tunnel rq) (\<lambda>h. eq_ignore_ascii_case h CODEX_HOST) then Codex else of_path (er_path rq))"

definition codex_passthrough :: "edge_request \<Rightarrow> bool" where
  "codex_passthrough rq =
     (case of_path (er_path rq) of
        Anthropic \<Rightarrow> is_some_and (er_tunnel rq) (\<lambda>h. eq_ignore_ascii_case h CODEX_HOST)
      | Codex \<Rightarrow> False)"

definition misrouted :: "edge_request \<Rightarrow> bool" where
  "misrouted rq = is_some_and (target_host rq) (\<lambda>host. \<not> host_is_loopback host \<and> \<not> host_allowed host)"

text \<open>The refusal of a request on the wrong host or for the wrong provider.\<close>

definition host_refused :: "edge_request \<Rightarrow> bool" where
  "host_refused rq =
     (case er_tunnel rq of
        Some tunnel \<Rightarrow>
          (let names_another_host = (case target_host rq of
                 Some host \<Rightarrow> \<not> eq_ignore_ascii_case host tunnel
               | None \<Rightarrow> contains_key (er_headers rq) ''host'')
           in if names_another_host then True
              else intercepted_host_provider tunnel \<noteq> Some (request_provider rq))
      | None \<Rightarrow>
          is_some_and (target_host rq)
            (\<lambda>host. \<not> host_is_loopback host \<and> intercepted_host_provider host \<noteq> Some (request_provider rq)))"

definition path_relay :: "edge_request \<Rightarrow> relay_mode option" where
  "path_relay rq =
     (if codex_passthrough rq then Some Client_Credential
      else relay_mode_of (er_method rq) (er_path rq) (client_bearer_of (er_headers rq) \<noteq> None))"

definition relay_of :: "edge_request \<Rightarrow> relay_mode option" where
  "relay_of rq =
     (case path_relay rq of
        Some mode \<Rightarrow> Some mode
      | None \<Rightarrow> (case request_provider rq of
            Anthropic \<Rightarrow> None
          | Codex \<Rightarrow> if names_codex_routing (er_headers rq) then Some Client_Credential else None))"

definition unpooled_effect :: "edge_request \<Rightarrow> edge_effect list" where
  "unpooled_effect rq = (if path_relay rq = None \<and> relay_of rq \<noteq> None then [Note_Codex_Unpooled] else [])"

definition unkeyed_effect :: "edge_config \<Rightarrow> edge_request \<Rightarrow> edge_effect list" where
  "unkeyed_effect cfg rq =
     (case request_keying_of rq (ec_request_key cfg) of
        Unkeyed ua \<Rightarrow> [Count_Unkeyed (Unkeyed_Request (path_class_of (er_path rq))) ua]
      | _ \<Rightarrow> [])"

definition unauthorized :: "edge_config \<Rightarrow> edge_request \<Rightarrow> bool" where
  "unauthorized cfg rq =
     (case ec_api_key cfg of
        Some expected \<Rightarrow> \<not> client_is_loopback rq \<and> \<not> key_matches (header_text (er_headers rq) ''x-api-key'') expected
      | None \<Rightarrow> False)"

definition wants_upgrade :: "edge_request \<Rightarrow> bool" where
  "wants_upgrade rq \<longleftrightarrow>
     request_provider rq = Codex \<and> er_path rq = CODEX_RESPONSES_PATH \<and> wants_websocket_upgrade (er_headers rq)"

definition foreign_client :: "edge_config \<Rightarrow> (string \<Rightarrow> client_identity option) \<Rightarrow> edge_request \<Rightarrow> bool" where
  "foreign_client cfg profile_of rq =
     (case request_provider rq of
        Anthropic \<Rightarrow> is_some_and (client_bearer_of (er_headers rq)) (refuse_foreign_client cfg profile_of)
      | Codex \<Rightarrow> False)"

definition handle_edge ::
  "edge_config \<Rightarrow> (string \<Rightarrow> client_identity option) \<Rightarrow> edge_request \<Rightarrow> edge_answer \<times> edge_effect list" where
  "handle_edge cfg profile_of rq =
     (if unauthorized cfg rq then (Unauthorized, [])
      else let effects = unkeyed_effect cfg rq in
        if path_is_ambiguous (er_path rq) then (Bad_Path, effects)
        else if path_is_under (er_path rq) LOCAL_PREFIX then (Unknown_Endpoint, effects)
        else if misrouted rq then (Misdirected, effects)
        else if host_refused rq then (Misdirected, effects)
        else if wants_upgrade rq then (Upgrade_Required, effects)
        else if foreign_client cfg profile_of rq then (Foreign_Client, effects)
        else case relay_of rq of
          Some mode \<Rightarrow> (Relayed mode (request_provider rq), effects @ unpooled_effect rq)
        | None \<Rightarrow> (Pooled (request_provider rq), effects))"

text \<open>The headers of a relayed request, by its mode (\<open>relay_request\<close>).\<close>

definition relay_headers :: "relay_mode \<Rightarrow> string \<Rightarrow> header_map \<Rightarrow> proxy_secrets \<Rightarrow> header_map" where
  "relay_headers mode user_agent req secrets =
     (case mode of Client_Credential \<Rightarrow> build_passthrough_headers req secrets
      | Raw \<Rightarrow> build_raw_relay_headers user_agent req)"

text \<open>The headers of one attempt on an account: its own token and its own workspace, read off the row. A row
  that is gone has no token, and the attempt is not made.\<close>

definition access_token :: "manager \<Rightarrow> nat \<Rightarrow> string option" where
  "access_token m idx = map_option a_access_token (get (m_accounts m) idx)"

definition served_headers ::
  "(string \<Rightarrow> header_value option) \<Rightarrow> manager \<Rightarrow> nat \<Rightarrow> provider \<Rightarrow> header_map \<Rightarrow> header_map option" where
  "served_headers from_str m idx p req =
     (case access_token m idx of
        None \<Rightarrow> None
      | Some token \<Rightarrow> Some (attempt_headers from_str p req token (codex_account_id m idx)))"

text \<open>The headers that leave for an upstream after the edge has decided: those of the attempt on the account the
  walk serves, those of the relay, or none.\<close>

definition outbound_headers ::
  "(string \<Rightarrow> header_value option) \<Rightarrow> edge_config \<Rightarrow> manager \<Rightarrow> nat \<Rightarrow> string \<Rightarrow> edge_request \<Rightarrow> edge_answer \<Rightarrow>
   header_map option" where
  "outbound_headers from_str cfg m idx user_agent rq answer =
     (case answer of
        Pooled p \<Rightarrow> served_headers from_str m idx p (er_headers rq)
      | Relayed mode _ \<Rightarrow> Some (relay_headers mode user_agent (er_headers rq) (proxy_secrets_of cfg))
      | _ \<Rightarrow> None)"

section \<open>The local endpoints\<close>

datatype endpoint_refusal = Not_Loopback | Bad_Key | Not_Addressed_Here | Cross_Site | Not_Json

definition local_endpoint_gate :: "edge_config \<Rightarrow> edge_request \<Rightarrow> endpoint_refusal option" where
  "local_endpoint_gate cfg rq =
     (if \<not> client_is_loopback rq then Some Not_Loopback
      else if (case ec_api_key cfg of
          Some expected \<Rightarrow> \<not> key_matches (header_text (er_headers rq) ''x-api-key'') expected | None \<Rightarrow> False)
      then Some Bad_Key
      else if is_some_and (target_host rq) (\<lambda>host. \<not> host_is_loopback host) then Some Not_Addressed_Here
      else if is_cross_site_request (er_headers rq) then Some Cross_Site
      else None)"

section \<open>\<open>CONNECT\<close>\<close>

definition leaf_covers :: "string list \<Rightarrow> string \<Rightarrow> bool" where
  "leaf_covers covered host \<longleftrightarrow> list_ex (\<lambda>h. eq_ignore_ascii_case h host) covered"

definition host_intercepted :: "string \<Rightarrow> nat \<Rightarrow> bool \<Rightarrow> bool" where
  "host_intercepted host codex_accounts codex_connection \<longleftrightarrow>
     host_allowed host \<and> (\<not> eq_ignore_ascii_case host CODEX_HOST \<or> (codex_accounts > 0 \<and> codex_connection))"

definition intercepts_now :: "nat \<Rightarrow> string \<Rightarrow> bool \<Rightarrow> bool" where
  "intercepts_now codex_accounts host codex_connection =
     (if \<not> eq_ignore_ascii_case host CODEX_HOST then host_allowed host
      else if \<not> codex_connection then False
      else host_intercepted host codex_accounts True)"

function words_of :: "string \<Rightarrow> string list" where
  "words_of [] = []"
| "words_of (c # s) =
     (if is_ascii_space c then words_of s
      else (takeWhile (\<lambda>x. \<not> is_ascii_space x) (c # s)) # words_of (dropWhile (\<lambda>x. \<not> is_ascii_space x) s))"
  by pat_completeness auto
termination by (relation "measure length") (auto simp: le_imp_less_Suc length_dropWhile_le)

definition parse_connect_target :: "string \<Rightarrow> (string \<times> nat) option" where
  "parse_connect_target line =
     (case words_of line of
        verb # authority # _ \<Rightarrow>
          if \<not> eq_ignore_ascii_case verb ''CONNECT'' then None
          else (case rsplit_once (CHR '':'') authority of
              None \<Rightarrow> None
            | Some (host, port) \<Rightarrow>
                (case parse_unsigned 16 port of
                   None \<Rightarrow> None
                 | Some p \<Rightarrow> if host = [] then None else Some (host, p)))
      | _ \<Rightarrow> None)"

datatype connect_answer = Connect_Refused | Tunnelled string nat | No_Tls | Terminated string bool

definition handle_connect ::
  "string option \<Rightarrow> nat \<Rightarrow> string list \<Rightarrow> bool \<Rightarrow> string \<Rightarrow> connect_answer \<times> edge_effect list" where
  "handle_connect request_key codex_accounts covered tls head =
     (case parse_connect_target (case str_lines head of l # _ \<Rightarrow> l | [] \<Rightarrow> []) of
        None \<Rightarrow> (Connect_Refused, [])
      | Some (host, port) \<Rightarrow>
          (let credential = from_connect_head head request_key;
               effects = (if request_key \<noteq> None \<and> \<not> pc_key_ok credential
                          then [Count_Unkeyed (Unkeyed_Connect (connect_class_of host)) (pc_user_agent credential)] else []);
               policy_intercepts = intercepts_now codex_accounts host (pc_codex_marked credential)
           in if \<not> policy_intercepts \<or> \<not> leaf_covers covered host then (Tunnelled host port, effects)
              else if \<not> tls then (No_Tls, effects)
              else (Terminated host (pc_key_ok credential), effects)))"

text \<open>A request the listener serves on a connection: what it stamps on it.\<close>

definition stamped_request :: "(string \<times> bool) option \<Rightarrow> bool \<Rightarrow> edge_request \<Rightarrow> edge_request" where
  "stamped_request tunnel peer_loopback rq =
     rq\<lparr>er_peer_loopback := Some peer_loopback, er_tunnel := map_option fst tunnel,
        er_tunnel_keyed := is_some_and tunnel snd\<rparr>"

section \<open>The key of a session\<close>

datatype session_kind = Session_Stable | Session_Prefix | Session_Fallback

text \<open>The hashes are arguments, and so is what the body says: its user id and its cacheable prefix.\<close>

definition prefix_session_key :: "(string option \<Rightarrow> string option \<Rightarrow> 64 word) \<Rightarrow> string option \<Rightarrow> string option \<Rightarrow> 64 word option" where
  "prefix_session_key hash system tools = (if system = None \<and> tools = None then None else Some (hash system tools))"

definition stable_session_key ::
  "(string \<Rightarrow> string \<Rightarrow> 64 word) \<Rightarrow> (string option \<Rightarrow> string option \<Rightarrow> 64 word) \<Rightarrow> header_map \<Rightarrow>
   string option \<Rightarrow> (string option \<times> string option) option \<Rightarrow> proxy_secrets \<Rightarrow> string \<Rightarrow> string \<Rightarrow> bool \<Rightarrow>
   (64 word \<times> session_kind) option" where
  "stable_session_key stable_hash prefix_hash h user_id affinity_prefix secrets http_method path loopback =
     (case (case of_path path of Codex \<Rightarrow> codex_session_id h | Anthropic \<Rightarrow> None) of
        Some sid \<Rightarrow> Some (stable_hash ''sid:'' sid, Session_Stable)
      | None \<Rightarrow>
          (let api_key = map_option (\<lambda>key. (stable_hash ''key:'' key, Session_Stable))
                 (filter_opt (\<lambda>key. \<not> secrets_contain secrets (Some key)) (header_text h ''x-api-key''))
           in if \<not> loopback \<and> api_key \<noteq> None then api_key
              else case user_id of
                Some uid \<Rightarrow> Some (stable_hash ''uid:'' uid, Session_Stable)
              | None \<Rightarrow>
                  if api_key \<noteq> None then api_key
                  else if \<not> loopback \<or> http_method \<noteq> ''POST'' \<or> path \<noteq> ''/v1/messages'' then None
                  else case affinity_prefix of
                    None \<Rightarrow> None
                  | Some (system, tools) \<Rightarrow>
                      map_option (\<lambda>key. (key, Session_Prefix)) (prefix_session_key prefix_hash system tools)))"

end
