(* ===== verification/Edge_Props.thy ===== *)
theory Edge_Props
  imports Edge Select_Props
begin

text \<open>
  What the gates at the edge guarantee together: which requests reach the pool, what a tunnel guarantees
  about the requests decrypted from it, and which credentials leave the machine on a pooled and on a relayed
  request.
\<close>

section \<open>A request that reaches the pool\<close>

lemma eq_ignore_ascii_case_sym: "eq_ignore_ascii_case a b \<longleftrightarrow> eq_ignore_ascii_case b a"
  by (auto simp: eq_ignore_ascii_case_def)

lemma intercepted_host_provider_cong:
  "eq_ignore_ascii_case a b \<Longrightarrow> intercepted_host_provider a = intercepted_host_provider b"
  by (simp add: intercepted_host_provider_def eq_ignore_ascii_case_def)

lemma chatgpt_is_codex: "eq_ignore_ascii_case h CODEX_HOST \<Longrightarrow> intercepted_host_provider h = Some Codex"
proof -
  have "intercepted_host_provider CODEX_HOST = Some Codex" by code_simp
  then show "eq_ignore_ascii_case h CODEX_HOST \<Longrightarrow> intercepted_host_provider h = Some Codex"
    using intercepted_host_provider_cong by simp
qed

lemma pooled_gates:
  assumes "handle_edge cfg profile_of rq = (Pooled p, effects)"
  shows "\<not> unauthorized cfg rq" "\<not> path_is_ambiguous (er_path rq)" "\<not> path_is_under (er_path rq) LOCAL_PREFIX"
    "\<not> misrouted rq" "\<not> host_refused rq" "\<not> wants_upgrade rq" "\<not> foreign_client cfg profile_of rq" "relay_of rq = None"
    "p = request_provider rq" "effects = unkeyed_effect cfg rq"
  using assms by (auto simp: handle_edge_def Let_def split: if_splits option.splits)

lemma pooled_path:
  assumes "relay_of rq = None"
  shows "request_provider rq = of_path (er_path rq)"
    and "relay_mode_of (er_method rq) (er_path rq) (client_bearer_of (er_headers rq) \<noteq> None) = None"
    and "request_provider rq = Codex \<Longrightarrow> \<not> names_codex_routing (er_headers rq)"
proof -
  have "path_relay rq = None" using assms by (auto simp: relay_of_def split: option.splits)
  then have *: "\<not> codex_passthrough rq"
    "relay_mode_of (er_method rq) (er_path rq) (client_bearer_of (er_headers rq) \<noteq> None) = None"
    by (auto simp: path_relay_def split: if_splits)
  then show "relay_mode_of (er_method rq) (er_path rq) (client_bearer_of (er_headers rq) \<noteq> None) = None" by blast
  show "request_provider rq = of_path (er_path rq)"
    using *(1) by (cases "of_path (er_path rq)") (auto simp: codex_passthrough_def request_provider_def)
  show "request_provider rq = Codex \<Longrightarrow> \<not> names_codex_routing (er_headers rq)"
    using assms by (auto simp: relay_of_def split: option.splits if_splits)
qed

lemma relay_mode_None:
  assumes "relay_mode_of meth path bearer = None"
  shows "\<not> list_ex (path_is_under path) CLIENT_CREDENTIAL_PREFIXES"
    and "meth = ''POST'' \<Longrightarrow> \<not> path_is_under path CLIENT_TOKEN_REFRESH_PATH"
    and "bearer \<or> of_path path = Codex \<Longrightarrow> is_inference_path (of_path path) path"
  using assms by (auto simp: relay_mode_of_def split: if_splits provider.splits)

lemma accepted_host:
  assumes "\<not> misrouted rq" "\<not> host_refused rq" "target_host rq = Some h"
  shows "host_is_loopback h \<or> intercepted_host_provider h = Some (request_provider rq)"
  using assms intercepted_host_provider_cong [of h]
  by (cases "er_tunnel rq") (auto simp: host_refused_def Let_def split: if_splits)

lemma pooled_tunnel:
  assumes "handle_edge cfg profile_of rq = (Pooled p, effects)" "er_tunnel rq = Some t"
  shows "intercepted_host_provider t = Some p" "target_host rq = Some h \<Longrightarrow> eq_ignore_ascii_case h t"
  using pooled_gates(5,9) [OF assms(1)] assms(2) by (auto simp: host_refused_def Let_def split: if_splits option.splits)

text \<open>
  C9. Only a request meant for the pool reaches it. A request that gets a pooled account presented the key
  unless its peer is on this machine; its path means at the upstream what it means here and is none of the
  proxy's own; the host it names, if it names one, is this machine or a host of the very provider whose
  account will serve it; a request out of a tunnel is for the tunnel's host; and no path that belongs to the
  client's own identity, no token exchange, no call a client makes under its own bearer except inference,
  and no Codex request for another workspace is ever served with somebody else's account.
\<close>

theorem pool_serves_only_what_is_meant_for_it:
  assumes "handle_edge cfg profile_of rq = (Pooled p, effects)"
  shows "of_path (er_path rq) = p \<and>
    (client_is_loopback rq \<or> ec_api_key cfg = None \<or> header_text (er_headers rq) ''x-api-key'' = ec_api_key cfg) \<and>
    \<not> path_is_ambiguous (er_path rq) \<and> \<not> path_is_under (er_path rq) LOCAL_PREFIX \<and>
    (\<forall>h. target_host rq = Some h \<longrightarrow> host_is_loopback h \<or> intercepted_host_provider h = Some p) \<and>
    (\<forall>t. er_tunnel rq = Some t \<longrightarrow> intercepted_host_provider t = Some p \<and>
       (\<forall>h. target_host rq = Some h \<longrightarrow> eq_ignore_ascii_case h t)) \<and>
    (\<forall>base\<in>set CLIENT_CREDENTIAL_PREFIXES. \<not> path_is_under (er_path rq) base) \<and>
    (er_method rq = ''POST'' \<longrightarrow> \<not> path_is_under (er_path rq) CLIENT_TOKEN_REFRESH_PATH) \<and>
    (client_bearer_of (er_headers rq) \<noteq> None \<or> p = Codex \<longrightarrow> is_inference_path p (er_path rq)) \<and>
    (p = Codex \<longrightarrow> \<not> names_codex_routing (er_headers rq))"
proof -
  note g = pooled_gates [OF assms] and path = pooled_path [OF pooled_gates(8) [OF assms]]
  have p: "of_path (er_path rq) = p" using g(9) path(1) by simp
  have "client_is_loopback rq \<or> ec_api_key cfg = None \<or> header_text (er_headers rq) ''x-api-key'' = ec_api_key cfg"
    using g(1) by (auto simp: unauthorized_def key_matches_iff split: option.splits)
  moreover have "\<forall>t. er_tunnel rq = Some t \<longrightarrow> intercepted_host_provider t = Some p \<and>
       (\<forall>h. target_host rq = Some h \<longrightarrow> eq_ignore_ascii_case h t)"
    using pooled_tunnel [OF assms] by blast
  moreover have "\<forall>base\<in>set CLIENT_CREDENTIAL_PREFIXES. \<not> path_is_under (er_path rq) base"
    using relay_mode_None(1) [OF path(2)] by (auto simp: list_ex_iff)
  moreover have "\<forall>h. target_host rq = Some h \<longrightarrow> host_is_loopback h \<or> intercepted_host_provider h = Some p"
    using accepted_host [OF g(4,5)] g(9) by blast
  moreover have "er_method rq = ''POST'' \<longrightarrow> \<not> path_is_under (er_path rq) CLIENT_TOKEN_REFRESH_PATH"
    using relay_mode_None(2) [OF path(2)] by blast
  moreover have "client_bearer_of (er_headers rq) \<noteq> None \<or> p = Codex \<longrightarrow> is_inference_path p (er_path rq)"
    using relay_mode_None(3) [OF path(2)] unfolding p by blast
  moreover have "p = Codex \<longrightarrow> \<not> names_codex_routing (er_headers rq)" using path(3) g(9) by simp
  ultimately show ?thesis using p g(2,3) by (intro conjI)
qed

definition plain_request :: edge_request where
  "plain_request = \<lparr>er_method = ''POST'', er_uri_host = None, er_path = ''/v1/messages'',
     er_headers = [(''host'', Readable ''localhost:3456''), (''authorization'', Readable ''Bearer theirs'')],
     er_peer_loopback = Some True, er_tunnel = None, er_tunnel_keyed = False\<rparr>"

definition keyed_config :: edge_config where
  "keyed_config = \<lparr>ec_api_key = Some ''k'', ec_request_key = Some ''rk'', ec_control_mode = Off_Mode, ec_control = None\<rparr>"

theorem pool_serves_only_what_is_meant_for_it_witness:
  "fst (handle_edge keyed_config (\<lambda>_. None) plain_request) = Pooled Anthropic \<and>
   is_inference_path Anthropic (er_path plain_request) \<and> \<not> path_is_under (er_path plain_request) LOCAL_PREFIX"
proof -
  have "fst (handle_edge keyed_config (\<lambda>_. None) plain_request) = Pooled Anthropic" by code_simp
  then have h: "handle_edge keyed_config (\<lambda>_. None) plain_request =
      (Pooled Anthropic, snd (handle_edge keyed_config (\<lambda>_. None) plain_request))" by (simp add: prod_eq_iff)
  have "client_bearer_of (er_headers plain_request) \<noteq> None" by code_simp
  with pool_serves_only_what_is_meant_for_it [OF h] h show ?thesis by (metis fst_conv)
qed

section \<open>A request out of a tunnel\<close>

lemma handle_connect_Terminated:
  assumes "handle_connect request_key n covered tls head = (Terminated host keyed, effects)"
  shows "intercepts_now n host (pc_codex_marked (from_connect_head head request_key))" "leaf_covers covered host"
    "keyed = pc_key_ok (from_connect_head head request_key)"
    "effects = (if request_key \<noteq> None \<and> \<not> keyed
       then [Count_Unkeyed (Unkeyed_Connect (connect_class_of host)) (pc_user_agent (from_connect_head head request_key))] else [])"
  using assms by (auto simp: handle_connect_def Let_def split: option.splits prod.splits if_splits)

lemma stamped_keying:
  "unkeyed_effect cfg (stamped_request (Some t) lo rq) = []"
  by (simp add: unkeyed_effect_def request_keying_of_def stamped_request_def)

text \<open>
  C12. A tunnel the proxy opens decides what comes out of it. Whatever a client sends through one, a request that
  gets a pooled account goes to the provider of the host the tunnel was opened to; a Codex account serves one
  only when the \<open>CONNECT\<close> carried the Codex marker and the pool held a Codex account; and a client without the
  key is counted once, when it connects, and by none of its requests.
\<close>

theorem tunnel_decides_the_provider:
  assumes "handle_connect (ec_request_key cfg) n covered tls head = (Terminated host keyed, at_connect)"
    and "handle_edge cfg profile_of (stamped_request (Some (host, keyed)) lo rq) = (Pooled p, effects)"
  shows "intercepted_host_provider host = Some p \<and> leaf_covers covered host \<and>
    (p = Codex \<longrightarrow> n > 0 \<and> pc_codex_marked (from_connect_head head (ec_request_key cfg))) \<and>
    effects = [] \<and> (at_connect = [] \<longleftrightarrow> ec_request_key cfg = None \<or> keyed)"
proof -
  note c = handle_connect_Terminated [OF assms(1)] and g = pooled_gates [OF assms(2)]
  have host: "intercepted_host_provider host = Some p"
    using pooled_tunnel(1) [OF assms(2)] by (simp add: stamped_request_def)
  have "n > 0 \<and> pc_codex_marked (from_connect_head head (ec_request_key cfg))" if "p = Codex"
  proof -
    have "eq_ignore_ascii_case host CODEX_HOST"
      using host that by (auto simp: intercepted_host_provider_def INTERCEPTED_HOST_PROVIDERS_def eq_ignore_ascii_case_def split: if_splits)
    then show ?thesis using c(1) by (auto simp: intercepts_now_def host_intercepted_def split: if_splits)
  qed
  moreover have "effects = []" using g(10) stamped_keying by simp
  moreover have "at_connect = [] \<longleftrightarrow> ec_request_key cfg = None \<or> keyed" using c(4) by auto
  ultimately show ?thesis using host c(2) by blast
qed

definition codex_head :: string where
  "codex_head = ''CONNECT chatgpt.com:443 HTTP/1.1'' @ [CHR 0x0D, CHR 0x0A] @
     ''Proxy-Authorization: '' @ basic_credential ''Basic'' 0 ''tcr-codex'' ''rk'' @ [CHR 0x0D, CHR 0x0A, CHR 0x0D, CHR 0x0A]"

definition codex_turn :: edge_request where
  "codex_turn = \<lparr>er_method = ''POST'', er_uri_host = None, er_path = ''/backend-api/codex/responses'',
     er_headers = [(''host'', Readable ''ChatGPT.com:443''), (''authorization'', Readable ''Bearer theirs'')],
     er_peer_loopback = None, er_tunnel = None, er_tunnel_keyed = False\<rparr>"

theorem tunnel_decides_the_provider_witness:
  "fst (handle_edge keyed_config (\<lambda>_. None) (stamped_request (Some (''chatgpt.com'', True)) True codex_turn)) = Pooled Codex \<and>
   pc_codex_marked (from_connect_head codex_head (Some ''rk''))"
proof -
  let ?c = "handle_connect (ec_request_key keyed_config) 1 [''CHATGPT.com''] True codex_head"
  let ?e = "handle_edge keyed_config (\<lambda>_. None) (stamped_request (Some (''chatgpt.com'', True)) True codex_turn)"
  have "fst ?c = Terminated ''chatgpt.com'' True" "fst ?e = Pooled Codex" by code_simp+
  then have "?c = (Terminated ''chatgpt.com'' True, snd ?c)" "?e = (Pooled Codex, snd ?e)" by (simp_all add: prod_eq_iff)
  from tunnel_decides_the_provider [OF this] \<open>fst ?e = Pooled Codex\<close> show ?thesis by (simp add: keyed_config_def)
qed

section \<open>The credentials that leave the machine\<close>

lemma attempt_leaks_nothing:
  assumes "h = attempt_headers fs p req token account_id"
  shows "header_values KEY_HEADER h = []" "header_values ''proxy-authorization'' h = []" "header_values ''x-api-key'' h = []"
    "header_values ''authorization'' h = (case fs (''Bearer '' @ token) of Some v \<Rightarrow> [v] | None \<Rightarrow> [])"
    "p = Codex \<Longrightarrow> header_values CODEX_ACCOUNT_HEADER h = (case Option.bind account_id fs of Some v \<Rightarrow> [v] | None \<Rightarrow> [])"
    "p = Codex \<Longrightarrow> \<not> names_codex_routing h"
    "\<not> never_upstream n \<Longrightarrow> p = Anthropic \<or> (n \<noteq> CODEX_ACCOUNT_HEADER \<and> n \<notin> set CODEX_ROUTING_HEADERS) \<Longrightarrow>
      header_values n h = header_values n req"
  unfolding assms
  by (auto simp: attempt_values names_codex_routing_def contains_key_values list_ex_iff never_upstream_def KEY_HEADER_def
      CODEX_ACCOUNT_HEADER_def CODEX_ROUTING_HEADERS_def is_request_hop_by_hop_def)

lemma relay_leaks_nothing:
  assumes "h = relay_headers mode ua req secrets"
  shows "header_values KEY_HEADER h = []" "header_values ''proxy-authorization'' h = []"
    "v \<in> set (header_values ''x-api-key'' h) \<Longrightarrow> \<not> secrets_contain secrets (to_str v)"
    "mode = Client_Credential \<Longrightarrow> header_values ''authorization'' h = header_values ''authorization'' req"
    "mode = Raw \<Longrightarrow> n \<notin> {''content-type'', ''accept'', ''user-agent''} \<Longrightarrow> header_values n h = []"
  unfolding assms
  by (cases mode; simp add: relay_headers_def passthrough_values raw_relay_values KEY_HEADER_def
      is_request_hop_by_hop_def starts_with_def)+

lemma relayed_raw:
  assumes "handle_edge cfg profile_of rq = (Relayed Raw p, effects)"
  shows "er_method rq = ''POST''" "path_is_under (er_path rq) CLIENT_TOKEN_REFRESH_PATH"
  using assms by (auto simp: handle_edge_def Let_def relay_of_def path_relay_def relay_mode_of_def
      split: if_splits option.splits provider.splits)

lemma answered_nowhere:
  "outbound_headers fs cfg m idx ua rq ans = Some h \<Longrightarrow> (\<exists>p. ans = Pooled p) \<or> (\<exists>mode p. ans = Relayed mode p)"
  by (cases ans) (auto simp: outbound_headers_def)

text \<open>
  C10. The credential on a request that leaves is the one its answer at the edge calls for, and no secret of this
  proxy goes with it. No request carries the proxy's key header or a proxy credential, and no \<open>x-api-key\<close> that
  reads as either secret. A pooled request carries, whatever the client sent and however often, exactly the
  bearer of the account that serves it and no \<open>x-api-key\<close>; on Codex it names that account's workspace and no
  routing to another one; its other headers, a cookie among them, are the client's, value by value. A relayed
  request carries the client's own bearer, except a token exchange, which is a \<open>POST\<close> on the refresh path and
  carries no header but its content type, what it accepts and its user agent.
\<close>

theorem outbound_credentials:
  assumes "handle_edge cfg profile_of rq = (ans, effects)"
    and "outbound_headers fs cfg m idx ua rq ans = Some h"
  shows "header_values KEY_HEADER h = [] \<and> header_values ''proxy-authorization'' h = [] \<and>
    (\<forall>v\<in>set (header_values ''x-api-key'' h). \<not> secrets_contain (proxy_secrets_of cfg) (to_str v)) \<and>
    (case ans of
       Pooled p \<Rightarrow> (\<exists>a. get (m_accounts m) idx = Some a \<and>
         header_values ''authorization'' h = (case fs (''Bearer '' @ a_access_token a) of Some v \<Rightarrow> [v] | None \<Rightarrow> []) \<and>
         header_values ''x-api-key'' h = [] \<and>
         (p = Codex \<longrightarrow> \<not> names_codex_routing h \<and> header_values CODEX_ACCOUNT_HEADER h =
            (case Option.bind (if a_org_uuid a \<noteq> None \<and> a_org_uuid a \<noteq> Some [] then a_org_uuid a else a_account_uuid a) fs of
               Some v \<Rightarrow> [v] | None \<Rightarrow> [])) \<and>
         (\<forall>n. \<not> never_upstream n \<and> (p = Anthropic \<or> (n \<noteq> CODEX_ACCOUNT_HEADER \<and> n \<notin> set CODEX_ROUTING_HEADERS)) \<longrightarrow>
            header_values n h = header_values n (er_headers rq)))
     | Relayed Client_Credential _ \<Rightarrow> header_values ''authorization'' h = header_values ''authorization'' (er_headers rq)
     | Relayed Raw _ \<Rightarrow> er_method rq = ''POST'' \<and> path_is_under (er_path rq) CLIENT_TOKEN_REFRESH_PATH \<and>
         (\<forall>n. n \<notin> {''content-type'', ''accept'', ''user-agent''} \<longrightarrow> header_values n h = [])
     | _ \<Rightarrow> False)"
  using answered_nowhere [OF assms(2)]
proof
  assume "\<exists>p. ans = Pooled p"
  then obtain p where ans: "ans = Pooled p" by blast
  obtain a where a: "get (m_accounts m) idx = Some a"
    and h: "h = attempt_headers fs p (er_headers rq) (a_access_token a) (codex_account_id m idx)"
    using assms(2) ans by (auto simp: outbound_headers_def served_headers_def access_token_def split: option.splits)
  have workspace: "codex_account_id m idx =
      (if a_org_uuid a \<noteq> None \<and> a_org_uuid a \<noteq> Some [] then a_org_uuid a else a_account_uuid a)"
    by (cases "a_org_uuid a") (simp_all add: codex_account_id_def a or_else_def filter_opt_def)
  note out = attempt_leaks_nothing [OF h]
  show ?thesis using ans a out(1-6) out(7) by (auto simp: workspace)
next
  assume "\<exists>mode p. ans = Relayed mode p"
  then obtain mode p where ans: "ans = Relayed mode p" by blast
  have h: "h = relay_headers mode ua (er_headers rq) (proxy_secrets_of cfg)"
    using assms(2) ans by (simp add: outbound_headers_def)
  note out = relay_leaks_nothing [OF h]
  show ?thesis using ans out relayed_raw [of cfg profile_of rq p effects] assms(1) by (cases mode) auto
qed

definition codex_seat :: account where
  "codex_seat = (fresh_account ''a'' Codex)\<lparr>a_access_token := ''ours'', a_org_uuid := Some ''o1''\<rparr>"

definition direct_codex_turn :: edge_request where
  "direct_codex_turn = codex_turn\<lparr>er_headers := [(''host'', Readable ''localhost:3456''), (''authorization'', Readable ''Bearer theirs''),
     (''x-api-key'', Readable ''k''), (CODEX_ACCOUNT_HEADER, Readable ''o2''), (''cookie'', Readable ''c'')],
     er_peer_loopback := Some True\<rparr>"

theorem outbound_credentials_witness:
  "\<exists>h. outbound_headers (\<lambda>s. Some (Readable s)) keyed_config (sample_manager [codex_seat]) 0 [] direct_codex_turn (Pooled Codex) = Some h \<and>
     header_values ''authorization'' h = [Readable ''Bearer ours''] \<and> header_values CODEX_ACCOUNT_HEADER h = [Readable ''o1''] \<and>
     header_values ''x-api-key'' h = [] \<and> header_values ''cookie'' h = [Readable ''c'']"
proof -
  let ?e = "handle_edge keyed_config (\<lambda>_. None) direct_codex_turn"
  let ?o = "outbound_headers (\<lambda>s. Some (Readable s)) keyed_config (sample_manager [codex_seat]) 0 [] direct_codex_turn (Pooled Codex)"
  have "fst ?e = Pooled Codex" by code_simp
  then have e: "?e = (Pooled Codex, snd ?e)" by (simp add: prod_eq_iff)
  have seat: "get (m_accounts (sample_manager [codex_seat])) 0 = Some codex_seat" by (simp add: get_def sample_manager_def)
  have row: "a_access_token codex_seat = ''ours''" "a_org_uuid codex_seat = Some ''o1''" by (simp_all add: codex_seat_def)
  obtain h where h: "?o = Some h" by (simp add: outbound_headers_def served_headers_def access_token_def seat)
  have c: "\<not> never_upstream ''cookie'' \<and> ''cookie'' \<noteq> CODEX_ACCOUNT_HEADER \<and> ''cookie'' \<notin> set CODEX_ROUTING_HEADERS"
    by code_simp
  have "header_values ''cookie'' (er_headers direct_codex_turn) = [Readable ''c'']" by code_simp
  with outbound_credentials [OF e h] c show ?thesis
    unfolding h by (simp add: seat row)
qed

end
