(* ===== verification/Url_Path.thy ===== *)
theory Url_Path
  imports Edge
begin

text \<open>
  The path a URL carries. The \<^verbatim>\<open>url\<close> crate is no part of the sources: here is what the URL standard says of
  setting a path and a query on a parsed base, as far as the relay of \<^verbatim>\<open>src/peer/serve.rs\<close> relies on it, and that
  the classifiers of \<^verbatim>\<open>src/proxy.rs\<close> read an escaped path as they read the path itself.
\<close>

section \<open>Setting a path\<close>

text \<open>\<open>make_url\<close> parses the base, sets the path and the query on it, and gives the text of the URL and the path the
  request then carries, or nothing when the base is no URL.\<close>

type_synonym url_maker = "string \<Rightarrow> string \<Rightarrow> string option \<Rightarrow> (string \<times> string) option"

text \<open>A character is kept or written as its percent-escaped byte, and RFC 3986's path characters are kept.\<close>

definition url_char :: "char \<Rightarrow> bool" where
  "url_char c \<longleftrightarrow> is_ascii_alphanumeric c \<or> c \<in> set ''-._~!$&()*+,;=:@%/'' \<or> c = CHR 0x27"

definition upper_hex :: "nat \<Rightarrow> char" where
  "upper_hex d = char_of (if d < 10 then 48 + d else 55 + d)"

definition percent_escaped :: "char \<Rightarrow> string" where
  "percent_escaped c = [CHR ''%'', upper_hex (of_char c div 16), upper_hex (of_char c mod 16)]"

definition escapes_characters :: "(char \<Rightarrow> string) \<Rightarrow> bool" where
  "escapes_characters esc \<longleftrightarrow> (\<forall>c. esc c = [c] \<or> \<not> url_char c \<and> esc c = percent_escaped c)"

text \<open>A rooted path with no dot segment, no backslash and no tab or newline is set character by character, under
  the base; a tab or a newline is dropped before the path is read.\<close>

definition is_tab_or_newline :: "char \<Rightarrow> bool" where
  "is_tab_or_newline c \<longleftrightarrow> of_char c \<in> {9, 10, 13 :: nat}"

definition sets_paths :: "url_maker \<Rightarrow> string \<Rightarrow> (char \<Rightarrow> string) \<Rightarrow> bool" where
  "sets_paths make_url upstream esc \<longleftrightarrow> escapes_characters esc \<and>
     (\<forall>path query. starts_with path ''/'' \<and> \<not> starts_with path ''//'' \<and> \<not> path_is_ambiguous path \<and>
         \<not> list_ex is_tab_or_newline path \<longrightarrow>
       (\<exists>url. make_url upstream path query = Some (url, concat (map esc path)) \<and>
          starts_with url (trim_end_char (CHR ''/'') upstream)))"

definition drops_tabs :: "url_maker \<Rightarrow> bool" where
  "drops_tabs make_url \<longleftrightarrow> (\<forall>upstream path query.
     make_url upstream path query = make_url upstream (filter (\<lambda>c. \<not> is_tab_or_newline c) path) query)"

section \<open>The classifiers on an escaped path\<close>

lemma upper_hex:
  assumes "d < 16"
  shows "upper_hex d \<noteq> CHR ''/''" "upper_hex d \<noteq> CHR 0x5C" "upper_hex d = CHR ''2'' \<longleftrightarrow> d = 2"
    "ascii_lower (upper_hex d) = CHR ''e'' \<longleftrightarrow> d = 14"
proof -
  have "list_all (\<lambda>d. upper_hex d \<noteq> CHR ''/'' \<and> upper_hex d \<noteq> CHR 0x5C \<and> (upper_hex d = CHR ''2'' \<longleftrightarrow> d = 2) \<and>
      (ascii_lower (upper_hex d) = CHR ''e'' \<longleftrightarrow> d = 14)) [0..<16]" by code_simp
  moreover have "d \<in> set [0..<16]" using assms by simp
  ultimately show "upper_hex d \<noteq> CHR ''/''" "upper_hex d \<noteq> CHR 0x5C" "upper_hex d = CHR ''2'' \<longleftrightarrow> d = 2"
    "ascii_lower (upper_hex d) = CHR ''e'' \<longleftrightarrow> d = 14" unfolding list_all_iff by blast+
qed

text \<open>The escape of a character holds no separator and is no dot, unless the character is one.\<close>

lemma percent_escaped_word:
  obtains h l where "percent_escaped c = [CHR ''%'', h, l]" "h \<noteq> CHR ''/''" "l \<noteq> CHR ''/''" "h \<noteq> CHR 0x5C" "l \<noteq> CHR 0x5C"
    "h = CHR ''2'' \<Longrightarrow> ascii_lower l = CHR ''e'' \<Longrightarrow> c = CHR ''.''"
proof -
  have "(of_char c :: nat) < 256" by simp
  then have n: "of_char c div 16 < (16::nat)" "of_char c mod 16 < (16::nat)"
    by (simp_all add: less_mult_imp_div_less)
  have "c = CHR ''.''" if "of_char c div 16 = (2::nat)" "of_char c mod 16 = (14::nat)"
  proof -
    have "(of_char c :: nat) = of_char CHR ''.''" using div_mult_mod_eq [of "of_char c :: nat" 16] that by simp
    then show ?thesis by (simp only: of_char_eq_iff)
  qed
  then show ?thesis using that [OF percent_escaped_def] upper_hex [OF n(1)] upper_hex [OF n(2)] by blast
qed

lemma url_char_plain:
  "url_char CHR ''/''" "url_char CHR ''.''" "url_char CHR ''%''" "url_char CHR ''2''" "url_char CHR ''e''" "url_char CHR ''E''"
  by (code_simp)+

lemma escaped_cases [consumes 1, case_names Kept Escaped]:
  assumes "escapes_characters esc"
  obtains "esc c = [c]"
  | h l where "\<not> url_char c" "esc c = [CHR ''%'', h, l]" "h \<noteq> CHR ''/''" "l \<noteq> CHR ''/''" "h \<noteq> CHR 0x5C" "l \<noteq> CHR 0x5C"
    "\<not> (h = CHR ''2'' \<and> ascii_lower l = CHR ''e'')"
proof (cases "esc c = [c]")
  case False
  then have e: "\<not> url_char c" "esc c = percent_escaped c" using assms by (auto simp: escapes_characters_def)
  show ?thesis
  proof (rule percent_escaped_word [of c])
    fix h l assume "percent_escaped c = [CHR ''%'', h, l]" "h \<noteq> CHR ''/''" "l \<noteq> CHR ''/''" "h \<noteq> CHR 0x5C" "l \<noteq> CHR 0x5C"
      "h = CHR ''2'' \<Longrightarrow> ascii_lower l = CHR ''e'' \<Longrightarrow> c = CHR ''.''"
    then show ?thesis using that(2) [of h l] e url_char_plain(2) by auto
  qed
qed

lemma kept: "escapes_characters esc \<Longrightarrow> url_char c \<Longrightarrow> esc c = [c]"
  by (auto simp: escapes_characters_def)

lemma plain_path_kept: "escapes_characters esc \<Longrightarrow> list_all url_char s \<Longrightarrow> concat (map esc s) = s"
  by (induction s) (simp_all add: kept)

lemma ascii_lower_e: "ascii_lower c = CHR ''e'' \<Longrightarrow> c = CHR ''e'' \<or> c = CHR ''E''"
proof -
  assume a: "ascii_lower c = CHR ''e''"
  show ?thesis
  proof (cases "65 \<le> (of_char c :: nat) \<and> (of_char c :: nat) \<le> 90")
    case True
    then have "char_of (of_char c + 32 :: nat) = CHR ''e''" using a by (simp add: ascii_lower_def Let_def)
    then have "(of_char (char_of (of_char c + 32 :: nat) :: char) :: nat) = 101" by simp
    then have "(of_char c :: nat) = of_char CHR ''E''" using True by (simp add: take_bit_eq_mod)
    then have "c = CHR ''E''" by (simp only: of_char_eq_iff)
    then show ?thesis by blast
  qed (use a in \<open>auto simp: ascii_lower_def Let_def\<close>)
qed

lemma split_on_escaped:
  assumes "escapes_characters esc"
  shows "split_on (CHR ''/'') (concat (map esc s)) = map (\<lambda>w. concat (map esc w)) (split_on (CHR ''/'') s)"
proof (induction s)
  case (Cons c s)
  have ne: "split_on (CHR ''/'') t \<noteq> []" for t by (induction t) (auto split: list.split)
  from ne [of s] obtain w ws where s: "split_on (CHR ''/'') s = w # ws" by (cases "split_on (CHR ''/'') s") auto
  show ?case using assms
  proof (cases rule: escaped_cases [where c = c])
    case Kept
    then show ?thesis using Cons s by auto
  next
    case (Escaped h l)
    then have "c \<noteq> CHR ''/''" using url_char_plain by auto
    then show ?thesis using Cons s Escaped by simp
  qed
qed simp

lemma strip_dot_simps:
  "strip_dot (CHR ''.'' # s) = Some s"
  "c \<noteq> CHR ''.'' \<Longrightarrow> c \<noteq> CHR ''%'' \<Longrightarrow> strip_dot (c # s) = None"
  "strip_dot (CHR ''%'' # x # y # s) = (if x = CHR ''2'' \<and> ascii_lower y = CHR ''e'' then Some s else None)"
  "strip_dot [] = None" "strip_dot [CHR ''%'']= None" "strip_dot [CHR ''%'', x] = None"
  by (auto simp: strip_dot_def strip_prefix_def starts_with_def)

lemma strip_dot_escaped:
  assumes "escapes_characters esc"
  shows "strip_dot (concat (map esc s)) = map_option (\<lambda>w. concat (map esc w)) (strip_dot s)"
proof (cases s)
  case (Cons c t)
  note k = kept [OF assms]
  consider "c = CHR ''.''" | "c = CHR ''%''" | "c \<noteq> CHR ''.''" "c \<noteq> CHR ''%''" by blast
  then show ?thesis
  proof cases
    case 2
    show ?thesis
    proof (cases t)
      case t: (Cons x u)
      show ?thesis
      proof (cases "x = CHR ''2''")
        case two: True
        show ?thesis
        proof (cases u)
          case u: (Cons y v)
          show ?thesis using assms
          proof (cases rule: escaped_cases [where c = y])
            case Kept
            then show ?thesis using 2 Cons t u two k url_char_plain by (simp add: strip_dot_simps)
          next
            case (Escaped h l)
            then have "ascii_lower y \<noteq> CHR ''e''" using ascii_lower_e url_char_plain by blast
            then show ?thesis using 2 Cons t u two k url_char_plain Escaped
              by (simp add: strip_dot_simps ascii_lower_def)
          qed
        qed (use 2 Cons t two k url_char_plain in \<open>simp add: strip_dot_simps\<close>)
      next
        case other: False
        have "strip_dot (CHR ''%'' # esc x @ r) = None" for r using assms
        proof (cases rule: escaped_cases [where c = x])
          case Kept
          then show ?thesis using other by (cases r) (auto simp: strip_dot_simps)
        qed (auto simp: strip_dot_simps)
        moreover have "strip_dot s = None" using 2 Cons t other by (cases u) (auto simp: strip_dot_simps)
        ultimately show ?thesis using 2 Cons t k url_char_plain by simp
      qed
    qed (use 2 Cons k url_char_plain in \<open>simp add: strip_dot_simps\<close>)
  next
    case 3
    show ?thesis using assms
    proof (cases rule: escaped_cases [where c = c])
      case (Escaped h l)
      then show ?thesis using 3 Cons by (simp add: strip_dot_simps)
    qed (use 3 Cons in \<open>simp add: strip_dot_simps\<close>)
  qed (use Cons k url_char_plain in \<open>simp add: strip_dot_simps\<close>)
qed (simp add: strip_dot_simps)

lemma escaped_empty: "escapes_characters esc \<Longrightarrow> concat (map esc s) = [] \<longleftrightarrow> s = []"
  by (cases s) (auto simp: escapes_characters_def percent_escaped_def elim!: allE [where x = "hd s"])

lemma dots_escaped:
  assumes "escapes_characters esc"
  shows "dots_of (concat (map esc s)) n = dots_of s n"
proof (induction s n rule: dots_of.induct)
  case (1 s n)
  show ?case
  proof (cases "strip_dot s")
    case None
    then show ?thesis using escaped_empty [OF assms, of s] strip_dot_escaped [OF assms, of s]
      by (simp add: dots_of.simps [of s] dots_of.simps [of "concat (map esc s)"] del: concat_eq_Nil_conv Nil_eq_concat_conv)
  next
    case (Some t)
    then have "s \<noteq> []" by (auto simp: strip_dot_simps)
    with Some 1 [OF this Some] show ?thesis using escaped_empty [OF assms, of s] strip_dot_escaped [OF assms, of s]
      by (simp add: dots_of.simps [of s] dots_of.simps [of "concat (map esc s)"] del: concat_eq_Nil_conv Nil_eq_concat_conv)
  qed
qed

lemma ambiguous_escaped:
  assumes "escapes_characters esc" "\<not> path_is_ambiguous path"
  shows "\<not> path_is_ambiguous (concat (map esc path))"
proof -
  have keeps: "CHR 0x5C \<notin> set (esc c)" if "c \<noteq> CHR 0x5C" for c
    using assms(1)
  proof (cases rule: escaped_cases [where c = c])
    case Kept
    then show ?thesis using that by simp
  qed simp
  have "CHR 0x5C \<notin> set path" using assms(2) unfolding path_is_ambiguous_def by blast
  then have "\<forall>c\<in>set path. CHR 0x5C \<notin> set (esc c)" using keeps by metis
  then have "CHR 0x5C \<notin> set (concat (map esc path))" by simp
  moreover have "\<not> list_ex is_dot_segment (split_on (CHR ''/'') (concat (map esc path)))"
    using assms(2) by (simp add: path_is_ambiguous_def split_on_escaped [OF assms(1)] is_dot_segment_def
      dots_escaped [OF assms(1)] list_ex_iff del: dots_of.simps)
  ultimately show ?thesis unfolding path_is_ambiguous_def by blast
qed

text \<open>A prefix of plain characters is one of the path itself.\<close>

lemma escaped_prefix:
  assumes "escapes_characters esc"
  shows "list_all (\<lambda>c. url_char c \<and> c \<noteq> CHR ''%'') b \<Longrightarrow> concat (map esc p) = b @ r \<Longrightarrow>
    \<exists>q. p = b @ q \<and> r = concat (map esc q)"
proof (induction b arbitrary: p)
  case (Cons x b)
  then obtain c q where p: "p = c # q" by (cases p) auto
  show ?case using assms
  proof (cases rule: escaped_cases [where c = c])
    case Kept
    then show ?thesis using Cons p by auto
  qed (use Cons p in auto)
qed simp

lemma under_escaped:
  assumes "escapes_characters esc" "list_all (\<lambda>c. url_char c \<and> c \<noteq> CHR ''%'') b" "path_is_under (concat (map esc p)) b"
  shows "path_is_under p b"
proof -
  obtain r where r: "concat (map esc p) = b @ r" "r = [] \<or> starts_with r ''/''"
    using assms(3) by (auto simp: path_is_under_def strip_prefix_def starts_with_def split: if_splits)
      (metis append_take_drop_id)+
  obtain q where q: "p = b @ q" "r = concat (map esc q)" using escaped_prefix [OF assms(1,2) r(1)] by blast
  have "q = [] \<or> starts_with q ''/''"
  proof (cases q)
    case (Cons c t)
    show ?thesis using assms(1)
    proof (cases rule: escaped_cases [where c = c])
      case Kept
      then show ?thesis using Cons q r(2) by (simp add: starts_with_def)
    next
      case (Escaped h l)
      then show ?thesis using Cons q r(2) by (simp add: starts_with_def)
    qed
  qed simp
  then show ?thesis by (simp add: path_is_under_def q(1))
qed

lemma of_path_escaped:
  assumes "escapes_characters esc" "of_path p = Anthropic"
  shows "of_path (concat (map esc p)) = Anthropic"
proof (rule ccontr)
  have plain: "list_all (\<lambda>c. url_char c \<and> c \<noteq> CHR ''%'') CODEX_PATH_PREFIX"
    "list_all (\<lambda>c. url_char c \<and> c \<noteq> CHR ''%'') ''/backend-api/''" by code_simp+
  assume "\<not> ?thesis"
  then have "concat (map esc p) = CODEX_PATH_PREFIX @ [] \<or> (\<exists>r. concat (map esc p) = ''/backend-api/'' @ r)"
    using append_take_drop_id [of "length ''/backend-api/''" "concat (map esc p)"]
    by (simp only: of_path_def starts_with_def) (metis append_Nil2)
  then have "p = CODEX_PATH_PREFIX \<or> (\<exists>q. p = ''/backend-api/'' @ q)"
  proof (elim disjE exE)
    assume "concat (map esc p) = CODEX_PATH_PREFIX @ []"
    then obtain q where "p = CODEX_PATH_PREFIX @ q" "[] = concat (map esc q)"
      using escaped_prefix [OF assms(1) plain(1)] by blast
    then show ?thesis using escaped_empty [OF assms(1)] by simp
  qed (use escaped_prefix [OF assms(1) plain(2)] in blast)
  then show False using assms(2) by (auto simp: of_path_def starts_with_def split: if_splits)
qed

end
