(* ===== verification/Serve.thy ===== *)
theory Serve
  imports Edge Lease_Scope Url_Path
begin

text \<open>
  A request between two machines (\<^verbatim>\<open>src/peer/serve.rs\<close>, \<^verbatim>\<open>src/fallback.rs\<close>, \<^verbatim>\<open>src/proxy.rs\<close>): what a
  borrower may ask for and the frame it sends, the gates of the lender that receives it, and the request the
  lender makes of it through its own proxy.
\<close>

section \<open>Paths\<close>

definition relay_path_is_routable :: "string \<Rightarrow> bool" where
  "relay_path_is_routable path =
     (if \<not> starts_with path ''/'' then False
      else let lowered = to_ascii_lowercase path in
        if contains_str lowered ''%2f'' \<or> contains_str lowered ''%5c'' then False
        else if starts_with path ''//'' then False
        else \<not> path_is_ambiguous path)"

definition serve_is_allowed_for_path :: "string \<Rightarrow> bool" where
  "serve_is_allowed_for_path path =
     (if \<not> relay_path_is_routable path then False
      else if \<not> on_peer_mesh (of_path path) then False
      else if list_ex (path_is_under path) CLIENT_CREDENTIAL_PREFIXES then False
      else if path_is_under path LOCAL_PREFIX then False
      else \<not> path_is_under path CLIENT_TOKEN_REFRESH_PATH)"

section \<open>The borrower\<close>

record ask =
  ak_path :: string
  ak_query :: "string option"
  ak_method :: string
  ak_body_bytes :: int
  ak_headers :: header_map

definition scrubbed :: "header_map \<Rightarrow> header_map" where
  "scrubbed h = snd (scrub_client_credentials h)"

text \<open>The ask \<open>handle\<close> makes when no local account could serve.\<close>

definition fallback_ask :: "string option \<Rightarrow> edge_request \<Rightarrow> int \<Rightarrow> ask option" where
  "fallback_ask query rq body_bytes =
     (if er_method rq = ''POST'' \<and> serve_is_allowed_for_path (er_path rq) \<and> \<not> contains_key (er_headers rq) RELAYED_HEADER_NAME
      then Some \<lparr>ak_path = er_path rq, ak_query = query, ak_method = er_method rq, ak_body_bytes = body_bytes,
                 ak_headers = scrubbed (er_headers rq)\<rparr>
      else None)"

record serve_request =
  sv_lease_id :: u128
  sv_request_id :: u128
  sv_method :: string
  sv_path :: string
  sv_query :: "string option"
  sv_headers :: "(string \<times> string) list"
  sv_body_bytes :: int
  sv_proto :: int
  sv_flow :: int

definition SERVE_METHOD :: string where "SERVE_METHOD = ''POST''"
definition SERVE_FLOW :: int where "SERVE_FLOW = 2"
definition MESH_PROTO_VERSION :: int where "MESH_PROTO_VERSION = 1"
definition MAX_RELAYED_BODY_BYTES :: int where "MAX_RELAYED_BODY_BYTES = 32 * 1024 * 1024"

datatype serve_error = Path_Refused | Method_Refused | Body_Too_Large | Not_Pinned | No_Inspect | Wrong_Proto | Wrong_Flow | Ids_Differ

definition serve_request_from :: "ask \<Rightarrow> header_map \<Rightarrow> u128 \<Rightarrow> u128 \<Rightarrow> serve_error + serve_request" where
  "serve_request_from a h lease_id request_id =
     (if \<not> serve_is_allowed_for_path (ak_path a) then Inl Path_Refused
      else if \<not> eq_ignore_ascii_case (ak_method a) SERVE_METHOD then Inl Method_Refused
      else if ak_body_bytes a > MAX_RELAYED_BODY_BYTES then Inl Body_Too_Large
      else Inr \<lparr>sv_lease_id = lease_id, sv_request_id = request_id, sv_method = ak_method a, sv_path = ak_path a, sv_query = ak_query a,
         sv_headers = List.map_filter (\<lambda>(n, v). map_option (Pair n) (to_str v))
           (filter (\<lambda>(n, _). lender_forwards_header n) (scrubbed h)),
         sv_body_bytes = ak_body_bytes a, sv_proto = MESH_PROTO_VERSION, sv_flow = SERVE_FLOW\<rparr>)"

section \<open>The lender\<close>

definition handle_serve :: "peer_row option \<Rightarrow> serve_error option" where
  "handle_serve row =
     (case row of None \<Rightarrow> Some Not_Pinned | Some r \<Rightarrow> if \<not> pr_inspect r then Some No_Inspect else None)"

datatype serve_outcome = Closed serve_error | Refused lease_refusal | Accepted scope_restriction

text \<open>\<open>handle_serve_on\<close> up to the body: the gates on the frame, then those of the lease.\<close>

definition handle_serve_on ::
  "(odt \<Rightarrow> int option) \<Rightarrow> peer_id \<Rightarrow> peer_row option \<Rightarrow> fleet \<Rightarrow> u128 \<Rightarrow> i64 \<Rightarrow> odt \<Rightarrow> serve_request \<Rightarrow> ledger
     \<Rightarrow> serve_outcome \<times> ledger" where
  "handle_serve_on local_offset_at peer row fl header_request_id now_ms now f d =
     (case handle_serve row of
        Some e \<Rightarrow> (Closed e, d)
      | None \<Rightarrow>
          if sv_proto f \<noteq> MESH_PROTO_VERSION then (Closed Wrong_Proto, d)
          else if sv_flow f \<noteq> SERVE_FLOW then (Closed Wrong_Flow, d)
          else if \<not> serve_is_allowed_for_path (sv_path f) then (Closed Path_Refused, d)
          else if \<not> eq_ignore_ascii_case (sv_method f) SERVE_METHOD then (Closed Method_Refused, d)
          else if sv_request_id f \<noteq> header_request_id then (Closed Ids_Differ, d)
          else case serve_admission local_offset_at peer row fl (sv_lease_id f) (sv_request_id f) now_ms now d of
            (Inl refusal, d) \<Rightarrow> (Refused refusal, d)
          | (Inr restriction, d) \<Rightarrow> (Accepted restriction, d))"

text \<open>The headers \<open>serve_on_own_account\<close> puts on its request, whose values the HTTP client makes (\<open>mk\<close>). It
  adds \<open>host\<close>, which is the machine's own proxy, and the framing.\<close>

definition optional_header :: "(string \<Rightarrow> header_value) \<Rightarrow> string \<Rightarrow> string option \<Rightarrow> header_map" where
  "optional_header mk name v = (case v of Some s \<Rightarrow> [(name, mk s)] | None \<Rightarrow> [])"

definition own_request_headers ::
  "(string \<Rightarrow> header_value) \<Rightarrow> (string \<times> string) list \<Rightarrow> scope_restriction \<Rightarrow> string option \<Rightarrow> header_map" where
  "own_request_headers mk hs restriction request_key =
     [(RELAYED_HEADER_NAME, Readable ''1'')] @
     map (\<lambda>(n, v). (to_ascii_lowercase n, mk v))
       (filter (\<lambda>(n, _). \<not> eq_ignore_ascii_case n ACCOUNTS_HEADER_NAME)
         (filter (\<lambda>(n, _). \<not> eq_ignore_ascii_case n GROUP_HEADER_NAME)
           (filter (\<lambda>(n, _). lender_forwards_header n) hs))) @
     optional_header mk GROUP_HEADER_NAME (fst (selection_headers restriction)) @
     optional_header mk ACCOUNTS_HEADER_NAME (snd (selection_headers restriction)) @
     optional_header mk KEY_HEADER request_key"

text \<open>The URL is built by the \<^verbatim>\<open>url\<close> crate (a parameter); one that is not under the machine's own base is
  refused.\<close>

definition own_request :: "url_maker \<Rightarrow> string \<Rightarrow> header_map \<Rightarrow> string \<Rightarrow> string option \<Rightarrow> header_map \<Rightarrow> edge_request option" where
  "own_request make_url upstream client_headers path query hs =
     (case make_url upstream path query of
        None \<Rightarrow> None
      | Some (url, wire_path) \<Rightarrow>
          if \<not> starts_with url (trim_end_char (CHR ''/'') upstream) then None
          else Some \<lparr>er_method = ''POST'', er_uri_host = None, er_path = wire_path, er_headers = hs @ client_headers,
            er_peer_loopback = Some True, er_tunnel = None, er_tunnel_keyed = False\<rparr>)"

text \<open>The group \<open>handle\<close> reads off a request.\<close>

definition request_group_of :: "header_map \<Rightarrow> string option" where
  "request_group_of h = filter_opt (\<lambda>g. g \<noteq> []) (header_text h GROUP_HEADER_NAME)"

section \<open>Lemmas\<close>

text \<open>A group whose name is not visible ASCII is not read at all, and its request is not restricted.\<close>

lemma opaque_group_is_ignored: "request_group_of ((GROUP_HEADER_NAME, Opaque g) # h) = None"
  by (simp add: request_group_of_def header_text_def header_get_def filter_opt_def)

lemma frame_names:
  "(n, v) \<in> set (sv_headers f) \<Longrightarrow> serve_request_from a h lease_id request_id = Inr f \<Longrightarrow>
    to_ascii_lowercase n \<in> set LENDER_FORWARDED_HEADERS \<and> n \<notin> set CLIENT_CREDENTIAL_HEADERS \<and>
    \<not> is_request_hop_by_hop n \<and> (n, Readable v) \<in> set h"
proof -
  assume nv: "(n, v) \<in> set (sv_headers f)" and f: "serve_request_from a h lease_id request_id = Inr f"
  have "(n, v) \<in> set (List.map_filter (\<lambda>(n, v). map_option (Pair n) (to_str v)) g) \<Longrightarrow> (n, Readable v) \<in> set g" for g
    by (induction g) (auto simp: List.map_filter_simps split: option.splits elim: to_str.elims)
  moreover have "sv_headers f = List.map_filter (\<lambda>(n, v). map_option (Pair n) (to_str v))
      (filter (\<lambda>(n, _). lender_forwards_header n) (scrubbed h))"
    using f by (auto simp: serve_request_from_def split: if_splits)
  ultimately have "(n, Readable v) \<in> set (filter (\<lambda>(n, _). lender_forwards_header n) (scrubbed h))" using nv by metis
  then show ?thesis using lender_forwards_no_credential by (auto simp: scrubbed_def scrubbed_headers)
qed

lemma frame_fields:
  "serve_request_from a h lease_id request_id = Inr f \<Longrightarrow>
    serve_is_allowed_for_path (sv_path f) \<and> eq_ignore_ascii_case (sv_method f) SERVE_METHOD \<and>
    sv_proto f = MESH_PROTO_VERSION \<and> sv_flow f = SERVE_FLOW \<and> sv_request_id f = request_id \<and>
    sv_lease_id f = lease_id \<and> sv_path f = ak_path a \<and> sv_query f = ak_query a"
  by (auto simp: serve_request_from_def split: if_splits)

text \<open>
  C11. What a borrower sends another machine carries none of its client's credentials, whatever the client put on
  its request: every header of the frame is one of the five a lender forwards, no credential and no
  hop-by-hop name, with the client's own readable value. And a frame a build makes is one it would serve:
  the peer that lends never closes on it, but grants it or refuses it under the lease.
\<close>

theorem frame_carries_no_credential:
  assumes "fallback_ask query rq body_bytes = Some a"
    and "serve_request_from a (ak_headers a) lease_id request_id = Inr f"
    and "row = Some r" "pr_inspect r"
  shows "(\<forall>(n, v)\<in>set (sv_headers f). to_ascii_lowercase n \<in> set LENDER_FORWARDED_HEADERS \<and>
      n \<notin> set CLIENT_CREDENTIAL_HEADERS \<and> \<not> is_request_hop_by_hop n \<and> (n, Readable v) \<in> set (er_headers rq)) \<and>
    sv_path f = er_path rq \<and> sv_query f = query \<and>
    (\<forall>e. fst (handle_serve_on local_offset_at peer row fl request_id now_ms now f d) \<noteq> Closed e)"
proof -
  have a: "ak_headers a = scrubbed (er_headers rq)" "ak_path a = er_path rq" "ak_query a = query"
    using assms(1) by (auto simp: fallback_ask_def split: if_splits)
  have "set (ak_headers a) \<subseteq> set (er_headers rq)" by (auto simp: a scrubbed_def scrubbed_headers)
  then have "\<forall>(n, v)\<in>set (sv_headers f). to_ascii_lowercase n \<in> set LENDER_FORWARDED_HEADERS \<and>
      n \<notin> set CLIENT_CREDENTIAL_HEADERS \<and> \<not> is_request_hop_by_hop n \<and> (n, Readable v) \<in> set (er_headers rq)"
    using frame_names [OF _ assms(2)] by blast
  moreover have "fst (handle_serve_on local_offset_at peer row fl request_id now_ms now f d) \<noteq> Closed e" for e
    using frame_fields [OF assms(2)] assms(3,4)
    by (auto simp: handle_serve_on_def handle_serve_def split: prod.splits sum.splits)
  ultimately show ?thesis using frame_fields [OF assms(2)] a by simp
qed

lemma own_values:
  assumes "n \<notin> set LENDER_FORWARDED_HEADERS"
  shows "header_values n (own_request_headers mk hs r key) =
    header_values n ([(RELAYED_HEADER_NAME, Readable ''1'')] @ optional_header mk GROUP_HEADER_NAME (fst (selection_headers r)) @
      optional_header mk ACCOUNTS_HEADER_NAME (snd (selection_headers r)) @ optional_header mk KEY_HEADER key)"
proof -
  have "header_values n (map (\<lambda>(n, v). (to_ascii_lowercase n, mk v))
       (filter (\<lambda>(n, _). \<not> eq_ignore_ascii_case n ACCOUNTS_HEADER_NAME)
         (filter (\<lambda>(n, _). \<not> eq_ignore_ascii_case n GROUP_HEADER_NAME)
           (filter (\<lambda>(n, _). lender_forwards_header n) hs)))) = []"
    using assms by (auto simp: header_values_def filter_empty_conv dest!: lender_forwards_no_credential)
  then show ?thesis by (simp add: own_request_headers_def)
qed

definition dry_client :: edge_request where
  "dry_client = \<lparr>er_method = ''POST'', er_uri_host = None, er_path = ''/v1/messages'',
     er_headers = [(''authorization'', Readable ''Bearer theirs''), (''cookie'', Readable ''c''), (''accept'', Readable ''text/event-stream'')],
     er_peer_loopback = Some True, er_tunnel = None, er_tunnel_keyed = False\<rparr>"

theorem frame_carries_no_credential_witness:
  "\<exists>f. serve_request_from (the (fallback_ask None dry_client 10)) (ak_headers (the (fallback_ask None dry_client 10))) 5 1 = Inr f \<and>
     sv_headers f = [(''accept'', ''text/event-stream'')] \<and>
     list_all (\<lambda>(n, v). n \<notin> set CLIENT_CREDENTIAL_HEADERS) (sv_headers f)"
proof -
  have ask: "fallback_ask None dry_client 10 = Some (the (fallback_ask None dry_client 10))" by code_simp
  define f where "f = projr (serve_request_from (the (fallback_ask None dry_client 10)) (ak_headers (the (fallback_ask None dry_client 10))) 5 1)"
  have "isl (serve_request_from (the (fallback_ask None dry_client 10)) (ak_headers (the (fallback_ask None dry_client 10))) 5 1) = False"
    by code_simp
  then have f: "serve_request_from (the (fallback_ask None dry_client 10)) (ak_headers (the (fallback_ask None dry_client 10))) 5 1 = Inr f"
    by (simp add: f_def)
  have "sv_headers f = [(''accept'', ''text/event-stream'')]" unfolding f_def by code_simp
  with frame_carries_no_credential [OF ask f refl, of "\<lparr>pr_inspect = True, pr_lend = []\<rparr>"] f
  show ?thesis by (auto simp: list_all_iff)
qed

section \<open>The lender serves what it was asked\<close>

lemma not_forwarded:
  "RELAYED_HEADER_NAME \<notin> set LENDER_FORWARDED_HEADERS" "GROUP_HEADER_NAME \<notin> set LENDER_FORWARDED_HEADERS"
  "ACCOUNTS_HEADER_NAME \<notin> set LENDER_FORWARDED_HEADERS" "KEY_HEADER \<notin> set LENDER_FORWARDED_HEADERS"
  "''authorization'' \<notin> set LENDER_FORWARDED_HEADERS" "''host'' \<notin> set LENDER_FORWARDED_HEADERS"
  by (simp_all add: LENDER_FORWARDED_HEADERS_def RELAYED_HEADER_NAME_def GROUP_HEADER_NAME_def ACCOUNTS_HEADER_NAME_def KEY_HEADER_def)

lemma names_differ:
  "distinct [RELAYED_HEADER_NAME, GROUP_HEADER_NAME, ACCOUNTS_HEADER_NAME, KEY_HEADER, ''authorization'', ''host'']"
  by (simp add: RELAYED_HEADER_NAME_def GROUP_HEADER_NAME_def ACCOUNTS_HEADER_NAME_def KEY_HEADER_def)

lemma header_text_values: "header_text h n = (case header_values n h of [] \<Rightarrow> None | v # _ \<Rightarrow> to_str v)"
  by (simp add: header_text_def header_get_values split: list.split)

lemma values_optional [simp]:
  "header_values n (optional_header mk m v) = (if n = m then (case v of Some s \<Rightarrow> [mk s] | None \<Rightarrow> []) else [])"
  by (auto simp: optional_header_def split: option.splits)

lemma header_values_in: "header_values n h = [v] \<Longrightarrow> (n, v) \<in> set h"
  by (auto simp: header_values_def map_eq_Cons_conv filter_eq_Cons_iff)

text \<open>What the lender's own proxy reads off the request.\<close>

lemma own_texts:
  fixes mk hs r key
  defines "h \<equiv> own_request_headers mk hs r key"
  assumes mk: "\<And>s. Some s \<in> {fst (selection_headers r), snd (selection_headers r), key} \<Longrightarrow> mk s = Readable s"
    and c: "fst ` set client \<subseteq> {''host'', ''accept'', ''content-length''}"
  shows "contains_key (h @ client) RELAYED_HEADER_NAME"
    and "header_text (h @ client) GROUP_HEADER_NAME = fst (selection_headers r)"
    and "header_text (h @ client) ACCOUNTS_HEADER_NAME = snd (selection_headers r)"
    and "header_values KEY_HEADER (h @ client) = (case key of Some k \<Rightarrow> [Readable k] | None \<Rightarrow> [])"
    and "header_text (h @ client) ''authorization'' = None"
    and "header_text (h @ client) ''host'' = header_text client ''host''"
proof -
  have none: "header_values n client = []" if "n \<notin> {''host'', ''accept'', ''content-length''}" for n
    using c that by (auto simp: header_values_def filter_empty_conv)
  have c: "header_values RELAYED_HEADER_NAME client = []" "header_values GROUP_HEADER_NAME client = []"
    "header_values ACCOUNTS_HEADER_NAME client = []" "header_values KEY_HEADER client = []"
    "header_values ''authorization'' client = []"
    by (rule none, simp add: RELAYED_HEADER_NAME_def GROUP_HEADER_NAME_def ACCOUNTS_HEADER_NAME_def KEY_HEADER_def)+
  note v = own_values [OF not_forwarded(1), of mk hs r key] own_values [OF not_forwarded(2), of mk hs r key]
    own_values [OF not_forwarded(3), of mk hs r key] own_values [OF not_forwarded(4), of mk hs r key]
    own_values [OF not_forwarded(5), of mk hs r key] own_values [OF not_forwarded(6), of mk hs r key]
  note d = names_differ [simplified]
  show "contains_key (h @ client) RELAYED_HEADER_NAME" using d by (simp add: contains_key_values h_def v c)
  show "header_text (h @ client) GROUP_HEADER_NAME = fst (selection_headers r)"
    using d mk by (cases "fst (selection_headers r)") (auto simp: header_text_values h_def v c)
  show "header_text (h @ client) ACCOUNTS_HEADER_NAME = snd (selection_headers r)"
    using d mk by (cases "snd (selection_headers r)") (auto simp: header_text_values h_def v c)
  show "header_values KEY_HEADER (h @ client) = (case key of Some k \<Rightarrow> [Readable k] | None \<Rightarrow> [])"
    using d mk by (auto simp: h_def v c split: option.splits)
  show "header_text (h @ client) ''authorization'' = None" using d by (auto simp: header_text_values h_def v c)
  show "header_text (h @ client) ''host'' = header_text client ''host''" using d by (auto simp: header_text_values h_def v)
qed

lemma handle_serve_on_Accepted:
  assumes "handle_serve_on local_offset_at peer row fl hid now_ms now f d = (Accepted r, d')"
  shows "serve_is_allowed_for_path (sv_path f)" "eq_ignore_ascii_case (sv_method f) SERVE_METHOD"
  using assms by (auto simp: handle_serve_on_def split: option.splits if_splits prod.splits sum.splits)

lemma served_path_is_pooled:
  assumes "serve_is_allowed_for_path path"
  shows "\<not> path_is_ambiguous path" "of_path path = Anthropic" "\<not> path_is_under path LOCAL_PREFIX"
    "relay_mode_of meth path False = None"
proof -
  show "\<not> path_is_ambiguous path" "\<not> path_is_under path LOCAL_PREFIX"
    using assms by (auto simp: serve_is_allowed_for_path_def relay_path_is_routable_def Let_def split: if_splits)
  show p: "of_path path = Anthropic"
    using assms by (cases "of_path path") (auto simp: serve_is_allowed_for_path_def split: if_splits)
  show "relay_mode_of meth path False = None"
    using assms p by (auto simp: serve_is_allowed_for_path_def relay_mode_of_def split: if_splits)
qed

lemma served_path_on_the_wire:
  assumes esc: "escapes_characters esc" and "serve_is_allowed_for_path path"
  defines "wire \<equiv> concat (map esc path)"
  shows "\<not> path_is_ambiguous wire" "of_path wire = Anthropic" "\<not> path_is_under wire LOCAL_PREFIX"
    "relay_mode_of meth wire False = None"
proof -
  have plain: "list_all (list_all (\<lambda>c. url_char c \<and> c \<noteq> CHR ''%''))
      (LOCAL_PREFIX # CLIENT_TOKEN_REFRESH_PATH # CLIENT_CREDENTIAL_PREFIXES)" by code_simp
  have u: "path_is_under path b"
    if "path_is_under wire b" "b \<in> set (LOCAL_PREFIX # CLIENT_TOKEN_REFRESH_PATH # CLIENT_CREDENTIAL_PREFIXES)" for b
    using under_escaped [OF esc _ that(1) [unfolded wire_def]] plain that(2) by (auto simp: list_all_iff)
  note p = served_path_is_pooled [OF assms(2)]
  have s: "\<not> list_ex (path_is_under path) CLIENT_CREDENTIAL_PREFIXES" "\<not> path_is_under path CLIENT_TOKEN_REFRESH_PATH"
    using assms(2) by (auto simp: serve_is_allowed_for_path_def split: if_splits)
  show "\<not> path_is_ambiguous wire" unfolding wire_def by (rule ambiguous_escaped [OF esc p(1)])
  show a: "of_path wire = Anthropic" unfolding wire_def by (rule of_path_escaped [OF esc p(2)])
  show "\<not> path_is_under wire LOCAL_PREFIX" using u p(3) by auto
  show "relay_mode_of meth wire False = None" using u s a by (auto simp: relay_mode_of_def list_ex_iff)
qed

text \<open>
  C30. A request a lender accepts arrives at its own pool as it was lent. Whatever headers, query and method the
  borrower put in its frame, and whatever path that holds no tab or newline, the request the lender makes of it
  through its own proxy carries that path, escaped as URLs are, and the lender's own headers; it passes every gate
  there and is served by a pooled Anthropic account: it is never one of the proxy's own endpoints, never
  relayed under a client's credential, never a token exchange. The proxy reads off it the scope the lender
  wrote and nothing the borrower did, counts it as keyed, and never lends it on. The hypotheses are what the URL
  standard says of setting a path, that the machine's own values are readable header text, that the HTTP
  client adds no more than the names given and addresses this machine, and that a configured key is not empty or
  padded. A path with a tab is another matter (\<open>tab_path_reaches_an_endpoint\<close>).
\<close>

theorem lent_request_reaches_the_pool:
  assumes "handle_serve_on local_offset_at peer row fl hid now_ms now f d = (Accepted r, d')"
    and "\<And>s. Some s \<in> {fst (selection_headers r), snd (selection_headers r), ec_request_key cfg} \<Longrightarrow> mk s = Readable s"
    and "fst ` set client \<subseteq> {''host'', ''accept'', ''content-length''}"
    and "header_text client ''host'' = Some authority" "host_is_loopback (strip_port authority)"
    and "\<And>k. ec_request_key cfg = Some k \<Longrightarrow> k \<noteq> [] \<and> trim k = k"
    and "sets_paths make_url upstream esc" "\<not> list_ex is_tab_or_newline (sv_path f)"
  shows "\<exists>rq. own_request make_url upstream client (sv_path f) (sv_query f)
        (own_request_headers mk (sv_headers f) r (ec_request_key cfg)) = Some rq \<and>
      er_path rq = concat (map esc (sv_path f)) \<and>
      handle_edge cfg profile_of rq = (Pooled Anthropic, []) \<and>
      request_group_of (er_headers rq) = filter_opt (\<lambda>g. g \<noteq> []) (fst (selection_headers r)) \<and>
      header_text (er_headers rq) ACCOUNTS_HEADER_NAME = snd (selection_headers r) \<and>
      contains_key (er_headers rq) RELAYED_HEADER_NAME \<and> fallback_ask query rq body_bytes = None"
proof -
  let ?path = "concat (map esc (sv_path f))"
    and ?h = "own_request_headers mk (sv_headers f) r (ec_request_key cfg)"
  define rq where "rq = \<lparr>er_method = ''POST'', er_uri_host = None, er_path = ?path, er_headers = ?h @ client,
    er_peer_loopback = Some True, er_tunnel = None, er_tunnel_keyed = False\<rparr>"
  have esc: "escapes_characters esc" using assms(7) by (simp add: sets_paths_def)
  note t = own_texts [where hs = "sv_headers f" and r = r and key = "ec_request_key cfg", OF assms(2,3)]
    and allowed = handle_serve_on_Accepted(1) [OF assms(1)]
  note p = served_path_on_the_wire [OF esc allowed]
  have "starts_with (sv_path f) ''/''" "\<not> starts_with (sv_path f) ''//''" "\<not> path_is_ambiguous (sv_path f)"
    using allowed by (auto simp: serve_is_allowed_for_path_def relay_path_is_routable_def Let_def split: if_splits)
  then obtain url where "make_url upstream (sv_path f) (sv_query f) = Some (url, ?path)"
      "starts_with url (trim_end_char (CHR ''/'') upstream)"
    using assms(7,8) unfolding sets_paths_def by blast
  then have own: "own_request make_url upstream client (sv_path f) (sv_query f) ?h = Some rq"
    by (simp add: own_request_def rq_def)
  have target: "target_host rq = Some (strip_port authority)"
    using t(6) assms(4) by (simp add: target_host_def rq_def or_else_def)
  have bearer: "client_bearer_of (er_headers rq) = None" using t(5) by (simp add: rq_def client_bearer_of_def)
  have prov: "request_provider rq = Anthropic" using p(2) by (simp add: request_provider_def rq_def)
  have "unkeyed_effect cfg rq = []"
  proof (cases "ec_request_key cfg")
    case (Some k)
    then have "header_values KEY_HEADER (er_headers rq) = [Readable k]" using t(4) by (simp add: rq_def)
    then have "(KEY_HEADER, Readable k) \<in> set (er_headers rq)" by (rule header_values_in)
    moreover have "presents k KEY_HEADER (trim k)"
      using assms(6) [OF Some] by (simp add: presents_def KEY_HEADER_def eq_ignore_ascii_case_def to_ascii_lowercase_def ascii_lower_def)
    ultimately have "pc_key_ok (from_request_headers (er_headers rq) (Some k))"
      using assms(6) [OF Some] unfolding keyed_iff_presented by blast
    then show ?thesis by (simp add: unkeyed_effect_def request_keying_of_def Some Let_def)
  qed (simp add: unkeyed_effect_def request_keying_of_def)
  moreover have "\<not> unauthorized cfg rq"
    by (auto simp: unauthorized_def client_is_loopback_def rq_def split: option.splits)
  moreover have "\<not> misrouted rq" "\<not> host_refused rq"
    using target assms(5) by (simp_all add: misrouted_def host_refused_def) (simp_all add: rq_def)
  moreover have "\<not> wants_upgrade rq" "\<not> foreign_client cfg profile_of rq"
    using prov bearer by (simp_all add: wants_upgrade_def foreign_client_def)
  moreover have "relay_of rq = None"
    using p(2,4) bearer prov by (simp add: relay_of_def path_relay_def codex_passthrough_def) (simp add: rq_def)
  ultimately have "handle_edge cfg profile_of rq = (Pooled Anthropic, [])"
    using p(1,3) prov by (simp add: handle_edge_def rq_def)
  moreover have "fallback_ask query rq body_bytes = None" using t(1) by (simp add: fallback_ask_def rq_def)
  ultimately show ?thesis using own t(1-3) by (intro exI [of _ rq]) (simp add: request_group_of_def rq_def)
qed

definition sly_frame :: serve_request where
  "sly_frame = \<lparr>sv_lease_id = 5, sv_request_id = 1, sv_method = ''post'', sv_path = ''/v1/messages'', sv_query = Some ''beta=true'',
     sv_headers = [(''X-Tcr-Group'', ''mine''), (''Authorization'', ''Bearer theirs''), (''Accept'', ''text/event-stream'')],
     sv_body_bytes = 10, sv_proto = MESH_PROTO_VERSION, sv_flow = SERVE_FLOW\<rparr>"

definition lender_config :: edge_config where
  "lender_config = \<lparr>ec_api_key = Some ''k'', ec_request_key = Some ''rk'', ec_control_mode = Refuse_Mode, ec_control = None\<rparr>"

definition sly_relay :: "serve_outcome \<times> ledger" where
  "sly_relay = handle_serve_on (\<lambda>_. Some 7200) [7] (Some lent_row) half_free 1 162000001 (162000 * ns_per_sec) sly_frame (snd night_grant)"

text \<open>A URL library that does what the standard says.\<close>

definition standard_escape :: "char \<Rightarrow> string" where
  "standard_escape c = (if url_char c then [c] else percent_escaped c)"

definition standard_url :: url_maker where
  "standard_url upstream path query =
     (let wire = concat (map standard_escape (filter (\<lambda>c. \<not> is_tab_or_newline c) path))
      in Some (upstream @ wire @ (case query of Some q \<Rightarrow> ''?'' @ q | None \<Rightarrow> []), wire))"

lemma standard_url_sets_paths: "sets_paths standard_url ''http://localhost:3456'' standard_escape"
proof -
  have "filter (\<lambda>c. \<not> is_tab_or_newline c) path = path" if "\<not> list_ex is_tab_or_newline path" for path
    using that by (auto simp: filter_id_conv list_ex_iff)
  moreover have "starts_with (''http://localhost:3456'' @ s) (trim_end_char (CHR ''/'') ''http://localhost:3456'')" for s
  proof -
    have "trim_end_char (CHR ''/'') ''http://localhost:3456'' = ''http://localhost:3456''" by code_simp
    then show ?thesis by (simp add: starts_with_def)
  qed
  ultimately show ?thesis
    by (simp add: sets_paths_def escapes_characters_def standard_escape_def standard_url_def Let_def)
qed

theorem lent_request_reaches_the_pool_witness:
  "\<exists>rq. own_request standard_url ''http://localhost:3456'' [(''host'', Readable ''localhost:3456'')] ''/v1/messages''
       (Some ''beta=true'') (own_request_headers Readable (sv_headers sly_frame) Unrestricted (Some ''rk'')) = Some rq \<and>
     er_path rq = ''/v1/messages'' \<and> handle_edge lender_config (\<lambda>_. None) rq = (Pooled Anthropic, [])"
proof -
  have "fst sly_relay = Accepted Unrestricted" by code_simp
  then have a: "handle_serve_on (\<lambda>_. Some 7200) [7] (Some lent_row) half_free 1 162000001 (162000 * ns_per_sec) sly_frame (snd night_grant) =
      (Accepted Unrestricted, snd sly_relay)" by (simp add: sly_relay_def prod_eq_iff)
  have v: "header_text [(''host'', Readable ''localhost:3456'')] ''host'' = Some ''localhost:3456''" "host_is_loopback (strip_port ''localhost:3456'')"
    "trim ''rk'' = ''rk''" "\<not> list_ex is_tab_or_newline (sv_path sly_frame)"
    "concat (map standard_escape (sv_path sly_frame)) = ''/v1/messages''" by code_simp+
  from lent_request_reaches_the_pool [OF a _ _ v(1,2) _ standard_url_sets_paths v(4), of lender_config Readable "\<lambda>_. None" None 10] v(3,5)
  show ?thesis by (auto simp: lender_config_def sly_frame_def)
qed

text \<open>
  A tab splits the lender's own prefix past the path gate, and the URL drops it: the frame is relayable and the
  request it becomes is one to the lender's own control endpoint, which answers this machine when the proxy has no
  key of its own.
\<close>

definition tab_path :: string where
  "tab_path = ''/_t'' @ [CHR 0x09] @ ''cr/accounts/control''"

definition tab_request :: edge_request where
  "tab_request = \<lparr>er_method = ''POST'', er_uri_host = None, er_path = ''/_tcr/accounts/control'',
     er_headers = own_request_headers Readable [(''content-type'', ''application/json'')] Unrestricted None @ [(''host'', Readable ''localhost:3456'')],
     er_peer_loopback = Some True, er_tunnel = None, er_tunnel_keyed = False\<rparr>"

theorem tab_path_reaches_an_endpoint:
  assumes "drops_tabs make_url" "sets_paths make_url ''http://localhost:3456'' esc"
  shows "serve_is_allowed_for_path tab_path \<and>
    own_request make_url ''http://localhost:3456'' [(''host'', Readable ''localhost:3456'')] tab_path None
      (own_request_headers Readable [(''content-type'', ''application/json'')] Unrestricted None) = Some tab_request \<and>
    path_is_under (er_path tab_request) LOCAL_PREFIX \<and>
    local_endpoint_gate (lender_config\<lparr>ec_api_key := None\<rparr>) tab_request = None"
proof -
  have t: "filter (\<lambda>c. \<not> is_tab_or_newline c) tab_path = ''/_tcr/accounts/control''" by code_simp
  have v: "starts_with ''/_tcr/accounts/control'' ''/''" "\<not> starts_with ''/_tcr/accounts/control'' ''//''"
    "\<not> path_is_ambiguous ''/_tcr/accounts/control''" "\<not> list_ex is_tab_or_newline ''/_tcr/accounts/control''"
    "list_all url_char ''/_tcr/accounts/control''" by code_simp+
  have "concat (map esc ''/_tcr/accounts/control'') = ''/_tcr/accounts/control''"
    using assms(2) v(5) by (intro plain_path_kept) (simp_all only: sets_paths_def)
  then obtain url where "make_url ''http://localhost:3456'' ''/_tcr/accounts/control'' None = Some (url, ''/_tcr/accounts/control'')"
      "starts_with url (trim_end_char (CHR ''/'') ''http://localhost:3456'')"
    using assms(2) v(1-4) unfolding sets_paths_def by metis
  moreover from this(1) have "make_url ''http://localhost:3456'' tab_path None = Some (url, ''/_tcr/accounts/control'')"
    using assms(1) unfolding drops_tabs_def by (metis t)
  ultimately have "own_request make_url ''http://localhost:3456'' [(''host'', Readable ''localhost:3456'')] tab_path None
      (own_request_headers Readable [(''content-type'', ''application/json'')] Unrestricted None) = Some tab_request"
    by (simp add: own_request_def tab_request_def)
  moreover have "serve_is_allowed_for_path tab_path" "path_is_under (er_path tab_request) LOCAL_PREFIX"
    "local_endpoint_gate (lender_config\<lparr>ec_api_key := None\<rparr>) tab_request = None" by code_simp+
  ultimately show ?thesis by blast
qed

end
