(* ===== verification/Peer_Addr.thy ===== *)
theory Peer_Addr
  imports Edge Peer_Wire
begin

text \<open>
  The addresses Macs reach each other at: sockets as the standard library parses and prints them, the
  address classes of \<^verbatim>\<open>peer/listener.rs\<close> and \<^verbatim>\<open>status/network_fact.rs\<close>, the addresses an invitation
  carries (\<open>dial_addresses\<close>, \<^verbatim>\<open>peer/pair.rs\<close>) and the gate that keeps strangers on the internet out of
  the pairing queue (\<open>internet_admission\<close>, \<^verbatim>\<open>peer/listener.rs\<close>).
\<close>

section \<open>Sockets as text\<close>

text \<open>A \<open>SocketAddr\<close>; the scope of an IPv4 socket and of an unscoped IPv6 one is 0.\<close>

record socket_addr =
  so_ip :: ip_addr
  so_port :: nat
  so_scope :: nat

definition socket_new :: "ip_addr \<Rightarrow> nat \<Rightarrow> socket_addr" where
  "socket_new ip port = \<lparr>so_ip = ip, so_port = port, so_scope = 0\<rparr>"

definition read_port :: "string \<Rightarrow> (nat \<times> string) option" where
  "read_port s = Option.bind (read_given_char (CHR '':'') s) (\<lambda>r. read_number 10 (length r) True 65536 r)"

definition read_scope_id :: "string \<Rightarrow> (nat \<times> string) option" where
  "read_scope_id s = Option.bind (read_given_char (CHR ''%'') s) (\<lambda>r. read_number 10 (length r) True 4294967296 r)"

definition read_socket_addr_v4 :: "string \<Rightarrow> (socket_addr \<times> string) option" where
  "read_socket_addr_v4 s =
     Option.bind (read_ipv4_addr s) (\<lambda>(os, r). map_option (\<lambda>(port, r). (socket_new (V4 os) port, r)) (read_port r))"

definition read_socket_addr_v6 :: "string \<Rightarrow> (socket_addr \<times> string) option" where
  "read_socket_addr_v6 s =
     Option.bind (read_given_char (CHR ''['') s) (\<lambda>r.
     Option.bind (read_ipv6_addr r) (\<lambda>(gs, r).
       (let (scope, r) = (case read_scope_id r of Some (n, r') \<Rightarrow> (n, r') | None \<Rightarrow> (0, r))
        in Option.bind (read_given_char (CHR '']'') r) (\<lambda>r.
           map_option (\<lambda>(port, r). (\<lparr>so_ip = V6 gs, so_port = port, so_scope = scope\<rparr>, r)) (read_port r)))))"

definition parse_socket :: "string \<Rightarrow> socket_addr option" where
  "parse_socket s =
     (case or_else (read_socket_addr_v4 s) (read_socket_addr_v6 s) of Some (a, []) \<Rightarrow> Some a | _ \<Rightarrow> None)"

fun lower_hex :: "nat \<Rightarrow> string" where
  "lower_hex n = (if n < 16 then [hex_char n] else lower_hex (n div 16) @ [hex_char (n mod 16)])"

declare lower_hex.simps [simp del]

text \<open>The first longest run of zero groups, as its start and its length: the \<open>Display\<close> of \<open>Ipv6Addr\<close>.\<close>

fun zero_span :: "nat list \<Rightarrow> nat \<Rightarrow> nat \<times> nat \<Rightarrow> nat \<times> nat \<Rightarrow> nat \<times> nat" where
  "zero_span [] i current longest = longest"
| "zero_span (g # gs) i current longest =
     (if g = 0
      then (let current = (if snd current = 0 then (i, 1) else (fst current, snd current + 1));
                longest = (if snd current > snd longest then current else longest)
            in zero_span gs (i + 1) current longest)
      else zero_span gs (i + 1) (0, 0) longest)"

definition show_v4 :: "nat list \<Rightarrow> string" where
  "show_v4 os = join_with ''.'' (map decimal os)"

definition show_groups :: "nat list \<Rightarrow> string" where
  "show_groups gs = join_with '':'' (map lower_hex gs)"

definition to_ipv4_mapped :: "nat list \<Rightarrow> nat list option" where
  "to_ipv4_mapped gs =
     (if take 6 gs = [0, 0, 0, 0, 0, 65535]
      then Some [gs ! 6 div 256, gs ! 6 mod 256, gs ! 7 div 256, gs ! 7 mod 256] else None)"

fun show_ip :: "ip_addr \<Rightarrow> string" where
  "show_ip (V4 os) = show_v4 os"
| "show_ip (V6 gs) =
     (case to_ipv4_mapped gs of
        Some os \<Rightarrow> ''::ffff:'' @ show_v4 os
      | None \<Rightarrow>
          (let (start, len) = zero_span gs 0 (0, 0) (0, 0)
           in if len > 1 then show_groups (take start gs) @ ''::'' @ show_groups (drop (start + len) gs)
              else show_groups gs))"

definition show_socket :: "socket_addr \<Rightarrow> string" where
  "show_socket a =
     (case so_ip a of
        V4 os \<Rightarrow> show_v4 os @ '':'' @ decimal (so_port a)
      | V6 gs \<Rightarrow> ''['' @ show_ip (V6 gs) @ (if so_scope a = 0 then '''' else ''%'' @ decimal (so_scope a))
                @ '']:'' @ decimal (so_port a))"

text \<open>\<open>knock_address\<close>: the address a row is kept under, with the ephemeral source port dropped.\<close>

definition knock_address :: "socket_addr \<Rightarrow> string" where
  "knock_address a = show_ip (so_ip a)"

section \<open>Address classes\<close>

fun is_unspecified :: "ip_addr \<Rightarrow> bool" where
  "is_unspecified (V4 os) = (os = [0, 0, 0, 0])"
| "is_unspecified (V6 gs) = (gs = [0, 0, 0, 0, 0, 0, 0, 0])"

text \<open>\<open>is_usable\<close> of \<^verbatim>\<open>status/network_fact.rs\<close>: not unspecified, loopback, multicast or link-local.\<close>

fun is_usable :: "ip_addr \<Rightarrow> bool" where
  "is_usable (V4 os) =
     (\<not> (is_unspecified (V4 os) \<or> hd os = 127 \<or> (224 \<le> hd os \<and> hd os < 240)) \<and> \<not> (os ! 0 = 169 \<and> os ! 1 = 254))"
| "is_usable (V6 gs) =
     (\<not> (is_unspecified (V6 gs) \<or> ip_is_loopback (V6 gs) \<or> hd gs div 256 = 255) \<and> hd gs div 64 \<noteq> 1018)"

definition is_lan_scope_v4 :: "nat list \<Rightarrow> bool" where
  "is_lan_scope_v4 os =
     (os ! 0 = 127 \<or> os ! 0 = 10 \<or> (os ! 0 = 172 \<and> 16 \<le> os ! 1 \<and> os ! 1 < 32) \<or> (os ! 0 = 192 \<and> os ! 1 = 168))"

definition is_carrier_grade_nat :: "nat list \<Rightarrow> bool" where
  "is_carrier_grade_nat os = (os ! 0 = 100 \<and> 64 \<le> os ! 1 \<and> os ! 1 < 128)"

definition is_lan_scope_v6 :: "nat list \<Rightarrow> bool" where
  "is_lan_scope_v6 gs = (ip_is_loopback (V6 gs) \<or> gs ! 0 div 64 = 1018 \<or> gs ! 0 div 512 = 126)"

fun is_lan_scope :: "ip_addr \<Rightarrow> bool" where
  "is_lan_scope (V4 os) = is_lan_scope_v4 os"
| "is_lan_scope (V6 gs) = (case to_ipv4_mapped gs of Some os \<Rightarrow> is_lan_scope_v4 os | None \<Rightarrow> is_lan_scope_v6 gs)"

fun is_loopback_bind :: "ip_addr \<Rightarrow> bool" where
  "is_loopback_bind (V4 os) = ip_is_loopback (V4 os)"
| "is_loopback_bind (V6 gs) =
     (case to_ipv4_mapped gs of Some os \<Rightarrow> ip_is_loopback (V4 os) | None \<Rightarrow> ip_is_loopback (V6 gs))"

fun shares_a_global_v6_prefix :: "ip_addr \<Rightarrow> nat list list \<Rightarrow> bool" where
  "shares_a_global_v6_prefix (V4 os) own = False"
| "shares_a_global_v6_prefix (V6 gs) own =
     (to_ipv4_mapped gs = None \<and> list_ex (\<lambda>o6. take 4 o6 = take 4 gs) own)"

text \<open>\<open>is_dialable_claim\<close>, \<^verbatim>\<open>peer/config.rs\<close>.\<close>

definition is_dialable_claim :: "socket_addr \<Rightarrow> bool" where
  "is_dialable_claim a = (\<not> is_unspecified (so_ip a) \<and> so_port a \<noteq> 0)"

section \<open>Handshakes and the internet gate\<close>

datatype handshake = Hs_Pair | Hs_Return | Hs_Enrol | Hs_Knock | Hs_Knock_Psk

definition IK_MESSAGE_1_LEN :: nat where "IK_MESSAGE_1_LEN = 96"
definition KNOCK_MESSAGE_1_LEN :: nat where "KNOCK_MESSAGE_1_LEN = 32"
definition KNOCK_PSK_MESSAGE_1_LEN :: nat where "KNOCK_PSK_MESSAGE_1_LEN = 48"
definition PAIR_MESSAGE_1_PAYLOAD_LEN :: nat where "PAIR_MESSAGE_1_PAYLOAD_LEN = 1 + INSTANCE_ID_BYTES"
definition XX_MESSAGE_1_LEN :: nat where "XX_MESSAGE_1_LEN = 32 + PAIR_MESSAGE_1_PAYLOAD_LEN"
definition XX_MESSAGE_1_LEN_V1 :: nat where "XX_MESSAGE_1_LEN_V1 = 32 + INSTANCE_ID_BYTES"

definition from_message_1_len :: "nat \<Rightarrow> handshake option" where
  "from_message_1_len len =
     (if len = KNOCK_MESSAGE_1_LEN then Some Hs_Knock
      else if len = XX_MESSAGE_1_LEN \<or> len = XX_MESSAGE_1_LEN_V1 then Some Hs_Pair
      else if len = KNOCK_PSK_MESSAGE_1_LEN then Some Hs_Knock_Psk
      else if len = IK_MESSAGE_1_LEN then Some Hs_Return
      else None)"

fun message_1_len :: "handshake \<Rightarrow> nat" where
  "message_1_len Hs_Pair = XX_MESSAGE_1_LEN"
| "message_1_len Hs_Return = IK_MESSAGE_1_LEN"
| "message_1_len Hs_Enrol = IK_MESSAGE_1_LEN"
| "message_1_len Hs_Knock = KNOCK_MESSAGE_1_LEN"
| "message_1_len Hs_Knock_Psk = KNOCK_PSK_MESSAGE_1_LEN"

fun accepts_message_1_len :: "handshake \<Rightarrow> nat \<Rightarrow> bool" where
  "accepts_message_1_len Hs_Pair len = (len = XX_MESSAGE_1_LEN \<or> len = XX_MESSAGE_1_LEN_V1)"
| "accepts_message_1_len other len = (len = message_1_len other)"

definition PAIR_PAYLOAD_VERSION :: "8 word" where "PAIR_PAYLOAD_VERSION = 2"

text \<open>\<open>Message1::instance_id\<close>: the instance an \<open>XX\<close> message 1 claims, from its payload.\<close>

definition claimed_instance :: "byte list \<Rightarrow> instance_id option" where
  "claimed_instance payload =
     (if length payload = INSTANCE_ID_BYTES then None
      else if length payload \<noteq> PAIR_MESSAGE_1_PAYLOAD_LEN then None
      else if hd payload \<noteq> PAIR_PAYLOAD_VERSION then None
      else Some (tl payload))"

definition internet_admission :: "ip_addr \<Rightarrow> ip_addr \<Rightarrow> handshake \<Rightarrow> bool \<Rightarrow> nat list list \<Rightarrow> bool" where
  "internet_admission bind_ip from_ip pattern internet own_global_v6 =
     (if is_lan_scope from_ip \<or> is_loopback_bind bind_ip then True
      else case pattern of
        Hs_Return \<Rightarrow> True
      | Hs_Enrol \<Rightarrow> True
      | _ \<Rightarrow> \<not> internet \<and> shares_a_global_v6_prefix from_ip own_global_v6)"

text \<open>\<open>admission_for_this_host\<close> reads its own addresses only when the answer would be a refusal.\<close>

definition admission_for_this_host :: "ip_addr \<Rightarrow> ip_addr \<Rightarrow> handshake \<Rightarrow> bool \<Rightarrow> nat list list \<Rightarrow> bool" where
  "admission_for_this_host bind_ip from_ip pattern internet own =
     (if internet_admission bind_ip from_ip pattern internet [] then True
      else internet_admission bind_ip from_ip pattern internet own)"

section \<open>What an invitation says to dial\<close>

datatype dial_kind = Chosen | Tailscale | Internet | Lan | From_Key

record host_address =
  ha_interface :: string
  ha_addr :: ip_addr

fun is_tailnet :: "host_address \<Rightarrow> bool" where
  "is_tailnet h = (case ha_addr h of
     V4 os \<Rightarrow> take 4 (ha_interface h) = ''utun'' \<and> is_carrier_grade_nat os
   | V6 _ \<Rightarrow> False)"

type_synonym dial_address = "socket_addr \<times> dial_kind"

definition dial_push :: "dial_kind \<Rightarrow> socket_addr \<Rightarrow> dial_address list \<Rightarrow> dial_address list" where
  "dial_push kind addr out =
     (if is_unspecified (so_ip addr) \<or> so_port addr = 0 then out
      else if list_ex (\<lambda>e. fst e = addr) out then out
      else out @ [(addr, kind)])"

definition dial_addresses :: "socket_addr \<Rightarrow> host_address list \<Rightarrow> socket_addr option \<Rightarrow> dial_address list" where
  "dial_addresses listen host external =
     (if so_port listen = 0 then []
      else if \<not> is_unspecified (so_ip listen) then [(listen, Chosen)]
      else
       (let port = so_port listen;
            out = foldl (\<lambda>out h. dial_push Tailscale (socket_new (ha_addr h) port) out) [] (filter is_tailnet host);
            out = (case external of Some e \<Rightarrow> dial_push Internet e out | None \<Rightarrow> out)
        in foldl (\<lambda>out h. if is_tailnet h \<or> \<not> is_usable (ha_addr h) then out
                          else dial_push Lan (socket_new (ha_addr h) port) out) out host))"

section \<open>Lemmas\<close>

lemma message_1_lengths:
  "from_message_1_len (message_1_len h) = Some (if h = Hs_Enrol then Hs_Return else h)"
  "from_message_1_len len = Some h \<Longrightarrow> accepts_message_1_len h len"
  by (cases h; simp add: from_message_1_len_def KNOCK_MESSAGE_1_LEN_def XX_MESSAGE_1_LEN_def XX_MESSAGE_1_LEN_V1_def
        KNOCK_PSK_MESSAGE_1_LEN_def IK_MESSAGE_1_LEN_def PAIR_MESSAGE_1_PAYLOAD_LEN_def INSTANCE_ID_BYTES_def
        split: if_splits)+

lemma internet_admission_own:
  "internet_admission b f p i [] \<Longrightarrow> internet_admission b f p i own"
  by (cases f) (auto simp: internet_admission_def split: handshake.splits if_splits)

lemma admission_for_this_host [simp]: "admission_for_this_host b f p i own = internet_admission b f p i own"
  using internet_admission_own by (auto simp: admission_for_this_host_def)

definition dial_ok :: "dial_address list \<Rightarrow> bool" where
  "dial_ok out = (distinct (map fst out) \<and> list_all (\<lambda>e. is_dialable_claim (fst e)) out)"

lemma dial_push_ok: "dial_ok out \<Longrightarrow> dial_ok (dial_push k a out)"
  by (auto simp: dial_ok_def dial_push_def is_dialable_claim_def list_ex_iff)

lemma dial_foldl_ok:
  "dial_ok out \<Longrightarrow> (\<And>h out. dial_ok out \<Longrightarrow> dial_ok (f out h)) \<Longrightarrow> dial_ok (foldl f out hs)"
  by (induction hs arbitrary: out) auto

lemma dial_addresses_ok: "dial_ok (dial_addresses listen host external)"
proof -
  have "dial_ok []" by (simp add: dial_ok_def)
  moreover have "dial_ok [(listen, Chosen)]" if "so_port listen \<noteq> 0" "\<not> is_unspecified (so_ip listen)"
    using that by (simp add: dial_ok_def is_dialable_claim_def)
  ultimately show ?thesis
    by (auto simp: dial_addresses_def Let_def intro!: dial_foldl_ok dial_push_ok split: option.splits)
qed

end
