(* ===== verification/Knocks.thy ===== *)
theory Knocks
  imports Peer_Addr Lease
begin

text \<open>
  The runtime state a node keeps about Macs it does not know yet, \<^verbatim>\<open>peer/state.rs\<close>: who is asking to
  pair, whom the operator ignored or blocked, for whom a first pairing is open, what was heard on the
  network and the one-time invitations that are out; with the operator's verbs of \<^verbatim>\<open>main.rs\<close>.

  Every reader and writer of the file loads it through \<open>load\<close>, which drops what has aged out, and a
  file that cannot be trusted counts as empty. The sections of the file that other parts keep in it
  (leases, paths, the router mapping) are theirs.
\<close>

section \<open>The state\<close>

record knock =
  kn_addr :: string
  kn_instance :: instance_id
  kn_name :: "string option"
  kn_wire :: nat
  kn_listen_port :: "nat option"
  kn_first_seen :: i64
  kn_last_seen :: i64

record found =
  fo_addr :: string
  fo_instance :: instance_id
  fo_name :: "string option"
  fo_listen_port :: nat
  fo_first_seen :: i64
  fo_last_seen :: i64

record mute =
  mu_addr :: string
  mu_until :: i64

datatype ban_reason = Blocked | Forgotten_And_Blocked

record ban =
  bn_addr :: string
  bn_key :: "peer_id option"
  bn_since :: i64
  bn_reason :: ban_reason

record accepted_instance =
  ac_instance :: instance_id
  ac_addr :: string
  ac_until :: i64
  ac_opened :: i64
  ac_learned_key :: "peer_id option"

record pending_ask =
  ask_id :: u64
  ask_public :: "byte list"
  ask_private :: "byte list"
  ask_until :: i64

record peer_state =
  ps_window_until :: "i64 option"
  ps_window_opened :: "i64 option"
  ps_pending :: "knock list"
  ps_muted :: "mute list"
  ps_banned :: "ban list"
  ps_accepted :: "accepted_instance list"
  ps_found :: "found list"
  ps_asks :: "pending_ask list"

definition empty_state :: peer_state where
  "empty_state =
     \<lparr>ps_window_until = None, ps_window_opened = None, ps_pending = [], ps_muted = [], ps_banned = [],
      ps_accepted = [], ps_found = [], ps_asks = []\<rparr>"

definition KNOCK_TTL_MS :: i64 where "KNOCK_TTL_MS = 600000"
definition MUTE_MS :: i64 where "MUTE_MS = 3600000"
definition FOUND_TTL_MS :: i64 where "FOUND_TTL_MS = 60000"
definition PAIRING_WINDOW_SECS :: i64 where "PAIRING_WINDOW_SECS = 120"
definition MAX_LEARNED_KEYS :: nat where "MAX_LEARNED_KEYS = 32"
definition MAX_PENDING_KNOCKS :: nat where "MAX_PENDING_KNOCKS = 8"
definition MAX_OUTSTANDING_ASKS :: nat where "MAX_OUTSTANDING_ASKS = 8"

datatype knock_refusal = Refused_Banned | Refused_Muted | Queue_Full nat

section \<open>Rows\<close>

definition is_reservation_placeholder :: "knock \<Rightarrow> bool" where
  "is_reservation_placeholder k =
     (kn_instance k = replicate INSTANCE_ID_BYTES 0 \<and> kn_name k = None \<and> kn_wire k = 0)"

definition bracketed_dial_address :: "string \<Rightarrow> nat \<Rightarrow> string" where
  "bracketed_dial_address addr port =
     (case parse_ip addr of
        Some (V6 gs) \<Rightarrow> ''['' @ show_ip (V6 gs) @ '']:'' @ decimal port
      | Some (V4 os) \<Rightarrow> show_ip (V4 os) @ '':'' @ decimal port
      | None \<Rightarrow> addr)"

definition dial_address_of :: "knock \<Rightarrow> string" where
  "dial_address_of k =
     (case kn_listen_port k of None \<Rightarrow> kn_addr k | Some port \<Rightarrow> bracketed_dial_address (kn_addr k) port)"

definition window_open :: "i64 \<Rightarrow> accepted_instance \<Rightarrow> bool" where
  "window_open now_ms w = (ac_opened w \<le> now_ms \<and> now_ms < ac_until w)"

section \<open>Reading\<close>

definition pairing_window :: "i64 \<Rightarrow> peer_state \<Rightarrow> i64 option" where
  "pairing_window now_ms s =
     (case (ps_window_opened s, ps_window_until s) of
        (Some opened, Some until) \<Rightarrow> if opened \<le> now_ms \<and> now_ms < until then Some until else None
      | _ \<Rightarrow> None)"

definition is_muted :: "string \<Rightarrow> i64 \<Rightarrow> peer_state \<Rightarrow> bool" where
  "is_muted addr now_ms s = list_ex (\<lambda>m. mu_addr m = addr \<and> now_ms < mu_until m) (ps_muted s)"

definition is_address_banned :: "string \<Rightarrow> peer_state \<Rightarrow> bool" where
  "is_address_banned addr s = list_ex (\<lambda>b. bn_addr b = addr) (ps_banned s)"

definition is_key_banned :: "peer_id \<Rightarrow> peer_state \<Rightarrow> bool" where
  "is_key_banned key s = list_ex (\<lambda>b. bn_key b = Some key) (ps_banned s)"

definition refusal_for_knock_source :: "string \<Rightarrow> i64 \<Rightarrow> peer_state \<Rightarrow> knock_refusal option" where
  "refusal_for_knock_source addr now_ms s =
     (if is_address_banned addr s then Some Refused_Banned
      else if is_muted addr now_ms s then Some Refused_Muted
      else if list_ex (\<lambda>k. kn_addr k = addr) (ps_pending s) then None
      else if length (ps_pending s) \<ge> MAX_PENDING_KNOCKS then Some (Queue_Full (length (ps_pending s)))
      else None)"

definition visible_pending :: "peer_state \<Rightarrow> knock list" where
  "visible_pending s = filter (\<lambda>k. \<not> is_reservation_placeholder k) (ps_pending s)"

definition visible_found :: "peer_state \<Rightarrow> found list" where
  "visible_found s =
     filter (\<lambda>f. \<not> list_ex (\<lambda>m. mu_addr m = fo_addr f) (ps_muted s)
                 \<and> \<not> list_ex (\<lambda>b. bn_addr b = fo_addr f) (ps_banned s)) (ps_found s)"

definition find_pending :: "string \<Rightarrow> peer_state \<Rightarrow> knock option" where
  "find_pending selector s =
     (let selector = trim selector;
          by_id = (case instance_parse selector of
                     Inr i \<Rightarrow> List.find (\<lambda>k. kn_instance k = i \<and> \<not> is_reservation_placeholder k) (ps_pending s)
                   | Inl _ \<Rightarrow> None)
      in or_else by_id
           (List.find (\<lambda>k. (kn_addr k = selector \<or> dial_address_of k = selector) \<and> \<not> is_reservation_placeholder k)
              (ps_pending s)))"

definition is_knock_address :: "string \<Rightarrow> bool" where
  "is_knock_address text = (parse_ip (trim text) \<noteq> None)"

definition accepted_window :: "string \<Rightarrow> instance_id \<Rightarrow> i64 \<Rightarrow> peer_state \<Rightarrow> bool" where
  "accepted_window addr i now_ms s =
     list_ex (\<lambda>w. ac_addr w = addr \<and> ac_instance w = i \<and> window_open now_ms w) (ps_accepted s)"

definition key_learned_at :: "string \<Rightarrow> peer_state \<Rightarrow> peer_id option" where
  "key_learned_at addr s = Option.bind (List.find (\<lambda>w. ac_addr w = addr) (ps_accepted s)) ac_learned_key"

section \<open>Writing\<close>

definition open_pairing_window :: "i64 \<Rightarrow> i64 \<Rightarrow> peer_state \<Rightarrow> i64 \<times> peer_state" where
  "open_pairing_window now_ms secs s =
     (let until = saturating_add_i64 now_ms (saturating_mul_i64 secs 1000)
      in (until, s\<lparr>ps_window_opened := Some now_ms, ps_window_until := Some until\<rparr>))"

definition close_pairing_window :: "peer_state \<Rightarrow> bool \<times> peer_state" where
  "close_pairing_window s =
     (ps_window_until s \<noteq> None \<or> ps_window_opened s \<noteq> None, s\<lparr>ps_window_until := None, ps_window_opened := None\<rparr>)"

text \<open>The bound on the windows that are kept only for the key their handshake revealed.\<close>

definition drop_oldest_closed :: "i64 \<Rightarrow> accepted_instance list \<Rightarrow> accepted_instance list" where
  "drop_oldest_closed now_ms ws =
     (let closed = filter (\<lambda>i. ac_until (ws ! i) \<le> now_ms) [0..<length ws] in
      if length closed > MAX_LEARNED_KEYS
      then (let doomed = take (length closed - MAX_LEARNED_KEYS) (sort_key (\<lambda>i. ac_opened (ws ! i)) closed)
            in map snd (filter (\<lambda>(i, _). i \<notin> set doomed) (enumerate 0 ws)))
      else ws)"

definition expire_rows :: "i64 \<Rightarrow> peer_state \<Rightarrow> peer_state" where
  "expire_rows now_ms s =
     s\<lparr>ps_pending := filter (\<lambda>k. saturating_sub_i64 now_ms (kn_last_seen k) < KNOCK_TTL_MS) (ps_pending s),
       ps_muted := filter (\<lambda>m. now_ms < mu_until m) (ps_muted s),
       ps_asks := filter (\<lambda>a. now_ms < ask_until a) (ps_asks s),
       ps_found := filter (\<lambda>f. saturating_sub_i64 now_ms (fo_last_seen f) < FOUND_TTL_MS) (ps_found s),
       ps_accepted := drop_oldest_closed now_ms
         (filter (\<lambda>w. window_open now_ms w \<or> ac_learned_key w \<noteq> None) (ps_accepted s))\<rparr>"

definition rows_of :: "peer_state \<Rightarrow> nat" where
  "rows_of s =
     length (ps_pending s) + length (ps_muted s) + length (ps_accepted s) + length (ps_found s) + length (ps_asks s)"

definition expire :: "i64 \<Rightarrow> peer_state \<Rightarrow> nat \<times> peer_state" where
  "expire now_ms s = (let s' = expire_rows now_ms s in (rows_of s - rows_of s', s'))"

definition spend_ask :: "u64 \<Rightarrow> peer_state \<Rightarrow> bool \<times> peer_state" where
  "spend_ask i s =
     (let asks = filter (\<lambda>a. ask_id a \<noteq> i) (ps_asks s)
      in (length asks \<noteq> length (ps_asks s), s\<lparr>ps_asks := asks\<rparr>))"

definition add_ask :: "i64 \<Rightarrow> pending_ask \<Rightarrow> peer_state \<Rightarrow> peer_state" where
  "add_ask now_ms a s =
     (let live = filter (\<lambda>r. now_ms < ask_until r) (ps_asks s)
      in s\<lparr>ps_asks := (if length live < MAX_OUTSTANDING_ASKS then live @ [a] else live)\<rparr>)"

fun update_first :: "('a \<Rightarrow> bool) \<Rightarrow> ('a \<Rightarrow> 'a) \<Rightarrow> 'a list \<Rightarrow> 'a list" where
  "update_first p f [] = []"
| "update_first p f (x # xs) = (if p x then f x # xs else x # update_first p f xs)"

definition record_knock ::
  "string \<Rightarrow> instance_id \<Rightarrow> string option \<Rightarrow> nat \<Rightarrow> nat option \<Rightarrow> i64 \<Rightarrow> peer_state \<Rightarrow> knock_refusal + bool \<times> peer_state" where
  "record_knock addr i name wire listen_port now_ms s =
     (case refusal_for_knock_source addr now_ms s of
        Some r \<Rightarrow> Inl r
      | None \<Rightarrow>
          if list_ex (\<lambda>k. kn_addr k = addr) (ps_pending s)
          then Inr (False, s\<lparr>ps_pending := update_first (\<lambda>k. kn_addr k = addr)
                 (\<lambda>k. k\<lparr>kn_instance := i, kn_name := name, kn_wire := wire, kn_listen_port := listen_port,
                         kn_last_seen := now_ms\<rparr>) (ps_pending s)\<rparr>)
          else if length (ps_pending s) \<ge> MAX_PENDING_KNOCKS then Inl (Queue_Full (length (ps_pending s)))
          else Inr (True, s\<lparr>ps_pending := ps_pending s @
                 [\<lparr>kn_addr = addr, kn_instance = i, kn_name = name, kn_wire = wire, kn_listen_port = listen_port,
                   kn_first_seen = now_ms, kn_last_seen = now_ms\<rparr>]\<rparr>))"

definition reserve_knock_slot :: "string \<Rightarrow> i64 \<Rightarrow> peer_state \<Rightarrow> knock_refusal + bool \<times> peer_state" where
  "reserve_knock_slot addr now_ms s =
     (case refusal_for_knock_source addr now_ms s of
        Some r \<Rightarrow> Inl r
      | None \<Rightarrow>
          if list_ex (\<lambda>k. kn_addr k = addr) (ps_pending s) then Inr (False, s)
          else Inr (True, s\<lparr>ps_pending := ps_pending s @
                 [\<lparr>kn_addr = addr, kn_instance = replicate INSTANCE_ID_BYTES 0, kn_name = None, kn_wire = 0,
                   kn_listen_port = None, kn_first_seen = now_ms, kn_last_seen = now_ms\<rparr>]\<rparr>))"

definition release_knock_reservation :: "string \<Rightarrow> i64 \<Rightarrow> peer_state \<Rightarrow> peer_state" where
  "release_knock_reservation addr reserved_at s =
     s\<lparr>ps_pending := filter (\<lambda>k. \<not> (kn_addr k = addr \<and> is_reservation_placeholder k \<and> kn_first_seen k = reserved_at))
         (ps_pending s)\<rparr>"

definition observe_found :: "found list \<Rightarrow> i64 \<Rightarrow> peer_state \<Rightarrow> peer_state" where
  "observe_found rows now_ms s =
     s\<lparr>ps_found := map (\<lambda>row. row\<lparr>
         fo_first_seen := (case List.find (\<lambda>seen. fo_addr seen = fo_addr row \<and> fo_instance seen = fo_instance row) (ps_found s) of
                             Some seen \<Rightarrow> fo_first_seen seen | None \<Rightarrow> now_ms),
         fo_last_seen := now_ms\<rparr>) rows\<rparr>"

definition accept_knock :: "string \<Rightarrow> i64 \<Rightarrow> i64 \<Rightarrow> peer_state \<Rightarrow> accepted_instance option \<times> peer_state" where
  "accept_knock selector now_ms secs s =
     (case find_pending selector s of
        None \<Rightarrow> (None, s)
      | Some k \<Rightarrow>
          (let w = \<lparr>ac_instance = kn_instance k, ac_addr = kn_addr k,
                    ac_until = saturating_add_i64 now_ms (saturating_mul_i64 secs 1000), ac_opened = now_ms,
                    ac_learned_key = key_learned_at (kn_addr k) s\<rparr>
           in (Some w, s\<lparr>ps_pending := filter (\<lambda>r. kn_addr r \<noteq> kn_addr k) (ps_pending s),
                         ps_accepted := filter (\<lambda>r. ac_addr r \<noteq> ac_addr w) (ps_accepted s) @ [w]\<rparr>)))"

definition mute_addr :: "string \<Rightarrow> i64 \<Rightarrow> peer_state \<Rightarrow> peer_state" where
  "mute_addr addr now_ms s =
     s\<lparr>ps_pending := filter (\<lambda>k. kn_addr k \<noteq> addr) (ps_pending s),
       ps_muted := filter (\<lambda>m. mu_addr m \<noteq> addr) (ps_muted s)
                     @ [\<lparr>mu_addr = addr, mu_until = saturating_add_i64 now_ms MUTE_MS\<rparr>]\<rparr>"

definition ban_addr :: "string \<Rightarrow> peer_id option \<Rightarrow> ban_reason \<Rightarrow> i64 \<Rightarrow> peer_state \<Rightarrow> peer_state" where
  "ban_addr addr key reason now_ms s =
     s\<lparr>ps_pending := filter (\<lambda>k. kn_addr k \<noteq> addr) (ps_pending s),
       ps_muted := filter (\<lambda>m. mu_addr m \<noteq> addr) (ps_muted s),
       ps_accepted := filter (\<lambda>w. ac_addr w \<noteq> addr) (ps_accepted s),
       ps_banned :=
         (if list_ex (\<lambda>b. bn_addr b = addr) (ps_banned s)
          then update_first (\<lambda>b. bn_addr b = addr)
                 (\<lambda>b. b\<lparr>bn_key := (if key = None then bn_key b else key), bn_reason := reason\<rparr>) (ps_banned s)
          else ps_banned s @ [\<lparr>bn_addr = addr, bn_key = key, bn_since = now_ms, bn_reason = reason\<rparr>])\<rparr>"

definition unblock :: "string \<Rightarrow> peer_state \<Rightarrow> bool \<times> peer_state" where
  "unblock addr s =
     (let kept = filter (\<lambda>b. bn_addr b \<noteq> addr) (ps_banned s)
      in (length kept \<noteq> length (ps_banned s), s\<lparr>ps_banned := kept\<rparr>))"

text \<open>\<open>record_pairing_key\<close>, \<^verbatim>\<open>peer/listener.rs\<close>.\<close>

definition record_pairing_key :: "string \<Rightarrow> peer_id \<Rightarrow> peer_state \<Rightarrow> peer_state" where
  "record_pairing_key addr key s =
     s\<lparr>ps_accepted := map (\<lambda>w. if ac_addr w = addr then w\<lparr>ac_learned_key := Some key\<rparr> else w) (ps_accepted s)\<rparr>"

section \<open>The operator's verbs\<close>

definition knock_target_addr :: "string \<Rightarrow> peer_state \<Rightarrow> string option" where
  "knock_target_addr target s =
     (case find_pending target s of
        Some k \<Rightarrow> Some (kn_addr k)
      | None \<Rightarrow> if is_knock_address target then Some target else None)"

definition verb_ignore :: "string \<Rightarrow> i64 \<Rightarrow> peer_state \<Rightarrow> string option \<times> peer_state" where
  "verb_ignore target now_ms s =
     (case knock_target_addr target s of
        None \<Rightarrow> (None, s) | Some addr \<Rightarrow> (Some addr, mute_addr addr now_ms s))"

definition verb_block :: "string \<Rightarrow> i64 \<Rightarrow> peer_state \<Rightarrow> (string \<times> peer_id option) option \<times> peer_state" where
  "verb_block target now_ms s =
     (case knock_target_addr target s of
        None \<Rightarrow> (None, s)
      | Some addr \<Rightarrow> (let key = key_learned_at addr s in (Some (addr, key), ban_addr addr key Blocked now_ms s)))"

section \<open>Histories\<close>

text \<open>
  One locked read-modify-write of the file. \<open>Lost\<close> is a file that could not be trusted or was deleted.
\<close>

datatype state_op =
    Reserve string
  | Record_Knock string instance_id "string option" nat "nat option"
  | Release string i64
  | Accept string
  | Ignore string
  | Block string
  | Unblock string
  | Learn string peer_id
  | Hear "found list"
  | Ask pending_ask
  | Spend u64
  | Lost

definition either :: "('e + bool \<times> peer_state) \<Rightarrow> peer_state \<Rightarrow> peer_state" where
  "either r s = (case r of Inl _ \<Rightarrow> s | Inr (_, s') \<Rightarrow> s')"

fun apply_op :: "state_op \<Rightarrow> i64 \<Rightarrow> peer_state \<Rightarrow> peer_state" where
  "apply_op (Reserve addr) now_ms s = either (reserve_knock_slot addr now_ms s) s"
| "apply_op (Record_Knock addr i name wire port) now_ms s = either (record_knock addr i name wire port now_ms s) s"
| "apply_op (Release addr t) now_ms s = release_knock_reservation addr t s"
| "apply_op (Accept sel) now_ms s = snd (accept_knock sel now_ms PAIRING_WINDOW_SECS s)"
| "apply_op (Ignore target) now_ms s = snd (verb_ignore target now_ms s)"
| "apply_op (Block target) now_ms s = snd (verb_block target now_ms s)"
| "apply_op (Unblock addr) now_ms s = snd (unblock addr s)"
| "apply_op (Learn addr key) now_ms s = record_pairing_key addr key s"
| "apply_op (Hear rows) now_ms s = observe_found rows now_ms s"
| "apply_op (Ask a) now_ms s = add_ask now_ms a s"
| "apply_op (Spend i) now_ms s = snd (spend_ask i s)"
| "apply_op Lost now_ms s = empty_state"

definition state_step :: "peer_state \<Rightarrow> state_op \<times> i64 \<Rightarrow> peer_state" where
  "state_step s op = apply_op (fst op) (snd op) (snd (expire (snd op) s))"

definition state_after :: "(state_op \<times> i64) list \<Rightarrow> peer_state" where
  "state_after ops = foldl state_step empty_state ops"

end
