(* ===== verification/Knock_Props.thy ===== *)
theory Knock_Props
  imports Knocks
begin

text \<open>
  What the histories of \<open>Knocks\<close> keep: one row per address, at most eight Macs asking, at most eight
  invitations out, nothing of a blocked address left but its ban; a first pairing is open only for the
  instance and the address the operator accepted; a block holds until it is lifted.
\<close>

section \<open>Well-formed states\<close>

definition asking :: "peer_state \<Rightarrow> string list" where "asking s = map kn_addr (ps_pending s)"
definition welcomed :: "peer_state \<Rightarrow> string list" where "welcomed s = map ac_addr (ps_accepted s)"
definition blocked :: "peer_state \<Rightarrow> string list" where "blocked s = map bn_addr (ps_banned s)"
definition ignored :: "peer_state \<Rightarrow> string list" where "ignored s = map mu_addr (ps_muted s)"

definition wf_state :: "peer_state \<Rightarrow> bool" where
  "wf_state s =
     (distinct (asking s) \<and> length (asking s) \<le> MAX_PENDING_KNOCKS \<and> distinct (ignored s) \<and> distinct (blocked s)
      \<and> distinct (welcomed s) \<and> length (ps_asks s) \<le> MAX_OUTSTANDING_ASKS
      \<and> set (blocked s) \<inter> (set (asking s) \<union> set (welcomed s)) = {})"

lemma distinct_map_of_filter: "distinct (map f xs) \<Longrightarrow> distinct (map f (filter p xs))"
  by (induction xs) auto

lemma map_filter_key: "map f (filter (\<lambda>x. f x \<noteq> a) xs) = filter (\<lambda>y. y \<noteq> a) (map f xs)"
  by (induction xs) auto

lemma update_first_map [simp]: "(\<And>x. f (g x) = f x) \<Longrightarrow> map f (update_first p g xs) = map f xs"
  by (induction xs) auto

lemma drop_oldest_closed_filter: "\<exists>p. drop_oldest_closed t ws = map snd (filter p (enumerate 0 ws))"
proof (cases "MAX_LEARNED_KEYS < length (filter (\<lambda>i. ac_until (ws ! i) \<le> t) [0..<length ws])")
  case True
  then show ?thesis by (auto simp: drop_oldest_closed_def Let_def)
next
  case False
  then have "drop_oldest_closed t ws = map snd (filter (\<lambda>_. True) (enumerate 0 ws))"
    by (simp add: drop_oldest_closed_def Let_def)
  then show ?thesis by blast
qed

lemma drop_oldest_closed_sub: "set (drop_oldest_closed t ws) \<subseteq> set ws"
proof -
  obtain p where "drop_oldest_closed t ws = map snd (filter p (enumerate 0 ws))" using drop_oldest_closed_filter by blast
  moreover have "snd ` set (enumerate 0 ws) = set ws" by (metis list.set_map map_snd_enumerate)
  ultimately show ?thesis by auto
qed

lemma drop_oldest_closed_distinct: "distinct (map ac_addr ws) \<Longrightarrow> distinct (map ac_addr (drop_oldest_closed t ws))"
proof -
  assume d: "distinct (map ac_addr ws)"
  obtain p where e: "drop_oldest_closed t ws = map snd (filter p (enumerate 0 ws))" using drop_oldest_closed_filter by blast
  have "map (ac_addr \<circ> snd) (enumerate 0 ws) = map ac_addr ws" by (simp flip: map_map)
  then have "distinct (map (ac_addr \<circ> snd) (filter p (enumerate 0 ws)))" using d by (intro distinct_map_of_filter) simp
  then show ?thesis by (simp add: e)
qed

lemma is_address_banned_iff: "is_address_banned addr s \<longleftrightarrow> addr \<in> set (blocked s)"
  by (auto simp: is_address_banned_def list_ex_iff blocked_def)

text \<open>What each operation does to the addresses that are asking, welcomed, blocked and ignored.\<close>

lemma expire_addrs:
  "set (asking (expire_rows t s)) \<subseteq> set (asking s)" "set (welcomed (expire_rows t s)) \<subseteq> set (welcomed s)"
  "blocked (expire_rows t s) = blocked s"
  using drop_oldest_closed_sub by (fastforce simp: asking_def welcomed_def blocked_def expire_rows_def)+

lemma expire_wf: "wf_state s \<Longrightarrow> wf_state (expire_rows t s)"
proof -
  assume w: "wf_state s"
  have "distinct (asking (expire_rows t s))" "distinct (ignored (expire_rows t s))" "distinct (welcomed (expire_rows t s))"
    using w by (auto simp: wf_state_def asking_def ignored_def welcomed_def expire_rows_def
        intro!: distinct_map_of_filter drop_oldest_closed_distinct)
  moreover have "length (asking (expire_rows t s)) \<le> length (asking s)" "length (ps_asks (expire_rows t s)) \<le> length (ps_asks s)"
    by (simp_all add: asking_def expire_rows_def)
  moreover have "set (blocked s) \<inter> (set (asking (expire_rows t s)) \<union> set (welcomed (expire_rows t s))) = {}"
    using w expire_addrs(1,2) [of t s] unfolding wf_state_def by blast
  ultimately show ?thesis using w expire_addrs(3) [of t s] by (simp add: wf_state_def)
qed

lemma refusal_None:
  "refusal_for_knock_source addr t s = None \<Longrightarrow>
   addr \<notin> set (blocked s) \<and> \<not> is_muted addr t s
   \<and> (addr \<in> set (asking s) \<or> length (asking s) < MAX_PENDING_KNOCKS)"
  by (auto simp: refusal_for_knock_source_def list_ex_iff blocked_def asking_def is_address_banned_def split: if_splits)

lemma list_ex_key: "list_ex (\<lambda>x. f x = a) xs = (a \<in> set (map f xs))"
  by (auto simp: list_ex_iff)

lemma record_knock_addrs:
  assumes "record_knock addr i name wire port t s = Inr (fresh, s')"
  shows "asking s' = (if addr \<in> set (asking s) then asking s else asking s @ [addr])"
    "welcomed s' = welcomed s" "blocked s' = blocked s" "ignored s' = ignored s" "ps_asks s' = ps_asks s"
    "refusal_for_knock_source addr t s = None"
  using assms by (auto simp: record_knock_def asking_def welcomed_def blocked_def ignored_def list_ex_iff split: option.splits if_splits)

lemma reserve_addrs:
  assumes "reserve_knock_slot addr t s = Inr (fresh, s')"
  shows "asking s' = (if addr \<in> set (asking s) then asking s else asking s @ [addr])"
    "welcomed s' = welcomed s" "blocked s' = blocked s" "ignored s' = ignored s" "ps_asks s' = ps_asks s"
    "refusal_for_knock_source addr t s = None"
  using assms by (auto simp: reserve_knock_slot_def asking_def welcomed_def blocked_def ignored_def list_ex_iff split: option.splits if_splits)

lemma knock_wf:
  assumes "wf_state s" "asking s' = (if addr \<in> set (asking s) then asking s else asking s @ [addr])"
    "welcomed s' = welcomed s" "blocked s' = blocked s" "ignored s' = ignored s" "ps_asks s' = ps_asks s"
    "refusal_for_knock_source addr t s = None"
  shows "wf_state s'"
  using refusal_None [OF assms(7)] assms(1-6) by (auto simp: wf_state_def)

lemma find_pending_in: "find_pending sel s = Some k \<Longrightarrow> k \<in> set (ps_pending s) \<and> \<not> is_reservation_placeholder k"
  by (auto simp: find_pending_def Let_def or_else_def find_Some_iff split: sum.splits option.splits)

lemma length_drop_key: "length (filter (\<lambda>x. x \<noteq> a) xs) \<le> n" if "length xs \<le> n"
  using that length_filter_le le_trans by blast

lemma accept_wf: "wf_state s \<Longrightarrow> wf_state (snd (accept_knock sel t secs s))"
proof (cases "find_pending sel s")
  case (Some k)
  assume w: "wf_state s"
  have "kn_addr k \<in> set (asking s)" using find_pending_in [OF Some] by (simp add: asking_def)
  then have "kn_addr k \<notin> set (blocked s)" using w unfolding wf_state_def by blast
  moreover let ?s = "snd (accept_knock sel t secs s)"
  have "asking ?s = filter (\<lambda>a. a \<noteq> kn_addr k) (asking s)" "welcomed ?s = filter (\<lambda>a. a \<noteq> kn_addr k) (welcomed s) @ [kn_addr k]"
    "blocked ?s = blocked s" "ignored ?s = ignored s" "ps_asks ?s = ps_asks s"
    using Some by (simp_all add: accept_knock_def Let_def asking_def welcomed_def blocked_def ignored_def map_filter_key)
  ultimately show ?thesis using w by (auto simp: wf_state_def intro: length_drop_key)
qed (simp add: accept_knock_def)

lemma mute_wf: "wf_state s \<Longrightarrow> wf_state (mute_addr addr t s)"
proof -
  assume w: "wf_state s"
  let ?s = "mute_addr addr t s"
  have "asking ?s = filter (\<lambda>a. a \<noteq> addr) (asking s)" "ignored ?s = filter (\<lambda>a. a \<noteq> addr) (ignored s) @ [addr]"
    "blocked ?s = blocked s" "welcomed ?s = welcomed s" "ps_asks ?s = ps_asks s"
    by (simp_all add: mute_addr_def asking_def welcomed_def blocked_def ignored_def map_filter_key)
  then show ?thesis using w by (auto simp: wf_state_def intro: length_drop_key)
qed

lemma ban_addrs:
  "asking (ban_addr addr key r t s) = filter (\<lambda>a. a \<noteq> addr) (asking s)"
  "welcomed (ban_addr addr key r t s) = filter (\<lambda>a. a \<noteq> addr) (welcomed s)"
  "ignored (ban_addr addr key r t s) = filter (\<lambda>a. a \<noteq> addr) (ignored s)"
  "blocked (ban_addr addr key r t s) = (if addr \<in> set (blocked s) then blocked s else blocked s @ [addr])"
  by (auto simp: ban_addr_def asking_def welcomed_def blocked_def ignored_def map_filter_key list_ex_iff)

lemma ban_wf: "wf_state s \<Longrightarrow> wf_state (ban_addr addr key r t s)"
proof -
  assume w: "wf_state s"
  have "ps_asks (ban_addr addr key r t s) = ps_asks s" by (simp add: ban_addr_def)
  then show ?thesis using w by (auto simp: wf_state_def ban_addrs intro: length_drop_key)
qed

lemma wf_empty: "wf_state empty_state"
  by (simp add: wf_state_def empty_state_def asking_def welcomed_def blocked_def ignored_def)

lemma apply_op_wf: "wf_state s \<Longrightarrow> wf_state (apply_op op t s)"
proof -
  assume w: "wf_state s"
  show ?thesis
  proof (cases op)
    case (Reserve a)
    then show ?thesis using w knock_wf [OF w reserve_addrs(1-6)]
      by (auto simp: either_def split: sum.split prod.split)
  next
    case (Record_Knock a i n v p)
    then show ?thesis using w knock_wf [OF w record_knock_addrs(1-6)]
      by (auto simp: either_def split: sum.split prod.split)
  next
    case (Release a r)
    moreover have "set (asking (release_knock_reservation a r s)) \<subseteq> set (asking s)"
      "length (asking (release_knock_reservation a r s)) \<le> length (asking s)"
      by (auto simp: asking_def release_knock_reservation_def)
    ultimately show ?thesis using w
      by (auto simp: wf_state_def asking_def welcomed_def blocked_def ignored_def release_knock_reservation_def
          intro: distinct_map_of_filter le_trans [OF length_filter_le])
  next
    case (Ask p)
    have "length (filter (\<lambda>r. t < ask_until r) (ps_asks s)) \<le> MAX_OUTSTANDING_ASKS"
      by (rule le_trans [OF length_filter_le]) (use w in \<open>simp add: wf_state_def\<close>)
    then show ?thesis using w Ask
      by (simp add: wf_state_def asking_def welcomed_def blocked_def ignored_def add_ask_def Let_def)
  next
    case (Spend i)
    then show ?thesis using w
      by (auto simp: wf_state_def asking_def welcomed_def blocked_def ignored_def spend_ask_def Let_def intro: le_trans [OF length_filter_le])
  next
    case (Unblock a)
    then show ?thesis using w
      by (auto simp: wf_state_def asking_def welcomed_def blocked_def ignored_def unblock_def Let_def intro: distinct_map_of_filter)
  next
    case (Learn a k)
    then show ?thesis using w
      by (auto simp: wf_state_def asking_def welcomed_def blocked_def ignored_def record_pairing_key_def comp_def if_distrib cong: if_cong)
  next
    case (Hear rows)
    then show ?thesis using w by (simp add: wf_state_def observe_found_def asking_def welcomed_def blocked_def ignored_def)
  next
    case Lost
    then show ?thesis by (simp add: wf_empty)
  qed (use w in \<open>simp_all add: accept_wf mute_wf ban_wf verb_ignore_def verb_block_def Let_def split: option.split\<close>)
qed

lemma state_step_wf: "wf_state s \<Longrightarrow> wf_state (state_step s op)"
  by (simp add: state_step_def expire_def Let_def apply_op_wf expire_wf)

lemma state_after_wf: "wf_state (state_after ops)"
proof -
  have "wf_state s \<Longrightarrow> wf_state (foldl state_step s ops)" for s by (induction ops arbitrary: s) (auto simp: state_step_wf)
  then show ?thesis by (simp add: state_after_def wf_empty)
qed

section \<open>Where rows come from\<close>

lemma state_after_snoc: "state_after (ops @ [x]) = state_step (state_after ops) x"
  by (simp add: state_after_def)

lemma state_step_eq: "state_step s (op, t) = apply_op op t (expire_rows t s)"
  by (simp add: state_step_def expire_def Let_def)

text \<open>A row that was filled in comes from a knock that arrived from its address.\<close>

definition row_from :: "state_op \<Rightarrow> knock \<Rightarrow> bool" where
  "row_from op k =
     (case op of Record_Knock addr i name wire port \<Rightarrow>
        kn_addr k = addr \<and> kn_instance k = i \<and> kn_name k = name \<and> kn_wire k = wire \<and> kn_listen_port k = port
      | _ \<Rightarrow> False)"

lemma update_first_set: "x \<in> set (update_first p f xs) \<Longrightarrow> x \<in> set xs \<or> (\<exists>y \<in> set xs. p y \<and> x = f y)"
  by (induction xs) (auto split: if_splits)

lemma record_knock_rows:
  assumes "record_knock addr i name wire port t s = Inr (fresh, s')" "k \<in> set (ps_pending s')"
  shows "k \<in> set (ps_pending s) \<or> row_from (Record_Knock addr i name wire port) k"
  using assms by (auto simp: record_knock_def row_from_def dest!: update_first_set split: option.splits if_splits)

lemma reserve_rows:
  assumes "reserve_knock_slot addr t s = Inr (fresh, s')" "k \<in> set (ps_pending s')"
  shows "k \<in> set (ps_pending s) \<or> is_reservation_placeholder k"
  using assms by (auto simp: reserve_knock_slot_def is_reservation_placeholder_def split: option.splits if_splits)

lemma apply_op_rows:
  assumes "k \<in> set (ps_pending (apply_op op t s))" "\<not> is_reservation_placeholder k"
  shows "k \<in> set (ps_pending s) \<or> row_from op k"
proof (cases op)
  case (Reserve a)
  then show ?thesis using assms reserve_rows by (fastforce simp: either_def split: sum.splits prod.splits)
next
  case (Record_Knock a i n v p)
  then show ?thesis using assms record_knock_rows by (fastforce simp: either_def split: sum.splits prod.splits)
qed (use assms in \<open>auto simp: release_knock_reservation_def accept_knock_def verb_ignore_def mute_addr_def verb_block_def
      ban_addr_def unblock_def record_pairing_key_def observe_found_def add_ask_def spend_ask_def empty_state_def Let_def
      split: option.splits\<close>)

lemma pending_comes_from_a_knock:
  "k \<in> set (ps_pending (state_after ops)) \<Longrightarrow> \<not> is_reservation_placeholder k \<Longrightarrow> \<exists>x \<in> set ops. row_from (fst x) k"
proof (induction ops rule: rev_induct)
  case Nil
  then show ?case by (simp add: state_after_def empty_state_def)
next
  case (snoc x ops)
  obtain op t where x: "x = (op, t)" by (cases x)
  have "k \<in> set (ps_pending (expire_rows t (state_after ops))) \<or> row_from op k"
    using apply_op_rows snoc.prems by (simp add: x state_after_snoc state_step_eq)
  moreover have "set (ps_pending (expire_rows t s)) \<subseteq> set (ps_pending s)" for s by (auto simp: expire_rows_def)
  ultimately show ?case using snoc x by auto
qed

text \<open>A window comes from an accept: \<open>opened_by op t s w\<close> says the operation on \<open>s\<close> at \<open>t\<close> opened it.\<close>

definition opened_by :: "state_op \<Rightarrow> i64 \<Rightarrow> peer_state \<Rightarrow> accepted_instance \<Rightarrow> bool" where
  "opened_by op t s w =
     (case op of Accept sel \<Rightarrow>
        (case find_pending sel s of
           Some k \<Rightarrow> ac_addr w = kn_addr k \<and> ac_instance w = kn_instance k \<and> ac_opened w = t
                     \<and> ac_until w = saturating_add_i64 t (saturating_mul_i64 PAIRING_WINDOW_SECS 1000)
         | None \<Rightarrow> False)
      | _ \<Rightarrow> False)"

text \<open>The facts of a window that a learned key leaves as they are.\<close>

definition same_window :: "accepted_instance \<Rightarrow> accepted_instance \<Rightarrow> bool" where
  "same_window v w =
     (ac_addr v = ac_addr w \<and> ac_instance v = ac_instance w \<and> ac_opened v = ac_opened w \<and> ac_until v = ac_until w)"

lemma same_window_refl [simp]: "same_window w w" by (simp add: same_window_def)

lemma apply_op_windows:
  assumes "w \<in> set (ps_accepted (apply_op op t s))"
  shows "(\<exists>v \<in> set (ps_accepted s). same_window v w) \<or> opened_by op t s w"
proof -
  have own: "w \<in> set (ps_accepted s) \<Longrightarrow> \<exists>v \<in> set (ps_accepted s). same_window v w"
    using same_window_refl by blast
  show ?thesis
proof (cases op)
  case (Reserve a)
  then show ?thesis using assms own by (auto simp: either_def reserve_knock_slot_def split: sum.splits prod.splits option.splits if_splits)
next
  case (Record_Knock a i n v p)
  then show ?thesis using assms own by (auto simp: either_def record_knock_def split: sum.splits prod.splits option.splits if_splits)
next
  case (Accept sel)
  then show ?thesis using assms own by (auto simp: accept_knock_def opened_by_def Let_def split: option.splits)
next
  case (Learn a k)
  then show ?thesis using assms own by (auto simp: record_pairing_key_def same_window_def)
qed (use assms own in \<open>auto simp: release_knock_reservation_def verb_ignore_def mute_addr_def verb_block_def ban_addr_def
      unblock_def observe_found_def add_ask_def spend_ask_def empty_state_def Let_def split: option.splits\<close>)
qed

lemma window_comes_from_an_accept:
  "w \<in> set (ps_accepted (state_after ops)) \<Longrightarrow>
   \<exists>pre op t post. ops = pre @ (op, t) # post \<and> opened_by op t (expire_rows t (state_after pre)) w"
proof (induction ops arbitrary: w rule: rev_induct)
  case Nil
  then show ?case by (simp add: state_after_def empty_state_def)
next
  case (snoc x ops)
  obtain op t where x: "x = (op, t)" by (cases x)
  consider v where "v \<in> set (ps_accepted (expire_rows t (state_after ops)))" "same_window v w"
    | "opened_by op t (expire_rows t (state_after ops)) w"
    using apply_op_windows snoc.prems by (fastforce simp: x state_after_snoc state_step_eq)
  then show ?case
  proof cases
    case 1
    then have "v \<in> set (ps_accepted (state_after ops))" using drop_oldest_closed_sub by (fastforce simp: expire_rows_def)
    then obtain pre op' t' post where o: "ops = pre @ (op', t') # post" "opened_by op' t' (expire_rows t' (state_after pre)) v"
      using snoc.IH by blast
    have "opened_by op' t' (expire_rows t' (state_after pre)) w"
      using o(2) 1(2) by (auto simp: opened_by_def same_window_def split: state_op.splits option.splits)
    then show ?thesis using o(1) by (auto intro!: exI [of _ pre])
  next
    case 2
    then show ?thesis using x by blast
  qed
qed

section \<open>Blocked addresses\<close>

lemma apply_op_blocked:
  assumes "addr \<in> set (blocked s)" "op \<noteq> Unblock addr" "op \<noteq> Lost"
  shows "addr \<in> set (blocked (apply_op op t s))"
proof (cases op)
  case (Reserve a)
  then show ?thesis using assms reserve_addrs(3) by (fastforce simp: either_def split: sum.splits prod.splits)
next
  case (Record_Knock a i n v p)
  then show ?thesis using assms record_knock_addrs(3) by (fastforce simp: either_def split: sum.splits prod.splits)
next
  case (Block a)
  then show ?thesis using assms by (auto simp: verb_block_def Let_def ban_addrs split: option.split)
qed (use assms in \<open>auto simp: blocked_def release_knock_reservation_def accept_knock_def verb_ignore_def mute_addr_def
      unblock_def record_pairing_key_def observe_found_def add_ask_def spend_ask_def Let_def split: option.split\<close>)

text \<open>The ban of an address keeps the key it has: an address without a window teaches no other.\<close>

lemma key_learned_at_blocked: "wf_state s \<Longrightarrow> addr \<in> set (blocked s) \<Longrightarrow> key_learned_at addr s = None"
proof -
  assume "wf_state s" "addr \<in> set (blocked s)"
  then have "addr \<notin> ac_addr ` set (ps_accepted s)" by (auto simp: wf_state_def welcomed_def)
  then show ?thesis by (auto simp: key_learned_at_def find_None_iff bind_eq_None_conv)
qed

definition banned_with :: "string \<Rightarrow> peer_id \<Rightarrow> peer_state \<Rightarrow> bool" where
  "banned_with addr key s = list_ex (\<lambda>b. bn_addr b = addr \<and> bn_key b = Some key) (ps_banned s)"

lemma update_first_keeps:
  assumes "x \<in> set xs" "P x" "\<And>y. p y \<Longrightarrow> P y \<Longrightarrow> P (f y)"
  shows "\<exists>y \<in> set (update_first p f xs). P y"
  using assms by (induction xs) auto

lemma ban_addr_keeps:
  assumes "banned_with addr key s" "a = addr \<Longrightarrow> k = None"
  shows "banned_with addr key (ban_addr a k r t s)"
proof -
  obtain b where b: "b \<in> set (ps_banned s)" "bn_addr b = addr \<and> bn_key b = Some key" using assms(1) by (auto simp: banned_with_def list_ex_iff)
  let ?f = "\<lambda>b. b\<lparr>bn_key := (if k = None then bn_key b else k), bn_reason := r\<rparr>"
  have "\<exists>y \<in> set (update_first (\<lambda>b. bn_addr b = a) ?f (ps_banned s)). bn_addr y = addr \<and> bn_key y = Some key"
    by (rule update_first_keeps [where P = "\<lambda>b. bn_addr b = addr \<and> bn_key b = Some key", OF b]) (use assms(2) in auto)
  then show ?thesis using b by (auto simp: banned_with_def ban_addr_def list_ex_iff)
qed

lemma apply_op_banned_with:
  assumes "wf_state s" "banned_with addr key s" "op \<noteq> Unblock addr" "op \<noteq> Lost"
  shows "banned_with addr key (apply_op op t s)"
proof (cases op)
  case (Reserve a)
  then show ?thesis using assms by (auto simp: either_def banned_with_def reserve_knock_slot_def split: sum.splits prod.splits option.splits if_splits)
next
  case (Record_Knock a i n v p)
  then show ?thesis using assms by (auto simp: either_def banned_with_def record_knock_def split: sum.splits prod.splits option.splits if_splits)
next
  case (Block target)
  have "addr \<in> set (blocked s)" using assms(2) by (auto simp: banned_with_def blocked_def list_ex_iff)
  then have "key_learned_at addr s = None" using assms(1) by (rule key_learned_at_blocked [rotated])
  then show ?thesis using Block assms(2) by (auto simp: verb_block_def Let_def split: option.split intro!: ban_addr_keeps)
next
  case (Unblock a)
  then show ?thesis using assms by (auto simp: banned_with_def unblock_def Let_def list_ex_iff)
qed (use assms in \<open>auto simp: banned_with_def release_knock_reservation_def accept_knock_def verb_ignore_def mute_addr_def
      record_pairing_key_def observe_found_def add_ask_def spend_ask_def Let_def split: option.split\<close>)

lemma expire_banned: "ps_banned (expire_rows t s) = ps_banned s"
  by (simp add: expire_rows_def)

lemma stays_blocked:
  assumes "wf_state s" "addr \<in> set (blocked s)" "\<forall>x \<in> set later. fst x \<noteq> Unblock addr \<and> fst x \<noteq> Lost"
  shows "addr \<in> set (blocked (foldl state_step s later)) \<and> wf_state (foldl state_step s later)
         \<and> (banned_with addr key s \<longrightarrow> banned_with addr key (foldl state_step s later))"
  using assms
proof (induction later arbitrary: s)
  case (Cons x later)
  obtain op t where x: "x = (op, t)" by (cases x)
  have op: "op \<noteq> Unblock addr" "op \<noteq> Lost" using Cons.prems(3) x by auto
  have "addr \<in> set (blocked (state_step s x))"
    using apply_op_blocked [of addr "expire_rows t s" op t] Cons.prems(2) op by (simp add: x state_step_eq expire_addrs(3))
  moreover have "banned_with addr key s \<Longrightarrow> banned_with addr key (state_step s x)"
    using apply_op_banned_with [OF expire_wf [OF Cons.prems(1)] _ op] by (simp add: x state_step_eq banned_with_def expire_banned)
  ultimately show ?case using Cons.IH [of "state_step s x"] Cons.prems state_step_wf by auto
qed simp

lemma ban_addr_banned_with: "wf_state s \<Longrightarrow> banned_with addr k (ban_addr addr (Some k) r t s)"
proof -
  have "\<exists>y \<in> set (update_first p f xs). Q y" if "x \<in> set xs" "p x" "\<And>y. p y \<Longrightarrow> Q (f y)" for p f xs Q and x :: ban
    using that by (induction xs) auto
  then show ?thesis by (auto simp: banned_with_def ban_addr_def list_ex_iff)
qed

section \<open>Properties\<close>

text \<open>Whatever happens, at most eight Macs are asking to pair, one row per address, at most eight
  one-time invitations are out, and an address that is blocked is neither asking nor welcome.\<close>

theorem pairing_queue_is_bounded:
  "length (ps_pending (state_after ops)) \<le> 8 \<and> distinct (map kn_addr (ps_pending (state_after ops)))
   \<and> length (ps_asks (state_after ops)) \<le> 8 \<and> distinct (map ac_addr (ps_accepted (state_after ops)))
   \<and> set (map bn_addr (ps_banned (state_after ops)))
       \<inter> (kn_addr ` set (ps_pending (state_after ops)) \<union> ac_addr ` set (ps_accepted (state_after ops))) = {}"
  using state_after_wf [of ops]
  by (simp add: wf_state_def asking_def welcomed_def blocked_def MAX_PENDING_KNOCKS_def MAX_OUTSTANDING_ASKS_def)

text \<open>C33. A first pairing is open for an instance at an address only when a Mac knocked from that address
  under that instance, the operator accepted that knock less than 120 seconds ago, and the address is not
  blocked.\<close>

theorem first_pairing_was_accepted:
  assumes "accepted_window addr i now (state_after ops)"
  shows "\<exists>pre sel t post k. ops = pre @ (Accept sel, t) # post
           \<and> find_pending sel (expire_rows t (state_after pre)) = Some k \<and> kn_addr k = addr \<and> kn_instance k = i
           \<and> (\<exists>x \<in> set pre. row_from (fst x) k)
           \<and> t \<le> now \<and> now < saturating_add_i64 t 120000 \<and> \<not> is_address_banned addr (state_after ops)"
proof -
  obtain w where w: "w \<in> set (ps_accepted (state_after ops))" "ac_addr w = addr" "ac_instance w = i" "window_open now w"
    using assms by (auto simp: accepted_window_def list_ex_iff)
  obtain pre op t post where o: "ops = pre @ (op, t) # post" "opened_by op t (expire_rows t (state_after pre)) w"
    using window_comes_from_an_accept [OF w(1)] by blast
  then obtain sel k where k: "op = Accept sel" "find_pending sel (expire_rows t (state_after pre)) = Some k"
    "ac_addr w = kn_addr k" "ac_instance w = kn_instance k" "ac_opened w = t"
    "ac_until w = saturating_add_i64 t (saturating_mul_i64 PAIRING_WINDOW_SECS 1000)"
    by (auto simp: opened_by_def split: state_op.splits option.splits)
  have "k \<in> set (ps_pending (state_after pre))" "\<not> is_reservation_placeholder k"
    using find_pending_in [OF k(2)] by (auto simp: expire_rows_def)
  then have "\<exists>x \<in> set pre. row_from (fst x) k" by (rule pending_comes_from_a_knock)
  moreover have "\<not> is_address_banned addr (state_after ops)"
    using state_after_wf [of ops] w(1,2)
    by (auto simp: wf_state_def is_address_banned_iff welcomed_def)
  moreover have "saturating_mul_i64 PAIRING_WINDOW_SECS 1000 = 120000"
    by (simp add: saturating_mul_i64_def sat64_def PAIRING_WINDOW_SECS_def i64_min_def i64_max_def)
  moreover have "t \<le> now" "now < ac_until w" using w(4) k(5) by (simp_all add: window_open_def)
  ultimately show ?thesis using o(1) k w(2,3) by (intro exI [of _ pre] exI [of _ sel] exI [of _ t] exI [of _ post] exI [of _ k]) simp
qed

text \<open>C34. What the operator blocks stays out, whatever happens short of an unblock of that address or the
  loss of the file: the address is refused, no first pairing opens for it, and the static key an earlier
  handshake from it revealed is refused from every address.\<close>

theorem block_holds:
  assumes "knock_target_addr target (expire_rows t (state_after before)) = Some addr"
    and "\<forall>x \<in> set later. fst x \<noteq> Unblock addr \<and> fst x \<noteq> Lost"
  shows "is_address_banned addr (state_after (before @ (Block target, t) # later))
         \<and> \<not> accepted_window addr i now (state_after (before @ (Block target, t) # later))
         \<and> (key_learned_at addr (expire_rows t (state_after before)) = Some key \<longrightarrow>
              is_key_banned key (state_after (before @ (Block target, t) # later)))"
proof -
  let ?s = "expire_rows t (state_after before)"
  let ?b = "ban_addr addr (key_learned_at addr ?s) Blocked t ?s"
  let ?e = "state_after (before @ (Block target, t) # later)"
  have wf: "wf_state ?s" "wf_state ?b" by (simp_all add: expire_wf state_after_wf ban_wf)
  have "state_after (before @ (Block target, t) # later) = foldl state_step ?b later"
    using assms(1) by (simp add: state_after_def state_step_eq verb_block_def Let_def)
  moreover have "addr \<in> set (blocked ?b)" by (simp add: ban_addrs)
  moreover have "key_learned_at addr ?s = Some key \<Longrightarrow> banned_with addr key ?b"
    using ban_addr_banned_with [OF wf(1), of addr key Blocked t] by simp
  ultimately have s: "addr \<in> set (blocked ?e)" "wf_state ?e"
    "key_learned_at addr ?s = Some key \<Longrightarrow> banned_with addr key ?e"
    using stays_blocked [OF wf(2) _ assms(2), of key] by auto
  have "addr \<notin> set (welcomed ?e)" using s(1,2) by (auto simp: wf_state_def)
  then have "\<not> accepted_window addr i now ?e" by (auto simp: accepted_window_def list_ex_iff welcomed_def)
  moreover have "banned_with addr key ?e \<Longrightarrow> is_key_banned key ?e" by (auto simp: banned_with_def is_key_banned_def list_ex_iff)
  ultimately show ?thesis using s by (simp add: is_address_banned_iff)
qed

text \<open>An address typed in another spelling than the one connections arrive under is stored as typed,
  and blocking it changes nothing for the Mac at that address.\<close>

theorem block_keeps_the_spelling:
  assumes "find_pending target s = None" "parse_ip (trim target) = Some ip" "target \<noteq> show_ip ip"
  shows "fst (verb_block target t s) = Some (target, key_learned_at target s)
         \<and> is_address_banned (show_ip ip) (snd (verb_block target t s)) = is_address_banned (show_ip ip) s"
proof -
  have v: "verb_block target t s = (Some (target, key_learned_at target s), ban_addr target (key_learned_at target s) Blocked t s)"
    using assms(1,2) by (simp add: verb_block_def knock_target_addr_def is_knock_address_def Let_def)
  have "show_ip ip \<in> set (blocked (ban_addr target k Blocked t s)) \<longleftrightarrow> show_ip ip \<in> set (blocked s)" for k
    using assms(3) by (auto simp: ban_addrs)
  then show ?thesis by (simp add: v is_address_banned_iff)
qed

section \<open>Witnesses\<close>

definition caller_id :: instance_id where "caller_id = [1, 2, 3, 4, 5, 6, 7, 8]"

definition asked :: "(state_op \<times> i64) list" where
  "asked = [(Record_Knock ''10.0.0.7'' caller_id None 3 None, 0)]"

lemma asked_state: "find_pending ''10.0.0.7'' (expire_rows 5 (state_after asked)) =
    Some \<lparr>kn_addr = ''10.0.0.7'', kn_instance = caller_id, kn_name = None, kn_wire = 3, kn_listen_port = None,
          kn_first_seen = 0, kn_last_seen = 0\<rparr>"
  by code_simp

theorem first_pairing_was_accepted_witness:
  "\<exists>pre sel t post k. asked @ [(Accept ''10.0.0.7'', 5)] = pre @ (Accept sel, t) # post
     \<and> find_pending sel (expire_rows t (state_after pre)) = Some k \<and> kn_addr k = ''10.0.0.7'' \<and> t \<le> 100"
proof -
  have "accepted_window ''10.0.0.7'' caller_id 100 (state_after (asked @ [(Accept ''10.0.0.7'', 5)]))" by code_simp
  from first_pairing_was_accepted [OF this] show ?thesis by blast
qed

definition met :: "(state_op \<times> i64) list" where
  "met = asked @ [(Accept ''10.0.0.7'', 5), (Learn ''10.0.0.7'' [9, 9], 50)]"

theorem block_holds_witness:
  "is_address_banned ''10.0.0.7'' (state_after (met @ [(Block ''10.0.0.7'', 60), (Record_Knock ''10.0.0.7'' caller_id None 3 None, 70)]))
   \<and> is_key_banned [9, 9] (state_after (met @ [(Block ''10.0.0.7'', 60), (Record_Knock ''10.0.0.7'' caller_id None 3 None, 70)]))"
proof -
  have t: "knock_target_addr ''10.0.0.7'' (expire_rows 60 (state_after met)) = Some ''10.0.0.7''"
    and k: "key_learned_at ''10.0.0.7'' (expire_rows 60 (state_after met)) = Some [9, 9]" by code_simp+
  show ?thesis
    using block_holds [OF t, of "[(Record_Knock ''10.0.0.7'' caller_id None 3 None, 70)]" caller_id 80 "[9, 9]"] k by simp
qed

theorem block_keeps_the_spelling_witness:
  "fst (verb_block ''0:0::7'' 60 empty_state) = Some (''0:0::7'', None)
   \<and> \<not> is_address_banned (show_ip (V6 [0, 0, 0, 0, 0, 0, 0, 7])) (snd (verb_block ''0:0::7'' 60 empty_state))"
proof -
  have f: "find_pending ''0:0::7'' empty_state = None" by code_simp
  have p: "parse_ip (trim ''0:0::7'') = Some (V6 [0, 0, 0, 0, 0, 0, 0, 7])" by code_simp
  have l: "length (show_ip (V6 [0, 0, 0, 0, 0, 0, 0, 7])) = 3"
    by (simp add: to_ipv4_mapped_def Let_def show_groups_def lower_hex.simps)
  have d: "''0:0::7'' \<noteq> show_ip (V6 [0, 0, 0, 0, 0, 0, 0, 7])"
  proof
    assume "''0:0::7'' = show_ip (V6 [0, 0, 0, 0, 0, 0, 0, 7])"
    then have "length ''0:0::7'' = length (show_ip (V6 [0, 0, 0, 0, 0, 0, 0, 7]))" by (rule arg_cong)
    with l show False by (simp del: show_ip.simps)
  qed
  show ?thesis using block_keeps_the_spelling [OF f p d, of 60]
    by (simp add: key_learned_at_def is_address_banned_def empty_state_def del: show_ip.simps)
qed

end
