(* ===== verification/Join_Key.thy ===== *)
theory Join_Key
  imports Peer_Addr Lease
begin

text \<open>
  The join key an operator pastes, \<^verbatim>\<open>peer/pair.rs\<close>, and the list of addresses inside it,
  \<^verbatim>\<open>peer/dialaddrs.rs\<close>. The base32 codec is the \<^verbatim>\<open>data-encoding\<close> crate's: \<open>enc\<close> and \<open>dec\<close> are
  arguments, and what the key relies on is that decoding undoes encoding and that the symbols are not
  white space. A refusal names what was wrong with the key, never its content.
\<close>

section \<open>The list of addresses\<close>

definition MAX_RECORD_ENDPOINTS :: nat where "MAX_RECORD_ENDPOINTS = 4"
definition FAMILY_V4 :: byte where "FAMILY_V4 = 4"
definition FAMILY_V6 :: byte where "FAMILY_V6 = 6"

datatype decode_refusal = Too_Many nat | Cut_Short | Unknown_Family byte

definition be16 :: "nat \<Rightarrow> byte list" where
  "be16 n = [word_of_nat (n div 256), word_of_nat n]"

definition of_be16 :: "byte \<Rightarrow> byte \<Rightarrow> nat" where
  "of_be16 hi lo = unat hi * 256 + unat lo"

fun of_be16s :: "byte list \<Rightarrow> nat list" where
  "of_be16s (hi # lo # bs) = of_be16 hi lo # of_be16s bs"
| "of_be16s _ = []"

fun address_bytes :: "ip_addr \<Rightarrow> byte list" where
  "address_bytes (V4 os) = FAMILY_V4 # map word_of_nat os"
| "address_bytes (V6 gs) = FAMILY_V6 # concat (map be16 gs)"

definition encode_addrs :: "socket_addr list \<Rightarrow> byte list" where
  "encode_addrs addrs =
     word_of_nat (length addrs) # concat (map (\<lambda>a. address_bytes (so_ip a) @ be16 (so_port a)) addrs)"

definition decode_ip :: "byte list \<Rightarrow> decode_refusal + ip_addr \<times> byte list" where
  "decode_ip bytes =
     (case bytes of
        [] \<Rightarrow> Inl Cut_Short
      | family # rest \<Rightarrow>
          if family = FAMILY_V4
          then (if length rest < 4 then Inl Cut_Short else Inr (V4 (map unat (take 4 rest)), drop 4 rest))
          else if family = FAMILY_V6
          then (if length rest < 16 then Inl Cut_Short else Inr (V6 (of_be16s (take 16 rest)), drop 16 rest))
          else Inl (Unknown_Family family))"

fun decode_loop_addrs :: "nat \<Rightarrow> byte list \<Rightarrow> decode_refusal + socket_addr list \<times> byte list" where
  "decode_loop_addrs 0 bytes = Inr ([], bytes)"
| "decode_loop_addrs (Suc n) bytes =
     (case decode_ip bytes of
        Inl e \<Rightarrow> Inl e
      | Inr (ip, rest) \<Rightarrow>
          (case rest of
             hi # lo # rest \<Rightarrow>
               (case decode_loop_addrs n rest of
                  Inl e \<Rightarrow> Inl e
                | Inr (as, rest) \<Rightarrow> Inr (socket_new ip (of_be16 hi lo) # as, rest))
           | _ \<Rightarrow> Inl Cut_Short))"

definition decode_prefix :: "byte list \<Rightarrow> decode_refusal + socket_addr list \<times> byte list" where
  "decode_prefix bytes =
     (case bytes of
        [] \<Rightarrow> Inl Cut_Short
      | count # rest \<Rightarrow>
          if unat count > MAX_RECORD_ENDPOINTS then Inl (Too_Many (unat count)) else decode_loop_addrs (unat count) rest)"

definition decode_addrs :: "byte list \<Rightarrow> decode_refusal + socket_addr list" where
  "decode_addrs bytes =
     (case decode_prefix bytes of Inl e \<Rightarrow> Inl e | Inr (as, rest) \<Rightarrow> if rest = [] then Inr as else Inl Cut_Short)"

section \<open>The key\<close>

record join_token =
  jt_addrs :: "dial_address list"
  jt_registrar :: peer_id
  jt_secret :: "byte list"

text \<open>\<open>PartialEq\<close>: the kinds are this node's own knowledge and are not compared.\<close>

definition same_token :: "join_token \<Rightarrow> join_token \<Rightarrow> bool" where
  "same_token a b =
     (jt_registrar a = jt_registrar b \<and> jt_secret a = jt_secret b \<and> map fst (jt_addrs a) = map fst (jt_addrs b))"

definition token_new :: "socket_addr list \<Rightarrow> peer_id \<Rightarrow> byte list \<Rightarrow> join_token" where
  "token_new addrs registrar secret =
     \<lparr>jt_addrs = map (\<lambda>a. (a, From_Key)) addrs, jt_registrar = registrar, jt_secret = secret\<rparr>"

definition sockets :: "join_token \<Rightarrow> socket_addr list" where
  "sockets t = map fst (jt_addrs t)"

definition KEY_PREFIX :: string where "KEY_PREFIX = ''tcr-join:''"
definition TOKEN_PREFIX :: string where "TOKEN_PREFIX = ''tcr-join:v1:''"
definition TOKEN_PREFIX_V2 :: string where "TOKEN_PREFIX_V2 = ''tcr-join:v2:''"
definition TOKEN_PREFIX_V3 :: string where "TOKEN_PREFIX_V3 = ''tcr-join:v3:''"
definition TOKEN_V3_MAGIC :: "byte list" where "TOKEN_V3_MAGIC = [0x54, 0x43, 0x52, 0x4B]"
definition TOKEN_V3_VERSION :: byte where "TOKEN_V3_VERSION = 1"

datatype key_refusal =
    Bad_Addresses decode_refusal | Wrong_Length | No_Address | Not_Base32 | Key_Too_Short | Bad_Magic
  | Bad_Version byte | Not_A_Join_Key | Too_Few_Fields | Not_A_Socket | Listen_Address | Port_Zero
  | Bad_Registrar | Bad_Secret

definition to_v3_body :: "join_token \<Rightarrow> byte list" where
  "to_v3_body t = encode_addrs (sockets t) @ jt_registrar t @ jt_secret t"

definition from_v3_body :: "byte list \<Rightarrow> key_refusal + join_token" where
  "from_v3_body bytes =
     (case decode_prefix bytes of
        Inl e \<Rightarrow> Inl (Bad_Addresses e)
      | Inr (addrs, rest) \<Rightarrow>
          if length rest \<noteq> 64 then Inl Wrong_Length
          else if addrs = [] then Inl No_Address
          else Inr (token_new addrs (take 32 rest) (take 32 (drop 32 rest))))"

definition to_token_v3 :: "(byte list \<Rightarrow> string) \<Rightarrow> join_token \<Rightarrow> string" where
  "to_token_v3 enc t = TOKEN_PREFIX_V3 @ enc (TOKEN_V3_MAGIC @ [TOKEN_V3_VERSION] @ to_v3_body t)"

definition parse_v3 :: "(string \<Rightarrow> byte list option) \<Rightarrow> string \<Rightarrow> key_refusal + join_token" where
  "parse_v3 dec body =
     (case dec body of
        None \<Rightarrow> Inl Not_Base32
      | Some bytes \<Rightarrow>
          if length bytes < length TOKEN_V3_MAGIC + 1 + 1 + 32 + 32 then Inl Key_Too_Short
          else if take 4 bytes \<noteq> TOKEN_V3_MAGIC then Inl Bad_Magic
          else if bytes ! 4 \<noteq> TOKEN_V3_VERSION then Inl (Bad_Version (bytes ! 4))
          else from_v3_body (drop 5 bytes))"

definition to_token :: "(byte list \<Rightarrow> string) \<Rightarrow> join_token \<Rightarrow> string" where
  "to_token enc t =
     TOKEN_PREFIX_V2 @ join_with '','' (map show_socket (sockets t)) @ '':'' @ enc (jt_registrar t) @ '':'' @ enc (jt_secret t)"

definition parse_dial_addr :: "string \<Rightarrow> key_refusal + socket_addr" where
  "parse_dial_addr field =
     (case parse_socket field of
        None \<Rightarrow> Inl Not_A_Socket
      | Some a \<Rightarrow>
          if is_unspecified (so_ip a) then Inl Listen_Address
          else if so_port a = 0 then Inl Port_Zero else Inr a)"

fun parse_dial_addrs :: "string list \<Rightarrow> key_refusal + socket_addr list" where
  "parse_dial_addrs [] = Inr []"
| "parse_dial_addrs (f # fs) =
     (case parse_dial_addr f of
        Inl e \<Rightarrow> Inl e
      | Inr a \<Rightarrow> (case parse_dial_addrs fs of Inl e \<Rightarrow> Inl e | Inr as \<Rightarrow> Inr (a # as)))"

definition decode_key32 :: "(string \<Rightarrow> byte list option) \<Rightarrow> string \<Rightarrow> byte list option" where
  "decode_key32 dec field = filter_opt (\<lambda>bs. length bs = 32) (dec field)"

definition parse_fields :: "(string \<Rightarrow> byte list option) \<Rightarrow> bool \<Rightarrow> string \<Rightarrow> key_refusal + join_token" where
  "parse_fields dec v2 body =
     (case rsplit_once (CHR '':'') body of
        None \<Rightarrow> Inl Too_Few_Fields
      | Some (front, secret) \<Rightarrow>
          (case rsplit_once (CHR '':'') front of
             None \<Rightarrow> Inl Too_Few_Fields
           | Some (addrs, registrar) \<Rightarrow>
               (case parse_dial_addrs (if v2 then split_on (CHR '','') addrs else [addrs]) of
                  Inl e \<Rightarrow> Inl e
                | Inr as \<Rightarrow>
                    if as = [] then Inl No_Address
                    else (case decode_key32 dec registrar of
                            None \<Rightarrow> Inl Bad_Registrar
                          | Some r \<Rightarrow> (case decode_key32 dec secret of
                                          None \<Rightarrow> Inl Bad_Secret | Some s \<Rightarrow> Inr (token_new as r s))))))"

definition parse_token :: "(string \<Rightarrow> byte list option) \<Rightarrow> string \<Rightarrow> key_refusal + join_token" where
  "parse_token dec raw =
     (let token = trim raw in
      case strip_prefix TOKEN_PREFIX_V3 token of
        Some body \<Rightarrow> parse_v3 dec body
      | None \<Rightarrow>
          (case strip_prefix TOKEN_PREFIX_V2 token of
             Some body \<Rightarrow> parse_fields dec True body
           | None \<Rightarrow>
               (case strip_prefix TOKEN_PREFIX token of
                  Some body \<Rightarrow> parse_fields dec False body
                | None \<Rightarrow> Inl Not_A_Join_Key)))"

section \<open>Reading a list back\<close>

fun ip_ok :: "ip_addr \<Rightarrow> bool" where
  "ip_ok (V4 os) = (length os = 4 \<and> list_all (\<lambda>n. n < 256) os)"
| "ip_ok (V6 gs) = (length gs = 8 \<and> list_all (\<lambda>n. n < 65536) gs)"

definition socket_ok :: "socket_addr \<Rightarrow> bool" where
  "socket_ok a = (ip_ok (so_ip a) \<and> so_port a < 65536)"

lemma of_be16_be16: "n < 65536 \<Longrightarrow> of_be16 (word_of_nat (n div 256)) (word_of_nat n) = n"
  by (simp add: of_be16_def unsigned_of_nat take_bit_eq_mod div_less_iff_less_mult)

lemma of_be16s_concat: "list_all (\<lambda>n. n < 65536) gs \<Longrightarrow> of_be16s (concat (map be16 gs)) = gs"
  by (induction gs) (simp_all add: be16_def of_be16_be16)

lemma length_be16s: "length (concat (map be16 gs)) = 2 * length gs"
  by (induction gs) (simp_all add: be16_def)

lemma decode_ip_bytes: "ip_ok ip \<Longrightarrow> decode_ip (address_bytes ip @ rest) = Inr (ip, rest)"
proof (cases ip)
  case (V4 os)
  assume "ip_ok ip"
  then have "map (unat \<circ> (word_of_nat :: nat \<Rightarrow> byte)) os = os"
    by (intro map_idI) (auto simp: V4 unat_byte list_all_iff)
  then show ?thesis using \<open>ip_ok ip\<close> by (simp add: V4 decode_ip_def)
next
  case (V6 gs)
  assume "ip_ok ip"
  then show ?thesis
    by (simp add: V6 decode_ip_def length_be16s of_be16s_concat FAMILY_V4_def FAMILY_V6_def)
qed

lemma decode_loop_encode:
  "list_all socket_ok as \<Longrightarrow>
   decode_loop_addrs (length as) (concat (map (\<lambda>a. address_bytes (so_ip a) @ be16 (so_port a)) as) @ rest)
     = Inr (map (\<lambda>a. socket_new (so_ip a) (so_port a)) as, rest)"
  by (induction as) (auto simp: socket_ok_def decode_ip_bytes be16_def of_be16_be16)

lemma decode_prefix_encode:
  assumes "list_all socket_ok as" "length as < 256"
  shows "decode_prefix (encode_addrs as @ rest) =
    (if length as > MAX_RECORD_ENDPOINTS then Inl (Too_Many (length as))
     else Inr (map (\<lambda>a. socket_new (so_ip a) (so_port a)) as, rest))"
  using assms by (simp add: decode_prefix_def encode_addrs_def unat_byte decode_loop_encode)

section \<open>Which keys can be read\<close>

lemma prefix_no_space: "c \<in> set TOKEN_PREFIX_V3 \<Longrightarrow> \<not> is_ascii_space c"
  by (auto simp: TOKEN_PREFIX_V3_def is_ascii_space_def)

text \<open>C37. A key in the spelling this build prints reads back as itself exactly when it carries one to
  four addresses; with five or more, which is what a Mac with five addresses prints, no build reads it.\<close>

theorem printed_key_is_readable:
  assumes codec: "\<And>bs. dec (enc bs) = Some bs" "\<And>bs c. c \<in> set (enc bs) \<Longrightarrow> \<not> is_ascii_space c"
    and addrs: "list_all socket_ok (sockets t)" "length (sockets t) < 256"
    and keys: "length (jt_registrar t) = 32" "length (jt_secret t) = 32"
  shows "parse_token dec (to_token_v3 enc t) =
    (if sockets t = [] then Inl No_Address
     else if length (sockets t) > 4 then Inl (Bad_Addresses (Too_Many (length (sockets t))))
     else Inr (token_new (map (\<lambda>a. socket_new (so_ip a) (so_port a)) (sockets t)) (jt_registrar t) (jt_secret t)))"
proof -
  let ?bs = "TOKEN_V3_MAGIC @ [TOKEN_V3_VERSION] @ to_v3_body t"
  have "trim (to_token_v3 enc t) = to_token_v3 enc t"
    by (rule trim_no_space) (auto simp: to_token_v3_def dest: codec(2) prefix_no_space)
  then have "parse_token dec (to_token_v3 enc t) = parse_v3 dec (enc ?bs)"
    by (simp add: parse_token_def Let_def to_token_v3_def)
  also have "\<dots> = from_v3_body (to_v3_body t)"
    using keys by (simp add: parse_v3_def codec(1) TOKEN_V3_MAGIC_def to_v3_body_def encode_addrs_def)
  also have "\<dots> = (if length (sockets t) > MAX_RECORD_ENDPOINTS then Inl (Bad_Addresses (Too_Many (length (sockets t))))
     else if sockets t = [] then Inl No_Address
     else Inr (token_new (map (\<lambda>a. socket_new (so_ip a) (so_port a)) (sockets t)) (jt_registrar t) (jt_secret t)))"
    using decode_prefix_encode [OF addrs, of "jt_registrar t @ jt_secret t"] keys
    by (simp add: from_v3_body_def to_v3_body_def)
  finally show ?thesis by (auto simp: MAX_RECORD_ENDPOINTS_def)
qed

text \<open>A Mac with five usable addresses, under a codec that writes every byte as two hexadecimal digits.\<close>

definition five_interfaces :: "host_address list" where
  "five_interfaces = map (\<lambda>n. \<lparr>ha_interface = ''en0'', ha_addr = V4 [192, 168, 1, n]\<rparr>) [1, 2, 3, 4, 5]"

definition five_key :: join_token where
  "five_key = \<lparr>jt_addrs = dial_addresses (socket_new (V4 [0, 0, 0, 0]) 7755) five_interfaces None,
               jt_registrar = replicate 32 1, jt_secret = replicate 32 2\<rparr>"

definition hex_decode :: "string \<Rightarrow> byte list option" where
  "hex_decode s = (case instance_bytes s of Inr bs \<Rightarrow> Some bs | Inl _ \<Rightarrow> None)"

theorem printed_key_is_readable_witness:
  "parse_token hex_decode (to_token_v3 instance_to_wire five_key) = Inl (Bad_Addresses (Too_Many 5))"
proof -
  have s: "sockets five_key = map (\<lambda>n. socket_new (V4 [192, 168, 1, n]) 7755) [1, 2, 3, 4, 5]"
    by (simp add: sockets_def five_key_def five_interfaces_def dial_addresses_def Let_def is_carrier_grade_nat_def
        dial_push_def socket_new_def)
  have codec: "hex_decode (instance_to_wire bs) = Some bs" "c \<in> set (instance_to_wire bs) \<Longrightarrow> \<not> is_ascii_space c" for bs c
    using instance_to_wire_chars [of c bs] by (auto simp: hex_decode_def instance_bytes_wire is_ascii_space_def)
  have "list_all socket_ok (sockets five_key)" "length (sockets five_key) < 256"
    by (simp_all add: s socket_ok_def socket_new_def)
  moreover have "length (jt_registrar five_key) = 32" "length (jt_secret five_key) = 32" by (simp_all add: five_key_def)
  ultimately show ?thesis
    using printed_key_is_readable [of hex_decode instance_to_wire five_key] codec by (simp add: s)
qed

end
