(* ===== verification/Pairing.thy ===== *)
theory Pairing
  imports Join_Key
begin

text \<open>
  The peers file: the Macs this one has pinned, what each may do, and the invitations that are out
  (\<^verbatim>\<open>peer/config.rs\<close>, \<^verbatim>\<open>peer/pair.rs\<close>). Every writer holds the file's lock from its read to its save, so an
  operation is one step from the file to the file. What decides nothing here (the borrow settings, the
  dead drop) is left out of the file; random ids and secrets are arguments.
\<close>

section \<open>Rows\<close>

record control_grants =
  cg_briefs :: bool
  cg_lendable :: bool
  cg_diag :: bool
  cg_drop :: bool

record allow =
  al_relay :: bool
  al_gateway :: bool
  al_carry :: bool
  al_inspect :: bool
  al_allow_disclose :: bool
  al_accept_move :: bool
  al_control :: control_grants

definition default_allow :: allow where
  "default_allow =
     \<lparr>al_relay = False, al_gateway = False, al_carry = False, al_inspect = False, al_allow_disclose = False,
      al_accept_move = False, al_control = \<lparr>cg_briefs = False, cg_lendable = False, cg_diag = False, cg_drop = False\<rparr>\<rparr>"

datatype endpoint_locator = Direct_To socket_addr | Via_Peer peer_id | Reverse_Peer peer_id

datatype endpoint_source = From_Paired | From_Hello | From_Beacon | From_Mapping | From_Brief | From_Drop | From_Moved

record endpoint =
  ep_locator :: endpoint_locator
  ep_observed :: i64
  ep_source :: endpoint_source

record pinned_row =
  pn_node :: peer_id
  pn_label :: string
  pn_endpoints :: "endpoint list"
  pn_added_at :: i64
  pn_allow :: allow
  pn_lend :: "lend_grant list"
  pn_secret :: "byte list option"
  pn_sees_us :: "(string \<times> u64) option"

record pending_invite =
  iv_id :: u64
  iv_label :: string
  iv_secret :: "byte list"
  iv_expires :: i64
  iv_uses :: u8

record peer_file =
  pf_listen :: "socket_addr option"
  pf_internet :: bool
  pf_network_key :: "byte list option"
  pf_peers :: "pinned_row list"
  pf_invites :: "pending_invite list"

definition MAX_ENDPOINTS_PER_PEER :: nat where "MAX_ENDPOINTS_PER_PEER = 8"
definition MAX_OUTSTANDING_INVITES :: nat where "MAX_OUTSTANDING_INVITES = 8"

text \<open>The row as the lender's ledger reads it.\<close>

definition lending_row :: "pinned_row \<Rightarrow> peer_row" where
  "lending_row r = \<lparr>pr_inspect = al_inspect (pn_allow r), pr_lend = pn_lend r\<rparr>"

definition row_of :: "peer_id \<Rightarrow> peer_file \<Rightarrow> pinned_row option" where
  "row_of p f = List.find (\<lambda>r. pn_node r = p) (pf_peers f)"

section \<open>Endpoints\<close>

definition endpoint_direct :: "socket_addr \<Rightarrow> i64 \<Rightarrow> endpoint_source \<Rightarrow> endpoint" where
  "endpoint_direct a t src = \<lparr>ep_locator = Direct_To a, ep_observed = t, ep_source = src\<rparr>"

definition direct_addr :: "endpoint \<Rightarrow> socket_addr option" where
  "direct_addr e = (case ep_locator e of Direct_To a \<Rightarrow> Some a | _ \<Rightarrow> None)"

definition observe_endpoint :: "endpoint \<Rightarrow> pinned_row \<Rightarrow> pinned_row" where
  "observe_endpoint e r =
     r\<lparr>pn_endpoints := take MAX_ENDPOINTS_PER_PEER
         (sort_key (\<lambda>x. - ep_observed x) (e # filter (\<lambda>x. ep_locator x \<noteq> ep_locator e) (pn_endpoints r)))\<rparr>"

definition locator_from :: "socket_addr \<Rightarrow> pinned_row \<Rightarrow> endpoint_locator option" where
  "locator_from src r =
     map_option ep_locator
       (List.find (\<lambda>e. is_some_and (direct_addr e) (\<lambda>a. so_ip a = so_ip src)) (pn_endpoints r))"

fun update_row :: "peer_id \<Rightarrow> (pinned_row \<Rightarrow> pinned_row) \<Rightarrow> pinned_row list \<Rightarrow> pinned_row list" where
  "update_row p f [] = []"
| "update_row p f (r # rs) = (if pn_node r = p then f r # rs else r # update_row p f rs)"

datatype observed = Written nat | Nothing_Dialable | No_Row

definition observe_endpoints :: "peer_id \<Rightarrow> endpoint list \<Rightarrow> peer_file \<Rightarrow> observed \<times> peer_file" where
  "observe_endpoints p es f =
     (let es = filter (\<lambda>e. is_none_or (direct_addr e) is_dialable_claim) es in
      if es = [] then (Nothing_Dialable, f)
      else if row_of p f = None then (No_Row, f)
      else (Written (length es), f\<lparr>pf_peers := update_row p (\<lambda>r. foldl (\<lambda>r e. observe_endpoint e r) r es) (pf_peers f)\<rparr>))"

text \<open>\<open>endpoints_from_hello\<close> and the port a hello's addresses agree on.\<close>

definition endpoints_from_hello :: "string list \<Rightarrow> i64 \<Rightarrow> endpoint list" where
  "endpoints_from_hello addrs t =
     map (\<lambda>a. endpoint_direct a t From_Hello) (filter is_dialable_claim (List.map_filter parse_socket addrs))"

fun agreed_port :: "socket_addr list \<Rightarrow> nat option \<Rightarrow> nat option" where
  "agreed_port [] held = held"
| "agreed_port (a # as) held =
     (if so_port a = 0 then agreed_port as held
      else case held of
        None \<Rightarrow> agreed_port as (Some (so_port a))
      | Some port \<Rightarrow> if port = so_port a then agreed_port as held else None)"

definition announced_port :: "string list \<Rightarrow> nat option" where
  "announced_port addrs = agreed_port (List.map_filter parse_socket addrs) None"

definition endpoints_and_connection_from_hello :: "string list \<Rightarrow> socket_addr \<Rightarrow> i64 \<Rightarrow> endpoint list" where
  "endpoints_and_connection_from_hello addrs src t =
     (let learned = endpoints_from_hello addrs t in
      if list_ex (\<lambda>e. is_some_and (direct_addr e) (\<lambda>a. so_ip a = so_ip src)) learned then learned
      else case announced_port addrs of
        None \<Rightarrow> learned
      | Some port \<Rightarrow>
          (let a = socket_new (so_ip src) port
           in if is_dialable_claim a then learned @ [endpoint_direct a t From_Hello] else learned))"

definition observe_rendezvous_secret :: "peer_id \<Rightarrow> byte list \<Rightarrow> peer_file \<Rightarrow> bool \<times> peer_file" where
  "observe_rendezvous_secret p secret f =
     (case row_of p f of
        None \<Rightarrow> (False, f)
      | Some r \<Rightarrow>
          if pn_secret r = Some secret then (False, f)
          else (True, f\<lparr>pf_peers := update_row p (\<lambda>r. r\<lparr>pn_secret := Some secret\<rparr>) (pf_peers f)\<rparr>))"

definition observe_seen_address :: "peer_id \<Rightarrow> socket_addr \<Rightarrow> u64 \<Rightarrow> peer_file \<Rightarrow> bool \<times> peer_file" where
  "observe_seen_address p a t f =
     (if \<not> is_dialable_claim a then (False, f)
      else case row_of p f of
        None \<Rightarrow> (False, f)
      | Some r \<Rightarrow>
          (let seen = show_socket a in
           if is_some_and (pn_sees_us r) (\<lambda>(held, _). held = seen) then (False, f)
           else (True, f\<lparr>pf_peers := update_row p (\<lambda>r. r\<lparr>pn_sees_us := Some (seen, t)\<rparr>) (pf_peers f)\<rparr>)))"

section \<open>Invitations\<close>

datatype pair_refusal =
    Zero_Uses | Label_Refused label_refusal | No_Listener | Nothing_To_Dial | Too_Many_Invites nat
  | No_Such_Invite | Not_Six_Digits

definition outstanding :: "i64 \<Rightarrow> pending_invite \<Rightarrow> bool" where
  "outstanding now_ms i = (0 < iv_uses i \<and> now_ms < iv_expires i)"

definition mint_invite_as ::
  "peer_id \<Rightarrow> string \<Rightarrow> u32 \<Rightarrow> u8 \<Rightarrow> host_address list \<Rightarrow> socket_addr option \<Rightarrow> u64 \<Rightarrow> byte list \<Rightarrow> i64 \<Rightarrow> peer_file
     \<Rightarrow> pair_refusal + (pending_invite \<times> join_token) \<times> peer_file" where
  "mint_invite_as node label ttl_secs uses host external i secret now_ms f =
     (if uses = 0 then Inl Zero_Uses
      else case sanitize_label label of
        Inl e \<Rightarrow> Inl (Label_Refused e)
      | Inr label \<Rightarrow>
          (case pf_listen f of
             None \<Rightarrow> Inl No_Listener
           | Some listen \<Rightarrow>
               (let addrs = dial_addresses listen host external;
                    live = filter (outstanding now_ms) (pf_invites f)
                in if addrs = [] then Inl Nothing_To_Dial
                   else if length live \<ge> MAX_OUTSTANDING_INVITES then Inl (Too_Many_Invites (length live))
                   else
                    (let invite = \<lparr>iv_id = i, iv_label = label, iv_secret = secret,
                                   iv_expires = saturating_add_i64 now_ms (saturating_mul_i64 (int (unat ttl_secs)) 1000),
                                   iv_uses = uses\<rparr>
                     in Inr ((invite, \<lparr>jt_addrs = addrs, jt_registrar = node, jt_secret = secret\<rparr>),
                             f\<lparr>pf_invites := live @ [invite]\<rparr>)))))"

definition revoke_invite :: "u64 \<Rightarrow> peer_file \<Rightarrow> bool \<times> peer_file" where
  "revoke_invite i f =
     (let kept = filter (\<lambda>v. iv_id v \<noteq> i) (pf_invites f)
      in (length kept \<noteq> length (pf_invites f), f\<lparr>pf_invites := kept\<rparr>))"

definition outstanding_secrets :: "i64 \<Rightarrow> peer_file \<Rightarrow> byte list list" where
  "outstanding_secrets now_ms f = map iv_secret (filter (outstanding now_ms) (pf_invites f))"

text \<open>One use of the first invitation that proves the secret: the row goes when it was the last.\<close>

fun spend :: "(pending_invite \<Rightarrow> bool) \<Rightarrow> pending_invite list \<Rightarrow> pending_invite list" where
  "spend p [] = []"
| "spend p (i # is) =
     (if p i
      then (let i = i\<lparr>iv_uses := (if iv_uses i = 0 then 0 else iv_uses i - 1)\<rparr>
            in if iv_uses i = 0 then is else i # is)
      else i # spend p is)"

definition bare_row :: "peer_id \<Rightarrow> string \<Rightarrow> endpoint list \<Rightarrow> i64 \<Rightarrow> pinned_row" where
  "bare_row p label es now_ms =
     \<lparr>pn_node = p, pn_label = label, pn_endpoints = es, pn_added_at = now_ms, pn_allow = default_allow, pn_lend = [],
      pn_secret = None, pn_sees_us = None\<rparr>"

definition replace_row :: "pinned_row \<Rightarrow> peer_file \<Rightarrow> peer_file" where
  "replace_row r f = f\<lparr>pf_peers := filter (\<lambda>x. pn_node x \<noteq> pn_node r) (pf_peers f) @ [r]\<rparr>"

definition accept_enrolment ::
  "peer_id \<Rightarrow> string \<Rightarrow> byte list \<Rightarrow> i64 \<Rightarrow> peer_file \<Rightarrow> pair_refusal + pinned_row \<times> peer_file" where
  "accept_enrolment joiner claimed secret now_ms f =
     (case sanitize_label claimed of
        Inl e \<Rightarrow> Inl (Label_Refused e)
      | Inr label \<Rightarrow>
          (let proved = (\<lambda>i. iv_secret i = secret \<and> outstanding now_ms i) in
           if \<not> list_ex proved (pf_invites f) then Inl No_Such_Invite
           else (let row = bare_row joiner label [] now_ms
                 in Inr (row, replace_row row (f\<lparr>pf_invites := spend proved (pf_invites f)\<rparr>)))))"

section \<open>Pins\<close>

definition pin_row :: "peer_id \<Rightarrow> string \<Rightarrow> socket_addr option \<Rightarrow> i64 \<Rightarrow> peer_file \<Rightarrow> pair_refusal + pinned_row \<times> peer_file" where
  "pin_row p raw addr now_ms f =
     (case sanitize_label raw of
        Inl e \<Rightarrow> Inl (Label_Refused e)
      | Inr label \<Rightarrow>
          (let row = bare_row p label (case addr of None \<Rightarrow> [] | Some a \<Rightarrow> [endpoint_direct a now_ms From_Paired]) now_ms
           in Inr (row, replace_row row f)))"

definition is_six_digits :: "string \<Rightarrow> bool" where
  "is_six_digits code = (length (trim code) = 6 \<and> list_all is_digit (trim code))"

definition confirm :: "peer_id \<Rightarrow> string \<Rightarrow> socket_addr option \<Rightarrow> i64 \<Rightarrow> peer_file \<Rightarrow> pair_refusal + pinned_row \<times> peer_file" where
  "confirm p code addr now_ms f =
     (if \<not> is_six_digits code then Inl Not_Six_Digits else pin_row p (''peer-'' @ trim code) addr now_ms f)"

definition forget :: "peer_id \<Rightarrow> peer_file \<Rightarrow> bool \<times> peer_file" where
  "forget p f =
     (let kept = filter (\<lambda>r. pn_node r \<noteq> p) (pf_peers f)
      in (length kept \<noteq> length (pf_peers f), f\<lparr>pf_peers := kept\<rparr>))"

definition peers_still_holding_relay :: "peer_file \<Rightarrow> peer_id list" where
  "peers_still_holding_relay f = map pn_node (filter (\<lambda>r. al_relay (pn_allow r)) (pf_peers f))"

text \<open>\<open>pin_check_rows\<close>, \<^verbatim>\<open>peer/noise.rs\<close>: the whole of authorization is this comparison.\<close>

datatype pin_refusal = Not_Pinned peer_id | Malformed_Static nat

definition pin_check_rows :: "byte list \<Rightarrow> pinned_row list \<Rightarrow> pin_refusal + peer_id" where
  "pin_check_rows remote rows =
     (if length remote \<noteq> 32 then Inl (Malformed_Static (length remote))
      else if list_ex (\<lambda>r. pn_node r = remote) rows then Inr remote else Inl (Not_Pinned remote))"

section \<open>Histories\<close>

datatype peers_op =
    Mint peer_id string u32 u8 "host_address list" "socket_addr option" u64 "byte list"
  | Revoke u64
  | Enrol peer_id string "byte list"
  | Pin peer_id string "socket_addr option"
  | Forget peer_id
  | Observe peer_id "endpoint list"
  | Rendezvous peer_id "byte list"
  | Seen_At peer_id socket_addr u64

definition file_of :: "('e + 'a \<times> peer_file) \<Rightarrow> peer_file \<Rightarrow> peer_file" where
  "file_of r f = (case r of Inl _ \<Rightarrow> f | Inr (_, f') \<Rightarrow> f')"

fun apply_peers :: "peers_op \<Rightarrow> i64 \<Rightarrow> peer_file \<Rightarrow> peer_file" where
  "apply_peers (Mint node label ttl uses host ext i secret) now_ms f =
     file_of (mint_invite_as node label ttl uses host ext i secret now_ms f) f"
| "apply_peers (Revoke i) now_ms f = snd (revoke_invite i f)"
| "apply_peers (Enrol p label secret) now_ms f = file_of (accept_enrolment p label secret now_ms f) f"
| "apply_peers (Pin p label addr) now_ms f = file_of (pin_row p label addr now_ms f) f"
| "apply_peers (Forget p) now_ms f = snd (forget p f)"
| "apply_peers (Observe p es) now_ms f = snd (observe_endpoints p es f)"
| "apply_peers (Rendezvous p secret) now_ms f = snd (observe_rendezvous_secret p secret f)"
| "apply_peers (Seen_At p a t) now_ms f = snd (observe_seen_address p a t f)"

definition peers_step :: "peer_file \<Rightarrow> peers_op \<times> i64 \<Rightarrow> peer_file" where
  "peers_step f op = apply_peers (fst op) (snd op) f"

text \<open>How many enrolments under a secret a history admits, and how many uses it mints.\<close>

definition admits :: "byte list \<Rightarrow> peers_op \<times> i64 \<Rightarrow> peer_file \<Rightarrow> bool" where
  "admits secret op f =
     (case fst op of
        Enrol p label s \<Rightarrow> s = secret \<and> (case accept_enrolment p label s (snd op) f of Inl _ \<Rightarrow> False | Inr _ \<Rightarrow> True)
      | _ \<Rightarrow> False)"

fun enrolled :: "byte list \<Rightarrow> (peers_op \<times> i64) list \<Rightarrow> peer_file \<Rightarrow> nat" where
  "enrolled secret [] f = 0"
| "enrolled secret (op # ops) f = (if admits secret op f then 1 else 0) + enrolled secret ops (peers_step f op)"

definition minted_uses :: "byte list \<Rightarrow> peers_op \<times> i64 \<Rightarrow> nat" where
  "minted_uses secret op = (case fst op of Mint _ _ _ uses _ _ _ s \<Rightarrow> if s = secret then unat uses else 0 | _ \<Rightarrow> 0)"

definition uses_left :: "byte list \<Rightarrow> peer_file \<Rightarrow> nat" where
  "uses_left secret f = sum_list (map (\<lambda>i. if iv_secret i = secret then unat (iv_uses i) else 0) (pf_invites f))"

end
