(* ===== verification/Pairing_Props.thy ===== *)
theory Pairing_Props
  imports Pairing
begin

text \<open>
  What the peers file promises: an invitation admits no more Macs than the uses it was minted with, an
  enrolment pins exactly the Mac that proved it and grants it nothing, a forgotten Mac stays out until it
  is pinned again, and a row never holds more than eight places.
\<close>

section \<open>Invitations are spent\<close>

lemma file_of_cases:
  assumes "\<And>x f'. r = Inr (x, f') \<Longrightarrow> P f'" "P f"
  shows "P (file_of r f)"
  using assms by (auto simp: file_of_def split: sum.split prod.split)

lemma uses_left_Cons:
  "sum_list (map (\<lambda>i. if iv_secret i = s then unat (iv_uses i) else 0) (filter q is))
   \<le> sum_list (map (\<lambda>i. if iv_secret i = s then unat (iv_uses i) else 0) is)"
  by (induction "is") auto

lemma unat_pred: "0 < w \<Longrightarrow> Suc (unat (w - 1)) = unat w" for w :: u8
  by (metis Suc_pred' unat_gt_0 unat_minus_one word_neq_0_conv)

lemma spend_sum:
  assumes "list_ex p is" "\<And>i. p i \<Longrightarrow> iv_secret i = secret \<and> 0 < iv_uses i"
  shows "sum_list (map (\<lambda>i. if iv_secret i = s then unat (iv_uses i) else 0) (spend p is)) + (if s = secret then 1 else 0)
       = sum_list (map (\<lambda>i. if iv_secret i = s then unat (iv_uses i) else 0) is)"
  using assms(1)
proof (induction "is")
  case (Cons i rest)
  show ?case
  proof (cases "p i")
    case True
    then have i: "iv_secret i = secret" "0 < iv_uses i" using assms(2) by auto
    then have u: "Suc (unat (iv_uses i - 1)) = unat (iv_uses i)" by (simp add: unat_pred)
    show ?thesis using True i u by (auto simp: Let_def)
  qed (use Cons in auto)
qed simp

lemma replace_row_invites [simp]: "pf_invites (replace_row r f) = pf_invites f"
  by (simp add: replace_row_def)

lemma accept_enrolment_Inr:
  assumes "accept_enrolment p label secret t f = Inr (row, f')"
  shows "uses_left s f' + (if s = secret then 1 else 0) = uses_left s f"
    "list_ex (\<lambda>i. iv_secret i = secret \<and> outstanding t i) (pf_invites f)"
    "\<exists>l. sanitize_label label = Inr l \<and> row = bare_row p l [] t"
    "pf_peers f' = filter (\<lambda>x. pn_node x \<noteq> p) (pf_peers f) @ [row]"
proof -
  let ?p = "\<lambda>i. iv_secret i = secret \<and> outstanding t i"
  obtain l where l: "sanitize_label label = Inr l" "list_ex ?p (pf_invites f)"
    "row = bare_row p l [] t" "f' = replace_row row (f\<lparr>pf_invites := spend ?p (pf_invites f)\<rparr>)"
    using assms by (auto simp: accept_enrolment_def Let_def split: sum.splits if_splits)
  show "uses_left s f' + (if s = secret then 1 else 0) = uses_left s f"
    using spend_sum [OF l(2), of secret s] by (simp add: l(4) uses_left_def outstanding_def)
  show "list_ex ?p (pf_invites f)" "\<exists>l. sanitize_label label = Inr l \<and> row = bare_row p l [] t"
    "pf_peers f' = filter (\<lambda>x. pn_node x \<noteq> p) (pf_peers f) @ [row]"
    using l by (auto simp: replace_row_def bare_row_def)
qed

lemma mint_uses:
  assumes "mint_invite_as node label ttl uses host ext i secret t f = Inr (r, f')"
  shows "uses_left s f' \<le> uses_left s f + (if s = secret then unat uses else 0)" "pf_peers f' = pf_peers f"
    "length (pf_invites f') \<le> MAX_OUTSTANDING_INVITES"
  using assms uses_left_Cons [of s "outstanding t" "pf_invites f"]
  by (auto simp: mint_invite_as_def Let_def uses_left_def split: sum.splits option.splits if_splits)

lemma other_ops_invites:
  "pf_invites (snd (forget p f)) = pf_invites f" "pf_invites (snd (observe_endpoints p es f)) = pf_invites f"
  "pf_invites (snd (observe_rendezvous_secret p s f)) = pf_invites f" "pf_invites (snd (observe_seen_address p a u f)) = pf_invites f"
  "pin_row p label addr t f = Inr (row, f') \<Longrightarrow> pf_invites f' = pf_invites f"
  by (auto simp: forget_def observe_endpoints_def observe_rendezvous_secret_def observe_seen_address_def pin_row_def Let_def
      split: option.splits sum.splits)

lemma peers_step_uses:
  "(if admits s op f then 1 else 0) + uses_left s (peers_step f op) \<le> uses_left s f + minted_uses s op"
proof (cases "fst op")
  case (Mint node label ttl uses host ext i secret)
  have "uses_left s (file_of (mint_invite_as node label ttl uses host ext i secret (snd op) f) f)
        \<le> uses_left s f + (if s = secret then unat uses else 0)"
  proof (rule file_of_cases [where P = "\<lambda>g. uses_left s g \<le> _"])
    fix r f' assume "mint_invite_as node label ttl uses host ext i secret (snd op) f = Inr (r, f')"
    from mint_uses(1) [OF this, of s] show "uses_left s f' \<le> uses_left s f + (if s = secret then unat uses else 0)" .
  qed simp
  then show ?thesis by (auto simp: Mint admits_def minted_uses_def peers_step_def)
next
  case (Revoke i)
  then show ?thesis using uses_left_Cons [of s "\<lambda>v. iv_id v \<noteq> i" "pf_invites f"]
    by (simp add: admits_def minted_uses_def peers_step_def revoke_invite_def uses_left_def Let_def)
next
  case (Enrol p label secret)
  show ?thesis
  proof (cases "accept_enrolment p label secret (snd op) f")
    case (Inr x)
    then obtain row f' where x: "accept_enrolment p label secret (snd op) f = Inr (row, f')" by (cases x) auto
    show ?thesis using accept_enrolment_Inr(1) [OF x, of s] by (auto simp: Enrol admits_def minted_uses_def peers_step_def file_of_def x)
  qed (simp add: Enrol admits_def minted_uses_def peers_step_def file_of_def)
next
  case (Pin p label addr)
  have "uses_left s (file_of (pin_row p label addr (snd op) f) f) = uses_left s f"
    by (rule file_of_cases [where P = "\<lambda>g. uses_left s g = _"]) (auto simp: uses_left_def dest: other_ops_invites(5))
  then show ?thesis by (simp add: Pin admits_def minted_uses_def peers_step_def)
qed (simp_all add: admits_def minted_uses_def peers_step_def uses_left_def other_ops_invites)

section \<open>Rows\<close>

lemma update_row_nodes: "(\<And>r. pn_node (g r) = pn_node r) \<Longrightarrow> map pn_node (update_row p g rs) = map pn_node rs"
  by (induction rs) auto

lemma observe_endpoint_node [simp]: "pn_node (observe_endpoint e r) = pn_node r"
  by (simp add: observe_endpoint_def)

lemma observe_all_node [simp]: "pn_node (foldl (\<lambda>r e. observe_endpoint e r) r es) = pn_node r"
  by (induction es arbitrary: r) auto

lemma observers_nodes:
  "map pn_node (pf_peers (snd (observe_endpoints p es f))) = map pn_node (pf_peers f)"
  "map pn_node (pf_peers (snd (observe_rendezvous_secret p s f))) = map pn_node (pf_peers f)"
  "map pn_node (pf_peers (snd (observe_seen_address p a u f))) = map pn_node (pf_peers f)"
  by (auto simp: observe_endpoints_def observe_rendezvous_secret_def observe_seen_address_def Let_def update_row_nodes
      split: option.splits)

lemma pin_row_Inr:
  "pin_row p label addr t f = Inr (row, f') \<Longrightarrow>
   pf_peers f' = filter (\<lambda>x. pn_node x \<noteq> p) (pf_peers f) @ [row] \<and> pn_node row = p \<and> length (pn_endpoints row) \<le> 1"
  by (auto simp: pin_row_def Let_def replace_row_def bare_row_def split: sum.splits option.splits)

text \<open>Which Macs an operation can pin.\<close>

definition pins_row :: "peer_id \<Rightarrow> peers_op \<Rightarrow> bool" where
  "pins_row p op = (case op of Enrol q _ _ \<Rightarrow> q = p | Pin q _ _ \<Rightarrow> q = p | _ \<Rightarrow> False)"

lemma peers_step_nodes:
  assumes "p \<in> pn_node ` set (pf_peers (peers_step f op))" "\<not> pins_row p (fst op)"
  shows "p \<in> pn_node ` set (pf_peers f)"
proof (cases "fst op")
  case (Mint node label ttl uses host ext i secret)
  have "pf_peers (file_of (mint_invite_as node label ttl uses host ext i secret (snd op) f) f) = pf_peers f"
    by (rule file_of_cases [where P = "\<lambda>g. pf_peers g = _"]) (auto dest: mint_uses(2))
  then show ?thesis using assms(1) by (simp add: Mint peers_step_def)
next
  case (Enrol q label secret)
  have q: "q \<noteq> p" using assms(2) by (simp add: Enrol pins_row_def)
  have "p \<in> pn_node ` set (pf_peers (file_of (accept_enrolment q label secret (snd op) f) f)) \<longrightarrow> p \<in> pn_node ` set (pf_peers f)"
  proof (rule file_of_cases [where P = "\<lambda>g. p \<in> pn_node ` set (pf_peers g) \<longrightarrow> _"])
    fix row f' assume x: "accept_enrolment q label secret (snd op) f = Inr (row, f')"
    show "p \<in> pn_node ` set (pf_peers f') \<longrightarrow> p \<in> pn_node ` set (pf_peers f)"
      using accept_enrolment_Inr(3,4) [OF x] q by (auto simp: bare_row_def)
  qed simp
  then show ?thesis using assms(1) by (simp add: Enrol peers_step_def)
next
  case (Pin q label addr)
  have q: "q \<noteq> p" using assms(2) by (simp add: Pin pins_row_def)
  have "p \<in> pn_node ` set (pf_peers (file_of (pin_row q label addr (snd op) f) f)) \<longrightarrow> p \<in> pn_node ` set (pf_peers f)"
  proof (rule file_of_cases [where P = "\<lambda>g. p \<in> pn_node ` set (pf_peers g) \<longrightarrow> _"])
    fix row f' assume "pin_row q label addr (snd op) f = Inr (row, f')"
    from pin_row_Inr [OF this] show "p \<in> pn_node ` set (pf_peers f') \<longrightarrow> p \<in> pn_node ` set (pf_peers f)" using q by auto
  qed simp
  then show ?thesis using assms(1) by (simp add: Pin peers_step_def)
next
  case (Observe q es)
  show ?thesis using assms(1) observers_nodes(1) [of q es f, THEN arg_cong [of _ _ set]] by (simp add: peers_step_def Observe)
next
  case (Rendezvous q s)
  show ?thesis using assms(1) observers_nodes(2) [of q s f, THEN arg_cong [of _ _ set]] by (simp add: peers_step_def Rendezvous)
next
  case (Seen_At q a u)
  show ?thesis using assms(1) observers_nodes(3) [of q a u f, THEN arg_cong [of _ _ set]] by (simp add: peers_step_def Seen_At)
qed (use assms in \<open>auto simp: peers_step_def revoke_invite_def forget_def Let_def\<close>)

definition row_ok :: "pinned_row \<Rightarrow> bool" where
  "row_ok r = (length (pn_endpoints r) \<le> MAX_ENDPOINTS_PER_PEER \<and> distinct (map ep_locator (pn_endpoints r)))"

lemma observe_endpoint_ok: "row_ok r \<Longrightarrow> row_ok (observe_endpoint e r)"
proof -
  assume "row_ok r"
  let ?l = "e # filter (\<lambda>x. ep_locator x \<noteq> ep_locator e) (pn_endpoints r)"
  have "distinct (map ep_locator ?l)" using \<open>row_ok r\<close> by (auto simp: row_ok_def distinct_map intro: inj_on_subset)
  then have "distinct (map ep_locator (sort_key (\<lambda>x. - ep_observed x) ?l))"
    by (simp add: distinct_map del: sort_key_simps)
  then show ?thesis unfolding row_ok_def observe_endpoint_def
    by (simp del: sort_key_simps add: take_map [symmetric] distinct_take)
qed

lemma observe_all_ok: "row_ok r \<Longrightarrow> row_ok (foldl (\<lambda>r e. observe_endpoint e r) r es)"
  by (induction es arbitrary: r) (auto simp: observe_endpoint_ok)

lemma update_row_ok: "list_all row_ok rs \<Longrightarrow> (\<And>r. row_ok r \<Longrightarrow> row_ok (g r)) \<Longrightarrow> list_all row_ok (update_row p g rs)"
  by (induction rs) auto

definition file_ok :: "peer_file \<Rightarrow> bool" where
  "file_ok f =
     (distinct (map pn_node (pf_peers f)) \<and> list_all row_ok (pf_peers f) \<and> length (pf_invites f) \<le> MAX_OUTSTANDING_INVITES)"

lemma length_spend: "length (spend p is) \<le> length is"
  by (induction "is") (auto simp: Let_def)

lemma replaced_ok:
  assumes "file_ok f" "row_ok r" "pn_node r = p" "pf_peers f' = filter (\<lambda>x. pn_node x \<noteq> p) (pf_peers f) @ [r]"
    "length (pf_invites f') \<le> length (pf_invites f)"
  shows "file_ok f'"
  using assms by (auto simp: file_ok_def distinct_map list_all_iff intro: inj_on_subset)

lemma peers_step_ok: "file_ok f \<Longrightarrow> file_ok (peers_step f op)"
proof -
  assume f: "file_ok f"
  show ?thesis
  proof (cases "fst op")
    case (Mint node label ttl uses host ext i secret)
    have "file_ok (file_of (mint_invite_as node label ttl uses host ext i secret (snd op) f) f)"
    proof (rule file_of_cases [where P = file_ok, OF _ f])
      fix r f' assume x: "mint_invite_as node label ttl uses host ext i secret (snd op) f = Inr (r, f')"
      show "file_ok f'" using f mint_uses(2,3) [OF x] by (simp add: file_ok_def)
    qed
    then show ?thesis by (simp add: peers_step_def Mint)
  next
    case (Revoke i)
    have "length (filter (\<lambda>v. iv_id v \<noteq> i) (pf_invites f)) \<le> MAX_OUTSTANDING_INVITES"
      by (rule le_trans [OF length_filter_le]) (use f in \<open>simp add: file_ok_def\<close>)
    then show ?thesis using f Revoke by (simp add: peers_step_def revoke_invite_def file_ok_def Let_def)
  next
    case (Enrol p label secret)
    show ?thesis
    proof (cases "accept_enrolment p label secret (snd op) f")
      case (Inr x)
      then obtain row f' where x: "accept_enrolment p label secret (snd op) f = Inr (row, f')" by (cases x) auto
      have "length (pf_invites f') \<le> length (pf_invites f)"
        using x length_spend by (auto simp: accept_enrolment_def Let_def split: sum.splits if_splits)
      then have "file_ok f'"
        using accept_enrolment_Inr(3,4) [OF x] by (intro replaced_ok [OF f, of row p]) (auto simp: row_ok_def bare_row_def)
      then show ?thesis by (simp add: peers_step_def Enrol file_of_def x)
    qed (simp add: peers_step_def Enrol file_of_def f)
  next
    case (Pin p label addr)
    show ?thesis
    proof (cases "pin_row p label addr (snd op) f")
      case (Inr x)
      then obtain row f' where x: "pin_row p label addr (snd op) f = Inr (row, f')" by (cases x) auto
      have "row_ok row" using x
        by (auto simp: pin_row_def Let_def bare_row_def row_ok_def MAX_ENDPOINTS_PER_PEER_def split: sum.splits option.splits)
      then have "file_ok f'"
        using pin_row_Inr [OF x] other_ops_invites(5) [OF x] by (intro replaced_ok [OF f, of row p]) auto
      then show ?thesis by (simp add: peers_step_def Pin file_of_def x)
    qed (simp add: peers_step_def Pin file_of_def f)
  next
    case (Forget p)
    then show ?thesis using f
      by (auto simp: peers_step_def forget_def file_ok_def Let_def distinct_map list_all_iff intro: inj_on_subset)
  next
    case (Observe q es)
    have "list_all row_ok (pf_peers (snd (observe_endpoints q es f)))"
      using f by (auto simp: observe_endpoints_def Let_def file_ok_def intro!: update_row_ok observe_all_ok)
    then show ?thesis using f observers_nodes(1) [of q es f] by (simp add: peers_step_def Observe file_ok_def other_ops_invites)
  next
    case (Rendezvous q s)
    have "list_all row_ok (pf_peers (snd (observe_rendezvous_secret q s f)))"
      using f by (auto simp: observe_rendezvous_secret_def Let_def file_ok_def row_ok_def intro!: update_row_ok split: option.split)
    then show ?thesis using f observers_nodes(2) [of q s f] by (simp add: peers_step_def Rendezvous file_ok_def other_ops_invites)
  next
    case (Seen_At q a u)
    have "list_all row_ok (pf_peers (snd (observe_seen_address q a u f)))"
      using f by (auto simp: observe_seen_address_def Let_def file_ok_def row_ok_def intro!: update_row_ok split: option.split)
    then show ?thesis using f observers_nodes(3) [of q a u f] by (simp add: peers_step_def Seen_At file_ok_def other_ops_invites)
  qed
qed

section \<open>Properties\<close>

text \<open>C35. Over any history of the peers file, the Macs a join secret admits are at most the uses the file
  held for it at the start and the uses minted for it since: a one-use key admits one Mac.\<close>

theorem invite_admits_at_most_its_uses:
  "enrolled secret ops f \<le> uses_left secret f + sum_list (map (minted_uses secret) ops)"
proof (induction ops arbitrary: f)
  case (Cons op ops)
  show ?case using Cons [of "peers_step f op"] peers_step_uses [of secret op f] by simp
qed simp

text \<open>An enrolment that is accepted proved the secret of an invitation that was not spent and had not
  expired, spends one use of it, pins_row the joiner under its own key and leaves every other row as it was;
  the joiner is granted nothing, so it can borrow nothing.\<close>

theorem enrolment_pins_the_joiner:
  assumes "accept_enrolment joiner label secret now f = Inr (row, f')"
  shows "(\<exists>i \<in> set (pf_invites f). iv_secret i = secret \<and> 0 < iv_uses i \<and> now < iv_expires i)
         \<and> uses_left secret f = Suc (uses_left secret f')
         \<and> row_of joiner f' = Some row \<and> pn_allow row = default_allow \<and> pn_endpoints row = []
         \<and> grant_for (lending_row row) w now_s enforceable = None
         \<and> (q \<noteq> joiner \<longrightarrow> row_of q f' = row_of q f)"
proof -
  note e = accept_enrolment_Inr [OF assms]
  obtain l where r: "row = bare_row joiner l [] now" using e(3) by blast
  have own: "List.find P (filter Q xs @ [row]) = (if P row then Some row else None)"
    if "\<And>x. P x \<Longrightarrow> \<not> Q x" for P Q xs
    using that by (induction xs) auto
  have other: "List.find P (filter Q xs @ [row]) = List.find P xs" if "\<And>x. P x \<Longrightarrow> Q x" "\<not> P row" for P Q xs
    using that by (induction xs) auto
  have "row_of joiner f' = Some row"
    using own [of "\<lambda>r. pn_node r = joiner" "\<lambda>r. pn_node r \<noteq> joiner" "pf_peers f"] by (simp add: row_of_def e(4) r bare_row_def)
  moreover have "row_of q f' = row_of q f" if "q \<noteq> joiner"
    using that other [of "\<lambda>r. pn_node r = q" "\<lambda>r. pn_node r \<noteq> joiner" "pf_peers f"]
    by (simp add: row_of_def e(4) r bare_row_def)
  ultimately show ?thesis using e(1) [of secret] e(2)
    by (auto simp: r bare_row_def lending_row_def grant_for_def list_ex_iff outstanding_def)
qed

text \<open>A Mac the operator forgets is refused at the pin check from then on, whatever else is written to
  the file, until it is pinned or enrols again.\<close>

theorem forgotten_peer_stays_out:
  assumes "list_all (\<lambda>x. \<not> pins_row p (fst x)) later" "length p = 32"
  shows "pin_check_rows p (pf_peers (foldl peers_step (snd (forget p f)) later)) = Inl (Not_Pinned p)"
proof -
  have "p \<notin> pn_node ` set (pf_peers (foldl peers_step g later))" if "p \<notin> pn_node ` set (pf_peers g)" for g
    using that assms(1)
  proof (induction later arbitrary: g)
    case (Cons op later)
    have "p \<notin> pn_node ` set (pf_peers (peers_step g op))" using peers_step_nodes [of p g op] Cons.prems by auto
    then show ?case using Cons.IH Cons.prems(2) by simp
  qed simp
  moreover have "p \<notin> pn_node ` set (pf_peers (snd (forget p f)))" by (auto simp: forget_def Let_def)
  ultimately show ?thesis using assms(2) by (fastforce simp: pin_check_rows_def list_ex_iff)
qed

text \<open>Whatever is written to it, the file keeps one row per Mac, at most eight places per row and no
  place twice, and at most eight invitations.\<close>

theorem peers_file_stays_well_formed:
  assumes "file_ok f"
  shows "distinct (map pn_node (pf_peers (foldl peers_step f ops)))
         \<and> list_all (\<lambda>r. length (pn_endpoints r) \<le> 8 \<and> distinct (map ep_locator (pn_endpoints r))) (pf_peers (foldl peers_step f ops))
         \<and> length (pf_invites (foldl peers_step f ops)) \<le> 8"
proof -
  have "file_ok (foldl peers_step f ops)" using assms by (induction ops arbitrary: f) (auto simp: peers_step_ok)
  then show ?thesis
    by (simp add: file_ok_def row_ok_def MAX_ENDPOINTS_PER_PEER_def MAX_OUTSTANDING_INVITES_def list_all_iff)
qed

section \<open>Witnesses\<close>

definition one_use :: pending_invite where
  "one_use = \<lparr>iv_id = 7, iv_label = ''friend'', iv_secret = replicate 32 5, iv_expires = 600000, iv_uses = 1\<rparr>"

definition old_peer :: peer_id where "old_peer = replicate 32 1"
definition new_peer :: peer_id where "new_peer = replicate 32 2"

definition office :: peer_file where
  "office = \<lparr>pf_listen = None, pf_internet = False, pf_network_key = None,
             pf_peers = [bare_row old_peer ''attic'' [] 0], pf_invites = [one_use]\<rparr>"

theorem enrolment_pins_the_joiner_witness:
  "row_of new_peer (office\<lparr>pf_peers := [bare_row old_peer ''attic'' [] 0, bare_row new_peer ''friend'' [] 1000], pf_invites := []\<rparr>)
     = Some (bare_row new_peer ''friend'' [] 1000)
   \<and> uses_left (replicate 32 5) office = 1"
proof -
  let ?f = "office\<lparr>pf_peers := [bare_row old_peer ''attic'' [] 0, bare_row new_peer ''friend'' [] 1000], pf_invites := []\<rparr>"
  have "sanitize_label ''friend'' = Inr ''friend''" by code_simp
  then have "accept_enrolment new_peer ''friend'' (replicate 32 5) 1000 office = Inr (bare_row new_peer ''friend'' [] 1000, ?f)"
    by (simp add: accept_enrolment_def Let_def office_def one_use_def outstanding_def replace_row_def bare_row_def
        old_peer_def new_peer_def)
  from enrolment_pins_the_joiner [OF this]
  have "row_of new_peer ?f = Some (bare_row new_peer ''friend'' [] 1000) \<and> uses_left (replicate 32 5) office = Suc (uses_left (replicate 32 5) ?f)"
    by blast
  then show ?thesis by (simp add: uses_left_def)
qed

theorem forgotten_peer_stays_out_witness:
  "pin_check_rows old_peer (pf_peers (foldl peers_step (snd (forget old_peer office))
       [(Enrol new_peer ''friend'' (replicate 32 5), 1000), (Rendezvous old_peer [3], 2000)])) = Inl (Not_Pinned old_peer)"
  by (rule forgotten_peer_stays_out) (simp_all add: pins_row_def old_peer_def new_peer_def)

theorem peers_file_stays_well_formed_witness:
  "distinct (map pn_node (pf_peers (foldl peers_step office [(Pin old_peer ''attic'' None, 5), (Pin new_peer ''friend'' None, 6)])))
   \<and> length (pf_invites (foldl peers_step office [(Pin old_peer ''attic'' None, 5), (Pin new_peer ''friend'' None, 6)])) \<le> 8"
proof -
  have "file_ok office"
    by (simp add: file_ok_def office_def row_ok_def bare_row_def MAX_ENDPOINTS_PER_PEER_def MAX_OUTSTANDING_INVITES_def)
  from peers_file_stays_well_formed [OF this, of "[(Pin old_peer ''attic'' None, 5), (Pin new_peer ''friend'' None, 6)]"]
  show ?thesis by blast
qed

end
