(* ===== verification/Listener.thy ===== *)
theory Listener
  imports Knocks Pairing_Props
begin

text \<open>
  Who the peer listener answers, \<^verbatim>\<open>peer/listener.rs\<close>: the knock buckets, the sockets that have not
  authenticated, the order of checks of \<open>serve_connection\<close> up to the first byte it writes back, and the
  gate every stream of an authenticated session meets. The Noise handshake is the \<^verbatim>\<open>snow\<close> crate's:
  \<open>opens pattern psk message\<close> is the static key a first message proves under a pattern and a pre-shared
  secret, when it authenticates at all, and \<open>xx_static\<close> is the key a first pairing reveals in its last
  message, when it gets that far.
\<close>

section \<open>Knock buckets\<close>

definition KNOCK_INTERVAL_MS :: i64 where "KNOCK_INTERVAL_MS = 10000"
definition KNOCK_BURST :: u32 where "KNOCK_BURST = 3"

record knock_bucket =
  kb_tokens :: u32
  kb_last :: i64

type_synonym knock_buckets = "(string, knock_bucket) hash_map"

definition refill_tokens :: "i64 \<Rightarrow> i64 \<Rightarrow> u32" where
  "refill_tokens last_ms now_ms =
     (let e = trunc_div (max (saturating_sub_i64 now_ms last_ms) 0) KNOCK_INTERVAL_MS
      in if e < 4294967296 then word_of_int e else -1)"

definition take_knock_token :: "string \<Rightarrow> i64 \<Rightarrow> knock_buckets \<Rightarrow> bool \<times> knock_buckets" where
  "take_knock_token addr now_ms ks =
     (let ks = filter (\<lambda>(_, b). saturating_add_u32 (kb_tokens b) (refill_tokens (kb_last b) now_ms) < KNOCK_BURST) ks;
          b = (case hm_get ks addr of Some b \<Rightarrow> b | None \<Rightarrow> \<lparr>kb_tokens = KNOCK_BURST, kb_last = now_ms\<rparr>);
          refill = refill_tokens (kb_last b) now_ms;
          b = (if 0 < refill
               then b\<lparr>kb_tokens := min (saturating_add_u32 (kb_tokens b) refill) KNOCK_BURST,
                      kb_last := saturating_add_i64 (kb_last b) (saturating_mul_i64 (uint refill) KNOCK_INTERVAL_MS)\<rparr>
               else b)
      in if kb_tokens b = 0 then (False, hm_insert addr b ks)
         else (True, hm_insert addr (b\<lparr>kb_tokens := kb_tokens b - 1\<rparr>) ks))"

section \<open>Sockets that have not authenticated\<close>

record admission =
  ad_knocks :: knock_buckets
  ad_per_address :: "(string, nat) hash_map"
  ad_total :: nat

definition MAX_UNAUTHENTICATED_SOCKETS :: nat where "MAX_UNAUTHENTICATED_SOCKETS = 16"
definition MAX_UNAUTHENTICATED_PER_ADDRESS :: nat where "MAX_UNAUTHENTICATED_PER_ADDRESS = 2"

definition unauthenticated_allowance :: "peer_file \<Rightarrow> nat \<times> nat" where
  "unauthenticated_allowance f =
     (let largest = foldl max 0 (concat (map (\<lambda>r. map (\<lambda>g. unat (gr_max_inflight g)) (pn_lend r)) (pf_peers f)))
      in (MAX_UNAUTHENTICATED_SOCKETS + largest, MAX_UNAUTHENTICATED_PER_ADDRESS + largest))"

datatype socket_refusal = Node_Full nat nat | Address_Full nat nat

definition per_address :: "string \<Rightarrow> admission \<Rightarrow> nat" where
  "per_address addr ad = unwrap_or (hm_get (ad_per_address ad) addr) 0"

definition slot_acquire :: "string \<Rightarrow> nat \<times> nat \<Rightarrow> admission \<Rightarrow> socket_refusal + admission" where
  "slot_acquire addr allowance ad =
     (if fst allowance \<le> ad_total ad then Inl (Node_Full (ad_total ad) (fst allowance))
      else if snd allowance \<le> per_address addr ad then Inl (Address_Full (per_address addr ad) (snd allowance))
      else Inr (ad\<lparr>ad_total := ad_total ad + 1, ad_per_address := hm_insert addr (per_address addr ad + 1) (ad_per_address ad)\<rparr>))"

definition slot_drop :: "string \<Rightarrow> admission \<Rightarrow> admission" where
  "slot_drop addr ad =
     (let ad = ad\<lparr>ad_total := ad_total ad - 1\<rparr> in
      case hm_get (ad_per_address ad) addr of
        None \<Rightarrow> ad
      | Some n \<Rightarrow> ad\<lparr>ad_per_address := (if n - 1 = 0 then hm_remove addr (ad_per_address ad)
                                       else hm_insert addr (n - 1) (ad_per_address ad))\<rparr>)"

section \<open>The first byte back\<close>

type_synonym opens = "handshake \<Rightarrow> byte list option \<Rightarrow> byte list \<Rightarrow> byte list option"

text \<open>\<open>read_message_1_matching\<close>: the first secret the message authenticates under, and the key it proves.\<close>

fun needs_psk :: "handshake \<Rightarrow> bool" where
  "needs_psk Hs_Enrol = True"
| "needs_psk Hs_Knock_Psk = True"
| "needs_psk _ = False"

fun try_secrets :: "(byte list \<Rightarrow> byte list option) \<Rightarrow> byte list list \<Rightarrow> (byte list \<times> byte list) option" where
  "try_secrets open_with [] = None"
| "try_secrets open_with (s # ss) = (case open_with s of Some remote \<Rightarrow> Some (s, remote) | None \<Rightarrow> try_secrets open_with ss)"

definition read_message_1_matching ::
  "opens \<Rightarrow> handshake \<Rightarrow> byte list list \<Rightarrow> byte list \<Rightarrow> (byte list option \<times> byte list) option" where
  "read_message_1_matching opens pattern psks m1 =
     (if needs_psk pattern
      then map_option (apfst Some) (try_secrets (\<lambda>s. opens pattern (Some s) m1) psks)
      else map_option (Pair None) (opens pattern None m1))"

datatype outcome =
    Closed
  | Knock_Answered
  | Pairing_Answered "peer_id option"
  | Returned peer_id
  | Enrol_Session peer_id "byte list"

text \<open>The knock up to the reservation, after which message 2 is written; \<open>queue\<close> is the state file as the
  reservation reads it, under its lock.\<close>

definition serve_knock ::
  "opens \<Rightarrow> string \<Rightarrow> handshake \<Rightarrow> byte list \<Rightarrow> peer_file \<Rightarrow> i64 \<Rightarrow> peer_state \<Rightarrow> admission \<Rightarrow> outcome \<times> peer_state \<times> admission" where
  "serve_knock opens addr pattern m1 f now_ms queue ad =
     (if pf_network_key f \<noteq> None \<and> pattern = Hs_Knock \<or> pf_network_key f = None \<and> pattern = Hs_Knock_Psk
      then (Closed, queue, ad)
      else
       (let (ok, ks) = take_knock_token addr now_ms (ad_knocks ad);
            ad = ad\<lparr>ad_knocks := ks\<rparr>
        in if \<not> ok then (Closed, queue, ad)
           else case read_message_1_matching opens pattern (case pf_network_key f of Some k \<Rightarrow> [k] | None \<Rightarrow> []) m1 of
                  None \<Rightarrow> (Closed, queue, ad)
                | Some _ \<Rightarrow>
                    (case reserve_knock_slot addr now_ms (snd (expire now_ms queue)) of
                       Inl _ \<Rightarrow> (Closed, queue, ad)
                     | Inr (_, queue) \<Rightarrow> (Knock_Answered, queue, ad))))"

definition accept_pairing_or_return ::
  "opens \<Rightarrow> peer_id option \<Rightarrow> string \<Rightarrow> handshake \<Rightarrow> byte list \<Rightarrow> peer_file \<Rightarrow> i64 \<Rightarrow> peer_state \<Rightarrow> outcome" where
  "accept_pairing_or_return opens xx_static addr pattern m1 f now_ms st =
     (if pattern = Hs_Pair
      then (case (opens Hs_Pair None m1, claimed_instance (drop 32 m1)) of
              (Some _, Some i) \<Rightarrow>
                if accepted_window addr i now_ms st
                then Pairing_Answered (filter_opt (\<lambda>k. \<not> is_key_banned k st) xx_static) else Closed
            | _ \<Rightarrow> Closed)
      else
       case opens Hs_Return None m1 of
         Some remote \<Rightarrow>
           (case pin_check_rows remote (pf_peers f) of
              Inl _ \<Rightarrow> Closed
            | Inr p \<Rightarrow> if is_key_banned p st then Closed else Returned p)
       | None \<Rightarrow>
           (case read_message_1_matching opens Hs_Enrol (outstanding_secrets now_ms f) m1 of
              Some (Some secret, remote) \<Rightarrow>
                if length remote \<noteq> 32 \<or> is_key_banned remote st then Closed else Enrol_Session remote secret
            | _ \<Rightarrow> Closed))"

definition serve_connection ::
  "opens \<Rightarrow> peer_id option \<Rightarrow> nat list list \<Rightarrow> socket_addr \<Rightarrow> socket_addr \<Rightarrow> byte list \<Rightarrow> peer_file \<Rightarrow> i64
     \<Rightarrow> peer_state \<Rightarrow> peer_state \<Rightarrow> admission \<Rightarrow> outcome \<times> peer_state \<times> admission" where
  "serve_connection opens xx_static own_v6 bind_at from_at m1 f now_ms st queue ad =
     (let addr = knock_address from_at in
      if is_address_banned addr st then (Closed, queue, ad)
      else case slot_acquire addr (unauthenticated_allowance f) ad of
        Inl _ \<Rightarrow> (Closed, queue, ad)
      | Inr ad \<Rightarrow>
          (case from_message_1_len (length m1) of
             None \<Rightarrow> (Closed, queue, slot_drop addr ad)
           | Some pattern \<Rightarrow>
               if \<not> admission_for_this_host (so_ip bind_at) (so_ip from_at) pattern (pf_internet f) own_v6
               then (Closed, queue, slot_drop addr ad)
               else if pattern = Hs_Knock \<or> pattern = Hs_Knock_Psk
               then (let (out, queue, ad) = serve_knock opens addr pattern m1 f now_ms queue ad
                     in (out, queue, slot_drop addr ad))
               else (accept_pairing_or_return opens xx_static addr pattern m1 f now_ms st, queue, slot_drop addr ad)))"

section \<open>Streams\<close>

datatype tunnel_target = Origin_Target string nat | Peer_Target peer_id

datatype stream_kind = Tunnel_Kind | Serve_Kind | Control_Kind | Park_Kind | Unknown_Kind u8

record stream_header =
  sh_kind :: stream_kind
  sh_target :: "tunnel_target option"
  sh_via :: "peer_id list"
  sh_hops_remaining :: u8
  sh_request_id :: u128

datatype stream_refusal = Unknown_Stream u8 | Not_Granted stream_kind | Hops_Exhausted | Loop_Detected | Duplicate

definition stream_granted :: "stream_header \<Rightarrow> allow \<Rightarrow> bool" where
  "stream_granted h a =
     (case sh_kind h of
        Control_Kind \<Rightarrow> True
      | Park_Kind \<Rightarrow> True
      | Serve_Kind \<Rightarrow> al_inspect a
      | Tunnel_Kind \<Rightarrow>
          (case sh_target h of
             Some (Origin_Target _ _) \<Rightarrow> al_gateway a
           | Some (Peer_Target _) \<Rightarrow> al_relay a
           | None \<Rightarrow> False)
      | Unknown_Kind _ \<Rightarrow> False)"

definition peer_stream_gate_rows :: "stream_header \<Rightarrow> pinned_row option \<Rightarrow> stream_refusal option" where
  "peer_stream_gate_rows h row =
     (case sh_kind h of
        Unknown_Kind raw \<Rightarrow> Some (Unknown_Stream raw)
      | _ \<Rightarrow>
          (case row of
             None \<Rightarrow> Some (Not_Granted (sh_kind h))
           | Some r \<Rightarrow>
               if \<not> stream_granted h (pn_allow r) then Some (Not_Granted (sh_kind h))
               else if sh_hops_remaining h = 0 then Some Hops_Exhausted
               else None))"

definition REQUEST_DEDUP_CAPACITY :: nat where "REQUEST_DEDUP_CAPACITY = 4096"
definition REQUEST_DEDUP_TTL_MS :: i64 where "REQUEST_DEDUP_TTL_MS = 600000"

type_synonym request_dedup = "(u128 \<times> i64) list"

definition dedup_admit :: "u128 \<Rightarrow> i64 \<Rightarrow> request_dedup \<Rightarrow> bool \<times> request_dedup" where
  "dedup_admit i now_ms seen =
     (let seen = filter (\<lambda>(_, at'). saturating_sub_i64 now_ms at' < REQUEST_DEDUP_TTL_MS) seen in
      if list_ex (\<lambda>(s, _). s = i) seen then (False, seen)
      else (True, drop (Suc (length seen) - REQUEST_DEDUP_CAPACITY) seen @ [(i, now_ms)]))"

definition peer_stream_gate_hop :: "peer_id \<Rightarrow> stream_header \<Rightarrow> i64 \<Rightarrow> request_dedup \<Rightarrow> stream_refusal option \<times> request_dedup" where
  "peer_stream_gate_hop node h now_ms seen =
     (if node \<in> set (sh_via h) then (Some Loop_Detected, seen)
      else (let (fresh, seen) = dedup_admit (sh_request_id h) now_ms seen
            in (if fresh then None else Some Duplicate, seen)))"

text \<open>What \<open>serve_stream\<close> does with the first frame of an authenticated session: an enrolment may send the
  one control message that enrols it; anything else meets the two gates, against an empty cache.\<close>

datatype stream_answer = Stream_Refused | Enrolled_Now pinned_row peer_file | Stream_Open stream_kind

definition serve_stream ::
  "peer_id \<Rightarrow> outcome \<Rightarrow> stream_header \<Rightarrow> string option \<Rightarrow> i64 \<Rightarrow> peer_file \<Rightarrow> stream_answer" where
  "serve_stream node session h enroll_label now_ms f =
     (case session of
        Enrol_Session joiner secret \<Rightarrow>
          if sh_kind h \<noteq> Control_Kind then Stream_Refused
          else (case enroll_label of
                  None \<Rightarrow> Stream_Refused
                | Some label \<Rightarrow>
                    (case accept_enrolment joiner label secret now_ms f of
                       Inl _ \<Rightarrow> Stream_Refused | Inr (row, f) \<Rightarrow> Enrolled_Now row f))
      | Returned p \<Rightarrow>
          if peer_stream_gate_rows h (row_of p f) \<noteq> None then Stream_Refused
          else if fst (peer_stream_gate_hop node h now_ms []) \<noteq> None then Stream_Refused
          else Stream_Open (sh_kind h)
      | _ \<Rightarrow> Stream_Refused)"

section \<open>Slots\<close>

lemma slot_drop_acquire:
  assumes "slot_acquire addr al ad = Inr ad'" "hm_get (ad_per_address ad) addr \<noteq> Some 0"
  shows "ad_total (slot_drop addr ad') = ad_total ad \<and> per_address a (slot_drop addr ad') = per_address a ad
         \<and> ad_knocks (slot_drop addr ad') = ad_knocks ad"
  using assms by (auto simp: slot_acquire_def slot_drop_def per_address_def unwrap_or_def split: if_splits option.splits)

lemma slot_limits: "slot_acquire addr al ad = Inr ad' \<Longrightarrow> ad_total ad' \<le> fst al \<and> per_address addr ad' \<le> snd al"
  by (auto simp: slot_acquire_def per_address_def unwrap_or_def split: if_splits)

section \<open>Properties\<close>

lemma try_secrets_Some: "try_secrets g ss = Some (s, r) \<Longrightarrow> s \<in> set ss \<and> g s = Some r"
  by (induction ss) (auto split: option.splits)

lemma pin_check_Inr: "pin_check_rows r rows = Inr p \<Longrightarrow> p = r \<and> r \<in> pn_node ` set rows"
  by (auto simp: pin_check_rows_def list_ex_iff split: if_splits)

text \<open>C31. The listener writes a byte back only to a caller it has a reason to answer: a knock whose source is
  neither blocked nor ignored, while the queue has room; a first pairing inside the window the operator
  opened for that instance at that address; a return visit that proves a pinned key; an enrolment that
  proves the secret of an outstanding invitation. A blocked address or key gets none of them, and with the
  internet switch on a caller from off the network reaches only the last two.\<close>

theorem only_expected_callers_are_answered:
  assumes "fst (serve_connection opens xx own bind_at from_at m1 f now st queue ad) = out" "out \<noteq> Closed"
  shows "\<not> is_address_banned (knock_address from_at) st
    \<and> (case out of
         Knock_Answered \<Rightarrow> refusal_for_knock_source (knock_address from_at) now (snd (expire now queue)) = None
       | Pairing_Answered k \<Rightarrow>
           (\<exists>i. claimed_instance (drop 32 m1) = Some i \<and> accepted_window (knock_address from_at) i now st)
           \<and> (\<forall>p. k = Some p \<longrightarrow> \<not> is_key_banned p st)
       | Returned p \<Rightarrow> opens Hs_Return None m1 = Some p \<and> p \<in> pn_node ` set (pf_peers f) \<and> \<not> is_key_banned p st
       | Enrol_Session p s \<Rightarrow>
           opens Hs_Enrol (Some s) m1 = Some p \<and> \<not> is_key_banned p st
           \<and> (\<exists>v \<in> set (pf_invites f). iv_secret v = s \<and> 0 < iv_uses v \<and> now < iv_expires v)
       | Closed \<Rightarrow> False)
    \<and> (pf_internet f \<and> \<not> is_lan_scope (so_ip from_at) \<and> \<not> is_loopback_bind (so_ip bind_at) \<longrightarrow>
         (\<exists>p. out = Returned p \<or> (\<exists>s. out = Enrol_Session p s)))"
proof -
  let ?addr = "knock_address from_at"
  obtain ad' pattern where c: "\<not> is_address_banned ?addr st" "from_message_1_len (length m1) = Some pattern"
    "internet_admission (so_ip bind_at) (so_ip from_at) pattern (pf_internet f) own"
    "out = (if pattern = Hs_Knock \<or> pattern = Hs_Knock_Psk then fst (serve_knock opens ?addr pattern m1 f now queue ad')
            else accept_pairing_or_return opens xx ?addr pattern m1 f now st)"
    using assms by (auto simp: serve_connection_def Let_def case_prod_unfold split: if_splits sum.splits option.splits)
  show ?thesis
  proof (cases "pattern = Hs_Knock \<or> pattern = Hs_Knock_Psk")
    case True
    then have "out = Knock_Answered \<and> refusal_for_knock_source ?addr now (snd (expire now queue)) = None"
      using c(4) assms(2)
      by (auto simp: serve_knock_def Let_def reserve_knock_slot_def split: if_splits option.splits sum.splits prod.splits)
    then show ?thesis using c(1,3) True by (auto simp: internet_admission_def split: if_splits)
  next
    case False
    then have o: "out = accept_pairing_or_return opens xx ?addr pattern m1 f now st" using c(4) by simp
    show ?thesis
    proof (cases "pattern = Hs_Pair")
      case True
      then obtain i where i: "claimed_instance (drop 32 m1) = Some i" "accepted_window ?addr i now st"
        "out = Pairing_Answered (filter_opt (\<lambda>k. \<not> is_key_banned k st) xx)"
        using o assms(2) by (auto simp: accept_pairing_or_return_def split: option.splits if_splits)
      have "\<forall>p. filter_opt (\<lambda>k. \<not> is_key_banned k st) xx = Some p \<longrightarrow> \<not> is_key_banned p st"
        by (cases xx) (auto simp: filter_opt_def)
      then show ?thesis using c(1,3) i True by (auto simp: internet_admission_def split: if_splits)
    next
      case False
      show ?thesis
      proof (cases "opens Hs_Return None m1")
        case (Some remote)
        then obtain p where p: "pin_check_rows remote (pf_peers f) = Inr p" "\<not> is_key_banned p st" "out = Returned p"
          using o False assms(2) by (auto simp: accept_pairing_or_return_def split: sum.splits if_splits)
        then show ?thesis using pin_check_Inr [OF p(1)] Some c(1) by auto
      next
        case None
        then obtain p s where p: "out = Enrol_Session p s" "\<not> is_key_banned p st"
          "read_message_1_matching opens Hs_Enrol (outstanding_secrets now f) m1 = Some (Some s, p)"
          using o False assms(2) by (auto simp: accept_pairing_or_return_def split: option.splits if_splits prod.splits)
        then have "s \<in> set (outstanding_secrets now f) \<and> opens Hs_Enrol (Some s) m1 = Some p"
          by (auto simp: read_message_1_matching_def dest: try_secrets_Some)
        then show ?thesis using c(1) p by (auto simp: outstanding_secrets_def outstanding_def)
      qed
    qed
  qed
qed

text \<open>C32. A stream is opened only for a Mac that proved a pinned key and whose row grants that kind of
  stream, on a frame that has hops left and has not been here; what a joiner may send is the one message
  that enrols it, and the row it gets grants it nothing but control and parking.\<close>

theorem streams_need_their_grant:
  "(serve_stream node session h label now f = Stream_Open k \<longrightarrow>
      (\<exists>p row. session = Returned p \<and> row_of p f = Some row \<and> k = sh_kind h \<and> stream_granted h (pn_allow row)
         \<and> 0 < sh_hops_remaining h \<and> node \<notin> set (sh_via h)))
   \<and> (serve_stream node session h label now f = Enrolled_Now row f' \<longrightarrow>
      (\<exists>p s. session = Enrol_Session p s \<and> sh_kind h = Control_Kind \<and> pn_node row = p
         \<and> (stream_granted h' (pn_allow row) \<longrightarrow> sh_kind h' = Control_Kind \<or> sh_kind h' = Park_Kind)))"
  by (auto simp: serve_stream_def peer_stream_gate_rows_def peer_stream_gate_hop_def dedup_admit_def Let_def
      accept_enrolment_def bare_row_def default_allow_def stream_granted_def word_gt_0
      split: outcome.splits if_splits option.splits sum.splits stream_kind.splits prod.splits tunnel_target.splits)

section \<open>How many knocks an address gets\<close>

text \<open>The credit of an address at an instant, in milliseconds: its tokens and what has accrued since the
  last refill.\<close>

definition credit :: "string \<Rightarrow> i64 \<Rightarrow> knock_buckets \<Rightarrow> int" where
  "credit addr now_ms ks =
     (case hm_get ks addr of
        None \<Rightarrow> 30000
      | Some b \<Rightarrow> int (unat (kb_tokens b)) * 10000 + (now_ms - kb_last b))"

definition buckets_ok :: "i64 \<Rightarrow> knock_buckets \<Rightarrow> bool" where
  "buckets_ok now_ms ks = (hm_ok ks \<and> list_all (\<lambda>(_, b). 0 \<le> kb_last b \<and> kb_last b \<le> now_ms) ks)"

lemma hm_insert_entry: "x \<in> set (hm_insert k v m) \<Longrightarrow> x = (k, v) \<or> x \<in> set m"
  by (induction k v m rule: hm_insert.induct) (auto split: if_splits)

lemma buckets_ok_get: "buckets_ok t ks \<Longrightarrow> hm_get ks a = Some b \<Longrightarrow> 0 \<le> kb_last b \<and> kb_last b \<le> t"
  by (auto simp: buckets_ok_def hm_get_in list_all_iff)

lemma unat_max32: "unat (-1 :: u32) = 4294967295"
  by (simp add: unsigned_minus_1_eq_mask mask_eq_exp_minus_1)

lemma elapsed:
  assumes "0 \<le> prev" "prev \<le> now" "now \<le> i64_max"
  shows "refill_tokens prev now = (if (now - prev) div 10000 < 4294967296 then word_of_int ((now - prev) div 10000) else -1)"
proof -
  have "saturating_sub_i64 now prev = now - prev" using assms by (simp add: saturating_sub_i64_def sat64_def i64_min_def i64_max_def)
  moreover have "trunc_div (now - prev) 10000 = (now - prev) div 10000"
    using assms(2) by (simp add: trunc_div_nonneg)
  ultimately show ?thesis using assms by (simp add: refill_tokens_def Let_def KNOCK_INTERVAL_MS_def)
qed

lemma kept_bucket:
  assumes "0 \<le> prev" "prev \<le> now" "now \<le> i64_max" "saturating_add_u32 tok (refill_tokens prev now) < KNOCK_BURST"
  shows "int (unat (refill_tokens prev now)) = (now - prev) div 10000" "unat tok + unat (refill_tokens prev now) < 3"
    "saturating_add_u32 tok (refill_tokens prev now) = tok + refill_tokens prev now"
    "unat (tok + refill_tokens prev now) = unat tok + unat (refill_tokens prev now)"
proof -
  let ?r = "refill_tokens prev now"
  have small: "unat tok + unat ?r < 2 ^ 32"
  proof (rule ccontr)
    assume "\<not> ?thesis"
    then have "saturating_add_u32 tok ?r = -1" by (simp add: saturating_add_u32_def)
    with assms(4) show False by (simp add: KNOCK_BURST_def word_less_nat_alt unat_max32)
  qed
  then show s: "saturating_add_u32 tok ?r = tok + ?r" by (simp add: saturating_add_u32_def)
  show u: "unat (tok + ?r) = unat tok + unat ?r" using small by (simp add: unat_add_lem [THEN iffD1])
  show lt: "unat tok + unat ?r < 3" using assms(4) s u by (simp add: KNOCK_BURST_def word_less_nat_alt)
  have "(now - prev) div 10000 < 4294967296"
  proof (rule ccontr)
    assume "\<not> ?thesis"
    then have "?r = -1" using elapsed [OF assms(1-3)] by simp
    with lt show False by (simp add: unat_max32)
  qed
  moreover have "0 \<le> (now - prev) div 10000" using assms(2) by (simp add: pos_imp_zdiv_nonneg_iff)
  ultimately show "int (unat ?r) = (now - prev) div 10000"
    using elapsed [OF assms(1-3)] by (simp add: uint_word_of_int flip: uint_nat)
qed

lemma sat64_nonneg: "0 \<le> x \<Longrightarrow> x \<le> i64_max \<Longrightarrow> sat64 x = x"
  by (simp add: sat64_def i64_min_def max_def)

definition bucket_credit :: "i64 \<Rightarrow> knock_bucket \<Rightarrow> int" where
  "bucket_credit now b = int (unat (kb_tokens b)) * 10000 + (now - kb_last b)"

definition refilled :: "i64 \<Rightarrow> knock_bucket \<Rightarrow> knock_bucket" where
  "refilled now b =
     (let refill = refill_tokens (kb_last b) now in
      if 0 < refill
      then b\<lparr>kb_tokens := min (saturating_add_u32 (kb_tokens b) refill) KNOCK_BURST,
             kb_last := saturating_add_i64 (kb_last b) (saturating_mul_i64 (uint refill) KNOCK_INTERVAL_MS)\<rparr>
      else b)"

definition keeps :: "i64 \<Rightarrow> knock_bucket \<Rightarrow> bool" where
  "keeps now b = (saturating_add_u32 (kb_tokens b) (refill_tokens (kb_last b) now) < KNOCK_BURST)"

lemma refreshed_held:
  assumes b: "0 \<le> kb_last b" "kb_last b \<le> now" "now \<le> i64_max" "keeps now b"
  shows "bucket_credit now (refilled now b) = bucket_credit now b \<and> 0 \<le> kb_last (refilled now b) \<and> kb_last (refilled now b) \<le> now"
proof (cases "0 < refill_tokens (kb_last b) now")
  case True
  let ?r = "refill_tokens (kb_last b) now"
  note k = kept_bucket [OF b(1-3), of "kb_tokens b", folded keeps_def, OF b(4)]
  have le: "int (unat ?r) * 10000 \<le> now - kb_last b" using k(1) by (simp add: mult.commute)
  have "0 \<le> uint ?r * 10000" by simp
  moreover have "uint ?r * 10000 \<le> i64_max" using le b by simp
  ultimately have "saturating_mul_i64 (uint ?r) KNOCK_INTERVAL_MS = int (unat ?r) * 10000"
    by (simp add: saturating_mul_i64_def sat64_nonneg KNOCK_INTERVAL_MS_def)
  moreover have "saturating_add_i64 (kb_last b) (int (unat ?r) * 10000) = kb_last b + int (unat ?r) * 10000"
    unfolding saturating_add_i64_def by (rule sat64_nonneg) (use le b in auto)
  moreover have "min (saturating_add_u32 (kb_tokens b) ?r) KNOCK_BURST = kb_tokens b + ?r"
    using b(4) k(3) by (simp add: keeps_def min_absorb1 order_less_imp_le)
  ultimately have r: "refilled now b = b\<lparr>kb_tokens := kb_tokens b + ?r, kb_last := kb_last b + int (unat ?r) * 10000\<rparr>"
    using True by (simp add: refilled_def Let_def)
  show ?thesis using le b(1) k(4) by (simp add: r bucket_credit_def algebra_simps)
qed (use b in \<open>simp add: refilled_def Let_def\<close>)

lemma dropped_held:
  assumes b: "0 \<le> kb_last b" "kb_last b \<le> now" "now \<le> i64_max" "\<not> keeps now b"
  shows "30000 \<le> bucket_credit now b"
proof -
  let ?e = "(now - kb_last b) div 10000"
  have e: "?e * 10000 \<le> now - kb_last b" "0 \<le> ?e" using b(2) by (simp_all add: mult.commute pos_imp_zdiv_nonneg_iff)
  have "3 \<le> int (unat (kb_tokens b)) + ?e"
  proof (cases "?e < 4294967296")
    case True
    then have r: "int (unat (refill_tokens (kb_last b) now)) = ?e"
      using elapsed [OF b(1-3)] e(2) by (simp add: uint_word_of_int flip: uint_nat)
    show ?thesis
    proof (rule ccontr)
      assume "\<not> ?thesis"
      then have lt: "unat (kb_tokens b) + unat (refill_tokens (kb_last b) now) < 3" using r by linarith
      then have "unat (kb_tokens b + refill_tokens (kb_last b) now) < 3" by (simp add: unat_add_lem [THEN iffD1])
      with lt b(4) show False by (simp add: keeps_def saturating_add_u32_def KNOCK_BURST_def word_less_nat_alt)
    qed
  qed (use e in linarith)
  then show ?thesis using e(1) by (simp add: bucket_credit_def)
qed

lemma credit_bucket: "credit c now ks = (case hm_get ks c of None \<Rightarrow> 30000 | Some b \<Rightarrow> bucket_credit now b)"
  by (cases "hm_get ks c") (simp_all add: credit_def bucket_credit_def)

lemma hm_get_live: "hm_ok m \<Longrightarrow> hm_get (filter (\<lambda>(_, b). p b) m) k = filter_opt p (hm_get m k)"
  by (induction m) (auto simp: hm_get_def hm_ok_def filter_opt_def map_of_eq_None_iff split: option.splits)

lemma take_knock_token_eq:
  "take_knock_token a now ks =
    (let live = filter (\<lambda>(_, b). keeps now b) ks;
         b = refilled now (unwrap_or (hm_get live a) \<lparr>kb_tokens = KNOCK_BURST, kb_last = now\<rparr>)
     in if kb_tokens b = 0 then (False, hm_insert a b live) else (True, hm_insert a (b\<lparr>kb_tokens := kb_tokens b - 1\<rparr>) live))"
  by (simp add: take_knock_token_def refilled_def keeps_def Let_def unwrap_or_def)

lemma int_unat_pred: "w \<noteq> 0 \<Longrightarrow> int (unat (w - 1)) = int (unat w) - 1" for w :: u32
proof -
  assume "w \<noteq> 0"
  moreover from this have "0 < unat w" by (simp add: unat_gt_0)
  ultimately show ?thesis by (simp add: unat_minus_one of_nat_diff Suc_leI del: of_nat_unat)
qed

lemma take_knock_token_credit:
  assumes ok: "buckets_ok now ks" and now: "0 \<le> now" "now \<le> i64_max"
    and t: "take_knock_token a now ks = (got, ks')"
  shows "buckets_ok now ks' \<and> credit c now ks' + (if got \<and> a = c then 10000 else 0) \<le> credit c now ks \<and> 0 \<le> credit c now ks'"
proof -
  define live where "live = filter (\<lambda>(_, b). keeps now b) ks"
  define b where "b = unwrap_or (hm_get live a) \<lparr>kb_tokens = KNOCK_BURST, kb_last = now\<rparr>"
  define b' where "b' = (if kb_tokens (refilled now b) = 0 then refilled now b
                         else (refilled now b)\<lparr>kb_tokens := kb_tokens (refilled now b) - 1\<rparr>)"
  have live: "buckets_ok now live" using ok by (auto simp: buckets_ok_def live_def list_all_iff)
  have get: "hm_get live k = filter_opt (keeps now) (hm_get ks k)" for k
    using ok by (simp add: live_def buckets_ok_def hm_get_live)
  have r: "got = (kb_tokens (refilled now b) \<noteq> 0)" "ks' = hm_insert a b' live"
    using t by (auto simp: take_knock_token_eq Let_def b'_def b_def live_def split: if_splits)
  have fresh: "refill_tokens now now = 0" using elapsed [of now now] now by simp
  have b: "bucket_credit now (refilled now b) = credit a now live \<and> 0 \<le> kb_last (refilled now b) \<and> kb_last (refilled now b) \<le> now"
  proof (cases "hm_get live a")
    case None
    then show ?thesis using now fresh by (simp add: b_def unwrap_or_def refilled_def credit_def bucket_credit_def KNOCK_BURST_def)
  next
    case (Some x)
    then have "keeps now x" using get [of a] by (auto simp: filter_opt_def split: option.splits if_splits)
    then show ?thesis using refreshed_held [of x now] buckets_ok_get [OF live Some] now Some
      by (simp add: b_def unwrap_or_def credit_bucket)
  qed
  have dec: "bucket_credit now b' + (if got then 10000 else 0) = bucket_credit now (refilled now b)"
    using r(1) by (auto simp: b'_def bucket_credit_def int_unat_pred simp del: of_nat_unat)
  have le: "credit k now live \<le> credit k now ks" for k
    using dropped_held [of _ now] buckets_ok_get [OF ok] now
    by (fastforce simp: credit_bucket get filter_opt_def split: option.split)
  have "buckets_ok now ks'"
    using live b by (auto simp: r(2) b'_def buckets_ok_def list_all_iff dest!: hm_insert_entry)
  moreover have "0 \<le> credit c now ks'"
    using buckets_ok_get [OF \<open>buckets_ok now ks'\<close>, of c] by (auto simp: credit_def split: option.split)
  moreover have "credit c now ks' + (if got \<and> a = c then 10000 else 0) \<le> credit c now ks"
  proof (cases "a = c")
    case True
    then show ?thesis using dec b le [of c] by (simp add: credit_bucket r(2))
  next
    case False
    then show ?thesis using le [of c] by (simp add: credit_def r(2))
  qed
  ultimately show ?thesis by simp
qed

text \<open>The knocks of an address a history of calls lets through.\<close>

fun let_through :: "string \<Rightarrow> (string \<times> i64) list \<Rightarrow> knock_buckets \<Rightarrow> nat" where
  "let_through addr [] ks = 0"
| "let_through addr ((a, now) # calls) ks =
     (let (got, ks') = take_knock_token a now ks
      in (if got \<and> a = addr then 1 else 0) + let_through addr calls ks')"

lemma buckets_ok_later: "buckets_ok t ks \<Longrightarrow> t \<le> t' \<Longrightarrow> buckets_ok t' ks"
  by (fastforce simp: buckets_ok_def list_all_iff)

lemma credit_later: "t \<le> t' \<Longrightarrow> credit c t' ks \<le> credit c t ks + (t' - t)"
  by (auto simp: credit_def split: option.split)

lemma let_through_credit:
  assumes "buckets_ok t ks" "0 \<le> t" "sorted (t # map snd calls)" "list_all (\<lambda>c. snd c \<le> t1) calls" "t \<le> t1" "t1 \<le> i64_max"
    "0 \<le> credit addr t ks"
  shows "10000 * int (let_through addr calls ks) \<le> credit addr t ks + (t1 - t)"
  using assms
proof (induction calls arbitrary: t ks)
  case (Cons call calls)
  obtain a now where call: "call = (a, now)" by (cases call)
  obtain got ks' where t: "take_knock_token a now ks = (got, ks')" by (cases "take_knock_token a now ks")
  have now: "t \<le> now" "0 \<le> now" "now \<le> t1" "now \<le> i64_max" using Cons.prems call by auto
  note step = take_knock_token_credit [OF buckets_ok_later [OF Cons.prems(1) now(1)] now(2,4) t, of addr]
  have "10000 * int (let_through addr calls ks') \<le> credit addr now ks' + (t1 - now)"
    using Cons.IH [of now ks'] step Cons.prems call now by auto
  then show ?case using step credit_later [OF now(1), of addr ks] by (auto simp: call t split: if_splits)
qed simp

text \<open>C36. Whatever the other addresses do, the knocks of one address that get past its bucket in a stretch of
  time are three and one more for every ten seconds of it.\<close>

theorem knocks_are_rate_limited:
  assumes "sorted (t0 # map snd calls)" "list_all (\<lambda>c. snd c \<le> t1) calls" "0 \<le> t0" "t0 \<le> t1" "t1 \<le> i64_max"
  shows "int (let_through addr calls []) \<le> 3 + (t1 - t0) div 10000"
proof -
  have "10000 * int (let_through addr calls []) \<le> 30000 + (t1 - t0)"
    using let_through_credit [of t0 "[]" calls t1 addr] assms by (simp add: buckets_ok_def credit_def hm_get_def)
  then show ?thesis by linarith
qed

section \<open>Witnesses\<close>

text \<open>A return visit of a pinned Mac from the internet, at a listener bound to every address.\<close>

definition ik_only :: opens where
  "ik_only pattern psk m1 = (if pattern = Hs_Return then Some old_peer else None)"

definition quiet :: admission where "quiet = \<lparr>ad_knocks = [], ad_per_address = [], ad_total = 0\<rparr>"

definition visitor :: socket_addr where "visitor = socket_new (V4 [203, 0, 113, 9]) 50123"
definition everywhere :: socket_addr where "everywhere = socket_new (V4 [0, 0, 0, 0]) 7755"

theorem only_expected_callers_are_answered_witness:
  "fst (serve_connection ik_only None [] everywhere visitor (replicate 96 0) (office\<lparr>pf_internet := True\<rparr>) 5 empty_state empty_state quiet)
     = Returned old_peer
   \<and> old_peer \<in> pn_node ` set (pf_peers (office\<lparr>pf_internet := True\<rparr>)) \<and> \<not> is_key_banned old_peer empty_state"
proof -
  have "fst (serve_connection ik_only None [] everywhere visitor (replicate 96 0) (office\<lparr>pf_internet := True\<rparr>) 5 empty_state empty_state quiet)
     = Returned old_peer"
    by (simp add: serve_connection_def Let_def is_address_banned_def empty_state_def slot_acquire_def quiet_def
        unauthenticated_allowance_def office_def bare_row_def MAX_UNAUTHENTICATED_SOCKETS_def per_address_def unwrap_or_def
        hm_get_def MAX_UNAUTHENTICATED_PER_ADDRESS_def from_message_1_len_def KNOCK_MESSAGE_1_LEN_def XX_MESSAGE_1_LEN_def
        PAIR_MESSAGE_1_PAYLOAD_LEN_def INSTANCE_ID_BYTES_def XX_MESSAGE_1_LEN_V1_def KNOCK_PSK_MESSAGE_1_LEN_def
        IK_MESSAGE_1_LEN_def internet_admission_def accept_pairing_or_return_def ik_only_def pin_check_rows_def
        old_peer_def is_key_banned_def)
  from only_expected_callers_are_answered [OF this] this show ?thesis by simp
qed

definition serve_frame :: stream_header where
  "serve_frame = \<lparr>sh_kind = Serve_Kind, sh_target = None, sh_via = [], sh_hops_remaining = 1, sh_request_id = 9\<rparr>"

definition lending_office :: peer_file where
  "lending_office = office\<lparr>pf_peers := [(bare_row old_peer ''attic'' [] 0)\<lparr>pn_allow := default_allow\<lparr>al_inspect := True\<rparr>\<rparr>]\<rparr>"

theorem streams_need_their_grant_witness:
  "\<exists>row. row_of old_peer lending_office = Some row \<and> al_inspect (pn_allow row) \<and> new_peer \<notin> set (sh_via serve_frame)"
proof -
  have "serve_stream new_peer (Returned old_peer) serve_frame None 5 lending_office = Stream_Open Serve_Kind"
    by (simp add: serve_stream_def peer_stream_gate_rows_def row_of_def lending_office_def bare_row_def serve_frame_def
        stream_granted_def peer_stream_gate_hop_def dedup_admit_def Let_def)
  with streams_need_their_grant [of new_peer "Returned old_peer" serve_frame None 5 lending_office Serve_Kind]
  show ?thesis by (auto simp: stream_granted_def serve_frame_def)
qed

theorem knocks_are_rate_limited_witness:
  "int (let_through ''10.0.0.7'' [(''10.0.0.7'', 5), (''10.0.0.8'', 6), (''10.0.0.7'', 7), (''10.0.0.7'', 8), (''10.0.0.7'', 9)] []) \<le> 3"
proof -
  have "int (let_through ''10.0.0.7'' [(''10.0.0.7'', 5), (''10.0.0.8'', 6), (''10.0.0.7'', 7), (''10.0.0.7'', 8), (''10.0.0.7'', 9)] [])
        \<le> 3 + (9 - 0) div 10000"
    by (rule knocks_are_rate_limited) (simp_all add: i64_max_def)
  then show ?thesis by simp
qed

end
