(* ===== verification/Spec2Isabelle.thy ===== *)
theory Spec2Isabelle
  imports Account_Props Exhaustion Schedule Handle_Props Pin_Store Config_Reload Conversation Token_Store Relay_Props Lease_Scope Edge_Props Serve Knock_Props Listener
begin

text \<open>
  Verification of the routing core of \<open>tcr\<close>, a local proxy that spreads Claude and Codex requests
  over a fleet of accounts. The sources are under \<^verbatim>\<open>src/\<close> of the repository; this library models the
  part of them that decides which requests the pool may serve, which account a request goes to, what an
  answer does to that account, when the proxy gives up, and which other machines it deals with.

  \<^bold>\<open>The program.\<close> A request that arrives plain or out of a \<open>CONNECT\<close> tunnel passes the gates of
  \<open>handle_request\<close> (\<^verbatim>\<open>src/proxy.rs\<close>), which refuse it, relay it or hand it to \<open>handle\<close>. \<open>handle\<close> asks the \<open>Manager\<close>
  (\<^verbatim>\<open>src/manager/\<close>) for an account, waits for the outbound throttle, sends, and folds the response back
  into the account's runtime record; a failed send moves the request down a ladder of retries and
  other accounts until something is served, a verdict is reached or the attempt budget is spent. The
  manager keeps the accounts, the session pins that keep a conversation where its prompt cache is, the
  divert ledger, the group settings and the lock; a scheduler probes idle accounts in the background;
  pins and the tokens of bound conversations survive a restart in files. A node can lend part of its quota
  to another one: its ledger grants leases, charges them, and relays the borrower's requests through its
  own \<open>handle\<close> (\<^verbatim>\<open>src/peer/\<close>). Two nodes meet through the peer listener: a stranger knocks and is put in a
  queue, the operator accepts, ignores or blocks it, an invitation enrols a machine with no operator at it,
  and what a pinned machine may do is written on its row of the peers file.

  \<^bold>\<open>Theories and sources.\<close>
  \<^item> \<open>Prelude\<close>, \<open>F64\<close>, \<open>Json\<close>, \<open>Strings\<close>: 64-bit integers with their saturating operations, the
    standard library's string operations and decimal and hexadecimal numbers, binary64 with its rounding,
    decoded JSON values; the ``best so far'' scan and the locale \<open>ranked_pick\<close> that every account pick
    interprets.
  \<^item> \<open>Provider\<close>: \<^verbatim>\<open>provider.rs\<close>, \<^verbatim>\<open>model.rs\<close>. Which upstream a path belongs to, which model is Fable.
  \<^item> \<open>Capped_Map\<close>: \<^verbatim>\<open>manager/capped_map.rs\<close>. The bounded maps; the locale \<open>bounded_store\<close> and a
    refinement of the set to a list in recency order.
  \<^item> \<open>Quota\<close>: \<^verbatim>\<open>quota.rs\<close>. Windows, the header and usage folds, Codex refusals.
  \<^item> \<open>Account\<close>, \<open>Account_Ops\<close>, \<open>Account_Props\<close>: the runtime record of \<^verbatim>\<open>manager/mod.rs\<close>; the operations
    of \<^verbatim>\<open>manager/usage.rs\<close>, \<^verbatim>\<open>manager/refresh.rs\<close>, \<^verbatim>\<open>manager/probing.rs\<close>, \<^verbatim>\<open>manager/warm.rs\<close> and the
    in-flight guard; the invariant of every history of them.
  \<^item> \<open>Config_Reload\<close>: \<open>apply_group_reload\<close> and \<open>set_control_by_query\<close> of \<^verbatim>\<open>manager/mod.rs\<close>. Which rows a reload of the
    config file deletes, revives and admits; histories of a whole fleet, over the account operations and the
    router's calls.
  \<^item> \<open>Gates\<close>: \<open>eligible\<close>, the hard gates, \<open>account_gate\<close> and its clearing instant, of
    \<^verbatim>\<open>manager/select.rs\<close>.
  \<^item> \<open>Manager_State\<close>, \<open>Select\<close>, \<open>Select_Props\<close>: the manager's tables and \<open>select_with_group\<close>.
  \<^item> \<open>Revalidation\<close>: \<open>select_revalidation\<close>, the spaced last resort.
  \<^item> \<open>Exhaustion\<close>: \<open>exhaustion_hint\<close> and the Codex folds of \<^verbatim>\<open>manager/state.rs\<close>.
  \<^item> \<open>Identity\<close>: \<^verbatim>\<open>identity.rs\<close>. Keys, comparison, resolution, minted names.
  \<^item> \<open>Throttle\<close>: \<^verbatim>\<open>manager/throttle.rs\<close>. The two buckets, under the locale \<open>gcra_bucket\<close> and its
    extension \<open>gcra_alone\<close> for a bucket nothing else delays.
  \<^item> \<open>Schedule\<close>: \<^verbatim>\<open>schedule.rs\<close>. The probe schedule and its loop as a step relation.
  \<^item> \<open>Bound\<close>, \<open>Token_Map\<close>, \<open>Bound_Tokens\<close>, \<open>Token_Store\<close>: \<^verbatim>\<open>manager/bound_tokens.rs\<close>,
    \<^verbatim>\<open>bound_tokens.rs\<close>. Conversations bound to the account that encrypted them: the choice of the account,
    the sharded map under the locale \<open>token_store\<close>, the manager's operations on it, its file.
  \<^item> \<open>Ladder\<close>: \<^verbatim>\<open>proxy/ladder.rs\<close> and the response arms of \<^verbatim>\<open>proxy.rs\<close>.
  \<^item> \<open>Handle\<close>, \<open>Handle_Props\<close>, \<open>Conversation\<close>: the selection and rotation loop of \<open>handle\<close>; a
    conversation from the tokens of its body to the account that serves it.
  \<^item> \<open>Pin_Store\<close>: \<^verbatim>\<open>affinity.rs\<close>, \<^verbatim>\<open>manager/pins.rs\<close>, \<^verbatim>\<open>cache_file.rs\<close>, \<^verbatim>\<open>save_gate.rs\<close>.
  \<^item> \<open>Lend_Schedule\<close>: \<^verbatim>\<open>peer/schedule.rs\<close>. When lending is open and when it closes.
  \<^item> \<open>Peer_Wire\<close>: \<^verbatim>\<open>crates/tcr-peer-wire\<close>. Frames, ids, labels, scopes, lease messages.
  \<^item> \<open>Lease\<close>, \<open>Lease_Props\<close>, \<open>Relay_Props\<close>: \<^verbatim>\<open>peer/lease.rs\<close>, \<^verbatim>\<open>peer/serve.rs\<close>. The lender's ledger:
    granting, relaying, the memory of relayed requests, charging; its histories as lists of operations.
  \<^item> \<open>Peer_Lend\<close>: \<^verbatim>\<open>manager/peer_lend.rs\<close>. What the fleet can lend; the locale \<open>lender_fleet\<close> is the
    contract the ledger relies on, interpreted on the manager.
  \<^item> \<open>Lease_Scope\<close>: the scope of a lease from the ledger's answer to the sends of the request loop.
  \<^item> \<open>Headers\<close>: \<^verbatim>\<open>proxy.rs\<close>, \<^verbatim>\<open>peer/serve.rs\<close>. Header maps and what a pooled, a relayed and a lent
    request carry.
  \<^item> \<open>Request_Key\<close>: \<^verbatim>\<open>request_key.rs\<close>, \<^verbatim>\<open>codex_oauth.rs\<close>. The credential of a caller, its base64, the
    counters of callers without one.
  \<^item> \<open>Edge\<close>, \<open>Edge_Props\<close>: \<^verbatim>\<open>proxy.rs\<close>, \<^verbatim>\<open>mitm.rs\<close>, \<^verbatim>\<open>control_identity.rs\<close>. The gates in front of the pool, the gate
    of the local endpoints, \<open>CONNECT\<close>, session keys.
  \<^item> \<open>Url_Path\<close>, \<open>Serve\<close>: \<^verbatim>\<open>peer/serve.rs\<close>, \<^verbatim>\<open>fallback.rs\<close>. The borrower's frame, the lender's gates and its own
    request; what the URL standard says of the path it sets.
  \<^item> \<open>Peer_Addr\<close>: \<^verbatim>\<open>peer/listener.rs\<close>, \<^verbatim>\<open>status/network_fact.rs\<close>, \<^verbatim>\<open>peer/noise.rs\<close>, \<^verbatim>\<open>peer/pair.rs\<close>. Socket
    addresses as text, address classes, first messages by their length, the gate on callers from outside.
  \<^item> \<open>Knocks\<close>, \<open>Knock_Props\<close>: \<^verbatim>\<open>peer/state.rs\<close> and verbs of \<^verbatim>\<open>main.rs\<close>. Knocks, mutes, bans and pairing windows;
    every history of the file as a list of operations with their instants.
  \<^item> \<open>Join_Key\<close>: \<^verbatim>\<open>peer/dialaddrs.rs\<close>, \<^verbatim>\<open>peer/pair.rs\<close>. The key an operator pastes, in its three spellings.
  \<^item> \<open>Pairing\<close>, \<open>Pairing_Props\<close>: \<^verbatim>\<open>peer/config.rs\<close>, \<^verbatim>\<open>peer/pair.rs\<close>, \<^verbatim>\<open>peer/noise.rs\<close>. The peers file, invitations,
    enrolment, pins and places; its histories.
  \<^item> \<open>Listener\<close>: \<^verbatim>\<open>peer/listener.rs\<close>, \<^verbatim>\<open>peer/noise.rs\<close>. Knock buckets, sockets that have not authenticated, the
    order of checks before the first byte, the gates of a stream.

  A Rust struct is a record and an enum a datatype with the source's variants; a method on
  \<open>&mut self\<close> returns the updated record; an \<open>i64\<close> is an \<open>int\<close> whose saturating and checked operations
  are written out, an unsigned counter is a word; an instant is the number of nanoseconds since the
  epoch. A hash map is an association list without repeated keys; where the code iterates over one, the
  result is proved for the order of the list, and the list is arbitrary.

  \<^bold>\<open>What is shown.\<close> Of selection: every account it returns is admissible and in service, a servable
  request is served, pins stay while the cache is warm and migration is off, a call changes nothing but its own session, the
  pool rotates in the order of its key, the control account is kept out of inference, each under the
  lock and group settings its statement names; a migration never
  overshoots, a divert has one destination, a deleted account is not served again. Of the gates and the hint: the reported gate agrees with
  the admission test, the instant it names is exact, and waiting out the hint is rewarded. Of quota and
  accounts: the invariants of every fold, the bounds on learned windows, holds and back-offs, the
  balance of the in-flight count. Of the throttle and the scheduler: how far apart sends are, how many
  probes an hour sees. Of the loop: it ends, a held conversation stays on its account, and what it
  answers when every send failed in transport. Of the stores: a restart keeps the pins and the tokens, and the
  token map implements one plain map, its look-ups and its two indexes included. Of conversations: a history goes
  back to the account that minted it, its first turn and every send until the walk releases it.
  Of leases: how large one is and that the fleet has the room it promises, who may spend it, when and how
  many times, that a request is relayed and charged once, that it stays inside the accounts it was lent, by list
  or by group, through the whole rotation.
  Of the edge: which requests reach the pool, what a tunnel decides for the requests out of it, when a caller
  counts as keyed, and that a pooled request carries the bearer of the account that serves it, a relayed one the
  client's own, and neither a secret of this proxy. Of two machines: that a lent request, on a path without tab or
  newline, passes the lender's own gates, that the
  frame carries no credential, which callers the listener answers, how often an address may knock, that a first
  pairing was accepted by the operator, that a block holds, that an invitation admits no more machines than
  its uses, that an enrolled machine is granted nothing and a forgotten one is refused, and which join keys can
  be read back.

  \<^bold>\<open>Bounds and fuel.\<close> \<open>turns\<close> takes the number of turns left. The code's own budget is
  \<open>max_attempts_for\<close>, nine attempts per account and seven more. \<open>Handle_Props\<close> gives every walk
  a measure of what it has left, at most ten turns per account and seven more, which every turn that
  goes on lowers: with that much fuel the loop ends for a reason of its own. \<open>evict_oldest\<close> takes as fuel
  the number of remembered requests, of which every step drops one. The other functions are total.

  \<^bold>\<open>Parameters.\<close> Parsing of timestamps (the \<open>time\<close> crate), decoding and printing of JSON text, the
  outcome of a send, of a token refresh and of a peer's route, the machine's offset from UTC, the random
  id of a lease, the digests of tokens, and what other requests do to the fleet between two turns are
  arguments or events; what other requests do may change every account and table, but a row is not added while one
  request is walked (\<open>env_ok\<close>). So are the construction of a header value from a text, the hash of a session key, the
  user id and the prefix read out of a body, what a client's bearer resolves to, the base32 of a join key, the
  secrets and ids drawn at random, the building of a URL from a base, a path and a query (\<open>make_url\<close>, of which the
  relay assumes what the URL standard says of setting a path), and the Noise handshake: \<open>opens\<close> tells which key a first message proves.
  A file kept under a lock is a value, and one locked read, change and save is one step. Critical sections are taken as atomic, in the order the
  code takes its locks. A header that cannot be read counts as absent. Only ASCII white space is
  trimmed. An instant past the year 9999, where adding a window would overflow, is not considered.

  \<^bold>\<open>Not modelled.\<close> Texts of error messages and logs; the group file reload before a call, which is a
  change of the state between calls; the scan of a body for bound tokens; request bodies, cache lifetimes in
  them and what is read out of them; the handlers behind the local gate; session tables, usage ledger and
  status output, which decide nothing; the reading and writing of configuration files; logins and the network side of a refresh; the
  certificates and sockets of the intercepting proxy; between machines the cryptography of the transport, the
  control loop, discovery, router mappings, tunnels, moved addresses, the dead drop, share links and the
  borrower's cache of leases; the generation of keys; the command line, the terminal interface and the services
  of the operating system.
\<close>

end
